(* ===== verification/Aicr_Prelude.thy ===== *)
theory Aicr_Prelude
  imports Main "HOL-Library.Multiset" "HOL-Library.Char_ord" "HOL-Library.List_Lexorder"
begin

section \<open>Prelude: Go strings, results with early return, keyed lists\<close>

text \<open>
  What every component shares. A Go string is a list of bytes (HOL's \<open>string\<close>); the order on
  strings is the bytewise lexicographic one, as Go's comparison of strings is. The
  functions of package \<open>strings\<close> that the code calls are modelled on ASCII text:
  \<open>ToLower\<close>, \<open>TrimSpace\<close> and \<open>EqualFold\<close> leave bytes above 127 alone.
  A Go function with an \<open>error\<close> result is a sum, \<open>Inl\<close> the error and \<open>Inr\<close> the value;
  \<open>res_bind\<close> is the \<open>if err != nil { return }\<close> idiom and \<open>res_fold\<close> a loop with it.
\<close>

named_theorems res_simps \<open>inversion of results with early return\<close>

subsection \<open>Results\<close>

definition res_bind :: "'e + 'a \<Rightarrow> ('a \<Rightarrow> 'e + 'b) \<Rightarrow> 'e + 'b" where
  "res_bind r f = (case r of Inl e \<Rightarrow> Inl e | Inr x \<Rightarrow> f x)"

definition res_wrap :: "('e \<Rightarrow> 'e) \<Rightarrow> 'e + 'a \<Rightarrow> 'e + 'a" where
  "res_wrap w r = (case r of Inl e \<Rightarrow> Inl (w e) | Inr x \<Rightarrow> Inr x)"

definition is_ok :: "'e + 'a \<Rightarrow> bool" where
  "is_ok r = (case r of Inl _ \<Rightarrow> False | Inr _ \<Rightarrow> True)"

fun res_fold :: "('s \<Rightarrow> 'a \<Rightarrow> 'e + 's) \<Rightarrow> 's \<Rightarrow> 'a list \<Rightarrow> 'e + 's" where
  "res_fold f s [] = Inr s"
| "res_fold f s (x # xs) = (case f s x of Inl e \<Rightarrow> Inl e | Inr s' \<Rightarrow> res_fold f s' xs)"

lemma res_bind_simps [simp]:
  "res_bind (Inl e) f = Inl e" "res_bind (Inr x) f = f x"
  by (simp_all add: res_bind_def)

lemma res_wrap_simps [simp]:
  "res_wrap w (Inl e) = Inl (w e)" "res_wrap w (Inr x) = Inr x"
  by (simp_all add: res_wrap_def)

lemma is_ok_simps [simp]: "is_ok (Inl e) = False" "is_ok (Inr x) = True"
  by (simp_all add: is_ok_def)

lemma is_ok_iff: "is_ok r \<longleftrightarrow> (\<exists>x. r = Inr x)"
  by (cases r) auto

lemma not_ok_iff: "\<not> is_ok r \<longleftrightarrow> (\<exists>e. r = Inl e)"
  by (cases r) auto

lemma res_bind_Inr [res_simps]: "res_bind r f = Inr y \<longleftrightarrow> (\<exists>x. r = Inr x \<and> f x = Inr y)"
  by (cases r) auto

lemma res_bind_Inl [res_simps]:
  "res_bind r f = Inl e \<longleftrightarrow> r = Inl e \<or> (\<exists>x. r = Inr x \<and> f x = Inl e)"
  by (cases r) auto

lemma res_wrap_Inr [res_simps]: "res_wrap w r = Inr x \<longleftrightarrow> r = Inr x"
  by (cases r) auto

lemma res_wrap_Inl [res_simps]: "res_wrap w r = Inl e \<longleftrightarrow> (\<exists>e'. r = Inl e' \<and> e = w e')"
  by (cases r) auto

lemma is_ok_wrap [simp]: "is_ok (res_wrap w r) = is_ok r"
  by (cases r) auto

lemma res_fold_invariant:
  assumes "res_fold f s xs = Inr t" and "I s"
    and step: "\<And>u x v. x \<in> set xs \<Longrightarrow> I u \<Longrightarrow> f u x = Inr v \<Longrightarrow> I v"
  shows "I t"
  using assms
proof (induction xs arbitrary: s)
  case (Cons x xs)
  then obtain v where v: "f s x = Inr v" "res_fold f v xs = Inr t"
    by (auto split: sum.splits)
  have "I v" using Cons.prems(2,3) v(1) by (meson list.set_intros(1))
  then show ?case
    by (rule Cons.IH [OF v(2)]) (use Cons.prems(3) in \<open>meson list.set_intros(2)\<close>)
qed simp

lemma res_fold_append:
  "res_fold f s (xs @ ys) = res_bind (res_fold f s xs) (\<lambda>t. res_fold f t ys)"
  by (induction xs arbitrary: s) (auto split: sum.splits)

lemma res_fold_snoc: "res_fold f s (xs @ [x]) = Inr t \<longleftrightarrow> (\<exists>u. res_fold f s xs = Inr u \<and> f u x = Inr t)"
  by (cases "res_fold f s xs") (simp_all add: res_fold_append split: sum.split)

subsection \<open>Package strings, on ASCII text\<close>

definition lower_char :: "char \<Rightarrow> char" where
  "lower_char c =
     (let n = (of_char c :: nat) in if 65 \<le> n \<and> n \<le> 90 then char_of (n + 32) else c)"

definition to_lower :: "string \<Rightarrow> string" where
  "to_lower s = map lower_char s"

definition is_space :: "char \<Rightarrow> bool" where
  "is_space c \<longleftrightarrow> (of_char c :: nat) \<in> {9, 10, 11, 12, 13, 32}"

definition trim_space :: "string \<Rightarrow> string" where
  "trim_space s = rev (dropWhile is_space (rev (dropWhile is_space s)))"

definition has_prefix :: "string \<Rightarrow> string \<Rightarrow> bool" where
  "has_prefix s p \<longleftrightarrow> take (length p) s = p"

definition trim_prefix :: "string \<Rightarrow> string \<Rightarrow> string" where
  "trim_prefix s p = (if has_prefix s p then drop (length p) s else s)"

definition has_suffix :: "string \<Rightarrow> string \<Rightarrow> bool" where
  "has_suffix s suf \<longleftrightarrow> length suf \<le> length s \<and> drop (length s - length suf) s = suf"

definition trim_suffix :: "string \<Rightarrow> string \<Rightarrow> string" where
  "trim_suffix s suf = (if has_suffix s suf then take (length s - length suf) s else s)"

definition hex_digit :: "nat \<Rightarrow> char" where
  "hex_digit n = (if n < 10 then char_of (48 + n) else char_of (87 + n))"

definition equal_fold :: "string \<Rightarrow> string \<Rightarrow> bool" where
  "equal_fold s t \<longleftrightarrow> to_lower s = to_lower t"

fun split_on :: "char \<Rightarrow> string \<Rightarrow> string list" where
  "split_on d [] = [[]]"
| "split_on d (c # s) =
     (if c = d then [] # split_on d s
      else (case split_on d s of [] \<Rightarrow> [[c]] | p # ps \<Rightarrow> (c # p) # ps))"

text \<open>\<open>filepath.IsLocal\<close> on Unix: not empty, not absolute, and no prefix of the components climbs out.\<close>

fun stays_below :: "nat \<Rightarrow> string list \<Rightarrow> bool" where
  "stays_below depth [] = True"
| "stays_below depth (p # ps) =
     (if p = [] \<or> p = ''.'' then stays_below depth ps
      else if p = ''..'' then depth > 0 \<and> stays_below (depth - 1) ps
      else stays_below (depth + 1) ps)"

definition filepath_is_local :: "string \<Rightarrow> bool" where
  "filepath_is_local p \<longleftrightarrow> p \<noteq> [] \<and> hd p \<noteq> CHR ''/'' \<and> stays_below 0 (split_on (CHR ''/'') p)"

fun join_with :: "string \<Rightarrow> string list \<Rightarrow> string" where
  "join_with d [] = []"
| "join_with d [p] = p"
| "join_with d (p # q # ps) = p @ d @ join_with d (q # ps)"

lemma of_char_lower_char:
  "of_char (lower_char c) = (let n = (of_char c :: nat) in if 65 \<le> n \<and> n \<le> 90 then n + 32 else n)"
  by (simp add: lower_char_def Let_def)

lemma lower_char_idem [simp]: "lower_char (lower_char c) = lower_char c"
  using of_char_lower_char [of c]
  by (subst lower_char_def) (auto simp: Let_def split: if_splits)

lemma to_lower_idem [simp]: "to_lower (to_lower s) = to_lower s"
  by (simp add: to_lower_def)

lemma length_to_lower [simp]: "length (to_lower s) = length s"
  by (simp add: to_lower_def)

lemma to_lower_Nil_iff [simp]: "to_lower s = [] \<longleftrightarrow> s = []"
  by (simp add: to_lower_def)

lemma equal_fold_refl [simp]: "equal_fold s s"
  by (simp add: equal_fold_def)

lemma lower_char_space [simp]: "is_space (lower_char c) = is_space c"
  by (simp add: is_space_def of_char_lower_char Let_def)

lemma dropWhile_space_lower: "dropWhile is_space (map lower_char s) = map lower_char (dropWhile is_space s)"
  by (induction s) auto

lemma trim_space_lower: "trim_space (to_lower s) = to_lower (trim_space s)"
  by (simp add: trim_space_def to_lower_def dropWhile_space_lower rev_map)

lemma dropWhile_idem: "dropWhile P (dropWhile P xs) = dropWhile P xs"
  by (induction xs) auto

lemma dropWhile_rev_dropWhile:
  "dropWhile P (rev (dropWhile P (rev (dropWhile P xs)))) = rev (dropWhile P (rev (dropWhile P xs)))"
proof (cases "dropWhile P xs")
  case (Cons y ys)
  then have "\<not> P y" by (metis dropWhile_eq_Cons_conv)
  then have "dropWhile P (zs @ [y]) = dropWhile P zs @ [y]" for zs
    by (induction zs) auto
  with \<open>\<not> P y\<close> Cons show ?thesis by simp
next
  case Nil
  then show ?thesis by (simp only: rev.simps dropWhile.simps)
qed

lemma trim_space_idem [simp]: "trim_space (trim_space s) = trim_space s"
  by (simp add: trim_space_def dropWhile_rev_dropWhile dropWhile_idem)

lemma has_prefix_append [simp]: "has_prefix (p @ s) p"
  by (simp add: has_prefix_def)

lemma trim_prefix_append [simp]: "trim_prefix (p @ s) p = s"
  by (simp add: trim_prefix_def)

lemma split_on_not_Nil [simp]: "split_on d s \<noteq> []"
  by (cases s) (auto split: list.splits)

lemma join_with_push: "join_with d ((c # p) # ps) = c # join_with d (p # ps)"
  by (cases ps) auto

lemma join_with_Nil_Cons: "ps \<noteq> [] \<Longrightarrow> join_with d ([] # ps) = d @ join_with d ps"
  by (cases ps) auto

lemma join_with_not_Nil [simp]: "p \<noteq> [] \<Longrightarrow> join_with d (p # ps) \<noteq> []"
  by (cases ps) auto

lemma join_split: "join_with [d] (split_on d s) = s"
proof (induction s)
  case (Cons c s)
  then show ?case
    by (cases "split_on d s") (auto simp: join_with_push join_with_Nil_Cons split del: list.split)
qed simp

lemma split_on_free: "d \<notin> set s \<Longrightarrow> split_on d s = [s]"
  by (induction s) auto

lemma split_on_append: "d \<notin> set p \<Longrightarrow> split_on d (p @ d # s) = p # split_on d s"
  by (induction p) auto

lemma length_split_on: "length (split_on d s) = Suc (length (filter (\<lambda>c. c = d) s))"
  by (induction s) (auto split: list.splits)

subsection \<open>Decimal integers: strconv.Atoi and the verb d of fmt\<close>

text \<open>
  \<open>atoi\<close> is \<open>strconv.Atoi\<close> on a 64-bit platform: an optional sign, at least one digit,
  only digits, and a value that fits an \<open>int64\<close>; anything else is an error (\<open>None\<close>).
\<close>

definition is_digit :: "char \<Rightarrow> bool" where
  "is_digit c \<longleftrightarrow> 48 \<le> (of_char c :: nat) \<and> (of_char c :: nat) \<le> 57"

definition digit_val :: "char \<Rightarrow> nat" where
  "digit_val c = of_char c - 48"

definition digits_val :: "string \<Rightarrow> nat" where
  "digits_val ds = foldl (\<lambda>a c. 10 * a + digit_val c) 0 ds"

definition int64_max :: int where
  "int64_max = 9223372036854775807"

definition atoi :: "string \<Rightarrow> int option" where
  "atoi s =
     (let neg = (case s of c # _ \<Rightarrow> c = CHR ''-'' | [] \<Rightarrow> False);
          ds = (case s of c # r \<Rightarrow> if c = CHR ''-'' \<or> c = CHR ''+'' then r else s | [] \<Rightarrow> []);
          v = (if neg then - int (digits_val ds) else int (digits_val ds))
      in if ds = [] \<or> \<not> list_all is_digit ds then None
         else if v < - int64_max - 1 \<or> int64_max < v then None
         else Some v)"

definition digit_char :: "nat \<Rightarrow> char" where
  "digit_char d = char_of (48 + d)"

fun show_nat :: "nat \<Rightarrow> string" where
  "show_nat n = (if n < 10 then [digit_char n] else show_nat (n div 10) @ [digit_char (n mod 10)])"

declare show_nat.simps [simp del]

definition show_int :: "int \<Rightarrow> string" where
  "show_int i = (if i < 0 then CHR ''-'' # show_nat (nat (- i)) else show_nat (nat i))"

lemma of_char_digit_char: "d < 10 \<Longrightarrow> of_char (digit_char d) = (48 + d :: nat)"
  by (simp add: digit_char_def)

lemma is_digit_digit_char: "d < 10 \<Longrightarrow> is_digit (digit_char d)"
  by (simp add: is_digit_def of_char_digit_char)

lemma digit_val_digit_char: "d < 10 \<Longrightarrow> digit_val (digit_char d) = d"
  by (simp add: digit_val_def of_char_digit_char)

lemma show_nat_digits: "list_all is_digit (show_nat n)"
proof (induction n rule: show_nat.induct)
  case (1 n)
  then show ?case
    by (subst show_nat.simps) (simp add: is_digit_digit_char)
qed

lemma show_nat_not_Nil [simp]: "show_nat n \<noteq> []"
  by (subst show_nat.simps) simp

lemma digits_val_snoc: "digits_val (ds @ [c]) = 10 * digits_val ds + digit_val c"
  by (simp add: digits_val_def)

lemma digits_val_show_nat [simp]: "digits_val (show_nat n) = n"
proof (induction n rule: show_nat.induct)
  case (1 n)
  show ?case
  proof (cases "n < 10")
    case True
    then show ?thesis
      by (subst show_nat.simps) (simp add: digits_val_def digit_val_digit_char)
  next
    case False
    with 1 show ?thesis
      by (subst show_nat.simps) (simp add: digits_val_snoc digit_val_digit_char)
  qed
qed

lemma is_digit_not_sign: "is_digit c \<Longrightarrow> c \<noteq> CHR ''-'' \<and> c \<noteq> CHR ''+'' \<and> c \<noteq> CHR ''.'' \<and> c \<noteq> CHR ''v''"
  by (auto simp: is_digit_def)

lemma show_nat_first_digit: "\<exists>c r. show_nat n = c # r \<and> is_digit c"
  using show_nat_digits [of n] by (cases "show_nat n") auto

lemma atoi_digits:
  assumes "list_all is_digit ds" "ds \<noteq> []" "int (digits_val ds) \<le> int64_max"
  shows "atoi ds = Some (int (digits_val ds))"
proof -
  obtain c r where cr: "ds = c # r" using assms(2) by (cases ds) auto
  then have "c \<noteq> CHR ''-''" "c \<noteq> CHR ''+''"
    using assms(1) is_digit_not_sign [of c] by simp_all
  then have "atoi ds = (if int (digits_val ds) < - int64_max - 1 \<or> int64_max < int (digits_val ds)
      then None else Some (int (digits_val ds)))"
    using assms(1) by (simp add: atoi_def cr)
  then show ?thesis using assms(3) by (simp add: int64_max_def)
qed

lemma atoi_show_nat: "int n \<le> int64_max \<Longrightarrow> atoi (show_nat n) = Some (int n)"
  using atoi_digits [OF show_nat_digits show_nat_not_Nil, of n] by simp

lemma show_nat_free:
  "CHR ''.'' \<notin> set (show_nat n)" "CHR ''-'' \<notin> set (show_nat n)" "CHR ''+'' \<notin> set (show_nat n)"
  using show_nat_digits [of n] is_digit_not_sign by (auto simp: list_all_iff)

lemma atoi_bounds: "atoi s = Some v \<Longrightarrow> - int64_max - 1 \<le> v \<and> v \<le> int64_max"
  by (auto simp: atoi_def Let_def split: if_splits)

subsection \<open>Lists that grow without duplicates\<close>

text \<open>
  The \<open>seen\<close> idiom: append each element of \<open>ys\<close> that the result does not hold yet. The code
  fills \<open>seen\<close> from the list it extends and then records what it appends, so membership in
  \<open>seen\<close> is membership in the result.
\<close>

fun append_new :: "'a list \<Rightarrow> 'a list \<Rightarrow> 'a list" where
  "append_new xs [] = xs"
| "append_new xs (y # ys) = append_new (if y \<in> set xs then xs else xs @ [y]) ys"

lemma set_append_new [simp]: "set (append_new xs ys) = set xs \<union> set ys"
  by (induction xs ys rule: append_new.induct) auto

lemma distinct_append_new [simp]: "distinct (append_new xs ys) = distinct xs"
  by (induction xs ys rule: append_new.induct) auto

lemma append_new_absorb: "set ys \<subseteq> set xs \<Longrightarrow> append_new xs ys = xs"
  by (induction xs ys rule: append_new.induct) auto

lemma append_new_append: "append_new xs (ys @ zs) = append_new (append_new xs ys) zs"
  by (induction xs ys rule: append_new.induct) auto

lemma append_new_prefix: "\<exists>zs. append_new xs ys = xs @ zs \<and> set zs \<subseteq> set ys"
proof (induction xs ys rule: append_new.induct)
  case (2 xs y ys)
  then show ?case by (cases "y \<in> set xs") auto
qed simp

lemma append_new_snoc:
  "append_new xs (ys @ [y]) = (if y \<in> set xs \<union> set ys then append_new xs ys else append_new xs ys @ [y])"
  by (simp add: append_new_append)

lemma append_new_assoc: "append_new xs (append_new ys zs) = append_new (append_new xs ys) zs"
proof (induction zs rule: rev_induct)
  case (snoc z zs)
  show ?case
  proof (cases "z \<in> set ys \<union> set zs")
    case True
    with snoc show ?thesis by (auto simp: append_new_snoc)
  next
    case False
    with snoc show ?thesis by (simp add: append_new_snoc)
  qed
qed simp

subsection \<open>Keyed lists: Go maps listed in some iteration order\<close>

text \<open>
  A Go map is a list of entries with distinct keys; the order of the list is the order in which
  one run of the program iterates over it, which Go leaves open. \<open>upsert\<close> is \<open>m[k] = v\<close>.
\<close>

fun upsert :: "'k \<Rightarrow> 'v \<Rightarrow> ('k \<times> 'v) list \<Rightarrow> ('k \<times> 'v) list" where
  "upsert k v [] = [(k, v)]"
| "upsert k v ((k', v') # m) = (if k' = k then (k, v) # m else (k', v') # upsert k v m)"

lemma map_of_upsert [simp]: "map_of (upsert k v m) = (map_of m)(k \<mapsto> v)"
  by (induction m) auto

lemma keys_upsert [simp]: "fst ` set (upsert k v m) = insert k (fst ` set m)"
proof (induction m)
  case (Cons a m)
  then show ?case by (cases a) auto
qed simp

lemma distinct_upsert: "distinct (map fst m) \<Longrightarrow> distinct (map fst (upsert k v m))"
proof (induction m)
  case (Cons a m)
  then show ?case
    using keys_upsert [of k v m] by (cases a) auto
qed simp

lemma upsert_fresh: "k \<notin> fst ` set m \<Longrightarrow> upsert k v m = m @ [(k, v)]"
  by (induction m) auto

lemma set_upsert_subset: "set (upsert k v m) \<subseteq> insert (k, v) (set m)"
proof (induction m)
  case (Cons a m)
  then show ?case by (cases a) auto
qed simp

text \<open>Sorting by a key that is distinct on the list depends on the elements only, not on their order.\<close>

lemma sort_key_unique:
  assumes "inj_on f (set xs)" "mset xs = mset ys"
  shows "sort_key f xs = sort_key f ys"
proof (rule sort_key_inj_key_eq)
  show "mset xs = mset (sort_key f ys)" using assms(2) by simp
qed (simp_all add: assms(1))

end
