(* ===== verification/Aicr_Errors.thy ===== *)
theory Aicr_Errors
  imports Aicr_Prelude
begin

section \<open>Structured errors (pkg/errors)\<close>

text \<open>
  \<open>go_error\<close> is the Go \<open>error\<close> interface as the program uses it: the two context
  sentinels, an error with text only, and \<open>*StructuredError\<close>. A message is its format text
  with the list of its arguments (\<open>fmt.Sprintf\<close> is left unrendered); the \<open>Context\<close> map of a
  structured error, which only the log reads, is left out.
\<close>

datatype error_code =
    ErrCodeNotFound | ErrCodeUnauthorized | ErrCodeTimeout | ErrCodeInternal
  | ErrCodeInvalidRequest | ErrCodeRateLimitExceeded | ErrCodeMethodNotAllowed
  | ErrCodeUnavailable | ErrCodeConflict | ErrCodeCanceled

type_synonym message = "string \<times> string list"

datatype go_error =
    CtxCanceled
  | CtxDeadlineExceeded
  | PlainError string
  | StructuredError error_code message "go_error option"

type_synonym 'a res = "go_error + 'a"

definition err_new :: "error_code \<Rightarrow> string \<Rightarrow> string list \<Rightarrow> go_error" where
  "err_new c fmt args = StructuredError c (fmt, args) None"

definition err_wrap :: "error_code \<Rightarrow> string \<Rightarrow> string list \<Rightarrow> go_error \<Rightarrow> go_error" where
  "err_wrap c fmt args cause = StructuredError c (fmt, args) (Some cause)"

text \<open>\<open>errors.Is(err, New(code, ""))\<close>: walk the chain of causes for the code.\<close>

fun err_is :: "error_code \<Rightarrow> go_error \<Rightarrow> bool" where
  "err_is c CtxCanceled = False"
| "err_is c CtxDeadlineExceeded = False"
| "err_is c (PlainError _) = False"
| "err_is c (StructuredError c' _ cause) =
     (c' = c \<or> (case cause of None \<Rightarrow> False | Some e \<Rightarrow> err_is c e))"

text \<open>\<open>errors.Is(err, sentinel)\<close> for the two context sentinels.\<close>

fun err_chain_has :: "go_error \<Rightarrow> go_error \<Rightarrow> bool" where
  "err_chain_has t (StructuredError c m cause) =
     (t = StructuredError c m cause \<or> (case cause of None \<Rightarrow> False | Some e \<Rightarrow> err_chain_has t e))"
| "err_chain_has t e = (t = e)"

definition is_transient :: "go_error \<Rightarrow> bool" where
  "is_transient e =
     (if err_is ErrCodeCanceled e then False
      else err_chain_has CtxDeadlineExceeded e \<or> err_chain_has CtxCanceled e \<or> err_is ErrCodeTimeout e)"

definition err_code :: "go_error \<Rightarrow> error_code option" where
  "err_code e = (case e of StructuredError c _ _ \<Rightarrow> Some c | _ \<Rightarrow> None)"

definition propagate_or_wrap :: "error_code \<Rightarrow> string \<Rightarrow> go_error \<Rightarrow> go_error" where
  "propagate_or_wrap c fmt e = (if err_code e \<noteq> None then e else err_wrap c fmt [] e)"

lemma err_code_simps [simp]:
  "err_code (err_new c f a) = Some c" "err_code (err_wrap c f a e) = Some c"
  by (simp_all add: err_code_def err_new_def err_wrap_def)

lemma err_is_new [simp]: "err_is c (err_new c' f a) \<longleftrightarrow> c' = c"
  by (simp add: err_new_def)

lemma err_is_wrap [simp]: "err_is c (err_wrap c' f a e) \<longleftrightarrow> c' = c \<or> err_is c e"
  by (simp add: err_wrap_def)

lemma err_new_inject [simp]: "err_new c f a = err_new c' f' a' \<longleftrightarrow> c = c' \<and> f = f' \<and> a = a'"
  by (simp add: err_new_def)

lemma err_wrap_inject [simp]:
  "err_wrap c f a e = err_wrap c' f' a' e' \<longleftrightarrow> c = c' \<and> f = f' \<and> a = a' \<and> e = e'"
  by (simp add: err_wrap_def)

lemma err_new_not_wrap [simp]: "err_new c f a \<noteq> err_wrap c' f' a' e" "err_wrap c' f' a' e \<noteq> err_new c f a"
  by (simp_all add: err_new_def err_wrap_def)

lemma propagate_or_wrap_coded [simp]: "err_code e \<noteq> None \<Longrightarrow> propagate_or_wrap c f e = e"
  by (simp add: propagate_or_wrap_def)

lemma err_code_propagate_or_wrap:
  "err_code (propagate_or_wrap c f e) = Some (case err_code e of Some c' \<Rightarrow> c' | None \<Rightarrow> c)"
  by (auto simp: propagate_or_wrap_def)

lemma err_is_propagate_or_wrap: "err_is c e \<Longrightarrow> err_is c (propagate_or_wrap c' f e)"
  by (simp add: propagate_or_wrap_def)

subsection \<open>Checks\<close>

text \<open>A rejected request, and a loop of checks that stops at the first failure.\<close>

definition invalid :: "string \<Rightarrow> string list \<Rightarrow> 'a res" where
  "invalid fmt args = Inl (err_new ErrCodeInvalidRequest fmt args)"

lemma invalid_not_ok [simp]: "is_ok (invalid fmt args) = False" "invalid fmt args \<noteq> Inr x" "Inr x \<noteq> invalid fmt args"
  by (simp_all add: invalid_def)

fun each :: "('a \<Rightarrow> 'e + unit) \<Rightarrow> 'a list \<Rightarrow> 'e + unit" where
  "each f [] = Inr ()"
| "each f (x # xs) = (case f x of Inl err \<Rightarrow> Inl err | Inr _ \<Rightarrow> each f xs)"

lemma is_ok_each [simp]: "is_ok (each f xs) \<longleftrightarrow> (\<forall>x \<in> set xs. is_ok (f x))"
  by (induction xs) (auto split: sum.splits simp: is_ok_iff)

lemma is_ok_unit: "(r :: 'e + unit) = Inr () \<longleftrightarrow> is_ok r"
  by (auto simp: is_ok_iff)

lemma is_ok_bind: "is_ok (res_bind r f) \<longleftrightarrow> (\<exists>x. r = Inr x \<and> is_ok (f x))"
  by (cases r) simp_all

end
