(* ===== verification/Measurement.thy ===== *)
theory Measurement
  imports Aicr_Errors
begin


section \<open>Measurements and the paths that address them (pkg/measurement)\<close>

text \<open>
  Snapshots are measurements with subtypes; a constraint names a reading by a path. The theory has the types with their
  validation and merge, the grammar of paths with the lookup of a path, the filters, the catalog of what
  a path can address and the suggestions for misspelled names. A float is held by the text that printing gives. Maps are
  association lists; a loop over one stops at the first match, so its order matters to no result here. \<open>Data\<close> maps
  come from decoding and hold no nil reading.
\<close>

subsection \<open>Positions of characters\<close>

fun char_index :: "char \<Rightarrow> string \<Rightarrow> nat option" where
  "char_index c [] = None"
| "char_index c (x # s) = (if x = c then Some 0 else map_option Suc (char_index c s))"

fun last_char_index :: "char \<Rightarrow> string \<Rightarrow> nat option" where
  "last_char_index c [] = None"
| "last_char_index c (x # s) =
     (case last_char_index c s of Some i \<Rightarrow> Some (Suc i) | None \<Rightarrow> if x = c then Some 0 else None)"

lemma char_index_Some: "char_index c s = Some i \<Longrightarrow> s = take i s @ c # drop (Suc i) s \<and> c \<notin> set (take i s) \<and> i < length s"
  by (induction s arbitrary: i) (auto split: if_splits)

lemma char_index_None: "char_index c s = None \<longleftrightarrow> c \<notin> set s"
  by (induction s) auto

lemma last_char_index_Some: "last_char_index c s = Some i \<Longrightarrow> s = take i s @ c # drop (Suc i) s \<and> i < length s"
  by (induction s arbitrary: i) (auto split: if_splits option.splits)

lemma last_char_index_None: "last_char_index c s = None \<longleftrightarrow> c \<notin> set s"
  by (induction s) (auto split: option.splits)

lemma char_index_mid: "c \<notin> set u \<Longrightarrow> char_index c (u @ c # v) = Some (length u)"
  by (induction u) auto

lemma last_char_index_mid: "c \<notin> set v \<Longrightarrow> last_char_index c (u @ c # v) = Some (length u)"
proof (induction u)
  case Nil
  then show ?case using last_char_index_None [of c v] by simp
qed simp

subsection \<open>Readings, subtypes, measurements\<close>

datatype reading = ReadInt int | ReadUint nat | ReadFloat string | ReadBool bool | ReadStr string

definition reading_string :: "reading \<Rightarrow> string" where
  "reading_string r =
     (case r of
        ReadInt i \<Rightarrow> show_int i
      | ReadUint n \<Rightarrow> show_nat n
      | ReadFloat s \<Rightarrow> s
      | ReadBool b \<Rightarrow> if b then ''true'' else ''false''
      | ReadStr s \<Rightarrow> s)"

record item_entry =
  it_Context :: "(string \<times> string) list"
  it_Data :: "(string \<times> reading) list"

record subtype =
  st_Name :: string
  st_Data :: "(string \<times> reading) list"
  st_Context :: "(string \<times> string) list"
  st_Items :: "item_entry list"

record measurement =
  mt_Type :: string
  mt_Subtypes :: "subtype list"

definition TypeK8s :: string where "TypeK8s = ''K8s''"
definition TypeGPU :: string where "TypeGPU = ''GPU''"
definition TypeOS :: string where "TypeOS = ''OS''"
definition TypeSystemD :: string where "TypeSystemD = ''SystemD''"
definition TypeNodeTopology :: string where "TypeNodeTopology = ''NodeTopology''"
definition TypeNetworkTopology :: string where "TypeNetworkTopology = ''NetworkTopology''"

lemmas measurement_type_names = TypeK8s_def TypeGPU_def TypeOS_def TypeSystemD_def TypeNodeTopology_def TypeNetworkTopology_def

definition measurement_types :: "string list" where
  "measurement_types = [TypeK8s, TypeGPU, TypeOS, TypeSystemD, TypeNodeTopology, TypeNetworkTopology]"

definition parse_type :: "string \<Rightarrow> string option" where
  "parse_type s = find (\<lambda>mt. mt = s) measurement_types"

definition subtype_validate :: "subtype \<Rightarrow> unit res" where
  "subtype_validate st =
     (if st_Name st = [] then invalid ''subtype name cannot be empty'' []
      else if length (st_Data st) = 0 \<and> length (st_Items st) = 0 then
        invalid ''subtype must have at least one data entry or one item entry'' []
      else Inr ())"

definition measurement_validate :: "measurement \<Rightarrow> unit res" where
  "measurement_validate m =
     (if mt_Type m = [] then invalid ''measurement type cannot be empty'' []
      else if length (mt_Subtypes m) = 0 then invalid ''measurement must have at least one subtype'' []
      else each (\<lambda>st. res_wrap (err_wrap ErrCodeInvalidRequest ''subtype[%d]'' []) (subtype_validate st)) (mt_Subtypes m))"

definition get_subtype :: "measurement \<Rightarrow> string \<Rightarrow> subtype option" where
  "get_subtype m name = find (\<lambda>st. st_Name st = name) (mt_Subtypes m)"

definition get_or_create_subtype :: "measurement \<Rightarrow> string \<Rightarrow> measurement \<times> subtype" where
  "get_or_create_subtype m name =
     (case get_subtype m name of
        Some st \<Rightarrow> (m, st)
      | None \<Rightarrow>
          let st = \<lparr>st_Name = name, st_Data = [], st_Context = [], st_Items = []\<rparr>
          in (m \<lparr>mt_Subtypes := mt_Subtypes m @ [st]\<rparr>, st))"

definition get_string :: "subtype \<Rightarrow> string \<Rightarrow> string res" where
  "get_string st key =
     (case map_of (st_Data st) key of
        None \<Rightarrow> Inl (err_new ErrCodeNotFound ''key %q not found'' [key])
      | Some (ReadStr s) \<Rightarrow> Inr s
      | Some _ \<Rightarrow> invalid ''key %q is not a string'' [key])"

subsection \<open>Paths\<close>

datatype selector_kind = SelIndex nat | SelPredicate string string

record item_selector =
  sel_Raw :: string
  sel_Kind :: selector_kind

record path =
  pt_Type :: string
  pt_Subtype :: string
  pt_Key :: string
  pt_Selector :: "item_selector option"

definition PathGPUNodesLabel :: string where "PathGPUNodesLabel = ''NodeTopology.gpu-nodes.label''"

definition parse_item_selector :: "string \<Rightarrow> string \<Rightarrow> item_selector res" where
  "parse_item_selector raw full =
     (if raw = [] then invalid ''invalid constraint path: item selector is empty'' [full]
      else case char_index CHR ''='' raw of
        Some eq \<Rightarrow>
          let k = take eq raw; v = drop (Suc eq) raw in
          if k = [] \<or> v = [] then
            invalid ''invalid constraint path: predicate selector requires non-empty key and value'' [full, raw]
          else Inr \<lparr>sel_Raw = raw, sel_Kind = SelPredicate k v\<rparr>
      | None \<Rightarrow>
          (case atoi raw of
             None \<Rightarrow> invalid ''invalid constraint path: item selector must be an integer index or 'key=value' predicate'' [full, raw]
           | Some idx \<Rightarrow>
               if idx < 0 then invalid ''invalid constraint path: item index cannot be negative'' [full, raw]
               else Inr \<lparr>sel_Raw = raw, sel_Kind = SelIndex (nat idx)\<rparr>))"

definition parse_selected :: "string \<Rightarrow> string \<Rightarrow> nat \<Rightarrow> (string \<times> item_selector option \<times> string) res" where
  "parse_selected rest full open_at =
     (let sub = take open_at rest; inner = drop (Suc open_at) rest in
      if sub = [] then invalid ''invalid constraint path: subtype before '[' is empty'' [full]
      else case char_index CHR '']'' inner of
        None \<Rightarrow> invalid ''invalid constraint path: unclosed item selector bracket'' [full]
      | Some close_at \<Rightarrow>
          res_bind (parse_item_selector (take close_at inner) full) (\<lambda>sel.
            case drop (Suc close_at) inner of
              [] \<Rightarrow> invalid ''invalid constraint path: missing key after item selector'' [full]
            | c # key \<Rightarrow>
                if c \<noteq> CHR ''.'' then invalid ''invalid constraint path: expected '.' after item selector'' [full]
                else if key = [] then invalid ''invalid constraint path: missing key after item selector'' [full]
                else Inr (sub, Some sel, key)))"

text \<open>\<open>last_dot\<close> is what the catalog says of the type: its subtype names contain dots.\<close>

definition parse_subtype_selector_key ::
  "bool \<Rightarrow> string \<Rightarrow> string \<Rightarrow> (string \<times> item_selector option \<times> string) res" where
  "parse_subtype_selector_key last_dot rest full =
     (case (char_index CHR ''['' rest, char_index CHR ''.'' rest) of
        (Some b, None) \<Rightarrow> parse_selected rest full b
      | (None, None) \<Rightarrow> invalid ''invalid constraint path: expected format {Type}.{Subtype}.{Key}'' [full]
      | (bracket, Some d) \<Rightarrow>
          if (case bracket of None \<Rightarrow> False | Some b \<Rightarrow> b < d) then parse_selected rest full (the bracket)
          else
            let at = (if last_dot then (case last_char_index CHR ''.'' rest of None \<Rightarrow> d | Some i \<Rightarrow> i) else d);
                sub = take at rest; key = drop (Suc at) rest
            in if sub = [] \<or> key = [] then invalid ''invalid constraint path: subtype or key is empty'' [full]
               else Inr (sub, None, key))"

definition path_string :: "path \<Rightarrow> string" where
  "path_string p =
     (case pt_Selector p of
        Some sel \<Rightarrow> pt_Type p @ ''.'' @ pt_Subtype p @ ''['' @ sel_Raw sel @ ''].'' @ pt_Key p
      | None \<Rightarrow> pt_Type p @ ''.'' @ pt_Subtype p @ ''.'' @ pt_Key p)"

subsection \<open>Looking a path up in a snapshot\<close>

definition lookup_in_item :: "item_entry \<Rightarrow> path \<Rightarrow> string res" where
  "lookup_in_item item p =
     (case map_of (it_Data item) (pt_Key p) of
        Some r \<Rightarrow> Inr (reading_string r)
      | None \<Rightarrow>
          (case map_of (it_Context item) (pt_Key p) of
             Some v \<Rightarrow> Inr v
           | None \<Rightarrow> Inl (err_new ErrCodeNotFound ''key not found in item'' [pt_Key p])))"

definition item_matches_predicate :: "item_entry \<Rightarrow> string \<Rightarrow> string \<Rightarrow> bool" where
  "item_matches_predicate item k v =
     (case map_of (it_Data item) k of
        Some r \<Rightarrow> reading_string r = v
      | None \<Rightarrow> (case map_of (it_Context item) k of Some v' \<Rightarrow> v' = v | None \<Rightarrow> False))"

text \<open>The search for the one item that matches; the second match is an error.\<close>

fun match_items :: "string \<Rightarrow> string \<Rightarrow> item_entry option \<Rightarrow> item_entry list \<Rightarrow> item_entry option res" where
  "match_items k v found [] = Inr found"
| "match_items k v found (item # items) =
     (if item_matches_predicate item k v then
        (if found \<noteq> None then Inl (err_new ErrCodeConflict ''item predicate matches multiple entries'' [])
         else match_items k v (Some item) items)
      else match_items k v found items)"

definition extract_from_items :: "subtype \<Rightarrow> item_selector \<Rightarrow> path \<Rightarrow> string res" where
  "extract_from_items st sel p =
     (if length (st_Items st) = 0 then
        Inl (err_new ErrCodeNotFound ''subtype has no items but path uses an item selector'' [pt_Subtype p])
      else case sel_Kind sel of
        SelIndex idx \<Rightarrow>
          if idx \<ge> length (st_Items st) then Inl (err_new ErrCodeNotFound ''item index out of bounds'' [])
          else lookup_in_item (st_Items st ! idx) p
      | SelPredicate k v \<Rightarrow>
          res_bind (match_items k v None (st_Items st)) (\<lambda>found.
            case found of
              None \<Rightarrow> Inl (err_new ErrCodeNotFound ''no item matches predicate'' [sel_Raw sel])
            | Some item \<Rightarrow> lookup_in_item item p))"

text \<open>A snapshot's list may hold nil pointers.\<close>

definition extract_path :: "path \<Rightarrow> measurement option list \<Rightarrow> string res" where
  "extract_path p ms =
     (case find (\<lambda>m. mt_Type m = pt_Type p) (List.map_filter id ms) of
        None \<Rightarrow> Inl (err_new ErrCodeNotFound ''measurement type not found in snapshot'' [pt_Type p])
      | Some m \<Rightarrow>
          (case get_subtype m (pt_Subtype p) of
             None \<Rightarrow> Inl (err_new ErrCodeNotFound ''subtype not found in measurement'' [pt_Subtype p])
           | Some st \<Rightarrow>
               (case pt_Selector p of
                  Some sel \<Rightarrow> extract_from_items st sel p
                | None \<Rightarrow>
                    (case map_of (st_Data st) (pt_Key p) of
                       None \<Rightarrow> Inl (err_new ErrCodeNotFound ''key not found in subtype'' [pt_Key p])
                     | Some r \<Rightarrow> Inr (reading_string r)))))"


subsection \<open>The catalog of addressable paths\<close>

record key_set =
  ks_Open :: bool
  ks_Keys :: "string list"

definition open_keys :: key_set where "open_keys = \<lparr>ks_Open = True, ks_Keys = []\<rparr>"
definition closed_keys :: "string list \<Rightarrow> key_set" where "closed_keys keys = \<lparr>ks_Open = False, ks_Keys = keys\<rparr>"
definition no_keys :: key_set where "no_keys = \<lparr>ks_Open = False, ks_Keys = []\<rparr>"

definition addressable :: "key_set \<Rightarrow> bool" where
  "addressable k \<longleftrightarrow> ks_Open k \<or> length (ks_Keys k) > 0"

definition allows :: "key_set \<Rightarrow> string \<Rightarrow> bool" where
  "allows k key \<longleftrightarrow> ks_Open k \<or> key \<in> set (ks_Keys k)"

record subtype_spec =
  ss_Scalar :: key_set
  ss_Item :: key_set

record type_spec =
  ts_Subtypes :: "(string \<times> subtype_spec) list"
  ts_OpenSubtype :: bool
  ts_DottedSubtype :: bool
  ts_Fallback :: subtype_spec

definition no_subtype_spec :: subtype_spec where
  "no_subtype_spec = \<lparr>ss_Scalar = no_keys, ss_Item = no_keys\<rparr>"

definition scalars :: "key_set \<Rightarrow> subtype_spec" where
  "scalars k = \<lparr>ss_Scalar = k, ss_Item = no_keys\<rparr>"

definition fixed_subtypes :: "(string \<times> subtype_spec) list \<Rightarrow> type_spec" where
  "fixed_subtypes m = \<lparr>ts_Subtypes = m, ts_OpenSubtype = False, ts_DottedSubtype = False, ts_Fallback = no_subtype_spec\<rparr>"

type_synonym path_catalog = "(string \<times> type_spec) list"

definition measurement_catalog :: path_catalog where
  "measurement_catalog =
     [(TypeK8s, fixed_subtypes
        [(''server'', scalars (closed_keys [''version'', ''platform'', ''goVersion''])),
         (''node'', scalars (closed_keys
            [''source-node'', ''provider'', ''provider-id'', ''container-runtime-id'', ''container-runtime-name'',
             ''container-runtime-version'', ''kubelet-version'', ''kernel-version'', ''operating-system'', ''os-image''])),
         (''aks-gpu-pools'', scalars (closed_keys [''gpu-pool-count'', ''gpu-pools'', ''gpu-driver''])),
         (''image'', scalars open_keys),
         (''policy'', scalars open_keys),
         (''slinky-slurm'',
            \<lparr>ss_Scalar = closed_keys
               [''api-available'', ''api-version'', ''collection-state'', ''controller-count'', ''detected'',
                ''nodeset-count'', ''loginset-count'', ''restapi-count'', ''accounting-count''],
             ss_Item = closed_keys
               [''cluster-name'', ''external'', ''accounting-ref-present'', ''partition-enabled'', ''id'', ''kind'',
                ''namespace'', ''name'', ''api-version'', ''controller-id'']\<rparr>),
         (''mariadb-operator'', scalars (closed_keys [''collection-state'', ''api-available'', ''api-version'']))]),
      (TypeGPU, fixed_subtypes
        [(''hardware'', scalars (closed_keys
            [''gpu-present'', ''gpu-count'', ''driver-loaded'', ''detection-source'', ''model'']))]),
      (TypeOS, fixed_subtypes
        [(''release'', scalars open_keys), (''sysctl'', scalars open_keys), (''grub'', scalars open_keys),
         (''kmod'', scalars open_keys), (''extensions'', scalars open_keys)]),
      (TypeSystemD,
         \<lparr>ts_Subtypes = [], ts_OpenSubtype = True, ts_DottedSubtype = True, ts_Fallback = scalars open_keys\<rparr>),
      (TypeNodeTopology, fixed_subtypes
        [(''summary'', scalars (closed_keys [''node-count'', ''taint-count'', ''label-count''])),
         (''label'', scalars open_keys), (''taint'', scalars open_keys)]),
      (TypeNetworkTopology, fixed_subtypes
        [(''identity'', scalars (closed_keys [''pf-count'', ''rail-count''])),
         (''capabilities'', scalars (closed_keys [''sriov'', ''rdma'', ''ib''])),
         (''pfs'', \<lparr>ss_Scalar = no_keys, ss_Item = closed_keys
            [''pciAddress'', ''deviceID'', ''psid'', ''partNumber'', ''rdmaDevice'', ''networkInterface'', ''model'',
             ''connectedGPU'', ''gpuProximity'', ''rail'', ''numaNode'', ''traffic'']\<rparr>),
         (''kernel-modules'', scalars open_keys)])]"

definition splits_on_last_dot :: "string \<Rightarrow> bool" where
  "splits_on_last_dot t = (case map_of measurement_catalog t of None \<Rightarrow> False | Some ts \<Rightarrow> ts_DottedSubtype ts)"

definition parse_path :: "string \<Rightarrow> path res" where
  "parse_path path =
     (if path = [] then invalid ''constraint path cannot be empty'' []
      else case char_index CHR ''.'' path of
        None \<Rightarrow> invalid ''invalid constraint path: expected format {Type}.{Subtype}[selector].{Key}'' [path]
      | Some dot \<Rightarrow>
          (case parse_type (take dot path) of
             None \<Rightarrow> invalid ''invalid measurement type in constraint path'' [take dot path, path]
           | Some t \<Rightarrow>
               res_bind (parse_subtype_selector_key (splits_on_last_dot t) (drop (Suc dot) path) path) (\<lambda>(sub, sel, key).
                 Inr \<lparr>pt_Type = t, pt_Subtype = sub, pt_Key = key, pt_Selector = sel\<rparr>)))"

subsection \<open>The runes of a string\<close>

text \<open>Go's conversion of a string to \<open>[]rune\<close>: the bytes are decoded as UTF-8, and a byte that starts no well-formed
  sequence is the replacement rune. For a leading byte: how many bytes follow, and the range of the first of them.\<close>

definition rune_shape :: "nat \<Rightarrow> (nat \<times> nat \<times> nat) option" where
  "rune_shape b =
     (if 0xC2 \<le> b \<and> b \<le> 0xDF then Some (1, 0x80, 0xBF)
      else if b = 0xE0 then Some (2, 0xA0, 0xBF)
      else if b = 0xED then Some (2, 0x80, 0x9F)
      else if 0xE1 \<le> b \<and> b \<le> 0xEF then Some (2, 0x80, 0xBF)
      else if b = 0xF0 then Some (3, 0x90, 0xBF)
      else if 0xF1 \<le> b \<and> b \<le> 0xF3 then Some (3, 0x80, 0xBF)
      else if b = 0xF4 then Some (3, 0x80, 0x8F)
      else None)"

definition decode_rune :: "nat \<Rightarrow> nat list \<Rightarrow> nat \<times> nat" where
  "decode_rune b bs =
     (if b < 0x80 then (b, 0)
      else case rune_shape b of
        None \<Rightarrow> (0xFFFD, 0)
      | Some (n, lo, hi) \<Rightarrow>
          if n \<le> length bs \<and> lo \<le> bs ! 0 \<and> bs ! 0 \<le> hi \<and> list_all (\<lambda>c. 0x80 \<le> c \<and> c \<le> 0xBF) (take n bs)
          then (foldl (\<lambda>r c. r * 64 + c mod 64) (b mod 2 ^ (6 - n)) (take n bs), n)
          else (0xFFFD, 0))"

fun decode_runes :: "nat list \<Rightarrow> nat list" where
  "decode_runes [] = []"
| "decode_runes (b # bs) = fst (decode_rune b bs) # decode_runes (drop (snd (decode_rune b bs)) bs)"

definition go_runes :: "string \<Rightarrow> nat list" where
  "go_runes s = decode_runes (map of_char s)"

definition ascii :: "string \<Rightarrow> bool" where
  "ascii s = list_all (\<lambda>c. (of_char c :: nat) < 0x80) s"

lemma go_runes_ascii: "ascii s \<Longrightarrow> go_runes s = map of_char s"
  unfolding go_runes_def by (induction s) (simp_all add: ascii_def decode_rune_def)

subsection \<open>The nearest name\<close>

definition max_suggestion_distance :: nat where "max_suggestion_distance = 2"

text \<open>The cells of one row: \<open>left\<close> is the cell before, \<open>prev\<close> the row above from the column before on.\<close>

fun row_cells :: "'a \<Rightarrow> 'a list \<Rightarrow> nat \<Rightarrow> nat list \<Rightarrow> nat list" where
  "row_cells x (y # ys) left (d # u # prev) =
     (let v = min (u + 1) (min (left + 1) (d + (if x = y then 0 else 1)))
      in v # row_cells x ys v (u # prev))"
| "row_cells x _ left _ = []"

definition next_row :: "'a list \<Rightarrow> nat \<times> nat list \<Rightarrow> 'a \<Rightarrow> nat \<times> nat list" where
  "next_row b st x = (case st of (i, prev) \<Rightarrow> (Suc i, i # row_cells x b i prev))"

definition edit_distance :: "string \<Rightarrow> string \<Rightarrow> nat" where
  "edit_distance a b =
     (let ar = go_runes a; br = go_runes b
      in if length ar = 0 then length br
         else if length br = 0 then length ar
         else last (snd (foldl (next_row br) (1, [0..<Suc (length br)]) ar)))"

definition suggest_step :: "string \<Rightarrow> string \<times> nat \<Rightarrow> string \<Rightarrow> string \<times> nat" where
  "suggest_step got st candidate =
     (if nat \<bar>int (length candidate) - int (length got)\<bar> > max_suggestion_distance then st
      else if edit_distance got candidate < snd st then (candidate, edit_distance got candidate)
      else st)"

definition suggest :: "string \<Rightarrow> string list \<Rightarrow> string option" where
  "suggest got candidates =
     (if got = [] \<or> length candidates = 0 then None
      else let (best, dist) = foldl (suggest_step got) ([], max_suggestion_distance + 1) (sort candidates)
           in if dist > max_suggestion_distance then None else Some best)"

text \<open>A rejection that names the nearest candidate, when there is one.\<close>

definition reject_near :: "string \<Rightarrow> string list \<Rightarrow> string \<Rightarrow> string list \<Rightarrow> 'a res" where
  "reject_near got candidates msg args =
     (case suggest got candidates of
        Some s \<Rightarrow> invalid (msg @ ''; did you mean %q?'') (args @ [s])
      | None \<Rightarrow> invalid msg args)"

definition lookup_subtype :: "type_spec \<Rightarrow> path \<Rightarrow> subtype_spec res" where
  "lookup_subtype ts p =
     (if ts_OpenSubtype ts then Inr (ts_Fallback ts)
      else case map_of (ts_Subtypes ts) (pt_Subtype p) of
        Some spec \<Rightarrow> Inr spec
      | None \<Rightarrow> reject_near (pt_Subtype p) (map fst (ts_Subtypes ts)) ''unknown subtype %q for measurement type %q'' [pt_Subtype p, pt_Type p])"

definition validate_scalar_key :: "subtype_spec \<Rightarrow> path \<Rightarrow> unit res" where
  "validate_scalar_key spec p =
     (if \<not> addressable (ss_Scalar spec) then
        invalid (''subtype %q of measurement type %q exposes no scalar readings'' @
          (if addressable (ss_Item spec) then ''; it requires an item selector'' else [])) [pt_Subtype p, pt_Type p]
      else if allows (ss_Scalar spec) (pt_Key p) then Inr ()
      else reject_near (pt_Key p) (ks_Keys (ss_Scalar spec)) ''unknown key %q in subtype %q of measurement type %q''
             [pt_Key p, pt_Subtype p, pt_Type p])"

definition validate_item_key :: "subtype_spec \<Rightarrow> item_selector \<Rightarrow> path \<Rightarrow> unit res" where
  "validate_item_key spec sel p =
     (if \<not> addressable (ss_Item spec) then
        invalid ''subtype %q of measurement type %q has no items; an item selector is not valid here'' [pt_Subtype p, pt_Type p]
      else case sel_Kind sel of
        SelPredicate k v \<Rightarrow>
          if \<not> allows (ss_Item spec) k then
            reject_near k (ks_Keys (ss_Item spec)) ''unknown item predicate key %q in subtype %q of measurement type %q''
              [k, pt_Subtype p, pt_Type p]
          else if allows (ss_Item spec) (pt_Key p) then Inr ()
          else reject_near (pt_Key p) (ks_Keys (ss_Item spec)) ''unknown item key %q in subtype %q of measurement type %q''
                 [pt_Key p, pt_Subtype p, pt_Type p]
      | SelIndex _ \<Rightarrow>
          if allows (ss_Item spec) (pt_Key p) then Inr ()
          else reject_near (pt_Key p) (ks_Keys (ss_Item spec)) ''unknown item key %q in subtype %q of measurement type %q''
                 [pt_Key p, pt_Subtype p, pt_Type p])"

definition virtual_paths :: "string list" where "virtual_paths = [PathGPUNodesLabel]"

definition validate_path_in :: "path_catalog \<Rightarrow> string \<Rightarrow> unit res" where
  "validate_path_in c name =
     (if name \<in> set virtual_paths then Inr ()
      else res_bind (parse_path name) (\<lambda>p.
        case map_of c (pt_Type p) of
          None \<Rightarrow> Inl (err_new ErrCodeInternal ''measurement type %q has no catalog entry'' [pt_Type p])
        | Some ts \<Rightarrow>
            res_bind (lookup_subtype ts p) (\<lambda>spec.
              case pt_Selector p of
                None \<Rightarrow> validate_scalar_key spec p
              | Some sel \<Rightarrow> validate_item_key spec sel p)))"

definition validate_path :: "string \<Rightarrow> unit res" where
  "validate_path = validate_path_in measurement_catalog"

subsection \<open>Filtering keys by patterns\<close>

text \<open>\<open>strings.Index\<close>: the first position at which the text occurs.\<close>

fun sub_index :: "string \<Rightarrow> string \<Rightarrow> nat option" where
  "sub_index [] sub = (if sub = [] then Some 0 else None)"
| "sub_index (c # s) sub = (if has_prefix (c # s) sub then Some 0 else map_option Suc (sub_index s sub))"

text \<open>The loop over the segments; \<open>rest\<close> is the key from \<open>pos\<close> on, \<open>i\<close> the index of the segment.\<close>

fun match_segments :: "string \<Rightarrow> nat \<Rightarrow> string \<Rightarrow> string list \<Rightarrow> bool" where
  "match_segments pattern i rest [] = True"
| "match_segments pattern i rest (seg # segs) =
     (if seg = [] then match_segments pattern (Suc i) rest segs
      else if i = 0 \<and> hd pattern \<noteq> CHR ''*'' then
        has_prefix rest seg \<and> match_segments pattern (Suc i) (drop (length seg) rest) segs
      else if segs = [] \<and> last pattern \<noteq> CHR ''*'' then has_suffix rest seg
      else (case sub_index rest seg of
              None \<Rightarrow> False
            | Some idx \<Rightarrow> match_segments pattern (Suc i) (drop (idx + length seg) rest) segs))"

definition matches_pattern :: "string \<Rightarrow> string \<Rightarrow> bool" where
  "matches_pattern key pattern =
     (if CHR ''*'' \<notin> set pattern then key = pattern
      else match_segments pattern 0 key (split_on CHR ''*'' pattern))"

definition filter_out :: "(string \<times> reading) list \<Rightarrow> string list \<Rightarrow> (string \<times> reading) list" where
  "filter_out readings keys = filter (\<lambda>(key, _). \<not> list_ex (matches_pattern key) keys) readings"

definition filter_in :: "(string \<times> reading) list \<Rightarrow> string list \<Rightarrow> (string \<times> reading) list" where
  "filter_in readings keys = filter (\<lambda>(key, _). list_ex (matches_pattern key) keys) readings"


subsection \<open>Parsing and printing paths\<close>

lemma take_drop_mid: "s = take i s @ c # drop (Suc i) s \<Longrightarrow> take i s @ c # drop (Suc i) s = s"
  by simp

lemma parse_item_selector_raw: "parse_item_selector raw full = Inr sel \<Longrightarrow> sel_Raw sel = raw"
  by (auto simp: parse_item_selector_def Let_def split: if_splits option.splits)

lemma parse_selected_print:
  assumes "parse_selected rest full b = Inr (sub, sel, key)" "char_index CHR ''['' rest = Some b"
  shows "\<exists>s. sel = Some s \<and> rest = sub @ ''['' @ sel_Raw s @ ''].'' @ key \<and> sub \<noteq> [] \<and> key \<noteq> []"
proof -
  define inner where "inner = drop (Suc b) rest"
  obtain c where c: "char_index CHR '']'' inner = Some c"
    using assms(1) by (auto simp: parse_selected_def inner_def Let_def split: if_splits option.splits)
  obtain s where s: "parse_item_selector (take c inner) full = Inr s"
    using assms(1) c by (auto simp: parse_selected_def inner_def [symmetric] Let_def res_bind_Inr split: if_splits)
  have "take b rest \<noteq> []"
  proof
    assume "take b rest = []"
    then have "is_ok (parse_selected rest full b) = False"
      by (simp only: parse_selected_def Let_def if_True simp_thms invalid_not_ok)
    then show False using assms(1) by simp
  qed
  moreover obtain x key' where tail: "drop (Suc c) inner = x # key'"
    using assms(1) c s by (cases "drop (Suc c) inner") (auto simp: parse_selected_def inner_def [symmetric] Let_def split: if_splits)
  ultimately have "x = CHR ''.''" "sel = Some s" "sub = take b rest" "sub \<noteq> []" "key' = key" "key \<noteq> []"
    using assms(1) c s by (auto simp: parse_selected_def inner_def [symmetric] Let_def split: if_splits)
  note s = s this tail
  have "rest = sub @ CHR ''['' # inner" using char_index_Some [OF assms(2)] s(4) inner_def by simp
  moreover have "inner = take c inner @ CHR '']'' # CHR ''.'' # key" using char_index_Some [OF c] s by simp
  ultimately show ?thesis using s parse_item_selector_raw [OF s(1)] by simp
qed

lemma parse_subtype_selector_key_print:
  assumes "parse_subtype_selector_key ld rest full = Inr (sub, sel, key)"
  shows "rest = sub @ (case sel of None \<Rightarrow> ''.'' | Some s \<Rightarrow> ''['' @ sel_Raw s @ ''].'') @ key \<and> sub \<noteq> [] \<and> key \<noteq> []"
proof (cases "char_index CHR ''.'' rest")
  case None
  then obtain b where "char_index CHR ''['' rest = Some b" "parse_selected rest full b = Inr (sub, sel, key)"
    using assms by (auto simp: parse_subtype_selector_key_def split: option.splits)
  then show ?thesis using parse_selected_print by fastforce
next
  case (Some d)
  show ?thesis
  proof (cases "\<exists>b. char_index CHR ''['' rest = Some b \<and> b < d")
    case True
    then obtain b where "char_index CHR ''['' rest = Some b" "parse_selected rest full b = Inr (sub, sel, key)"
      using assms Some by (auto simp: parse_subtype_selector_key_def)
    then show ?thesis using parse_selected_print by fastforce
  next
    case False
    define at' where "at' = (if ld then (case last_char_index CHR ''.'' rest of None \<Rightarrow> d | Some i \<Rightarrow> i) else d)"
    have split: "rest = take at' rest @ CHR ''.'' # drop (Suc at') rest"
      using char_index_Some [OF Some] last_char_index_Some [of "CHR ''.''" rest] by (auto simp: at'_def split: option.splits)
    have "sub = take at' rest" "key = drop (Suc at') rest" "sel = None" "sub \<noteq> []" "key \<noteq> []"
      using assms Some False
      by (auto simp: parse_subtype_selector_key_def Let_def at'_def split: option.splits if_splits)
    with split show ?thesis by simp
  qed
qed



lemma find_eq: "find (\<lambda>y. y = x) ys = (if x \<in> set ys then Some x else None)"
  by (induction ys) auto

lemma parse_type_eq: "parse_type s = (if s \<in> set measurement_types then Some s else None)"
  by (simp add: parse_type_def find_eq)

lemma parse_path_Inr:
  assumes "parse_path s = Inr p"
  shows "path_string p = s \<and> pt_Type p \<in> set measurement_types \<and> pt_Subtype p \<noteq> [] \<and> pt_Key p \<noteq> []"
proof -
  obtain dot where dot: "char_index CHR ''.'' s = Some dot"
    using assms by (auto simp: parse_path_def split: if_splits option.splits)
  have t: "take dot s \<in> set measurement_types"
    using assms dot by (auto simp: parse_path_def parse_type_eq split: if_splits)
  obtain sub sel key where k:
      "parse_subtype_selector_key (splits_on_last_dot (take dot s)) (drop (Suc dot) s) s = Inr (sub, sel, key)"
      "p = \<lparr>pt_Type = take dot s, pt_Subtype = sub, pt_Key = key, pt_Selector = sel\<rparr>"
    using assms dot t by (auto simp: parse_path_def parse_type_eq res_simps split: if_splits)
  have "drop (Suc dot) s = sub @ (case sel of None \<Rightarrow> ''.'' | Some s \<Rightarrow> ''['' @ sel_Raw s @ ''].'') @ key"
      "sub \<noteq> []" "key \<noteq> []"
    using parse_subtype_selector_key_print [OF k(1)] by blast+
  moreover have "s = take dot s @ CHR ''.'' # drop (Suc dot) s" using char_index_Some [OF dot] by simp
  ultimately have "s = take dot s @ CHR ''.'' # sub @ (case sel of None \<Rightarrow> ''.'' | Some s \<Rightarrow> ''['' @ sel_Raw s @ ''].'') @ key"
    by metis
  with t \<open>sub \<noteq> []\<close> \<open>key \<noteq> []\<close> show ?thesis
    by (cases sel) (simp_all add: path_string_def k(2))
qed

text \<open>The other direction: which values of \<open>Path\<close> the grammar can write. Without a selector, the subtype of a plain type
  is free of dots and so is the key of a dotted one; brackets may come only after the dot that splits.\<close>

definition selector_ok :: "item_selector \<Rightarrow> bool" where
  "selector_ok sel \<longleftrightarrow> CHR '']'' \<notin> set (sel_Raw sel) \<and> parse_item_selector (sel_Raw sel) [] = Inr sel"

definition path_ok :: "path \<Rightarrow> bool" where
  "path_ok p \<longleftrightarrow>
     pt_Type p \<in> set measurement_types \<and> pt_Subtype p \<noteq> [] \<and> pt_Key p \<noteq> [] \<and> CHR ''['' \<notin> set (pt_Subtype p) \<and>
     (case pt_Selector p of
        Some sel \<Rightarrow> CHR ''.'' \<notin> set (pt_Subtype p) \<and> selector_ok sel
      | None \<Rightarrow>
          (if splits_on_last_dot (pt_Type p)
           then CHR ''.'' \<notin> set (pt_Key p)
           else CHR ''.'' \<notin> set (pt_Subtype p)))"

lemma char_index_first: "c \<notin> set u \<Longrightarrow> char_index c (u @ v) = map_option (\<lambda>i. length u + i) (char_index c v)"
  by (induction u; cases "char_index c v") auto

lemma parse_item_selector_full: "parse_item_selector raw f = Inr sel \<Longrightarrow> parse_item_selector raw f' = Inr sel"
  by (auto simp: parse_item_selector_def Let_def split: if_splits option.splits)

lemma measurement_types_no_dot: "t \<in> set measurement_types \<Longrightarrow> CHR ''.'' \<notin> set t"
  by (auto simp: measurement_types_def measurement_type_names)

lemma parse_selected_ok:
  assumes "selector_ok sel" "sub \<noteq> []" "key \<noteq> []"
  shows "parse_selected (sub @ ''['' @ sel_Raw sel @ ''].'' @ key) full (length sub) = Inr (sub, Some sel, key)"
proof -
  have "parse_item_selector (sel_Raw sel) full = Inr sel"
    using assms(1) parse_item_selector_full selector_ok_def by blast
  then show ?thesis
    using assms by (simp add: parse_selected_def char_index_mid selector_ok_def)
qed

lemma parse_subtype_selector_key_ok:
  assumes ok: "path_ok p" and t: "ld = splits_on_last_dot (pt_Type p)"
    and rest: "rest = pt_Subtype p @ (case pt_Selector p of None \<Rightarrow> ''.'' | Some s \<Rightarrow> ''['' @ sel_Raw s @ ''].'') @ pt_Key p"
  shows "parse_subtype_selector_key ld rest full = Inr (pt_Subtype p, pt_Selector p, pt_Key p)"
proof (cases "pt_Selector p")
  case (Some sel)
  have free: "CHR ''['' \<notin> set (pt_Subtype p)" "CHR ''.'' \<notin> set (pt_Subtype p)" and s: "selector_ok sel"
    using ok Some by (auto simp: path_ok_def)
  have b: "char_index CHR ''['' rest = Some (length (pt_Subtype p))"
    using free by (simp add: rest Some char_index_mid)
  have "\<exists>d. char_index CHR ''.'' rest = Some d \<and> length (pt_Subtype p) < d"
    using free by (cases "char_index CHR ''.'' (sel_Raw sel @ ''].'' @ pt_Key p)")
      (auto simp: rest Some char_index_first char_index_None)
  then show ?thesis
    using b s ok Some
    by (auto simp: parse_subtype_selector_key_def rest path_ok_def intro!: parse_selected_ok [unfolded append_Cons append_Nil])
next
  case None
  have rest': "rest = pt_Subtype p @ CHR ''.'' # pt_Key p" using rest None by simp
  have nob: "CHR ''['' \<notin> set (pt_Subtype p)" "pt_Subtype p \<noteq> []" "pt_Key p \<noteq> []" using ok by (auto simp: path_ok_def)
  obtain d where d: "char_index CHR ''.'' rest = Some d" "d \<le> length (pt_Subtype p)"
  proof (cases "char_index CHR ''.'' (pt_Subtype p)")
    case None
    then show ?thesis using that by (simp add: rest' char_index_None char_index_mid)
  next
    case (Some i)
    have "take i (pt_Subtype p) @ CHR ''.'' # (drop (Suc i) (pt_Subtype p) @ CHR ''.'' # pt_Key p) = rest"
      using char_index_Some [OF Some] rest' by (metis append.assoc append_Cons)
    then have "char_index CHR ''.'' rest = Some i"
      using char_index_mid [of "CHR ''.''" "take i (pt_Subtype p)"] char_index_Some [OF Some] by fastforce
    then show ?thesis using that char_index_Some [OF Some] by simp
  qed
  have nb: "\<not> (case char_index CHR ''['' rest of None \<Rightarrow> False | Some b \<Rightarrow> b < d)"
    using d(2) nob(1) by (auto simp: rest' char_index_first split: option.splits)
  have at': "(if ld then (case last_char_index CHR ''.'' rest of None \<Rightarrow> d | Some i \<Rightarrow> i) else d) = length (pt_Subtype p)"
  proof (cases ld)
    case True
    then have "CHR ''.'' \<notin> set (pt_Key p)" using ok None t by (simp add: path_ok_def)
    with True show ?thesis by (simp add: rest' last_char_index_mid)
  next
    case False
    then have "CHR ''.'' \<notin> set (pt_Subtype p)" using ok None t by (simp add: path_ok_def)
    with False d(1) show ?thesis by (simp add: rest' char_index_mid)
  qed
  have "parse_subtype_selector_key ld rest full =
      (let at = length (pt_Subtype p); sub = take at rest; key = drop (Suc at) rest
       in if sub = [] \<or> key = [] then invalid ''invalid constraint path: subtype or key is empty'' [full] else Inr (sub, None, key))"
    using nb by (cases "char_index CHR ''['' rest") (simp_all only: parse_subtype_selector_key_def d(1) prod.case option.case at' if_False Let_def)
  also have "\<dots> = Inr (pt_Subtype p, pt_Selector p, pt_Key p)" using nob None by (simp add: rest' Let_def)
  finally show ?thesis .
qed

lemma parse_path_string: "path_ok p \<Longrightarrow> parse_path (path_string p) = Inr p"
proof -
  assume ok: "path_ok p"
  define rest where "rest = pt_Subtype p @ (case pt_Selector p of None \<Rightarrow> ''.'' | Some s \<Rightarrow> ''['' @ sel_Raw s @ ''].'') @ pt_Key p"
  have ty: "pt_Type p \<in> set measurement_types" using ok by (simp add: path_ok_def)
  have str: "path_string p = pt_Type p @ CHR ''.'' # rest"
    by (auto simp: path_string_def rest_def split: option.splits)
  have dot: "char_index CHR ''.'' (path_string p) = Some (length (pt_Type p))"
    using measurement_types_no_dot [OF ty] by (simp add: str char_index_mid)
  have "parse_subtype_selector_key (splits_on_last_dot (pt_Type p)) rest (path_string p) = Inr (pt_Subtype p, pt_Selector p, pt_Key p)"
    using parse_subtype_selector_key_ok [OF ok refl rest_def] .
  then show ?thesis
    using ty dot by (simp add: parse_path_def parse_type_eq str)
qed

text \<open>Property C22: a constraint path round-trips. What \<open>ParsePath\<close> accepts, \<open>Path.String\<close> prints back unchanged, and it names
  a known measurement type, a subtype and a key that are not empty. Each path that the grammar can write is parsed to
  exactly itself.\<close>

theorem path_roundtrip:
  "(\<forall>s p. parse_path s = Inr p \<longrightarrow>
      path_string p = s \<and> pt_Type p \<in> set measurement_types \<and> pt_Subtype p \<noteq> [] \<and> pt_Key p \<noteq> []) \<and>
   (\<forall>p. path_ok p \<longrightarrow> parse_path (path_string p) = Inr p)"
  using parse_path_Inr parse_path_string by blast

theorem path_roundtrip_witness:
  "parse_path ''K8s.server.version'' = Inr \<lparr> pt_Type = ''K8s'', pt_Subtype = ''server'', pt_Key = ''version'', pt_Selector = None \<rparr> \<and>
   path_string \<lparr> pt_Type = ''K8s'', pt_Subtype = ''server'', pt_Key = ''version'', pt_Selector = None \<rparr> = ''K8s.server.version'' \<and>
   parse_path (path_string \<lparr> pt_Type = ''K8s'', pt_Subtype = ''node.items'', pt_Key = ''v'', pt_Selector = None \<rparr>) \<noteq>
     Inr \<lparr> pt_Type = ''K8s'', pt_Subtype = ''node.items'', pt_Key = ''v'', pt_Selector = None \<rparr>"
proof -
  have 1: "parse_path ''K8s.server.version'' = Inr \<lparr> pt_Type = ''K8s'', pt_Subtype = ''server'', pt_Key = ''version'', pt_Selector = None \<rparr>"
    by code_simp
  moreover have "path_string \<lparr> pt_Type = ''K8s'', pt_Subtype = ''server'', pt_Key = ''version'', pt_Selector = None \<rparr> = ''K8s.server.version''"
    using path_roundtrip 1 by blast
  ultimately show ?thesis by code_simp
qed


subsection \<open>The nearest name is the least number of edits away\<close>

text \<open>One edit: a character removed, put in, or replaced.\<close>

inductive edit :: "'a list \<Rightarrow> 'a list \<Rightarrow> bool" where
  edit_remove: "edit (x # s) s"
| edit_insert: "edit s (x # s)"
| edit_replace: "edit (x # s) (y # s)"
| edit_later: "edit s t \<Longrightarrow> edit (x # s) (x # t)"

text \<open>The recurrence that the rows compute, on the reversed prefixes of both words.\<close>

fun lev :: "'a list \<Rightarrow> 'a list \<Rightarrow> nat" where
  "lev [] ys = length ys"
| "lev (x # xs) [] = Suc (length xs)"
| "lev (x # xs) (y # ys) =
     min (lev xs (y # ys) + 1) (min (lev (x # xs) ys + 1) (lev xs ys + (if x = y then 0 else 1)))"

lemma lev_Nil2 [simp]: "lev xs [] = length xs"
  by (cases xs) auto

lemma lev_Cons1: "lev (x # xs) ys \<le> Suc (lev xs ys)"
  by (cases ys) auto

lemma lev_Cons2: "lev xs (y # ys) \<le> Suc (lev xs ys)"
  by (cases xs) auto

lemma lev_tail2: "lev xs ys \<le> Suc (lev xs (y # ys))"
proof (induction xs)
  case (Cons x xs)
  have "lev (x # xs) ys \<le> Suc (lev xs ys)" by (rule lev_Cons1)
  then show ?case using Cons.IH by (auto simp: min_def)
qed simp

lemma lev_replace: "lev xs (y' # ys) \<le> Suc (lev xs (y # ys))"
  by (induction xs) (auto simp: min_def)

lemma lev_edit: "edit b c \<Longrightarrow> lev a c \<le> Suc (lev a b)"
proof (induction b c arbitrary: a rule: edit.induct)
  case (edit_remove x s)
  then show ?case by (rule lev_tail2)
next
  case (edit_insert s x)
  then show ?case by (rule lev_Cons2)
next
  case (edit_replace x s y)
  then show ?case by (rule lev_replace)
next
  case (edit_later s t x)
  show ?case
  proof (induction a)
    case Nil
    then show ?case using edit_later.IH [of "[]"] by simp
  next
    case (Cons p a)
    then show ?case using edit_later.IH [of "p # a"] edit_later.IH [of a] by (auto simp: min_def)
  qed
qed

lemma lev_refl [simp]: "lev a a = 0"
  by (induction a) auto

lemma lev_le_edits: "(edit ^^ n) a b \<Longrightarrow> lev a b \<le> n"
proof (induction n arbitrary: b)
  case (Suc n)
  then obtain c where "(edit ^^ n) a c" "edit c b" by auto
  then show ?case using Suc.IH [of c] lev_edit [of c b a] by simp
qed simp

lemma edits_later: "(edit ^^ n) s t \<Longrightarrow> (edit ^^ n) (x # s) (x # t)"
proof (induction n arbitrary: t)
  case (Suc n)
  then obtain u where "(edit ^^ n) s u" "edit u t" by auto
  then show ?case using Suc.IH [of u] edit_later [of u t x] by auto
qed simp

lemma edits_build: "(edit ^^ length ys) [] ys"
proof (induction ys)
  case (Cons y ys)
  then show ?case using edit_insert [of ys y] by auto
qed simp

lemma edits_drop: "(edit ^^ length xs) xs []"
proof (induction xs)
  case (Cons x xs)
  then show ?case using edit_remove [of x xs] relpowp_Suc_I2 [of edit "x # xs" xs] by simp
qed simp

lemma lev_alternatives:
  "lev (x # xs) (y # ys) = Suc (lev xs (y # ys)) \<or> lev (x # xs) (y # ys) = Suc (lev (x # xs) ys) \<or>
   lev (x # xs) (y # ys) = lev xs ys \<and> x = y \<or> lev (x # xs) (y # ys) = Suc (lev xs ys)"
  by (auto simp: min_def)

lemma edits_lev: "(edit ^^ lev a b) a b"
proof (induction a b rule: lev.induct)
  case (2 x xs)
  then show ?case using edits_drop [of "x # xs"] by simp
next
  case (3 x xs y ys)
  consider "lev (x # xs) (y # ys) = Suc (lev xs (y # ys))"
    | "lev (x # xs) (y # ys) = Suc (lev (x # xs) ys)"
    | "lev (x # xs) (y # ys) = lev xs ys" "x = y"
    | "lev (x # xs) (y # ys) = Suc (lev xs ys)"
    using lev_alternatives [of x xs y ys] by blast
  then show ?case
  proof cases
    case 1
    then show ?thesis using relpowp_Suc_I2 [OF edit_remove "3.IH"(1)] by simp
  next
    case 2
    then show ?thesis using relpowp_Suc_I [OF "3.IH"(2) edit_insert] by simp
  next
    case 3
    then show ?thesis using edits_later "3.IH"(3) by metis
  next
    case 4
    then show ?thesis using relpowp_Suc_I2 [OF edit_replace edits_later [OF "3.IH"(3)]] by simp
  qed
qed (simp add: edits_build)

lemma edit_append_right: "edit s t \<Longrightarrow> edit (s @ u) (t @ u)"
  by (induction s t rule: edit.induct) (auto intro: edit.intros)

lemma edit_append_left: "edit s t \<Longrightarrow> edit (u @ s) (u @ t)"
  by (induction u) (auto intro: edit.intros)

lemma edit_rev: "edit s t \<Longrightarrow> edit (rev s) (rev t)"
proof (induction s t rule: edit.induct)
  case (edit_remove x s)
  then show ?case using edit_append_left [OF edit.edit_remove [of x "[]"], of "rev s"] by simp
next
  case (edit_insert s x)
  then show ?case using edit_append_left [OF edit.edit_insert [of "[]" x], of "rev s"] by simp
next
  case (edit_replace x s y)
  then show ?case using edit_append_left [OF edit.edit_replace [of x "[]" y], of "rev s"] by simp
next
  case (edit_later s t x)
  then show ?case using edit_append_right by simp
qed

lemma edits_rev: "(edit ^^ n) s t \<Longrightarrow> (edit ^^ n) (rev s) (rev t)"
proof (induction n arbitrary: t)
  case (Suc n)
  then obtain u where "(edit ^^ n) s u" "edit u t" by auto
  then show ?case using Suc.IH edit_rev by auto
qed simp

lemma lev_rev: "lev (rev a) (rev b) = lev a b"
proof (rule antisym)
  show "lev (rev a) (rev b) \<le> lev a b" using lev_le_edits [OF edits_rev [OF edits_lev]] .
  show "lev a b \<le> lev (rev a) (rev b)" using lev_le_edits [OF edits_rev [OF edits_lev [of "rev a" "rev b"]]] by simp
qed

lemma lev_length: "\<bar>int (length b) - int (length a)\<bar> \<le> int (lev a b)"
proof -
  have one: "edit s t \<Longrightarrow> \<bar>int (length t) - int (length s)\<bar> \<le> 1" for s t
    by (induction s t rule: edit.induct) auto
  have "(edit ^^ n) a b \<Longrightarrow> \<bar>int (length b) - int (length a)\<bar> \<le> int n" for n
  proof (induction n arbitrary: b)
    case (Suc n)
    then obtain c where "(edit ^^ n) a c" "edit c b" by auto
    then show ?case using Suc.IH [of c] one [of c b] by simp
  qed simp
  then show ?thesis using edits_lev by blast
qed

text \<open>The rows of the table: the row of \<open>X\<close> over the rest of the other word, whose first letters are \<open>Y\<close> reversed.\<close>

fun lev_row :: "'a list \<Rightarrow> 'a list \<Rightarrow> 'a list \<Rightarrow> nat list" where
  "lev_row X Y [] = [lev X Y]"
| "lev_row X Y (y # ys) = lev X Y # lev_row X (y # Y) ys"

lemma lev_row_hd: "lev_row X Y ys = lev X Y # tl (lev_row X Y ys)"
  by (cases ys) auto

lemma row_cells_lev: "row_cells x ys (lev (x # X) Y) (lev_row X Y ys) = tl (lev_row (x # X) Y ys)"
proof (induction ys arbitrary: Y)
  case (Cons y ys)
  obtain r where r: "lev_row X (y # Y) ys = lev X (y # Y) # r" using lev_row_hd by blast
  have "row_cells x (y # ys) (lev (x # X) Y) (lev_row X Y (y # ys)) =
      lev (x # X) (y # Y) # row_cells x ys (lev (x # X) (y # Y)) (lev_row X (y # Y) ys)"
    by (simp add: r Let_def)
  then show ?case using Cons.IH [of "y # Y"] lev_row_hd [of "x # X" "y # Y" ys] by simp
qed simp

lemma next_row_lev: "next_row b (Suc (length X), lev_row X [] b) x = (Suc (length (x # X)), lev_row (x # X) [] b)"
  using row_cells_lev [of x b X "[]"] lev_row_hd [of "x # X" "[]" b] by (simp add: next_row_def)

lemma foldl_next_row:
  "foldl (next_row b) (Suc (length X), lev_row X [] b) a = (Suc (length (rev a @ X)), lev_row (rev a @ X) [] b)"
proof (induction a arbitrary: X)
  case (Cons x a)
  show ?case using Cons.IH [of "x # X"] by (simp add: next_row_lev)
qed simp

lemma last_lev_row: "last (lev_row X Y ys) = lev X (rev ys @ Y)"
proof (induction ys arbitrary: Y)
  case (Cons y ys)
  have "lev_row X (y # Y) ys \<noteq> []" by (subst lev_row_hd) simp
  then show ?case using Cons.IH [of "y # Y"] by simp
qed simp

lemma lev_row_first: "lev_row [] Y ys = [length Y..<Suc (length Y + length ys)]"
  by (induction ys arbitrary: Y) (auto simp: upt_rec)

lemma edit_distance_lev: "edit_distance a b = lev (go_runes a) (go_runes b)"
proof (cases "go_runes a = [] \<or> go_runes b = []")
  case False
  have "edit_distance a b =
      last (snd (foldl (next_row (go_runes b)) (Suc (length ([] :: nat list)), lev_row [] [] (go_runes b)) (go_runes a)))"
    using False lev_row_first [of "[]" "go_runes b"] by (simp add: edit_distance_def Let_def)
  also have "\<dots> = lev (rev (go_runes a)) (rev (go_runes b))"
    by (subst foldl_next_row) (simp add: last_lev_row)
  finally show ?thesis by (simp add: lev_rev)
qed (auto simp: edit_distance_def Let_def)

text \<open>The least number of insertions, deletions and replacements of one rune.\<close>

definition least_edits :: "string \<Rightarrow> string \<Rightarrow> nat" where
  "least_edits a b = (LEAST n. (edit ^^ n) (go_runes a) (go_runes b))"

lemma least_edits_lev: "least_edits a b = lev (go_runes a) (go_runes b)"
  unfolding least_edits_def by (rule Least_equality) (auto intro: edits_lev lev_le_edits)

text \<open>The candidates that the comparison of the byte lengths keeps.\<close>

definition length_close :: "string \<Rightarrow> string \<Rightarrow> bool" where
  "length_close got c \<longleftrightarrow> \<bar>int (length c) - int (length got)\<bar> \<le> int max_suggestion_distance"

lemma ascii_length_close: "ascii got \<Longrightarrow> ascii c \<Longrightarrow> least_edits got c \<le> max_suggestion_distance \<Longrightarrow> length_close got c"
  using lev_length [of "go_runes c" "go_runes got"] by (simp add: least_edits_lev go_runes_ascii length_close_def)

text \<open>The loop of \<open>suggest\<close>: with the best of the candidates so far, in ascending order.\<close>

definition nearest :: "string \<Rightarrow> string set \<Rightarrow> string \<Rightarrow> bool" where
  "nearest got cs best \<longleftrightarrow>
     best \<in> cs \<and> (\<forall>c \<in> cs. least_edits got best < least_edits got c \<or> least_edits got best = least_edits got c \<and> best \<le> c)"

definition suggest_inv :: "string \<Rightarrow> string set \<Rightarrow> string \<times> nat \<Rightarrow> bool" where
  "suggest_inv got cs st \<longleftrightarrow>
     (case st of (best, dist) \<Rightarrow>
        dist = Suc max_suggestion_distance \<and> (\<forall>c \<in> cs. max_suggestion_distance < least_edits got c) \<or>
        dist \<le> max_suggestion_distance \<and> nearest got cs best \<and> dist = least_edits got best)"

lemma suggest_step_inv:
  assumes "suggest_inv got cs st" "\<forall>c' \<in> cs. c' \<le> c"
  shows "suggest_inv got (cs \<union> {c' \<in> {c}. length_close got c'}) (suggest_step got st c)"
proof -
  obtain best dist where st: "st = (best, dist)" by (cases st)
  have eq: "edit_distance got c = least_edits got c" by (simp add: edit_distance_lev least_edits_lev)
  have length_close: "nat \<bar>int (length c) - int (length got)\<bar> > max_suggestion_distance \<longleftrightarrow> \<not> length_close got c"
    by (auto simp: length_close_def)
  consider "\<not> length_close got c" | "length_close got c" "dist \<le> least_edits got c" | "length_close got c" "least_edits got c < dist" by linarith
  then show ?thesis
  proof cases
    case 1
    then show ?thesis using assms(1) by (simp add: suggest_step_def length_close cong: conj_cong)
  next
    case 2
    then show ?thesis using assms by (auto simp: suggest_step_def length_close eq suggest_inv_def st nearest_def)
  next
    case 3
    then have "suggest_step got st c = (c, least_edits got c)" by (simp add: suggest_step_def length_close st eq)
    moreover have "least_edits got c \<le> max_suggestion_distance" using 3 assms(1) by (auto simp: suggest_inv_def st)
    moreover have "nearest got (insert c cs) c"
      using assms(1) 3 unfolding suggest_inv_def st nearest_def by fastforce
    ultimately show ?thesis using 3(1) by (simp add: suggest_inv_def cong: conj_cong)
  qed
qed

lemma foldl_suggest_inv:
  "sorted cs \<Longrightarrow> suggest_inv got {c \<in> set cs. length_close got c} (foldl (suggest_step got) ([], max_suggestion_distance + 1) cs)"
proof (induction cs rule: rev_induct)
  case (snoc c cs)
  have "{c' \<in> set (cs @ [c]). length_close got c'} = {c \<in> set cs. length_close got c} \<union> {c' \<in> {c}. length_close got c'}" by auto
  then show ?case using snoc suggest_step_inv [of got "{c \<in> set cs. length_close got c}" _ c] by (simp add: sorted_append)
qed (simp add: suggest_inv_def)

text \<open>Property C23: the table that \<open>editDistance\<close> fills row by row holds the least number of edits of single runes. Among the
  candidates whose length in bytes is at most two off the word's, \<open>suggest\<close> names the one that is the least number of
  edits away, of those the first in order, when that number is at most two and the word given is not empty; else it names none.
  For a word and a candidate of ASCII characters, the comparison of the lengths skips none that is at most two edits away.\<close>

theorem suggest_nearest:
  "edit_distance got c = least_edits got c \<and>
   (suggest got candidates = Some best \<longleftrightarrow>
      got \<noteq> [] \<and> nearest got {c' \<in> set candidates. length_close got c'} best \<and> least_edits got best \<le> max_suggestion_distance) \<and>
   (suggest got candidates = None \<longleftrightarrow>
      got = [] \<or> (\<forall>c' \<in> set candidates. length_close got c' \<longrightarrow> max_suggestion_distance < least_edits got c')) \<and>
   (ascii got \<and> ascii c \<and> least_edits got c \<le> max_suggestion_distance \<longrightarrow> length_close got c)"
proof -
  define st where "st = foldl (suggest_step got) ([], max_suggestion_distance + 1) (sort candidates)"
  define cs where "cs = {c' \<in> set candidates. length_close got c'}"
  obtain b d where st': "st = (b, d)" by (cases st)
  have inv: "suggest_inv got cs (b, d)"
    using foldl_suggest_inv [of "sort candidates" got] by (simp add: cs_def st' [symmetric] st_def)
  have unfold: "suggest got candidates =
      (if got = [] \<or> candidates = [] then None else if d > max_suggestion_distance then None else Some b)"
    using st' by (simp add: suggest_def st_def)
  have uniq: "nearest got cs x \<Longrightarrow> nearest got cs y \<Longrightarrow> x = y" for cs x y
    unfolding nearest_def by fastforce
  have some: "suggest got candidates = Some best \<longleftrightarrow>
      got \<noteq> [] \<and> nearest got cs best \<and> least_edits got best \<le> max_suggestion_distance"
  proof (cases "d > max_suggestion_distance")
    case True
    then show ?thesis using inv unfold by (auto simp: suggest_inv_def nearest_def)
  next
    case False
    then have "nearest got cs b" "d = least_edits got b" using inv by (auto simp: suggest_inv_def)
    moreover from this have "candidates \<noteq> []" by (auto simp: nearest_def cs_def)
    ultimately show ?thesis using unfold False uniq by auto
  qed
  have none: "suggest got candidates = None \<longleftrightarrow> got = [] \<or> (\<forall>c' \<in> cs. max_suggestion_distance < least_edits got c')"
  proof (cases "d > max_suggestion_distance")
    case True
    then show ?thesis using inv unfold by (auto simp: suggest_inv_def)
  next
    case False
    then have "b \<in> cs" "least_edits got b \<le> max_suggestion_distance" using inv by (auto simp: suggest_inv_def nearest_def)
    then show ?thesis using unfold False by (auto simp: cs_def)
  qed
  have "edit_distance got c = least_edits got c" by (simp add: edit_distance_lev least_edits_lev)
  moreover have "(\<forall>c' \<in> cs. max_suggestion_distance < least_edits got c') \<longleftrightarrow>
      (\<forall>c' \<in> set candidates. length_close got c' \<longrightarrow> max_suggestion_distance < least_edits got c')" by (auto simp: cs_def)
  ultimately show ?thesis using some none ascii_length_close [of got c] by (simp add: cs_def)
qed

theorem suggest_nearest_witness:
  "suggest ''servr'' [''node'', ''server''] = Some ''server'' \<and> least_edits ''servr'' ''server'' = 1 \<and> length_close ''servr'' ''server'' \<and>
   max_suggestion_distance < least_edits ''os'' ''gpus''"
proof -
  have "suggest ''os'' [''topology'', ''gpus''] = None" "length_close ''os'' ''gpus''" by code_simp+
  then have "max_suggestion_distance < least_edits ''os'' ''gpus''"
    using suggest_nearest [of "''os''" "''gpus''" "[''topology'', ''gpus'']"] by simp
  moreover have "suggest ''servr'' [''node'', ''server''] = Some ''server''" by code_simp
  moreover have "edit_distance ''servr'' ''server'' = 1" by code_simp
  then have one: "least_edits ''servr'' ''server'' = 1" using suggest_nearest [of "''servr''" "''server''"] by simp
  moreover have "ascii ''servr''" "ascii ''server''" by code_simp+
  then have "length_close ''servr'' ''server''"
    using suggest_nearest [of "''servr''" "''server''"] one by (simp add: max_suggestion_distance_def)
  ultimately show ?thesis by blast
qed

text \<open>Beyond ASCII the comparison of the lengths can skip a near name: a word with two letters of three bytes
  each is two replacements away from a name, but four bytes longer.\<close>

lemma length_check_skips_near_name:
  "let word = ''s'' @ [CHR 0xE2, CHR 0x82, CHR 0xAC, CHR 0xE2, CHR 0x82, CHR 0xAC] @ ''ver''
   in edit_distance word ''server'' = 2 \<and> suggest word [''server''] = None"
  by code_simp

subsection \<open>The catalog accepts exactly the paths that some snapshot can answer\<close>

definition spec_of :: "type_spec \<Rightarrow> string \<Rightarrow> subtype_spec option" where
  "spec_of ts name = (if ts_OpenSubtype ts then Some (ts_Fallback ts) else map_of (ts_Subtypes ts) name)"

definition item_keys :: "item_entry \<Rightarrow> string set" where
  "item_keys item = fst ` set (it_Data item) \<union> fst ` set (it_Context item)"

definition conforming_subtype :: "type_spec \<Rightarrow> subtype \<Rightarrow> bool" where
  "conforming_subtype ts st \<longleftrightarrow>
     (case spec_of ts (st_Name st) of
        None \<Rightarrow> False
      | Some spec \<Rightarrow>
          (\<forall>k \<in> fst ` set (st_Data st). allows (ss_Scalar spec) k) \<and>
          (\<forall>item \<in> set (st_Items st). \<forall>k \<in> item_keys item. allows (ss_Item spec) k))"

text \<open>A snapshot that carries what the catalog declares and no more.\<close>

definition conforming :: "path_catalog \<Rightarrow> measurement option list \<Rightarrow> bool" where
  "conforming c ms \<longleftrightarrow>
     (\<forall>m. Some m \<in> set ms \<longrightarrow>
        is_ok (measurement_validate m) \<and>
        (case map_of c (mt_Type m) of
           None \<Rightarrow> False
         | Some ts \<Rightarrow> \<forall>st \<in> set (mt_Subtypes m). conforming_subtype ts st))"

lemma allows_addressable: "allows ks k \<Longrightarrow> addressable ks"
  by (auto simp: allows_def addressable_def)

lemma reject_near_not_ok [simp]: "is_ok (reject_near g cs m a) = False"
  by (simp add: reject_near_def split: option.split)

lemma reject_near_not_Inr [simp]: "reject_near g cs m a \<noteq> Inr x"
  by (simp add: reject_near_def split: option.split)

lemma lookup_subtype_ok: "lookup_subtype ts p = Inr spec \<longleftrightarrow> spec_of ts (pt_Subtype p) = Some spec"
  by (auto simp: lookup_subtype_def spec_of_def split: option.split)

lemma validate_scalar_key_ok: "is_ok (validate_scalar_key spec p) \<longleftrightarrow> allows (ss_Scalar spec) (pt_Key p)"
  using allows_addressable by (auto simp: validate_scalar_key_def)

definition selector_allowed :: "subtype_spec \<Rightarrow> item_selector \<Rightarrow> bool" where
  "selector_allowed spec sel = (case sel_Kind sel of SelIndex _ \<Rightarrow> True | SelPredicate k _ \<Rightarrow> allows (ss_Item spec) k)"

lemma validate_item_key_ok:
  "is_ok (validate_item_key spec sel p) \<longleftrightarrow> allows (ss_Item spec) (pt_Key p) \<and> selector_allowed spec sel"
  using allows_addressable by (auto simp: validate_item_key_def selector_allowed_def split: selector_kind.split)

definition path_allowed :: "subtype_spec \<Rightarrow> path \<Rightarrow> bool" where
  "path_allowed spec p =
     (case pt_Selector p of
        None \<Rightarrow> allows (ss_Scalar spec) (pt_Key p)
      | Some sel \<Rightarrow> allows (ss_Item spec) (pt_Key p) \<and> selector_allowed spec sel)"

lemma validate_path_in_ok:
  assumes "name \<notin> set virtual_paths" "parse_path name = Inr p"
  shows "is_ok (validate_path_in c name) \<longleftrightarrow>
     (\<exists>ts spec. map_of c (pt_Type p) = Some ts \<and> spec_of ts (pt_Subtype p) = Some spec \<and> path_allowed spec p)"
  using assms
  by (auto simp: validate_path_in_def is_ok_bind lookup_subtype_ok path_allowed_def validate_scalar_key_ok
      validate_item_key_ok split: option.splits)

lemma lookup_in_item_key: "lookup_in_item item p = Inr v \<Longrightarrow> pt_Key p \<in> item_keys item"
  by (auto simp: lookup_in_item_def item_keys_def split: option.splits dest!: map_of_SomeD intro: rev_image_eqI)

lemma item_matches_key: "item_matches_predicate item k v \<Longrightarrow> k \<in> item_keys item"
  by (auto simp: item_matches_predicate_def item_keys_def split: option.splits dest!: map_of_SomeD intro: rev_image_eqI)

lemma match_items_found:
  "match_items k v found items = Inr (Some item) \<Longrightarrow> found = Some item \<or> item \<in> set items \<and> item_matches_predicate item k v"
  by (induction k v found items rule: match_items.induct) (auto split: if_splits)

lemma extract_from_items_ok:
  assumes "extract_from_items st sel p = Inr v" "\<forall>item \<in> set (st_Items st). \<forall>k \<in> item_keys item. allows (ss_Item spec) k"
  shows "allows (ss_Item spec) (pt_Key p) \<and> selector_allowed spec sel"
proof (cases "sel_Kind sel")
  case (SelIndex idx)
  then have "idx < length (st_Items st)" "lookup_in_item (st_Items st ! idx) p = Inr v"
    using assms(1) by (auto simp: extract_from_items_def split: if_splits)
  then have "st_Items st ! idx \<in> set (st_Items st)" "pt_Key p \<in> item_keys (st_Items st ! idx)"
    using lookup_in_item_key by simp_all
  then show ?thesis using assms(2) SelIndex by (simp add: selector_allowed_def)
next
  case (SelPredicate k w)
  then obtain item where item: "match_items k w None (st_Items st) = Inr (Some item)" "lookup_in_item item p = Inr v"
    using assms(1) by (auto simp: extract_from_items_def res_simps split: if_splits option.splits)
  then have "item \<in> set (st_Items st)" "k \<in> item_keys item" "pt_Key p \<in> item_keys item"
    using match_items_found item_matches_key lookup_in_item_key by blast+
  then show ?thesis using assms(2) SelPredicate by (simp add: selector_allowed_def)
qed

lemma extract_path_allowed:
  assumes "conforming c ms" "extract_path p ms = Inr v"
  shows "\<exists>ts spec. map_of c (pt_Type p) = Some ts \<and> spec_of ts (pt_Subtype p) = Some spec \<and> path_allowed spec p"
proof -
  obtain m where m: "find (\<lambda>m. mt_Type m = pt_Type p) (List.map_filter id ms) = Some m"
    using assms(2) by (auto simp: extract_path_def split: option.splits)
  then have "m \<in> set (List.map_filter id ms)" "mt_Type m = pt_Type p" by (auto simp: find_Some_iff)
  then have mem: "Some m \<in> set ms" by (auto simp: map_filter_def)
  obtain st where st: "get_subtype m (pt_Subtype p) = Some st"
    using assms(2) m by (auto simp: extract_path_def split: option.splits)
  then have st': "st \<in> set (mt_Subtypes m)" "st_Name st = pt_Subtype p" by (auto simp: get_subtype_def find_Some_iff)
  obtain ts where ts: "map_of c (pt_Type p) = Some ts" "conforming_subtype ts st"
    using assms(1) mem st'(1) \<open>mt_Type m = pt_Type p\<close> by (fastforce simp: conforming_def split: option.splits)
  then obtain spec where spec: "spec_of ts (pt_Subtype p) = Some spec"
      "\<forall>k \<in> fst ` set (st_Data st). allows (ss_Scalar spec) k"
      "\<forall>item \<in> set (st_Items st). \<forall>k \<in> item_keys item. allows (ss_Item spec) k"
    by (auto simp: conforming_subtype_def st'(2) split: option.splits)
  have "path_allowed spec p"
  proof (cases "pt_Selector p")
    case None
    then obtain r where "map_of (st_Data st) (pt_Key p) = Some r"
      using assms(2) m st by (auto simp: extract_path_def split: option.splits)
    then show ?thesis using spec(2) None map_of_SomeD by (fastforce simp: path_allowed_def)
  next
    case (Some sel)
    then have "extract_from_items st sel p = Inr v" using assms(2) m st by (simp add: extract_path_def)
    then show ?thesis using extract_from_items_ok spec(3) Some by (simp add: path_allowed_def)
  qed
  with ts(1) spec(1) show ?thesis by blast
qed

text \<open>A snapshot that answers a path.\<close>

definition answer_items :: "path \<Rightarrow> item_entry list" where
  "answer_items p =
     (case pt_Selector p of
        None \<Rightarrow> []
      | Some sel \<Rightarrow>
          (case sel_Kind sel of
             SelIndex i \<Rightarrow> replicate (Suc i) \<lparr>it_Context = [], it_Data = [(pt_Key p, ReadBool True)]\<rparr>
           | SelPredicate k v \<Rightarrow> [\<lparr>it_Context = [], it_Data = [(k, ReadStr v), (pt_Key p, ReadBool True)]\<rparr>]))"

definition answer :: "path \<Rightarrow> measurement" where
  "answer p =
     \<lparr>mt_Type = pt_Type p,
      mt_Subtypes =
        [\<lparr>st_Name = pt_Subtype p, st_Data = (if pt_Selector p = None then [(pt_Key p, ReadBool True)] else []), st_Context = [],
          st_Items = answer_items p\<rparr>]\<rparr>"

lemma answer_ok: "is_ok (extract_path p [Some (answer p)])"
proof -
  have "List.map_filter id [Some (answer p)] = [answer p]" by (simp add: map_filter_def)
  then have "extract_path p [Some (answer p)] =
      (case pt_Selector p of None \<Rightarrow> Inr ''true'' | Some sel \<Rightarrow> extract_from_items (mt_Subtypes (answer p) ! 0) sel p)"
    by (simp add: extract_path_def answer_def get_subtype_def reading_string_def split: option.split)
  moreover have "is_ok (extract_from_items (mt_Subtypes (answer p) ! 0) sel p)" if "pt_Selector p = Some sel" for sel
    using that
    by (auto simp: extract_from_items_def answer_def answer_items_def lookup_in_item_def item_matches_predicate_def
        reading_string_def nth_append split: selector_kind.split simp del: replicate_Suc)
  ultimately show ?thesis by (cases "pt_Selector p") simp_all
qed

lemma answer_conforming:
  assumes "map_of c (pt_Type p) = Some ts" "spec_of ts (pt_Subtype p) = Some spec" "path_allowed spec p"
    and "pt_Type p \<noteq> []" "pt_Subtype p \<noteq> []"
  shows "conforming c [Some (answer p)]"
proof -
  have "is_ok (measurement_validate (answer p))"
    using assms(4,5)
    by (auto simp: measurement_validate_def answer_def subtype_validate_def answer_items_def is_ok_unit [symmetric]
        split: option.split selector_kind.split)
  moreover have "conforming_subtype ts (mt_Subtypes (answer p) ! 0)"
    using assms(2,3)
    by (auto simp: conforming_subtype_def answer_def answer_items_def item_keys_def path_allowed_def selector_allowed_def
        split: option.splits selector_kind.splits)
  ultimately show ?thesis using assms(1) by (simp add: conforming_def answer_def)
qed

text \<open>Property C24: the validation of constraint names is adequate. A name that parses and is not virtual passes exactly when
  some snapshot that keeps to the catalog answers its path; so a rejected name could never be read, and an accepted one
  is not a dead constraint.\<close>

theorem validate_path_adequate:
  assumes "name \<notin> set virtual_paths" "parse_path name = Inr p"
  shows "is_ok (validate_path name) \<longleftrightarrow>
    (\<exists>ms. conforming measurement_catalog ms \<and> is_ok (extract_path p ms))"
proof -
  have "pt_Type p \<in> set measurement_types" and sub: "pt_Subtype p \<noteq> []" using parse_path_Inr [OF assms(2)] by blast+
  then have "pt_Type p \<noteq> []" by (auto simp: measurement_types_def measurement_type_names)
  then show ?thesis
    using validate_path_in_ok [OF assms, of measurement_catalog] answer_conforming [OF _ _ _ _ sub] answer_ok
      extract_path_allowed unfolding validate_path_def is_ok_iff by metis
qed

theorem validate_path_adequate_witness:
  "is_ok (validate_path ''K8s.server.version'') \<longleftrightarrow>
    (\<exists>ms. conforming measurement_catalog ms \<and>
       is_ok (extract_path \<lparr>pt_Type = ''K8s'', pt_Subtype = ''server'', pt_Key = ''version'', pt_Selector = None\<rparr> ms))"
  by (rule validate_path_adequate) code_simp+


subsection \<open>Patterns are globs\<close>

text \<open>What a pattern means: a star stands for any text, any other character for itself.\<close>

inductive glob :: "string \<Rightarrow> string \<Rightarrow> bool" where
  glob_end: "glob [] []"
| glob_char: "c \<noteq> CHR ''*'' \<Longrightarrow> glob p s \<Longrightarrow> glob (c # p) (c # s)"
| glob_star: "glob p s \<Longrightarrow> glob (CHR ''*'' # p) (u @ s)"

inductive_cases glob_starE: "glob (CHR ''*'' # p) s"
inductive_simps glob_Nil [simp]: "glob [] s"
inductive_simps glob_Cons: "glob (c # p) s"

lemma glob_star_iff: "glob (CHR ''*'' # p) s \<longleftrightarrow> (\<exists>u v. s = u @ v \<and> glob p v)"
proof
  assume "glob (CHR ''*'' # p) s"
  then show "\<exists>u v. s = u @ v \<and> glob p v" by (rule glob_starE) auto
qed (auto intro: glob_star)

lemma glob_literal: "CHR ''*'' \<notin> set q \<Longrightarrow> glob (q @ p) s \<longleftrightarrow> (\<exists>v. s = q @ v \<and> glob p v)"
proof (induction q arbitrary: s)
  case (Cons c q)
  have "glob ((c # q) @ p) s \<longleftrightarrow> (\<exists>s'. s = c # s' \<and> glob (q @ p) s')"
    using Cons.prems glob_Cons [of c "q @ p" s] by auto
  then show ?case using Cons by auto
qed simp

lemma glob_exact: "CHR ''*'' \<notin> set q \<Longrightarrow> glob q s \<longleftrightarrow> s = q"
  using glob_literal [of q "[]" s] by simp

lemma sub_index_None: "sub_index s q = None \<longleftrightarrow> (\<nexists>u v. s = u @ q @ v)"
proof (induction s)
  case (Cons c s)
  have "(\<exists>u v. c # s = u @ q @ v) \<longleftrightarrow> has_prefix (c # s) q \<or> (\<exists>u v. s = u @ q @ v)"
  proof
    assume "\<exists>u v. c # s = u @ q @ v"
    then obtain u v where uv: "c # s = u @ q @ v" by blast
    show "has_prefix (c # s) q \<or> (\<exists>u v. s = u @ q @ v)"
    proof (cases u)
      case Nil
      then show ?thesis using uv by simp
    next
      case (Cons d u')
      then show ?thesis using uv by auto
    qed
  next
    assume "has_prefix (c # s) q \<or> (\<exists>u v. s = u @ q @ v)"
    then show "\<exists>u v. c # s = u @ q @ v"
    proof
      assume "has_prefix (c # s) q"
      then have "c # s = [] @ q @ drop (length q) (c # s)" by (metis append_Nil append_take_drop_id has_prefix_def)
      then show ?thesis by blast
    next
      assume "\<exists>u v. s = u @ q @ v"
      then show ?thesis by (metis append_Cons)
    qed
  qed
  then show ?case using Cons by auto
qed auto

lemma sub_index_Some:
  "sub_index s q = Some i \<Longrightarrow> s = take i s @ q @ drop (i + length q) s \<and> (\<forall>u v. s = u @ q @ v \<longrightarrow> i \<le> length u)"
proof (induction s arbitrary: i)
  case (Cons c s)
  show ?case
  proof (cases "has_prefix (c # s) q")
    case True
    then have eq: "c # s = q @ drop (length q) (c # s)" by (metis append_take_drop_id has_prefix_def)
    have "i = 0" using True Cons.prems by simp
    show ?thesis unfolding \<open>i = 0\<close> take_0 append_Nil add_0 by (intro conjI allI impI, rule eq, rule le0)
  next
    case False
    then obtain j where j: "sub_index s q = Some j" "i = Suc j" using Cons.prems by auto
    note IH = Cons.IH [OF j(1)]
    have "Suc j \<le> length u" if uv: "c # s = u @ q @ v" for u v
    proof (cases u)
      case Nil
      then have "has_prefix (c # s) q" unfolding uv by simp
      with False show ?thesis by blast
    next
      case (Cons d u')
      then have "s = u' @ q @ v" using uv by simp
      then have "j \<le> length u'" using conjunct2 [OF IH] by blast
      with Cons show ?thesis by simp
    qed
    moreover have "c # s = take i (c # s) @ q @ drop (i + length q) (c # s)"
      unfolding j(2) take_Suc_Cons add_Suc drop_Suc_Cons append_Cons using conjunct1 [OF IH] by (rule arg_cong)
    ultimately show ?thesis unfolding j(2) by blast
  qed
qed (auto split: if_splits)

lemma glob_star_extend: "glob (CHR ''*'' # p) s \<Longrightarrow> glob (CHR ''*'' # p) (w @ s)"
  unfolding glob_star_iff by (metis append.assoc)

text \<open>A star can always take the leftmost occurrence of the text that follows it.\<close>

lemma glob_leftmost:
  assumes "CHR ''*'' \<notin> set q"
  shows "glob (CHR ''*'' # q @ CHR ''*'' # p) s \<longleftrightarrow>
    (case sub_index s q of None \<Rightarrow> False | Some i \<Rightarrow> glob (CHR ''*'' # p) (drop (i + length q) s))"
proof -
  have eq: "glob (CHR ''*'' # q @ CHR ''*'' # p) s \<longleftrightarrow> (\<exists>u v. s = u @ q @ v \<and> glob (CHR ''*'' # p) v)"
    unfolding glob_star_iff [of "q @ CHR ''*'' # p"] glob_literal [OF assms] by blast
  show ?thesis
  proof (cases "sub_index s q")
    case None
    then show ?thesis using sub_index_None [of s q] eq by auto
  next
    case (Some i)
    note i = sub_index_Some [OF Some]
    have "glob (CHR ''*'' # p) (drop (i + length q) s)" if "s = u @ q @ v" "glob (CHR ''*'' # p) v" for u v
    proof -
      have "i \<le> length u" using i that(1) by blast
      then have "drop (i + length q) s = drop (i + length q) (u @ q) @ v" using that(1) by simp
      then show ?thesis using glob_star_extend [OF that(2), of "drop (i + length q) (u @ q)"] by metis
    qed
    then show ?thesis using eq Some i by auto
  qed
qed

lemma glob_last: "CHR ''*'' \<notin> set q \<Longrightarrow> glob (CHR ''*'' # q) s \<longleftrightarrow> has_suffix s q"
proof -
  assume q: "CHR ''*'' \<notin> set q"
  have "glob (CHR ''*'' # q) s \<longleftrightarrow> (\<exists>u. s = u @ q)" by (auto simp: glob_star_iff glob_exact [OF q])
  also have "\<dots> \<longleftrightarrow> has_suffix s q"
  proof
    assume "has_suffix s q"
    then show "\<exists>u. s = u @ q" unfolding has_suffix_def by (metis append_take_drop_id)
  qed (auto simp: has_suffix_def)
  finally show ?thesis .
qed

lemma match_segments_glob:
  assumes "segs \<noteq> []" "\<forall>q \<in> set segs. CHR ''*'' \<notin> set q" "0 < i" "last pattern \<noteq> CHR ''*'' \<longleftrightarrow> last segs \<noteq> []"
  shows "match_segments pattern i s segs \<longleftrightarrow> glob (CHR ''*'' # join_with ''*'' segs) s"
  using assms
proof (induction segs arbitrary: i s)
  case (Cons seg segs)
  show ?case
  proof (cases "segs = []")
    case True
    then show ?thesis
      using Cons.prems glob_last [of seg s] by (cases "seg = []") (auto simp: glob_star_iff)
  next
    case False
    then obtain q qs where qs: "segs = q # qs" by (cases segs) auto
    have seg: "CHR ''*'' \<notin> set seg" using Cons.prems(2) by simp
    have IH: "match_segments pattern (Suc i) t segs \<longleftrightarrow> glob (CHR ''*'' # join_with ''*'' segs) t" for t
      using Cons.IH [of "Suc i" t] Cons.prems False by simp
    have join: "join_with ''*'' (seg # segs) = seg @ CHR ''*'' # join_with ''*'' segs" by (simp add: qs)
    have lm: "sub_index s [] = Some 0" by (cases s) (auto simp: has_prefix_def)
    show ?thesis
      unfolding join glob_leftmost [OF seg]
      using False Cons.prems(3) IH lm by (cases "seg = []") (auto split: option.split)
  qed
qed simp

lemma split_on_segments: "\<forall>q \<in> set (split_on d s). d \<notin> set q"
  by (induction s) (auto split: list.splits)

lemma last_split_on: "s \<noteq> [] \<Longrightarrow> last (split_on d s) = [] \<longleftrightarrow> last s = d"
proof (induction s)
  case (Cons c s)
  show ?case
  proof (cases s)
    case (Cons c' s')
    obtain q qs where qs: "split_on d s = q # qs" using split_on_not_Nil by (metis neq_Nil_conv)
    show ?thesis
    proof (cases "c = d \<or> qs \<noteq> []")
      case True
      then show ?thesis using Cons.IH qs \<open>s = c' # s'\<close> by (auto simp del: split_on.simps simp add: split_on.simps(2))
    next
      case False
      then have "split_on d s = [q]" using qs by simp
      moreover from this have "q = s" using join_split [of d s] by simp
      ultimately show ?thesis
        using False \<open>s = c' # s'\<close> Cons.IH by (auto simp del: split_on.simps simp add: split_on.simps(2))
    qed
  qed simp
qed simp

lemma matches_pattern_glob: "matches_pattern key pattern \<longleftrightarrow> glob pattern key"
proof (cases "CHR ''*'' \<in> set pattern")
  case False
  then show ?thesis by (simp add: matches_pattern_def glob_exact)
next
  case True
  obtain seg segs where segs: "split_on CHR ''*'' pattern = seg # segs" using split_on_not_Nil by (metis neq_Nil_conv)
  have "segs \<noteq> []"
  proof
    assume "segs = []"
    then have "pattern = seg" using join_split [of "CHR ''*''" pattern] segs by simp
    then show False using True split_on_segments [of "CHR ''*''" pattern] segs by simp
  qed
  then have pat: "pattern = seg @ CHR ''*'' # join_with ''*'' segs"
    using join_split [of "CHR ''*''" pattern] segs by (cases segs) auto
  have free: "CHR ''*'' \<notin> set seg" "\<forall>q \<in> set segs. CHR ''*'' \<notin> set q"
    using split_on_segments [of "CHR ''*''" pattern] segs by auto
  have "last pattern \<noteq> CHR ''*'' \<longleftrightarrow> last segs \<noteq> []"
    using last_split_on [of pattern "CHR ''*''"] segs \<open>segs \<noteq> []\<close> pat by auto
  then have rest: "match_segments pattern 1 s segs \<longleftrightarrow> glob (CHR ''*'' # join_with ''*'' segs) s" for s
    using match_segments_glob [OF \<open>segs \<noteq> []\<close> free(2), of 1 pattern s] by simp
  have hd: "hd pattern \<noteq> CHR ''*''" if "seg \<noteq> []" using that free(1) pat by (cases seg) auto
  have "matches_pattern key pattern \<longleftrightarrow> has_prefix key seg \<and> match_segments pattern 1 (drop (length seg) key) segs"
    using True segs hd by (cases "seg = []") (simp_all add: matches_pattern_def has_prefix_def)
  also have "\<dots> \<longleftrightarrow> (\<exists>v. key = seg @ v \<and> glob (CHR ''*'' # join_with ''*'' segs) v)"
    unfolding rest by (auto simp: has_prefix_def) (metis append_take_drop_id)
  also have "\<dots> \<longleftrightarrow> glob pattern key" unfolding pat glob_literal [OF free(1)] by blast
  finally show ?thesis .
qed

text \<open>The filters keep and drop what their patterns say. A key matches a pattern, in the greedy scan for one segment
  after the other, exactly when it is an instance of the pattern with any text for the stars; \<open>FilterOut\<close> and
  \<open>filterIn\<close> divide the readings by it, each with its value.\<close>

theorem filters_are_globs:
  "set (filter_out readings keys) = {r \<in> set readings. \<not> (\<exists>p \<in> set keys. glob p (fst r))} \<and>
   set (filter_in readings keys) = {r \<in> set readings. \<exists>p \<in> set keys. glob p (fst r)}"
  by (auto simp: filter_out_def filter_in_def list_ex_iff matches_pattern_glob)

end
