(* ===== verification/Topology.thy ===== *)
theory Topology
  imports Measurement
begin


section \<open>Node topology: aggregation, encoding, decoding (pkg/collector/topology)\<close>

text \<open>
  The collector folds the labels and taints of all nodes into readings (a label, a taint, with the nodes that carry it),
  and writes them twice: folded into a map (\<open>Data\<close>) and one record each (\<open>Items\<close>). The readers take the
  records when there are some. The theory has both directions. A reading set is an association list: the map
  of the code in one of its iteration orders. A cluster is its pages; \<open>Topology_Collect\<close> has the loop that
  lists them.
\<close>

subsection \<open>Aggregation\<close>

record taint =
  tn_Key :: string
  tn_Effect :: string
  tn_Value :: string

record node =
  nd_Name :: string
  nd_Labels :: "(string \<times> string) list"
  nd_Taints :: "taint list"

record label_id =
  li_Key :: string
  li_Value :: string

record taint_id =
  ti_Key :: string
  ti_Effect :: string
  ti_Value :: string

definition add_carrier :: "string \<Rightarrow> ('id \<times> string list) list \<Rightarrow> 'id \<Rightarrow> ('id \<times> string list) list" where
  "add_carrier name m i = upsert i ((case map_of m i of None \<Rightarrow> [] | Some ns \<Rightarrow> ns) @ [name]) m"

definition label_ids :: "node \<Rightarrow> label_id list" where
  "label_ids n = map (\<lambda>(k, v). \<lparr>li_Key = k, li_Value = v\<rparr>) (nd_Labels n)"

definition taint_ids :: "node \<Rightarrow> taint_id list" where
  "taint_ids n = map (\<lambda>t. \<lparr>ti_Key = tn_Key t, ti_Effect = tn_Effect t, ti_Value = tn_Value t\<rparr>) (nd_Taints n)"

definition aggregate :: "(node \<Rightarrow> 'id list) \<Rightarrow> node list list \<Rightarrow> ('id \<times> string list) list" where
  "aggregate ids pages =
     map (\<lambda>(id, ns). (id, sort ns))
       (foldl (\<lambda>m n. foldl (add_carrier (nd_Name n)) m (ids n)) [] (concat pages))"

subsection \<open>Encoding\<close>

definition format_node_list :: "string list \<Rightarrow> int \<Rightarrow> string" where
  "format_node_list nodes maxn =
     (if maxn > 0 \<and> int (length nodes) > maxn
      then join_with '','' (take (nat maxn) nodes) @ '' (+'' @ show_nat (length nodes - nat maxn) @ '' more)''
      else join_with '','' nodes)"

definition itemCtxKey :: string where "itemCtxKey = ''key''"
definition itemCtxValue :: string where "itemCtxValue = ''value''"
definition itemCtxEffect :: string where "itemCtxEffect = ''effect''"
definition itemDataNodeCount :: string where "itemDataNodeCount = ''node-count''"
definition itemDataNodeList :: string where "itemDataNodeList = ''node-list''"
definition itemDataNodeRef :: string where "itemDataNodeRef = ''node-list-ref''"
definition itemDataTruncated :: string where "itemDataTruncated = ''truncated''"

lemmas item_fields = itemCtxKey_def itemCtxValue_def itemCtxEffect_def itemDataNodeCount_def itemDataNodeList_def
  itemDataNodeRef_def itemDataTruncated_def

text \<open>How many entries have a key: \<open>keyValues\<close>, \<open>keyEffects\<close>, \<open>refCounts\<close>, \<open>foldCounts\<close>.\<close>

definition tally :: "'a list \<Rightarrow> 'a \<Rightarrow> nat" where
  "tally xs x = count_list xs x"

definition encode_labels :: "(label_id \<times> string list) list \<Rightarrow> int \<Rightarrow> (string \<times> reading) list" where
  "encode_labels labels maxn =
     foldl (\<lambda>data (id, nodes).
        upsert (if tally (map (li_Key \<circ> fst) labels) (li_Key id) > 1 then li_Key id @ ''.'' @ li_Value id else li_Key id)
          (ReadStr (li_Value id @ ''|'' @ format_node_list nodes maxn)) data) [] labels"

definition encode_taints :: "(taint_id \<times> string list) list \<Rightarrow> int \<Rightarrow> (string \<times> reading) list" where
  "encode_taints taints maxn =
     foldl (\<lambda>data (id, nodes).
        if tally (map (ti_Key \<circ> fst) taints) (ti_Key id) > 1
        then upsert (ti_Key id @ ''.'' @ ti_Effect id) (ReadStr (ti_Value id @ ''|'' @ format_node_list nodes maxn)) data
        else upsert (ti_Key id) (ReadStr (ti_Effect id @ ''|'' @ ti_Value id @ ''|'' @ format_node_list nodes maxn)) data)
       [] taints"

definition label_map_keys :: "(label_id \<times> string list) list \<Rightarrow> (label_id \<times> string) list" where
  "label_map_keys labels =
     map (\<lambda>(id, _). (id, if tally (map (li_Key \<circ> fst) labels) (li_Key id) > 1
                          then li_Key id @ ''.'' @ li_Value id else li_Key id)) labels"

definition taint_map_keys :: "(taint_id \<times> string list) list \<Rightarrow> (taint_id \<times> string) list" where
  "taint_map_keys taints =
     map (\<lambda>(id, _). (id, if tally (map (ti_Key \<circ> fst) taints) (ti_Key id) > 1
                          then ti_Key id @ ''.'' @ ti_Effect id else ti_Key id)) taints"

definition ref_counts :: "('id \<times> string) list \<Rightarrow> string \<Rightarrow> nat" where
  "ref_counts map_keys = tally (map snd map_keys)"

definition node_list_data :: "string list \<Rightarrow> int \<Rightarrow> (string \<times> reading) list" where
  "node_list_data nodes maxn =
     [(itemDataNodeCount, ReadInt (int (length nodes))),
      (itemDataNodeList, ReadStr (format_node_list nodes maxn)),
      (itemDataTruncated, ReadBool (maxn > 0 \<and> int (length nodes) > maxn))]"

definition membership_data :: "string list \<Rightarrow> int \<Rightarrow> string \<Rightarrow> (string \<Rightarrow> nat) \<Rightarrow> (string \<times> reading) list" where
  "membership_data nodes maxn map_key counts =
     (if counts map_key \<noteq> 1 then node_list_data nodes maxn
      else [(itemDataNodeCount, ReadInt (int (length nodes))),
            (itemDataNodeRef, ReadStr map_key),
            (itemDataTruncated, ReadBool (maxn > 0 \<and> int (length nodes) > maxn))])"

definition encode_label_items :: "(label_id \<times> string list) list \<Rightarrow> int \<Rightarrow> item_entry list" where
  "encode_label_items labels maxn =
     map (\<lambda>(id, nodes).
        \<lparr>it_Context = [(itemCtxKey, li_Key id), (itemCtxValue, li_Value id)],
         it_Data = membership_data nodes maxn (the (map_of (label_map_keys labels) id)) (ref_counts (label_map_keys labels))\<rparr>)
       (sort_key (\<lambda>(id, _). [li_Key id, li_Value id]) labels)"

definition encode_taint_items :: "(taint_id \<times> string list) list \<Rightarrow> int \<Rightarrow> item_entry list" where
  "encode_taint_items taints maxn =
     map (\<lambda>(id, nodes).
        \<lparr>it_Context = [(itemCtxKey, ti_Key id), (itemCtxValue, ti_Value id), (itemCtxEffect, ti_Effect id)],
         it_Data = membership_data nodes maxn (the (map_of (taint_map_keys taints) id)) (ref_counts (taint_map_keys taints))\<rparr>)
       (sort_key (\<lambda>(id, _). [ti_Key id, ti_Effect id, ti_Value id]) taints)"

definition subtypeLabel :: string where "subtypeLabel = ''label''"
definition subtypeTaint :: string where "subtypeTaint = ''taint''"

definition label_subtype :: "(label_id \<times> string list) list \<Rightarrow> int \<Rightarrow> subtype" where
  "label_subtype labels maxn =
     \<lparr>st_Name = subtypeLabel, st_Data = encode_labels labels maxn, st_Context = [], st_Items = encode_label_items labels maxn\<rparr>"

definition taint_subtype :: "(taint_id \<times> string list) list \<Rightarrow> int \<Rightarrow> subtype" where
  "taint_subtype taints maxn =
     \<lparr>st_Name = subtypeTaint, st_Data = encode_taints taints maxn, st_Context = [], st_Items = encode_taint_items taints maxn\<rparr>"

definition collect :: "node list list \<Rightarrow> int \<Rightarrow> measurement" where
  "collect pages maxn =
     (let labels = aggregate label_ids pages; taints = aggregate taint_ids pages
      in \<lparr>mt_Type = TypeNodeTopology,
          mt_Subtypes =
            [\<lparr>st_Name = ''summary'',
              st_Data = [(''node-count'', ReadInt (int (length (concat pages)))),
                         (''taint-count'', ReadInt (int (length (encode_taint_items taints maxn)))),
                         (''label-count'', ReadInt (int (length (encode_label_items labels maxn))))],
              st_Context = [], st_Items = []\<rparr>,
             taint_subtype taints maxn, label_subtype labels maxn]\<rparr>)"

definition empty_measurement :: measurement where
  "empty_measurement =
     \<lparr>mt_Type = TypeNodeTopology,
      mt_Subtypes =
        [\<lparr>st_Name = ''summary'',
          st_Data = [(''node-count'', ReadInt 0), (''taint-count'', ReadInt 0), (''label-count'', ReadInt 0)],
          st_Context = [], st_Items = []\<rparr>,
         \<lparr>st_Name = subtypeTaint, st_Data = [], st_Context = [], st_Items = []\<rparr>,
         \<lparr>st_Name = subtypeLabel, st_Data = [], st_Context = [], st_Items = []\<rparr>]\<rparr>"

subsection \<open>The truncation marker\<close>

text \<open>The digits of a suffix \<open>(+N more)\<close>: what the regular expression captures.\<close>

definition truncation_digits :: "string \<Rightarrow> string option" where
  "truncation_digits nodes =
     (let r = rev nodes; tail = rev '' more)''; body = drop (length tail) r
      in if has_prefix r tail \<and> takeWhile is_digit body \<noteq> [] \<and> has_prefix (dropWhile is_digit body) ''+(''
         then Some (rev (takeWhile is_digit body)) else None)"

definition is_truncated_node_list :: "string \<Rightarrow> bool" where
  "is_truncated_node_list nodes \<longleftrightarrow> truncation_digits nodes \<noteq> None"

definition truncated_node_list_remainder :: "string \<Rightarrow> (int \<times> bool) res" where
  "truncated_node_list_remainder nodes =
     (case truncation_digits nodes of
        None \<Rightarrow> Inr (0, False)
      | Some ds \<Rightarrow>
          (case atoi ds of
             None \<Rightarrow> invalid ''node list truncation marker %q is not a usable count'' [ds]
           | Some n \<Rightarrow> Inr (n, True)))"

definition split_node_list :: "string \<Rightarrow> string list" where
  "split_node_list list = (if list = [] then [] else split_on CHR '','' list)"

subsection \<open>Decoding\<close>

record label_reading =
  lr_Key :: string
  lr_Value :: string
  lr_Nodes :: "string list"
  lr_NodeCount :: int
  lr_Truncated :: bool
  lr_RawKey :: string

record taint_reading =
  tr_Key :: string
  tr_Effect :: string
  tr_Value :: string
  tr_Nodes :: "string list"
  tr_NodeCount :: int
  tr_Truncated :: bool
  tr_RawKey :: string

definition has_lossless_readings :: "subtype option \<Rightarrow> bool" where
  "has_lossless_readings st = (case st of None \<Rightarrow> False | Some st \<Rightarrow> length (st_Items st) > 0)"

definition item_context :: "string \<Rightarrow> item_entry \<Rightarrow> string res" where
  "item_context field item =
     (case map_of (it_Context item) field of
        None \<Rightarrow> invalid ''topology item %d: missing required context field %q'' [field]
      | Some v \<Rightarrow> if v = [] then invalid ''topology item %d: missing required context field %q'' [field] else Inr v)"

definition context_value :: "item_entry \<Rightarrow> string" where
  "context_value item = (case map_of (it_Context item) itemCtxValue of None \<Rightarrow> [] | Some v \<Rightarrow> v)"

definition item_ref :: "item_entry \<Rightarrow> string option res" where
  "item_ref item =
     (case map_of (it_Data item) itemDataNodeRef of
        None \<Rightarrow> Inr None
      | Some (ReadStr ref) \<Rightarrow>
          if ref = [] then invalid ''topology item %d: data field %q is not a non-empty string'' [itemDataNodeRef] else Inr (Some ref)
      | Some _ \<Rightarrow> invalid ''topology item %d: data field %q is not a non-empty string'' [itemDataNodeRef])"

definition resolve_node_list ::
  "item_entry \<Rightarrow> (string \<times> reading) list \<Rightarrow> string \<Rightarrow> (string \<Rightarrow> nat) \<Rightarrow> string res" where
  "resolve_node_list item data raw_key folds =
     res_bind (item_ref item) (\<lambda>ref.
       case (map_of (it_Data item) itemDataNodeList, ref) of
         (Some _, Some _) \<Rightarrow> invalid ''topology item %d: carries both %q and %q; membership has one source'' [itemDataNodeList, itemDataNodeRef]
       | (None, None) \<Rightarrow> invalid ''topology item %d: carries neither %q nor %q'' [itemDataNodeList, itemDataNodeRef]
       | (Some (ReadStr list), None) \<Rightarrow> Inr list
       | (Some _, None) \<Rightarrow> invalid ''topology item %d: data field %q is not a string'' [itemDataNodeList]
       | (None, Some ref) \<Rightarrow>
           if ref \<noteq> raw_key then invalid ''topology item %d: %q names %q but this reading folds onto %q'' [itemDataNodeRef, ref, raw_key]
           else if folds ref \<noteq> 1 then invalid ''topology item %d: %d readings fold onto %q, so it cannot be referenced'' [ref]
           else (case map_of data ref of
                   None \<Rightarrow> invalid ''topology item %d: %q %q names no data entry'' [itemDataNodeRef, ref]
                 | Some entry \<Rightarrow> Inr (last (split_on CHR ''|'' (reading_string entry)))))"

text \<open>\<open>readingInt\<close>: a float counts when it is integral, which printing shows by plain digits.\<close>

definition reading_int :: "reading \<Rightarrow> int option" where
  "reading_int r = (case r of ReadInt v \<Rightarrow> Some v | ReadFloat s \<Rightarrow> atoi s | _ \<Rightarrow> None)"

definition item_int :: "item_entry \<Rightarrow> string \<Rightarrow> int res" where
  "item_int item field =
     (case map_of (it_Data item) field of
        None \<Rightarrow> invalid ''topology item %d: missing required data field %q'' [field]
      | Some r \<Rightarrow>
          (case reading_int r of
             None \<Rightarrow> invalid ''topology item %d: data field %q is not an integer'' [field]
           | Some v \<Rightarrow> if v < 0 then invalid ''topology item %d: data field %q is negative (%d)'' [field] else Inr v))"

definition item_bool :: "item_entry \<Rightarrow> string \<Rightarrow> bool res" where
  "item_bool item field =
     (case map_of (it_Data item) field of
        None \<Rightarrow> invalid ''topology item %d: missing required data field %q'' [field]
      | Some (ReadBool v) \<Rightarrow> Inr v
      | Some _ \<Rightarrow> invalid ''topology item %d: data field %q is not a boolean'' [field])"

text \<open>Additions of Go's 64-bit \<open>int\<close>.\<close>

definition wrap64 :: "int \<Rightarrow> int" where
  "wrap64 i = (i + 9223372036854775808) mod 18446744073709551616 - 9223372036854775808"

definition item_nodes ::
  "item_entry \<Rightarrow> (string \<times> reading) list \<Rightarrow> string \<Rightarrow> (string \<Rightarrow> nat) \<Rightarrow> (string list \<times> int \<times> bool) res" where
  "item_nodes item data raw_key folds =
     res_bind (resolve_node_list item data raw_key folds) (\<lambda>list.
     res_bind (res_wrap (err_wrap ErrCodeInvalidRequest ''topology item %d'' []) (truncated_node_list_remainder list)) (\<lambda>rem.
     res_bind (item_int item itemDataNodeCount) (\<lambda>cnt.
     res_bind (item_bool item itemDataTruncated) (\<lambda>truncated.
       let nodes = split_node_list list
       in if snd rem \<noteq> truncated then
            invalid ''topology item %d: %q is %v but the node list %s the truncation marker'' [itemDataTruncated]
          else if cnt \<noteq> wrap64 (int (length nodes) + fst rem) then
            invalid ''topology item %d: %q is %d but the node list names %d and withholds %d'' [itemDataNodeCount]
          else Inr (nodes, cnt, truncated)))))"

text \<open>The loops over the items: each result appended, the first error returned.\<close>

fun res_map :: "('a \<Rightarrow> 'b res) \<Rightarrow> 'a list \<Rightarrow> 'b list res" where
  "res_map f [] = Inr []"
| "res_map f (x # xs) = (case f x of Inl e \<Rightarrow> Inl e | Inr y \<Rightarrow> res_bind (res_map f xs) (\<lambda>ys. Inr (y # ys)))"

definition label_item_head :: "item_entry \<Rightarrow> label_reading res" where
  "label_item_head item =
     res_bind (item_context itemCtxKey item) (\<lambda>key.
       Inr \<lparr>lr_Key = key, lr_Value = context_value item, lr_Nodes = [], lr_NodeCount = 0, lr_Truncated = False, lr_RawKey = key\<rparr>)"

definition apply_label_raw_keys :: "label_reading list \<Rightarrow> label_reading list" where
  "apply_label_raw_keys rs =
     map (\<lambda>r. if tally (map lr_Key rs) (lr_Key r) > 1 then r \<lparr>lr_RawKey := lr_Key r @ ''.'' @ lr_Value r\<rparr> else r) rs"

definition label_readings_from_items :: "subtype \<Rightarrow> label_reading list res" where
  "label_readings_from_items st =
     res_bind (res_map label_item_head (st_Items st)) (\<lambda>heads.
       let out = apply_label_raw_keys heads; folds = tally (map lr_RawKey out)
       in res_map (\<lambda>(item, r).
            res_bind (item_nodes item (st_Data st) (lr_RawKey r) folds) (\<lambda>(nodes, cnt, truncated).
              Inr (r \<lparr>lr_Nodes := nodes, lr_NodeCount := cnt, lr_Truncated := truncated\<rparr>)))
          (zip (st_Items st) out))"

definition taint_item_head :: "item_entry \<Rightarrow> taint_reading res" where
  "taint_item_head item =
     res_bind (item_context itemCtxKey item) (\<lambda>key.
     res_bind (item_context itemCtxEffect item) (\<lambda>effect.
       Inr \<lparr>tr_Key = key, tr_Effect = effect, tr_Value = context_value item, tr_Nodes = [], tr_NodeCount = 0,
            tr_Truncated = False, tr_RawKey = key\<rparr>))"

definition apply_taint_raw_keys :: "taint_reading list \<Rightarrow> taint_reading list" where
  "apply_taint_raw_keys rs =
     map (\<lambda>r. if tally (map tr_Key rs) (tr_Key r) > 1 then r \<lparr>tr_RawKey := tr_Key r @ ''.'' @ tr_Effect r\<rparr> else r) rs"

definition taint_readings_from_items :: "subtype \<Rightarrow> taint_reading list res" where
  "taint_readings_from_items st =
     res_bind (res_map taint_item_head (st_Items st)) (\<lambda>heads.
       let out = apply_taint_raw_keys heads; folds = tally (map tr_RawKey out)
       in res_map (\<lambda>(item, r).
            res_bind (item_nodes item (st_Data st) (tr_RawKey r) folds) (\<lambda>(nodes, cnt, truncated).
              Inr (r \<lparr>tr_Nodes := nodes, tr_NodeCount := cnt, tr_Truncated := truncated\<rparr>)))
          (zip (st_Items st) out))"

text \<open>The old encoding. \<open>cut\<close> is \<open>strings.Cut\<close> at a character; the loop over the map may stop at any of
  the malformed entries.\<close>

definition cut :: "char \<Rightarrow> string \<Rightarrow> string \<times> string \<times> bool" where
  "cut c s = (case char_index c s of None \<Rightarrow> (s, [], False) | Some i \<Rightarrow> (take i s, drop (Suc i) s, True))"

definition label_reading_from_entry :: "string \<times> reading \<Rightarrow> label_reading res" where
  "label_reading_from_entry entry =
     (case (fst entry, cut CHR ''|'' (reading_string (snd entry))) of
        (key, value, list, _) \<Rightarrow>
          res_bind (res_wrap (err_wrap ErrCodeInvalidRequest ''label reading %q'' [key]) (truncated_node_list_remainder list)) (\<lambda>(hidden, truncated).
            Inr \<lparr>lr_Key = key, lr_Value = value, lr_Nodes = split_node_list list,
                 lr_NodeCount = wrap64 (int (length (split_node_list list)) + hidden), lr_Truncated = truncated, lr_RawKey = key\<rparr>))"

definition label_readings_from_data :: "(string \<times> reading) list \<Rightarrow> label_reading list res" where
  "label_readings_from_data data =
     res_bind (res_map label_reading_from_entry data) (\<lambda>out. Inr (sort_key (\<lambda>r. [lr_Key r, lr_Value r]) out))"

definition taint_fields :: "string \<Rightarrow> string \<Rightarrow> (string \<times> string \<times> string \<times> string) res" where
  "taint_fields raw_key text =
     (case cut CHR ''|'' text of
        (_, _, False) \<Rightarrow> invalid ''taint reading %q: expected 2 or 3 pipe-separated fields, got 1'' [raw_key]
      | (p0, rest, True) \<Rightarrow>
          (case cut CHR ''|'' rest of
             (p1, p2, True) \<Rightarrow> Inr (raw_key, p0, p1, p2)
           | (p1, _, False) \<Rightarrow>
               (case last_char_index CHR ''.'' raw_key of
                  None \<Rightarrow> invalid ''taint reading %q: two-field form requires an effect suffix in the key'' [raw_key]
                | Some i \<Rightarrow>
                    if i = length raw_key - 1 then
                      invalid ''taint reading %q: two-field form requires an effect suffix in the key'' [raw_key]
                    else Inr (take i raw_key, drop (Suc i) raw_key, p0, p1))))"

definition taint_reading_from_entry :: "string \<times> reading \<Rightarrow> taint_reading res" where
  "taint_reading_from_entry entry =
     res_bind (taint_fields (fst entry) (reading_string (snd entry))) (\<lambda>(key, effect, value, list).
     res_bind (res_wrap (err_wrap ErrCodeInvalidRequest ''taint reading %q'' [fst entry]) (truncated_node_list_remainder list)) (\<lambda>(hidden, truncated).
       Inr \<lparr>tr_Key = key, tr_Effect = effect, tr_Value = value, tr_Nodes = split_node_list list,
            tr_NodeCount = wrap64 (int (length (split_node_list list)) + hidden), tr_Truncated = truncated, tr_RawKey = fst entry\<rparr>))"

definition taint_readings_from_data :: "(string \<times> reading) list \<Rightarrow> taint_reading list res" where
  "taint_readings_from_data data =
     res_bind (res_map taint_reading_from_entry data) (\<lambda>out. Inr (sort_key (\<lambda>r. [tr_Key r, tr_Effect r, tr_Value r]) out))"

definition label_readings :: "subtype option \<Rightarrow> label_reading list res" where
  "label_readings st =
     (case st of
        None \<Rightarrow> Inr []
      | Some st \<Rightarrow> if length (st_Items st) > 0 then label_readings_from_items st else label_readings_from_data (st_Data st))"

definition taint_readings :: "subtype option \<Rightarrow> taint_reading list res" where
  "taint_readings st =
     (case st of
        None \<Rightarrow> Inr []
      | Some st \<Rightarrow> if length (st_Items st) > 0 then taint_readings_from_items st else taint_readings_from_data (st_Data st))"

subsection \<open>Items with their nodes inline\<close>

definition inline_nodes :: "item_entry \<Rightarrow> string list \<Rightarrow> item_entry" where
  "inline_nodes item nodes =
     \<lparr>it_Context = it_Context item,
      it_Data = upsert itemDataNodeList (ReadStr (join_with '','' nodes)) (filter (\<lambda>(k, _). k \<noteq> itemDataNodeRef) (it_Data item))\<rparr>"

definition hydrate_from :: "item_entry list \<Rightarrow> (string list \<times> string) list \<Rightarrow> (item_entry list \<times> string list) res" where
  "hydrate_from items rs =
     (if length rs \<noteq> length items then Inl (err_new ErrCodeInternal ''hydration produced a different number of readings than items'' [])
      else Inr (map (\<lambda>(item, r). inline_nodes item (fst r)) (zip items rs),
                filter (\<lambda>k. tally (map snd rs) k > 1) (remdups (map snd rs))))"

definition hydrate_items :: "subtype option \<Rightarrow> (item_entry list \<times> string list) res" where
  "hydrate_items st =
     (case st of
        None \<Rightarrow> Inr ([], [])
      | Some st \<Rightarrow>
          if length (st_Items st) = 0 then Inr ([], [])
          else if st_Name st = subtypeLabel then
            res_bind (label_readings (Some st)) (\<lambda>rs. hydrate_from (st_Items st) (map (\<lambda>r. (lr_Nodes r, lr_RawKey r)) rs))
          else if st_Name st = subtypeTaint then
            res_bind (taint_readings (Some st)) (\<lambda>rs. hydrate_from (st_Items st) (map (\<lambda>r. (tr_Nodes r, tr_RawKey r)) rs))
          else Inr (st_Items st, []))"


subsection \<open>What the encoding of a node list says\<close>

text \<open>What the readers rely on of a node's name: Kubernetes allows letters, digits, \<open>-\<close> and \<open>.\<close>.\<close>

definition node_name :: "string \<Rightarrow> bool" where
  "node_name s \<longleftrightarrow> s \<noteq> [] \<and> CHR '','' \<notin> set s \<and> CHR ''|'' \<notin> set s \<and> CHR '')'' \<notin> set s"

lemma has_prefix_iff: "has_prefix s p \<longleftrightarrow> (\<exists>t. s = p @ t)"
  unfolding has_prefix_def by (metis append_eq_conv_conj append_take_drop_id)

lemma join_with_set: "set (join_with d ps) \<subseteq> set d \<union> \<Union> (set ` set ps)"
  by (induction d ps rule: join_with.induct) auto

lemma last_char_join: "ps \<noteq> [] \<Longrightarrow> last ps \<noteq> [] \<Longrightarrow> join_with d ps \<noteq> [] \<and> last (join_with d ps) = last (last ps)"
  by (induction d ps rule: join_with.induct) auto

lemma split_join: "ps \<noteq> [] \<Longrightarrow> \<forall>p \<in> set ps. d \<notin> set p \<Longrightarrow> split_on d (join_with [d] ps) = ps"
  by (induction "[d]" ps rule: join_with.induct) (simp_all add: split_on_free split_on_append)

lemma split_on_snoc_free:
  assumes "d \<notin> set t" shows "split_on d (s @ t) = butlast (split_on d s) @ [last (split_on d s) @ t]"
proof (induction s)
  case (Cons c s)
  obtain q qs where "split_on d s = q # qs" using split_on_not_Nil by (metis neq_Nil_conv)
  with Cons.IH show ?case by (cases qs) auto
qed (simp add: split_on_free [OF assms])

lemma last_split_on_free: "d \<notin> set s \<Longrightarrow> last (split_on d (p @ d # s)) = s"
  using split_on_snoc_free [of d s "p @ [d]"] last_split_on [of "p @ [d]" d] by simp

lemma truncation_digits_marker:
  assumes "ds \<noteq> []" "list_all is_digit ds" "s = t @ ''(+'' @ ds @ '' more)''"
  shows "truncation_digits s = Some ds"
proof -
  have dw: "dropWhile is_digit (rev ds @ ''+('' @ rev t) = ''+('' @ rev t"
    and tw: "takeWhile is_digit (rev ds @ ''+('' @ rev t) = rev ds"
    using assms(2) by (simp_all add: list_all_iff dropWhile_append takeWhile_append is_digit_def)
  have "rev s = rev '' more)'' @ rev ds @ ''+('' @ rev t" by (simp add: assms(3))
  then show ?thesis using dw tw assms(1) by (simp add: truncation_digits_def has_prefix_iff)
qed

lemma truncation_digits_none: "s = [] \<or> last s \<noteq> CHR '')'' \<Longrightarrow> truncation_digits s = None"
proof -
  assume a: "s = [] \<or> last s \<noteq> CHR '')''"
  have "\<not> has_prefix (rev s) (rev '' more)'')"
    using a by (cases s rule: rev_cases) (auto simp: has_prefix_def)
  then show ?thesis by (simp add: truncation_digits_def)
qed

definition shown_nodes :: "string list \<Rightarrow> int \<Rightarrow> string list" where
  "shown_nodes nodes maxn = split_node_list (format_node_list nodes maxn)"

definition cut_off :: "string list \<Rightarrow> int \<Rightarrow> bool" where
  "cut_off nodes maxn \<longleftrightarrow> maxn > 0 \<and> int (length nodes) > maxn"

definition nodes_ok :: "string list \<Rightarrow> bool" where
  "nodes_ok nodes \<longleftrightarrow> nodes \<noteq> [] \<and> int (length nodes) \<le> int64_max \<and> (\<forall>n \<in> set nodes. node_name n)"

lemma shown_nodes_complete: "nodes_ok nodes \<Longrightarrow> \<not> cut_off nodes maxn \<Longrightarrow> shown_nodes nodes maxn = nodes"
proof -
  assume ok: "nodes_ok nodes" "\<not> cut_off nodes maxn"
  then have "format_node_list nodes maxn = join_with '','' nodes" by (auto simp: format_node_list_def cut_off_def)
  moreover have "join_with '','' nodes \<noteq> []" using ok last_char_join [of nodes "'',''"] by (auto simp: nodes_ok_def node_name_def)
  moreover have "split_on CHR '','' (join_with '','' nodes) = nodes"
    using ok by (intro split_join) (auto simp: nodes_ok_def node_name_def)
  ultimately show ?thesis by (simp add: shown_nodes_def split_node_list_def)
qed

lemma marker_free: "CHR '','' \<notin> set ('' (+'' @ show_nat n @ '' more)'')" "CHR ''|'' \<notin> set (show_nat n)"
  using show_nat_digits [of n] by (auto simp: list_all_iff is_digit_def)

lemma length_shown_nodes:
  assumes "nodes_ok nodes"
  shows "int (length (shown_nodes nodes maxn)) = (if cut_off nodes maxn then maxn else int (length nodes))"
proof (cases "cut_off nodes maxn")
  case True
  define ns where "ns = take (nat maxn) nodes"
  have ns: "ns \<noteq> []" "\<forall>p \<in> set ns. CHR '','' \<notin> set p"
    using assms True by (auto simp: ns_def nodes_ok_def node_name_def cut_off_def dest: in_set_takeD)
  have fmt: "format_node_list nodes maxn = join_with '','' ns @ '' (+'' @ show_nat (length nodes - nat maxn) @ '' more)''"
    using True by (simp add: format_node_list_def cut_off_def ns_def)
  have "split_on CHR '','' (format_node_list nodes maxn) =
      butlast ns @ [last ns @ '' (+'' @ show_nat (length nodes - nat maxn) @ '' more)'']"
    unfolding fmt split_on_snoc_free [OF marker_free(1)] split_join [OF ns] ..
  then have "length (shown_nodes nodes maxn) = length ns"
    using ns(1) fmt by (simp add: shown_nodes_def split_node_list_def)
  then show ?thesis using True by (auto simp: ns_def cut_off_def)
qed (simp add: shown_nodes_complete assms)

lemma format_no_bar:
  assumes "nodes_ok nodes" shows "CHR ''|'' \<notin> set (format_node_list nodes maxn)"
proof -
  have names: "\<forall>n \<in> set nodes. CHR ''|'' \<notin> set n" using assms by (auto simp: nodes_ok_def node_name_def)
  have free: "CHR ''|'' \<notin> set (join_with '','' ns)" if "set ns \<subseteq> set nodes" for ns
    using join_with_set [of "'',''" ns] that names by auto
  show ?thesis
    using free [of nodes] free [OF set_take_subset] marker_free(2) by (simp add: format_node_list_def)
qed

lemma remainder_format:
  assumes "nodes_ok nodes"
  shows "truncated_node_list_remainder (format_node_list nodes maxn) =
    Inr (if cut_off nodes maxn then int (length nodes) - maxn else 0, cut_off nodes maxn)"
proof (cases "cut_off nodes maxn")
  case True
  have "int (length nodes - nat maxn) \<le> int (length nodes)" by simp
  then have "int (length nodes - nat maxn) \<le> int64_max" using assms unfolding nodes_ok_def by linarith
  moreover have "truncation_digits (format_node_list nodes maxn) = Some (show_nat (length nodes - nat maxn))"
    using True by (intro truncation_digits_marker [OF show_nat_not_Nil show_nat_digits,
        of _ "join_with '','' (take (nat maxn) nodes) @ '' ''"]) (simp add: format_node_list_def cut_off_def)
  ultimately show ?thesis
    using True by (auto simp: truncated_node_list_remainder_def atoi_show_nat cut_off_def)
next
  case False
  have "last nodes \<noteq> []" "CHR '')'' \<notin> set (last nodes)" "nodes \<noteq> []"
    using assms by (auto simp: nodes_ok_def node_name_def)
  then have "last (join_with '','' nodes) \<noteq> CHR '')''"
    using last_char_join [of nodes "'',''"] last_in_set by metis
  then have "truncation_digits (format_node_list nodes maxn) = None"
    using False by (intro truncation_digits_none) (auto simp: format_node_list_def cut_off_def)
  then show ?thesis using False by (simp add: truncated_node_list_remainder_def)
qed

lemma wrap64_id: "0 \<le> i \<Longrightarrow> i \<le> int64_max \<Longrightarrow> wrap64 i = i"
  by (simp add: wrap64_def int64_max_def)

text \<open>The record written for one reading gives its nodes back, when the entry it refers to is its own.\<close>

lemma item_nodes_membership:
  assumes ok: "nodes_ok nodes" and rk: "rk \<noteq> []" and it: "it_Data item = membership_data nodes maxn rk counts"
    and folds: "folds rk = counts rk"
    and entry: "counts rk = 1 \<Longrightarrow> \<exists>pre. map_of data rk = Some (ReadStr (pre @ ''|'' @ format_node_list nodes maxn))"
  shows "item_nodes item data rk folds = Inr (shown_nodes nodes maxn, int (length nodes), cut_off nodes maxn)"
proof -
  have list: "resolve_node_list item data rk folds = Inr (format_node_list nodes maxn)"
  proof (cases "counts rk = 1")
    case True
    then obtain pre where "map_of data rk = Some (ReadStr (pre @ ''|'' @ format_node_list nodes maxn))" using entry by blast
    then show ?thesis
      using True rk folds last_split_on_free [OF format_no_bar [OF ok], of pre maxn]
      by (simp add: resolve_node_list_def item_ref_def it membership_data_def item_fields reading_string_def)
  next
    case False
    then show ?thesis by (simp add: resolve_node_list_def item_ref_def it membership_data_def node_list_data_def item_fields)
  qed
  have cnt: "item_int item itemDataNodeCount = Inr (int (length nodes))" "item_bool item itemDataTruncated = Inr (cut_off nodes maxn)"
    by (auto simp: item_int_def item_bool_def it membership_data_def node_list_data_def item_fields reading_int_def cut_off_def)
  have "int (length nodes) \<le> int64_max" using ok by (simp add: nodes_ok_def)
  moreover have "int (length (split_node_list (format_node_list nodes maxn))) +
      (if cut_off nodes maxn then int (length nodes) - maxn else 0) = int (length nodes)"
    using length_shown_nodes [OF ok, of maxn] by (simp add: shown_nodes_def)
  ultimately show ?thesis
    by (simp add: item_nodes_def list remainder_format [OF ok] cnt Let_def wrap64_id shown_nodes_def)
qed

subsection \<open>Reading back what was written\<close>

lemma map_of_foldl_upsert:
  "map_of (foldl (\<lambda>d x. upsert (kf x) (vf x) d) d0 xs) k =
     (if filter (\<lambda>x. kf x = k) xs = [] then map_of d0 k else Some (vf (last (filter (\<lambda>x. kf x = k) xs))))"
  by (induction xs rule: rev_induct) auto

lemma filter_tally_one: "tally (map f xs) (f x) = 1 \<Longrightarrow> x \<in> set xs \<Longrightarrow> filter (\<lambda>y. f y = f x) xs = [x]"
proof -
  assume t: "tally (map f xs) (f x) = 1" and x: "x \<in> set xs"
  have "tally (map f ys) (f x) = length (filter (\<lambda>y. f y = f x) ys)" for ys
    by (induction ys) (auto simp: tally_def)
  with t have "length (filter (\<lambda>y. f y = f x) xs) = 1" by simp
  moreover have "x \<in> set (filter (\<lambda>y. f y = f x) xs)" using x by simp
  ultimately show ?thesis by (cases "filter (\<lambda>y. f y = f x) xs") auto
qed

lemma tally_mset: "mset xs = mset ys \<Longrightarrow> tally xs = tally ys"
  by (rule ext) (metis count_mset tally_def)

text \<open>
  The contract of a folded encoding: the entry that a reading writes depends on the reading and on the multiset of all
  of them, and its last field is the list of nodes. Labels and taints are its two providers.
\<close>

locale folded_encoding =
  fixes raw :: "'id list \<Rightarrow> 'id \<Rightarrow> string"
    and lead :: "'id list \<Rightarrow> 'id \<Rightarrow> string"
    and encode :: "('id \<times> string list) list \<Rightarrow> int \<Rightarrow> (string \<times> reading) list"
    and map_keys :: "('id \<times> string list) list \<Rightarrow> ('id \<times> string) list"
  assumes encode_eq:
      "encode rs maxn = foldl (\<lambda>d x. upsert (raw (map fst rs) (fst x))
          (ReadStr (lead (map fst rs) (fst x) @ ''|'' @ format_node_list (snd x) maxn)) d) [] rs"
    and map_keys_eq: "map_keys rs = map (\<lambda>x. (fst x, raw (map fst rs) (fst x))) rs"
    and raw_order: "mset ids = mset ids' \<Longrightarrow> raw ids = raw ids'"
    and lead_order: "mset ids = mset ids' \<Longrightarrow> lead ids = lead ids'"
begin

lemma map_key:
  assumes "(i, nodes) \<in> set rs"
  shows "the (map_of (map_keys rs) i) = raw (map fst rs) i"
proof -
  have "map_of (map (\<lambda>x. (fst x, raw ids (fst x))) rs) i = Some (raw ids i)" for ids
    using assms by (induction rs) auto
  then show ?thesis by (simp add: map_keys_eq)
qed

lemma counts_eq: "ref_counts (map_keys rs) = tally (map (raw (map fst rs)) (map fst rs))"
  by (simp add: ref_counts_def map_keys_eq comp_def)

lemma own_entry:
  assumes "(i, nodes) \<in> set rs" "ref_counts (map_keys rs) (raw (map fst rs) i) = 1"
  shows "\<exists>pre. map_of (encode rs maxn) (raw (map fst rs) i) = Some (ReadStr (pre @ ''|'' @ format_node_list nodes maxn))"
proof -
  have "tally (map (\<lambda>x. raw (map fst rs) (fst x)) rs) (raw (map fst rs) (fst (i, nodes))) = 1"
    using assms(2) by (simp add: counts_eq comp_def)
  then have "filter (\<lambda>x. raw (map fst rs) (fst x) = raw (map fst rs) (fst (i, nodes))) rs = [(i, nodes)]"
    using filter_tally_one [of "\<lambda>x. raw (map fst rs) (fst x)" rs "(i, nodes)"] assms(1) by blast
  then show ?thesis by (simp add: encode_eq map_of_foldl_upsert)
qed

text \<open>Any records with this membership give the nodes back, in an order that need not be that of the readings.\<close>

lemma item_nodes_encoded:
  assumes "(i, nodes) \<in> set rs" "nodes_ok nodes" "raw (map fst rs) i \<noteq> []"
    and "it_Data item = membership_data nodes maxn (the (map_of (map_keys rs) i)) (ref_counts (map_keys rs))"
    and "mset ids = mset (map fst rs)"
  shows "item_nodes item (encode rs maxn) (raw ids i) (tally (map (raw ids) ids)) =
    Inr (shown_nodes nodes maxn, int (length nodes), cut_off nodes maxn)"
proof -
  have raw: "raw ids = raw (map fst rs)" using raw_order assms(5) by blast
  have "tally (map (raw ids) ids) = ref_counts (map_keys rs)"
    unfolding counts_eq raw by (intro tally_mset, unfold mset_map assms(5), rule refl)
  then show ?thesis
    using item_nodes_membership [of nodes "raw (map fst rs) i" item maxn "ref_counts (map_keys rs)" "ref_counts (map_keys rs)"
        "encode rs maxn"] assms(2-4) map_key [OF assms(1)] own_entry [OF assms(1)]
    by (simp add: raw)
qed

end

definition label_raw :: "label_id list \<Rightarrow> label_id \<Rightarrow> string" where
  "label_raw ids i = (if tally (map li_Key ids) (li_Key i) > 1 then li_Key i @ ''.'' @ li_Value i else li_Key i)"

definition taint_raw :: "taint_id list \<Rightarrow> taint_id \<Rightarrow> string" where
  "taint_raw ids i = (if tally (map ti_Key ids) (ti_Key i) > 1 then ti_Key i @ ''.'' @ ti_Effect i else ti_Key i)"

interpretation lab: folded_encoding label_raw "\<lambda>_. li_Value" encode_labels label_map_keys
proof
  show "encode_labels rs maxn = foldl (\<lambda>d x. upsert (label_raw (map fst rs) (fst x))
      (ReadStr (li_Value (fst x) @ ''|'' @ format_node_list (snd x) maxn)) d) [] rs" for rs maxn
    unfolding encode_labels_def by (rule foldl_cong) (auto simp: label_raw_def comp_def)
  show "label_map_keys rs = map (\<lambda>x. (fst x, label_raw (map fst rs) (fst x))) rs" for rs
    by (simp add: label_map_keys_def label_raw_def case_prod_beta comp_def)
  show "mset ids = mset ids' \<Longrightarrow> label_raw ids = label_raw ids'" for ids ids'
    using tally_mset [of "map li_Key ids" "map li_Key ids'"] by (auto simp: label_raw_def fun_eq_iff)
qed (rule refl)

interpretation tnt: folded_encoding taint_raw
  "\<lambda>ids i. if tally (map ti_Key ids) (ti_Key i) > 1 then ti_Value i else ti_Effect i @ ''|'' @ ti_Value i"
  encode_taints taint_map_keys
proof
  show "encode_taints rs maxn = foldl (\<lambda>d x. upsert (taint_raw (map fst rs) (fst x))
      (ReadStr ((if tally (map ti_Key (map fst rs)) (ti_Key (fst x)) > 1 then ti_Value (fst x)
                 else ti_Effect (fst x) @ ''|'' @ ti_Value (fst x)) @ ''|'' @ format_node_list (snd x) maxn)) d) [] rs" for rs maxn
    unfolding encode_taints_def by (rule foldl_cong) (auto simp: taint_raw_def comp_def)
  show "taint_map_keys rs = map (\<lambda>x. (fst x, taint_raw (map fst rs) (fst x))) rs" for rs
    by (simp add: taint_map_keys_def taint_raw_def case_prod_beta comp_def)
  show "mset ids = mset ids' \<Longrightarrow> taint_raw ids = taint_raw ids'" for ids ids'
    using tally_mset [of "map ti_Key ids" "map ti_Key ids'"] by (auto simp: taint_raw_def fun_eq_iff)
  show "mset ids = mset ids' \<Longrightarrow> (\<lambda>i. if tally (map ti_Key ids) (ti_Key i) > 1 then ti_Value i else ti_Effect i @ ''|'' @ ti_Value i) =
      (\<lambda>i. if tally (map ti_Key ids') (ti_Key i) > 1 then ti_Value i else ti_Effect i @ ''|'' @ ti_Value i)" for ids ids'
    using tally_mset [of "map ti_Key ids" "map ti_Key ids'"] by simp
qed


lemma res_map_Inr: "\<forall>x \<in> set xs. f x = Inr (g x) \<Longrightarrow> res_map f xs = Inr (map g xs)"
  by (induction xs) auto

lemma res_map_map: "res_map f (map g xs) = res_map (f \<circ> g) xs"
  by (induction xs) (auto split: sum.split)

lemma zip_map_same: "zip (map f xs) (map g xs) = map (\<lambda>x. (f x, g x)) xs"
  by (induction xs) auto

lemma map_fst_sort: "mset (map fst (sort_key k xs)) = mset (map fst xs)"
  by simp

definition label_reading_of :: "label_id list \<Rightarrow> int \<Rightarrow> label_id \<times> string list \<Rightarrow> label_reading" where
  "label_reading_of ids maxn x =
     \<lparr>lr_Key = li_Key (fst x), lr_Value = li_Value (fst x), lr_Nodes = shown_nodes (snd x) maxn,
      lr_NodeCount = int (length (snd x)), lr_Truncated = cut_off (snd x) maxn, lr_RawKey = label_raw ids (fst x)\<rparr>"

definition taint_reading_of :: "taint_id list \<Rightarrow> int \<Rightarrow> taint_id \<times> string list \<Rightarrow> taint_reading" where
  "taint_reading_of ids maxn x =
     \<lparr>tr_Key = ti_Key (fst x), tr_Effect = ti_Effect (fst x), tr_Value = ti_Value (fst x), tr_Nodes = shown_nodes (snd x) maxn,
      tr_NodeCount = int (length (snd x)), tr_Truncated = cut_off (snd x) maxn, tr_RawKey = taint_raw ids (fst x)\<rparr>"

definition label_order :: "label_id \<times> string list \<Rightarrow> string list" where
  "label_order x = [li_Key (fst x), li_Value (fst x)]"

definition taint_order :: "taint_id \<times> string list \<Rightarrow> string list" where
  "taint_order x = [ti_Key (fst x), ti_Effect (fst x), ti_Value (fst x)]"

definition label_readings_ok :: "(label_id \<times> string list) list \<Rightarrow> bool" where
  "label_readings_ok labels \<longleftrightarrow> (\<forall>x \<in> set labels. li_Key (fst x) \<noteq> [] \<and> nodes_ok (snd x))"

definition taint_readings_ok :: "(taint_id \<times> string list) list \<Rightarrow> bool" where
  "taint_readings_ok taints \<longleftrightarrow> (\<forall>x \<in> set taints. ti_Key (fst x) \<noteq> [] \<and> ti_Effect (fst x) \<noteq> [] \<and> nodes_ok (snd x))"

lemma label_readings_encoded:
  assumes ok: "label_readings_ok labels"
  shows "label_readings (Some (label_subtype labels maxn)) =
    Inr (map (label_reading_of (map fst labels) maxn) (sort_key label_order labels))"
proof (cases "labels = []")
  case True
  then show ?thesis
    by (simp add: label_readings_def label_subtype_def encode_label_items_def label_readings_from_data_def encode_labels_def)
next
  case False
  define S where "S = sort_key label_order labels"
  define item where "item = (\<lambda>x :: label_id \<times> string list.
      \<lparr>it_Context = [(itemCtxKey, li_Key (fst x)), (itemCtxValue, li_Value (fst x))],
       it_Data = membership_data (snd x) maxn (the (map_of (label_map_keys labels) (fst x))) (ref_counts (label_map_keys labels))\<rparr>)"
  define hd where "hd = (\<lambda>x :: label_id \<times> string list.
      \<lparr>lr_Key = li_Key (fst x), lr_Value = li_Value (fst x), lr_Nodes = [], lr_NodeCount = 0, lr_Truncated = False,
       lr_RawKey = li_Key (fst x)\<rparr>)"
  have items: "encode_label_items labels maxn = map item S"
    by (simp add: encode_label_items_def item_def S_def label_order_def [abs_def] case_prod_beta')
  have inS: "set S = set labels" "mset (map fst S) = mset (map fst labels)" by (simp_all add: S_def)
  have "\<forall>x \<in> set S. label_item_head (item x) = Inr (hd x)"
    using ok by (auto simp: inS label_readings_ok_def label_item_head_def item_context_def context_value_def item_def hd_def item_fields)
  then have heads: "res_map label_item_head (map item S) = Inr (map hd S)"
    by (simp add: res_map_map res_map_Inr)
  define raw where "raw = (\<lambda>x. hd x \<lparr>lr_RawKey := label_raw (map fst S) (fst x)\<rparr>)"
  have raws: "apply_label_raw_keys (map hd S) = map raw S"
    by (simp add: apply_label_raw_keys_def raw_def hd_def label_raw_def comp_def)
  have rk: "map lr_RawKey (map raw S) = map (label_raw (map fst S)) (map fst S)" by (simp add: raw_def hd_def)
  have nodes: "item_nodes (item x) (encode_labels labels maxn) (lr_RawKey (raw x)) (tally (map lr_RawKey (map raw S))) =
      Inr (shown_nodes (snd x) maxn, int (length (snd x)), cut_off (snd x) maxn)" if "x \<in> set S" for x
    unfolding rk
    using lab.item_nodes_encoded [of "fst x" "snd x" labels "item x" maxn "map fst S"] that ok inS
    by (auto simp: label_readings_ok_def item_def raw_def label_raw_def)
  have ne: "S \<noteq> []" using False inS(1) by auto
  have eq: "label_raw (map fst S) = label_raw (map fst labels)" using lab.raw_order inS(2) by blast
  have "label_readings (Some (label_subtype labels maxn)) =
      res_map (\<lambda>(item, r). res_bind (item_nodes item (encode_labels labels maxn) (lr_RawKey r) (tally (map lr_RawKey (map raw S))))
         (\<lambda>(nodes, cnt, truncated). Inr (r \<lparr>lr_Nodes := nodes, lr_NodeCount := cnt, lr_Truncated := truncated\<rparr>)))
        (zip (map item S) (map raw S))"
    using ne by (simp add: label_readings_def label_subtype_def items label_readings_from_items_def heads Let_def raws)
  also have "\<dots> = Inr (map (label_reading_of (map fst labels) maxn) S)"
    unfolding zip_map_same res_map_map
    by (rule res_map_Inr, intro ballI) (simp only: comp_apply prod.case nodes res_bind_simps, simp add: label_reading_of_def raw_def hd_def eq)
  finally show ?thesis by (simp add: S_def)
qed

lemma taint_readings_encoded:
  assumes ok: "taint_readings_ok taints"
  shows "taint_readings (Some (taint_subtype taints maxn)) =
    Inr (map (taint_reading_of (map fst taints) maxn) (sort_key taint_order taints))"
proof (cases "taints = []")
  case True
  then show ?thesis
    by (simp add: taint_readings_def taint_subtype_def encode_taint_items_def taint_readings_from_data_def encode_taints_def)
next
  case False
  define S where "S = sort_key taint_order taints"
  define item where "item = (\<lambda>x :: taint_id \<times> string list.
      \<lparr>it_Context = [(itemCtxKey, ti_Key (fst x)), (itemCtxValue, ti_Value (fst x)), (itemCtxEffect, ti_Effect (fst x))],
       it_Data = membership_data (snd x) maxn (the (map_of (taint_map_keys taints) (fst x))) (ref_counts (taint_map_keys taints))\<rparr>)"
  define hd where "hd = (\<lambda>x :: taint_id \<times> string list.
      \<lparr>tr_Key = ti_Key (fst x), tr_Effect = ti_Effect (fst x), tr_Value = ti_Value (fst x), tr_Nodes = [], tr_NodeCount = 0,
       tr_Truncated = False, tr_RawKey = ti_Key (fst x)\<rparr>)"
  have items: "encode_taint_items taints maxn = map item S"
    by (simp add: encode_taint_items_def item_def S_def taint_order_def [abs_def] case_prod_beta')
  have inS: "set S = set taints" "mset (map fst S) = mset (map fst taints)" by (simp_all add: S_def)
  have "\<forall>x \<in> set S. taint_item_head (item x) = Inr (hd x)"
    using ok by (auto simp: inS taint_readings_ok_def taint_item_head_def item_context_def context_value_def item_def hd_def item_fields)
  then have heads: "res_map taint_item_head (map item S) = Inr (map hd S)"
    by (simp add: res_map_map res_map_Inr)
  define raw where "raw = (\<lambda>x. hd x \<lparr>tr_RawKey := taint_raw (map fst S) (fst x)\<rparr>)"
  have raws: "apply_taint_raw_keys (map hd S) = map raw S"
    by (simp add: apply_taint_raw_keys_def raw_def hd_def taint_raw_def comp_def)
  have rk: "map tr_RawKey (map raw S) = map (taint_raw (map fst S)) (map fst S)" by (simp add: raw_def hd_def)
  have nodes: "item_nodes (item x) (encode_taints taints maxn) (tr_RawKey (raw x)) (tally (map tr_RawKey (map raw S))) =
      Inr (shown_nodes (snd x) maxn, int (length (snd x)), cut_off (snd x) maxn)" if "x \<in> set S" for x
    unfolding rk
    using tnt.item_nodes_encoded [of "fst x" "snd x" taints "item x" maxn "map fst S"] that ok inS
    by (auto simp: taint_readings_ok_def item_def raw_def taint_raw_def)
  have ne: "S \<noteq> []" using False inS(1) by auto
  have eq: "taint_raw (map fst S) = taint_raw (map fst taints)" using tnt.raw_order inS(2) by blast
  have "taint_readings (Some (taint_subtype taints maxn)) =
      res_map (\<lambda>(item, r). res_bind (item_nodes item (encode_taints taints maxn) (tr_RawKey r) (tally (map tr_RawKey (map raw S))))
         (\<lambda>(nodes, cnt, truncated). Inr (r \<lparr>tr_Nodes := nodes, tr_NodeCount := cnt, tr_Truncated := truncated\<rparr>)))
        (zip (map item S) (map raw S))"
    using ne by (simp add: taint_readings_def taint_subtype_def items taint_readings_from_items_def heads Let_def raws)
  also have "\<dots> = Inr (map (taint_reading_of (map fst taints) maxn) S)"
    unfolding zip_map_same res_map_map
    by (rule res_map_Inr, intro ballI) (simp only: comp_apply prod.case nodes res_bind_simps, simp add: taint_reading_of_def raw_def hd_def eq)
  finally show ?thesis by (simp add: S_def)
qed

subsection \<open>What aggregation gathers\<close>

definition carriers :: "(node \<Rightarrow> 'id list) \<Rightarrow> 'id \<Rightarrow> node list \<Rightarrow> string list" where
  "carriers ids i ns = concat (map (\<lambda>n. replicate (count_list (ids n) i) (nd_Name n)) ns)"

lemma add_carriers_lookup:
  "map_of (foldl (add_carrier name) m is) i =
     (if i \<in> set is then Some ((case map_of m i of None \<Rightarrow> [] | Some ns \<Rightarrow> ns) @ replicate (count_list is i) name) else map_of m i)"
proof (induction "is" rule: rev_induct)
  case (snoc j "is")
  have "map_of (foldl (add_carrier name) m (is @ [j])) i =
      (if j = i then Some ((case map_of (foldl (add_carrier name) m is) i of None \<Rightarrow> [] | Some ns \<Rightarrow> ns) @ [name])
       else map_of (foldl (add_carrier name) m is) i)"
    by (simp add: add_carrier_def)
  also have "\<dots> = (if i \<in> set (is @ [j])
      then Some ((case map_of m i of None \<Rightarrow> [] | Some ns \<Rightarrow> ns) @ replicate (count_list (is @ [j]) i) name) else map_of m i)"
    unfolding snoc.IH by (cases "i = j") (auto simp: replicate_append_same count_list_0_iff split: option.split)
  finally show ?case .
qed simp

lemma add_carriers_distinct: "distinct (map fst m) \<Longrightarrow> distinct (map fst (foldl (add_carrier name) m is))"
  by (induction "is" arbitrary: m) (simp_all add: add_carrier_def distinct_upsert)

lemma gather_lookup:
  "map_of (foldl (\<lambda>m n. foldl (add_carrier (nd_Name n)) m (ids n)) [] ns) i =
     (if \<exists>n \<in> set ns. i \<in> set (ids n) then Some (carriers ids i ns) else None)"
proof (induction ns rule: rev_induct)
  case (snoc n ns)
  have none: "carriers ids i ns = []" if "\<forall>n \<in> set ns. i \<notin> set (ids n)"
    using that by (auto simp: carriers_def count_list_0_iff)
  show ?case
    using snoc none by (auto simp: add_carriers_lookup carriers_def count_list_0_iff)
qed simp

lemma gather_distinct: "distinct (map fst (foldl (\<lambda>m n. foldl (add_carrier (nd_Name n)) m (ids n)) [] ns))"
  by (induction ns rule: rev_induct) (simp_all add: add_carriers_distinct)

lemma aggregate_lookup:
  "map_of (aggregate ids pages) i =
     (if \<exists>n \<in> set (concat pages). i \<in> set (ids n) then Some (sort (carriers ids i (concat pages))) else None)"
  by (simp add: aggregate_def map_of_map gather_lookup)

lemma aggregate_distinct: "distinct (map fst (aggregate ids pages))"
  using gather_distinct [of ids "concat pages"] by (simp add: aggregate_def case_prod_beta' comp_def)

lemma aggregate_member:
  "x \<in> set (aggregate ids pages) \<longleftrightarrow>
     (\<exists>n \<in> set (concat pages). fst x \<in> set (ids n)) \<and> snd x = sort (carriers ids (fst x) (concat pages))"
  using map_of_eq_Some_iff [OF aggregate_distinct, of ids pages "fst x" "snd x"]
  by (auto simp: aggregate_lookup split: if_splits)

lemma set_carriers: "set (carriers ids i ns) = {nd_Name n |n. n \<in> set ns \<and> i \<in> set (ids n)}"
  by (auto simp: carriers_def count_list_0_iff)

end
