(* ===== verification/Component_Registry.thy ===== *)
theory Component_Registry
  imports Aicr_Errors
begin

section \<open>The component registry (pkg/recipe/components.go)\<close>

text \<open>
  \<open>component_config\<close> is the entry of \<open>registry.yaml\<close> for one component, with the fields
  that resolution reads (the paths into Helm values that only the bundler injects are left out).
  \<open>load_registry\<close> is \<open>loadComponentRegistryFor\<close> after reading and decoding the file: the checks that
  fail closed and the index \<open>byName\<close>. \<open>validate_registry\<close> is \<open>Validate\<close>, which collects every
  problem. A nil registry is \<open>None\<close>.
\<close>

definition ComponentTypeHelm :: string where "ComponentTypeHelm = ''Helm''"
definition ComponentTypeKustomize :: string where "ComponentTypeKustomize = ''Kustomize''"
definition ReservedDeployerKey :: string where "ReservedDeployerKey = ''deployer''"

lemmas component_types = ComponentTypeHelm_def ComponentTypeKustomize_def

record helm_config =
  DefaultRepository :: string
  DefaultChart :: string
  DefaultVersion :: string
  DefaultNamespace :: string

record kustomize_config =
  DefaultSource :: string
  DefaultPath :: string
  DefaultTag :: string

record component_config =
  cc_Name :: string
  cc_DisplayName :: string
  cc_ValueOverrideKeys :: "string list"
  cc_Helm :: helm_config
  cc_Kustomize :: kustomize_config
  cc_AssertFile :: string
  cc_ManifestFiles :: "string list"

record component_registry =
  reg_Components :: "component_config list"
  reg_byName :: "(string \<times> component_config) list"

definition no_helm :: helm_config where
  "no_helm = \<lparr>DefaultRepository = [], DefaultChart = [], DefaultVersion = [], DefaultNamespace = []\<rparr>"

definition no_kustomize :: kustomize_config where
  "no_kustomize = \<lparr>DefaultSource = [], DefaultPath = [], DefaultTag = []\<rparr>"

definition get_type :: "component_config option \<Rightarrow> string" where
  "get_type c =
     (case c of
        None \<Rightarrow> ComponentTypeHelm
      | Some c \<Rightarrow> if DefaultSource (cc_Kustomize c) \<noteq> [] then ComponentTypeKustomize else ComponentTypeHelm)"

subsection \<open>Loading\<close>

definition check_config :: "component_config \<Rightarrow> unit res" where
  "check_config cfg =
     (if cc_Name cfg = ReservedDeployerKey then
        Inl (err_new ErrCodeInvalidRequest
          ''registry component %q uses the reserved deployer override key as its name; %q is reserved''
          [cc_Name cfg, ReservedDeployerKey])
      else if ReservedDeployerKey \<in> set (cc_ValueOverrideKeys cfg) then
        Inl (err_new ErrCodeInvalidRequest
          ''registry component %q declares the reserved override key %q'' [cc_Name cfg, ReservedDeployerKey])
      else if get_type (Some cfg) = ComponentTypeKustomize \<and> length (cc_ManifestFiles cfg) > 0 then
        Inl (err_new ErrCodeInvalidRequest
          ''registry component %q is Kustomize but declares manifestFiles'' [cc_Name cfg])
      else Inr ())"

definition load_registry :: "component_config list \<Rightarrow> component_registry res" where
  "load_registry comps =
     res_bind (res_fold (\<lambda>_ cfg. check_config cfg) () comps)
       (\<lambda>_. Inr \<lparr>reg_Components = comps,
                 reg_byName = foldl (\<lambda>m cfg. upsert (cc_Name cfg) cfg m) [] comps\<rparr>)"

definition registry_get :: "component_registry option \<Rightarrow> string \<Rightarrow> component_config option" where
  "registry_get r name = (case r of None \<Rightarrow> None | Some r \<Rightarrow> map_of (reg_byName r) name)"

definition get_by_override_key :: "component_registry option \<Rightarrow> string \<Rightarrow> component_config option" where
  "get_by_override_key r key =
     (case r of
        None \<Rightarrow> None
      | Some r \<Rightarrow> find (\<lambda>c. cc_Name c = key \<or> key \<in> set (cc_ValueOverrideKeys c)) (reg_Components r))"

definition registry_names :: "component_registry option \<Rightarrow> string list" where
  "registry_names r = (case r of None \<Rightarrow> [] | Some r \<Rightarrow> map cc_Name (reg_Components r))"

definition registry_count :: "component_registry option \<Rightarrow> nat" where
  "registry_count r = (case r of None \<Rightarrow> 0 | Some r \<Rightarrow> length (reg_Components r))"

lemma res_fold_checks:
  "res_fold (\<lambda>_ x. f x) () xs = Inr u \<longleftrightarrow> (\<forall>x \<in> set xs. f x = Inr ())"
  by (induction xs) (auto split: sum.splits)

lemma map_of_index:
  "map_of (foldl (\<lambda>m c. upsert (k c) c m) m0 cs) n =
   (case find (\<lambda>c. k c = n) (rev cs) of Some c \<Rightarrow> Some c | None \<Rightarrow> map_of m0 n)"
proof (induction cs rule: rev_induct)
  case (snoc c cs)
  then show ?case by (cases "k c = n") simp_all
qed simp

lemma registry_get_load:
  "load_registry comps = Inr r \<Longrightarrow> registry_get (Some r) n = find (\<lambda>c. cc_Name c = n) (rev comps)"
  by (auto simp: load_registry_def registry_get_def map_of_index res_simps split: option.splits)

lemma load_registry_ok:
  "is_ok (load_registry comps) \<longleftrightarrow> (\<forall>c \<in> set comps. check_config c = Inr ())"
  unfolding is_ok_iff by (auto simp: load_registry_def res_simps res_fold_checks)

lemma check_config_ok:
  "check_config c = Inr () \<longleftrightarrow>
     cc_Name c \<noteq> ReservedDeployerKey \<and> ReservedDeployerKey \<notin> set (cc_ValueOverrideKeys c) \<and>
     \<not> (get_type (Some c) = ComponentTypeKustomize \<and> cc_ManifestFiles c \<noteq> [])"
  by (simp add: check_config_def)

lemma find_SomeD: "find P xs = Some x \<Longrightarrow> P x \<and> x \<in> set xs"
  by (auto simp: find_Some_iff)

text \<open>
  In a registry that loads, the reserved key \<open>deployer\<close> reaches no component, neither by
  its name nor by an override key, and no Kustomize component has default manifests that would
  make every recipe using it incoherent.
\<close>

theorem load_registry_fails_closed:
  assumes "load_registry comps = Inr r"
  shows "registry_get (Some r) ReservedDeployerKey = None \<and>
         get_by_override_key (Some r) ReservedDeployerKey = None \<and>
         (\<forall>n c. registry_get (Some r) n = Some c \<longrightarrow>
            cc_Name c = n \<and> c \<in> set comps \<and>
            (get_type (Some c) = ComponentTypeKustomize \<longrightarrow> cc_ManifestFiles c = []))"
proof -
  have ok: "\<And>c. c \<in> set comps \<Longrightarrow> check_config c = Inr ()"
    using load_registry_ok [of comps] assms by simp
  have r: "reg_Components r = comps"
    using assms by (auto simp: load_registry_def res_simps)
  have "registry_get (Some r) ReservedDeployerKey = None" "get_by_override_key (Some r) ReservedDeployerKey = None"
    using ok by (auto simp: registry_get_load [OF assms] get_by_override_key_def r find_None_iff check_config_ok)
  then show ?thesis
    using ok by (auto simp: registry_get_load [OF assms] check_config_ok dest!: find_SomeD)
qed

definition nfd_config :: component_config where
  "nfd_config =
     \<lparr>cc_Name = ''nfd'', cc_DisplayName = ''NFD'', cc_ValueOverrideKeys = [''nodefeature''],
      cc_Helm = no_helm \<lparr>DefaultRepository := ''https://r'', DefaultChart := ''k8s/nfd'', DefaultVersion := ''1.2.0''\<rparr>,
      cc_Kustomize = no_kustomize, cc_AssertFile = [], cc_ManifestFiles = []\<rparr>"

lemma load_registry_fails_closed_witness:
  "\<exists>r. load_registry [nfd_config] = Inr r \<and> registry_get (Some r) ''deployer'' = None \<and>
       registry_get (Some r) ''nfd'' = Some nfd_config"
proof -
  obtain r where r: "load_registry [nfd_config] = Inr r"
    by (simp add: load_registry_def check_config_def nfd_config_def get_type_def no_kustomize_def
        ReservedDeployerKey_def component_types)
  moreover have "registry_get (Some r) ''nfd'' = Some nfd_config"
    using r by (simp add: registry_get_load nfd_config_def)
  ultimately show ?thesis
    using load_registry_fails_closed [OF r] by (auto simp: ReservedDeployerKey_def)
qed

subsection \<open>Validation\<close>

definition required_errors :: "nat \<Rightarrow> component_config \<Rightarrow> go_error list" where
  "required_errors i cfg =
     (if cc_Name cfg = [] then [err_new ErrCodeInvalidRequest ''component[%d]: name is required'' [show_nat i]] else [])
     @ (if cc_DisplayName cfg = []
        then [err_new ErrCodeInvalidRequest ''component[%d] (%s): displayName is required'' [show_nat i, cc_Name cfg]]
        else [])"

fun duplicate_names :: "string list \<Rightarrow> component_config list \<Rightarrow> go_error list" where
  "duplicate_names seen [] = []"
| "duplicate_names seen (cfg # comps) =
     (if cc_Name cfg \<noteq> [] then
        (if cc_Name cfg \<in> set seen
         then [err_new ErrCodeInvalidRequest ''duplicate component name: %s'' [cc_Name cfg]] else [])
        @ duplicate_names (cc_Name cfg # seen) comps
      else duplicate_names seen comps)"

fun duplicate_keys :: "(string \<times> string) list \<Rightarrow> (string \<times> string) list \<Rightarrow> go_error list" where
  "duplicate_keys owner [] = []"
| "duplicate_keys owner ((key, name) # rest) =
     (case map_of owner key of
        Some existing \<Rightarrow>
          [err_new ErrCodeInvalidRequest ''duplicate valueOverrideKey %q: used by both %s and %s'' [key, existing, name]]
      | None \<Rightarrow> [])
     @ duplicate_keys (upsert key name owner) rest"

definition override_key_pairs :: "component_config list \<Rightarrow> (string \<times> string) list" where
  "override_key_pairs comps = concat (map (\<lambda>c. map (\<lambda>k. (k, cc_Name c)) (cc_ValueOverrideKeys c)) comps)"

definition exclusive_errors :: "nat \<Rightarrow> component_config \<Rightarrow> go_error list" where
  "exclusive_errors i cfg =
     (let hasHelm = DefaultRepository (cc_Helm cfg) \<noteq> [] \<or> DefaultChart (cc_Helm cfg) \<noteq> [];
          hasKustomize = DefaultSource (cc_Kustomize cfg) \<noteq> []
      in if hasHelm \<and> hasKustomize
         then [err_new ErrCodeInvalidRequest
                 ''component[%d] (%s): cannot have both helm and kustomize configuration'' [show_nat i, cc_Name cfg]]
         else [])"

definition validate_registry :: "component_registry option \<Rightarrow> go_error list" where
  "validate_registry r =
     (case r of
        None \<Rightarrow> [err_new ErrCodeInvalidRequest ''registry is nil'' []]
      | Some r \<Rightarrow>
          (let comps = reg_Components r in
             concat (map (\<lambda>(i, c). required_errors i c) (enumerate 0 comps))
             @ duplicate_names [] comps
             @ duplicate_keys [] (override_key_pairs comps)
             @ concat (map (\<lambda>(i, c). exclusive_errors i c) (enumerate 0 comps))))"

definition config_wf :: "component_config \<Rightarrow> bool" where
  "config_wf c \<longleftrightarrow> cc_Name c \<noteq> [] \<and> cc_DisplayName c \<noteq> [] \<and>
     (DefaultRepository (cc_Helm c) = [] \<and> DefaultChart (cc_Helm c) = [] \<or> DefaultSource (cc_Kustomize c) = [])"

lemma duplicate_names_Nil:
  "\<forall>c \<in> set comps. cc_Name c \<noteq> [] \<Longrightarrow>
   duplicate_names seen comps = [] \<longleftrightarrow>
     distinct (map cc_Name comps) \<and> set (map cc_Name comps) \<inter> set seen = {}"
  by (induction comps arbitrary: seen) auto

lemma duplicate_keys_Nil:
  "duplicate_keys owner kns = [] \<longleftrightarrow>
     distinct (map fst kns) \<and> set (map fst kns) \<inter> dom (map_of owner) = {}"
proof (induction owner kns rule: duplicate_keys.induct)
  case (2 owner key name rest)
  then show ?case by (cases "map_of owner key") (auto simp: dom_def)
qed simp

lemma keys_override_key_pairs: "map fst (override_key_pairs comps) = concat (map cc_ValueOverrideKeys comps)"
  by (induction comps) (simp_all add: override_key_pairs_def comp_def)

lemma concat_enumerate_Nil:
  "concat (map (\<lambda>(i, c). f i c) (enumerate n cs)) = [] \<longleftrightarrow> (\<forall>i < length cs. f (n + i) (cs ! i) = [])"
proof (induction cs arbitrary: n)
  case (Cons c cs)
  show ?case
    using Cons.IH [of "Suc n"] by (auto simp: less_Suc_eq_0_disj)
qed simp

text \<open>
  \<open>Validate\<close> reports no problem exactly for well-formed registries: every component has a
  name and a display name and at most one of the two deployment kinds, and no name and no
  override key occurs twice in the whole registry.
\<close>

theorem validate_registry_complete:
  "validate_registry (Some r) = [] \<longleftrightarrow>
     (\<forall>c \<in> set (reg_Components r). config_wf c) \<and>
     distinct (registry_names (Some r)) \<and>
     distinct (concat (map cc_ValueOverrideKeys (reg_Components r)))"
proof -
  let ?cs = "reg_Components r"
  have wf: "(\<forall>i < length ?cs. required_errors i (?cs ! i) = []) \<and>
            (\<forall>i < length ?cs. exclusive_errors i (?cs ! i) = []) \<longleftrightarrow> (\<forall>c \<in> set ?cs. config_wf c)"
    by (auto simp: all_set_conv_all_nth required_errors_def exclusive_errors_def config_wf_def Let_def)
  have names: "(\<forall>c \<in> set ?cs. config_wf c) \<Longrightarrow>
      duplicate_names [] ?cs = [] \<longleftrightarrow> distinct (registry_names (Some r))"
    by (subst duplicate_names_Nil) (auto simp: config_wf_def registry_names_def)
  have keys: "duplicate_keys [] (override_key_pairs ?cs) = [] \<longleftrightarrow> distinct (concat (map cc_ValueOverrideKeys ?cs))"
    by (simp add: duplicate_keys_Nil keys_override_key_pairs)
  have "validate_registry (Some r) = [] \<longleftrightarrow>
      (\<forall>i < length ?cs. required_errors i (?cs ! i) = []) \<and> duplicate_names [] ?cs = [] \<and>
      duplicate_keys [] (override_key_pairs ?cs) = [] \<and> (\<forall>i < length ?cs. exclusive_errors i (?cs ! i) = [])"
    unfolding validate_registry_def Let_def option.case append_is_Nil_conv concat_enumerate_Nil by simp
  then show ?thesis using wf names keys by blast
qed

lemma validate_registry_complete_witness:
  "validate_registry (Some \<lparr>reg_Components = [nfd_config], reg_byName = []\<rparr>) = [] \<and>
   validate_registry (Some \<lparr>reg_Components = [nfd_config, nfd_config], reg_byName = []\<rparr>) \<noteq> []"
  by (simp add: validate_registry_complete registry_names_def nfd_config_def config_wf_def no_kustomize_def)

end
