(* ===== verification/Helm_Values.thy ===== *)
theory Helm_Values
  imports Aicr_Prelude
begin

section \<open>Override maps and their deep merge (pkg/recipe deepMergeMap)\<close>

text \<open>
  A \<open>map[string]any\<close> decoded from YAML is a \<open>value_map\<close>: an association list with distinct keys at
  every level (\<open>wf_map\<close>). \<open>deep_merge dst src\<close> is the loop of \<open>deepMergeMap\<close>, which updates \<open>dst\<close>
  key by key; values are copied in HOL, so \<open>DeepCopyAny\<close> is the identity here (what the code
  shares between maps is modelled in theory \<open>Override_Aliasing\<close>).
\<close>

datatype gval =
    VNull
  | VBool bool
  | VNum int
  | VStr string
  | VOther string
  | VList "gval list"
  | VMap "(string \<times> gval) list"

type_synonym value_map = "(string \<times> gval) list"

definition map_size :: "value_map \<Rightarrow> nat" where
  "map_size m = size_list (size_prod (\<lambda>_. 0) size) m"

lemma map_size_Cons: "map_size ((k, v) # m) = Suc (Suc (size v + map_size m))"
  by (simp add: map_size_def)

lemma size_VMap: "size (VMap m) = Suc (map_size m)"
  by (simp add: map_size_def)

function deep_merge :: "value_map \<Rightarrow> value_map \<Rightarrow> value_map" where
  "deep_merge dst [] = dst"
| "deep_merge dst ((k, sv) # src) =
     deep_merge
       (upsert k
          (case sv of
             VMap sv_map \<Rightarrow>
               (case map_of dst k of
                  Some (VMap dv_map) \<Rightarrow> VMap (deep_merge dv_map sv_map)
                | _ \<Rightarrow> VMap sv_map)
           | _ \<Rightarrow> sv)
          dst)
       src"
  by pat_completeness auto
termination
  by (relation "measure (\<lambda>(dst, src). map_size src)") (auto simp: map_size_def)

text \<open>What one iteration stores under its key.\<close>

definition merge_entry :: "gval option \<Rightarrow> gval \<Rightarrow> gval" where
  "merge_entry dv sv =
     (case sv of
        VMap sv_map \<Rightarrow> (case dv of Some (VMap dv_map) \<Rightarrow> VMap (deep_merge dv_map sv_map) | _ \<Rightarrow> VMap sv_map)
      | _ \<Rightarrow> sv)"

lemma deep_merge_Cons: "deep_merge dst ((k, sv) # src) = deep_merge (upsert k (merge_entry (map_of dst k) sv) dst) src"
  by (simp add: merge_entry_def)

fun wf_val :: "gval \<Rightarrow> bool" where
  "wf_val (VMap m) \<longleftrightarrow> distinct (map fst m) \<and> (\<forall>e \<in> set m. wf_val (snd e))"
| "wf_val _ \<longleftrightarrow> True"

definition wf_map :: "value_map \<Rightarrow> bool" where
  "wf_map m \<longleftrightarrow> distinct (map fst m) \<and> (\<forall>e \<in> set m. wf_val (snd e))"

lemma wf_val_VMap [simp]: "wf_val (VMap m) = wf_map m"
  by (simp add: wf_map_def)

declare wf_val.simps(1) [simp del]

lemma wf_map_Nil [simp]: "wf_map []"
  by (simp add: wf_map_def)

lemma wf_map_Cons: "wf_map ((k, v) # m) \<longleftrightarrow> k \<notin> fst ` set m \<and> wf_val v \<and> wf_map m"
  by (auto simp: wf_map_def)

lemma wf_map_lookup: "wf_map m \<Longrightarrow> map_of m k = Some v \<Longrightarrow> wf_val v"
  by (auto simp: wf_map_def dest!: map_of_SomeD)

lemma wf_map_upsert: "wf_map m \<Longrightarrow> wf_val v \<Longrightarrow> wf_map (upsert k v m)"
  using set_upsert_subset [of k v m] by (auto simp: wf_map_def distinct_upsert)

lemma wf_deep_merge: "wf_map dst \<Longrightarrow> wf_map src \<Longrightarrow> wf_map (deep_merge dst src)"
proof (induction dst src rule: deep_merge.induct)
  case (2 dst k sv src)
  have "wf_val (merge_entry (map_of dst k) sv)"
  proof (cases sv)
    case (VMap sm)
    show ?thesis
    proof (cases "\<exists>dm. map_of dst k = Some (VMap dm)")
      case True
      then obtain dm where dm: "map_of dst k = Some (VMap dm)" by blast
      then have "wf_map dm" using 2(3) wf_map_lookup by fastforce
      then show ?thesis
        using 2(1) [OF VMap dm refl] 2(4) by (simp add: merge_entry_def VMap dm wf_map_Cons)
    next
      case False
      then show ?thesis
        using 2(4) by (auto simp: merge_entry_def VMap wf_map_Cons split: option.splits gval.splits)
    qed
  qed (simp_all add: merge_entry_def)
  then have "wf_map (upsert k (merge_entry (map_of dst k) sv) dst)"
    by (rule wf_map_upsert [OF 2(3)])
  then show ?case
    using 2(2,4) by (simp add: deep_merge_Cons wf_map_Cons flip: merge_entry_def)
qed simp

lemma map_of_deep_merge:
  assumes "distinct (map fst src)"
  shows "map_of (deep_merge dst src) k =
    (case map_of src k of None \<Rightarrow> map_of dst k | Some sv \<Rightarrow> Some (merge_entry (map_of dst k) sv))"
  using assms
proof (induction src arbitrary: dst)
  case (Cons e src)
  obtain k' sv where e: "e = (k', sv)" by (cases e)
  then have "map_of src k' = None" using Cons.prems by (auto simp: map_of_eq_None_iff)
  then show ?case
    using Cons.IH [of "upsert k' (merge_entry (map_of dst k') sv) dst"] Cons.prems
    by (auto simp: e deep_merge_Cons simp del: deep_merge.simps split: option.splits)
qed simp

subsection \<open>Leaves addressed by a path of keys\<close>

text \<open>
  \<open>leaf_at m p\<close> is the value that is not a map at path \<open>p\<close>; \<open>covers m p\<close> says that \<open>m\<close> decides what is
  at \<open>p\<close>: it has a value there, or a value that is no map on the way.
\<close>

fun leaf_at :: "value_map \<Rightarrow> string list \<Rightarrow> gval option" where
  "leaf_at m [] = None"
| "leaf_at m (k # p) =
     (case map_of m k of
        None \<Rightarrow> None
      | Some (VMap sub) \<Rightarrow> leaf_at sub p
      | Some v \<Rightarrow> (if p = [] then Some v else None))"

fun covers :: "value_map \<Rightarrow> string list \<Rightarrow> bool" where
  "covers m [] = False"
| "covers m (k # p) =
     (case map_of m k of
        None \<Rightarrow> False
      | Some (VMap sub) \<Rightarrow> p = [] \<or> covers sub p
      | Some v \<Rightarrow> True)"

lemma leaf_at_covers: "leaf_at m p = Some v \<Longrightarrow> covers m p"
  by (induction m p rule: leaf_at.induct) (auto split: option.splits gval.splits if_splits)

lemma leaf_at_deep_merge:
  assumes "wf_map dst" "wf_map src"
  shows "leaf_at (deep_merge dst src) p = (if covers src p then leaf_at src p else leaf_at dst p)"
  using assms
proof (induction p arbitrary: dst src)
  case (Cons k p)
  have dist: "distinct (map fst src)" using Cons.prems(2) by (simp add: wf_map_def)
  show ?case
  proof (cases "map_of src k")
    case None
    then show ?thesis by (simp add: map_of_deep_merge [OF dist])
  next
    case (Some sv)
    show ?thesis
    proof (cases sv)
      case (VMap sm)
      have sm: "wf_map sm" using wf_map_lookup [OF Cons.prems(2) Some] VMap by simp
      show ?thesis
      proof (cases "\<exists>dm. map_of dst k = Some (VMap dm)")
        case True
        then obtain dm where dm: "map_of dst k = Some (VMap dm)" by blast
        then have "wf_map dm" using wf_map_lookup [OF Cons.prems(1)] by fastforce
        then have "leaf_at (deep_merge dm sm) p = (if covers sm p then leaf_at sm p else leaf_at dm p)"
          using Cons.IH sm by blast
        then show ?thesis
          by (cases p) (simp_all add: map_of_deep_merge [OF dist] Some VMap dm merge_entry_def)
      next
        case False
        have entry: "merge_entry (map_of dst k) sv = VMap sm"
          using False by (simp add: merge_entry_def VMap split: option.split gval.split)
        have "p \<noteq> [] \<Longrightarrow> leaf_at dst (k # p) = None"
          using False by (cases "map_of dst k") (simp_all split: gval.split)
        moreover have "\<not> covers sm p \<Longrightarrow> leaf_at sm p = None"
          using leaf_at_covers [of sm p] by fastforce
        ultimately show ?thesis
          using entry by (cases "p = []") (simp_all add: map_of_deep_merge [OF dist] Some VMap)
      qed
    qed (simp_all add: map_of_deep_merge [OF dist] Some merge_entry_def)
  qed
qed simp

text \<open>
  Merging overrides is override by leaf. For every path, the leaf of the merged map is the
  leaf of the source where the source decides the path and the leaf of the destination everywhere
  else; no other key is touched, at any depth, and the result is well-formed again.
\<close>

theorem deep_merge_leaf:
  assumes "wf_map dst" "wf_map src"
  shows "wf_map (deep_merge dst src) \<and>
         leaf_at (deep_merge dst src) p = (if covers src p then leaf_at src p else leaf_at dst p)"
  using wf_deep_merge [OF assms] leaf_at_deep_merge [OF assms] by simp

lemma deep_merge_leaf_witness:
  "leaf_at (deep_merge [(''driver'', VMap [(''version'', VStr ''1'')])]
      [(''driver'', VMap [(''enabled'', VBool False)])]) [''driver'', ''version''] = Some (VStr ''1'')"
proof -
  have "wf_map [(''driver'', VMap [(''version'', VStr ''1'')])]" "wf_map [(''driver'', VMap [(''enabled'', VBool False)])]"
    by (simp_all add: wf_map_def)
  from deep_merge_leaf [OF this, of "[''driver'', ''version'']"] show ?thesis by simp
qed

text \<open>
  The result does not depend on the order in which Go iterates over the source map: two
  listings of the same source give maps with the same entries at the top level and the same leaves.
\<close>

theorem deep_merge_iteration_order:
  assumes "wf_map src" "mset src' = mset src"
  shows "map_of (deep_merge dst src') = map_of (deep_merge dst src)"
proof -
  have src: "distinct (map fst src)" using assms(1) by (simp add: wf_map_def)
  have "mset (map fst src') = mset (map fst src)" using assms(2) by simp
  then have src': "distinct (map fst src')" using src mset_eq_imp_distinct_iff by blast
  have "map_of src' = map_of src"
    using mset_eq_setD [OF assms(2)] map_of_inject_set [OF src' src] by simp
  then show ?thesis
    by (simp add: fun_eq_iff map_of_deep_merge [OF src] map_of_deep_merge [OF src'])
qed

lemma deep_merge_iteration_order_witness:
  "map_of (deep_merge [(''a'', VNull)] [(''b'', VBool True), (''a'', VBool False)]) =
   map_of (deep_merge [(''a'', VNull)] [(''a'', VBool False), (''b'', VBool True)])"
  by (rule deep_merge_iteration_order) (simp_all add: wf_map_def)

end
