(* ===== verification/Component_Ref.thy ===== *)
theory Component_Ref
  imports Component_Registry Helm_Values
begin

section \<open>Component references (pkg/recipe/metadata.go)\<close>

text \<open>
  A \<open>component_ref\<close> is one component of a recipe. This theory holds its deployment gates, the
  defaults it takes from the registry, the coherence check that resolution runs on it, and the
  deployer side that check mirrors (pkg/bundler/deployer/localformat). Lists that the code only
  measures or ranges over are HOL lists, nil and empty alike; \<open>Overrides\<close> keeps nil apart.
\<close>

record constraint =
  co_Name :: string
  co_Value :: string
  co_Severity :: string
  co_Remediation :: string
  co_Unit :: string

record expected_resource =
  er_Kind :: string
  er_Name :: string
  er_Namespace :: string

record component_ref =
  cr_Name :: string
  cr_Namespace :: string
  cr_Chart :: string
  cr_Type :: string
  cr_Source :: string
  cr_Version :: string
  cr_Tag :: string
  cr_ValuesFile :: string
  cr_Overrides :: "value_map option"
  cr_Patches :: "string list"
  cr_DependencyRefs :: "string list"
  cr_ManifestFiles :: "string list"
  cr_PreManifestFiles :: "string list"
  cr_Path :: string
  cr_Cleanup :: bool
  cr_ExpectedResources :: "expected_resource list"
  cr_HealthCheckAsserts :: string
  cr_HealthCheckSkip :: bool

definition empty_ref :: "string \<Rightarrow> component_ref" where
  "empty_ref name =
     \<lparr>cr_Name = name, cr_Namespace = [], cr_Chart = [], cr_Type = [], cr_Source = [], cr_Version = [],
      cr_Tag = [], cr_ValuesFile = [], cr_Overrides = None, cr_Patches = [], cr_DependencyRefs = [],
      cr_ManifestFiles = [], cr_PreManifestFiles = [], cr_Path = [], cr_Cleanup = False,
      cr_ExpectedResources = [], cr_HealthCheckAsserts = [], cr_HealthCheckSkip = False\<rparr>"

subsection \<open>Deployment gates\<close>

definition gate_allows :: "value_map option \<Rightarrow> string \<Rightarrow> bool" where
  "gate_allows ov key =
     (case ov of
        None \<Rightarrow> True
      | Some m \<Rightarrow> (case map_of m key of Some (VBool enabled) \<Rightarrow> enabled | _ \<Rightarrow> True))"

definition is_enabled :: "component_ref \<Rightarrow> bool" where
  "is_enabled c = list_all (gate_allows (cr_Overrides c)) [''enabled'', ''install'']"

subsection \<open>Registry defaults\<close>

definition set_default :: "string \<Rightarrow> string \<Rightarrow> string" where
  "set_default cur dflt = (if cur = [] \<and> dflt \<noteq> [] then dflt else cur)"

text \<open>The chart name behind the last slash.\<close>

definition chart_basename :: "string \<Rightarrow> string" where
  "chart_basename chart = rev (takeWhile (\<lambda>c. c \<noteq> CHR ''/'') (rev chart))"

definition default_chart :: "string \<Rightarrow> string \<Rightarrow> string" where
  "default_chart cur dflt = (if cur = [] \<and> dflt \<noteq> [] then chart_basename dflt else cur)"

definition type_default :: "component_config \<Rightarrow> component_ref \<Rightarrow> component_ref" where
  "type_default cfg ref = ref \<lparr>cr_Type := (if cr_Type ref = [] then get_type (Some cfg) else cr_Type ref)\<rparr>"

definition helm_defaults :: "component_config \<Rightarrow> component_ref \<Rightarrow> component_ref" where
  "helm_defaults cfg ref =
     ref \<lparr>cr_Source := set_default (cr_Source ref) (DefaultRepository (cc_Helm cfg)),
          cr_Version := set_default (cr_Version ref) (DefaultVersion (cc_Helm cfg)),
          cr_Namespace := set_default (cr_Namespace ref) (DefaultNamespace (cc_Helm cfg)),
          cr_Chart := default_chart (cr_Chart ref) (DefaultChart (cc_Helm cfg))\<rparr>"

definition kustomize_defaults :: "component_config \<Rightarrow> component_ref \<Rightarrow> component_ref" where
  "kustomize_defaults cfg ref =
     ref \<lparr>cr_Source := set_default (cr_Source ref) (DefaultSource (cc_Kustomize cfg)),
          cr_Tag := set_default (cr_Tag ref) (DefaultTag (cc_Kustomize cfg)),
          cr_Path := set_default (cr_Path ref) (DefaultPath (cc_Kustomize cfg))\<rparr>"

definition typed_defaults :: "component_config \<Rightarrow> component_ref \<Rightarrow> component_ref" where
  "typed_defaults cfg ref =
     (if cr_Type ref = ComponentTypeHelm then helm_defaults cfg ref
      else if cr_Type ref = ComponentTypeKustomize then kustomize_defaults cfg ref
      else ref)"

definition manifest_default :: "component_config \<Rightarrow> component_ref \<Rightarrow> component_ref" where
  "manifest_default cfg ref =
     ref \<lparr>cr_ManifestFiles :=
            (if length (cr_ManifestFiles ref) = 0 \<and> length (cc_ManifestFiles cfg) > 0
             then cc_ManifestFiles cfg else cr_ManifestFiles ref)\<rparr>"

definition apply_registry_defaults :: "component_config option \<Rightarrow> component_ref \<Rightarrow> component_ref" where
  "apply_registry_defaults config ref =
     (case config of
        None \<Rightarrow> ref
      | Some cfg \<Rightarrow> manifest_default cfg (typed_defaults cfg (type_default cfg ref)))"

lemma component_types_distinct [simp]:
  "ComponentTypeHelm \<noteq> []" "ComponentTypeKustomize \<noteq> []" "ComponentTypeHelm \<noteq> ComponentTypeKustomize"
  "[] \<noteq> ComponentTypeHelm" "[] \<noteq> ComponentTypeKustomize" "ComponentTypeKustomize \<noteq> ComponentTypeHelm"
  by (simp_all add: component_types)

lemma get_type_cases: "get_type c = ComponentTypeHelm \<or> get_type c = ComponentTypeKustomize"
  by (simp add: get_type_def split: option.split)

lemma get_type_not_Nil [simp]: "get_type c \<noteq> []"
  using get_type_cases [of c] by auto

lemma set_default_simps [simp]: "x \<noteq> [] \<Longrightarrow> set_default x d = x" "set_default (set_default x d) d = set_default x d"
  by (auto simp: set_default_def)

lemma default_chart_simps [simp]:
  "x \<noteq> [] \<Longrightarrow> default_chart x d = x" "default_chart (default_chart x d) d = default_chart x d"
  by (auto simp: default_chart_def)

lemma type_default_select:
  "cr_Type (type_default cfg r) = (if cr_Type r = [] then get_type (Some cfg) else cr_Type r)"
  "cr_Name (type_default cfg r) = cr_Name r" "cr_Namespace (type_default cfg r) = cr_Namespace r"
  "cr_Chart (type_default cfg r) = cr_Chart r" "cr_Source (type_default cfg r) = cr_Source r"
  "cr_Version (type_default cfg r) = cr_Version r" "cr_Tag (type_default cfg r) = cr_Tag r"
  "cr_ValuesFile (type_default cfg r) = cr_ValuesFile r" "cr_Overrides (type_default cfg r) = cr_Overrides r"
  "cr_Patches (type_default cfg r) = cr_Patches r" "cr_DependencyRefs (type_default cfg r) = cr_DependencyRefs r"
  "cr_ManifestFiles (type_default cfg r) = cr_ManifestFiles r"
  "cr_PreManifestFiles (type_default cfg r) = cr_PreManifestFiles r" "cr_Path (type_default cfg r) = cr_Path r"
  "cr_Cleanup (type_default cfg r) = cr_Cleanup r" "cr_ExpectedResources (type_default cfg r) = cr_ExpectedResources r"
  "cr_HealthCheckAsserts (type_default cfg r) = cr_HealthCheckAsserts r"
  "cr_HealthCheckSkip (type_default cfg r) = cr_HealthCheckSkip r" "component_ref.more (type_default cfg r) = component_ref.more r"
  by (simp_all add: type_default_def)

lemma manifest_default_select:
  "cr_Type (manifest_default cfg r) = cr_Type r"
  "cr_Name (manifest_default cfg r) = cr_Name r" "cr_Namespace (manifest_default cfg r) = cr_Namespace r"
  "cr_Chart (manifest_default cfg r) = cr_Chart r" "cr_Source (manifest_default cfg r) = cr_Source r"
  "cr_Version (manifest_default cfg r) = cr_Version r" "cr_Tag (manifest_default cfg r) = cr_Tag r"
  "cr_ValuesFile (manifest_default cfg r) = cr_ValuesFile r" "cr_Overrides (manifest_default cfg r) = cr_Overrides r"
  "cr_Patches (manifest_default cfg r) = cr_Patches r" "cr_DependencyRefs (manifest_default cfg r) = cr_DependencyRefs r"
  "cr_ManifestFiles (manifest_default cfg r) = (if cr_ManifestFiles r = [] then cc_ManifestFiles cfg else cr_ManifestFiles r)"
  "cr_PreManifestFiles (manifest_default cfg r) = cr_PreManifestFiles r" "cr_Path (manifest_default cfg r) = cr_Path r"
  "cr_Cleanup (manifest_default cfg r) = cr_Cleanup r" "cr_ExpectedResources (manifest_default cfg r) = cr_ExpectedResources r"
  "cr_HealthCheckAsserts (manifest_default cfg r) = cr_HealthCheckAsserts r"
  "cr_HealthCheckSkip (manifest_default cfg r) = cr_HealthCheckSkip r" "component_ref.more (manifest_default cfg r) = component_ref.more r"
  by (auto simp add: manifest_default_def)

lemma typed_defaults_select:
  "cr_Type (typed_defaults cfg r) = cr_Type r" "cr_Name (typed_defaults cfg r) = cr_Name r"
  "cr_Namespace (typed_defaults cfg r) =
     (if cr_Type r = ComponentTypeHelm then set_default (cr_Namespace r) (DefaultNamespace (cc_Helm cfg)) else cr_Namespace r)"
  "cr_Chart (typed_defaults cfg r) =
     (if cr_Type r = ComponentTypeHelm then default_chart (cr_Chart r) (DefaultChart (cc_Helm cfg)) else cr_Chart r)"
  "cr_Source (typed_defaults cfg r) =
     (if cr_Type r = ComponentTypeHelm then set_default (cr_Source r) (DefaultRepository (cc_Helm cfg))
      else if cr_Type r = ComponentTypeKustomize then set_default (cr_Source r) (DefaultSource (cc_Kustomize cfg))
      else cr_Source r)"
  "cr_Version (typed_defaults cfg r) =
     (if cr_Type r = ComponentTypeHelm then set_default (cr_Version r) (DefaultVersion (cc_Helm cfg)) else cr_Version r)"
  "cr_Tag (typed_defaults cfg r) =
     (if cr_Type r = ComponentTypeKustomize then set_default (cr_Tag r) (DefaultTag (cc_Kustomize cfg)) else cr_Tag r)"
  "cr_Path (typed_defaults cfg r) =
     (if cr_Type r = ComponentTypeKustomize then set_default (cr_Path r) (DefaultPath (cc_Kustomize cfg)) else cr_Path r)"
  "cr_ValuesFile (typed_defaults cfg r) = cr_ValuesFile r" "cr_Overrides (typed_defaults cfg r) = cr_Overrides r"
  "cr_Patches (typed_defaults cfg r) = cr_Patches r" "cr_DependencyRefs (typed_defaults cfg r) = cr_DependencyRefs r"
  "cr_ManifestFiles (typed_defaults cfg r) = cr_ManifestFiles r"
  "cr_PreManifestFiles (typed_defaults cfg r) = cr_PreManifestFiles r" "cr_Cleanup (typed_defaults cfg r) = cr_Cleanup r"
  "cr_ExpectedResources (typed_defaults cfg r) = cr_ExpectedResources r"
  "cr_HealthCheckAsserts (typed_defaults cfg r) = cr_HealthCheckAsserts r"
  "cr_HealthCheckSkip (typed_defaults cfg r) = cr_HealthCheckSkip r" "component_ref.more (typed_defaults cfg r) = component_ref.more r"
  by (simp_all add: typed_defaults_def helm_defaults_def kustomize_defaults_def)

lemmas defaults_select = type_default_select manifest_default_select typed_defaults_select

text \<open>
  Registry defaults only fill fields the recipe leaves unset. Every field that is set
  keeps its value, the fields without a default are not touched at all, and the component leaves
  with a type.
\<close>

theorem registry_defaults_fill_only:
  "let ref' = apply_registry_defaults (Some cfg) ref in
     cr_Type ref' = (if cr_Type ref = [] then get_type (Some cfg) else cr_Type ref) \<and>
     cr_Source ref' \<in> {cr_Source ref} \<union> (if cr_Source ref = [] then {DefaultRepository (cc_Helm cfg), DefaultSource (cc_Kustomize cfg)} else {}) \<and>
     cr_Version ref' \<in> {cr_Version ref} \<union> (if cr_Version ref = [] then {DefaultVersion (cc_Helm cfg)} else {}) \<and>
     cr_Namespace ref' \<in> {cr_Namespace ref} \<union> (if cr_Namespace ref = [] then {DefaultNamespace (cc_Helm cfg)} else {}) \<and>
     cr_Chart ref' \<in> {cr_Chart ref} \<union> (if cr_Chart ref = [] then {chart_basename (DefaultChart (cc_Helm cfg))} else {}) \<and>
     cr_Tag ref' \<in> {cr_Tag ref} \<union> (if cr_Tag ref = [] then {DefaultTag (cc_Kustomize cfg)} else {}) \<and>
     cr_Path ref' \<in> {cr_Path ref} \<union> (if cr_Path ref = [] then {DefaultPath (cc_Kustomize cfg)} else {}) \<and>
     cr_ManifestFiles ref' = (if cr_ManifestFiles ref = [] then cc_ManifestFiles cfg else cr_ManifestFiles ref) \<and>
     ref' \<lparr>cr_Type := cr_Type ref, cr_Source := cr_Source ref, cr_Version := cr_Version ref,
           cr_Namespace := cr_Namespace ref, cr_Chart := cr_Chart ref, cr_Tag := cr_Tag ref,
           cr_Path := cr_Path ref, cr_ManifestFiles := cr_ManifestFiles ref\<rparr> = ref"
  unfolding Let_def apply_registry_defaults_def option.case
proof (intro conjI)
  let ?r = "manifest_default cfg (typed_defaults cfg (type_default cfg ref))"
  show "?r
      \<lparr>cr_Type := cr_Type ref, cr_Source := cr_Source ref, cr_Version := cr_Version ref,
       cr_Namespace := cr_Namespace ref, cr_Chart := cr_Chart ref, cr_Tag := cr_Tag ref,
       cr_Path := cr_Path ref, cr_ManifestFiles := cr_ManifestFiles ref\<rparr> = ref"
    by (rule component_ref.equality) (simp_all add: defaults_select)
qed (auto simp: defaults_select set_default_def default_chart_def)

lemma cr_unchanged_by_defaults [simp]:
  "cr_Name (apply_registry_defaults cfg ref) = cr_Name ref"
  "cr_Overrides (apply_registry_defaults cfg ref) = cr_Overrides ref"
  "cr_Patches (apply_registry_defaults cfg ref) = cr_Patches ref"
  "cr_DependencyRefs (apply_registry_defaults cfg ref) = cr_DependencyRefs ref"
  "is_enabled (apply_registry_defaults cfg ref) = is_enabled ref"
  by (simp_all add: apply_registry_defaults_def is_enabled_def defaults_select split: option.split)

lemma apply_registry_defaults_idem:
  "apply_registry_defaults cfg (apply_registry_defaults cfg ref) = apply_registry_defaults cfg ref"
proof (cases cfg)
  case (Some c)
  show ?thesis
    unfolding apply_registry_defaults_def Some option.case
    by (rule component_ref.equality) (simp_all add: defaults_select)
qed (simp add: apply_registry_defaults_def)

subsection \<open>Coherence\<close>

datatype coherence_issue =
    DeclaresPatches string
  | HelmWithKustomizeFields string string string
  | ChartPadded string string
  | SourcePadded string string
  | VersionPadded string string
  | VersionIneffective string string
  | NoChartVersion string
  | ChartWithoutSource string string
  | NoDeployablePrimary string
  | KustomizeWithoutPath string
  | KustomizeTagWithoutSource string string
  | KustomizeWithManifests string
  | UnsupportedType string string

definition quote :: "string \<Rightarrow> string" where
  "quote s = CHR 0x22 # concat (map (\<lambda>c. if c = CHR 0x22 \<or> c = CHR 0x5C then [CHR 0x5C, c] else [c]) s) @ [CHR 0x22]"

text \<open>The texts of the problems, by which the code sorts them (the advice at their end is shortened).\<close>

fun problem_text :: "coherence_issue \<Rightarrow> string" where
  "problem_text (DeclaresPatches n) = ''component '' @ quote n @ '' declares patches''"
| "problem_text (HelmWithKustomizeFields n t p) =
     ''component '' @ quote n @ '' is Helm but carries Kustomize field(s) (tag='' @ quote t @ '', path='' @ quote p @ '')''"
| "problem_text (ChartPadded n c) =
     ''Helm component '' @ quote n @ '' has a chart name with surrounding whitespace ('' @ quote c @ '')''"
| "problem_text (SourcePadded n s) =
     ''Helm component '' @ quote n @ '' has a source with surrounding whitespace ('' @ quote s @ '')''"
| "problem_text (VersionPadded n v) =
     ''Helm component '' @ quote n @ '' has a chart version with surrounding whitespace ('' @ quote v @ '')''"
| "problem_text (VersionIneffective n v) = ''Helm component '' @ quote n @ '' has chart version '' @ quote v"
| "problem_text (NoChartVersion n) = ''Helm component '' @ quote n @ '' has no chart version''"
| "problem_text (ChartWithoutSource n c) =
     ''Helm component '' @ quote n @ '' has a chart name ('' @ quote c @ '') but no source repository''"
| "problem_text (NoDeployablePrimary n) = ''Helm component '' @ quote n @ '' has no deployable primary''"
| "problem_text (KustomizeWithoutPath n) = ''component '' @ quote n @ '' is Kustomize but has no path''"
| "problem_text (KustomizeTagWithoutSource n t) =
     ''component '' @ quote n @ '' is Kustomize with tag '' @ quote t @ '' but no source''"
| "problem_text (KustomizeWithManifests n) =
     ''component '' @ quote n @ '' is Kustomize but also declares manifestFiles''"
| "problem_text (UnsupportedType n t) = ''component '' @ quote n @ '' has unsupported type '' @ quote t"

definition is_effective_chart_version :: "string \<Rightarrow> bool" where
  "is_effective_chart_version version =
     (let v = trim_space version in v \<noteq> [] \<and> trim_prefix v ''v'' \<noteq> [])"

definition is_manifest_only_helm :: "component_ref \<Rightarrow> bool" where
  "is_manifest_only_helm ref \<longleftrightarrow>
     equal_fold (cr_Type ref) ComponentTypeHelm \<and> cr_Chart ref = [] \<and> cr_Source ref = [] \<and>
     length (cr_ManifestFiles ref) > 0"

definition has_external_chart :: "component_ref \<Rightarrow> bool" where
  "has_external_chart ref \<longleftrightarrow> equal_fold (cr_Type ref) ComponentTypeHelm \<and> cr_Source ref \<noteq> []"

definition effective_chart :: "component_ref \<Rightarrow> string" where
  "effective_chart ref = (if cr_Chart ref \<noteq> [] then cr_Chart ref else cr_Name ref)"

definition helm_problem :: "component_ref \<Rightarrow> coherence_issue option" where
  "helm_problem ref =
     (if cr_Tag ref \<noteq> [] \<or> cr_Path ref \<noteq> []
        then Some (HelmWithKustomizeFields (cr_Name ref) (cr_Tag ref) (cr_Path ref))
      else if cr_Chart ref \<noteq> trim_space (cr_Chart ref) then Some (ChartPadded (cr_Name ref) (cr_Chart ref))
      else if cr_Source ref \<noteq> trim_space (cr_Source ref) then Some (SourcePadded (cr_Name ref) (cr_Source ref))
      else if cr_Version ref \<noteq> trim_space (cr_Version ref) then Some (VersionPadded (cr_Name ref) (cr_Version ref))
      else if cr_Version ref \<noteq> [] \<and> \<not> is_effective_chart_version (cr_Version ref)
        then Some (VersionIneffective (cr_Name ref) (cr_Version ref))
      else if cr_Source ref \<noteq> [] then
        (if cr_Version ref = [] then Some (NoChartVersion (cr_Name ref)) else None)
      else if cr_Chart ref \<noteq> [] then Some (ChartWithoutSource (cr_Name ref) (cr_Chart ref))
      else if length (cr_ManifestFiles ref) = 0 then Some (NoDeployablePrimary (cr_Name ref))
      else None)"

definition kustomize_problem :: "component_ref \<Rightarrow> coherence_issue option" where
  "kustomize_problem ref =
     (if cr_Path ref = [] then Some (KustomizeWithoutPath (cr_Name ref))
      else if cr_Tag ref \<noteq> [] \<and> cr_Source ref = [] then Some (KustomizeTagWithoutSource (cr_Name ref) (cr_Tag ref))
      else if length (cr_ManifestFiles ref) > 0 then Some (KustomizeWithManifests (cr_Name ref))
      else None)"

definition coherence_problem :: "component_ref \<Rightarrow> coherence_issue option" where
  "coherence_problem ref =
     (if length (cr_Patches ref) > 0 then Some (DeclaresPatches (cr_Name ref))
      else if equal_fold (cr_Type ref) ComponentTypeHelm then helm_problem ref
      else if equal_fold (cr_Type ref) ComponentTypeKustomize then kustomize_problem ref
      else Some (UnsupportedType (cr_Name ref) (cr_Type ref)))"

subsection \<open>What the deployers make of a reference\<close>

record local_component =
  lc_Name :: string
  lc_Namespace :: string
  lc_Repository :: string
  lc_ChartName :: string
  lc_Version :: string
  lc_IsOCI :: bool
  lc_Tag :: string
  lc_Path :: string

datatype folder_kind = KindUpstreamHelm | KindLocalHelm

definition to_local_component :: "component_ref \<Rightarrow> local_component" where
  "to_local_component ref =
     \<lparr>lc_Name = cr_Name ref, lc_Namespace = cr_Namespace ref, lc_Repository = cr_Source ref,
      lc_ChartName = effective_chart ref, lc_Version = cr_Version ref,
      lc_IsOCI = has_prefix (cr_Source ref) ''oci://'', lc_Tag = cr_Tag ref, lc_Path = cr_Path ref\<rparr>"

definition classify :: "local_component \<Rightarrow> string list \<Rightarrow> folder_kind" where
  "classify c manifests =
     (if lc_Tag c \<noteq> [] \<or> lc_Path c \<noteq> [] then KindLocalHelm
      else if lc_Repository c = [] \<and> length manifests > 0 then KindLocalHelm
      else KindUpstreamHelm)"

definition should_vendor :: "local_component \<Rightarrow> bool" where
  "should_vendor c =
     (if lc_Repository c = [] then False
      else if lc_Tag c \<noteq> [] \<or> lc_Path c \<noteq> [] then False else True)"

text \<open>The guards of the local-helm branch of \<open>Write\<close> and the build target it hands to kustomize.\<close>

definition kustomize_target :: "local_component \<Rightarrow> string res" where
  "kustomize_target c =
     (if lc_Path c = [] then
        Inl (err_new ErrCodeInvalidRequest ''kustomize component %q has Tag but no Path; Path is required'' [lc_Name c])
      else if lc_Tag c \<noteq> [] \<and> lc_Repository c = [] then
        Inl (err_new ErrCodeInvalidRequest ''kustomize component %q has Tag but no Repository'' [lc_Name c])
      else Inr (if lc_Repository c \<noteq> []
                then lc_Repository c @ ''//'' @ lc_Path c @ (if lc_Tag c \<noteq> [] then ''?ref='' @ lc_Tag c else [])
                else lc_Path c))"

definition normalize_chart_version :: "string \<Rightarrow> string" where
  "normalize_chart_version v = trim_prefix v ''v''"

definition normalize_version_with_default :: "string \<Rightarrow> string" where
  "normalize_version_with_default v =
     (let v' = trim_prefix v ''v'' in if v' = [] then ''0.1.0'' else v')"

lemma to_lower_types [simp]:
  "to_lower ComponentTypeHelm = ''helm''" "to_lower ComponentTypeKustomize = ''kustomize''"
  "to_lower ''helm'' = ''helm''"
  by (code_simp)+

lemma helm_not_kustomize: "equal_fold t ComponentTypeHelm \<Longrightarrow> \<not> equal_fold t ComponentTypeKustomize"
  by (simp add: equal_fold_def)

lemma coherent_cases:
  assumes "coherence_problem ref = None"
  shows "equal_fold (cr_Type ref) ComponentTypeHelm \<and> helm_problem ref = None \<or>
         equal_fold (cr_Type ref) ComponentTypeKustomize \<and> kustomize_problem ref = None"
  using assms by (auto simp: coherence_problem_def split: if_splits)

lemma helm_problem_None:
  "helm_problem ref = None \<longleftrightarrow>
     cr_Tag ref = [] \<and> cr_Path ref = [] \<and> trim_space (cr_Chart ref) = cr_Chart ref \<and>
     trim_space (cr_Source ref) = cr_Source ref \<and> trim_space (cr_Version ref) = cr_Version ref \<and>
     (cr_Version ref \<noteq> [] \<longrightarrow> is_effective_chart_version (cr_Version ref)) \<and>
     (if cr_Source ref \<noteq> [] then cr_Version ref \<noteq> [] else cr_Chart ref = [] \<and> cr_ManifestFiles ref \<noteq> [])"
  by (auto simp: helm_problem_def)

lemma kustomize_problem_None:
  "kustomize_problem ref = None \<longleftrightarrow>
     cr_Path ref \<noteq> [] \<and> (cr_Tag ref \<noteq> [] \<longrightarrow> cr_Source ref \<noteq> []) \<and> cr_ManifestFiles ref = []"
  by (simp add: kustomize_problem_def)

text \<open>
  A coherent reference deploys as the type it declares. The deployers that ignore the type
  and classify by fields put it into an upstream folder exactly when it is a Helm reference with an
  external chart, whose version is then still a version after the deployers strip a leading
  \<open>v\<close>; otherwise it is a local chart built from manifests, or a Kustomize
  reference for which the deployer's own guards find a build target.
\<close>

theorem coherent_deploys_as_declared:
  assumes "coherence_problem ref = None"
  shows "let c = to_local_component ref in
     cr_Patches ref = [] \<and>
     (classify c (cr_ManifestFiles ref) = KindUpstreamHelm \<longleftrightarrow> has_external_chart ref) \<and>
     (should_vendor c \<longleftrightarrow> has_external_chart ref) \<and>
     (has_external_chart ref \<longrightarrow> normalize_chart_version (cr_Version ref) \<noteq> []) \<and>
     (classify c (cr_ManifestFiles ref) = KindLocalHelm \<longrightarrow>
        is_manifest_only_helm ref \<noteq> (equal_fold (cr_Type ref) ComponentTypeKustomize \<and> is_ok (kustomize_target c)))"
proof -
  have patches: "cr_Patches ref = []"
    using assms by (auto simp: coherence_problem_def split: if_splits)
  consider (helm) "equal_fold (cr_Type ref) ComponentTypeHelm" "helm_problem ref = None"
    | (kustomize) "equal_fold (cr_Type ref) ComponentTypeKustomize" "kustomize_problem ref = None"
    using coherent_cases [OF assms] by auto
  then show ?thesis
  proof cases
    case helm
    then show ?thesis
      using helm_not_kustomize [OF helm(1)]
      by (auto simp: helm_problem_None to_local_component_def classify_def should_vendor_def has_external_chart_def
          is_manifest_only_helm_def normalize_chart_version_def is_effective_chart_version_def patches Let_def
          split: if_splits)
  next
    case kustomize
    then have "\<not> equal_fold (cr_Type ref) ComponentTypeHelm" using helm_not_kustomize by blast
    then show ?thesis
      using kustomize
      by (auto simp: kustomize_problem_None to_local_component_def classify_def should_vendor_def
          has_external_chart_def is_manifest_only_helm_def kustomize_target_def patches Let_def)
  qed
qed

lemma coherent_deploys_as_declared_witness:
  "\<exists>ref. coherence_problem ref = None \<and> has_external_chart ref \<and>
         classify (to_local_component ref) (cr_ManifestFiles ref) = KindUpstreamHelm"
proof -
  let ?ref = "(empty_ref ''nfd'') \<lparr>cr_Type := ''helm'', cr_Source := ''oci://r'', cr_Version := ''v1''\<rparr>"
  have "coherence_problem ?ref = None"
    by (simp add: coherence_problem_def helm_problem_def empty_ref_def equal_fold_def
        trim_space_def is_space_def is_effective_chart_version_def trim_prefix_def has_prefix_def)
  moreover have "has_external_chart ?ref"
    by (simp add: has_external_chart_def equal_fold_def)
  ultimately show ?thesis
    using coherent_deploys_as_declared [of ?ref] unfolding Let_def by blast
qed

subsection \<open>Types and names over the list of references\<close>

definition canonical_type :: "string \<Rightarrow> string" where
  "canonical_type t =
     (if equal_fold t ComponentTypeHelm then ComponentTypeHelm
      else if equal_fold t ComponentTypeKustomize then ComponentTypeKustomize else t)"

definition canonicalize_component_types :: "component_ref list \<Rightarrow> component_ref list" where
  "canonicalize_component_types refs = map (\<lambda>ref. ref \<lparr>cr_Type := canonical_type (cr_Type ref)\<rparr>) refs"

definition backfill_component_types ::
  "component_registry res \<Rightarrow> component_ref list \<Rightarrow> component_ref list res" where
  "backfill_component_types registry refs =
     (if \<not> list_ex (\<lambda>ref. cr_Type ref = [] \<and> is_enabled ref) refs then Inr refs
      else (case registry of
        Inl err \<Rightarrow> Inl (propagate_or_wrap ErrCodeInternal
                      ''failed to load component registry to back-fill component types'' err)
      | Inr reg \<Rightarrow>
          Inr (map (\<lambda>ref.
                 if cr_Type ref \<noteq> [] \<or> \<not> is_enabled ref then ref
                 else (case registry_get (Some reg) (cr_Name ref) of
                         None \<Rightarrow> ref
                       | Some cfg \<Rightarrow> ref \<lparr>cr_Type := get_type (Some cfg)\<rparr>)) refs)))"

fun validate_names_from :: "(string \<times> nat) list \<Rightarrow> nat \<Rightarrow> string list \<Rightarrow> unit res" where
  "validate_names_from seen i [] = Inr ()"
| "validate_names_from seen i (name # names) =
     (if name = [] then validate_names_from seen (Suc i) names
      else (case map_of seen name of
              Some first \<Rightarrow> Inl (err_new ErrCodeInvalidRequest
                ''recipe has duplicate component ref name %q (refs %d and %d)'' [name, show_nat first, show_nat i])
            | None \<Rightarrow> validate_names_from (upsert name i seen) (Suc i) names))"

definition validate_ref_names :: "component_ref list \<Rightarrow> unit res" where
  "validate_ref_names refs = validate_names_from [] 0 (map cr_Name refs)"

lemma is_enabled_update_type [simp]: "is_enabled (r \<lparr>cr_Type := t\<rparr>) = is_enabled r"
  by (simp add: is_enabled_def)

lemma canonical_type_idem [simp]: "canonical_type (canonical_type t) = canonical_type t"
  by (simp add: canonical_type_def equal_fold_def)

lemma canonicalize_idem: "canonicalize_component_types (canonicalize_component_types refs) = canonicalize_component_types refs"
  by (simp add: canonicalize_component_types_def)

lemma names_canonicalize [simp]: "map cr_Name (canonicalize_component_types refs) = map cr_Name refs"
  by (simp add: canonicalize_component_types_def comp_def)

lemma validate_names_from_ok:
  "is_ok (validate_names_from seen i names) \<longleftrightarrow>
     distinct (filter (\<lambda>n. n \<noteq> []) names) \<and> (\<forall>n \<in> set names. n \<noteq> [] \<longrightarrow> map_of seen n = None)"
  by (induction seen i names rule: validate_names_from.induct) (auto simp: Let_def split: option.split)

lemma validate_ref_names_ok: "is_ok (validate_ref_names refs) \<longleftrightarrow> distinct (filter (\<lambda>n. n \<noteq> []) (map cr_Name refs))"
  by (simp add: validate_ref_names_def validate_names_from_ok)

lemma canonical_type_coherence:
  "coherence_problem (ref \<lparr>cr_Type := canonical_type (cr_Type ref)\<rparr>) = None \<longleftrightarrow> coherence_problem ref = None"
  by (simp add: coherence_problem_def canonical_type_def helm_problem_None kustomize_problem_None equal_fold_def)

lemma backfill_typed:
  "\<forall>ref \<in> set refs. cr_Type ref \<noteq> [] \<or> \<not> is_enabled ref \<Longrightarrow> backfill_component_types registry refs = Inr refs"
  by (auto simp: backfill_component_types_def list_ex_iff)

text \<open>
  Back-filling touches only enabled references without a type, gives them the type of their
  registry entry, and asks the registry only when there is such a reference: when it fails, it is
  the registry's error that is returned and some enabled reference had no type.
\<close>

theorem backfill_outcome:
  "case backfill_component_types registry refs of
     Inl e \<Rightarrow> (\<exists>ref \<in> set refs. cr_Type ref = [] \<and> is_enabled ref) \<and>
              (\<exists>err. registry = Inl err \<and> (\<forall>c. err_is c err \<longrightarrow> err_is c e))
   | Inr refs' \<Rightarrow>
       length refs' = length refs \<and>
       (\<forall>i < length refs.
          refs' ! i = (refs ! i) \<lparr>cr_Type := cr_Type (refs' ! i)\<rparr> \<and>
          cr_Type (refs' ! i) =
            (if cr_Type (refs ! i) \<noteq> [] \<or> \<not> is_enabled (refs ! i) then cr_Type (refs ! i)
             else case registry of
                    Inl _ \<Rightarrow> []
                  | Inr reg \<Rightarrow> (case registry_get (Some reg) (cr_Name (refs ! i)) of
                                  None \<Rightarrow> [] | Some cfg \<Rightarrow> get_type (Some cfg))))"
proof (cases "list_ex (\<lambda>ref. cr_Type ref = [] \<and> is_enabled ref) refs")
  case False
  then have "\<forall>i < length refs. cr_Type (refs ! i) \<noteq> [] \<or> \<not> is_enabled (refs ! i)"
    by (auto simp: list_ex_iff)
  then show ?thesis using False by (simp add: backfill_component_types_def)
next
  case True
  show ?thesis
  proof (cases registry)
    case (Inl err)
    then show ?thesis
      using True by (auto simp: backfill_component_types_def list_ex_iff err_is_propagate_or_wrap)
  next
    case (Inr reg)
    then show ?thesis
      using True by (simp add: backfill_component_types_def split: option.split)
  qed
qed

lemma backfill_outcome_witness:
  "\<exists>ref. backfill_component_types (Inr \<lparr>reg_Components = [nfd_config], reg_byName = [(''nfd'', nfd_config)]\<rparr>)
      [empty_ref ''nfd''] = Inr [ref] \<and> cr_Type ref = ComponentTypeHelm"
proof -
  let ?reg = "\<lparr>reg_Components = [nfd_config], reg_byName = [(''nfd'', nfd_config)]\<rparr>"
  have enabled: "is_enabled (empty_ref ''nfd'')"
    by (simp add: is_enabled_def gate_allows_def empty_ref_def)
  have type: "get_type (Some nfd_config) = ComponentTypeHelm"
    by (simp add: get_type_def nfd_config_def no_kustomize_def)
  show ?thesis
    using backfill_outcome [where registry = "Inr ?reg" and refs = "[empty_ref ''nfd'']"] enabled type
    by (cases "backfill_component_types (Inr ?reg) [empty_ref ''nfd'']")
      (auto simp: length_Suc_conv registry_get_def empty_ref_def)
qed

end
