(* ===== verification/Validation_Phase.thy ===== *)
theory Validation_Phase
  imports Component_Ref
begin

section \<open>Validation phases and their merge (pkg/recipe/validation.go)\<close>

text \<open>
  \<open>Checks\<close> and \<open>Constraints\<close> are \<open>None\<close> when the Go slice is nil and \<open>Some []\<close> when it is empty and
  not nil: the merge reads nil as "inherit" and empty as "clear". Cloning is the identity on values
  (\<open>cloneValidationConfig\<close>, \<open>cloneValidationPhase\<close> and \<open>cloneNodeSelection\<close> return the value they copy).
\<close>

record node_selection =
  ns_Selector :: "(string \<times> string) list"
  ns_MaxNodes :: int
  ns_ExcludeNodes :: "string list"

record validation_phase =
  vp_Timeout :: string
  vp_Constraints :: "constraint list option"
  vp_Checks :: "string list option"
  vp_NodeSelection :: "node_selection option"
  vp_Infrastructure :: string

record validation_config =
  vc_Readiness :: "validation_phase option"
  vc_Deployment :: "validation_phase option"
  vc_Performance :: "validation_phase option"
  vc_Conformance :: "validation_phase option"

definition slice :: "'a list option \<Rightarrow> 'a list" where
  "slice xs = (case xs of None \<Rightarrow> [] | Some ys \<Rightarrow> ys)"

lemma slice_simps [simp]: "slice None = []" "slice (Some xs) = xs"
  by (simp_all add: slice_def)

definition clears :: "'a list option \<Rightarrow> bool" where
  "clears overlay \<longleftrightarrow> overlay \<noteq> None \<and> length (slice overlay) = 0"

definition override_string :: "string \<Rightarrow> string \<Rightarrow> string" where
  "override_string base overlay = (if overlay \<noteq> [] then overlay else base)"

definition merge_checks :: "string list option \<Rightarrow> string list option \<Rightarrow> string list option" where
  "merge_checks base overlay =
     (if clears overlay then Some []
      else if length (slice base) + length (slice overlay) > 0
        then Some (append_new (append_new [] (slice base)) (slice overlay))
      else None)"

text \<open>
  The two loops over the constraints share the set \<open>seen\<close>. The first one takes the overlay's
  constraint in place of a base constraint of that name, the second one appends the rest.
\<close>

definition index_constraints :: "constraint list \<Rightarrow> (string \<times> constraint) list" where
  "index_constraints cs = foldl (\<lambda>m c. upsert (co_Name c) c m) [] cs"

definition zero_constraint :: constraint where
  "zero_constraint = \<lparr>co_Name = [], co_Value = [], co_Severity = [], co_Remediation = [], co_Unit = []\<rparr>"

fun take_base ::
  "(string \<times> constraint) list \<Rightarrow> string list \<times> constraint list \<Rightarrow> constraint list \<Rightarrow> string list \<times> constraint list" where
  "take_base by_name (seen, out) [] = (seen, out)"
| "take_base by_name (seen, out) (c # cs) =
     (if co_Name c \<in> set seen then take_base by_name (seen, out) cs
      else take_base by_name
             (co_Name c # seen, out @ [case map_of by_name (co_Name c) of Some ov \<Rightarrow> ov | None \<Rightarrow> c]) cs)"

fun take_overlay ::
  "(string \<times> constraint) list \<Rightarrow> string list \<times> constraint list \<Rightarrow> constraint list \<Rightarrow> string list \<times> constraint list" where
  "take_overlay by_name (seen, out) [] = (seen, out)"
| "take_overlay by_name (seen, out) (c # cs) =
     (if co_Name c \<in> set seen then take_overlay by_name (seen, out) cs
      else take_overlay by_name
             (co_Name c # seen,
              out @ [case map_of by_name (co_Name c) of Some ov \<Rightarrow> ov | None \<Rightarrow> zero_constraint]) cs)"

definition merge_phase_constraints ::
  "constraint list option \<Rightarrow> constraint list option \<Rightarrow> constraint list option" where
  "merge_phase_constraints base overlay =
     (if clears overlay then Some []
      else if length (slice base) + length (slice overlay) > 0 then
        (let by_name = index_constraints (slice overlay)
         in Some (snd (take_overlay by_name (take_base by_name ([], []) (slice base)) (slice overlay))))
      else None)"

definition merge_validation_phase ::
  "validation_phase option \<Rightarrow> validation_phase option \<Rightarrow> validation_phase option" where
  "merge_validation_phase base overlay =
     (case overlay of
        None \<Rightarrow> base
      | Some ov \<Rightarrow>
          (case base of
             None \<Rightarrow> Some ov
           | Some b \<Rightarrow>
               Some \<lparr>vp_Timeout = override_string (vp_Timeout b) (vp_Timeout ov),
                     vp_Constraints = merge_phase_constraints (vp_Constraints b) (vp_Constraints ov),
                     vp_Checks = merge_checks (vp_Checks b) (vp_Checks ov),
                     vp_NodeSelection =
                       (case vp_NodeSelection ov of Some n \<Rightarrow> Some n | None \<Rightarrow> vp_NodeSelection b),
                     vp_Infrastructure = override_string (vp_Infrastructure b) (vp_Infrastructure ov)\<rparr>))"

definition merge_validation ::
  "validation_config option \<Rightarrow> validation_config option \<Rightarrow> validation_config option" where
  "merge_validation s other =
     (case other of
        None \<Rightarrow> s
      | Some ov \<Rightarrow>
          (case s of
             None \<Rightarrow> Some ov
           | Some b \<Rightarrow>
               Some \<lparr>vc_Readiness = merge_validation_phase (vc_Readiness b) (vc_Readiness ov),
                     vc_Deployment = merge_validation_phase (vc_Deployment b) (vc_Deployment ov),
                     vc_Performance = merge_validation_phase (vc_Performance b) (vc_Performance ov),
                     vc_Conformance = merge_validation_phase (vc_Conformance b) (vc_Conformance ov)\<rparr>))"

subsection \<open>The union of constraints in closed form\<close>

definition last_named :: "string \<Rightarrow> constraint list \<Rightarrow> constraint option" where
  "last_named n cs = find (\<lambda>c. co_Name c = n) (rev cs)"

definition first_named :: "string \<Rightarrow> constraint list \<Rightarrow> constraint option" where
  "first_named n cs = find (\<lambda>c. co_Name c = n) cs"

text \<open>The constraint a merge promises under a name: the overlay's last one, else the base's first one.\<close>

definition winner :: "constraint list \<Rightarrow> constraint list \<Rightarrow> string \<Rightarrow> constraint" where
  "winner base overlay n =
     (case last_named n overlay of
        Some c \<Rightarrow> c
      | None \<Rightarrow> (case first_named n base of Some c \<Rightarrow> c | None \<Rightarrow> zero_constraint))"

lemma map_of_index_constraints: "map_of (index_constraints cs) n = last_named n cs"
  by (simp add: index_constraints_def last_named_def map_of_index split: option.split)

lemma named_iff: "last_named n cs = None \<longleftrightarrow> n \<notin> co_Name ` set cs" "first_named n cs = None \<longleftrightarrow> n \<notin> co_Name ` set cs"
  by (auto simp: last_named_def first_named_def find_None_iff)

lemma co_Name_last_named: "last_named n cs = Some c \<Longrightarrow> co_Name c = n \<and> c \<in> set cs"
  by (auto simp: last_named_def dest: find_SomeD)

lemma co_Name_first_named: "first_named n cs = Some c \<Longrightarrow> co_Name c = n \<and> c \<in> set cs"
  by (auto simp: first_named_def dest: find_SomeD)

lemma append_new_to_seen:
  "set seen = set xs \<Longrightarrow> append_new xs (n # ns) = (if n \<in> set seen then append_new xs ns else append_new (xs @ [n]) ns)"
  by simp

lemma take_base_closed:
  assumes "set seen = set names"
    and "\<And>n c. n \<notin> set seen \<Longrightarrow> first_named n cs = Some c \<Longrightarrow> first_named n all = Some c"
    and "out = map (winner all ov) names"
  shows "\<exists>seen'. take_base (index_constraints ov) (seen, out) cs =
           (seen', map (winner all ov) (append_new names (map co_Name cs))) \<and>
         set seen' = set (append_new names (map co_Name cs))"
  using assms
proof (induction cs arbitrary: seen names out)
  case (Cons c cs)
  show ?case
  proof (cases "co_Name c \<in> set seen")
    case True
    have step: "first_named n all = Some d" if "n \<notin> set seen" "first_named n cs = Some d" for n d
    proof -
      have "co_Name c \<noteq> n" using that(1) True by auto
      then show ?thesis using Cons.prems(2) [of n d] that by (simp add: first_named_def)
    qed
    show ?thesis
      using Cons.IH [OF Cons.prems(1) step Cons.prems(3)] True Cons.prems(1) by simp
  next
    case False
    have first: "first_named (co_Name c) all = Some c"
      using Cons.prems(2) [OF False, of c] by (simp add: first_named_def)
    have step: "first_named n all = Some d" if "n \<notin> set (co_Name c # seen)" "first_named n cs = Some d" for n d
      using Cons.prems(2) [of n d] that by (auto simp: first_named_def)
    have out: "out @ [case map_of (index_constraints ov) (co_Name c) of Some o' \<Rightarrow> o' | None \<Rightarrow> c] =
        map (winner all ov) (names @ [co_Name c])"
      by (simp add: Cons.prems(3) winner_def map_of_index_constraints first split: option.split)
    have seen: "set (co_Name c # seen) = set (names @ [co_Name c])" using Cons.prems(1) by simp
    have "\<exists>seen'. take_base (index_constraints ov)
           (co_Name c # seen, out @ [case map_of (index_constraints ov) (co_Name c) of Some o' \<Rightarrow> o' | None \<Rightarrow> c]) cs =
         (seen', map (winner all ov) (append_new (names @ [co_Name c]) (map co_Name cs))) \<and>
         set seen' = set (append_new (names @ [co_Name c]) (map co_Name cs))"
      by (rule Cons.IH [OF seen _ out]) (rule step)
    then show ?thesis
      using False Cons.prems(1) by simp
  qed
qed simp

lemma take_overlay_closed:
  assumes "set seen = set names" "set cs \<subseteq> set ov" "out = map (winner all ov) names"
  shows "\<exists>seen'. take_overlay (index_constraints ov) (seen, out) cs =
           (seen', map (winner all ov) (append_new names (map co_Name cs)))"
  using assms
proof (induction cs arbitrary: seen names out)
  case (Cons c cs)
  show ?case
  proof (cases "co_Name c \<in> set seen")
    case False
    obtain o' where "last_named (co_Name c) ov = Some o'"
      using Cons.prems(2) named_iff(1) [of "co_Name c" ov] by (cases "last_named (co_Name c) ov") auto
    then have "out @ [case map_of (index_constraints ov) (co_Name c) of Some o' \<Rightarrow> o' | None \<Rightarrow> zero_constraint] =
        map (winner all ov) (names @ [co_Name c])"
      by (simp add: Cons.prems(3) winner_def map_of_index_constraints)
    then show ?thesis
      using Cons.IH [of "co_Name c # seen" "names @ [co_Name c]"] False Cons.prems by auto
  qed (use Cons in auto)
qed simp

lemma merge_phase_constraints_closed:
  "merge_phase_constraints base overlay =
     (if clears overlay then Some []
      else if slice base = [] \<and> slice overlay = [] then None
      else Some (map (winner (slice base) (slice overlay))
                  (append_new [] (map co_Name (slice base @ slice overlay)))))"
proof -
  obtain seen where base: "take_base (index_constraints (slice overlay)) ([], []) (slice base) =
      (seen, map (winner (slice base) (slice overlay)) (append_new [] (map co_Name (slice base))))"
      "set seen = set (append_new [] (map co_Name (slice base)))"
    using take_base_closed [of "[]" "[]" "slice base" "slice base" "[]" "slice overlay"] by force
  obtain seen' where "take_overlay (index_constraints (slice overlay))
      (take_base (index_constraints (slice overlay)) ([], []) (slice base)) (slice overlay) =
      (seen', map (winner (slice base) (slice overlay)) (append_new [] (map co_Name (slice base @ slice overlay))))"
    using take_overlay_closed [OF base(2) subset_refl refl, of "slice overlay" "slice base"] base(1)
    by (auto simp: append_new_append)
  then show ?thesis by (auto simp: merge_phase_constraints_def Let_def)
qed

lemma co_Name_winner: "n \<in> co_Name ` (set base \<union> set ov) \<Longrightarrow> co_Name (winner base ov n) = n"
  using named_iff [of n]
  by (auto simp: winner_def split: option.split dest: co_Name_last_named co_Name_first_named)

lemma names_merged:
  "map (co_Name \<circ> winner base ov) (append_new [] (map co_Name (base @ ov))) = append_new [] (map co_Name (base @ ov))"
  by (rule map_idI) (auto simp: co_Name_winner image_Un)

lemma first_named_merged:
  assumes "distinct ns" "n \<in> set ns" "\<forall>n \<in> set ns. co_Name (w n) = n"
  shows "first_named n (map w ns) = Some (w n)"
  using assms by (induction ns) (auto simp: first_named_def)

lemma clears_iff: "clears x \<longleftrightarrow> x = Some []"
  by (cases x) (auto simp: clears_def slice_def)

lemma merge_checks_slice:
  "slice (merge_checks b ov) = (if ov = Some [] then [] else append_new [] (slice b @ slice ov))"
  "merge_checks b (Some []) = Some []"
  by (auto simp: merge_checks_def clears_iff append_new_append slice_def split: option.splits)

lemma merge_constraints_slice:
  "slice (merge_phase_constraints b ov) =
     (if ov = Some [] then []
      else map (winner (slice b) (slice ov)) (append_new [] (map co_Name (slice b @ slice ov))))"
  by (auto simp: merge_phase_constraints_closed clears_iff slice_def split: option.splits)

lemma merge_constraints_names:
  "map co_Name (slice (merge_phase_constraints b ov)) =
     (if ov = Some [] then [] else append_new [] (map co_Name (slice b @ slice ov)))"
  "merge_phase_constraints b (Some []) = Some []"
  by (simp_all add: merge_phase_constraints_closed clears_iff names_merged del: map_append)

lemma winner_cases:
  assumes "n \<in> co_Name ` (set base \<union> set ov)"
  shows "last_named n ov = Some (winner base ov n) \<or>
         last_named n ov = None \<and> first_named n base = Some (winner base ov n)"
proof (cases "last_named n ov")
  case None
  then have "first_named n base \<noteq> None" using assms named_iff [of n] by auto
  then show ?thesis using None by (auto simp: winner_def)
qed (simp add: winner_def)

lemma merge_constraints_winner:
  assumes "c \<in> set (slice (merge_phase_constraints b ov))"
  shows "last_named (co_Name c) (slice ov) = Some c \<or>
         last_named (co_Name c) (slice ov) = None \<and> first_named (co_Name c) (slice b) = Some c"
proof -
  obtain n where n: "n \<in> co_Name ` (set (slice b) \<union> set (slice ov))" "c = winner (slice b) (slice ov) n"
    using assms by (auto simp: merge_constraints_slice split: if_splits)
  then have "co_Name c = n" using co_Name_winner by blast
  then show ?thesis using winner_cases [OF n(1)] n(2) by simp
qed

text \<open>
  Merging a phase into another lists every constraint name of either phase once, base names
  first and in their order, each with the overlay's last constraint of that name or else the base's
  first one; an explicitly empty overlay list clears the inherited ones, an absent one keeps
  them. The checks follow the same rule.
\<close>

theorem merge_validation_phase_lists:
  "\<exists>m. merge_validation_phase (Some b) (Some ov) = Some m \<and>
     (vp_Checks ov = Some [] \<longrightarrow> vp_Checks m = Some []) \<and>
     (vp_Constraints ov = Some [] \<longrightarrow> vp_Constraints m = Some []) \<and>
     (vp_Checks ov \<noteq> Some [] \<longrightarrow>
        slice (vp_Checks m) = append_new [] (slice (vp_Checks b) @ slice (vp_Checks ov))) \<and>
     (vp_Constraints ov \<noteq> Some [] \<longrightarrow>
        map co_Name (slice (vp_Constraints m)) =
          append_new [] (map co_Name (slice (vp_Constraints b) @ slice (vp_Constraints ov))) \<and>
        (\<forall>c \<in> set (slice (vp_Constraints m)).
           last_named (co_Name c) (slice (vp_Constraints ov)) = Some c \<or>
           last_named (co_Name c) (slice (vp_Constraints ov)) = None \<and>
           first_named (co_Name c) (slice (vp_Constraints b)) = Some c))"
  by (simp add: merge_validation_phase_def merge_checks_slice merge_constraints_names merge_constraints_winner
      del: append_new.simps)

definition empty_phase :: validation_phase where
  "empty_phase = \<lparr>vp_Timeout = [], vp_Constraints = None, vp_Checks = None, vp_NodeSelection = None, vp_Infrastructure = []\<rparr>"

lemma merge_validation_phase_lists_witness:
  "\<exists>m. merge_validation_phase (Some (empty_phase \<lparr>vp_Checks := Some [''nccl'']\<rparr>))
          (Some (empty_phase \<lparr>vp_Checks := Some [''slurm'', ''nccl'']\<rparr>)) = Some m \<and>
       slice (vp_Checks m) = [''nccl'', ''slurm'']"
  using merge_validation_phase_lists [of "empty_phase \<lparr>vp_Checks := Some [''nccl'']\<rparr>"
      "empty_phase \<lparr>vp_Checks := Some [''slurm'', ''nccl'']\<rparr>"]
  by fastforce

end
