(* ===== verification/Criteria_Registry.thy ===== *)
theory Criteria_Registry
  imports Aicr_Errors
begin

section \<open>The registry of criteria values (pkg/recipe/criteria_registry.go)\<close>

text \<open>
  The registry is a map of maps: for each dimension, the known values with their origin. The
  mutex is not modelled: each operation holds it from its first access to its last, so an operation
  is one step of a trace. The text of the environment variable \<open>AICR_CRITERIA_STRICT\<close>
  is the parameter \<open>env\<close>.
\<close>

datatype criteria_field = FieldService | FieldAccelerator | FieldIntent | FieldOS | FieldPlatform

datatype criteria_origin = OriginEmbedded | OriginExternal

record criteria_registry =
  reg_values :: "(criteria_field \<times> (string \<times> criteria_origin) list) list"
  reg_strict :: bool

definition CriteriaAnyValue :: string where "CriteriaAnyValue = ''any''"

definition normalize_criteria_value :: "string \<Rightarrow> string" where
  "normalize_criteria_value s = to_lower (trim_space s)"

definition is_strict_mode_from_env :: "string \<Rightarrow> bool" where
  "is_strict_mode_from_env env \<longleftrightarrow> normalize_criteria_value env \<in> {''1'', ''true'', ''yes'', ''on''}"

definition new_criteria_registry :: "string \<Rightarrow> criteria_registry" where
  "new_criteria_registry env = \<lparr>reg_values = [], reg_strict = is_strict_mode_from_env env\<rparr>"

definition reg_bucket :: "criteria_registry \<Rightarrow> criteria_field \<Rightarrow> (string \<times> criteria_origin) list" where
  "reg_bucket r field = (case map_of (reg_values r) field of None \<Rightarrow> [] | Some b \<Rightarrow> b)"

definition register :: "criteria_field \<Rightarrow> string \<Rightarrow> criteria_origin \<Rightarrow> criteria_registry \<Rightarrow> criteria_registry" where
  "register field value origin r =
     (let v = normalize_criteria_value value in
      if v = [] \<or> v = CriteriaAnyValue then r
      else let bucket = reg_bucket r field;
               r1 = r \<lparr>reg_values := upsert field bucket (reg_values r)\<rparr>
           in if map_of bucket v = Some OriginEmbedded then r1
              else r \<lparr>reg_values := upsert field (upsert v origin bucket) (reg_values r)\<rparr>)"

definition has_value :: "criteria_registry \<Rightarrow> criteria_field \<Rightarrow> string \<Rightarrow> bool" where
  "has_value r field value =
     (let v = normalize_criteria_value value in
      case map_of (reg_values r) field of
        None \<Rightarrow> False
      | Some bucket \<Rightarrow>
          (case map_of bucket v of
             None \<Rightarrow> False
           | Some origin \<Rightarrow> \<not> (reg_strict r \<and> origin \<noteq> OriginEmbedded)))"

definition has_embedded :: "criteria_registry \<Rightarrow> criteria_field \<Rightarrow> string \<Rightarrow> bool" where
  "has_embedded r field value =
     (let v = normalize_criteria_value value in
      case map_of (reg_values r) field of
        None \<Rightarrow> False
      | Some bucket \<Rightarrow> map_of bucket v = Some OriginEmbedded)"

definition values_of :: "criteria_registry \<Rightarrow> criteria_field \<Rightarrow> string list" where
  "values_of r field =
     (case map_of (reg_values r) field of
        None \<Rightarrow> []
      | Some bucket \<Rightarrow>
          sort (map fst (filter (\<lambda>(v, origin). \<not> (reg_strict r \<and> origin \<noteq> OriginEmbedded)) bucket)))"

definition set_strict :: "bool \<Rightarrow> criteria_registry \<Rightarrow> criteria_registry" where
  "set_strict strict r = r \<lparr>reg_strict := strict\<rparr>"

definition is_strict :: "criteria_registry \<Rightarrow> bool" where
  "is_strict r = reg_strict r"

definition reset_registry :: "string \<Rightarrow> criteria_registry \<Rightarrow> criteria_registry" where
  "reset_registry env r = r \<lparr>reg_values := [], reg_strict := is_strict_mode_from_env env\<rparr>"

lemma normalize_idem [simp]: "normalize_criteria_value (normalize_criteria_value s) = normalize_criteria_value s"
  by (simp add: normalize_criteria_value_def trim_space_lower)

lemma map_of_bucket_register:
  "map_of (reg_bucket (register f v o' r) g) w =
     (if f = g \<and> w = normalize_criteria_value v \<and> w \<notin> {[], CriteriaAnyValue}
      then (if map_of (reg_bucket r g) w = Some OriginEmbedded then Some OriginEmbedded else Some o')
      else map_of (reg_bucket r g) w)"
  by (auto simp: register_def reg_bucket_def Let_def split: option.split)

lemma has_value_bucket:
  "has_value r f v \<longleftrightarrow>
     (\<exists>origin. map_of (reg_bucket r f) (normalize_criteria_value v) = Some origin \<and>
        (reg_strict r \<longrightarrow> origin = OriginEmbedded))"
  by (auto simp: has_value_def reg_bucket_def Let_def split: option.split)

lemma has_embedded_bucket:
  "has_embedded r f v \<longleftrightarrow> map_of (reg_bucket r f) (normalize_criteria_value v) = Some OriginEmbedded"
  by (simp add: has_embedded_def reg_bucket_def Let_def split: option.split)

lemma values_of_bucket:
  "values_of r f =
     sort (map fst (filter (\<lambda>(v, origin). \<not> (reg_strict r \<and> origin \<noteq> OriginEmbedded)) (reg_bucket r f)))"
  by (simp add: values_of_def reg_bucket_def split: option.split)

lemma reg_strict_register [simp]: "reg_strict (register f v o' r) = reg_strict r"
  by (simp add: register_def Let_def)

subsection \<open>Traces of operations\<close>

text \<open>
  A trace is the sequence of state-changing calls. \<open>registrations\<close> is the abstract state: what was
  registered since the last reset, with every origin it was registered under.
\<close>

datatype registry_event = Registered criteria_field string criteria_origin | StrictSet bool | WasReset

definition registry_step :: "string \<Rightarrow> registry_event \<Rightarrow> criteria_registry \<Rightarrow> criteria_registry" where
  "registry_step env ev r =
     (case ev of
        Registered f v origin \<Rightarrow> register f v origin r
      | StrictSet b \<Rightarrow> set_strict b r
      | WasReset \<Rightarrow> reset_registry env r)"

definition run_registry :: "string \<Rightarrow> registry_event list \<Rightarrow> criteria_registry" where
  "run_registry env evs = foldl (\<lambda>r ev. registry_step env ev r) (new_criteria_registry env) evs"

definition log_step :: "(criteria_field \<times> string \<times> criteria_origin) set \<Rightarrow> registry_event \<Rightarrow> (criteria_field \<times> string \<times> criteria_origin) set" where
  "log_step L ev =
     (case ev of
        Registered f v origin \<Rightarrow>
          if normalize_criteria_value v \<in> {[], CriteriaAnyValue} then L
          else insert (f, normalize_criteria_value v, origin) L
      | StrictSet _ \<Rightarrow> L
      | WasReset \<Rightarrow> {})"

definition registrations :: "registry_event list \<Rightarrow> (criteria_field \<times> string \<times> criteria_origin) set" where
  "registrations evs = foldl log_step {} evs"

definition registry_abs :: "criteria_registry \<Rightarrow> (criteria_field \<times> string \<times> criteria_origin) set \<Rightarrow> bool" where
  "registry_abs r L \<longleftrightarrow>
     (\<forall>f. distinct (map fst (reg_bucket r f))) \<and>
     (\<forall>f v. map_of (reg_bucket r f) v =
        (if (f, v, OriginEmbedded) \<in> L then Some OriginEmbedded
         else if (f, v, OriginExternal) \<in> L then Some OriginExternal else None)) \<and>
     (\<forall>(f, v, origin) \<in> L. normalize_criteria_value v = v \<and> v \<notin> {[], CriteriaAnyValue})"

lemma distinct_bucket_register:
  "distinct (map fst (reg_bucket r g)) \<Longrightarrow> distinct (map fst (reg_bucket (register f v o' r) g))"
  by (auto simp: register_def reg_bucket_def Let_def distinct_upsert split: option.splits)

lemma registry_abs_step:
  assumes "registry_abs r L"
  shows "registry_abs (registry_step env ev r) (log_step L ev)"
proof (cases ev)
  case (Registered f v origin)
  show ?thesis
  proof (cases "normalize_criteria_value v \<in> {[], CriteriaAnyValue}")
    case True
    then have "register f v origin r = r" by (auto simp: register_def Let_def)
    then show ?thesis using assms True by (simp add: registry_step_def log_step_def Registered)
  next
    case False
    show ?thesis
      unfolding registry_abs_def
    proof (intro conjI allI)
      fix g w
      show "map_of (reg_bucket (registry_step env ev r) g) w =
          (if (g, w, OriginEmbedded) \<in> log_step L ev then Some OriginEmbedded
           else if (g, w, OriginExternal) \<in> log_step L ev then Some OriginExternal else None)"
        using assms False
        by (cases origin) (auto simp: registry_abs_def registry_step_def log_step_def Registered map_of_bucket_register)
    next
      fix g
      show "distinct (map fst (reg_bucket (registry_step env ev r) g))"
        using assms distinct_bucket_register by (simp add: registry_abs_def registry_step_def Registered)
    next
      show "\<forall>(f, v, origin) \<in> log_step L ev. normalize_criteria_value v = v \<and> v \<notin> {[], CriteriaAnyValue}"
        using assms False by (auto simp: registry_abs_def log_step_def Registered)
    qed
  qed
next
  case (StrictSet b)
  then show ?thesis
    using assms by (simp add: registry_abs_def registry_step_def log_step_def set_strict_def reg_bucket_def)
next
  case WasReset
  then show ?thesis
    by (simp add: registry_abs_def registry_step_def log_step_def reset_registry_def reg_bucket_def)
qed

lemma registry_abs_run: "registry_abs (run_registry env evs) (registrations evs)"
proof (induction evs rule: rev_induct)
  case Nil
  then show ?case
    by (simp add: run_registry_def registrations_def new_criteria_registry_def registry_abs_def reg_bucket_def)
next
  case (snoc ev evs)
  then show ?case
    using registry_abs_step by (simp add: run_registry_def registrations_def)
qed

lemma origin_split: "origin = OriginEmbedded \<or> origin = OriginExternal"
  by (cases origin) auto

text \<open>
  After any sequence of registrations, mode changes and resets, \<open>Has\<close> answers for the set
  of registrations since the last reset: a value is known when it was registered at all, and in
  strict mode when some registration of it was embedded, whatever came before or after it.
  \<open>HasEmbedded\<close> and \<open>Values\<close> answer for the same set.
\<close>

theorem registry_answers_for_registrations:
  "let r = run_registry env evs; L = registrations evs; n = normalize_criteria_value v in
     (has_value r f v \<longleftrightarrow> (\<exists>origin. (f, n, origin) \<in> L) \<and> (is_strict r \<longrightarrow> (f, n, OriginEmbedded) \<in> L)) \<and>
     (has_embedded r f v \<longleftrightarrow> (f, n, OriginEmbedded) \<in> L) \<and>
     sorted (values_of r f) \<and> distinct (values_of r f) \<and>
     set (values_of r f) = {w. has_value r f w \<and> normalize_criteria_value w = w}"
proof -
  let ?r = "run_registry env evs" and ?L = "registrations evs"
  note abs = registry_abs_run [of env evs, unfolded registry_abs_def]
  have dist: "distinct (map fst (reg_bucket ?r f))" using abs by blast
  have look: "map_of (reg_bucket ?r f) w =
      (if (f, w, OriginEmbedded) \<in> ?L then Some OriginEmbedded
       else if (f, w, OriginExternal) \<in> ?L then Some OriginExternal else None)" for w
    using abs by blast
  have norm: "normalize_criteria_value w = w" if "(f, w, origin) \<in> ?L" for w origin
    using abs that by blast
  have "set (values_of ?r f) = {w. has_value ?r f w \<and> normalize_criteria_value w = w}"
  proof (intro set_eqI)
    fix w
    have "w \<in> set (values_of ?r f) \<longleftrightarrow>
        (\<exists>origin. map_of (reg_bucket ?r f) w = Some origin \<and> (reg_strict ?r \<longrightarrow> origin = OriginEmbedded))"
      using dist by (force simp: values_of_bucket)
    also have "\<dots> \<longleftrightarrow> has_value ?r f w \<and> normalize_criteria_value w = w"
      using norm [of w] by (auto simp: has_value_bucket look split: if_splits)
    finally show "w \<in> set (values_of ?r f) \<longleftrightarrow> w \<in> {w. has_value ?r f w \<and> normalize_criteria_value w = w}"
      by simp
  qed
  moreover have "distinct (values_of ?r f)"
    using dist by (simp add: values_of_bucket distinct_map_filter)
  moreover have "has_value ?r f v \<longleftrightarrow>
      (\<exists>origin. (f, normalize_criteria_value v, origin) \<in> ?L) \<and>
      (is_strict ?r \<longrightarrow> (f, normalize_criteria_value v, OriginEmbedded) \<in> ?L)"
    using origin_split by (auto simp: has_value_bucket look is_strict_def split: if_splits) (metis origin_split)
  ultimately show ?thesis
    by (simp add: Let_def has_embedded_bucket look values_of_bucket)
qed

lemma registry_answers_for_registrations_witness:
  "has_value (run_registry ''no'' [Registered FieldOS ''x'' OriginExternal]) FieldOS ''x'' \<and>
   \<not> has_value (run_registry ''no'' [Registered FieldOS ''x'' OriginExternal, StrictSet True]) FieldOS ''x''"
proof -
  let ?evs = "[Registered FieldOS ''x'' OriginExternal]"
  let ?evs' = "[Registered FieldOS ''x'' OriginExternal, StrictSet True]"
  have norm: "normalize_criteria_value ''x'' = ''x''" "is_strict (run_registry ''no'' ?evs) = False"
    "is_strict (run_registry ''no'' ?evs')"
    by code_simp+
  have regs: "registrations ?evs = {(FieldOS, ''x'', OriginExternal)}"
    "registrations ?evs' = {(FieldOS, ''x'', OriginExternal)}"
    by (simp_all add: registrations_def log_step_def norm CriteriaAnyValue_def)
  show ?thesis
    using registry_answers_for_registrations [of "''no''" ?evs "''x''" FieldOS]
      registry_answers_for_registrations [of "''no''" ?evs' "''x''" FieldOS]
    by (simp add: Let_def norm regs)
qed

subsection \<open>The interface of the parsers\<close>

text \<open>
  What the parsers of criteria rely on: the lookup normalises its argument and never knows the
  wildcard. Every registry that the operations build provides it.
\<close>

locale criteria_lookup =
  fixes known :: "criteria_field \<Rightarrow> string \<Rightarrow> bool"
  assumes known_norm: "known f (normalize_criteria_value s) = known f s"
    and known_wildcard: "\<not> known f []" "\<not> known f CriteriaAnyValue"

interpretation run: criteria_lookup "has_value (run_registry env evs)" for env evs
proof
  note abs = registry_abs_run [of env evs, unfolded registry_abs_def]
  fix f s
  show "has_value (run_registry env evs) f (normalize_criteria_value s) = has_value (run_registry env evs) f s"
    by (simp add: has_value_def)
  have norm: "normalize_criteria_value [] = []" "normalize_criteria_value CriteriaAnyValue = CriteriaAnyValue"
    unfolding CriteriaAnyValue_def by code_simp+
  show "\<not> has_value (run_registry env evs) f []" "\<not> has_value (run_registry env evs) f CriteriaAnyValue"
    using abs by (auto simp: has_value_bucket norm split: if_splits)
qed

end
