(* ===== verification/Criteria.thy ===== *)
theory Criteria
  imports Criteria_Registry
begin

section \<open>Criteria: parsing, matching, specificity (pkg/recipe/criteria.go, oskind)\<close>

text \<open>
  Each \<open>Parse\<close> method is a switch over the normalised text with a fallback to the registry; the switch is
  the association list of its arms, in their order. The parsers get the registry's lookup, so
  that their lemmas hold for every provider of \<open>criteria_lookup\<close>. A nil registry, which the code
  replaces by a fresh one, is the lookup of \<open>new_criteria_registry\<close>.
\<close>

definition service_arms :: "(string \<times> string) list" where
  "service_arms =
     [(''any'', ''any''), ([], ''any''), (''self-managed'', ''any''), (''self'', ''any''), (''vanilla'', ''any''),
      (''eks'', ''eks''), (''gke'', ''gke''), (''aks'', ''aks''), (''oke'', ''oke''), (''kind'', ''kind''),
      (''lke'', ''lke''), (''bcm'', ''bcm''), (''ocp'', ''ocp''), (''openshift'', ''ocp''), (''metal3'', ''metal3'')]"

definition accelerator_arms :: "(string \<times> string) list" where
  "accelerator_arms =
     [([], ''any''), (''any'', ''any''), (''h100'', ''h100''), (''h200'', ''h200''), (''gb200'', ''gb200''),
      (''gb300'', ''gb300''), (''b200'', ''b200''), (''a100'', ''a100''), (''l40'', ''l40''), (''l40s'', ''l40s''),
      (''rtx-pro-6000'', ''rtx-pro-6000'')]"

definition intent_arms :: "(string \<times> string) list" where
  "intent_arms = [([], ''any''), (''any'', ''any''), (''training'', ''training''), (''inference'', ''inference'')]"

definition os_arms :: "(string \<times> string) list" where
  "os_arms =
     [([], ''any''), (''any'', ''any''), (''ubuntu'', ''ubuntu''), (''rhel'', ''rhel''), (''cos'', ''cos''),
      (''amazonlinux'', ''amazonlinux''), (''al2'', ''amazonlinux''), (''al2023'', ''amazonlinux''),
      (''ol'', ''ol''), (''talos'', ''talos'')]"

definition platform_arms :: "(string \<times> string) list" where
  "platform_arms =
     [([], ''any''), (''any'', ''any''), (''dynamo'', ''dynamo''), (''kubeflow'', ''kubeflow''), (''nim'', ''nim''),
      (''runai'', ''runai''), (''slurm'', ''slurm'')]"

type_synonym lookup = "criteria_field \<Rightarrow> string \<Rightarrow> bool"

definition parse_with_arms ::
  "(string \<times> string) list \<Rightarrow> criteria_field \<Rightarrow> string \<Rightarrow> lookup \<Rightarrow> string \<Rightarrow> string res" where
  "parse_with_arms arms field msg known s =
     (case map_of arms (to_lower (trim_space s)) of
        Some v \<Rightarrow> Inr v
      | None \<Rightarrow> if known field s then Inr (normalize_criteria_value s)
                else Inl (err_new ErrCodeInvalidRequest msg [s]))"

definition parse_service :: "lookup \<Rightarrow> string \<Rightarrow> string res" where
  "parse_service = parse_with_arms service_arms FieldService ''invalid service type: %s''"

definition parse_accelerator :: "lookup \<Rightarrow> string \<Rightarrow> string res" where
  "parse_accelerator = parse_with_arms accelerator_arms FieldAccelerator ''invalid accelerator type: %s''"

definition parse_intent :: "lookup \<Rightarrow> string \<Rightarrow> string res" where
  "parse_intent = parse_with_arms intent_arms FieldIntent ''invalid intent type: %s''"

definition parse_os :: "lookup \<Rightarrow> string \<Rightarrow> string res" where
  "parse_os = parse_with_arms os_arms FieldOS ''invalid os type: %s''"

definition parse_platform :: "lookup \<Rightarrow> string \<Rightarrow> string res" where
  "parse_platform = parse_with_arms platform_arms FieldPlatform ''invalid platform type: %s''"

definition parse_field :: "criteria_field \<Rightarrow> lookup \<Rightarrow> string \<Rightarrow> string res" where
  "parse_field field =
     (case field of
        FieldService \<Rightarrow> parse_service | FieldAccelerator \<Rightarrow> parse_accelerator | FieldIntent \<Rightarrow> parse_intent
      | FieldOS \<Rightarrow> parse_os | FieldPlatform \<Rightarrow> parse_platform)"

lemmas parse_field_defs = parse_field_def parse_service_def parse_accelerator_def parse_intent_def parse_os_def parse_platform_def

subsection \<open>The lists of types\<close>

definition oskind_all :: "string list" where
  "oskind_all = [''amazonlinux'', ''cos'', ''ol'', ''rhel'', ''talos'', ''ubuntu'']"

definition oskind_is_known :: "string \<Rightarrow> bool" where
  "oskind_is_known s \<longleftrightarrow>
     to_lower (trim_space s) \<in> {''any'', ''ubuntu'', ''rhel'', ''cos'', ''amazonlinux'', ''ol'', ''talos''}"

definition static_types :: "criteria_field \<Rightarrow> string list" where
  "static_types field =
     (case field of
        FieldService \<Rightarrow> [''aks'', ''bcm'', ''eks'', ''gke'', ''kind'', ''lke'', ''metal3'', ''ocp'', ''oke'']
      | FieldAccelerator \<Rightarrow>
          [''a100'', ''b200'', ''gb200'', ''gb300'', ''h100'', ''h200'', ''l40'', ''l40s'', ''rtx-pro-6000'']
      | FieldIntent \<Rightarrow> [''inference'', ''training'']
      | FieldOS \<Rightarrow> oskind_all
      | FieldPlatform \<Rightarrow> [''dynamo'', ''kubeflow'', ''nim'', ''runai'', ''slurm''])"

fun add_types :: "string list \<Rightarrow> string list \<Rightarrow> string list" where
  "add_types out [] = out"
| "add_types out (v # vs) =
     (let n = normalize_criteria_value v in
      if n \<in> set out \<or> n = [] then add_types out vs else add_types (out @ [n]) vs)"

definition merge_criteria_types :: "string list \<Rightarrow> string list \<Rightarrow> string list" where
  "merge_criteria_types static registered =
     (if length registered = 0 then static
      else sort (add_types (add_types [] static) registered))"

definition all_types :: "criteria_registry \<Rightarrow> criteria_field \<Rightarrow> string list" where
  "all_types r field = merge_criteria_types (static_types field) (values_of r field)"

subsection \<open>Criteria\<close>

record criteria =
  c_Service :: string
  c_Accelerator :: string
  c_Intent :: string
  c_OS :: string
  c_Platform :: string
  c_Nodes :: int

definition new_criteria :: criteria where
  "new_criteria =
     \<lparr>c_Service = ''any'', c_Accelerator = ''any'', c_Intent = ''any'', c_OS = ''any'', c_Platform = ''any'', c_Nodes = 0\<rparr>"

definition crit_get :: "criteria_field \<Rightarrow> criteria \<Rightarrow> string" where
  "crit_get field c =
     (case field of
        FieldService \<Rightarrow> c_Service c | FieldAccelerator \<Rightarrow> c_Accelerator c | FieldIntent \<Rightarrow> c_Intent c
      | FieldOS \<Rightarrow> c_OS c | FieldPlatform \<Rightarrow> c_Platform c)"

definition crit_set :: "criteria_field \<Rightarrow> string \<Rightarrow> criteria \<Rightarrow> criteria" where
  "crit_set field v c =
     (case field of
        FieldService \<Rightarrow> c \<lparr>c_Service := v\<rparr> | FieldAccelerator \<Rightarrow> c \<lparr>c_Accelerator := v\<rparr>
      | FieldIntent \<Rightarrow> c \<lparr>c_Intent := v\<rparr> | FieldOS \<Rightarrow> c \<lparr>c_OS := v\<rparr> | FieldPlatform \<Rightarrow> c \<lparr>c_Platform := v\<rparr>)"

definition matches_criteria_field :: "string \<Rightarrow> string \<Rightarrow> bool" where
  "matches_criteria_field recipe_value query_value =
     (let recipe_is_any = recipe_value = CriteriaAnyValue \<or> recipe_value = [];
          query_is_any = query_value = CriteriaAnyValue \<or> query_value = []
      in if recipe_is_any then True
         else if query_is_any then False
         else recipe_value = query_value)"

definition matches :: "criteria option \<Rightarrow> criteria option \<Rightarrow> bool" where
  "matches c other =
     (case c of
        None \<Rightarrow> other = None
      | Some c \<Rightarrow>
          (case other of
             None \<Rightarrow> True
           | Some q \<Rightarrow>
               (if \<not> matches_criteria_field (c_Service c) (c_Service q) then False
                else if \<not> matches_criteria_field (c_Accelerator c) (c_Accelerator q) then False
                else if \<not> matches_criteria_field (c_Intent c) (c_Intent q) then False
                else if \<not> matches_criteria_field (c_OS c) (c_OS q) then False
                else if \<not> matches_criteria_field (c_Platform c) (c_Platform q) then False
                else True)))"

definition stated :: "string \<Rightarrow> bool" where
  "stated v \<longleftrightarrow> v \<noteq> CriteriaAnyValue \<and> v \<noteq> []"

definition specificity :: "criteria \<Rightarrow> nat" where
  "specificity c =
     (if stated (c_Service c) then 1 else 0) + (if stated (c_Accelerator c) then 1 else 0)
     + (if stated (c_Intent c) then 1 else 0) + (if stated (c_OS c) then 1 else 0)
     + (if stated (c_Platform c) then 1 else 0) + (if c_Nodes c \<noteq> 0 then 1 else 0)"

definition criteria_string :: "criteria \<Rightarrow> string" where
  "criteria_string c =
     (let part = (\<lambda>name v. if v \<noteq> ''any'' then [name @ ''='' @ v] else []);
          parts = part ''service'' (c_Service c) @ part ''accelerator'' (c_Accelerator c)
                  @ part ''intent'' (c_Intent c) @ part ''os'' (c_OS c) @ part ''platform'' (c_Platform c)
                  @ (if c_Nodes c \<noteq> 0 then [''nodes='' @ show_int (c_Nodes c)] else [])
      in if length parts = 0 then ''criteria(any)'' else ''criteria('' @ join_with '', '' parts @ '')'')"

subsection \<open>Validation and construction\<close>

text \<open>One guarded block \<open>if v != "" { parsed, err := reg.ParseX(v); ... }\<close>.\<close>

definition parse_into ::
  "lookup \<Rightarrow> (go_error \<Rightarrow> go_error) \<Rightarrow> criteria_field \<Rightarrow> string \<Rightarrow> criteria \<Rightarrow> criteria res" where
  "parse_into known wrap field v c =
     (if v \<noteq> [] then
        (case parse_field field known v of
           Inl err \<Rightarrow> Inl (wrap err)
         | Inr parsed \<Rightarrow> Inr (crit_set field parsed c))
      else Inr c)"

definition validate_with_registry :: "lookup \<Rightarrow> criteria \<Rightarrow> criteria res" where
  "validate_with_registry known c =
     res_bind (parse_into known (err_wrap ErrCodeInvalidRequest ''invalid service'' []) FieldService (c_Service c) c) (\<lambda>c.
     res_bind (parse_into known (err_wrap ErrCodeInvalidRequest ''invalid accelerator'' []) FieldAccelerator (c_Accelerator c) c) (\<lambda>c.
     res_bind (parse_into known (err_wrap ErrCodeInvalidRequest ''invalid intent'' []) FieldIntent (c_Intent c) c) (\<lambda>c.
     res_bind (parse_into known (err_wrap ErrCodeInvalidRequest ''invalid os'' []) FieldOS (c_OS c) c) (\<lambda>c.
     parse_into known (err_wrap ErrCodeInvalidRequest ''invalid platform'' []) FieldPlatform (c_Platform c) c))))"

definition validate_criteria :: "string \<Rightarrow> criteria \<Rightarrow> criteria res" where
  "validate_criteria env c = validate_with_registry (has_value (new_criteria_registry env)) c"

record raw_criteria_spec =
  raw_Service :: string
  raw_Accelerator :: string
  raw_Intent :: string
  raw_OS :: string
  raw_Platform :: string
  raw_Nodes :: int

definition validate_and_convert_raw_spec :: "lookup \<Rightarrow> raw_criteria_spec \<Rightarrow> criteria res" where
  "validate_and_convert_raw_spec known raw =
     res_bind (parse_into known (err_wrap ErrCodeInvalidRequest ''invalid service in criteria spec'' []) FieldService (raw_Service raw) new_criteria) (\<lambda>c.
     res_bind (parse_into known (err_wrap ErrCodeInvalidRequest ''invalid accelerator in criteria spec'' []) FieldAccelerator (raw_Accelerator raw) c) (\<lambda>c.
     res_bind (parse_into known (err_wrap ErrCodeInvalidRequest ''invalid intent in criteria spec'' []) FieldIntent (raw_Intent raw) c) (\<lambda>c.
     res_bind (parse_into known (err_wrap ErrCodeInvalidRequest ''invalid os in criteria spec'' []) FieldOS (raw_OS raw) c) (\<lambda>c.
     res_bind (parse_into known (err_wrap ErrCodeInvalidRequest ''invalid platform in criteria spec'' []) FieldPlatform (raw_Platform raw) c) (\<lambda>c.
     if raw_Nodes raw < 0 then
       Inl (err_new ErrCodeInvalidRequest ''invalid nodes count: %d (must be >= 0)'' [show_int (raw_Nodes raw)])
     else Inr (c \<lparr>c_Nodes := raw_Nodes raw\<rparr>))))))"

text \<open>
  \<open>fmt.Sscanf(s, "%d", &n)\<close>: skip white space other than a newline, an optional sign, the longest run
  of digits (at least one), and a value that fits an \<open>int64\<close>; what follows the digits is left unread.
\<close>

definition sscanf_d :: "string \<Rightarrow> int option" where
  "sscanf_d s =
     (let lead = takeWhile is_space s; t = dropWhile is_space s;
          neg = (case t of c # _ \<Rightarrow> c = CHR ''-'' | [] \<Rightarrow> False);
          u = (case t of c # r \<Rightarrow> if c = CHR ''-'' \<or> c = CHR ''+'' then r else t | [] \<Rightarrow> []);
          ds = takeWhile is_digit u
      in if CHR 0x0A \<in> set lead \<or> ds = [] then None else atoi (if neg then CHR ''-'' # ds else ds))"

text \<open>\<open>url.Values\<close>: \<open>Get\<close> is the first value of the key, or the empty string.\<close>

type_synonym url_values = "(string \<times> string list) list"

definition url_get :: "url_values \<Rightarrow> string \<Rightarrow> string" where
  "url_get vs key = (case map_of vs key of Some (v # _) \<Rightarrow> v | _ \<Rightarrow> [])"

definition parse_nodes :: "string \<Rightarrow> criteria \<Rightarrow> criteria res" where
  "parse_nodes s c =
     (if s \<noteq> [] then
        (case sscanf_d s of
           None \<Rightarrow> Inl (err_new ErrCodeInvalidRequest ''invalid nodes value: %s'' [s])
         | Some n \<Rightarrow>
             if n < 0 then Inl (err_new ErrCodeInvalidRequest ''invalid nodes count: %d (must be >= 0)'' [show_int n])
             else Inr (c \<lparr>c_Nodes := n\<rparr>))
      else Inr c)"

definition parse_criteria_from_values :: "lookup \<Rightarrow> url_values \<Rightarrow> criteria res" where
  "parse_criteria_from_values known vs =
     (let accel = (if url_get vs ''accelerator'' = [] then url_get vs ''gpu'' else url_get vs ''accelerator'') in
     res_bind (parse_into known (err_wrap ErrCodeInvalidRequest ''invalid service parameter'' []) FieldService (url_get vs ''service'') new_criteria) (\<lambda>c.
     res_bind (parse_into known (err_wrap ErrCodeInvalidRequest ''invalid accelerator parameter'' []) FieldAccelerator accel c) (\<lambda>c.
     res_bind (parse_into known (err_wrap ErrCodeInvalidRequest ''invalid intent parameter'' []) FieldIntent (url_get vs ''intent'') c) (\<lambda>c.
     res_bind (parse_into known (err_wrap ErrCodeInvalidRequest ''invalid os parameter'' []) FieldOS (url_get vs ''os'') c) (\<lambda>c.
     res_bind (parse_into known (err_wrap ErrCodeInvalidRequest ''invalid platform parameter'' []) FieldPlatform (url_get vs ''platform'') c) (\<lambda>c.
     parse_nodes (url_get vs ''nodes'') c))))))"

text \<open>The functional options of \<open>BuildCriteriaWithRegistry\<close>, as data, and their application in order.\<close>

datatype criteria_option = WithField criteria_field string | WithNodes int

definition option_label :: "criteria_field \<Rightarrow> string" where
  "option_label field =
     (case field of
        FieldService \<Rightarrow> ''failed to parse service type'' | FieldAccelerator \<Rightarrow> ''failed to parse accelerator type''
      | FieldIntent \<Rightarrow> ''failed to parse intent type'' | FieldOS \<Rightarrow> ''failed to parse OS type''
      | FieldPlatform \<Rightarrow> ''failed to parse platform type'')"

definition apply_option :: "lookup \<Rightarrow> criteria \<Rightarrow> criteria_option \<Rightarrow> criteria res" where
  "apply_option known c opt =
     (case opt of
        WithField field s \<Rightarrow>
          (case parse_field field known s of
             Inl err \<Rightarrow> Inl (err_wrap ErrCodeInvalidRequest (option_label field) [] err)
           | Inr v \<Rightarrow> Inr (crit_set field v c))
      | WithNodes n \<Rightarrow>
          if n < 0 then Inl (err_new ErrCodeInvalidRequest ''invalid nodes count: %d (must be >= 0)'' [show_int n])
          else Inr (c \<lparr>c_Nodes := n\<rparr>))"

definition build_criteria_with_registry :: "lookup \<Rightarrow> criteria_option list \<Rightarrow> criteria res" where
  "build_criteria_with_registry known opts =
     res_fold (\<lambda>c opt. res_wrap (err_wrap ErrCodeInvalidRequest ''failed to apply criteria option'' [])
                        (apply_option known c opt)) new_criteria opts"

definition RecipeCriteriaKind :: string where "RecipeCriteriaKind = ''RecipeCriteria''"
definition RecipeCriteriaAPIVersion :: string where "RecipeCriteriaAPIVersion = ''aicr.run/v1alpha2''"

text \<open>What every loader does with the decoded document.\<close>

definition accept_raw_criteria :: "lookup \<Rightarrow> string \<Rightarrow> string \<Rightarrow> raw_criteria_spec \<Rightarrow> criteria res" where
  "accept_raw_criteria known kind api_version raw =
     (if kind \<noteq> [] \<and> kind \<noteq> RecipeCriteriaKind then
        Inl (err_new ErrCodeInvalidRequest ''invalid kind %q, expected %q'' [kind, RecipeCriteriaKind])
      else if api_version \<noteq> [] \<and> api_version \<noteq> RecipeCriteriaAPIVersion then
        Inl (err_new ErrCodeInvalidRequest ''invalid apiVersion %q, expected %q'' [api_version, RecipeCriteriaAPIVersion])
      else validate_and_convert_raw_spec known raw)"

datatype body_format = FormatYAML | FormatJSON

definition criteria_body_format :: "string \<Rightarrow> body_format \<times> bool" where
  "criteria_body_format content_type =
     (let ct0 = to_lower (trim_space content_type);
          ct = (if CHR '';'' \<in> set ct0 then trim_space (takeWhile (\<lambda>c. c \<noteq> CHR '';'') ct0) else ct0)
      in if ct \<in> {''application/x-yaml'', ''application/yaml'', ''text/yaml''} then (FormatYAML, True)
         else if ct \<in> {''application/json'', []} then (FormatJSON, True)
         else (FormatJSON, False))"

definition seed_criteria_registry :: "criteria option \<Rightarrow> string \<Rightarrow> criteria_registry \<Rightarrow> criteria_registry" where
  "seed_criteria_registry c source reg =
     (case c of
        None \<Rightarrow> reg
      | Some c \<Rightarrow>
          (let origin = (if source = ''embedded'' then OriginEmbedded else OriginExternal) in
           register FieldPlatform (c_Platform c) origin
             (register FieldOS (c_OS c) origin
               (register FieldIntent (c_Intent c) origin
                 (register FieldAccelerator (c_Accelerator c) origin
                   (register FieldService (c_Service c) origin reg))))))"

subsection \<open>Lemmas over every lookup\<close>

definition arms_of :: "criteria_field \<Rightarrow> (string \<times> string) list" where
  "arms_of field =
     (case field of
        FieldService \<Rightarrow> service_arms | FieldAccelerator \<Rightarrow> accelerator_arms | FieldIntent \<Rightarrow> intent_arms
      | FieldOS \<Rightarrow> os_arms | FieldPlatform \<Rightarrow> platform_arms)"

definition arms_ok :: "(string \<times> string) list \<Rightarrow> bool" where
  "arms_ok arms \<longleftrightarrow>
     list_all (\<lambda>(k, v). map_of arms v = Some v \<and> to_lower (trim_space v) = v \<and> v \<noteq> []) arms \<and>
     map_of arms [] = Some ''any'' \<and> map_of arms ''any'' = Some ''any''"

lemma arms_ok_arms_of: "arms_ok (arms_of f)"
proof -
  have "arms_ok service_arms" "arms_ok accelerator_arms" "arms_ok intent_arms" "arms_ok os_arms" "arms_ok platform_arms"
    by code_simp+
  then show ?thesis by (simp add: arms_of_def split: criteria_field.split)
qed

lemma arms_lookup:
  "map_of (arms_of f) k = Some v \<Longrightarrow> map_of (arms_of f) v = Some v \<and> to_lower (trim_space v) = v \<and> v \<noteq> []"
  using arms_ok_arms_of [of f] by (auto simp: arms_ok_def list_all_iff dest!: map_of_SomeD)

lemma parse_field_arms:
  "\<exists>msg. parse_field f = parse_with_arms (arms_of f) f msg"
  by (cases f) (auto simp: parse_field_defs arms_of_def)

lemma parse_field_Inr:
  "parse_field f known s = Inr v \<longleftrightarrow>
     map_of (arms_of f) (normalize_criteria_value s) = Some v \<or>
     map_of (arms_of f) (normalize_criteria_value s) = None \<and> known f s \<and> v = normalize_criteria_value s"
proof -
  obtain msg where "parse_field f = parse_with_arms (arms_of f) f msg" using parse_field_arms by blast
  then show ?thesis
    by (auto simp: parse_with_arms_def normalize_criteria_value_def split: option.splits)
qed

lemma parse_field_empty [simp]: "parse_field f known [] = Inr ''any''"
proof -
  have "normalize_criteria_value [] = []" by code_simp
  then show ?thesis using arms_ok_arms_of [of f] by (simp add: parse_field_Inr arms_ok_def)
qed

lemma crit_get_set [simp]: "crit_get f (crit_set g v c) = (if f = g then v else crit_get f c)"
  by (cases f; cases g) (simp_all add: crit_get_def crit_set_def)

lemma c_Nodes_crit_set [simp]: "c_Nodes (crit_set f v c) = c_Nodes c"
  by (cases f) (simp_all add: crit_set_def)

lemma crit_set_get [simp]: "crit_set f (crit_get f c) c = c"
  by (cases f) (simp_all add: crit_get_def crit_set_def)

lemma criteria_eqI: "(\<And>f. crit_get f a = crit_get f b) \<Longrightarrow> c_Nodes a = c_Nodes b \<Longrightarrow> a = (b :: criteria)"
proof (rule criteria.equality)
  assume get: "\<And>f. crit_get f a = crit_get f b"
  show "c_Service a = c_Service b" using get [of FieldService] by (simp add: crit_get_def)
  show "c_Accelerator a = c_Accelerator b" using get [of FieldAccelerator] by (simp add: crit_get_def)
  show "c_Intent a = c_Intent b" using get [of FieldIntent] by (simp add: crit_get_def)
  show "c_OS a = c_OS b" using get [of FieldOS] by (simp add: crit_get_def)
  show "c_Platform a = c_Platform b" using get [of FieldPlatform] by (simp add: crit_get_def)
qed simp_all

text \<open>What a guarded block leaves in its field: the old value when the text is empty, else the parsed one.\<close>

definition slot :: "lookup \<Rightarrow> criteria_field \<Rightarrow> string \<Rightarrow> string \<Rightarrow> string \<Rightarrow> bool" where
  "slot known f v old p \<longleftrightarrow> (if v = [] then p = old else parse_field f known v = Inr p)"

lemma parse_into_Inr:
  "parse_into known w f v c = Inr c' \<longleftrightarrow> slot known f v (crit_get f c) (crit_get f c') \<and> c' = crit_set f (crit_get f c') c"
  by (auto simp: parse_into_def slot_def split: sum.splits)

lemma parse_into_slot:
  "parse_into known w f v c = Inr c' \<longleftrightarrow> (\<exists>p. slot known f v (crit_get f c) p \<and> c' = crit_set f p c)"
  unfolding parse_into_Inr by auto

text \<open>Five guarded blocks in a row, one for each field.\<close>

definition parse_all ::
  "lookup \<Rightarrow> (criteria_field \<Rightarrow> go_error \<Rightarrow> go_error) \<Rightarrow> (criteria_field \<Rightarrow> string) \<Rightarrow> criteria \<Rightarrow> criteria res" where
  "parse_all known w vs c =
     res_bind (parse_into known (w FieldService) FieldService (vs FieldService) c) (\<lambda>c.
     res_bind (parse_into known (w FieldAccelerator) FieldAccelerator (vs FieldAccelerator) c) (\<lambda>c.
     res_bind (parse_into known (w FieldIntent) FieldIntent (vs FieldIntent) c) (\<lambda>c.
     res_bind (parse_into known (w FieldOS) FieldOS (vs FieldOS) c) (\<lambda>c.
     parse_into known (w FieldPlatform) FieldPlatform (vs FieldPlatform) c))))"

lemma all_fields: "(\<forall>f. P f) \<longleftrightarrow> P FieldService \<and> P FieldAccelerator \<and> P FieldIntent \<and> P FieldOS \<and> P FieldPlatform"
  by (metis criteria_field.exhaust)

lemma parse_all_Inr:
  "parse_all known w vs c = Inr c' \<longleftrightarrow>
     (\<forall>f. slot known f (vs f) (crit_get f c) (crit_get f c')) \<and> c_Nodes c' = c_Nodes c"
  (is "?L \<longleftrightarrow> ?R")
proof
  assume ?L
  then show ?R by (auto simp: parse_all_def res_simps parse_into_slot all_fields)
next
  assume R: ?R
  have "c' = crit_set FieldPlatform (crit_get FieldPlatform c') (crit_set FieldOS (crit_get FieldOS c')
      (crit_set FieldIntent (crit_get FieldIntent c') (crit_set FieldAccelerator (crit_get FieldAccelerator c')
        (crit_set FieldService (crit_get FieldService c') c))))"
    using R by (intro criteria_eqI) (auto split: criteria_field.split intro: criteria_field.exhaust)
  moreover have "\<And>f. slot known f (vs f) (crit_get f c) (crit_get f c')" using R by blast
  ultimately show ?L
    unfolding parse_all_def res_simps parse_into_slot
    by (intro exI conjI; (assumption | rule refl | simp)?)
qed

subsection \<open>Parsing: canonical results, and one result for all entry points\<close>

context criteria_lookup
begin

lemma parse_canonical:
  assumes "parse_field f known s = Inr v"
  shows "parse_field f known v = Inr v" "normalize_criteria_value v = v" "v \<noteq> []"
    "v = CriteriaAnyValue \<or> v \<in> snd ` set (arms_of f) \<or> known f v"
proof -
  let ?n = "normalize_criteria_value s"
  consider (arm) "map_of (arms_of f) ?n = Some v"
    | (known) "map_of (arms_of f) ?n = None" "known f s" "v = ?n"
    using assms [unfolded parse_field_Inr] by meson
  then have "parse_field f known v = Inr v \<and> normalize_criteria_value v = v \<and> v \<noteq> [] \<and>
      (v = CriteriaAnyValue \<or> v \<in> snd ` set (arms_of f) \<or> known f v)"
  proof cases
    case arm
    then have "v \<in> snd ` set (arms_of f)" by (metis map_of_SomeD image_eqI snd_conv)
    then show ?thesis
      using arms_lookup [OF arm] by (simp add: parse_field_Inr normalize_criteria_value_def)
  next
    case known
    have "v \<noteq> []" using known known_norm [of f s] known_wildcard by auto
    then show ?thesis using known known_norm by (simp add: parse_field_Inr)
  qed
  then show "parse_field f known v = Inr v" "normalize_criteria_value v = v" "v \<noteq> []"
    "v = CriteriaAnyValue \<or> v \<in> snd ` set (arms_of f) \<or> known f v" by simp_all
qed

end

lemma validate_as_parse_all:
  "\<exists>w. validate_with_registry known c = parse_all known w (\<lambda>f. crit_get f c) c"
proof
  let ?w = "\<lambda>f. case f of
      FieldService \<Rightarrow> err_wrap ErrCodeInvalidRequest ''invalid service'' []
    | FieldAccelerator \<Rightarrow> err_wrap ErrCodeInvalidRequest ''invalid accelerator'' []
    | FieldIntent \<Rightarrow> err_wrap ErrCodeInvalidRequest ''invalid intent'' []
    | FieldOS \<Rightarrow> err_wrap ErrCodeInvalidRequest ''invalid os'' []
    | FieldPlatform \<Rightarrow> err_wrap ErrCodeInvalidRequest ''invalid platform'' []"
  have get: "crit_get f (crit_set g v c) = crit_get f c" if "f \<noteq> g" for f g v and c :: criteria
    using that by simp
  have other: "crit_get g c' = crit_get g c" if "parse_into known w f v c = Inr c'" "f \<noteq> g" for w f g v c c'
    using that by (auto simp: parse_into_slot)
  have field: "c_Service c = crit_get FieldService c" "c_Accelerator c = crit_get FieldAccelerator c"
    "c_Intent c = crit_get FieldIntent c" "c_OS c = crit_get FieldOS c" "c_Platform c = crit_get FieldPlatform c" for c
    by (simp_all add: crit_get_def)
  show "validate_with_registry known c = parse_all known ?w (\<lambda>f. crit_get f c) c"
    unfolding validate_with_registry_def parse_all_def field
    by (auto simp: res_bind_def other split: sum.split)
qed

text \<open>
  Validation against any registry the operations can build yields canonical criteria:
  every stated field becomes the value its parser returns, unstated fields and the node count stay,
  and validating the result again changes nothing.
\<close>

theorem validate_canonical:
  assumes "validate_with_registry (has_value (run_registry env evs)) c = Inr c'"
  shows "validate_with_registry (has_value (run_registry env evs)) c' = Inr c' \<and> c_Nodes c' = c_Nodes c \<and>
    (\<forall>f. if crit_get f c = [] then crit_get f c' = []
         else parse_field f (has_value (run_registry env evs)) (crit_get f c) = Inr (crit_get f c'))"
proof -
  let ?k = "has_value (run_registry env evs)"
  obtain w where w: "validate_with_registry ?k c = parse_all ?k w (\<lambda>f. crit_get f c) c"
    using validate_as_parse_all by blast
  then have slots: "\<And>f. slot ?k f (crit_get f c) (crit_get f c) (crit_get f c')" and nodes: "c_Nodes c' = c_Nodes c"
    using assms unfolding w parse_all_Inr by simp_all
  have "slot ?k f (crit_get f c') (crit_get f c') (crit_get f c')" for f
    using slots [of f] run.parse_canonical [of f _ _ "crit_get f c"] by (auto simp: slot_def split: if_splits)
  moreover obtain w' where "validate_with_registry ?k c' = parse_all ?k w' (\<lambda>f. crit_get f c') c'"
    using validate_as_parse_all by blast
  ultimately have "validate_with_registry ?k c' = Inr c'" by (simp add: parse_all_Inr)
  then show ?thesis using slots nodes by (auto simp: slot_def split: if_splits)
qed

lemma validate_canonical_witness:
  "\<exists>c'. validate_with_registry (has_value (run_registry [] []))
          (new_criteria \<lparr>c_Service := '' OpenShift'', c_OS := []\<rparr>) = Inr c' \<and>
        c_Service c' = ''ocp'' \<and> c_OS c' = [] \<and>
        validate_with_registry (has_value (run_registry [] [])) c' = Inr c'"
proof -
  let ?c' = "new_criteria \<lparr>c_Service := ''ocp'', c_OS := []\<rparr>"
  have ok: "validate_with_registry (has_value (run_registry [] []))
      (new_criteria \<lparr>c_Service := '' OpenShift'', c_OS := []\<rparr>) = Inr ?c'"
    by code_simp
  show ?thesis
    using validate_canonical [OF ok] ok by (intro exI [of _ ?c']) simp
qed

definition raw_get :: "criteria_field \<Rightarrow> raw_criteria_spec \<Rightarrow> string" where
  "raw_get field raw =
     (case field of
        FieldService \<Rightarrow> raw_Service raw | FieldAccelerator \<Rightarrow> raw_Accelerator raw | FieldIntent \<Rightarrow> raw_Intent raw
      | FieldOS \<Rightarrow> raw_OS raw | FieldPlatform \<Rightarrow> raw_Platform raw)"

definition accepted :: "lookup \<Rightarrow> (criteria_field \<Rightarrow> string) \<Rightarrow> int \<Rightarrow> criteria \<Rightarrow> bool" where
  "accepted known vs n c \<longleftrightarrow> (\<forall>f. parse_field f known (vs f) = Inr (crit_get f c)) \<and> c_Nodes c = n \<and> 0 \<le> n"

lemma crit_get_new [simp]: "crit_get f new_criteria = ''any''"
  by (simp add: crit_get_def new_criteria_def split: criteria_field.split)

lemma c_Nodes_new [simp]: "c_Nodes new_criteria = 0"
  by (simp add: new_criteria_def)

lemma slot_any: "slot known f v ''any'' p \<longleftrightarrow> parse_field f known v = Inr p"
  by (auto simp: slot_def)

lemma crit_get_nodes [simp]: "crit_get f (c \<lparr>c_Nodes := n\<rparr>) = crit_get f c"
  by (simp add: crit_get_def split: criteria_field.split)

lemma then_nodes:
  "(\<exists>c1. parse_all known w vs new_criteria = Inr c1 \<and> 0 \<le> n \<and> c = c1 \<lparr>c_Nodes := n\<rparr>) \<longleftrightarrow> accepted known vs n c"
proof
  assume "accepted known vs n c"
  then show "\<exists>c1. parse_all known w vs new_criteria = Inr c1 \<and> 0 \<le> n \<and> c = c1 \<lparr>c_Nodes := n\<rparr>"
    by (intro exI [of _ "c \<lparr>c_Nodes := 0\<rparr>"]) (auto simp: parse_all_Inr slot_any accepted_def intro: criteria_eqI)
qed (auto simp: parse_all_Inr slot_any accepted_def)

lemma convert_raw_Inr:
  "validate_and_convert_raw_spec known raw = Inr c \<longleftrightarrow> accepted known (\<lambda>f. raw_get f raw) (raw_Nodes raw) c"
proof -
  let ?w = "\<lambda>f. case f of
      FieldService \<Rightarrow> err_wrap ErrCodeInvalidRequest ''invalid service in criteria spec'' []
    | FieldAccelerator \<Rightarrow> err_wrap ErrCodeInvalidRequest ''invalid accelerator in criteria spec'' []
    | FieldIntent \<Rightarrow> err_wrap ErrCodeInvalidRequest ''invalid intent in criteria spec'' []
    | FieldOS \<Rightarrow> err_wrap ErrCodeInvalidRequest ''invalid os in criteria spec'' []
    | FieldPlatform \<Rightarrow> err_wrap ErrCodeInvalidRequest ''invalid platform in criteria spec'' []"
  have "validate_and_convert_raw_spec known raw =
      res_bind (parse_all known ?w (\<lambda>f. raw_get f raw) new_criteria) (\<lambda>c.
        if raw_Nodes raw < 0 then
          Inl (err_new ErrCodeInvalidRequest ''invalid nodes count: %d (must be >= 0)'' [show_int (raw_Nodes raw)])
        else Inr (c \<lparr>c_Nodes := raw_Nodes raw\<rparr>))"
    by (simp add: validate_and_convert_raw_spec_def parse_all_def raw_get_def res_bind_def split: sum.split)
  then show ?thesis
    unfolding then_nodes [of known ?w, symmetric] by (auto simp: res_simps)
qed

definition url_fields :: "url_values \<Rightarrow> criteria_field \<Rightarrow> string" where
  "url_fields vs field =
     (case field of
        FieldService \<Rightarrow> url_get vs ''service''
      | FieldAccelerator \<Rightarrow> (if url_get vs ''accelerator'' = [] then url_get vs ''gpu'' else url_get vs ''accelerator'')
      | FieldIntent \<Rightarrow> url_get vs ''intent'' | FieldOS \<Rightarrow> url_get vs ''os'' | FieldPlatform \<Rightarrow> url_get vs ''platform'')"

definition url_nodes :: "url_values \<Rightarrow> int option" where
  "url_nodes vs = (if url_get vs ''nodes'' = [] then Some 0 else sscanf_d (url_get vs ''nodes''))"

lemma parse_nodes_Inr:
  "c_Nodes c = 0 \<Longrightarrow> parse_nodes s c = Inr c' \<longleftrightarrow>
     (\<exists>n. (if s = [] then Some 0 else sscanf_d s) = Some n \<and> 0 \<le> n \<and> c' = c \<lparr>c_Nodes := n\<rparr>)"
  by (auto simp: parse_nodes_def not_less split: option.split)

lemma parse_values_Inr:
  "parse_criteria_from_values known vs = Inr c \<longleftrightarrow>
     (\<exists>n. url_nodes vs = Some n \<and> accepted known (url_fields vs) n c)"
proof -
  let ?w = "\<lambda>f. case f of
      FieldService \<Rightarrow> err_wrap ErrCodeInvalidRequest ''invalid service parameter'' []
    | FieldAccelerator \<Rightarrow> err_wrap ErrCodeInvalidRequest ''invalid accelerator parameter'' []
    | FieldIntent \<Rightarrow> err_wrap ErrCodeInvalidRequest ''invalid intent parameter'' []
    | FieldOS \<Rightarrow> err_wrap ErrCodeInvalidRequest ''invalid os parameter'' []
    | FieldPlatform \<Rightarrow> err_wrap ErrCodeInvalidRequest ''invalid platform parameter'' []"
  have eq: "parse_criteria_from_values known vs =
      res_bind (parse_all known ?w (url_fields vs) new_criteria) (parse_nodes (url_get vs ''nodes''))"
    by (simp add: parse_criteria_from_values_def parse_all_def url_fields_def Let_def res_bind_def split: sum.split)
  have nodes: "c_Nodes c1 = 0" if "parse_all known ?w (url_fields vs) new_criteria = Inr c1" for c1
    using that by (simp add: parse_all_Inr)
  show ?thesis
    unfolding then_nodes [of known ?w, symmetric] eq res_simps
    using parse_nodes_Inr [OF nodes] by (auto simp: url_nodes_def)
qed

lemma build_criteria_Inr:
  "build_criteria_with_registry known
     [WithField FieldService (vs FieldService), WithField FieldAccelerator (vs FieldAccelerator),
      WithField FieldIntent (vs FieldIntent), WithField FieldOS (vs FieldOS),
      WithField FieldPlatform (vs FieldPlatform), WithNodes n] = Inr c \<longleftrightarrow> accepted known vs n c"
proof -
  have field: "apply_option known c (WithField f s) = Inr c' \<longleftrightarrow>
      (\<exists>p. parse_field f known s = Inr p \<and> c' = crit_set f p c)" for c f s c'
    by (auto simp: apply_option_def split: sum.splits)
  have nodes: "apply_option known c (WithNodes n) = Inr c' \<longleftrightarrow> 0 \<le> n \<and> c' = c \<lparr>c_Nodes := n\<rparr>" for c c'
    by (auto simp: apply_option_def)
  have fold: "res_fold g c0 (x # xs) = Inr c1 \<longleftrightarrow> (\<exists>c2. g c0 x = Inr c2 \<and> res_fold g c2 xs = Inr c1)"
    for g :: "criteria \<Rightarrow> criteria_option \<Rightarrow> criteria res" and c0 c1 x xs
    by (auto split: sum.split)
  show ?thesis (is "?L \<longleftrightarrow> ?R")
  proof
    assume ?L
    then show ?R
      unfolding build_criteria_with_registry_def fold res_wrap_Inr field nodes
      by (auto simp: accepted_def all_fields)
  next
    assume R: ?R
    have "c = (crit_set FieldPlatform (crit_get FieldPlatform c) (crit_set FieldOS (crit_get FieldOS c)
      (crit_set FieldIntent (crit_get FieldIntent c) (crit_set FieldAccelerator (crit_get FieldAccelerator c)
        (crit_set FieldService (crit_get FieldService c) new_criteria))))) \<lparr>c_Nodes := n\<rparr>"
      using R by (intro criteria_eqI) (auto simp: accepted_def split: criteria_field.split intro: criteria_field.exhaust)
    moreover have "\<And>f. parse_field f known (vs f) = Inr (crit_get f c)" "0 \<le> n"
      using R by (simp_all add: accepted_def)
    ultimately show ?L
      unfolding build_criteria_with_registry_def fold res_wrap_Inr field nodes
      by (intro exI conjI; (assumption | rule refl | simp)?)
  qed
qed

text \<open>
  A body, a query string and the command line's options give the same criteria. Whenever they
  state the same five texts and the same node count, the three entry points accept exactly the same
  inputs and build the same \<open>Criteria\<close>; in particular an empty field means \<open>any\<close> in all of
  them, and a negative node count is refused by all of them.
\<close>

theorem entry_points_agree:
  assumes "\<And>f. raw_get f raw = url_fields vs f" "url_nodes vs = Some (raw_Nodes raw)"
  shows "let opts = map (\<lambda>f. WithField f (raw_get f raw))
             [FieldService, FieldAccelerator, FieldIntent, FieldOS, FieldPlatform] @ [WithNodes (raw_Nodes raw)] in
     (validate_and_convert_raw_spec known raw = Inr c \<longleftrightarrow> parse_criteria_from_values known vs = Inr c) \<and>
     (validate_and_convert_raw_spec known raw = Inr c \<longleftrightarrow> build_criteria_with_registry known opts = Inr c)"
proof -
  have "(\<lambda>f. raw_get f raw) = url_fields vs" using assms(1) by (simp add: fun_eq_iff)
  then show ?thesis
    using assms(2) build_criteria_Inr [of known "\<lambda>f. raw_get f raw" "raw_Nodes raw" c]
    by (simp add: convert_raw_Inr parse_values_Inr)
qed

lemma entry_points_agree_witness:
  "parse_criteria_from_values (has_value (run_registry [] [])) [(''gpu'', [''H100'']), (''nodes'', [''8''])]
     = Inr (new_criteria \<lparr>c_Accelerator := ''h100'', c_Nodes := 8\<rparr>)"
proof -
  let ?raw = "\<lparr>raw_Service = [], raw_Accelerator = ''H100'', raw_Intent = [], raw_OS = [], raw_Platform = [], raw_Nodes = 8\<rparr>"
  let ?vs = "[(''gpu'', [''H100'']), (''nodes'', [''8''])]"
  have "validate_and_convert_raw_spec (has_value (run_registry [] [])) ?raw
      = Inr (new_criteria \<lparr>c_Accelerator := ''h100'', c_Nodes := 8\<rparr>)"
    by code_simp
  moreover have "raw_get f ?raw = url_fields ?vs f" for f
    by (cases f) (simp_all add: raw_get_def url_fields_def url_get_def)
  moreover have "url_nodes ?vs = Some (raw_Nodes ?raw)" by code_simp
  ultimately show ?thesis
    using entry_points_agree [of ?raw ?vs "has_value (run_registry [] [])"] by (metis (no_types, lifting))
qed

text \<open>
  The query parameter \<open>nodes\<close> is read by \<open>Sscanf\<close>, which stops at the first byte that is no digit
  and reports no error for the rest: \<open>nodes=8abc\<close> is accepted as eight nodes and
  \<open>nodes=1.5\<close> as one, although the same texts are refused as node counts in a body.
\<close>

theorem nodes_parameter_ignores_trailing_text:
  "parse_criteria_from_values known [(''nodes'', [''8abc''])] = Inr (new_criteria \<lparr>c_Nodes := 8\<rparr>) \<and>
   parse_criteria_from_values known [(''nodes'', [''1.5''])] = Inr (new_criteria \<lparr>c_Nodes := 1\<rparr>)"
proof -
  have "sscanf_d ''8abc'' = Some 8" "sscanf_d ''1.5'' = Some 1" by code_simp+
  then show ?thesis
    by (simp add: parse_criteria_from_values_def url_get_def parse_into_def parse_nodes_def)
qed

subsection \<open>Matching and specificity\<close>

lemma matches_criteria_field_iff: "matches_criteria_field r q \<longleftrightarrow> (stated r \<longrightarrow> q = r)"
  by (auto simp: matches_criteria_field_def stated_def Let_def)

lemma matches_iff:
  "matches (Some c) (Some q) \<longleftrightarrow> (\<forall>f. stated (crit_get f c) \<longrightarrow> crit_get f q = crit_get f c)"
  unfolding all_fields
  by (simp add: matches_def matches_criteria_field_iff crit_get_def)

definition stated_fields :: "criteria \<Rightarrow> criteria_field set" where
  "stated_fields c = {f. stated (crit_get f c)}"

lemma UNIV_fields: "(UNIV :: criteria_field set) = {FieldService, FieldAccelerator, FieldIntent, FieldOS, FieldPlatform}"
  using criteria_field.exhaust by blast

lemma finite_fields [simp]: "finite (A :: criteria_field set)"
  by (rule finite_subset [OF subset_UNIV]) (simp add: UNIV_fields)

lemma specificity_card: "specificity c = card (stated_fields c) + (if c_Nodes c \<noteq> 0 then 1 else 0)"
proof -
  have "card (stated_fields c) = (\<Sum>f \<in> UNIV. if stated (crit_get f c) then 1 else 0)"
    by (simp add: stated_fields_def sum.If_cases)
  then show ?thesis by (simp add: UNIV_fields specificity_def crit_get_def)
qed

lemma matches_stated: "matches (Some c) (Some q) \<Longrightarrow> stated_fields c \<subseteq> stated_fields q"
  by (auto simp: matches_iff stated_fields_def)

text \<open>
  An overlay's criteria match a query exactly when the query repeats every field the overlay
  states. Matching is a preorder, and along it the set of stated fields grows: without node counts the
  specificity never drops, and two criteria of equal specificity that match state the same values.
\<close>

theorem matching_orders_by_specificity:
  "matches (Some a) (Some a) \<and>
   (matches (Some a) (Some b) \<and> matches (Some b) (Some q) \<longrightarrow> matches (Some a) (Some q)) \<and>
   (matches (Some a) (Some b) \<longleftrightarrow> (\<forall>f. stated (crit_get f a) \<longrightarrow> crit_get f b = crit_get f a)) \<and>
   (matches (Some a) (Some b) \<and> c_Nodes a = c_Nodes b \<longrightarrow>
      specificity a \<le> specificity b \<and>
      (specificity a = specificity b \<longrightarrow> matches (Some b) (Some a)))"
proof (intro conjI impI)
  show "matches (Some a) (Some a)" by (simp add: matches_iff)
  show "matches (Some a) (Some q)" if "matches (Some a) (Some b) \<and> matches (Some b) (Some q)"
    using that by (auto simp: matches_iff)
  show "matches (Some a) (Some b) \<longleftrightarrow> (\<forall>f. stated (crit_get f a) \<longrightarrow> crit_get f b = crit_get f a)"
    by (rule matches_iff)
  assume ab: "matches (Some a) (Some b) \<and> c_Nodes a = c_Nodes b"
  then have sub: "stated_fields a \<subseteq> stated_fields b" using matches_stated by blast
  then show "specificity a \<le> specificity b"
    using ab by (simp add: specificity_card card_mono)
  assume "specificity a = specificity b"
  then have "stated_fields a = stated_fields b"
    using ab sub by (simp add: specificity_card card_subset_eq)
  then show "matches (Some b) (Some a)"
    using ab by (auto simp: matches_iff stated_fields_def)
qed

lemma matching_orders_by_specificity_witness:
  "specificity (new_criteria \<lparr>c_Service := ''eks''\<rparr>)
     \<le> specificity (new_criteria \<lparr>c_Service := ''eks'', c_Intent := ''training''\<rparr>)"
proof -
  have "matches (Some (new_criteria \<lparr>c_Service := ''eks''\<rparr>))
      (Some (new_criteria \<lparr>c_Service := ''eks'', c_Intent := ''training''\<rparr>))" by code_simp
  then show ?thesis
    using matching_orders_by_specificity [of "new_criteria \<lparr>c_Service := ''eks''\<rparr>"
        "new_criteria \<lparr>c_Service := ''eks'', c_Intent := ''training''\<rparr>"] by simp
qed

subsection \<open>Overlays make their own criteria valid\<close>

lemma has_value_register:
  "\<not> reg_strict r \<Longrightarrow>
   has_value (register f v origin r) g w \<longleftrightarrow>
     has_value r g w \<or>
     (f = g \<and> normalize_criteria_value w = normalize_criteria_value v \<and> normalize_criteria_value v \<notin> {[], CriteriaAnyValue})"
  by (auto simp: has_value_bucket map_of_bucket_register)

lemma seed_not_strict [simp]: "reg_strict (seed_criteria_registry c source r) = reg_strict r"
  by (simp add: seed_criteria_registry_def Let_def split: option.split)

lemma has_value_seed:
  assumes "\<not> reg_strict r"
  shows "has_value (seed_criteria_registry (Some c) source r) f (crit_get f c) \<or>
         normalize_criteria_value (crit_get f c) \<in> {[], CriteriaAnyValue}"
  using assms by (cases f) (auto simp: seed_criteria_registry_def Let_def has_value_register crit_get_def)

text \<open>
  After an overlay was loaded its own criteria are valid input: outside strict mode, a registry
  seeded from the overlay accepts every field the overlay states, wherever the overlay came from.
\<close>

theorem seeded_criteria_validate:
  assumes "\<not> is_strict r"
  shows "is_ok (validate_with_registry (has_value (seed_criteria_registry (Some c) source r)) c)"
proof -
  let ?k = "has_value (seed_criteria_registry (Some c) source r)"
  have ok: "\<exists>p. slot ?k f (crit_get f c) (crit_get f c) p" for f
  proof (cases "normalize_criteria_value (crit_get f c) \<in> {[], CriteriaAnyValue}")
    case True
    then have "map_of (arms_of f) (normalize_criteria_value (crit_get f c)) = Some ''any''"
      using arms_ok_arms_of [of f] by (auto simp: arms_ok_def CriteriaAnyValue_def)
    then show ?thesis by (auto simp: slot_def parse_field_Inr)
  next
    case False
    then have "?k f (crit_get f c)" using has_value_seed assms by (auto simp: is_strict_def)
    then show ?thesis
      by (cases "map_of (arms_of f) (normalize_criteria_value (crit_get f c))") (auto simp: slot_def parse_field_Inr)
  qed
  obtain p where p: "\<And>f. slot ?k f (crit_get f c) (crit_get f c) (p f)" using ok by metis
  let ?c' = "\<lparr>c_Service = p FieldService, c_Accelerator = p FieldAccelerator, c_Intent = p FieldIntent,
      c_OS = p FieldOS, c_Platform = p FieldPlatform, c_Nodes = c_Nodes c\<rparr>"
  have "crit_get f ?c' = p f" for f by (simp add: crit_get_def split: criteria_field.split)
  moreover obtain w where w: "validate_with_registry ?k c = parse_all ?k w (\<lambda>f. crit_get f c) c"
    using validate_as_parse_all by blast
  ultimately have "validate_with_registry ?k c = Inr ?c'"
    using p unfolding w parse_all_Inr by simp
  then show ?thesis by simp
qed

lemma seeded_criteria_validate_witness:
  "is_ok (validate_with_registry
     (has_value (seed_criteria_registry (Some (new_criteria \<lparr>c_Service := ''secret-cloud''\<rparr>)) ''external''
        \<lparr>reg_values = [], reg_strict = False\<rparr>))
     (new_criteria \<lparr>c_Service := ''secret-cloud''\<rparr>))"
  by (rule seeded_criteria_validate) (simp add: is_strict_def)

text \<open>
  \<open>String\<close> treats only \<open>any\<close> as unset, so a field that YAML left out prints as stated with an
  empty value, while matching and specificity treat it as \<open>any\<close>: criteria of specificity one
  print five fields.
\<close>

theorem criteria_string_prints_unset_fields:
  "let c = new_criteria \<lparr>c_Service := ''eks'', c_Accelerator := [], c_Intent := [], c_OS := [], c_Platform := []\<rparr> in
     specificity c = 1 \<and> matches (Some c) (Some (new_criteria \<lparr>c_Service := ''eks''\<rparr>)) \<and>
     criteria_string c = ''criteria(service=eks, accelerator=, intent=, os=, platform=)''"
  by code_simp

end
