(* ===== verification/Spec_Merge.thy ===== *)
theory Spec_Merge
  imports Validation_Phase Criteria
begin

section \<open>Recipe specifications and their merge (pkg/recipe/metadata.go)\<close>

text \<open>
  \<open>merge_spec s other\<close> is \<open>(*RecipeMetadataSpec).Merge\<close>, with the updated receiver as its result. Constraints and
  components go through a Go map keyed by name, which the code lists in an arbitrary order and then
  sorts by name; the contract of that scheme is the locale \<open>keyed_merge\<close>, interpreted for both.
\<close>

record profile_component_ref =
  pc_Name :: string
  pc_Overrides :: "value_map option"

record profile_value =
  pv_Advertiser :: string
  pv_Constraints :: "constraint list"
  pv_ComponentRefs :: "profile_component_ref list"

record profile_declaration =
  pd_Name :: string
  pd_Description :: string
  pd_Default :: string
  pd_Values :: "(string \<times> profile_value) list"

record recipe_metadata_spec =
  rs_Base :: string
  rs_Criteria :: "criteria option"
  rs_Mixins :: "string list"
  rs_Constraints :: "constraint list"
  rs_ComponentRefs :: "component_ref list"
  rs_Validation :: "validation_config option"
  rs_Profile :: "profile_declaration option"

record recipe_mixin =
  mx_Kind :: string
  mx_APIVersion :: string
  mx_Name :: string
  mx_Constraints :: "constraint list"
  mx_ComponentRefs :: "component_ref list"

record recipe_metadata =
  rm_Kind :: string
  rm_APIVersion :: string
  rm_Name :: string
  rm_Spec :: recipe_metadata_spec

definition empty_spec :: recipe_metadata_spec where
  "empty_spec =
     \<lparr>rs_Base = [], rs_Criteria = None, rs_Mixins = [], rs_Constraints = [], rs_ComponentRefs = [],
      rs_Validation = None, rs_Profile = None\<rparr>"

subsection \<open>Merging through a map keyed by name\<close>

definition index_by :: "('a \<Rightarrow> 'k) \<Rightarrow> 'a list \<Rightarrow> ('k \<times> 'a) list" where
  "index_by key xs = foldl (\<lambda>m x. upsert (key x) x m) [] xs"

definition merge_entries :: "('a \<Rightarrow> 'k) \<Rightarrow> ('a \<Rightarrow> 'a \<Rightarrow> 'a) \<Rightarrow> 'a list \<Rightarrow> ('k \<times> 'a) list \<Rightarrow> ('k \<times> 'a) list" where
  "merge_entries key mrg ys m0 =
     foldl (\<lambda>m y. upsert (key y) (case map_of m (key y) of Some b \<Rightarrow> mrg b y | None \<Rightarrow> y) m) m0 ys"

definition merge_lists :: "('a \<Rightarrow> 'k::linorder) \<Rightarrow> ('a \<Rightarrow> 'a \<Rightarrow> 'a) \<Rightarrow> 'a list \<Rightarrow> 'a list \<Rightarrow> 'a list" where
  "merge_lists key mrg xs ys = sort_key key (map snd (merge_entries key mrg ys (index_by key xs)))"

definition by_key :: "('a \<Rightarrow> 'k) \<Rightarrow> 'a list \<Rightarrow> 'k \<Rightarrow> 'a option" where
  "by_key key xs k = find (\<lambda>x. key x = k) xs"

lemma by_key_Some: "by_key key xs k = Some x \<Longrightarrow> key x = k \<and> x \<in> set xs"
  by (auto simp: by_key_def dest: find_SomeD)

lemma by_key_append: "by_key key (xs @ ys) k = (case by_key key xs k of None \<Rightarrow> by_key key ys k | Some x \<Rightarrow> Some x)"
  by (induction xs) (auto simp: by_key_def)

lemma by_key_Cons: "by_key key (x # xs) k = (if key x = k then Some x else by_key key xs k)"
  by (simp add: by_key_def)

lemma by_key_Nil [simp]: "by_key key [] k = None"
  by (simp add: by_key_def)

lemma by_key_None: "by_key key xs k = None \<longleftrightarrow> k \<notin> key ` set xs"
  by (auto simp: by_key_def find_None_iff)

lemma by_key_distinct: "distinct (map key xs) \<Longrightarrow> x \<in> set xs \<Longrightarrow> by_key key xs (key x) = Some x"
  by (induction xs) (auto simp: by_key_def)

lemma by_key_map_of:
  assumes "\<forall>(k, v) \<in> set m. key v = k"
  shows "by_key key (map snd m) k = map_of m k"
  using assms by (induction m) (auto simp: by_key_def)

lemma by_key_mset:
  assumes "distinct (map key xs)" "mset ys = mset xs"
  shows "by_key key ys k = by_key key xs k"
proof (cases "by_key key xs k")
  case None
  then show ?thesis using assms(2) by (metis by_key_None mset_eq_setD)
next
  case (Some x)
  have "distinct (map key ys)" using assms by (metis mset_map mset_eq_imp_distinct_iff)
  moreover have "key x = k" "x \<in> set ys" using by_key_Some [OF Some] mset_eq_setD [OF assms(2)] by auto
  ultimately show ?thesis using Some by_key_distinct by metis
qed

definition keyed :: "('a \<Rightarrow> 'k) \<Rightarrow> ('k \<times> 'a) list \<Rightarrow> bool" where
  "keyed key m \<longleftrightarrow> distinct (map fst m) \<and> (\<forall>(k, v) \<in> set m. key v = k)"

lemma keyed_upsert: "keyed key m \<Longrightarrow> key v = k \<Longrightarrow> keyed key (upsert k v m)"
  using set_upsert_subset [of k v m] by (auto simp: keyed_def distinct_upsert)

lemma keyed_index_by: "keyed key (index_by key xs)"
  by (induction xs rule: rev_induct) (simp_all add: index_by_def keyed_upsert, simp add: keyed_def)

lemma map_of_index_by: "distinct (map key xs) \<Longrightarrow> map_of (index_by key xs) k = by_key key xs k"
proof (induction xs rule: rev_induct)
  case (snoc x xs)
  then have "by_key key xs (key x) = None" by (simp add: by_key_None)
  with snoc show ?case
    by (auto simp: index_by_def by_key_append by_key_Cons split: option.split)
qed (simp add: index_by_def)

lemma keyed_map_snd: "keyed key m \<Longrightarrow> map key (map snd m) = map fst m"
  by (auto simp: keyed_def)

lemma keyed_distinct_snd: "keyed key m \<Longrightarrow> distinct (map key (map snd m))"
  by (simp only: keyed_map_snd) (simp add: keyed_def)

lemma keyed_by_key: "keyed key m \<Longrightarrow> by_key key (map snd m) k = map_of m k"
  by (rule by_key_map_of) (simp add: keyed_def)

locale keyed_merge =
  fixes key :: "'a \<Rightarrow> 'k::linorder" and mrg :: "'a \<Rightarrow> 'a \<Rightarrow> 'a"
  assumes key_mrg: "key x = key y \<Longrightarrow> key (mrg x y) = key x"
begin

lemma keyed_merge_entries: "keyed key m \<Longrightarrow> keyed key (merge_entries key mrg ys m)"
proof (induction ys rule: rev_induct)
  case (snoc y ys)
  let ?m = "merge_entries key mrg ys m"
  have m: "keyed key ?m" using snoc by blast
  then have "key b = key y" if "map_of ?m (key y) = Some b" for b
    using map_of_SomeD [OF that] by (auto simp: keyed_def)
  then have "key (case map_of ?m (key y) of Some b \<Rightarrow> mrg b y | None \<Rightarrow> y) = key y"
    using key_mrg by (auto split: option.split)
  then show ?case using m keyed_upsert by (simp add: merge_entries_def)
qed (simp add: merge_entries_def)

lemma map_of_merge_entries:
  assumes "distinct (map key ys)"
  shows "map_of (merge_entries key mrg ys m) k =
    (case by_key key ys k of
       None \<Rightarrow> map_of m k
     | Some y \<Rightarrow> Some (case map_of m k of Some b \<Rightarrow> mrg b y | None \<Rightarrow> y))"
  using assms
proof (induction ys rule: rev_induct)
  case (snoc y ys)
  then have "key y \<notin> key ` set ys" by auto
  then have fresh: "by_key key ys (key y) = None" by (simp add: by_key_None)
  have "by_key key (ys @ [y]) k = (if key y = k then Some y else by_key key ys k)"
    using fresh by (auto simp: by_key_append by_key_Cons split: option.split)
  then show ?case
    using snoc fresh by (auto simp: merge_entries_def split: option.split)
qed (simp add: merge_entries_def)

lemma keyed_merged: "keyed key (merge_entries key mrg ys (index_by key xs))"
  by (rule keyed_merge_entries [OF keyed_index_by])

lemma merge_lists_sorted: "sorted (map key (merge_lists key mrg xs ys))"
  by (simp add: merge_lists_def)

lemma merge_lists_distinct: "distinct (map key (merge_lists key mrg xs ys))"
proof -
  have "mset (map key (merge_lists key mrg xs ys)) = mset (map key (map snd (merge_entries key mrg ys (index_by key xs))))"
    unfolding merge_lists_def mset_map by simp
  then show ?thesis using keyed_distinct_snd [OF keyed_merged] mset_eq_imp_distinct_iff by blast
qed

lemma merge_lists_lookup:
  assumes "distinct (map key xs)" "distinct (map key ys)"
  shows "by_key key (merge_lists key mrg xs ys) k =
    (case by_key key ys k of
       None \<Rightarrow> by_key key xs k
     | Some y \<Rightarrow> Some (case by_key key xs k of Some x \<Rightarrow> mrg x y | None \<Rightarrow> y))"
proof -
  let ?m = "merge_entries key mrg ys (index_by key xs)"
  have "by_key key (merge_lists key mrg xs ys) k = by_key key (map snd ?m) k"
    by (rule by_key_mset [OF keyed_distinct_snd [OF keyed_merged]]) (simp add: merge_lists_def)
  also have "\<dots> = map_of ?m k" by (rule keyed_by_key [OF keyed_merged])
  finally show ?thesis
    unfolding map_of_merge_entries [OF assms(2)] map_of_index_by [OF assms(1)] .
qed

text \<open>The order in which the program ranges over the map does not matter.\<close>

lemma merge_lists_order:
  assumes "mset listing = mset (map snd (merge_entries key mrg ys (index_by key xs)))"
  shows "sort_key key listing = merge_lists key mrg xs ys"
  unfolding merge_lists_def
proof (rule sort_key_unique [OF _ assms])
  have "inj_on key (set (map snd (merge_entries key mrg ys (index_by key xs))))"
    using keyed_distinct_snd [OF keyed_merged] by (simp only: distinct_map)
  then show "inj_on key (set listing)"
    using mset_eq_setD [OF assms] by simp
qed

lemma merge_lists_keys:
  assumes "distinct (map key xs)" "distinct (map key ys)"
  shows "key ` set (merge_lists key mrg xs ys) = key ` set xs \<union> key ` set ys"
proof (intro set_eqI)
  fix k
  have "k \<in> key ` set (merge_lists key mrg xs ys) \<longleftrightarrow> by_key key (merge_lists key mrg xs ys) k \<noteq> None"
    by (simp add: by_key_None)
  then show "k \<in> key ` set (merge_lists key mrg xs ys) \<longleftrightarrow> k \<in> key ` set xs \<union> key ` set ys"
    using by_key_None [of key xs k] by_key_None [of key ys k]
    by (auto simp: merge_lists_lookup [OF assms] split: option.splits)
qed

lemma keys_merge_entries: "fst ` set (merge_entries key mrg ys m) = fst ` set m \<union> key ` set ys"
  by (induction ys rule: rev_induct) (auto simp: merge_entries_def)

lemma keys_index_by: "fst ` set (index_by key xs) = key ` set xs"
  by (induction xs rule: rev_induct) (auto simp: index_by_def)

lemma merge_lists_all_keys: "key ` set (merge_lists key mrg xs ys) = key ` set xs \<union> key ` set ys"
proof -
  let ?m = "merge_entries key mrg ys (index_by key xs)"
  have "key ` set (merge_lists key mrg xs ys) = set (map key (map snd ?m))"
    unfolding merge_lists_def set_map set_sort by simp
  also have "\<dots> = fst ` set ?m"
    unfolding keyed_map_snd [OF keyed_merged] by simp
  finally show ?thesis by (simp add: keys_merge_entries keys_index_by)
qed

lemma merge_lists_by_key: "by_key key (merge_lists key mrg xs ys) k = map_of (merge_entries key mrg ys (index_by key xs)) k"
  unfolding keyed_by_key [OF keyed_merged, symmetric]
  by (rule by_key_mset [OF keyed_distinct_snd [OF keyed_merged]]) (simp add: merge_lists_def)

text \<open>What the merge does to the entry of one key is a relation that each single merge respects.\<close>

lemma merge_lists_relates:
  assumes "distinct (map key xs)" "by_key key xs k = Some x" "R x x"
    and step: "\<And>u y. y \<in> set ys \<Longrightarrow> key y = k \<Longrightarrow> key u = k \<Longrightarrow> R x u \<Longrightarrow> R x (mrg u y)"
  shows "\<exists>z. by_key key (merge_lists key mrg xs ys) k = Some z \<and> R x z"
proof -
  let ?m = "index_by key xs"
  have "\<exists>z. map_of (merge_entries key mrg ys ?m) k = Some z \<and> key z = k \<and> R x z"
    using step
  proof (induction ys rule: rev_induct)
    case Nil
    then show ?case using assms(1-3) by_key_Some [OF assms(2)] by (simp add: merge_entries_def map_of_index_by)
  next
    case (snoc y ys)
    then obtain z where z: "map_of (merge_entries key mrg ys ?m) k = Some z" "key z = k" "R x z" by force
    show ?case
    proof (cases "key y = k")
      case True
      then have "R x (mrg z y)" "key (mrg z y) = k" using snoc.prems [of y z] z key_mrg by auto
      then show ?thesis using True z by (auto simp: merge_entries_def)
    next
      case False
      then show ?thesis using z by (auto simp: merge_entries_def)
    qed
  qed
  then show ?thesis by (auto simp: merge_lists_by_key)
qed

end

subsection \<open>Components\<close>

definition override_list :: "'a list \<Rightarrow> 'a list \<Rightarrow> 'a list" where
  "override_list base overlay = (if length overlay > 0 then overlay else base)"

definition merge_overrides :: "value_map option \<Rightarrow> value_map option \<Rightarrow> value_map option" where
  "merge_overrides base overlay =
     (case overlay of
        Some (e # es) \<Rightarrow> Some (deep_merge (case base of None \<Rightarrow> [] | Some m \<Rightarrow> m) (e # es))
      | _ \<Rightarrow> base)"

definition merge_component_ref :: "component_ref \<Rightarrow> component_ref \<Rightarrow> component_ref" where
  "merge_component_ref base overlay =
     base
       \<lparr>cr_Namespace := override_string (cr_Namespace base) (cr_Namespace overlay),
        cr_Chart := override_string (cr_Chart base) (cr_Chart overlay),
        cr_Type := override_string (cr_Type base) (cr_Type overlay),
        cr_Source := override_string (cr_Source base) (cr_Source overlay),
        cr_Version := override_string (cr_Version base) (cr_Version overlay),
        cr_Tag := override_string (cr_Tag base) (cr_Tag overlay),
        cr_ValuesFile := override_string (cr_ValuesFile base) (cr_ValuesFile overlay),
        cr_Overrides := merge_overrides (cr_Overrides base) (cr_Overrides overlay),
        cr_Patches := override_list (cr_Patches base) (cr_Patches overlay),
        cr_DependencyRefs := append_new (cr_DependencyRefs base) (cr_DependencyRefs overlay),
        cr_ManifestFiles := append_new (cr_ManifestFiles base) (cr_ManifestFiles overlay),
        cr_PreManifestFiles := append_new (cr_PreManifestFiles base) (cr_PreManifestFiles overlay),
        cr_Path := override_string (cr_Path base) (cr_Path overlay),
        cr_Cleanup := (if cr_Cleanup overlay then cr_Cleanup overlay else cr_Cleanup base),
        cr_ExpectedResources := override_list (cr_ExpectedResources base) (cr_ExpectedResources overlay),
        cr_HealthCheckAsserts := override_string (cr_HealthCheckAsserts base) (cr_HealthCheckAsserts overlay),
        cr_HealthCheckSkip := (if cr_HealthCheckSkip overlay then True else cr_HealthCheckSkip base)\<rparr>"

definition replace_constraint :: "constraint \<Rightarrow> constraint \<Rightarrow> constraint" where
  "replace_constraint base overlay = overlay"

definition merge_spec :: "recipe_metadata_spec \<Rightarrow> recipe_metadata_spec option \<Rightarrow> recipe_metadata_spec" where
  "merge_spec s other =
     (case other of
        None \<Rightarrow> s
      | Some ov \<Rightarrow>
          s \<lparr>rs_Constraints := merge_lists co_Name replace_constraint (rs_Constraints s) (rs_Constraints ov),
             rs_ComponentRefs := merge_lists cr_Name merge_component_ref (rs_ComponentRefs s) (rs_ComponentRefs ov),
             rs_Validation := merge_validation (rs_Validation s) (rs_Validation ov),
             rs_Mixins := append_new (rs_Mixins s) (rs_Mixins ov)\<rparr>)"

lemma cr_Name_merge [simp]: "cr_Name (merge_component_ref b ov) = cr_Name b"
  by (simp add: merge_component_ref_def)

interpretation components: keyed_merge cr_Name merge_component_ref
  by unfold_locales simp

interpretation constraints: keyed_merge co_Name replace_constraint
  by unfold_locales (simp add: replace_constraint_def)

lemma cr_DependencyRefs_merge [simp]:
  "cr_DependencyRefs (merge_component_ref b ov) = append_new (cr_DependencyRefs b) (cr_DependencyRefs ov)"
  by (simp add: merge_component_ref_def)

lemma cr_Overrides_merge [simp]:
  "cr_Overrides (merge_component_ref b ov) = merge_overrides (cr_Overrides b) (cr_Overrides ov)"
  by (simp add: merge_component_ref_def)

definition spec_wf :: "recipe_metadata_spec \<Rightarrow> bool" where
  "spec_wf s \<longleftrightarrow> distinct (map co_Name (rs_Constraints s)) \<and> distinct (map cr_Name (rs_ComponentRefs s))"

lemma spec_wf_merge: "spec_wf s \<Longrightarrow> spec_wf (merge_spec s other)"
  by (auto simp: merge_spec_def spec_wf_def components.merge_lists_distinct constraints.merge_lists_distinct
      split: option.split)

lemma component_names_merge:
  "spec_wf s \<Longrightarrow> spec_wf ov \<Longrightarrow>
   cr_Name ` set (rs_ComponentRefs (merge_spec s (Some ov))) =
     cr_Name ` set (rs_ComponentRefs s) \<union> cr_Name ` set (rs_ComponentRefs ov)"
  by (simp add: merge_spec_def spec_wf_def components.merge_lists_keys)

lemma constraints_lookup:
  assumes "distinct (map co_Name xs)"
  shows "by_key co_Name (merge_lists co_Name replace_constraint xs ys) k =
     (case by_key co_Name (rev ys) k of Some y \<Rightarrow> Some y | None \<Rightarrow> by_key co_Name xs k)"
proof -
  have "map_of (merge_entries co_Name replace_constraint ys m) k =
      (case by_key co_Name (rev ys) k of Some y \<Rightarrow> Some y | None \<Rightarrow> map_of m k)" for m
    by (induction ys rule: rev_induct)
      (auto simp: merge_entries_def replace_constraint_def by_key_Cons split: option.splits)
  then show ?thesis unfolding constraints.merge_lists_by_key map_of_index_by [OF assms, symmetric] .
qed

lemma constraint_names_merge:
  "co_Name ` set (rs_Constraints (merge_spec s (Some ov))) = co_Name ` set (rs_Constraints s) \<union> co_Name ` set (rs_Constraints ov)"
  by (simp add: merge_spec_def constraints.merge_lists_all_keys)

text \<open>
  Property C5: merging an overlay into a specification keeps one constraint and one component per name, sorted
  by name: the overlay's constraint replaces the inherited one, the overlay's component is merged
  field by field into the inherited one, and everything the overlay does not name stays as it was.
\<close>

theorem merge_spec_by_name:
  assumes "spec_wf s" "spec_wf ov"
  shows "let m = merge_spec s (Some ov) in
     spec_wf m \<and> sorted (map co_Name (rs_Constraints m)) \<and> sorted (map cr_Name (rs_ComponentRefs m)) \<and>
     (\<forall>n. by_key co_Name (rs_Constraints m) n =
            (case by_key co_Name (rs_Constraints ov) n of
               Some c \<Rightarrow> Some c | None \<Rightarrow> by_key co_Name (rs_Constraints s) n)) \<and>
     (\<forall>n. by_key cr_Name (rs_ComponentRefs m) n =
            (case (by_key cr_Name (rs_ComponentRefs s) n, by_key cr_Name (rs_ComponentRefs ov) n) of
               (Some b, Some c) \<Rightarrow> Some (merge_component_ref b c)
             | (None, Some c) \<Rightarrow> Some c
             | (b, None) \<Rightarrow> b)) \<and>
     rs_Mixins m = append_new (rs_Mixins s) (rs_Mixins ov)"
proof -
  have "spec_wf (merge_spec s (Some ov))" using spec_wf_merge [OF assms(1)] .
  then show ?thesis
    using assms
    by (auto simp: merge_spec_def spec_wf_def Let_def components.merge_lists_sorted constraints.merge_lists_sorted
        components.merge_lists_lookup constraints.merge_lists_lookup replace_constraint_def split: option.split)
qed

lemma merge_spec_by_name_witness:
  "by_key cr_Name (rs_ComponentRefs (merge_spec
       (empty_spec \<lparr>rs_ComponentRefs := [(empty_ref ''nfd'') \<lparr>cr_Version := ''1''\<rparr>]\<rparr>)
       (Some (empty_spec \<lparr>rs_ComponentRefs := [empty_ref ''a'', (empty_ref ''nfd'') \<lparr>cr_Version := ''2''\<rparr>]\<rparr>)))) ''a''
   = Some (empty_ref ''a'')"
proof -
  let ?s = "empty_spec \<lparr>rs_ComponentRefs := [(empty_ref ''nfd'') \<lparr>cr_Version := ''1''\<rparr>]\<rparr>"
  let ?o = "empty_spec \<lparr>rs_ComponentRefs := [empty_ref ''a'', (empty_ref ''nfd'') \<lparr>cr_Version := ''2''\<rparr>]\<rparr>"
  have "spec_wf ?s" "spec_wf ?o" by (simp_all add: spec_wf_def empty_spec_def empty_ref_def)
  from merge_spec_by_name [OF this] show ?thesis
    by (simp add: Let_def by_key_def empty_spec_def empty_ref_def)
qed

text \<open>
  The merge is deterministic although it lists Go maps: whatever order the maps are ranged
  over, sorting the listing by name gives the same constraints and the same components.
\<close>

theorem merge_spec_iteration_order:
  assumes "mset cs = mset (map snd (merge_entries co_Name replace_constraint (rs_Constraints ov) (index_by co_Name (rs_Constraints s))))"
    and "mset rs = mset (map snd (merge_entries cr_Name merge_component_ref (rs_ComponentRefs ov) (index_by cr_Name (rs_ComponentRefs s))))"
  shows "rs_Constraints (merge_spec s (Some ov)) = sort_key co_Name cs \<and>
         rs_ComponentRefs (merge_spec s (Some ov)) = sort_key cr_Name rs"
  using constraints.merge_lists_order [OF assms(1)] components.merge_lists_order [OF assms(2)]
  by (simp add: merge_spec_def)

lemma merge_spec_iteration_order_witness:
  "rs_ComponentRefs (merge_spec (empty_spec \<lparr>rs_ComponentRefs := [empty_ref ''b'']\<rparr>)
      (Some (empty_spec \<lparr>rs_ComponentRefs := [empty_ref ''a'']\<rparr>))) = [empty_ref ''a'', empty_ref ''b'']"
proof -
  let ?s = "empty_spec \<lparr>rs_ComponentRefs := [empty_ref ''b'']\<rparr>" and ?o = "empty_spec \<lparr>rs_ComponentRefs := [empty_ref ''a'']\<rparr>"
  have "rs_ComponentRefs (merge_spec ?s (Some ?o)) = sort_key cr_Name [empty_ref ''a'', empty_ref ''b'']"
    by (rule conjunct2 [OF merge_spec_iteration_order [where cs = "[]"]])
      (simp_all add: empty_spec_def empty_ref_def index_by_def merge_entries_def)
  then show ?thesis by (simp add: empty_ref_def)
qed

text \<open>
  Merging a component accumulates: dependencies and manifests are the union of
  both sides, the cleanup and skip flags once set stay set, a version the overlay states wins, and
  override values come from the overlay where it decides the path and from the base everywhere else.
\<close>

theorem merge_component_ref_accumulates:
  assumes "wf_map (case cr_Overrides base of None \<Rightarrow> [] | Some m \<Rightarrow> m)"
    and "wf_map (case cr_Overrides overlay of None \<Rightarrow> [] | Some m \<Rightarrow> m)"
  shows "let m = merge_component_ref base overlay;
             ovs = (\<lambda>r. case cr_Overrides r of None \<Rightarrow> [] | Some m \<Rightarrow> m) in
     set (cr_DependencyRefs m) = set (cr_DependencyRefs base) \<union> set (cr_DependencyRefs overlay) \<and>
     set (cr_ManifestFiles m) = set (cr_ManifestFiles base) \<union> set (cr_ManifestFiles overlay) \<and>
     set (cr_PreManifestFiles m) = set (cr_PreManifestFiles base) \<union> set (cr_PreManifestFiles overlay) \<and>
     (cr_Cleanup m \<longleftrightarrow> cr_Cleanup base \<or> cr_Cleanup overlay) \<and>
     (cr_HealthCheckSkip m \<longleftrightarrow> cr_HealthCheckSkip base \<or> cr_HealthCheckSkip overlay) \<and>
     cr_Version m = (if cr_Version overlay = [] then cr_Version base else cr_Version overlay) \<and>
     (\<forall>p. leaf_at (ovs m) p = (if covers (ovs overlay) p then leaf_at (ovs overlay) p else leaf_at (ovs base) p))"
proof -
  have covers_Nil: "\<not> covers [] p" for p by (cases p) simp_all
  have "(case merge_overrides (cr_Overrides base) (cr_Overrides overlay) of None \<Rightarrow> [] | Some m \<Rightarrow> m) =
      deep_merge (case cr_Overrides base of None \<Rightarrow> [] | Some m \<Rightarrow> m)
        (case cr_Overrides overlay of None \<Rightarrow> [] | Some m \<Rightarrow> m)"
    by (auto simp: merge_overrides_def simp del: deep_merge.simps(2) split: option.splits list.splits)
  then show ?thesis
    using leaf_at_deep_merge [OF assms]
    by (auto simp: Let_def merge_component_ref_def override_string_def)
qed

lemma merge_component_ref_accumulates_witness:
  "set (cr_DependencyRefs (merge_component_ref ((empty_ref ''a'') \<lparr>cr_DependencyRefs := [''b'']\<rparr>)
      ((empty_ref ''a'') \<lparr>cr_DependencyRefs := [''c'']\<rparr>))) = {''b'', ''c''}"
  using merge_component_ref_accumulates [of "(empty_ref ''a'') \<lparr>cr_DependencyRefs := [''b'']\<rparr>"
      "(empty_ref ''a'') \<lparr>cr_DependencyRefs := [''c'']\<rparr>"]
  by (auto simp: Let_def empty_ref_def)

end
