(* ===== verification/Overlay_Store.thy ===== *)
theory Overlay_Store
  imports Spec_Merge "HOL-Library.Product_Lexorder"
begin

section \<open>The overlay store: inheritance, matching, composition (pkg/recipe/metadata_store.go)\<close>

text \<open>
  A \<open>metadata_store\<close> holds the base recipe, the overlays and the mixins of a loaded catalog. A loaded
  store has a base recipe (\<open>buildMetadataStore\<close> fails without one). Go maps are keyed lists; their
  order is the order of one iteration. The specification that composition builds is a value
  here; what it shares with the cached catalog is the subject of \<open>Override_Aliasing\<close>.
\<close>

record metadata_store =
  ms_Base :: recipe_metadata
  ms_Overlays :: "(string \<times> recipe_metadata) list"
  ms_Mixins :: "(string \<times> recipe_mixin) list"

definition base_recipe_name :: string where "base_recipe_name = ''base''"

definition is_root :: "string \<Rightarrow> bool" where
  "is_root name \<longleftrightarrow> name = [] \<or> name = base_recipe_name"

definition get_recipe_by_name :: "metadata_store \<Rightarrow> string \<Rightarrow> recipe_metadata option" where
  "get_recipe_by_name s name = (if is_root name then Some (ms_Base s) else map_of (ms_Overlays s) name)"

subsection \<open>Inheritance chains\<close>

definition unvisited :: "metadata_store \<Rightarrow> string list \<Rightarrow> nat" where
  "unvisited s visited = length (filter (\<lambda>(k, _). k \<notin> set visited) (ms_Overlays s))"

lemma unvisited_shrinks:
  assumes "n \<notin> set visited" "map_of (ms_Overlays s) n = Some r"
  shows "unvisited s (n # visited) < unvisited s visited"
proof -
  have "length (filter (\<lambda>(k, _). k \<notin> set (n # visited)) ov) < length (filter (\<lambda>(k, _). k \<notin> set visited) ov)"
    if "map_of ov n = Some r" for ov :: "(string \<times> recipe_metadata) list"
    using that
  proof (induction ov)
    case (Cons e ov)
    have "length (filter (\<lambda>(k, _). k \<notin> set (n # visited)) ov) \<le> length (filter (\<lambda>(k, _). k \<notin> set visited) ov)"
      by (induction ov) auto
    with Cons assms(1) show ?case by (cases "fst e = n") (auto split: if_splits)
  qed simp
  then show ?thesis using assms(2) by (simp add: unvisited_def)
qed

text \<open>The loop from the recipe up to the root; \<open>visited\<close> holds the names met so far.\<close>

function chain_up :: "metadata_store \<Rightarrow> string list \<Rightarrow> string \<Rightarrow> recipe_metadata list res" where
  "chain_up s visited current =
     (if is_root current then Inr []
      else if current \<in> set visited then
        Inl (err_new ErrCodeInvalidRequest
          ''circular inheritance detected: recipe %q references itself in inheritance chain'' [current])
      else (case map_of (ms_Overlays s) current of
              None \<Rightarrow> Inl (err_new ErrCodeNotFound ''recipe %q not found (referenced in inheritance chain)'' [current])
            | Some recipe \<Rightarrow>
                (case chain_up s (current # visited) (rs_Base (rm_Spec recipe)) of
                   Inl err \<Rightarrow> Inl err
                 | Inr rest \<Rightarrow> Inr (recipe # rest))))"
  by pat_completeness auto
termination
  by (relation "measure (\<lambda>(s, visited, current). unvisited s visited)")
    (auto intro: unvisited_shrinks)

declare chain_up.simps [simp del]

definition resolve_inheritance_chain :: "metadata_store \<Rightarrow> string \<Rightarrow> recipe_metadata list res" where
  "resolve_inheritance_chain s name =
     res_bind (chain_up s [] name) (\<lambda>chain. Inr (ms_Base s # rev chain))"

text \<open>The walk of \<open>filterToMaximalLeaves\<close>, which stops quietly at a cycle or a missing recipe.\<close>

function walk_ancestors :: "metadata_store \<Rightarrow> string list \<Rightarrow> string \<Rightarrow> string list" where
  "walk_ancestors s visited b =
     (if is_root b \<or> b \<in> set visited then []
      else b # (case map_of (ms_Overlays s) b of
                  None \<Rightarrow> []
                | Some recipe \<Rightarrow> walk_ancestors s (b # visited) (rs_Base (rm_Spec recipe))))"
  by pat_completeness auto
termination
  by (relation "measure (\<lambda>(s, visited, b). unvisited s visited)")
    (auto intro: unvisited_shrinks)

declare walk_ancestors.simps [simp del]

subsection \<open>Matching\<close>

definition available_os_for_criteria :: "metadata_store \<Rightarrow> criteria \<Rightarrow> string list" where
  "available_os_for_criteria s q =
     sort (append_new []
       (concat (map (\<lambda>(name, ov).
          case rs_Criteria (rm_Spec ov) of
            None \<Rightarrow> []
          | Some c \<Rightarrow>
              if c_OS c = [] \<or> c_OS c = ''any'' then []
              else if matches (Some c) (Some (q \<lparr>c_OS := c_OS c\<rparr>)) then [c_OS c] else []) (ms_Overlays s))))"

definition any_to_empty :: "string \<Rightarrow> string" where
  "any_to_empty v = (if v = ''any'' then [] else v)"

definition require_os_if_needed :: "metadata_store \<Rightarrow> criteria \<Rightarrow> recipe_metadata list \<Rightarrow> unit res" where
  "require_os_if_needed s q overlays =
     (if c_Service q = ''any'' \<or> c_Service q = [] then Inr ()
      else if c_OS q \<noteq> ''any'' \<and> c_OS q \<noteq> [] then Inr ()
      else if list_ex (\<lambda>ov. case rs_Criteria (rm_Spec ov) of
                         None \<Rightarrow> False
                       | Some c \<Rightarrow> c_Service c = c_Service q \<and>
                                   any_to_empty (c_Accelerator c) = any_to_empty (c_Accelerator q)) overlays
        then Inr ()
      else (let available = available_os_for_criteria s q in
            if length available > 0 then
              Inl (err_new ErrCodeInvalidRequest
                ''service %s has no OS-agnostic recipe for accelerator %s; specify an OS (valid: %s)''
                [c_Service q, any_to_empty (c_Accelerator q), join_with '', '' available])
            else Inr ()))"

definition filter_to_maximal_leaves :: "metadata_store \<Rightarrow> recipe_metadata list \<Rightarrow> recipe_metadata list" where
  "filter_to_maximal_leaves s ms =
     (let ancestors = concat (map (\<lambda>ov. walk_ancestors s [] (rs_Base (rm_Spec ov))) ms)
      in filter (\<lambda>ov. rm_Name ov \<notin> set ancestors) ms)"

definition overlay_specificity :: "recipe_metadata \<Rightarrow> nat" where
  "overlay_specificity ov = (case rs_Criteria (rm_Spec ov) of None \<Rightarrow> 0 | Some c \<Rightarrow> specificity c)"

definition overlay_matches :: "criteria \<Rightarrow> recipe_metadata \<Rightarrow> bool" where
  "overlay_matches q ov =
     (case rs_Criteria (rm_Spec ov) of None \<Rightarrow> False | Some c \<Rightarrow> matches (Some c) (Some q))"

definition find_matching_overlays :: "metadata_store \<Rightarrow> criteria \<Rightarrow> recipe_metadata list" where
  "find_matching_overlays s q =
     sort_key (\<lambda>ov. (overlay_specificity ov, rm_Name ov))
       (filter_to_maximal_leaves s (filter (overlay_matches q) (map snd (ms_Overlays s))))"

subsection \<open>Merging chains\<close>

type_synonym merge_state = "string list \<times> recipe_metadata_spec \<times> string list"

definition init_base_merged_spec :: "metadata_store \<Rightarrow> recipe_metadata_spec \<times> string list" where
  "init_base_merged_spec s =
     (empty_spec \<lparr>rs_Constraints := rs_Constraints (rm_Spec (ms_Base s)),
                  rs_ComponentRefs := rs_ComponentRefs (rm_Spec (ms_Base s)),
                  rs_Validation := rs_Validation (rm_Spec (ms_Base s))\<rparr>,
      [base_recipe_name])"

definition merge_recipe :: "merge_state \<Rightarrow> recipe_metadata \<Rightarrow> merge_state" where
  "merge_recipe st recipe =
     (case st of (processed, spec, applied) \<Rightarrow>
        if rm_Name recipe \<in> set processed then st
        else (rm_Name recipe # processed, merge_spec spec (Some (rm_Spec recipe)), applied @ [rm_Name recipe]))"

definition merge_chain_of :: "metadata_store \<Rightarrow> merge_state \<Rightarrow> recipe_metadata \<Rightarrow> merge_state res" where
  "merge_chain_of s st ov =
     (case resolve_inheritance_chain s (rm_Name ov) of
        Inl err \<Rightarrow> Inl (err_wrap ErrCodeInvalidRequest ''failed to resolve inheritance chain'' [] err)
      | Inr chain \<Rightarrow> Inr (foldl merge_recipe st (drop 1 chain)))"

definition merge_overlay_chains ::
  "metadata_store \<Rightarrow> recipe_metadata list \<Rightarrow> recipe_metadata_spec \<times> string list \<Rightarrow> (recipe_metadata_spec \<times> string list) res" where
  "merge_overlay_chains s overlays init =
     res_bind (res_fold (merge_chain_of s) ([], fst init, snd init) overlays) (\<lambda>st. Inr (snd st))"


subsection \<open>Ancestry as a relation\<close>

inductive reaches_root :: "metadata_store \<Rightarrow> string \<Rightarrow> bool" for s where
  root: "is_root n \<Longrightarrow> reaches_root s n"
| up: "\<not> is_root n \<Longrightarrow> map_of (ms_Overlays s) n = Some r \<Longrightarrow> reaches_root s (rs_Base (rm_Spec r)) \<Longrightarrow> reaches_root s n"

inductive on_path :: "metadata_store \<Rightarrow> string \<Rightarrow> string \<Rightarrow> bool" for s where
  here: "\<not> is_root n \<Longrightarrow> on_path s n n"
| up: "\<not> is_root n \<Longrightarrow> map_of (ms_Overlays s) n = Some r \<Longrightarrow> on_path s (rs_Base (rm_Spec r)) a \<Longrightarrow> on_path s n a"

inductive_cases on_path_cases: "on_path s n a"
inductive_cases reaches_root_cases: "reaches_root s n"
inductive_simps on_path_root: "on_path s n a"

lemma on_path_not_root: "on_path s n a \<Longrightarrow> \<not> is_root n \<and> \<not> is_root a"
  by (induction rule: on_path.induct) auto

lemma on_path_snoc:
  "on_path s n a \<Longrightarrow> map_of (ms_Overlays s) a = Some r \<Longrightarrow> \<not> is_root (rs_Base (rm_Spec r)) \<Longrightarrow>
   on_path s n (rs_Base (rm_Spec r))"
  by (induction rule: on_path.induct) (auto intro: on_path.intros)

lemma on_path_trans: "on_path s n a \<Longrightarrow> on_path s a b \<Longrightarrow> on_path s n b"
  by (induction rule: on_path.induct) (auto intro: on_path.intros)

lemma reaches_root_on_path: "on_path s n a \<Longrightarrow> reaches_root s n \<Longrightarrow> reaches_root s a"
  by (induction rule: on_path.induct) (auto elim: reaches_root_cases)

text \<open>A recipe that reaches the base is not its own ancestor.\<close>

lemma reaches_root_acyclic:
  "reaches_root s n \<Longrightarrow> \<not> is_root n \<Longrightarrow> map_of (ms_Overlays s) n = Some r \<Longrightarrow> \<not> on_path s (rs_Base (rm_Spec r)) n"
proof (induction arbitrary: r rule: reaches_root.induct)
  case (up n r')
  let ?p = "rs_Base (rm_Spec r)"
  have eq: "r' = r" using up.hyps(2) up.prems(2) by simp
  show ?case
  proof
    assume path: "on_path s ?p n"
    then have p: "\<not> is_root ?p" by (simp add: on_path_not_root)
    have "on_path s ?p ?p" by (rule on_path_snoc [OF path up.prems(2) p])
    obtain q where q: "map_of (ms_Overlays s) ?p = Some q" "on_path s (rs_Base (rm_Spec q)) ?p"
      using path
    proof (rule on_path_cases)
      assume "n = ?p"
      then show ?thesis using that [of r] up.prems(2) path by simp
    next
      fix q assume "map_of (ms_Overlays s) ?p = Some q" "on_path s (rs_Base (rm_Spec q)) n"
      then show ?thesis using that on_path_snoc [OF _ up.prems(2) p] by blast
    qed
    then show False using up.IH eq p by blast
  qed
qed simp

subsection \<open>The two walks compute the path\<close>

lemma walk_ancestors_closed:
  "x \<in> set (walk_ancestors s visited b) \<Longrightarrow> map_of (ms_Overlays s) x = Some r \<Longrightarrow> \<not> is_root (rs_Base (rm_Spec r)) \<Longrightarrow>
   rs_Base (rm_Spec r) \<in> set visited \<union> set (walk_ancestors s visited b)"
proof (induction s visited b rule: walk_ancestors.induct)
  case (1 s visited b)
  have live: "\<not> (is_root b \<or> b \<in> set visited)" using 1(2) by (subst (asm) walk_ancestors.simps) (auto split: if_splits)
  show ?case
  proof (cases "map_of (ms_Overlays s) b")
    case None
    then show ?thesis using 1(2,3) live by (subst (asm) walk_ancestors.simps) auto
  next
    case (Some q)
    have walk: "walk_ancestors s visited b = b # walk_ancestors s (b # visited) (rs_Base (rm_Spec q))"
      using live Some by (subst walk_ancestors.simps) simp
    show ?thesis
    proof (cases "x = b")
      case True
      then have "q = r" using Some 1(3) by simp
      then show ?thesis
        using 1(4) walk walk_ancestors.simps [of s "b # visited" "rs_Base (rm_Spec r)"] by auto
    next
      case False
      then show ?thesis using 1(1) [OF live Some _ 1(3,4)] 1(2) walk by auto
    qed
  qed
qed

lemma walk_ancestors_sound: "a \<in> set (walk_ancestors s visited b) \<Longrightarrow> on_path s b a"
proof (induction s visited b rule: walk_ancestors.induct)
  case (1 s visited b)
  then show ?case
    using walk_ancestors.simps [of s visited b]
    by (auto split: if_splits option.splits intro: on_path.intros)
qed

lemma walk_ancestors_path: "set (walk_ancestors s [] b) = {a. on_path s b a}"
proof -
  let ?W = "set (walk_ancestors s [] b)"
  have "n \<in> ?W \<Longrightarrow> a \<in> ?W" if "on_path s n a" for n a
    using that
  proof (induction rule: on_path.induct)
    case (up n r a)
    then show ?case using walk_ancestors_closed [OF up.prems up.hyps(2)] on_path_not_root by auto
  qed
  moreover have "b \<in> ?W" if "\<not> is_root b"
    using that walk_ancestors.simps [of s "[]" b] by simp
  ultimately show ?thesis using walk_ancestors_sound on_path_not_root by blast
qed


definition store_wf :: "metadata_store \<Rightarrow> bool" where
  "store_wf s \<longleftrightarrow> distinct (map fst (ms_Overlays s)) \<and> (\<forall>(k, ov) \<in> set (ms_Overlays s). rm_Name ov = k)"

lemma store_wf_name: "store_wf s \<Longrightarrow> map_of (ms_Overlays s) n = Some r \<Longrightarrow> rm_Name r = n"
  by (auto simp: store_wf_def dest: map_of_SomeD)

subsection \<open>Chains\<close>

text \<open>A chain listed from the recipe upwards: each entry is stored under the name below it.\<close>

fun links_up :: "metadata_store \<Rightarrow> string \<Rightarrow> recipe_metadata list \<Rightarrow> bool" where
  "links_up s n [] = is_root n"
| "links_up s n (r # rs) =
     (\<not> is_root n \<and> map_of (ms_Overlays s) n = Some r \<and> links_up s (rs_Base (rm_Spec r)) rs)"

lemma chain_up_links: "chain_up s visited n = Inr c \<Longrightarrow> links_up s n c"
proof (induction s visited n arbitrary: c rule: chain_up.induct)
  case (1 s visited n)
  then show ?case
    using chain_up.simps [of s visited n] by (auto split: if_splits option.splits sum.splits)
qed

lemma links_up_reaches: "links_up s n c \<Longrightarrow> reaches_root s n"
  by (induction s n c rule: links_up.induct) (auto intro: reaches_root.intros)

lemma links_up_unique: "links_up s n c \<Longrightarrow> links_up s n d \<Longrightarrow> c = d"
proof (induction s n c arbitrary: d rule: links_up.induct)
  case (2 s n r rs)
  then show ?case by (cases d) auto
next
  case (1 s n)
  then show ?case by (cases d) auto
qed

lemma links_up_path: "links_up s n c \<Longrightarrow> store_wf s \<Longrightarrow> rm_Name ` set c = {a. on_path s n a}"
proof (induction s n c rule: links_up.induct)
  case (2 s n r rs)
  moreover have "on_path s n a \<longleftrightarrow> a = n \<or> on_path s (rs_Base (rm_Spec r)) a" for a
    using 2(2) on_path_root [of s n a] by auto
  ultimately show ?case using store_wf_name by auto
qed (auto dest: on_path_not_root)

lemma links_up_distinct: "links_up s n c \<Longrightarrow> store_wf s \<Longrightarrow> distinct (map rm_Name c)"
proof (induction s n c rule: links_up.induct)
  case (2 s n r rs)
  have up: "map_of (ms_Overlays s) n = Some r" "links_up s (rs_Base (rm_Spec r)) rs" "\<not> is_root n" using 2(2) by auto
  have "reaches_root s n" using links_up_reaches [OF 2(2)] .
  from reaches_root_acyclic [OF this up(3,1)] have "n \<notin> rm_Name ` set rs"
    using links_up_path [OF up(2) 2(3)] by simp
  then show ?case using 2 store_wf_name up by auto
qed simp

lemma links_up_nth:
  "links_up s n c \<Longrightarrow> get_recipe_by_name s n = Some (last (ms_Base s # rev c)) \<and>
   (\<forall>i. Suc i < Suc (length c) \<longrightarrow>
      get_recipe_by_name s (rs_Base (rm_Spec ((ms_Base s # rev c) ! Suc i))) = Some ((ms_Base s # rev c) ! i))"
proof (induction s n c rule: links_up.induct)
  case (1 s n)
  then show ?case by (simp add: get_recipe_by_name_def)
next
  case (2 s n r rs)
  let ?l = "ms_Base s # rev rs"
  have IH: "get_recipe_by_name s (rs_Base (rm_Spec r)) = Some (last ?l)"
    "\<And>i. i < length rs \<Longrightarrow> get_recipe_by_name s (rs_Base (rm_Spec (?l ! Suc i))) = Some (?l ! i)"
    using 2 by auto
  have "get_recipe_by_name s (rs_Base (rm_Spec ((?l @ [r]) ! Suc i))) = Some ((?l @ [r]) ! i)" if i: "i \<le> length rs" for i
  proof (cases "i = length rs")
    case True
    have "last ?l = ?l ! length rs" by (subst last_conv_nth) auto
    moreover have "(?l @ [r]) ! Suc i = r" "(?l @ [r]) ! i = ?l ! i"
      using True by (simp_all only: nth_append) simp_all
    ultimately show ?thesis using IH(1) True by simp
  next
    case False
    then have "i < length rs" using i by simp
    then show ?thesis using IH(2) [of i] by (simp only: nth_append length_Cons length_rev) simp
  qed
  moreover have "get_recipe_by_name s n = Some r" using 2(2) by (simp add: get_recipe_by_name_def)
  ultimately show ?case by (auto simp: less_Suc_eq_le)
qed

lemma chain_up_ok:
  "reaches_root s n \<Longrightarrow> (\<And>a. on_path s n a \<Longrightarrow> a \<notin> set visited) \<Longrightarrow> is_ok (chain_up s visited n)"
proof (induction arbitrary: visited rule: reaches_root.induct)
  case (root n)
  then show ?case by (subst chain_up.simps) simp
next
  case (up n r)
  have acyclic: "\<not> on_path s (rs_Base (rm_Spec r)) n"
    using reaches_root_acyclic [OF reaches_root.up [OF up.hyps] up.hyps(1,2)] .
  have "is_ok (chain_up s (n # visited) (rs_Base (rm_Spec r)))"
    by (rule up.IH) (use up.prems acyclic on_path.up [OF up.hyps(1,2)] in auto)
  moreover have "n \<notin> set visited" using up.prems on_path.here [OF up.hyps(1)] by blast
  ultimately show ?case
    using up.hyps by (subst chain_up.simps) (auto split: sum.split)
qed

lemma resolve_ok_iff: "is_ok (resolve_inheritance_chain s n) \<longleftrightarrow> reaches_root s n"
proof
  assume "is_ok (resolve_inheritance_chain s n)"
  then show "reaches_root s n"
    by (auto simp: is_ok_iff resolve_inheritance_chain_def res_simps dest: chain_up_links links_up_reaches)
next
  assume "reaches_root s n"
  from chain_up_ok [OF this, of "[]"] show "is_ok (resolve_inheritance_chain s n)"
    by (auto simp: is_ok_iff resolve_inheritance_chain_def)
qed

lemma resolve_Inr: "resolve_inheritance_chain s n = Inr chain \<longleftrightarrow> (\<exists>c. chain = ms_Base s # rev c \<and> links_up s n c)"
proof
  assume "resolve_inheritance_chain s n = Inr chain"
  then show "\<exists>c. chain = ms_Base s # rev c \<and> links_up s n c"
    by (auto simp: resolve_inheritance_chain_def res_simps dest: chain_up_links)
next
  assume "\<exists>c. chain = ms_Base s # rev c \<and> links_up s n c"
  then obtain c where c: "chain = ms_Base s # rev c" "links_up s n c" by blast
  then obtain d where d: "chain_up s [] n = Inr d"
    using chain_up_ok [OF links_up_reaches, of s n c "[]"] by (auto simp: is_ok_iff)
  then have "d = c" using links_up_unique [OF chain_up_links c(2)] by blast
  then show "resolve_inheritance_chain s n = Inr chain"
    using c d by (simp add: resolve_inheritance_chain_def)
qed

text \<open>Why a chain does not resolve: a name that is missing, or a recipe met twice.\<close>

lemma chain_up_error:
  "chain_up s visited n = Inl e \<Longrightarrow>
   (\<exists>a. on_path s n a \<and> map_of (ms_Overlays s) a = None \<and> err_code e = Some ErrCodeNotFound) \<or>
   (\<exists>a. on_path s n a \<and> (a \<in> set visited \<or> (\<exists>r. map_of (ms_Overlays s) a = Some r \<and> on_path s (rs_Base (rm_Spec r)) a)) \<and>
        err_code e = Some ErrCodeInvalidRequest)"
proof (induction s visited n rule: chain_up.induct)
  case (1 s visited n)
  have not_root: "\<not> is_root n" using 1(2) by (subst (asm) chain_up.simps) (auto split: if_splits)
  show ?case
  proof (cases "n \<in> set visited")
    case True
    then have "err_code e = Some ErrCodeInvalidRequest"
      using 1(2) not_root by (subst (asm) chain_up.simps) auto
    then show ?thesis using on_path.here [OF not_root] True by blast
  next
    case False
    show ?thesis
    proof (cases "map_of (ms_Overlays s) n")
      case None
      then have "err_code e = Some ErrCodeNotFound"
        using 1(2) not_root False by (subst (asm) chain_up.simps) auto
      then show ?thesis using on_path.here [OF not_root] None by blast
    next
      case (Some r)
      then have "chain_up s (n # visited) (rs_Base (rm_Spec r)) = Inl e"
        using 1(2) not_root False by (subst (asm) chain_up.simps) (auto split: sum.splits)
      from 1(1) [OF not_root False Some this] show ?thesis
        using on_path.up [OF not_root Some] on_path.here [OF not_root] Some by (elim disjE exE conjE) auto
    qed
  qed
qed


text \<open>
  Property C6: an inheritance chain resolves exactly when following \<open>base\<close> fields leads to the base recipe;
  the chain then starts with the base recipe and ends with the recipe asked for, each entry is the
  parent of the next one, and it holds the recipes on the way up, each once. When it does not
  resolve, a recipe on the way is missing (not found) or is met again (invalid request).
\<close>

theorem resolve_inheritance_chain_correct:
  assumes "store_wf s"
  shows "(case resolve_inheritance_chain s n of
      Inr chain \<Rightarrow>
        reaches_root s n \<and> hd chain = ms_Base s \<and> get_recipe_by_name s n = Some (last chain) \<and>
        (\<forall>i. Suc i < length chain \<longrightarrow>
           get_recipe_by_name s (rs_Base (rm_Spec (chain ! Suc i))) = Some (chain ! i)) \<and>
        distinct (map rm_Name (tl chain)) \<and> set (map rm_Name (tl chain)) = {a. on_path s n a}
    | Inl e \<Rightarrow>
        \<not> reaches_root s n \<and>
        ((\<exists>a. on_path s n a \<and> map_of (ms_Overlays s) a = None \<and> err_code e = Some ErrCodeNotFound) \<or>
         (\<exists>a r. on_path s n a \<and> map_of (ms_Overlays s) a = Some r \<and> on_path s (rs_Base (rm_Spec r)) a \<and>
                err_code e = Some ErrCodeInvalidRequest)))"
proof (cases "resolve_inheritance_chain s n")
  case (Inl e)
  then have "chain_up s [] n = Inl e" by (auto simp: resolve_inheritance_chain_def res_simps)
  from chain_up_error [OF this] show ?thesis
    using resolve_ok_iff [of s n] Inl by auto
next
  case (Inr chain)
  then obtain c where c: "chain = ms_Base s # rev c" "links_up s n c" by (auto simp: resolve_Inr)
  show ?thesis
    unfolding Inr sum.case c(1)
    using links_up_nth [OF c(2)] links_up_path [OF c(2) assms] links_up_distinct [OF c(2) assms]
      links_up_reaches [OF c(2)]
    by (simp add: rev_map [symmetric])
qed

definition overlay_of :: "string \<Rightarrow> string \<Rightarrow> criteria option \<Rightarrow> recipe_metadata" where
  "overlay_of name base_name c =
     \<lparr>rm_Kind = ''RecipeMetadata'', rm_APIVersion = ''aicr.run/v1alpha2'', rm_Name = name,
      rm_Spec = empty_spec \<lparr>rs_Base := base_name, rs_Criteria := c\<rparr>\<rparr>"

definition sample_store :: metadata_store where
  "sample_store =
     \<lparr>ms_Base = overlay_of ''base'' [] None,
      ms_Overlays =
        [(''eks-h100'', overlay_of ''eks-h100'' ''eks'' (Some (new_criteria \<lparr>c_Service := ''eks'', c_Accelerator := ''h100''\<rparr>))),
         (''eks'', overlay_of ''eks'' ''base'' (Some (new_criteria \<lparr>c_Service := ''eks''\<rparr>))),
         (''loop'', overlay_of ''loop'' ''loop'' (Some (new_criteria \<lparr>c_Service := ''gke''\<rparr>)))],
      ms_Mixins = []\<rparr>"

lemma sample_store_wf: "store_wf sample_store"
  by (simp add: store_wf_def sample_store_def overlay_of_def)

lemma resolve_inheritance_chain_correct_witness:
  "reaches_root sample_store ''eks-h100'' \<and> \<not> reaches_root sample_store ''loop''"
proof -
  have "is_ok (resolve_inheritance_chain sample_store ''eks-h100'')" by code_simp
  moreover have "\<not> is_ok (resolve_inheritance_chain sample_store ''loop'')" by code_simp
  ultimately show ?thesis
    using resolve_inheritance_chain_correct [OF sample_store_wf, of "''eks-h100''"]
      resolve_inheritance_chain_correct [OF sample_store_wf, of "''loop''"]
    by (auto simp: is_ok_def split: sum.splits)
qed

subsection \<open>Candidates\<close>

lemma overlay_entries: "store_wf s \<Longrightarrow> set (map snd (ms_Overlays s)) = {ov. map_of (ms_Overlays s) (rm_Name ov) = Some ov}"
  by (force simp: store_wf_def dest: map_of_SomeD)

lemma distinct_overlay_names: "store_wf s \<Longrightarrow> distinct (map rm_Name (map snd (ms_Overlays s)))"
proof -
  assume wf: "store_wf s"
  then have "map rm_Name (map snd (ms_Overlays s)) = map fst (ms_Overlays s)" by (auto simp: store_wf_def)
  moreover have "distinct (map fst (ms_Overlays s))" using wf by (simp add: store_wf_def)
  ultimately show ?thesis by (simp only:)
qed

definition dominated :: "metadata_store \<Rightarrow> criteria \<Rightarrow> recipe_metadata \<Rightarrow> bool" where
  "dominated s q ov \<longleftrightarrow>
     (\<exists>d. map_of (ms_Overlays s) (rm_Name d) = Some d \<and> overlay_matches q d \<and> on_path s (rs_Base (rm_Spec d)) (rm_Name ov))"

lemma set_find_matching:
  "store_wf s \<Longrightarrow> set (find_matching_overlays s q) =
     {ov. map_of (ms_Overlays s) (rm_Name ov) = Some ov \<and> overlay_matches q ov \<and> \<not> dominated s q ov}"
  unfolding find_matching_overlays_def filter_to_maximal_leaves_def Let_def set_sort set_filter set_concat set_map
  by (auto simp: walk_ancestors_path dominated_def overlay_entries [unfolded set_map])

lemma find_matching_order:
  assumes "store_wf s" "mset listing = mset (ms_Overlays s)"
  shows "find_matching_overlays (s \<lparr>ms_Overlays := listing\<rparr>) q = find_matching_overlays s q"
proof -
  let ?s = "s \<lparr>ms_Overlays := listing\<rparr>"
  have dist: "distinct (map fst listing)"
    using assms by (metis store_wf_def mset_map mset_eq_imp_distinct_iff)
  have lookup: "map_of listing = map_of (ms_Overlays s)"
    using map_of_inject_set [OF dist, of "ms_Overlays s"] assms mset_eq_setD [OF assms(2)] by (simp add: store_wf_def)
  have path: "on_path ?s b a \<longleftrightarrow> on_path s b a" for a b
  proof
    show "on_path s b a" if "on_path ?s b a"
      using that by (induction rule: on_path.induct) (auto simp: lookup intro: on_path.intros)
    show "on_path ?s b a" if "on_path s b a"
      using that
    proof (induction rule: on_path.induct)
      case (up n r a)
      then show ?case using on_path.up [of n ?s r a] by (simp add: lookup)
    qed (simp add: on_path.here)
  qed
  have walk: "set (walk_ancestors ?s [] b) = set (walk_ancestors s [] b)" for b by (simp add: walk_ancestors_path path)
  let ?m = "\<lambda>l. filter (overlay_matches q) (map snd l)"
  let ?anc = "set (concat (map (\<lambda>ov. walk_ancestors s [] (rs_Base (rm_Spec ov))) (?m (ms_Overlays s))))"
  have m: "mset (?m listing) = mset (?m (ms_Overlays s))" using assms(2) by (metis mset_filter mset_map)
  have anc: "set (concat (map (\<lambda>ov. walk_ancestors ?s [] (rs_Base (rm_Spec ov))) (?m listing))) = ?anc"
    using mset_eq_setD [OF m] unfolding set_concat set_map by (simp add: walk)
  let ?f = "filter (\<lambda>ov. rm_Name ov \<notin> ?anc)"
  have "mset (?f (?m listing)) = mset (?f (?m (ms_Overlays s)))" using m by (metis mset_filter)
  moreover have "inj_on (\<lambda>ov. (overlay_specificity ov, rm_Name ov)) (set (?f (?m listing)))"
  proof (rule inj_onI)
    fix x y assume "x \<in> set (?f (?m listing))" "y \<in> set (?f (?m listing))"
      "(overlay_specificity x, rm_Name x) = (overlay_specificity y, rm_Name y)"
    moreover have "set listing = set (ms_Overlays s)" using mset_eq_setD [OF assms(2)] .
    ultimately show "x = y" using assms(1) overlay_entries [OF assms(1)] by auto
  qed
  ultimately have "sort_key (\<lambda>ov. (overlay_specificity ov, rm_Name ov)) (?f (?m listing)) =
      sort_key (\<lambda>ov. (overlay_specificity ov, rm_Name ov)) (?f (?m (ms_Overlays s)))"
    by (intro sort_key_unique)
  then show ?thesis
    unfolding find_matching_overlays_def filter_to_maximal_leaves_def Let_def
    using anc by simp
qed


text \<open>
  Property C7: the candidates are exactly the overlays that match the query and are not inherited by another
  matching overlay; each is listed once, no candidate inherits from another, they come in order of specificity
  and then of name, and the order in which the Go map of overlays is iterated has no influence.
\<close>

theorem find_matching_overlays_correct:
  assumes "store_wf s" "mset listing = mset (ms_Overlays s)"
  shows "let ms = find_matching_overlays s q in
     set ms = {ov. map_of (ms_Overlays s) (rm_Name ov) = Some ov \<and> overlay_matches q ov \<and> \<not> dominated s q ov} \<and>
     distinct (map rm_Name ms) \<and>
     (\<forall>a \<in> set ms. \<forall>b \<in> set ms. \<not> on_path s (rs_Base (rm_Spec a)) (rm_Name b)) \<and>
     sorted (map (\<lambda>ov. (overlay_specificity ov, rm_Name ov)) ms) \<and>
     find_matching_overlays (s \<lparr>ms_Overlays := listing\<rparr>) q = ms"
proof -
  let ?ms = "find_matching_overlays s q"
  have set: "set ?ms = {ov. map_of (ms_Overlays s) (rm_Name ov) = Some ov \<and> overlay_matches q ov \<and> \<not> dominated s q ov}"
    using set_find_matching [OF assms(1)] .
  have "distinct ?ms"
    using distinct_overlay_names [OF assms(1), unfolded distinct_map [of rm_Name], THEN conjunct1]
    by (simp only: find_matching_overlays_def filter_to_maximal_leaves_def Let_def distinct_sort distinct_filter)
  moreover have "inj_on rm_Name (set ?ms)" by (rule inj_onI) (simp add: set)
  ultimately have "distinct (map rm_Name ?ms)" by (simp add: distinct_map)
  moreover have "\<forall>a \<in> set ?ms. \<forall>b \<in> set ?ms. \<not> on_path s (rs_Base (rm_Spec a)) (rm_Name b)"
    unfolding set by (auto simp: dominated_def)
  moreover have "sorted (map (\<lambda>ov. (overlay_specificity ov, rm_Name ov)) ?ms)"
    by (simp add: find_matching_overlays_def)
  ultimately show ?thesis unfolding Let_def using set find_matching_order [OF assms] by blast
qed

lemma find_matching_overlays_correct_witness:
  "find_matching_overlays (sample_store \<lparr>ms_Overlays := rev (ms_Overlays sample_store)\<rparr>)
     (new_criteria \<lparr>c_Service := ''eks'', c_Accelerator := ''h100'', c_OS := ''ubuntu''\<rparr>) =
   find_matching_overlays sample_store (new_criteria \<lparr>c_Service := ''eks'', c_Accelerator := ''h100'', c_OS := ''ubuntu''\<rparr>)"
  using find_matching_overlays_correct [OF sample_store_wf, of "rev (ms_Overlays sample_store)"]
  by (simp add: Let_def)

text \<open>
  The query path never reports a circular catalog through a candidate: an overlay that inherits from
  itself is an ancestor of a matching overlay, itself, so selection drops it silently and the cycle
  check of \<open>resolveInheritanceChain\<close> does not see it.
\<close>

theorem circular_overlay_dropped:
  assumes "store_wf s" "map_of (ms_Overlays s) n = Some ov" "on_path s (rs_Base (rm_Spec ov)) n"
  shows "ov \<notin> set (find_matching_overlays s q) \<and>
         (\<exists>e. resolve_inheritance_chain s n = Inl e)"
proof -
  have "rm_Name ov = n" using store_wf_name [OF assms(1,2)] .
  then have "overlay_matches q ov \<Longrightarrow> dominated s q ov" using assms by (auto simp: dominated_def)
  moreover have "\<not> reaches_root s n"
    using reaches_root_acyclic [of s n ov] assms(2,3) on_path_not_root by blast
  ultimately show ?thesis
    using set_find_matching [OF assms(1)] resolve_ok_iff [of s n] not_ok_iff by blast
qed

lemma circular_overlay_dropped_witness:
  "find_matching_overlays sample_store (new_criteria \<lparr>c_Service := ''gke''\<rparr>) = [] \<and>
   overlay_of ''loop'' ''loop'' (Some (new_criteria \<lparr>c_Service := ''gke''\<rparr>))
     \<notin> set (find_matching_overlays sample_store (new_criteria \<lparr>c_Service := ''gke''\<rparr>))"
proof (intro conjI)
  show "find_matching_overlays sample_store (new_criteria \<lparr>c_Service := ''gke''\<rparr>) = []" by code_simp
  have "\<not> is_root ''loop''" by code_simp
  then have "on_path sample_store ''loop'' ''loop''" by (rule on_path.here)
  then show "overlay_of ''loop'' ''loop'' (Some (new_criteria \<lparr>c_Service := ''gke''\<rparr>))
     \<notin> set (find_matching_overlays sample_store (new_criteria \<lparr>c_Service := ''gke''\<rparr>))"
    using circular_overlay_dropped [OF sample_store_wf, of "''loop''"
        "overlay_of ''loop'' ''loop'' (Some (new_criteria \<lparr>c_Service := ''gke''\<rparr>))"]
    by (simp add: sample_store_def overlay_of_def empty_spec_def)
qed

subsection \<open>Composition of chains\<close>

text \<open>The specification after the recipes \<open>names\<close> were merged, in that order, into the base.\<close>

definition overlay_spec :: "metadata_store \<Rightarrow> string \<Rightarrow> recipe_metadata_spec option" where
  "overlay_spec s n = map_option rm_Spec (map_of (ms_Overlays s) n)"

definition base_first :: "metadata_store \<Rightarrow> string list \<Rightarrow> bool" where
  "base_first s names \<longleftrightarrow>
     (\<forall>i < length names. \<exists>r. map_of (ms_Overlays s) (names ! i) = Some r \<and>
        (is_root (rs_Base (rm_Spec r)) \<or> rs_Base (rm_Spec r) \<in> set (take i names)))"

definition composed :: "metadata_store \<Rightarrow> recipe_metadata_spec \<Rightarrow> string list \<Rightarrow> merge_state \<Rightarrow> bool" where
  "composed s spec0 names st \<longleftrightarrow>
     (case st of (processed, spec, applied) \<Rightarrow>
        set processed = set names \<and> distinct names \<and> base_first s names \<and> (\<forall>n \<in> set names. \<not> is_root n) \<and>
        applied = base_recipe_name # names \<and>
        spec = foldl merge_spec spec0 (map (overlay_spec s) names))"

lemma base_first_snoc:
  "base_first s names \<Longrightarrow> map_of (ms_Overlays s) n = Some r \<Longrightarrow>
   is_root (rs_Base (rm_Spec r)) \<or> rs_Base (rm_Spec r) \<in> set names \<Longrightarrow> base_first s (names @ [n])"
  unfolding base_first_def
proof (intro allI impI, goal_cases)
  case (1 i)
  then show ?case by (cases "i < length names") (auto simp: nth_append less_Suc_eq)
qed

lemma merge_recipe_composed:
  assumes "composed s spec0 names st" "map_of (ms_Overlays s) n = Some r" "rm_Name r = n" "\<not> is_root n"
    "is_root (rs_Base (rm_Spec r)) \<or> rs_Base (rm_Spec r) \<in> set names"
  shows "composed s spec0 (append_new names [n]) (merge_recipe st r)"
  using assms base_first_snoc [of s names n r]
  by (cases st) (auto simp: composed_def merge_recipe_def overlay_spec_def)

lemma merge_chain_composed:
  assumes "links_up s n c" "store_wf s" "composed s spec0 names st"
  shows "composed s spec0 (append_new names (map rm_Name (rev c))) (foldl merge_recipe st (rev c)) \<and>
         (is_root n \<or> n \<in> set names \<union> rm_Name ` set c)"
  using assms
proof (induction s n c rule: links_up.induct)
  case (2 s n r rs)
  have up: "\<not> is_root n" "map_of (ms_Overlays s) n = Some r" "links_up s (rs_Base (rm_Spec r)) rs" using 2(2) by auto
  have name: "rm_Name r = n" using store_wf_name [OF 2(3) up(2)] .
  let ?names = "append_new names (map rm_Name (rev rs))"
  have IH: "composed s spec0 ?names (foldl merge_recipe st (rev rs))"
    "is_root (rs_Base (rm_Spec r)) \<or> rs_Base (rm_Spec r) \<in> set ?names"
    using 2(1) [OF up(3) 2(3,4)] by auto
  from merge_recipe_composed [OF IH(1) up(2) name up(1) IH(2)] show ?case
    using name by (simp add: append_new_append)
qed simp

lemma merge_chains_fold:
  assumes "res_fold (merge_chain_of s) st overlays = Inr st'" "store_wf s" "composed s spec0 names st"
  shows "\<exists>names'. composed s spec0 names' st' \<and>
           set names' = set names \<union> (\<Union>ov \<in> set overlays. {a. on_path s (rm_Name ov) a}) \<and>
           (\<forall>ov \<in> set overlays. reaches_root s (rm_Name ov))"
  using assms
proof (induction overlays arbitrary: st names)
  case (Cons ov overlays)
  obtain st1 where st1: "merge_chain_of s st ov = Inr st1" "res_fold (merge_chain_of s) st1 overlays = Inr st'"
    using Cons.prems(1) by (simp split: sum.splits)
  obtain c where "links_up s (rm_Name ov) c" "st1 = foldl merge_recipe st (rev c)"
    using st1(1) by (auto simp: merge_chain_of_def resolve_Inr split: sum.splits)
  note c = this(1) st1(2) [unfolded this(2)]
  let ?names = "append_new names (map rm_Name (rev c))"
  have "composed s spec0 ?names (foldl merge_recipe st (rev c))"
    using merge_chain_composed [OF c(1) Cons.prems(2,3)] by blast
  from Cons.IH [OF c(2) Cons.prems(2) this] obtain names' where
    "composed s spec0 names' st'"
    "set names' = set ?names \<union> (\<Union>ov \<in> set overlays. {a. on_path s (rm_Name ov) a})"
    "\<forall>ov \<in> set overlays. reaches_root s (rm_Name ov)" by blast
  moreover have "set ?names = set names \<union> {a. on_path s (rm_Name ov) a}"
    using links_up_path [OF c(1) Cons.prems(2)] by simp
  ultimately show ?case
    using links_up_reaches [OF c(1)] by (intro exI [of _ names']) auto
qed auto

lemma merge_chains_error:
  assumes "res_fold (merge_chain_of s) st overlays = Inl e"
  shows "\<exists>ov \<in> set overlays. \<not> reaches_root s (rm_Name ov)"
  using assms
proof (induction overlays arbitrary: st)
  case (Cons ov overlays)
  show ?case
  proof (cases "merge_chain_of s st ov")
    case (Inl e')
    then have "\<not> is_ok (resolve_inheritance_chain s (rm_Name ov))"
      by (auto simp: merge_chain_of_def split: sum.splits)
    then show ?thesis by (simp add: resolve_ok_iff)
  next
    case (Inr st')
    then show ?thesis using Cons by auto
  qed
qed simp

lemma merge_overlay_chains_cases:
  assumes "store_wf s"
  shows "case merge_overlay_chains s overlays (init_base_merged_spec s) of
     Inr (spec, applied) \<Rightarrow>
       (\<forall>ov \<in> set overlays. reaches_root s (rm_Name ov)) \<and>
       (\<exists>names. applied = base_recipe_name # names \<and> distinct names \<and> (\<forall>n \<in> set names. \<not> is_root n) \<and> base_first s names \<and>
          set names = (\<Union>ov \<in> set overlays. {a. on_path s (rm_Name ov) a}) \<and>
          spec = foldl merge_spec (fst (init_base_merged_spec s)) (map (overlay_spec s) names))
   | Inl e \<Rightarrow> \<exists>ov \<in> set overlays. \<not> reaches_root s (rm_Name ov)"
proof -
  let ?spec0 = "fst (init_base_merged_spec s)"
  let ?st = "([], ?spec0, snd (init_base_merged_spec s))"
  have init: "composed s ?spec0 [] ?st"
    by (simp add: composed_def init_base_merged_spec_def base_first_def)
  show ?thesis
  proof (cases "res_fold (merge_chain_of s) ?st overlays")
    case (Inl e)
    then show ?thesis using merge_chains_error [OF Inl] by (simp add: merge_overlay_chains_def)
  next
    case (Inr st)
    from merge_chains_fold [OF Inr assms init] show ?thesis
      using Inr by (cases st) (auto simp: merge_overlay_chains_def composed_def)
  qed
qed

text \<open>
  Property C8: composing the candidates' chains succeeds exactly when every candidate reaches the base recipe; the
  recipes applied after the base are then the candidates and everything they inherit, each exactly
  once and after its parent, and the composed specification is the base with their
  specifications merged in that order.
\<close>

theorem merge_overlay_chains_correct:
  assumes "store_wf s"
  shows "case merge_overlay_chains s overlays (init_base_merged_spec s) of
     Inr (spec, applied) \<Rightarrow>
       (\<forall>ov \<in> set overlays. reaches_root s (rm_Name ov)) \<and>
       (\<exists>names. applied = base_recipe_name # names \<and> distinct names \<and> base_first s names \<and>
          set names = (\<Union>ov \<in> set overlays. {a. on_path s (rm_Name ov) a}) \<and>
          spec = foldl merge_spec (fst (init_base_merged_spec s)) (map (overlay_spec s) names))
   | Inl e \<Rightarrow> \<exists>ov \<in> set overlays. \<not> reaches_root s (rm_Name ov)"
  using merge_overlay_chains_cases [OF assms, of overlays] by (simp split: sum.splits) blast

lemma merge_overlay_chains_correct_witness:
  "\<exists>ov \<in> set [overlay_of ''loop'' ''loop'' None]. \<not> reaches_root sample_store (rm_Name ov)"
proof -
  have "\<not> is_ok (merge_overlay_chains sample_store [overlay_of ''loop'' ''loop'' None] (init_base_merged_spec sample_store))"
    by code_simp
  then show ?thesis
    using merge_overlay_chains_correct [OF sample_store_wf, of "[overlay_of ''loop'' ''loop'' None]"]
    by (auto simp: is_ok_def split: sum.splits)
qed

end
