(* ===== verification/Snapshot_Filter.thy ===== *)
theory Snapshot_Filter
  imports Overlay_Store
begin

section \<open>Mixins and evaluation against a snapshot (pkg/recipe/metadata_store.go)\<close>

text \<open>
  Mixins are fragments that the composed overlays name; they may add constraints and components,
  but not change what the inheritance chains decided. When resolution runs against a snapshot,
  each candidate's constraints are evaluated before composition and the constraints of mixins
  after it; a failing mixin constraint excludes the candidates that brought it in and the recipe is
  rebuilt from the others. The evaluator is the caller's function, a parameter here.
\<close>

subsection \<open>Merging mixins\<close>

definition mixin_ref_offending_field :: "component_ref \<Rightarrow> string option" where
  "mixin_ref_offending_field c =
     (if cr_Chart c \<noteq> [] then Some ''chart''
      else if cr_Type c \<noteq> [] then Some ''type''
      else if cr_Source c \<noteq> [] then Some ''source''
      else if cr_Version c \<noteq> [] then Some ''version''
      else if cr_Tag c \<noteq> [] then Some ''tag''
      else if cr_Path c \<noteq> [] then Some ''path''
      else if cr_ValuesFile c \<noteq> [] then Some ''valuesFile''
      else if (case cr_Overrides c of None \<Rightarrow> False | Some m \<Rightarrow> length m > 0) then Some ''overrides''
      else if length (cr_Patches c) > 0 then Some ''patches''
      else if length (cr_DependencyRefs c) > 0 then Some ''dependencyRefs''
      else if cr_Cleanup c then Some ''cleanup''
      else if length (cr_ExpectedResources c) > 0 then Some ''expectedResources''
      else if cr_HealthCheckAsserts c \<noteq> [] then Some ''healthCheckAsserts''
      else if cr_HealthCheckSkip c then Some ''healthCheckSkip''
      else None)"

definition mixin_conflict :: "string \<Rightarrow> recipe_mixin \<Rightarrow> string list \<Rightarrow> string list \<Rightarrow> go_error option" where
  "mixin_conflict mixin_name mixin existing_constraints existing_components =
     (case find (\<lambda>c. co_Name c \<in> set existing_constraints) (mx_Constraints mixin) of
        Some c \<Rightarrow> Some (err_new ErrCodeInvalidRequest
          ''mixin %q constraint %q conflicts with inheritance chain or another mixin'' [mixin_name, co_Name c])
      | None \<Rightarrow>
          (case find (\<lambda>c. cr_Name c \<in> set existing_components \<and> mixin_ref_offending_field c \<noteq> None) (mx_ComponentRefs mixin) of
             Some c \<Rightarrow> Some (err_new ErrCodeInvalidRequest
               ''mixin %q component %q sets identity/sourcing field %q which conflicts with the inheritance chain''
               [mixin_name, cr_Name c, case mixin_ref_offending_field c of Some f \<Rightarrow> f | None \<Rightarrow> []])
           | None \<Rightarrow> None))"

text \<open>State: merged specification, known constraint and component names, names that mixins contributed.\<close>

type_synonym mixin_state = "recipe_metadata_spec \<times> string list \<times> string list \<times> string list"

definition merge_mixin :: "metadata_store \<Rightarrow> mixin_state \<Rightarrow> string \<Rightarrow> mixin_state res" where
  "merge_mixin s st mixin_name =
     (case st of (spec, cnames, rnames, contributed) \<Rightarrow>
        (case map_of (ms_Mixins s) mixin_name of
           None \<Rightarrow> Inl (err_new ErrCodeNotFound ''mixin %q not found in recipes/mixins/'' [mixin_name])
         | Some mixin \<Rightarrow>
             (case mixin_conflict mixin_name mixin cnames rnames of
                Some err \<Rightarrow> Inl err
              | None \<Rightarrow>
                  Inr (merge_spec spec (Some (empty_spec \<lparr>rs_Constraints := mx_Constraints mixin,
                                                          rs_ComponentRefs := mx_ComponentRefs mixin\<rparr>)),
                       map co_Name (mx_Constraints mixin) @ cnames,
                       map cr_Name (mx_ComponentRefs mixin) @ rnames,
                       map co_Name (mx_Constraints mixin) @ contributed))))"

definition merge_mixins :: "metadata_store \<Rightarrow> recipe_metadata_spec \<Rightarrow> (recipe_metadata_spec \<times> string list) res" where
  "merge_mixins s spec =
     (if length (rs_Mixins spec) = 0 then Inr (spec, [])
      else (case res_fold (merge_mixin s)
                   (spec, map co_Name (rs_Constraints spec), map cr_Name (rs_ComponentRefs spec), []) (rs_Mixins spec) of
              Inl err \<Rightarrow> Inl err
            | Inr (spec', _, _, contributed) \<Rightarrow> Inr (spec' \<lparr>rs_Mixins := []\<rparr>, contributed)))"

subsection \<open>Evaluation against a snapshot\<close>

record constraint_eval_result =
  ev_Passed :: bool
  ev_Actual :: string
  ev_Error :: "go_error option"

type_synonym evaluator = "constraint \<Rightarrow> constraint_eval_result"

text \<open>The reason of a warning: the text of an error, or of an expected and an actual value.\<close>

datatype warning_reason =
    ErrorReason go_error
  | MismatchReason string string
  | MixinErrorReason go_error
  | MixinMismatchReason string string

record constraint_warning =
  cw_Overlay :: string
  cw_Constraint :: string
  cw_Expected :: string
  cw_Actual :: string
  cw_Reason :: warning_reason

datatype excluded_reason = ConstraintFailed | MixinConstraintFailed

record excluded_overlay =
  xo_Name :: string
  xo_Reason :: excluded_reason

definition is_not_found_eval_error :: "go_error \<Rightarrow> bool" where
  "is_not_found_eval_error err = err_is ErrCodeNotFound err"

definition validate_constraint_warning_source :: "constraint \<Rightarrow> unit res" where
  "validate_constraint_warning_source c =
     (if co_Name c = [] then
        Inl (err_new ErrCodeInvalidRequest ''constraint name is required for snapshot evaluation'' [])
      else if co_Value c = [] then
        Inl (err_new ErrCodeInvalidRequest ''constraint %q value is required for snapshot evaluation'' [co_Name c])
      else Inr ())"

definition build_mixin_constraint_warning_reason :: "constraint \<Rightarrow> constraint_eval_result \<Rightarrow> warning_reason" where
  "build_mixin_constraint_warning_reason c result =
     (case ev_Error result of
        Some err \<Rightarrow> MixinErrorReason err
      | None \<Rightarrow> MixinMismatchReason (co_Value c) (ev_Actual result))"

fun evaluate_constraints_from ::
  "string \<Rightarrow> evaluator \<Rightarrow> bool \<times> constraint_warning list \<Rightarrow> constraint list \<Rightarrow> (bool \<times> constraint_warning list) res" where
  "evaluate_constraints_from name evaluator (passed, warnings) [] = Inr (passed, warnings)"
| "evaluate_constraints_from name evaluator (passed, warnings) (c # cs) =
     (case validate_constraint_warning_source c of
        Inl err \<Rightarrow> Inl err
      | Inr _ \<Rightarrow>
          (let result = evaluator c;
               warn = (\<lambda>reason. \<lparr>cw_Overlay = name, cw_Constraint = co_Name c, cw_Expected = co_Value c,
                                 cw_Actual = ev_Actual result, cw_Reason = reason\<rparr>)
           in case ev_Error result of
                Some err \<Rightarrow>
                  if \<not> is_not_found_eval_error err
                  then Inl (propagate_or_wrap ErrCodeInternal ''constraint evaluation failed'' err)
                  else evaluate_constraints_from name evaluator (False, warnings @ [warn (ErrorReason err)]) cs
              | None \<Rightarrow>
                  if \<not> ev_Passed result
                  then evaluate_constraints_from name evaluator
                         (False, warnings @ [warn (MismatchReason (co_Value c) (ev_Actual result))]) cs
                  else evaluate_constraints_from name evaluator (passed, warnings) cs))"

definition evaluate_overlay_constraints ::
  "recipe_metadata \<Rightarrow> evaluator \<Rightarrow> (bool \<times> constraint_warning list) res" where
  "evaluate_overlay_constraints ov evaluator =
     (if length (rs_Constraints (rm_Spec ov)) = 0 then Inr (True, [])
      else evaluate_constraints_from (rm_Name ov) evaluator (True, []) (rs_Constraints (rm_Spec ov)))"

definition candidate_constraints :: "metadata_store \<Rightarrow> recipe_metadata list \<Rightarrow> string list" where
  "candidate_constraints s chain =
     append_new [] (concat (map (\<lambda>recipe.
        concat (map (\<lambda>mixin_name.
           case map_of (ms_Mixins s) mixin_name of
             None \<Rightarrow> []
           | Some mixin \<Rightarrow> map co_Name (mx_Constraints mixin)) (rs_Mixins (rm_Spec recipe)))) chain))"

definition index_candidate ::
  "metadata_store \<Rightarrow> (string \<times> string list) list \<Rightarrow> string \<Rightarrow> (string \<times> string list) list res" where
  "index_candidate s index candidate =
     (case resolve_inheritance_chain s candidate of
        Inl err \<Rightarrow> Inl (err_wrap ErrCodeInvalidRequest
                     ''failed to resolve candidate chain for mixin constraint evaluation'' [] err)
      | Inr chain \<Rightarrow>
          Inr (foldl (\<lambda>m n. upsert n ((case map_of m n of Some cs \<Rightarrow> cs | None \<Rightarrow> []) @ [candidate]) m)
                 index (candidate_constraints s chain)))"

definition build_mixin_constraint_candidate_index ::
  "metadata_store \<Rightarrow> string list \<Rightarrow> (string \<times> string list) list res" where
  "build_mixin_constraint_candidate_index s candidates = res_fold (index_candidate s) [] candidates"

record mixin_eval_result =
  me_Failed :: bool
  me_Excluded :: "excluded_overlay list"
  me_Warnings :: "constraint_warning list"
  me_Spec :: "recipe_metadata_spec option"
  me_Applied :: "string list"

definition no_mixin_failure :: mixin_eval_result where
  "no_mixin_failure = \<lparr>me_Failed = False, me_Excluded = [], me_Warnings = [], me_Spec = None, me_Applied = []\<rparr>"

definition mixin_failure ::
  "(string \<times> string list) list \<Rightarrow> string list \<times> constraint_warning list \<Rightarrow> constraint \<Rightarrow> constraint_eval_result
     \<Rightarrow> (string list \<times> constraint_warning list) res" where
  "mixin_failure index st c result =
     (if ev_Passed result then Inr st
      else (let affected = (case map_of index (co_Name c) of None \<Rightarrow> [] | Some cs \<Rightarrow> cs) in
            if length affected = 0 then Inl (err_new ErrCodeInternal ''failed to map mixin constraint to candidate chain'' [])
            else Inr (fst st @ affected,
                      snd st @ map (\<lambda>candidate.
                        \<lparr>cw_Overlay = candidate, cw_Constraint = co_Name c, cw_Expected = co_Value c,
                         cw_Actual = ev_Actual result, cw_Reason = build_mixin_constraint_warning_reason c result\<rparr>) affected)))"

text \<open>One round of the loop over the composed constraints; state: failed candidates and warnings.\<close>

definition evaluate_mixin_constraint ::
  "evaluator \<Rightarrow> string list \<Rightarrow> (string \<times> string list) list \<Rightarrow> string list \<times> constraint_warning list \<Rightarrow> constraint
     \<Rightarrow> (string list \<times> constraint_warning list) res" where
  "evaluate_mixin_constraint evaluator contributed index st c =
     (if co_Name c \<notin> set contributed then Inr st
      else (case validate_constraint_warning_source c of
        Inl err \<Rightarrow> Inl err
      | Inr _ \<Rightarrow>
          (let result = evaluator c in
           case ev_Error result of
             None \<Rightarrow> mixin_failure index st c result
           | Some err \<Rightarrow>
               if \<not> is_not_found_eval_error err
               then Inl (propagate_or_wrap ErrCodeInternal ''constraint evaluation failed'' err)
               else mixin_failure index st c result)))"

definition surviving_candidate ::
  "metadata_store \<Rightarrow> string list \<Rightarrow> recipe_metadata list \<Rightarrow> string \<Rightarrow> recipe_metadata list res" where
  "surviving_candidate s failed acc name =
     (if name \<in> set failed then Inr acc
      else (case map_of (ms_Overlays s) name of
              None \<Rightarrow> Inl (err_new ErrCodeNotFound ''overlay %q not found during mixin fallback rebuild'' [name])
            | Some ov \<Rightarrow> Inr (acc @ [ov])))"

definition rebuild_without ::
  "metadata_store \<Rightarrow> string list \<Rightarrow> constraint_warning list \<Rightarrow> string list \<Rightarrow> mixin_eval_result res" where
  "rebuild_without s failed warnings candidates =
     res_bind (res_fold (surviving_candidate s failed) [] candidates) (\<lambda>surviving.
     res_bind (merge_overlay_chains s surviving (init_base_merged_spec s)) (\<lambda>(spec, applied).
     res_bind (merge_mixins s spec) (\<lambda>(spec', _).
       Inr \<lparr>me_Failed = True,
            me_Excluded = map (\<lambda>n. \<lparr>xo_Name = n, xo_Reason = MixinConstraintFailed\<rparr>) (filter (\<lambda>n. n \<in> set failed) candidates),
            me_Warnings = warnings, me_Spec = Some spec', me_Applied = applied\<rparr>)))"

definition evaluate_mixin_constraints ::
  "metadata_store \<Rightarrow> recipe_metadata_spec \<Rightarrow> evaluator option \<Rightarrow> string list \<Rightarrow> string list \<Rightarrow> mixin_eval_result res" where
  "evaluate_mixin_constraints s spec evaluator contributed candidates =
     (case evaluator of
        None \<Rightarrow> Inr no_mixin_failure
      | Some ev \<Rightarrow>
          if length contributed = 0 then Inr no_mixin_failure
          else res_bind (build_mixin_constraint_candidate_index s candidates) (\<lambda>index.
               res_bind (res_fold (evaluate_mixin_constraint ev contributed index) ([], []) (rs_Constraints spec))
                 (\<lambda>(failed, warnings).
                    if length warnings = 0 then Inr no_mixin_failure
                    else rebuild_without s failed warnings candidates)))"


subsection \<open>What merging mixins does to the composed recipe\<close>

definition contributes :: "metadata_store \<Rightarrow> string list \<Rightarrow> string \<Rightarrow> bool" where
  "contributes s mixins k \<longleftrightarrow>
     (\<exists>m \<in> set mixins. \<exists>mx. map_of (ms_Mixins s) m = Some mx \<and> k \<in> co_Name ` set (mx_Constraints mx))"

definition provided :: "metadata_store \<Rightarrow> string list \<Rightarrow> string \<Rightarrow> constraint \<Rightarrow> bool" where
  "provided s mixins k c \<longleftrightarrow>
     (\<exists>m \<in> set mixins. \<exists>mx. map_of (ms_Mixins s) m = Some mx \<and> by_key co_Name (rev (mx_Constraints mx)) k = Some c)"

text \<open>The fields a mixin may change: the namespace and the two lists of manifests.\<close>

definition identity_fields :: "component_ref \<Rightarrow> component_ref" where
  "identity_fields r = r \<lparr>cr_Namespace := [], cr_ManifestFiles := [], cr_PreManifestFiles := []\<rparr>"

definition same_identity :: "component_ref \<Rightarrow> component_ref \<Rightarrow> bool" where
  "same_identity r r' \<longleftrightarrow>
     identity_fields r' = identity_fields r \<and>
     set (cr_ManifestFiles r) \<subseteq> set (cr_ManifestFiles r') \<and> set (cr_PreManifestFiles r) \<subseteq> set (cr_PreManifestFiles r')"

lemma contributes_provided: "contributes s mixins k \<longleftrightarrow> (\<exists>c. provided s mixins k c)"
proof -
  have "(\<exists>c. by_key co_Name (rev cs) k = Some c) \<longleftrightarrow> k \<in> co_Name ` set cs" for cs
    using by_key_None [of co_Name "rev cs" k] by (cases "by_key co_Name (rev cs) k") auto
  then show ?thesis unfolding contributes_def provided_def by metis
qed

lemma mixin_conflict_None:
  assumes "mixin_conflict n mx cn rn = None"
  shows "c \<in> set (mx_Constraints mx) \<Longrightarrow> co_Name c \<notin> set cn"
    "r \<in> set (mx_ComponentRefs mx) \<Longrightarrow> cr_Name r \<in> set rn \<Longrightarrow> mixin_ref_offending_field r = None"
  using assms unfolding mixin_conflict_def by (auto simp: find_None_iff split: option.splits)

lemma offending_None:
  assumes "mixin_ref_offending_field c = None"
  shows "cr_Chart c = []" "cr_Type c = []" "cr_Source c = []" "cr_Version c = []" "cr_Tag c = []" "cr_Path c = []"
    "cr_ValuesFile c = []" "merge_overrides ov (cr_Overrides c) = ov" "cr_Patches c = []" "cr_DependencyRefs c = []"
    "\<not> cr_Cleanup c" "cr_ExpectedResources c = []" "cr_HealthCheckAsserts c = []" "\<not> cr_HealthCheckSkip c"
  using assms unfolding mixin_ref_offending_field_def merge_overrides_def
  by (simp_all split: if_splits option.splits list.splits)

lemma safe_ref_keeps_identity:
  assumes "mixin_ref_offending_field c = None" "same_identity r u"
  shows "same_identity r (merge_component_ref u c)"
proof -
  have "identity_fields (merge_component_ref u c) = identity_fields u"
    by (rule component_ref.equality)
      (simp_all add: identity_fields_def merge_component_ref_def override_string_def override_list_def
        offending_None [OF assms(1)])
  moreover have "cr_ManifestFiles (merge_component_ref u c) = append_new (cr_ManifestFiles u) (cr_ManifestFiles c)"
    "cr_PreManifestFiles (merge_component_ref u c) = append_new (cr_PreManifestFiles u) (cr_PreManifestFiles c)"
    by (simp_all add: merge_component_ref_def)
  ultimately show ?thesis using assms(2) by (auto simp: same_identity_def)
qed

lemma same_identity_refl [simp]: "same_identity r r"
  by (simp add: same_identity_def)

lemma same_identity_trans: "same_identity a b \<Longrightarrow> same_identity b c \<Longrightarrow> same_identity a c"
  by (auto simp: same_identity_def)

definition mixins_applied ::
  "metadata_store \<Rightarrow> recipe_metadata_spec \<Rightarrow> string list \<Rightarrow> mixin_state \<Rightarrow> bool" where
  "mixins_applied s spec0 mixins st \<longleftrightarrow>
     (case st of (spec, cnames, rnames, contributed) \<Rightarrow>
        spec_wf spec \<and>
        set cnames = co_Name ` set (rs_Constraints spec) \<and> set rnames = cr_Name ` set (rs_ComponentRefs spec) \<and>
        set contributed = {k. contributes s mixins k} \<and>
        (\<forall>k. contributes s mixins k \<longrightarrow> by_key co_Name (rs_Constraints spec0) k = None) \<and>
        (\<forall>k c. provided s mixins k c \<longrightarrow> by_key co_Name (rs_Constraints spec) k = Some c) \<and>
        (\<forall>k. \<not> contributes s mixins k \<longrightarrow> by_key co_Name (rs_Constraints spec) k = by_key co_Name (rs_Constraints spec0) k) \<and>
        (\<forall>k r. by_key cr_Name (rs_ComponentRefs spec0) k = Some r \<longrightarrow>
           (\<exists>r'. by_key cr_Name (rs_ComponentRefs spec) k = Some r' \<and> same_identity r r')) \<and>
        rs_Validation spec = rs_Validation spec0)"


lemma contributes_snoc:
  assumes "map_of (ms_Mixins s) m = Some mx"
  shows "contributes s (mixins @ [m]) k \<longleftrightarrow> contributes s mixins k \<or> k \<in> co_Name ` set (mx_Constraints mx)"
    "provided s (mixins @ [m]) k c \<longleftrightarrow> provided s mixins k c \<or> by_key co_Name (rev (mx_Constraints mx)) k = Some c"
  using assms by (auto simp: contributes_def provided_def)

lemma merge_mixin_applied:
  assumes "mixins_applied s spec0 mixins st" "merge_mixin s st m = Inr st'"
  shows "mixins_applied s spec0 (mixins @ [m]) st'"
proof -
  obtain spec cn rn contrib where st: "st = (spec, cn, rn, contrib)" by (cases st)
  obtain mx where mx: "map_of (ms_Mixins s) m = Some mx" "mixin_conflict m mx cn rn = None"
    using assms(2) by (auto simp: merge_mixin_def st split: option.splits)
  let ?ov = "empty_spec \<lparr>rs_Constraints := mx_Constraints mx, rs_ComponentRefs := mx_ComponentRefs mx\<rparr>"
  let ?spec = "merge_spec spec (Some ?ov)"
  have st': "st' = (?spec, map co_Name (mx_Constraints mx) @ cn, map cr_Name (mx_ComponentRefs mx) @ rn,
      map co_Name (mx_Constraints mx) @ contrib)"
    using assms(2) mx by (simp add: merge_mixin_def st)
  have inv: "spec_wf spec" "set cn = co_Name ` set (rs_Constraints spec)" "set rn = cr_Name ` set (rs_ComponentRefs spec)"
    "set contrib = {k. contributes s mixins k}"
    "\<And>k. contributes s mixins k \<Longrightarrow> by_key co_Name (rs_Constraints spec0) k = None"
    "\<And>k c. provided s mixins k c \<Longrightarrow> by_key co_Name (rs_Constraints spec) k = Some c"
    "\<And>k. \<not> contributes s mixins k \<Longrightarrow> by_key co_Name (rs_Constraints spec) k = by_key co_Name (rs_Constraints spec0) k"
    "\<And>k r. by_key cr_Name (rs_ComponentRefs spec0) k = Some r \<Longrightarrow>
       \<exists>r'. by_key cr_Name (rs_ComponentRefs spec) k = Some r' \<and> same_identity r r'"
    "rs_Validation spec = rs_Validation spec0"
    using assms(1) unfolding mixins_applied_def st by auto
  have dist: "distinct (map co_Name (rs_Constraints spec))" "distinct (map cr_Name (rs_ComponentRefs spec))"
    using inv(1) by (simp_all add: spec_wf_def)
  have cs: "rs_Constraints ?spec = merge_lists co_Name replace_constraint (rs_Constraints spec) (mx_Constraints mx)"
    and rs: "rs_ComponentRefs ?spec = merge_lists cr_Name merge_component_ref (rs_ComponentRefs spec) (mx_ComponentRefs mx)"
    by (simp_all add: merge_spec_def)
  have lookup: "by_key co_Name (rs_Constraints ?spec) k =
      (case by_key co_Name (rev (mx_Constraints mx)) k of Some y \<Rightarrow> Some y | None \<Rightarrow> by_key co_Name (rs_Constraints spec) k)" for k
    unfolding cs by (rule constraints_lookup [OF dist(1)])
  have fresh: "by_key co_Name (rs_Constraints spec) k = None" if "k \<in> co_Name ` set (mx_Constraints mx)" for k
    using that mixin_conflict_None(1) [OF mx(2)] inv(2) by (auto simp: by_key_None)
  have none: "by_key co_Name (rev (mx_Constraints mx)) k = None \<longleftrightarrow> k \<notin> co_Name ` set (mx_Constraints mx)" for k
    by (simp add: by_key_None)
  have new_fresh: "by_key co_Name (rs_Constraints spec0) k = None" if "k \<in> co_Name ` set (mx_Constraints mx)" for k
    using inv(5,7) [of k] fresh [OF that] by (cases "contributes s mixins k") auto
  have "by_key co_Name (rs_Constraints ?spec) k = Some c" if asm: "provided s mixins k c" for k c
  proof -
    have "by_key co_Name (rs_Constraints spec) k = Some c" using inv(6) [OF asm] .
    then show ?thesis using fresh [of k] none [of k] by (auto simp: lookup)
  qed
  moreover have "\<exists>r'. by_key cr_Name (rs_ComponentRefs ?spec) k = Some r' \<and> same_identity r r'"
    if asm: "by_key cr_Name (rs_ComponentRefs spec0) k = Some r" for k r
  proof -
    obtain r' where r': "by_key cr_Name (rs_ComponentRefs spec) k = Some r'" "same_identity r r'" using inv(8) [OF asm] by blast
    have mem: "k \<in> set rn" using by_key_Some [OF r'(1)] inv(3) by auto
    have "\<exists>z. by_key cr_Name (rs_ComponentRefs ?spec) k = Some z \<and> same_identity r' z"
      unfolding rs
      by (rule components.merge_lists_relates [OF dist(2) r'(1)])
        (use mixin_conflict_None(2) [OF mx(2)] safe_ref_keeps_identity mem in auto)
    then show ?thesis using same_identity_trans [OF r'(2)] by blast
  qed
  moreover have "set (map co_Name (mx_Constraints mx) @ cn) = co_Name ` set (rs_Constraints ?spec)"
    "set (map cr_Name (mx_ComponentRefs mx) @ rn) = cr_Name ` set (rs_ComponentRefs ?spec)"
    unfolding cs rs constraints.merge_lists_all_keys components.merge_lists_all_keys by (auto simp: inv(2,3))
  moreover have "set (map co_Name (mx_Constraints mx) @ contrib) = {k. contributes s (mixins @ [m]) k}"
    by (auto simp: inv(4) contributes_snoc(1) [OF mx(1)])
  moreover have "rs_Validation ?spec = rs_Validation spec0"
    by (simp add: merge_spec_def merge_validation_def inv(9) empty_spec_def)
  moreover have "by_key co_Name (rs_Constraints ?spec) k = by_key co_Name (rs_Constraints spec0) k"
    if asm: "\<not> (contributes s mixins k \<or> k \<in> co_Name ` set (mx_Constraints mx))" for k
    using asm inv(7) [of k] none [of k] by (simp add: lookup)
  ultimately show ?thesis
    unfolding mixins_applied_def st' prod.case contributes_snoc [OF mx(1)]
    using spec_wf_merge [OF inv(1)] inv(5) new_fresh by (simp add: lookup)
qed


lemma merge_mixins_fold:
  assumes "res_fold (merge_mixin s) st mixins = Inr st'" "mixins_applied s spec0 before st"
  shows "mixins_applied s spec0 (before @ mixins) st'"
  using assms
proof (induction mixins arbitrary: st before)
  case (Cons m mixins)
  then obtain st1 where "merge_mixin s st m = Inr st1" "res_fold (merge_mixin s) st1 mixins = Inr st'"
    by (auto split: sum.splits)
  then show ?case using Cons.IH [of st1 "before @ [m]"] merge_mixin_applied [OF Cons.prems(2)] by simp
qed simp

lemma mixins_applied_init:
  "spec_wf spec \<Longrightarrow>
   mixins_applied s spec [] (spec, map co_Name (rs_Constraints spec), map cr_Name (rs_ComponentRefs spec), [])"
  by (auto simp: mixins_applied_def contributes_def provided_def)

lemma merge_mixins_applied:
  assumes "merge_mixins s spec = Inr (spec', contributed)" "spec_wf spec"
  shows "(\<exists>cn rn. mixins_applied s spec (rs_Mixins spec) (spec', cn, rn, contributed)) \<and> rs_Mixins spec' = []"
proof (cases "rs_Mixins spec = []")
  case True
  then show ?thesis
    using assms mixins_applied_init [OF assms(2), of s] by (auto simp: merge_mixins_def)
next
  case False
  let ?st = "(spec, map co_Name (rs_Constraints spec), map cr_Name (rs_ComponentRefs spec), [])"
  obtain spec1 cn rn where f: "res_fold (merge_mixin s) ?st (rs_Mixins spec) = Inr (spec1, cn, rn, contributed)"
    and spec': "spec' = spec1 \<lparr>rs_Mixins := []\<rparr>"
    using assms(1) False by (auto simp: merge_mixins_def split: sum.splits)
  have "mixins_applied s spec (rs_Mixins spec) (spec1, cn, rn, contributed)"
    using merge_mixins_fold [OF f mixins_applied_init [OF assms(2)]] by simp
  then show ?thesis by (auto simp: spec' mixins_applied_def spec_wf_def)
qed

text \<open>
  Property C9: mixins add but never override. When the mixins merge, every constraint the chains composed is still
  there unchanged, every component they composed is still there with the same identity,
  sources, values, dependencies and health check (only its namespace may differ and its manifests may
  have grown), the readiness and validation phases are untouched, and the names reported as
  mixin-contributed are exactly the constraints that were not there before; the list of mixins is cleared.
\<close>

theorem mixins_never_override:
  assumes "merge_mixins s spec = Inr (spec', contributed)" "spec_wf spec"
  shows "spec_wf spec' \<and> rs_Mixins spec' = [] \<and> rs_Validation spec' = rs_Validation spec \<and>
     (\<forall>c \<in> set (rs_Constraints spec). c \<in> set (rs_Constraints spec')) \<and>
     (\<forall>r \<in> set (rs_ComponentRefs spec). \<exists>r' \<in> set (rs_ComponentRefs spec').
        identity_fields r' = identity_fields r \<and>
        set (cr_ManifestFiles r) \<subseteq> set (cr_ManifestFiles r') \<and> set (cr_PreManifestFiles r) \<subseteq> set (cr_PreManifestFiles r')) \<and>
     set contributed = co_Name ` set (rs_Constraints spec') - co_Name ` set (rs_Constraints spec)"
proof -
  obtain cn rn where inv: "mixins_applied s spec (rs_Mixins spec) (spec', cn, rn, contributed)" and mx: "rs_Mixins spec' = []"
    using merge_mixins_applied [OF assms] by blast
  have facts: "spec_wf spec'" "rs_Validation spec' = rs_Validation spec"
    "\<And>k. contributes s (rs_Mixins spec) k \<Longrightarrow> by_key co_Name (rs_Constraints spec) k = None"
    "\<And>k. \<not> contributes s (rs_Mixins spec) k \<Longrightarrow> by_key co_Name (rs_Constraints spec') k = by_key co_Name (rs_Constraints spec) k"
    "\<And>k c. provided s (rs_Mixins spec) k c \<Longrightarrow> by_key co_Name (rs_Constraints spec') k = Some c"
    "set contributed = {k. contributes s (rs_Mixins spec) k}"
    "\<And>k r. by_key cr_Name (rs_ComponentRefs spec) k = Some r \<Longrightarrow>
       \<exists>r'. by_key cr_Name (rs_ComponentRefs spec') k = Some r' \<and> same_identity r r'"
    using inv by (auto simp: mixins_applied_def)
  have c: "c \<in> set (rs_Constraints spec')" if "c \<in> set (rs_Constraints spec)" for c
  proof -
    have "by_key co_Name (rs_Constraints spec) (co_Name c) = Some c"
      using by_key_distinct that assms(2) by (metis spec_wf_def)
    then show ?thesis using facts(3,4) [of "co_Name c"] by_key_Some by (metis option.distinct(1))
  qed
  have r: "\<exists>r' \<in> set (rs_ComponentRefs spec'). same_identity r r'" if "r \<in> set (rs_ComponentRefs spec)" for r
  proof -
    have "by_key cr_Name (rs_ComponentRefs spec) (cr_Name r) = Some r"
      using that assms(2) by (simp only: spec_wf_def by_key_distinct)
    from facts(7) [OF this] show ?thesis by (auto dest: by_key_Some)
  qed
  have iff: "k \<in> co_Name ` set (rs_Constraints spec') - co_Name ` set (rs_Constraints spec) \<longleftrightarrow>
      contributes s (rs_Mixins spec) k" for k
  proof (cases "contributes s (rs_Mixins spec) k")
    case True
    then obtain c where "by_key co_Name (rs_Constraints spec') k = Some c" using facts(5) contributes_provided by blast
    then have "k \<in> co_Name ` set (rs_Constraints spec')" by (auto dest: by_key_Some)
    then show ?thesis using True facts(3) [OF True] by (simp add: by_key_None)
  next
    case False
    have "k \<in> co_Name ` set (rs_Constraints spec') \<longleftrightarrow> k \<in> co_Name ` set (rs_Constraints spec)"
      using facts(4) [OF False] by_key_None [of co_Name _ k] by metis
    then show ?thesis using False by blast
  qed
  show ?thesis
    unfolding facts(2,6) set_eq_iff mem_Collect_eq iff
    using facts(1) mx c r by (simp add: same_identity_def)
qed

definition sample_mixin :: recipe_mixin where
  "sample_mixin =
     \<lparr>mx_Kind = ''RecipeMixin'', mx_APIVersion = ''aicr.run/v1alpha2'', mx_Name = ''os-ubuntu'',
      mx_Constraints = [\<lparr>co_Name = ''OS.sysctl.kernel'', co_Value = ''>= 6.8'', co_Severity = [], co_Remediation = [], co_Unit = []\<rparr>],
      mx_ComponentRefs = [(empty_ref ''gpu-operator'') \<lparr>cr_ManifestFiles := [''talos.yaml'']\<rparr>]\<rparr>"


definition ubuntu_store :: metadata_store where
  "ubuntu_store =
     sample_store \<lparr>ms_Overlays :=
         [(''eks'', (overlay_of ''eks'' [] None)
              \<lparr>rm_Spec := empty_spec \<lparr>rs_Base := ''base'', rs_Criteria := Some (new_criteria \<lparr>c_Service := ''eks''\<rparr>), rs_Mixins := [''os-ubuntu''],
                   rs_ComponentRefs := [(empty_ref ''gpu-operator'') \<lparr>cr_Version := ''v1''\<rparr>]\<rparr>\<rparr>),
          (''monitoring'', overlay_of ''monitoring'' [] (Some new_criteria))],
       ms_Mixins := [(''os-ubuntu'', sample_mixin)]\<rparr>"

definition eks_spec :: recipe_metadata_spec where
  "eks_spec = empty_spec \<lparr>rs_Mixins := [''os-ubuntu''], rs_ComponentRefs := [(empty_ref ''gpu-operator'') \<lparr>cr_Version := ''v1''\<rparr>]\<rparr>"

lemma mixins_never_override_witness:
  "\<exists>spec' contributed. merge_mixins ubuntu_store eks_spec = Inr (spec', contributed) \<and>
     (\<forall>r \<in> set (rs_ComponentRefs eks_spec). \<exists>r' \<in> set (rs_ComponentRefs spec'). identity_fields r' = identity_fields r)"
proof -
  have "is_ok (merge_mixins ubuntu_store eks_spec)" by code_simp
  then obtain spec' contributed where m: "merge_mixins ubuntu_store eks_spec = Inr (spec', contributed)" by (auto simp: is_ok_iff)
  have "spec_wf eks_spec" by (simp add: spec_wf_def eks_spec_def empty_spec_def)
  from mixins_never_override [OF m this] have
    "\<forall>r \<in> set (rs_ComponentRefs eks_spec). \<exists>r' \<in> set (rs_ComponentRefs spec'). identity_fields r' = identity_fields r"
    by (elim conjE) fast
  then show ?thesis using m by blast
qed

subsection \<open>The candidate index\<close>

definition chain_mixins :: "recipe_metadata list \<Rightarrow> string list" where
  "chain_mixins chain = concat (map (\<lambda>recipe. rs_Mixins (rm_Spec recipe)) chain)"

lemma set_candidate_constraints: "set (candidate_constraints s chain) = {k. contributes s (chain_mixins chain) k}"
  by (auto simp: candidate_constraints_def contributes_def chain_mixins_def split: option.splits) force+

lemma index_fold_lookup:
  "distinct ks \<Longrightarrow>
   map_of (foldl (\<lambda>m n. upsert n ((case map_of m n of Some cs \<Rightarrow> cs | None \<Rightarrow> []) @ [cand]) m) index ks) k =
     (if k \<in> set ks then Some ((case map_of index k of Some cs \<Rightarrow> cs | None \<Rightarrow> []) @ [cand]) else map_of index k)"
  by (induction ks rule: rev_induct) auto

definition indexed :: "(string \<times> string list) list \<Rightarrow> string \<Rightarrow> string list" where
  "indexed index k = (case map_of index k of None \<Rightarrow> [] | Some cs \<Rightarrow> cs)"

lemma build_index:
  assumes "build_mixin_constraint_candidate_index s candidates = Inr index"
  shows "set (indexed index k) =
     {n \<in> set candidates. \<exists>chain. resolve_inheritance_chain s n = Inr chain \<and> contributes s (chain_mixins chain) k}"
  using assms unfolding build_mixin_constraint_candidate_index_def
proof (induction candidates arbitrary: index rule: rev_induct)
  case Nil
  then show ?case by (simp add: indexed_def)
next
  case (snoc n candidates)
  then obtain ix where ix: "res_fold (index_candidate s) [] candidates = Inr ix" "index_candidate s ix n = Inr index"
    by (auto simp: res_fold_snoc)
  obtain chain where chain: "resolve_inheritance_chain s n = Inr chain"
    "index = foldl (\<lambda>m k. upsert k ((case map_of m k of Some cs \<Rightarrow> cs | None \<Rightarrow> []) @ [n]) m) ix (candidate_constraints s chain)"
    using ix(2) by (auto simp: index_candidate_def split: sum.splits)
  have "distinct (candidate_constraints s chain)" by (simp add: candidate_constraints_def)
  then have "set (indexed index k) = set (indexed ix k) \<union> (if contributes s (chain_mixins chain) k then {n} else {})"
    unfolding chain(2) indexed_def by (auto simp: index_fold_lookup set_candidate_constraints split: option.splits)
  also have "set (indexed ix k) =
      {n \<in> set candidates. \<exists>chain. resolve_inheritance_chain s n = Inr chain \<and> contributes s (chain_mixins chain) k}"
    using snoc.IH [OF ix(1)] .
  finally show ?case using chain(1) by auto
qed

subsection \<open>The evaluation loop\<close>

text \<open>What the loop has established after the constraints \<open>seen\<close>.\<close>

definition blamed :: "evaluator \<Rightarrow> string list \<Rightarrow> (string \<times> string list) list \<Rightarrow> constraint list \<Rightarrow> string list \<times> constraint_warning list \<Rightarrow> bool" where
  "blamed ev contributed index seen st \<longleftrightarrow>
     (\<forall>c \<in> set seen. co_Name c \<in> set contributed \<longrightarrow> \<not> ev_Passed (ev c) \<longrightarrow>
        indexed index (co_Name c) \<noteq> [] \<and> set (indexed index (co_Name c)) \<subseteq> set (fst st) \<and> snd st \<noteq> [])"

lemma evaluate_one_blames:
  assumes "evaluate_mixin_constraint ev contributed index st c = Inr st'" "blamed ev contributed index seen st"
  shows "blamed ev contributed index (seen @ [c]) st'"
proof -
  have grow: "set (fst st) \<subseteq> set (fst st') \<and> (snd st \<noteq> [] \<longrightarrow> snd st' \<noteq> [])"
    using assms(1)
    by (auto simp: evaluate_mixin_constraint_def mixin_failure_def Let_def split: if_splits sum.splits option.splits)
  have "indexed index (co_Name c) \<noteq> [] \<and> set (indexed index (co_Name c)) \<subseteq> set (fst st') \<and> snd st' \<noteq> []"
    if "co_Name c \<in> set contributed" "\<not> ev_Passed (ev c)"
    using assms(1) that
    by (auto simp: evaluate_mixin_constraint_def mixin_failure_def Let_def indexed_def split: if_splits sum.splits option.splits)
  then show ?thesis using assms(2) grow by (auto simp: blamed_def)
qed

lemma evaluation_blames:
  assumes "res_fold (evaluate_mixin_constraint ev contributed index) st cs = Inr st'" "blamed ev contributed index seen st"
  shows "blamed ev contributed index (seen @ cs) st'"
  using assms
proof (induction cs arbitrary: st seen)
  case (Cons c cs)
  then obtain st1 where "evaluate_mixin_constraint ev contributed index st c = Inr st1"
    "res_fold (evaluate_mixin_constraint ev contributed index) st1 cs = Inr st'"
    by (auto split: sum.splits)
  then show ?case using Cons.IH [of st1 "seen @ [c]"] evaluate_one_blames [OF _ Cons.prems(2)] by simp
qed simp

lemma surviving_fold:
  "res_fold (surviving_candidate s failed) acc candidates = Inr surv \<Longrightarrow>
   \<exists>ovs. surv = acc @ ovs \<and> (\<forall>ov \<in> set ovs. \<exists>n \<in> set candidates. n \<notin> set failed \<and> map_of (ms_Overlays s) n = Some ov)"
proof (induction candidates arbitrary: acc)
  case (Cons n candidates)
  then obtain acc1 where acc1: "surviving_candidate s failed acc n = Inr acc1" "res_fold (surviving_candidate s failed) acc1 candidates = Inr surv"
    by (auto split: sum.splits)
  from Cons.IH [OF acc1(2)] acc1(1) show ?case
    by (auto simp: surviving_candidate_def split: if_splits option.splits)
qed simp


subsection \<open>The fallback is sound\<close>

definition compose_names :: "metadata_store \<Rightarrow> string list \<Rightarrow> recipe_metadata_spec" where
  "compose_names s names = foldl merge_spec (fst (init_base_merged_spec s)) (map (overlay_spec s) names)"

lemma compose_names_snoc:
  "map_of (ms_Overlays s) n = Some r \<Longrightarrow> compose_names s (names @ [n]) = merge_spec (compose_names s names) (Some (rm_Spec r))"
  by (simp add: compose_names_def overlay_spec_def)

lemma compose_names_facts:
  assumes "\<forall>n \<in> set names. map_of (ms_Overlays s) n \<noteq> None"
  shows "set (rs_Mixins (compose_names s names)) =
       {m. \<exists>n \<in> set names. \<exists>r. map_of (ms_Overlays s) n = Some r \<and> m \<in> set (rs_Mixins (rm_Spec r))}"
    "co_Name ` set (rs_Constraints (compose_names s names)) = co_Name ` set (rs_Constraints (rm_Spec (ms_Base s))) \<union>
       {k. \<exists>n \<in> set names. \<exists>r. map_of (ms_Overlays s) n = Some r \<and> k \<in> co_Name ` set (rs_Constraints (rm_Spec r))}"
    "spec_wf (rm_Spec (ms_Base s)) \<Longrightarrow> spec_wf (compose_names s names)"
  using assms
proof (induction names rule: rev_induct)
  case Nil
  { case 1 show ?case by (simp add: compose_names_def init_base_merged_spec_def empty_spec_def) }
  { case 2 show ?case by (simp add: compose_names_def init_base_merged_spec_def) }
  { case 3 then show ?case by (simp add: compose_names_def init_base_merged_spec_def spec_wf_def) }
next
  case (snoc n names)
  { case 1
    then obtain r where r: "map_of (ms_Overlays s) n = Some r" by auto
    show ?case using snoc(1) 1 r by (auto simp: compose_names_snoc [OF r] merge_spec_def) }
  { case 2
    then obtain r where r: "map_of (ms_Overlays s) n = Some r" by auto
    show ?case using snoc(2) 2 r unfolding compose_names_snoc [OF r] constraint_names_merge by auto }
  { case 3
    then obtain r where r: "map_of (ms_Overlays s) n = Some r" by auto
    show ?case using snoc(3) 3 unfolding compose_names_snoc [OF r] by (auto intro: spec_wf_merge) }
qed

lemma links_up_stored: "links_up s n c \<Longrightarrow> store_wf s \<Longrightarrow> q \<in> set c \<Longrightarrow> map_of (ms_Overlays s) (rm_Name q) = Some q"
  by (induction s n c rule: links_up.induct) (auto simp: store_wf_name)

lemma base_first_stored: "base_first s names \<Longrightarrow> \<forall>n \<in> set names. map_of (ms_Overlays s) n \<noteq> None"
  by (force simp: base_first_def in_set_conv_nth)

lemma merged_chains:
  assumes "store_wf s" "merge_overlay_chains s overlays (init_base_merged_spec s) = Inr (spec, applied)"
  shows "\<exists>names. spec = compose_names s names \<and> (\<forall>n \<in> set names. map_of (ms_Overlays s) n \<noteq> None) \<and>
     applied = base_recipe_name # names \<and>
     set names = (\<Union>ov \<in> set overlays. {a. on_path s (rm_Name ov) a}) \<and> (\<forall>ov \<in> set overlays. reaches_root s (rm_Name ov))"
  using merge_overlay_chains_cases [OF assms(1), of overlays] assms(2) base_first_stored
  by (auto simp: compose_names_def)

text \<open>A mixin of a composed recipe is a mixin of the chain of one of its candidates.\<close>

lemma mixin_of_candidate:
  assumes "store_wf s" "spec = compose_names s names" "\<forall>n \<in> set names. map_of (ms_Overlays s) n \<noteq> None"
    "set names = (\<Union>ov \<in> set overlays. {a. on_path s (rm_Name ov) a})" "\<forall>ov \<in> set overlays. reaches_root s (rm_Name ov)"
    "contributes s (rs_Mixins spec) k"
  shows "\<exists>ov \<in> set overlays. \<exists>chain. resolve_inheritance_chain s (rm_Name ov) = Inr chain \<and> contributes s (chain_mixins chain) k"
proof -
  obtain m mx where m: "m \<in> set (rs_Mixins spec)" "map_of (ms_Mixins s) m = Some mx" "k \<in> co_Name ` set (mx_Constraints mx)"
    using assms(6) by (auto simp: contributes_def)
  obtain n r where n: "n \<in> set names" "map_of (ms_Overlays s) n = Some r" "m \<in> set (rs_Mixins (rm_Spec r))"
    using m(1) compose_names_facts(1) [OF assms(3)] assms(2) by auto
  obtain ov where ov: "ov \<in> set overlays" "on_path s (rm_Name ov) n" using n(1) assms(4) by auto
  obtain chain where "resolve_inheritance_chain s (rm_Name ov) = Inr chain"
    using resolve_ok_iff [of s "rm_Name ov"] assms(5) ov(1) by (auto simp: is_ok_iff)
  moreover then obtain c where c: "chain = ms_Base s # rev c" "links_up s (rm_Name ov) c" by (auto simp: resolve_Inr)
  moreover have "r \<in> set c"
  proof -
    have "n \<in> rm_Name ` set c" using ov(2) links_up_path [OF c(2) assms(1)] by simp
    moreover have "\<forall>q \<in> set c. map_of (ms_Overlays s) (rm_Name q) = Some q"
      using links_up_stored [OF c(2) assms(1)] by blast
    ultimately show ?thesis using n(2) by auto
  qed
  then have "contributes s (chain_mixins chain) k"
    using m(2,3) n(3) c(1) by (auto simp: contributes_def chain_mixins_def)
  ultimately show ?thesis using ov(1) by blast
qed


lemma rebuild_Inr:
  assumes "rebuild_without s failed warnings candidates = Inr r"
  obtains surv spec applied spec' contributed where
    "\<forall>ov \<in> set surv. \<exists>n \<in> set candidates. n \<notin> set failed \<and> map_of (ms_Overlays s) n = Some ov"
    "merge_overlay_chains s surv (init_base_merged_spec s) = Inr (spec, applied)"
    "merge_mixins s spec = Inr (spec', contributed)"
    "me_Spec r = Some spec'" "me_Applied r = applied" "xo_Name ` set (me_Excluded r) \<subseteq> set candidates"
proof -
  obtain surv spec applied spec' contributed where r: "res_fold (surviving_candidate s failed) [] candidates = Inr surv"
    "merge_overlay_chains s surv (init_base_merged_spec s) = Inr (spec, applied)"
    "merge_mixins s spec = Inr (spec', contributed)"
    "r = \<lparr>me_Failed = True,
          me_Excluded = map (\<lambda>n. \<lparr>xo_Name = n, xo_Reason = MixinConstraintFailed\<rparr>) (filter (\<lambda>n. n \<in> set failed) candidates),
          me_Warnings = warnings, me_Spec = Some spec', me_Applied = applied\<rparr>"
    using assms by (auto simp: rebuild_without_def res_simps)
  have "xo_Name ` set (me_Excluded r) \<subseteq> set candidates" by (auto simp: r(4))
  with that [OF _ r(2,3)] surviving_fold [OF r(1)] show thesis by (simp add: r(4))
qed

lemma evaluate_mixins_failed:
  assumes "evaluate_mixin_constraints s spec (Some ev) contributed candidates = Inr r" "me_Failed r"
  obtains index failed warnings where
    "build_mixin_constraint_candidate_index s candidates = Inr index"
    "blamed ev contributed index (rs_Constraints spec) (failed, warnings)"
    "rebuild_without s failed warnings candidates = Inr r"
proof -
  obtain index failed warnings where ix: "build_mixin_constraint_candidate_index s candidates = Inr index"
    "res_fold (evaluate_mixin_constraint ev contributed index) ([], []) (rs_Constraints spec) = Inr (failed, warnings)"
    "rebuild_without s failed warnings candidates = Inr r"
    using assms by (auto simp: evaluate_mixin_constraints_def no_mixin_failure_def res_simps split: if_splits prod.splits)
  have "blamed ev contributed index [] ([], [])" by (simp add: blamed_def)
  from that [OF ix(1) _ ix(3)] evaluation_blames [OF ix(2) this] show thesis by simp
qed

text \<open>
  The fallback after a failing mixin constraint is sound. In the recipe rebuilt from the surviving
  candidates, every constraint that a mixin contributes is one that was evaluated before and passed
  against the snapshot, with the same value, and every recipe applied was already applied; the
  candidates excluded are candidates that were composed.
\<close>

theorem mixin_fallback_sound:
  assumes "store_wf s" "spec_wf (rm_Spec (ms_Base s))"
    and "merge_overlay_chains s overlays (init_base_merged_spec s) = Inr (spec, applied)"
    and "merge_mixins s spec = Inr (spec1, contributed)"
    and "evaluate_mixin_constraints s spec1 (Some ev) contributed (map rm_Name overlays) = Inr r" "me_Failed r"
  shows "\<exists>spec2. me_Spec r = Some spec2 \<and> set (me_Applied r) \<subseteq> set applied \<and>
     xo_Name ` set (me_Excluded r) \<subseteq> rm_Name ` set overlays \<and>
     (\<forall>c \<in> set (rs_Constraints spec2). co_Name c \<in> set contributed \<longrightarrow>
        c \<in> set (rs_Constraints spec1) \<and> ev_Passed (ev c))"
proof -
  obtain names where N: "spec = compose_names s names" "\<forall>n \<in> set names. map_of (ms_Overlays s) n \<noteq> None"
    "applied = base_recipe_name # names" "set names = (\<Union>ov \<in> set overlays. {a. on_path s (rm_Name ov) a})"
    "\<forall>ov \<in> set overlays. reaches_root s (rm_Name ov)"
    using merged_chains [OF assms(1,3)] by blast
  obtain index failed warnings where E: "build_mixin_constraint_candidate_index s (map rm_Name overlays) = Inr index"
    "blamed ev contributed index (rs_Constraints spec1) (failed, warnings)"
    "rebuild_without s failed warnings (map rm_Name overlays) = Inr r"
    using evaluate_mixins_failed [OF assms(5,6)] by blast
  obtain surv spec' applied' spec2 contributed' where S:
    "\<forall>ov \<in> set surv. \<exists>n \<in> rm_Name ` set overlays. n \<notin> set failed \<and> map_of (ms_Overlays s) n = Some ov"
    "merge_overlay_chains s surv (init_base_merged_spec s) = Inr (spec', applied')"
    "merge_mixins s spec' = Inr (spec2, contributed')"
    "me_Spec r = Some spec2" "me_Applied r = applied'" "xo_Name ` set (me_Excluded r) \<subseteq> rm_Name ` set overlays"
    using rebuild_Inr [OF E(3), unfolded set_map] by metis
  obtain names' where N': "spec' = compose_names s names'" "\<forall>n \<in> set names'. map_of (ms_Overlays s) n \<noteq> None"
    "applied' = base_recipe_name # names'" "set names' = (\<Union>ov \<in> set surv. {a. on_path s (rm_Name ov) a})"
    "\<forall>ov \<in> set surv. reaches_root s (rm_Name ov)"
    using merged_chains [OF assms(1) S(2)] by blast
  have surv: "rm_Name ov \<in> rm_Name ` set overlays \<and> rm_Name ov \<notin> set failed" if "ov \<in> set surv" for ov
    using S(1) that store_wf_name [OF assms(1)] by fastforce
  have sub: "set names' \<subseteq> set names" using surv unfolding N(4) N'(4) by fastforce
  have wf: "spec_wf spec" "spec_wf spec'"
    using compose_names_facts(3) [OF N(2) assms(2)] compose_names_facts(3) [OF N'(2) assms(2)] N(1) N'(1) by simp_all
  have mixins: "set (rs_Mixins spec') \<subseteq> set (rs_Mixins spec)"
    and chain_names: "co_Name ` set (rs_Constraints spec') \<subseteq> co_Name ` set (rs_Constraints spec)"
    unfolding N(1) N'(1) compose_names_facts(1,2) [OF N(2)] compose_names_facts(1,2) [OF N'(2)] using sub by auto
  obtain cn rn where A: "mixins_applied s spec (rs_Mixins spec) (spec1, cn, rn, contributed)"
    using merge_mixins_applied [OF assms(4) wf(1)] by blast
  obtain cn' rn' where B: "mixins_applied s spec' (rs_Mixins spec') (spec2, cn', rn', contributed')"
    using merge_mixins_applied [OF S(3) wf(2)] by blast
  have "c \<in> set (rs_Constraints spec1) \<and> ev_Passed (ev c)" if c: "c \<in> set (rs_Constraints spec2)" "co_Name c \<in> set contributed" for c
  proof -
    let ?k = "co_Name c"
    have k2: "by_key co_Name (rs_Constraints spec2) ?k = Some c"
      using B c(1) by (simp add: mixins_applied_def spec_wf_def by_key_distinct)
    have "contributes s (rs_Mixins spec) ?k" using A c(2) by (auto simp: mixins_applied_def)
    then have "by_key co_Name (rs_Constraints spec) ?k = None" using A by (auto simp: mixins_applied_def)
    then have "by_key co_Name (rs_Constraints spec') ?k = None" using chain_names by (auto simp: by_key_None)
    then have con: "contributes s (rs_Mixins spec') ?k" using B k2 by (auto simp: mixins_applied_def)
    then obtain d where "provided s (rs_Mixins spec') ?k d" using contributes_provided by blast
    moreover then have "d = c" using B k2 by (auto simp: mixins_applied_def)
    ultimately have "provided s (rs_Mixins spec) ?k c" using mixins by (auto simp: provided_def)
    then have "by_key co_Name (rs_Constraints spec1) ?k = Some c" using A by (auto simp: mixins_applied_def)
    then have in1: "c \<in> set (rs_Constraints spec1)" by (auto dest: by_key_Some)
    obtain ov chain where ov: "ov \<in> set surv" "resolve_inheritance_chain s (rm_Name ov) = Inr chain"
      "contributes s (chain_mixins chain) ?k"
      using mixin_of_candidate [OF assms(1) N'(1,2,4,5) con] by blast
    then have "rm_Name ov \<in> set (indexed index ?k)"
      unfolding build_index [OF E(1)] using surv [OF ov(1)] by auto
    then have "ev_Passed (ev c)"
      using E(2) in1 c(2) surv [OF ov(1)] by (auto simp: blamed_def)
    then show ?thesis using in1 by blast
  qed
  then show ?thesis using S(4-6) sub N(3) N'(3) by auto
qed

definition ubuntu_overlays :: "recipe_metadata list" where
  "ubuntu_overlays = find_matching_overlays ubuntu_store (new_criteria \<lparr>c_Service := ''eks''\<rparr>)"

definition old_kernel :: evaluator where
  "old_kernel c = \<lparr>ev_Passed = False, ev_Actual = ''5.15'', ev_Error = None\<rparr>"

definition ubuntu_run :: "(mixin_eval_result \<times> recipe_metadata_spec \<times> recipe_metadata_spec \<times> string list \<times> string list) res" where
  "ubuntu_run =
     res_bind (merge_overlay_chains ubuntu_store ubuntu_overlays (init_base_merged_spec ubuntu_store)) (\<lambda>(spec, applied).
     res_bind (merge_mixins ubuntu_store spec) (\<lambda>(spec1, contributed).
     res_bind (evaluate_mixin_constraints ubuntu_store spec1 (Some old_kernel) contributed (map rm_Name ubuntu_overlays)) (\<lambda>r.
       Inr (r, spec, spec1, contributed, applied))))"

lemma mixin_fallback_sound_witness:
  "\<exists>r spec spec1 contributed applied. ubuntu_run = Inr (r, spec, spec1, contributed, applied) \<and> me_Failed r \<and>
     set (me_Applied r) \<subseteq> set applied"
proof -
  have "case ubuntu_run of Inr (r, _) \<Rightarrow> me_Failed r | Inl _ \<Rightarrow> False" by code_simp
  then obtain r spec spec1 contributed applied where run: "ubuntu_run = Inr (r, spec, spec1, contributed, applied)" "me_Failed r"
    by (auto split: sum.splits)
  have wf: "store_wf ubuntu_store" "spec_wf (rm_Spec (ms_Base ubuntu_store))"
    by (simp_all add: store_wf_def ubuntu_store_def sample_store_def overlay_of_def spec_wf_def empty_spec_def)
  have "merge_overlay_chains ubuntu_store ubuntu_overlays (init_base_merged_spec ubuntu_store) = Inr (spec, applied)"
    "merge_mixins ubuntu_store spec = Inr (spec1, contributed)"
    "evaluate_mixin_constraints ubuntu_store spec1 (Some old_kernel) contributed (map rm_Name ubuntu_overlays) = Inr r"
    using run(1) by (auto simp: ubuntu_run_def res_simps)
  from mixin_fallback_sound [OF wf this run(2)] have "set (me_Applied r) \<subseteq> set applied" by (elim exE conjE)
  then show ?thesis using run by blast
qed

end
