(* ===== verification/Version.thy ===== *)
theory Version
  imports Aicr_Errors
begin

section \<open>Versions (pkg/version)\<close>

text \<open>
  \<open>ParseVersion\<close>, \<open>String\<close>, \<open>Compare\<close> and the comparisons built on it. The Go \<open>int\<close> fields
  are HOL integers; \<open>atoi\<close> rejects what does not fit 64 bits, as \<open>strconv.Atoi\<close> does, so no
  field of a parsed version overflows.
\<close>

record version =
  major :: int
  minor :: int
  patch :: int
  precision :: int
  extras :: string

definition zero_version :: version where
  "zero_version = \<lparr>major = 0, minor = 0, patch = 0, precision = 0, extras = []\<rparr>"

definition new_version :: "int \<Rightarrow> int \<Rightarrow> int \<Rightarrow> version" where
  "new_version ma mi pa = zero_version\<lparr>major := ma, minor := mi, patch := pa, precision := 3\<rparr>"

definition version_string :: "version \<Rightarrow> string" where
  "version_string v =
     (if precision v = 1 then show_int (major v)
      else if precision v = 2 then join_with ''.'' [show_int (major v), show_int (minor v)]
      else join_with ''.'' [show_int (major v), show_int (minor v), show_int (patch v)])"

text \<open>
  The loop that cuts the extras off: the first \<open>-\<close> or \<open>+\<close> at a position above 0 whose
  predecessor is a digit starts them. \<open>prev\<close> is the byte before the current one.
\<close>

fun split_extras :: "char option \<Rightarrow> string \<Rightarrow> string \<times> string" where
  "split_extras prev [] = ([], [])"
| "split_extras prev (ch # s) =
     (if (ch = CHR ''-'' \<or> ch = CHR ''+'') \<and> (case prev of None \<Rightarrow> False | Some p \<Rightarrow> is_digit p)
      then ([], ch # s)
      else (let (m, e) = split_extras (Some ch) s in (ch # m, e)))"

definition parse_component :: "string \<Rightarrow> int res" where
  "parse_component part =
     (if part = [] then
        Inl (err_wrap ErrCodeInvalidRequest ''empty component'' [] (PlainError ''version component is not numeric''))
      else case atoi part of
        None \<Rightarrow> Inl (err_wrap ErrCodeInvalidRequest ''non-numeric component'' [part]
                       (PlainError ''version component is not numeric''))
      | Some num \<Rightarrow>
          if num < 0 then Inl (err_wrap ErrCodeInvalidRequest ''negative component'' [show_int num]
                                 (PlainError ''version component cannot be negative''))
          else Inr num)"

definition set_component :: "nat \<Rightarrow> int \<Rightarrow> version \<Rightarrow> version" where
  "set_component i num v =
     (if i = 0 then v\<lparr>major := num\<rparr>
      else if i = 1 then v\<lparr>minor := num\<rparr>
      else if i = 2 then v\<lparr>patch := num\<rparr>
      else v)"

fun parse_parts :: "nat \<Rightarrow> string list \<Rightarrow> version \<Rightarrow> version res" where
  "parse_parts i [] v = Inr v"
| "parse_parts i (part # parts) v =
     (case parse_component part of
        Inl e \<Rightarrow> Inl e
      | Inr num \<Rightarrow> parse_parts (Suc i) parts (set_component i num v))"

definition parse_version :: "string \<Rightarrow> version res" where
  "parse_version s =
     (if s = [] then
        Inl (err_wrap ErrCodeInvalidRequest ''empty version string'' [] (PlainError ''version string is empty''))
      else
        let (main_part, ext) = split_extras None (trim_prefix s ''v'');
            parts = split_on CHR ''.'' main_part
        in if 3 < length parts then
             Inl (err_wrap ErrCodeInvalidRequest ''too many version components'' []
                    (PlainError ''version has more than 3 components''))
           else case parse_parts 0 parts (zero_version\<lparr>extras := ext\<rparr>) of
                  Inl e \<Rightarrow> Inl e
                | Inr v \<Rightarrow> Inr (v\<lparr>precision := int (length parts)\<rparr>))"

text \<open>\<open>MustParseVersion\<close>: \<open>None\<close> is the panic.\<close>

definition must_parse_version :: "string \<Rightarrow> version option" where
  "must_parse_version s = (case parse_version s of Inl _ \<Rightarrow> None | Inr v \<Rightarrow> Some v)"

definition compare :: "version \<Rightarrow> version \<Rightarrow> int" where
  "compare v other =
     (let prec = min (precision v) (precision other) in
      if major v < major other then -1
      else if major v > major other then 1
      else if prec = 1 then 0
      else if minor v < minor other then -1
      else if minor v > minor other then 1
      else if prec = 2 then 0
      else if patch v < patch other then -1
      else if patch v > patch other then 1
      else 0)"

definition equals_or_newer :: "version \<Rightarrow> version \<Rightarrow> bool" where
  "equals_or_newer v other \<longleftrightarrow> compare v other \<ge> 0"

definition is_newer :: "version \<Rightarrow> version \<Rightarrow> bool" where
  "is_newer v other \<longleftrightarrow> compare v other > 0"

definition version_equals :: "version \<Rightarrow> version \<Rightarrow> bool" where
  "version_equals v other \<longleftrightarrow> major v = major other \<and> minor v = minor other \<and> patch v = patch other"

subsection \<open>What a parsed version looks like\<close>

definition version_ok :: "version \<Rightarrow> bool" where
  "version_ok v \<longleftrightarrow>
     precision v \<in> {1, 2, 3} \<and> 0 \<le> major v \<and> major v \<le> int64_max \<and>
     0 \<le> minor v \<and> minor v \<le> int64_max \<and> 0 \<le> patch v \<and> patch v \<le> int64_max \<and>
     (precision v = 1 \<longrightarrow> minor v = 0) \<and> (precision v \<noteq> 3 \<longrightarrow> patch v = 0)"

lemma parse_component_bounds: "parse_component p = Inr n \<Longrightarrow> 0 \<le> n \<and> n \<le> int64_max"
  by (auto simp: parse_component_def dest: atoi_bounds split: if_splits option.splits)

lemma parse_component_err: "parse_component p = Inl e \<Longrightarrow> err_code e = Some ErrCodeInvalidRequest"
  by (auto simp: parse_component_def split: if_splits option.splits)

lemma parse_component_show: "0 \<le> n \<Longrightarrow> n \<le> int64_max \<Longrightarrow> parse_component (show_int n) = Inr n"
  using atoi_show_nat [of "nat n"] by (simp add: parse_component_def show_int_def)

lemma parse_parts_err: "parse_parts i ps v = Inl e \<Longrightarrow> err_code e = Some ErrCodeInvalidRequest"
  by (induction i ps v rule: parse_parts.induct)
    (auto dest: parse_component_err split: sum.splits)

lemma parse_version_err: "parse_version s = Inl e \<Longrightarrow> err_code e = Some ErrCodeInvalidRequest"
  by (auto simp: parse_version_def Let_def dest: parse_parts_err split: if_splits prod.splits sum.splits)

text \<open>A list of one to three parts, each form spelled out.\<close>

lemma length_1_to_3E:
  assumes "ps \<noteq> []" "length ps \<le> 3"
  obtains a where "ps = [a]" | a b where "ps = [a, b]" | a b c where "ps = [a, b, c]"
proof (cases ps)
  case Cons
  then show thesis
    using assms that by (cases ps rule: remdups_adj.cases; cases "tl (tl ps)") auto
qed (use assms in simp)

lemma parse_parts_ok:
  assumes "parse_parts 0 ps v0 = Inr v" "ps \<noteq> []" "length ps \<le> 3"
    and "v0 = zero_version\<lparr>extras := ext\<rparr>"
  shows "version_ok (v\<lparr>precision := int (length ps)\<rparr>)"
  using assms(2,3)
proof (cases rule: length_1_to_3E)
  case (1 a)
  with assms(1,4) show ?thesis
    by (auto simp: version_ok_def set_component_def zero_version_def int64_max_def
        dest!: parse_component_bounds split: sum.splits)
next
  case (2 a b)
  with assms(1,4) show ?thesis
    by (auto simp: version_ok_def set_component_def zero_version_def int64_max_def
        dest!: parse_component_bounds split: sum.splits)
next
  case (3 a b c)
  with assms(1,4) show ?thesis
    by (auto simp: version_ok_def set_component_def zero_version_def int64_max_def
        dest!: parse_component_bounds split: sum.splits)
qed

lemma parse_version_ok: "parse_version s = Inr v \<Longrightarrow> version_ok v"
  by (auto simp: parse_version_def Let_def dest: parse_parts_ok split: if_splits prod.splits sum.splits)

subsection \<open>Printing and parsing back\<close>

lemma split_extras_digits:
  assumes "\<forall>c \<in> set s. c \<noteq> CHR ''-'' \<and> c \<noteq> CHR ''+''"
    and "ext = [] \<or> hd ext = CHR ''-'' \<or> hd ext = CHR ''+''"
    and "s \<noteq> []" "is_digit (last s)"
  shows "split_extras prev (s @ ext) = (s, ext)"
  using assms
proof (induction s arbitrary: prev)
  case (Cons c s)
  show ?case
  proof (cases "s = []")
    case True
    with Cons.prems show ?thesis by (cases ext) auto
  next
    case False
    with Cons show ?thesis by auto
  qed
qed simp

lemma show_int_nonneg: "0 \<le> n \<Longrightarrow> show_int n = show_nat (nat n)"
  by (simp add: show_int_def)

lemma version_string_shape:
  assumes "version_ok v"
  shows "\<exists>ps. version_string v = join_with ''.'' (map show_nat ps) \<and>
    ps = map nat (take (nat (precision v)) [major v, minor v, patch v])"
  using assms by (auto simp: version_ok_def version_string_def show_int_nonneg)

lemma join_dot_numbers:
  assumes "ps \<noteq> []"
  shows "split_on CHR ''.'' (join_with ''.'' (map show_nat ps)) = map show_nat ps"
    and "\<forall>c \<in> set (join_with ''.'' (map show_nat ps)). c \<noteq> CHR ''-'' \<and> c \<noteq> CHR ''+''"
    and "is_digit (last (join_with ''.'' (map show_nat ps)))"
    and "\<exists>c r. join_with ''.'' (map show_nat ps) = c # r \<and> is_digit c"
proof -
  have free: "\<And>n. CHR ''.'' \<notin> set (show_nat n)" by (rule show_nat_free)
  have lst: "\<And>n. is_digit (last (show_nat n))"
    using show_nat_digits show_nat_not_Nil by (metis last_in_set list_all_iff)
  show "split_on CHR ''.'' (join_with ''.'' (map show_nat ps)) = map show_nat ps"
    using assms
    by (induction ps rule: induct_list012) (simp_all add: split_on_free split_on_append free)
  show "\<forall>c \<in> set (join_with ''.'' (map show_nat ps)). c \<noteq> CHR ''-'' \<and> c \<noteq> CHR ''+''"
  proof -
    have nosign: "\<And>n. \<forall>c \<in> set (show_nat n). c \<noteq> CHR ''-'' \<and> c \<noteq> CHR ''+''"
      using show_nat_free(2,3) by blast
    show ?thesis by (induction ps rule: induct_list012) (simp_all add: ball_Un nosign)
  qed
  show "is_digit (last (join_with ''.'' (map show_nat ps)))"
    using assms by (induction ps rule: induct_list012) (auto simp: lst)
  show "\<exists>c r. join_with ''.'' (map show_nat ps) = c # r \<and> is_digit c"
  proof (cases ps)
    case (Cons n ns)
    obtain c r where "show_nat n = c # r" "is_digit c"
      using show_nat_first_digit by blast
    with Cons show ?thesis by (cases ns) auto
  qed (use assms in simp)
qed

lemma parse_parts_numbers:
  assumes "version_ok v"
  shows "parse_parts 0 (map show_int (take (nat (precision v)) [major v, minor v, patch v]))
      (zero_version\<lparr>extras := ext\<rparr>) = Inr (v\<lparr>precision := 0, extras := ext\<rparr>)"
  using assms
  by (cases v) (auto simp: version_ok_def set_component_def zero_version_def parse_component_show)

lemma parse_version_digits:
  assumes "s = c # r" "is_digit c"
  shows "parse_version ((if b then ''v'' else []) @ s @ ext) =
    (let (m, e) = split_extras None (s @ ext); parts = split_on CHR ''.'' m
     in if 3 < length parts then
          Inl (err_wrap ErrCodeInvalidRequest ''too many version components'' []
                 (PlainError ''version has more than 3 components''))
        else case parse_parts 0 parts (zero_version\<lparr>extras := e\<rparr>) of
               Inl e \<Rightarrow> Inl e | Inr v \<Rightarrow> Inr (v\<lparr>precision := int (length parts)\<rparr>))"
  using assms is_digit_not_sign [of c]
  by (auto simp: parse_version_def trim_prefix_def has_prefix_def Let_def split: prod.splits)

text \<open>
  Printing and parsing are inverse. For a well-formed version \<open>v\<close> (precision 1 to 3,
  components in range, unused components zero), parsing the output of \<open>String\<close>, with or without a
  leading \<open>v\<close> and followed by extras that are empty or start with \<open>-\<close> or \<open>+\<close>, gives \<open>v\<close> back with
  those extras.
\<close>

theorem parse_version_roundtrip:
  assumes "version_ok v" and "ext = [] \<or> hd ext = CHR ''-'' \<or> hd ext = CHR ''+''"
  shows "parse_version ((if b then ''v'' else []) @ version_string v @ ext) = Inr (v\<lparr>extras := ext\<rparr>)"
proof -
  define comps where "comps = take (nat (precision v)) [major v, minor v, patch v]"
  obtain ps where str: "version_string v = join_with ''.'' (map show_nat ps)" and ps: "ps = map nat comps"
    using version_string_shape [OF assms(1)] by (auto simp: comps_def)
  have len: "ps \<noteq> []" "length ps \<le> 3" "int (length ps) = precision v" "\<forall>i \<in> set comps. 0 \<le> i"
    using assms(1) by (auto simp: ps comps_def version_ok_def)
  have "map show_nat ps = map show_int comps"
    using len(4) by (simp add: ps show_int_nonneg)
  note parts = parse_parts_numbers [OF assms(1), folded comps_def, folded this]
  note dots = join_dot_numbers [OF len(1), folded str]
  obtain c r where cr: "version_string v = c # r" "is_digit c" using dots(4) by blast
  have "split_extras None (version_string v @ ext) = (version_string v, ext)"
    by (rule split_extras_digits [OF dots(2) assms(2)]) (use cr dots(3) in auto)
  then show ?thesis
    using len(2,3) by (simp add: parse_version_digits [OF cr] dots(1) parts)
qed

lemma parse_version_roundtrip_witness:
  "parse_version ''v1.28.0-gke.1337000'' =
     Inr \<lparr>major = 1, minor = 28, patch = 0, precision = 3, extras = ''-gke.1337000''\<rparr>"
proof -
  have "version_string (new_version 1 28 0) = ''1.28.0''"
    by code_simp
  then show ?thesis
    using parse_version_roundtrip [of "new_version 1 28 0" "''-gke.1337000''" True]
    by (simp add: version_ok_def new_version_def zero_version_def int64_max_def)
qed

text \<open>
  Whatever the input, a version that \<open>ParseVersion\<close> accepts has 1 to 3 significant
  components, all between 0 and the largest 64-bit integer, with the components beyond its precision
  zero; and every rejection carries the code for an invalid request.
\<close>

theorem parse_version_total:
  "(\<exists>v. parse_version s = Inr v \<and> version_ok v) \<or>
   (\<exists>e. parse_version s = Inl e \<and> err_code e = Some ErrCodeInvalidRequest)"
  by (cases "parse_version s") (auto dest: parse_version_ok parse_version_err)

subsection \<open>Comparison\<close>

text \<open>The components two versions are compared on: as many as the less precise one has.\<close>

definition version_key :: "int \<Rightarrow> version \<Rightarrow> int list" where
  "version_key p v = take (nat p) [major v, minor v, patch v]"

lemma compare_values: "compare v w \<in> {-1, 0, 1}"
  by (simp add: compare_def Let_def)

lemma compare_antisym: "compare w v = - compare v w"
  by (auto simp: compare_def Let_def min.commute)

lemma compare_refl [simp]: "compare v v = 0"
  by (simp add: compare_def Let_def)

text \<open>
  \<open>Compare\<close> is the lexicographic comparison of the components both versions have. With
  \<open>p\<close> the lower of the two precisions, it is negative, zero or positive exactly when the list of the
  first \<open>p\<close> components of \<open>v\<close> is below, equal to or above that of \<open>w\<close>.
\<close>

theorem compare_lexicographic:
  assumes "version_ok v" "version_ok w" and "p = min (precision v) (precision w)"
  shows "(compare v w < 0 \<longleftrightarrow> version_key p v < version_key p w) \<and>
         (compare v w = 0 \<longleftrightarrow> version_key p v = version_key p w) \<and>
         (compare v w > 0 \<longleftrightarrow> version_key p v > version_key p w)"
proof -
  have "p = 1 \<or> p = 2 \<or> p = 3"
    using assms by (auto simp: version_ok_def min_def)
  then show ?thesis
    unfolding compare_def Let_def assms(3) [symmetric]
    by (elim disjE) (auto simp: version_key_def)
qed

lemma compare_lexicographic_witness:
  "compare (new_version 1 32 4) (new_version 1 30 9) > 0 \<longleftrightarrow>
   version_key 3 (new_version 1 32 4) > version_key 3 (new_version 1 30 9)"
proof -
  have "version_ok (new_version 1 32 4)" "version_ok (new_version 1 30 9)"
    "3 = min (precision (new_version 1 32 4)) (precision (new_version 1 30 9))"
    by (simp_all add: version_ok_def new_version_def zero_version_def int64_max_def)
  from compare_lexicographic [OF this] show ?thesis by blast
qed

lemma version_key_eq_precision:
  "version_ok v \<Longrightarrow> version_ok w \<Longrightarrow> version_key 3 v = version_key 3 w \<longleftrightarrow> version_equals v w"
  by (auto simp: version_key_def version_equals_def)

lemma compare_trans_same_precision:
  assumes "version_ok u" "version_ok v" "version_ok w"
    and "precision u = precision v" "precision v = precision w"
    and "compare u v \<le> 0" "compare v w \<le> 0"
  shows "compare u w \<le> 0"
proof -
  have key: "compare x y \<le> 0 \<longleftrightarrow> version_key (precision w) x \<le> version_key (precision w) y"
    if "version_ok x" "version_ok y" "precision x = precision w" "precision y = precision w" for x y
    using compare_lexicographic [OF that(1,2) refl] that(3,4) by (simp add: le_less)
  have "version_key (precision w) u \<le> version_key (precision w) v"
    "version_key (precision w) v \<le> version_key (precision w) w"
    using key [of u v] key [of v w] assms by simp_all
  then have "version_key (precision w) u \<le> version_key (precision w) w"
    by (rule order_trans)
  then show ?thesis using key [of u w] assms by simp
qed

text \<open>
  With mixed precisions the comparison is not transitive, so it is no order to sort by:
  there are well-formed versions with \<open>u\<close> equal to \<open>v\<close> and \<open>v\<close> equal to \<open>w\<close> but \<open>u\<close> older than \<open>w\<close>
  (1.2.3, 1.2 and 1.2.4).
\<close>

theorem compare_mixed_precision_not_transitive:
  "\<exists>u v w. version_ok u \<and> version_ok v \<and> version_ok w \<and>
     compare u v = 0 \<and> compare v w = 0 \<and> compare u w < 0"
proof (intro exI conjI)
  let ?u = "new_version 1 2 3" and ?v = "(new_version 1 2 0)\<lparr>precision := 2\<rparr>"
    and ?w = "new_version 1 2 4"
  show "version_ok ?u" "version_ok ?v" "version_ok ?w"
    by (simp_all add: version_ok_def new_version_def zero_version_def int64_max_def)
  show "compare ?u ?v = 0" "compare ?v ?w = 0" "compare ?u ?w < 0"
    by (simp_all add: compare_def new_version_def zero_version_def)
qed

end
