(* ===== verification/Constraint_Expr.thy ===== *)
theory Constraint_Expr
  imports Version
begin

section \<open>Constraint expressions (pkg/constraints)\<close>

text \<open>
  Parsing of expressions such as \<open>>= 1.32.4\<close> and their evaluation against a measured value.
  \<open>Operator\<close> is a string type in the code, so a hand-built constraint may carry any operator and
  \<open>evaluate\<close> keeps the two error branches for one it does not know.
\<close>

type_synonym operator = string

definition OperatorGTE :: operator where "OperatorGTE = ''>=''"
definition OperatorLTE :: operator where "OperatorLTE = ''<=''"
definition OperatorGT :: operator where "OperatorGT = ''>''"
definition OperatorLT :: operator where "OperatorLT = ''<''"
definition OperatorEQ :: operator where "OperatorEQ = ''==''"
definition OperatorNE :: operator where "OperatorNE = ''!=''"
definition OperatorExact :: operator where "OperatorExact = []"

lemmas operator_defs = OperatorGTE_def OperatorLTE_def OperatorGT_def OperatorLT_def
  OperatorEQ_def OperatorNE_def OperatorExact_def

record parsed_constraint =
  pc_operator :: operator
  pc_value :: string
  is_version_comparison :: bool

definition looks_like_version :: "string \<Rightarrow> bool" where
  "looks_like_version s0 =
     (let s = trim_prefix s0 ''v'' in
      if s = [] then False else list_ex is_digit s \<and> list_ex (\<lambda>c. c = CHR ''.'') s)"

text \<open>The operators in the order the loop tries them, the first prefix match winning.\<close>

definition scan_operators :: "operator list" where
  "scan_operators = [OperatorGTE, OperatorLTE, OperatorNE, OperatorEQ, OperatorGT, OperatorLT]"

definition scan_operator :: "string \<Rightarrow> (operator \<times> string) option" where
  "scan_operator expr =
     map_option (\<lambda>op. (op, trim_space (trim_prefix expr op))) (find (has_prefix expr) scan_operators)"

definition parse_constraint_expression :: "string \<Rightarrow> parsed_constraint res" where
  "parse_constraint_expression expr0 =
     (let expr = trim_space expr0 in
      if expr = [] then Inl (err_new ErrCodeInvalidRequest ''constraint expression cannot be empty'' [])
      else if has_prefix expr ''!'' \<and> \<not> has_prefix expr OperatorNE \<and>
              (case drop 1 expr of [] \<Rightarrow> False | c # _ \<Rightarrow> \<not> is_space c)
      then Inl (err_new ErrCodeInvalidRequest ''bare ! prefix is invalid'' [])
      else
        let (op, val) = (case scan_operator expr of Some ov \<Rightarrow> ov | None \<Rightarrow> (OperatorExact, expr)) in
        if val = [] then Inl (err_new ErrCodeInvalidRequest ''constraint value cannot be empty after operator'' [])
        else Inr \<lparr>pc_operator = op, pc_value = val,
                  is_version_comparison =
                    (if op \<noteq> OperatorExact \<and> op \<noteq> OperatorEQ \<and> op \<noteq> OperatorNE then True
                     else looks_like_version val)\<rparr>)"

definition equality_holds :: "parsed_constraint \<Rightarrow> string \<Rightarrow> bool" where
  "equality_holds pc actual =
     (if is_version_comparison pc then
        (case parse_version (pc_value pc) of
           Inr expected \<Rightarrow>
             (case parse_version actual of
                Inr act \<Rightarrow> version_equals expected act
              | Inl _ \<Rightarrow> actual = pc_value pc)
         | Inl _ \<Rightarrow> actual = pc_value pc)
      else actual = pc_value pc)"

definition evaluate :: "parsed_constraint \<Rightarrow> string \<Rightarrow> bool res" where
  "evaluate pc actual0 =
     (let actual = trim_space actual0; op = pc_operator pc in
      if op = OperatorExact then Inr (actual = pc_value pc)
      else if op = OperatorEQ then Inr (equality_holds pc actual)
      else if op = OperatorNE then Inr (\<not> equality_holds pc actual)
      else if op = OperatorGTE \<or> op = OperatorGT \<or> op = OperatorLTE \<or> op = OperatorLT then
        (case parse_version (pc_value pc) of
           Inl e \<Rightarrow> Inl (err_wrap ErrCodeInvalidRequest ''cannot parse expected version'' [] e)
         | Inr expected \<Rightarrow>
             (case parse_version actual of
                Inl e \<Rightarrow> Inl (err_wrap ErrCodeInvalidRequest ''cannot parse actual version'' [] e)
              | Inr act \<Rightarrow>
                  let c = compare act expected in
                  if op = OperatorGTE then Inr (c \<ge> 0)
                  else if op = OperatorGT then Inr (c > 0)
                  else if op = OperatorLTE then Inr (c \<le> 0)
                  else if op = OperatorLT then Inr (c < 0)
                  else Inl (err_new ErrCodeInternal ''unexpected operator in version comparison'' [op])))
      else Inl (err_new ErrCodeInvalidRequest ''unknown operator'' [op]))"

definition constraint_string :: "parsed_constraint \<Rightarrow> string" where
  "constraint_string pc =
     (if pc_operator pc = OperatorExact then pc_value pc
      else join_with '' '' [pc_operator pc, pc_value pc])"

subsection \<open>Trimmed strings\<close>

lemma hd_dropWhile_append: "dropWhile P xs \<noteq> [] \<Longrightarrow> \<not> P (hd (dropWhile P xs))"
  by (rule hd_dropWhile) (simp add: dropWhile_eq_Nil_conv)

lemma dropWhile_hd: "\<not> P (hd xs) \<Longrightarrow> dropWhile P xs = xs"
  by (cases xs) simp_all

lemma trim_space_fixed: "\<not> is_space (hd s) \<Longrightarrow> \<not> is_space (last s) \<Longrightarrow> trim_space s = s"
  by (cases s rule: rev_cases) (simp_all add: trim_space_def dropWhile_hd)

lemma trim_space_ends:
  assumes "trim_space s \<noteq> []"
  shows "\<not> is_space (hd (trim_space s)) \<and> \<not> is_space (last (trim_space s))"
proof -
  define t where "t = dropWhile is_space s"
  define u where "u = dropWhile is_space (rev t)"
  have "u \<noteq> []" using assms by (simp add: u_def t_def trim_space_def)
  then have last_ok: "\<not> is_space (last (rev u))"
    using hd_dropWhile_append [of is_space "rev t"] by (simp add: u_def last_rev)
  obtain ws where "rev t = ws @ u"
    unfolding u_def by (metis takeWhile_dropWhile_id)
  then have t: "t = rev u @ rev ws" by (metis rev_append rev_rev_ident)
  have "t \<noteq> []" using t \<open>u \<noteq> []\<close> by simp
  then have "\<not> is_space (hd t)"
    using hd_dropWhile_append [of is_space s] by (simp only: t_def not_False_eq_True simp_thms)
  then have "\<not> is_space (hd (rev u))" using t \<open>u \<noteq> []\<close> by simp
  with last_ok show ?thesis by (simp add: trim_space_def u_def t_def)
qed

lemma has_prefix_code [simp]:
  "has_prefix s []" "has_prefix [] (c # p) = False"
  "has_prefix (d # s) (c # p) = (d = c \<and> has_prefix s p)"
  by (simp_all add: has_prefix_def)

lemma scan_operators_members: "op \<in> set scan_operators \<longleftrightarrow>
    op = OperatorGTE \<or> op = OperatorLTE \<or> op = OperatorNE \<or> op = OperatorEQ \<or> op = OperatorGT \<or> op = OperatorLT"
  by (simp add: scan_operators_def)

lemma scan_operator_printed:
  assumes "op \<in> set scan_operators"
  shows "scan_operator (op @ CHR '' '' # val) = Some (op, trim_space (CHR '' '' # val))"
  using assms unfolding scan_operators_members
  by (elim disjE)
    (simp_all add: scan_operators_def operator_defs scan_operator_def trim_prefix_def)

lemma scan_operator_mem:
  "scan_operator expr = Some (op, val) \<Longrightarrow> op \<in> set scan_operators \<and> has_prefix expr op \<and> trim_space val = val"
  by (auto simp: scan_operator_def find_Some_iff)

text \<open>The two shapes a successful parse can have.\<close>

lemma parse_constraint_cases:
  assumes "parse_constraint_expression expr = Inr pc"
  obtains (operator) op val where "scan_operator (trim_space expr) = Some (op, val)" "val \<noteq> []"
      "op \<in> set scan_operators" "trim_space val = val"
      "pc = \<lparr>pc_operator = op, pc_value = val, is_version_comparison =
         (op \<noteq> OperatorEQ \<and> op \<noteq> OperatorNE \<or> looks_like_version val)\<rparr>"
  | (exact) "scan_operator (trim_space expr) = None" "trim_space expr \<noteq> []"
      "pc = \<lparr>pc_operator = OperatorExact, pc_value = trim_space expr,
         is_version_comparison = looks_like_version (trim_space expr)\<rparr>"
proof (cases "scan_operator (trim_space expr)")
  case None
  then show thesis
    using assms exact
    by (auto simp: parse_constraint_expression_def Let_def split: if_splits)
next
  case (Some ov)
  obtain op val where ov: "ov = (op, val)" by (cases ov)
  note mem = scan_operator_mem [OF Some [unfolded ov]]
  then have "op \<noteq> OperatorExact"
    by (auto simp: scan_operators_def operator_defs)
  then show thesis
    using assms Some mem operator [of op val]
    by (auto simp: parse_constraint_expression_def Let_def ov split: if_splits)
qed

text \<open>
  A parsed constraint prints back to an expression that parses to the same constraint.
  In particular the printed operator is never read as a shorter or longer one.
\<close>

theorem parse_constraint_print_parse:
  assumes "parse_constraint_expression expr = Inr pc"
  shows "parse_constraint_expression (constraint_string pc) = Inr pc"
  using assms
proof (cases rule: parse_constraint_cases)
  case (operator op val)
  have op: "op \<noteq> []" "\<not> is_space (hd op)" "op \<noteq> OperatorExact"
    and no_bang: "\<not> (has_prefix (op @ CHR '' '' # val) ''!'' \<and> \<not> has_prefix (op @ CHR '' '' # val) OperatorNE)"
    using operator(3) by (auto simp: scan_operators_def operator_defs is_space_def)
  have "\<not> is_space (last val)" using trim_space_ends [of val] operator(2,4) by simp
  then have whole: "trim_space (op @ CHR '' '' # val) = op @ CHR '' '' # val"
    using op operator(2) by (intro trim_space_fixed) auto
  have "trim_space (CHR '' '' # val) = val"
    using operator(4) by (simp add: trim_space_def is_space_def)
  then have "scan_operator (op @ CHR '' '' # val) = Some (op, val)"
    using scan_operator_printed [OF operator(3)] by simp
  then show ?thesis
    using operator(2,5) op no_bang
    by (auto simp: constraint_string_def parse_constraint_expression_def whole Let_def)
next
  case exact
  then show ?thesis
    using assms by (simp add: constraint_string_def parse_constraint_expression_def Let_def)
qed

lemma parse_constraint_print_parse_witness:
  "parse_constraint_expression (constraint_string
      \<lparr>pc_operator = ''>='', pc_value = ''1.32.4'', is_version_comparison = True\<rparr>) =
   Inr \<lparr>pc_operator = ''>='', pc_value = ''1.32.4'', is_version_comparison = True\<rparr>"
proof (rule parse_constraint_print_parse)
  show "parse_constraint_expression '' >=1.32.4'' =
      Inr \<lparr>pc_operator = ''>='', pc_value = ''1.32.4'', is_version_comparison = True\<rparr>"
    by code_simp
qed

subsection \<open>Evaluation\<close>

lemma operator_distinct [simp]:
  "OperatorGTE \<noteq> OperatorExact" "OperatorGTE \<noteq> OperatorEQ" "OperatorGTE \<noteq> OperatorNE"
  "OperatorGT \<noteq> OperatorExact" "OperatorGT \<noteq> OperatorEQ" "OperatorGT \<noteq> OperatorNE"
  "OperatorLTE \<noteq> OperatorExact" "OperatorLTE \<noteq> OperatorEQ" "OperatorLTE \<noteq> OperatorNE"
  "OperatorLT \<noteq> OperatorExact" "OperatorLT \<noteq> OperatorEQ" "OperatorLT \<noteq> OperatorNE"
  "OperatorEQ \<noteq> OperatorExact" "OperatorNE \<noteq> OperatorExact" "OperatorNE \<noteq> OperatorEQ"
  "OperatorGT \<noteq> OperatorGTE" "OperatorLTE \<noteq> OperatorGTE" "OperatorLT \<noteq> OperatorGTE"
  "OperatorLTE \<noteq> OperatorGT" "OperatorLT \<noteq> OperatorGT" "OperatorLT \<noteq> OperatorLTE"
  by (simp_all add: operator_defs)

lemmas operator_distinct_sym [simp] = operator_distinct [THEN not_sym]

lemma equality_holds_operator [simp]: "equality_holds (pc\<lparr>pc_operator := op\<rparr>) = equality_holds pc"
  by (simp add: fun_eq_iff equality_holds_def cong: sum.case_cong)

text \<open>Evaluation of an ordering operator, without the branches that are not taken.\<close>

definition ordering_holds :: "operator \<Rightarrow> int \<Rightarrow> bool" where
  "ordering_holds op c =
     (if op = OperatorGTE then c \<ge> 0 else if op = OperatorGT then c > 0
      else if op = OperatorLTE then c \<le> 0 else c < 0)"

lemma evaluate_ordering:
  assumes "pc_operator pc \<in> {OperatorGTE, OperatorGT, OperatorLTE, OperatorLT}"
  shows "evaluate pc actual =
    (case parse_version (pc_value pc) of
       Inl e \<Rightarrow> Inl (err_wrap ErrCodeInvalidRequest ''cannot parse expected version'' [] e)
     | Inr expected \<Rightarrow>
         (case parse_version (trim_space actual) of
            Inl e \<Rightarrow> Inl (err_wrap ErrCodeInvalidRequest ''cannot parse actual version'' [] e)
          | Inr act \<Rightarrow> Inr (ordering_holds (pc_operator pc) (compare act expected))))"
  using assms by (elim insertE) (simp_all add: evaluate_def Let_def ordering_holds_def split: sum.splits)

text \<open>
  Evaluating a constraint that came out of the parser fails exactly when its operator
  orders versions and one of the two sides is no version; the failure then carries the code for an
  invalid request, so the branches for an unexpected and for an unknown operator are unreachable.
\<close>

theorem evaluate_parsed_outcome:
  assumes "parse_constraint_expression expr = Inr pc"
  shows "(is_ok (evaluate pc actual) \<longleftrightarrow>
      pc_operator pc \<in> {OperatorExact, OperatorEQ, OperatorNE} \<or>
      is_ok (parse_version (pc_value pc)) \<and> is_ok (parse_version (trim_space actual))) \<and>
    (\<forall>e. evaluate pc actual = Inl e \<longrightarrow> (\<exists>f e'. e = err_wrap ErrCodeInvalidRequest f [] e'))"
proof -
  have "pc_operator pc \<in> set scan_operators \<or> pc_operator pc = OperatorExact"
    using assms by (cases rule: parse_constraint_cases) auto
  then consider "pc_operator pc \<in> {OperatorExact, OperatorEQ, OperatorNE}"
    | "pc_operator pc \<in> {OperatorGTE, OperatorGT, OperatorLTE, OperatorLT}"
    by (auto simp: scan_operators_members)
  then show ?thesis
  proof cases
    case 1
    then show ?thesis by (auto simp: evaluate_def Let_def operator_distinct)
  next
    case 2
    then show ?thesis
      by (cases "parse_version (pc_value pc)"; cases "parse_version (trim_space actual)")
        (auto simp: evaluate_ordering operator_distinct)
  qed
qed

lemma evaluate_parsed_outcome_witness:
  "\<exists>e. evaluate \<lparr>pc_operator = ''>='', pc_value = ''1.32'', is_version_comparison = True\<rparr> ''unknown'' = Inl e \<and>
       err_code e = Some ErrCodeInvalidRequest"
proof -
  let ?pc = "\<lparr>pc_operator = ''>='', pc_value = ''1.32'', is_version_comparison = True\<rparr>"
  have "parse_constraint_expression ''>= 1.32'' = Inr ?pc" by code_simp
  note outcome = evaluate_parsed_outcome [OF this, of "''unknown''"]
  have "\<not> is_ok (parse_version (trim_space ''unknown''))"
    by (simp add: parse_version_def trim_space_def is_space_def trim_prefix_def parse_component_def
        atoi_def is_digit_def)
  moreover have "pc_operator ?pc \<notin> {OperatorExact, OperatorEQ, OperatorNE}"
    by (simp add: operator_defs)
  ultimately have "\<not> is_ok (evaluate ?pc ''unknown'')"
    using outcome by (simp only: HOL.simp_thms)
  then obtain e where e: "evaluate ?pc ''unknown'' = Inl e" by (auto simp: not_ok_iff)
  with outcome obtain f e' where "e = err_wrap ErrCodeInvalidRequest f [] e'" by blast
  with e show ?thesis by simp
qed

text \<open>
  The ordering operators are complementary. On the same expected and actual values,
  \<open>>=\<close> succeeds with the negation of what \<open><\<close> gives and \<open><=\<close> with that of \<open>>\<close>, and both members
  of each pair fail on the same inputs; \<open>==\<close> and \<open>!=\<close> never fail and are complementary too.
\<close>

theorem evaluate_complementary:
  "(evaluate (pc\<lparr>pc_operator := OperatorGTE\<rparr>) a = Inr b \<longleftrightarrow>
      evaluate (pc\<lparr>pc_operator := OperatorLT\<rparr>) a = Inr (\<not> b)) \<and>
   (evaluate (pc\<lparr>pc_operator := OperatorLTE\<rparr>) a = Inr b \<longleftrightarrow>
      evaluate (pc\<lparr>pc_operator := OperatorGT\<rparr>) a = Inr (\<not> b)) \<and>
   (evaluate (pc\<lparr>pc_operator := OperatorEQ\<rparr>) a = Inr b \<longleftrightarrow>
      evaluate (pc\<lparr>pc_operator := OperatorNE\<rparr>) a = Inr (\<not> b)) \<and>
   is_ok (evaluate (pc\<lparr>pc_operator := OperatorEQ\<rparr>) a)"
proof -
  have eqs: "evaluate (pc\<lparr>pc_operator := OperatorEQ\<rparr>) a = Inr (equality_holds pc (trim_space a))"
    "evaluate (pc\<lparr>pc_operator := OperatorNE\<rparr>) a = Inr (\<not> equality_holds pc (trim_space a))"
    by (simp_all add: evaluate_def Let_def)
  show ?thesis
    unfolding eqs
    by (cases "parse_version (pc_value pc)"; cases "parse_version (trim_space a)")
      (auto simp: evaluate_ordering ordering_holds_def not_le not_less)
qed

text \<open>
  The heuristic that decides whether an equality is a version comparison accepts values
  that do not start with a digit (\<open>ubuntu.22\<close> is one), although its comment requires that.
\<close>

theorem looks_like_version_without_leading_digit:
  "\<exists>s. looks_like_version s \<and> \<not> (\<exists>c r. trim_prefix s ''v'' = c # r \<and> is_digit c)"
proof (intro exI conjI)
  show "looks_like_version ''ubuntu.22''" by code_simp
  show "\<not> (\<exists>c r. trim_prefix ''ubuntu.22'' ''v'' = c # r \<and> is_digit c)"
    by (auto simp: trim_prefix_def is_digit_def)
qed

end
