(* ===== verification/Constraint_Eval.thy ===== *)
theory Constraint_Eval
  imports Topology Snapshot_Filter Constraint_Expr
begin


section \<open>Evaluating constraints on a snapshot (pkg/constraints)\<close>

text \<open>
  A constraint names a reading by a path and its value is an expression on it; one name instead asks for a label on every
  GPU node. The validators of Kubernetes (\<open>k8s.io/apimachinery\<close>) are parameters. A snapshot is the list of its
  measurements, nil or not; the list may hold nil pointers.
\<close>

record k8s_validators =
  kv_LabelKey :: "string \<Rightarrow> bool"
  kv_LabelValue :: "string \<Rightarrow> bool"
  kv_DNS1123Subdomain :: "string \<Rightarrow> bool"

type_synonym snapshot = "measurement option list option"

subsection \<open>Labels of the GPU nodes\<close>

definition GPUNodesLabelConstraintName :: string where "GPUNodesLabelConstraintName = PathGPUNodesLabel"
definition gpuNodeUniverseLabel :: string where "gpuNodeUniverseLabel = ''cloud.google.com/gke-accelerator''"
definition maxReportedNodes :: nat where "maxReportedNodes = 5"

record label_node_set =
  ln_value :: string
  ln_nodes :: "string list"
  ln_raw :: string
  ln_truncated :: bool

definition parse_gpu_nodes_label_value :: "k8s_validators \<Rightarrow> string \<Rightarrow> (string \<times> string \<times> bool) res" where
  "parse_gpu_nodes_label_value kv raw =
     (let v = trim_space raw in
      if has_prefix v ''!'' then
        let key = trim_space (drop 1 v) in
        if \<not> kv_LabelKey kv key then
          invalid ''invalid node-set constraint value: negated form is \"!<label-key>\" with a valid label key and no value'' [raw]
        else Inr (key, [], True)
      else case cut CHR ''='' v of
        (_, _, False) \<Rightarrow> invalid ''invalid node-set constraint value: expected \"<label-key>=<value>\" or \"!<label-key>\"'' [raw]
      | (key, want, True) \<Rightarrow>
          if \<not> kv_LabelKey kv key \<or> \<not> kv_LabelValue kv want then
            invalid ''invalid node-set constraint value: label key or value is not valid'' [raw]
          else Inr (key, want, False))"

definition validate_gpu_nodes_label_value :: "k8s_validators \<Rightarrow> string \<Rightarrow> unit res" where
  "validate_gpu_nodes_label_value kv raw = res_bind (parse_gpu_nodes_label_value kv raw) (\<lambda>_. Inr ())"

definition find_label_subtype :: "snapshot \<Rightarrow> subtype option" where
  "find_label_subtype snap =
     (case snap of
        None \<Rightarrow> None
      | Some ms \<Rightarrow>
          (case find (\<lambda>m. mt_Type m = TypeNodeTopology) (List.map_filter id ms) of
             None \<Rightarrow> None
           | Some m \<Rightarrow> get_subtype m ''label''))"

definition valid_node_names :: "k8s_validators \<Rightarrow> string list \<Rightarrow> bool" where
  "valid_node_names kv nodes \<longleftrightarrow> length nodes \<noteq> 0 \<and> list_all (kv_DNS1123Subdomain kv) nodes"

definition split_nodes :: "k8s_validators \<Rightarrow> string \<Rightarrow> string list option" where
  "split_nodes kv raw =
     (if raw = [] then None
      else let nodes = split_on CHR '','' raw in if valid_node_names kv nodes then Some nodes else None)"

definition entry_from_reading :: "k8s_validators \<Rightarrow> label_reading \<Rightarrow> label_node_set res" where
  "entry_from_reading kv r =
     (if lr_Truncated r then
        invalid ''label reading %q is truncated - node-set constraints cannot be evaluated on a partial node list'' [lr_RawKey r]
      else if \<not> valid_node_names kv (lr_Nodes r) then
        invalid ''label reading %q is malformed (nodes %v) - expected canonical node names'' (lr_RawKey r # lr_Nodes r)
      else Inr \<lparr>ln_value = lr_Value r, ln_nodes = lr_Nodes r, ln_raw = lr_RawKey r, ln_truncated = False\<rparr>)"

definition see_node :: "string \<Rightarrow> (string \<times> string) list \<Rightarrow> string \<Rightarrow> (string \<times> string) list res" where
  "see_node value seen n =
     (if (case map_of seen n of None \<Rightarrow> False | Some prev \<Rightarrow> prev \<noteq> value) then
        invalid ''label readings for %q are inconsistent: node %q appears under both value %q and value %q'' [n, the (map_of seen n), value]
      else Inr (upsert n value seen))"

definition see_entry :: "(string \<times> string) list \<Rightarrow> label_node_set \<Rightarrow> (string \<times> string) list res" where
  "see_entry seen e = res_fold (see_node (ln_value e)) seen (ln_nodes e)"

definition decode_label_entries_from_items :: "k8s_validators \<Rightarrow> subtype \<Rightarrow> string \<Rightarrow> label_node_set list res" where
  "decode_label_entries_from_items kv labels key =
     res_bind (res_wrap (err_wrap ErrCodeInvalidRequest ''failed to decode NodeTopology label readings'' []) (label_readings (Some labels))) (\<lambda>readings.
     res_bind (res_map (entry_from_reading kv) (filter (\<lambda>r. lr_Key r = key) readings)) (\<lambda>entries.
     res_bind (res_fold see_entry [] entries) (\<lambda>_. Inr entries)))"

text \<open>An entry of the old encoding: \<open>None\<close> for one that is of another key.\<close>

definition entry_from_data :: "k8s_validators \<Rightarrow> string \<Rightarrow> string \<times> reading \<Rightarrow> (bool \<times> label_node_set) option res" where
  "entry_from_data kv key kr =
     (let k = fst kr; raw = reading_string (snd kr); dotted = has_prefix k (key @ ''.'') in
      if k \<noteq> key \<and> \<not> dotted then Inr None
      else case cut CHR ''|'' raw of (value, nodes_raw, well_formed) \<Rightarrow>
        if k \<noteq> key \<and> value \<noteq> drop (length key + 1) k then Inr None
        else
          let truncated = is_truncated_node_list nodes_raw;
              ok = well_formed \<and> count_list raw CHR ''|'' = 1;
              nodes = (if ok \<and> \<not> truncated then split_nodes kv nodes_raw else if ok then Some [] else None)
          in case nodes of
               None \<Rightarrow> invalid ''label reading %q is malformed (%q) - expected \"<value>|<node1,node2,...>\"'' [k, raw]
             | Some ns \<Rightarrow> Inr (Some (k = key, \<lparr>ln_value = value, ln_nodes = ns, ln_raw = k, ln_truncated = truncated\<rparr>)))"

definition see_once :: "string list \<Rightarrow> string \<Rightarrow> string list res" where
  "see_once seen n =
     (if n \<in> set seen then invalid ''label readings for %q are ambiguous: node %q appears under two values'' [n] else Inr (n # seen))"

definition decode_label_entries_from_data :: "k8s_validators \<Rightarrow> (string \<times> reading) list \<Rightarrow> string \<Rightarrow> label_node_set list res" where
  "decode_label_entries_from_data kv data key =
     res_bind (res_map (entry_from_data kv key) data) (\<lambda>es.
       let plain = map snd (filter fst (List.map_filter id es));
           prefixed = map snd (filter (\<lambda>e. \<not> fst e) (List.map_filter id es))
       in if length plain = 0 \<and> length prefixed = 1 then
            invalid ''label readings for %q are ambiguous: a single disambiguated-shape entry %q exists without the plain key'' [key, ln_raw (hd prefixed)]
          else
            res_bind (if length plain = 0 \<and> length prefixed \<ge> 2
                      then res_bind (res_fold see_once [] (concat (map ln_nodes prefixed))) (\<lambda>_. Inr prefixed)
                      else Inr plain) (\<lambda>entries.
              case find ln_truncated entries of
                Some e \<Rightarrow> invalid ''label reading %q is truncated - node-set constraints cannot be evaluated on a partial node list'' [ln_raw e]
              | None \<Rightarrow> Inr entries))"

definition decode_label_entries :: "k8s_validators \<Rightarrow> subtype \<Rightarrow> string \<Rightarrow> label_node_set list res" where
  "decode_label_entries kv labels key =
     (if has_lossless_readings (Some labels) then decode_label_entries_from_items kv labels key
      else decode_label_entries_from_data kv (st_Data labels) key)"

definition summarize_nodes :: "string list \<Rightarrow> string" where
  "summarize_nodes nodes =
     (if length nodes \<le> maxReportedNodes then join_with '','' nodes
      else join_with '','' (take maxReportedNodes nodes) @ '' (+'' @ show_nat (length nodes - maxReportedNodes) @ '' more)'')"

definition eval_error :: "go_error \<Rightarrow> constraint_eval_result" where
  "eval_error e = \<lparr>ev_Passed = False, ev_Actual = [], ev_Error = Some e\<rparr>"

text \<open>A set of nodes is a list without repetitions.\<close>

definition evaluate_every_gpu_node_has_value ::
  "string \<Rightarrow> string \<Rightarrow> string list \<Rightarrow> label_node_set list \<Rightarrow> constraint_eval_result" where
  "evaluate_every_gpu_node_has_value key want universe entries =
     (let matched = concat (map ln_nodes (filter (\<lambda>e. ln_value e = want) entries));
          missing = sort (filter (\<lambda>n. n \<notin> set matched) universe)
      in if length missing = 0 then
           \<lparr>ev_Passed = True,
            ev_Actual = ''all '' @ show_nat (length universe) @ '' GPU node(s) carry '' @ key @ ''='' @ want, ev_Error = None\<rparr>
         else
           \<lparr>ev_Passed = False,
            ev_Actual = show_nat (length missing) @ '' of '' @ show_nat (length universe) @ '' GPU node(s) missing '' @ key @ ''='' @
              want @ '': '' @ summarize_nodes missing, ev_Error = None\<rparr>)"

definition evaluate_no_gpu_node_has_key :: "string \<Rightarrow> string list \<Rightarrow> label_node_set list \<Rightarrow> constraint_eval_result" where
  "evaluate_no_gpu_node_has_key key universe entries =
     (let offenders = sort (remdups (filter (\<lambda>n. n \<in> set universe) (concat (map ln_nodes entries))))
      in if length offenders = 0 then
           \<lparr>ev_Passed = True,
            ev_Actual = ''none of '' @ show_nat (length universe) @ '' GPU node(s) carry label '' @ key, ev_Error = None\<rparr>
         else
           \<lparr>ev_Passed = False,
            ev_Actual = show_nat (length offenders) @ '' of '' @ show_nat (length universe) @ '' GPU node(s) carry label '' @ key @
              '': '' @ summarize_nodes offenders, ev_Error = None\<rparr>)"

definition result_or_error :: "constraint_eval_result res \<Rightarrow> constraint_eval_result" where
  "result_or_error r = (case r of Inl e \<Rightarrow> eval_error e | Inr v \<Rightarrow> v)"

definition evaluate_gpu_nodes_label :: "k8s_validators \<Rightarrow> string \<Rightarrow> snapshot \<Rightarrow> constraint_eval_result" where
  "evaluate_gpu_nodes_label kv value snap =
     result_or_error
       (res_bind (parse_gpu_nodes_label_value kv value) (\<lambda>(key, want, negated).
          case find_label_subtype snap of
            None \<Rightarrow> Inl (err_new ErrCodeNotFound ''snapshot carries no NodeTopology label readings'' [])
          | Some labels \<Rightarrow>
              res_bind (decode_label_entries kv labels gpuNodeUniverseLabel) (\<lambda>universe_entries.
                let universe = remdups (concat (map ln_nodes universe_entries)) in
                if length universe = 0 then
                  Inl (err_new ErrCodeNotFound ''GPU-node universe is empty: snapshot has no %q label readings'' [gpuNodeUniverseLabel])
                else
                  res_bind (decode_label_entries kv labels key) (\<lambda>target_entries.
                    Inr (if negated then evaluate_no_gpu_node_has_key key universe target_entries
                         else evaluate_every_gpu_node_has_value key want universe target_entries)))))"

subsection \<open>Evaluate\<close>

definition evaluate_constraint :: "k8s_validators \<Rightarrow> constraint \<Rightarrow> snapshot \<Rightarrow> constraint_eval_result" where
  "evaluate_constraint kv c snap =
     (if co_Name c = GPUNodesLabelConstraintName then evaluate_gpu_nodes_label kv (co_Value c) snap
      else case parse_path (co_Name c) of
        Inl e \<Rightarrow> eval_error (err_wrap ErrCodeInvalidRequest ''invalid constraint path'' [] e)
      | Inr p \<Rightarrow>
          (case snap of
             None \<Rightarrow> eval_error (err_new ErrCodeInvalidRequest ''snapshot is nil'' [])
           | Some ms \<Rightarrow>
               (case extract_path p ms of
                  Inl e \<Rightarrow> eval_error (err_wrap ErrCodeNotFound ''value not found in snapshot'' [] e)
                | Inr actual \<Rightarrow>
                    (case res_bind
                            (res_wrap (err_wrap ErrCodeInvalidRequest ''invalid constraint expression'' []) (parse_constraint_expression (co_Value c)))
                            (\<lambda>parsed. res_wrap (propagate_or_wrap ErrCodeInternal ''evaluation failed'') (evaluate parsed actual)) of
                       Inl e \<Rightarrow> \<lparr>ev_Passed = False, ev_Actual = actual, ev_Error = Some e\<rparr>
                     | Inr passed \<Rightarrow> \<lparr>ev_Passed = passed, ev_Actual = actual, ev_Error = None\<rparr>))))"


subsection \<open>The verdict on a collected cluster\<close>

definition carriers_of :: "node list list \<Rightarrow> string \<Rightarrow> string \<Rightarrow> node set" where
  "carriers_of pages k v = {n \<in> set (concat pages). (k, v) \<in> set (nd_Labels n)}"

definition has_label :: "node \<Rightarrow> string \<Rightarrow> bool" where
  "has_label n k \<longleftrightarrow> k \<in> fst ` set (nd_Labels n)"

definition gpu_nodes :: "node list list \<Rightarrow> node set" where
  "gpu_nodes pages = {n \<in> set (concat pages). has_label n gpuNodeUniverseLabel}"

text \<open>A cluster as Kubernetes keeps it: names are unique, valid DNS subdomains, a label key is not empty and has one value.\<close>

definition cluster_ok :: "k8s_validators \<Rightarrow> node list list \<Rightarrow> bool" where
  "cluster_ok kv pages \<longleftrightarrow>
     distinct (map nd_Name (concat pages)) \<and> int (length (concat pages)) \<le> int64_max \<and>
     (\<forall>n \<in> set (concat pages). kv_DNS1123Subdomain kv (nd_Name n) \<and> distinct (map fst (nd_Labels n)) \<and> \<not> has_label n [])"

text \<open>The documented rule for names: no comma, bar or parenthesis, and never empty.\<close>

definition dns_names :: "k8s_validators \<Rightarrow> bool" where
  "dns_names kv \<longleftrightarrow> (\<forall>s. kv_DNS1123Subdomain kv s \<longrightarrow> node_name s)"

text \<open>No value of the key has its list of nodes cut off.\<close>

definition complete :: "node list list \<Rightarrow> int \<Rightarrow> string \<Rightarrow> bool" where
  "complete pages maxn k \<longleftrightarrow> (\<forall>v. maxn \<le> 0 \<or> int (card (carriers_of pages k v)) \<le> maxn)"

definition collected_labels :: "node list list \<Rightarrow> int \<Rightarrow> subtype" where
  "collected_labels pages maxn = label_subtype (aggregate label_ids pages) maxn"

definition entry_of :: "label_id list \<Rightarrow> label_id \<times> string list \<Rightarrow> label_node_set" where
  "entry_of ids x = \<lparr>ln_value = li_Value (fst x), ln_nodes = snd x, ln_raw = label_raw ids (fst x), ln_truncated = False\<rparr>"

definition readings_of :: "node list list \<Rightarrow> string \<Rightarrow> (label_id \<times> string list) list" where
  "readings_of pages key = filter (\<lambda>x. li_Key (fst x) = key) (sort_key label_order (aggregate label_ids pages))"

lemma label_ids_set: "\<lparr>li_Key = k, li_Value = v\<rparr> \<in> set (label_ids n) \<longleftrightarrow> (k, v) \<in> set (nd_Labels n)"
  by (auto simp: label_ids_def)

lemma label_id_eta: "\<lparr>li_Key = li_Key i, li_Value = li_Value i\<rparr> = i"
  by simp

lemma label_carriers:
  assumes "distinct (map fst (nd_Labels n))"
  shows "count_list (label_ids n) i = (if (li_Key i, li_Value i) \<in> set (nd_Labels n) then 1 else 0)"
proof -
  have "inj (\<lambda>(k, v). \<lparr>li_Key = k, li_Value = v\<rparr>)" by (auto simp: inj_on_def)
  moreover have "distinct (nd_Labels n)" using assms by (simp add: distinct_map)
  ultimately have "distinct (label_ids n)"
    unfolding label_ids_def by (auto simp: distinct_map intro: inj_on_subset)
  moreover have "i \<in> set (label_ids n) \<longleftrightarrow> (li_Key i, li_Value i) \<in> set (nd_Labels n)"
    using label_ids_set [of "li_Key i" "li_Value i" n] by (simp only: label_id_eta)
  ultimately show ?thesis using distinct_count_atmost_1 [of "label_ids n"] by (simp add: count_mset [symmetric])
qed

lemma reading_nodes:
  assumes ok: "cluster_ok kv pages" and x0: "x \<in> set (aggregate label_ids pages)"
  shows "set (snd x) = nd_Name ` carriers_of pages (li_Key (fst x)) (li_Value (fst x))"
    and "length (snd x) = card (carriers_of pages (li_Key (fst x)) (li_Value (fst x)))"
    and "snd x \<noteq> []" and "li_Key (fst x) \<noteq> []"
proof -
  define ns where "ns = filter (\<lambda>n. (li_Key (fst x), li_Value (fst x)) \<in> set (nd_Labels n)) (concat pages)"
  have lab: "\<forall>n \<in> set (concat pages). distinct (map fst (nd_Labels n))" using ok by (simp add: cluster_ok_def)
  have "carriers label_ids (fst x) qs = map nd_Name (filter (\<lambda>n. (li_Key (fst x), li_Value (fst x)) \<in> set (nd_Labels n)) qs)"
    if "\<forall>n \<in> set qs. distinct (map fst (nd_Labels n))" for qs
    using that by (induction qs) (auto simp: carriers_def label_carriers)
  then have c: "carriers label_ids (fst x) (concat pages) = map nd_Name ns" using lab ns_def by blast
  have x: "\<exists>n \<in> set (concat pages). fst x \<in> set (label_ids n)" "snd x = sort (map nd_Name ns)"
    using x0 unfolding aggregate_member c by blast+
  have set_ns: "set ns = carriers_of pages (li_Key (fst x)) (li_Value (fst x))"
    by (auto simp: ns_def carriers_of_def)
  show "set (snd x) = nd_Name ` carriers_of pages (li_Key (fst x)) (li_Value (fst x))" by (simp add: x(2) set_ns [symmetric])
  have "distinct (concat pages)" using ok by (auto simp: cluster_ok_def distinct_map)
  then have "distinct ns" by (simp add: ns_def)
  then show "length (snd x) = card (carriers_of pages (li_Key (fst x)) (li_Value (fst x)))"
    by (simp add: x(2) set_ns [symmetric] distinct_card)
  obtain n where n: "n \<in> set (concat pages)" "(li_Key (fst x), li_Value (fst x)) \<in> set (nd_Labels n)"
    using x(1) label_ids_set [of "li_Key (fst x)" "li_Value (fst x)"] by (metis label_id_eta)
  then have "ns \<noteq> []" by (auto simp: ns_def filter_empty_conv)
  then show "snd x \<noteq> []" using x(2) by (metis length_0_conv length_map length_sort)
  show "li_Key (fst x) \<noteq> []" using ok n by (force simp: cluster_ok_def has_label_def)
qed

lemma readings_ok:
  assumes ok: "cluster_ok kv pages" and dns: "dns_names kv"
  shows "label_readings_ok (aggregate label_ids pages)"
  unfolding label_readings_ok_def nodes_ok_def
proof (intro ballI conjI)
  fix x assume x: "x \<in> set (aggregate label_ids pages)"
  show "li_Key (fst x) \<noteq> []" "snd x \<noteq> []" using reading_nodes [OF ok x] by blast+
  have "card (carriers_of pages (li_Key (fst x)) (li_Value (fst x))) \<le> card (set (concat pages))"
    by (rule card_mono) (auto simp: carriers_of_def)
  also have "\<dots> \<le> length (concat pages)" by (rule card_length)
  finally show "int (length (snd x)) \<le> int64_max" using ok reading_nodes(2) [OF ok x] by (simp add: cluster_ok_def)
  fix n assume "n \<in> set (snd x)"
  then show "node_name n" using ok dns reading_nodes(1) [OF ok x] by (auto simp: cluster_ok_def dns_names_def carriers_of_def)
qed

lemma readings_of_member:
  "x \<in> set (readings_of pages key) \<longleftrightarrow> x \<in> set (aggregate label_ids pages) \<and> li_Key (fst x) = key"
  by (auto simp: readings_of_def)

text \<open>The one value that a node has for a key.\<close>

definition value_of :: "node list list \<Rightarrow> string \<Rightarrow> string \<Rightarrow> string" where
  "value_of pages key name = (case find (\<lambda>n. nd_Name n = name) (concat pages) of
     None \<Rightarrow> [] | Some n \<Rightarrow> (case map_of (nd_Labels n) key of None \<Rightarrow> [] | Some v \<Rightarrow> v))"

lemma find_node: "cluster_ok kv pages \<Longrightarrow> n \<in> set (concat pages) \<Longrightarrow> find (\<lambda>m. nd_Name m = nd_Name n) (concat pages) = Some n"
proof -
  assume ok: "cluster_ok kv pages" and n: "n \<in> set (concat pages)"
  have d: "distinct (map nd_Name (concat pages))" using ok by (simp add: cluster_ok_def)
  have "distinct (map nd_Name ns) \<Longrightarrow> n \<in> set ns \<Longrightarrow> find (\<lambda>m. nd_Name m = nd_Name n) ns = Some n" for ns
    by (induction ns) (auto simp: image_iff)
  then show ?thesis using d n by blast
qed

lemma value_of_carrier:
  assumes ok: "cluster_ok kv pages" and "n \<in> carriers_of pages key v" shows "value_of pages key (nd_Name n) = v"
proof -
  have n: "n \<in> set (concat pages)" "(key, v) \<in> set (nd_Labels n)" using assms(2) by (auto simp: carriers_of_def)
  then have "map_of (nd_Labels n) key = Some v" using ok by (auto simp: cluster_ok_def intro: map_of_is_SomeI)
  then show ?thesis using find_node [OF ok n(1)] by (simp add: value_of_def)
qed

lemma see_nodes_consistent:
  assumes "\<forall>k v. map_of seen k = Some v \<longrightarrow> v = owner k" "\<forall>n \<in> set ns. owner n = val"
  shows "\<exists>seen'. res_fold (see_node val) seen ns = Inr seen' \<and> (\<forall>k v. map_of seen' k = Some v \<longrightarrow> v = owner k)"
  using assms
proof (induction ns arbitrary: seen)
  case (Cons n ns)
  have step: "see_node val seen n = Inr (upsert n val seen)"
    using Cons.prems by (auto simp: see_node_def split: option.split)
  have "\<forall>k v. map_of (upsert n val seen) k = Some v \<longrightarrow> v = owner k" using Cons.prems by auto
  from Cons.IH [OF this] Cons.prems(2) step show ?case by simp
qed simp

lemma see_entries_consistent:
  assumes "\<forall>k v. map_of seen k = Some v \<longrightarrow> v = owner k" "\<forall>e \<in> set es. \<forall>n \<in> set (ln_nodes e). owner n = ln_value e"
  shows "\<exists>seen'. res_fold see_entry seen es = Inr seen'"
  using assms
proof (induction es arbitrary: seen)
  case (Cons e es)
  obtain seen' where "see_entry seen e = Inr seen'" "\<forall>k v. map_of seen' k = Some v \<longrightarrow> v = owner k"
    using see_nodes_consistent [OF Cons.prems(1), of "ln_nodes e" "ln_value e"] Cons.prems(2) by (auto simp: see_entry_def)
  then show ?case using Cons.IH [of seen'] Cons.prems(2) by simp
qed simp

lemma cut_off_iff:
  assumes "cluster_ok kv pages" "x \<in> set (aggregate label_ids pages)"
  shows "cut_off (snd x) maxn \<longleftrightarrow> 0 < maxn \<and> maxn < int (card (carriers_of pages (li_Key (fst x)) (li_Value (fst x))))"
  using reading_nodes(2) [OF assms] by (auto simp: cut_off_def)

lemma complete_iff:
  assumes ok: "cluster_ok kv pages"
  shows "complete pages maxn key \<longleftrightarrow> (\<forall>x \<in> set (readings_of pages key). \<not> cut_off (snd x) maxn)"
proof
  assume "complete pages maxn key"
  then show "\<forall>x \<in> set (readings_of pages key). \<not> cut_off (snd x) maxn"
    using cut_off_iff [OF ok] by (auto simp: complete_def readings_of_member not_less [symmetric])
next
  assume all: "\<forall>x \<in> set (readings_of pages key). \<not> cut_off (snd x) maxn"
  show "complete pages maxn key"
    unfolding complete_def
  proof (intro allI)
    fix v
    show "maxn \<le> 0 \<or> int (card (carriers_of pages key v)) \<le> maxn"
    proof (cases "carriers_of pages key v = {}")
      case False
      define x where "x = (\<lparr>li_Key = key, li_Value = v\<rparr>, sort (carriers label_ids \<lparr>li_Key = key, li_Value = v\<rparr> (concat pages)))"
      have "\<exists>n \<in> set (concat pages). fst x \<in> set (label_ids n)"
        using False by (auto simp: x_def label_ids_set carriers_of_def)
      then have "x \<in> set (aggregate label_ids pages)" unfolding aggregate_member by (simp add: x_def)
      moreover from this have "x \<in> set (readings_of pages key)" unfolding readings_of_member by (simp add: x_def)
      ultimately have "\<not> cut_off (snd x) maxn" "x \<in> set (aggregate label_ids pages)" using all by blast+
      then show ?thesis using cut_off_iff [OF ok, of x maxn] by (auto simp: x_def)
    qed auto
  qed
qed

lemma decode_collected:
  assumes ok: "cluster_ok kv pages" and dns: "dns_names kv"
  shows "(complete pages maxn key \<longrightarrow>
      decode_label_entries kv (collected_labels pages maxn) key =
        Inr (map (entry_of (map fst (aggregate label_ids pages))) (readings_of pages key))) \<and>
    (\<not> complete pages maxn key \<longrightarrow>
      (\<exists>e. decode_label_entries kv (collected_labels pages maxn) key = Inl e \<and> err_code e = Some ErrCodeInvalidRequest))"
proof (cases "aggregate label_ids pages = []")
  case True
  then have "decode_label_entries kv (collected_labels pages maxn) key = Inr []" "readings_of pages key = []"
    by (simp_all add: decode_label_entries_def collected_labels_def has_lossless_readings_def label_subtype_def encode_label_items_def
        decode_label_entries_from_data_def encode_labels_def readings_of_def map_filter_def Let_def)
  then show ?thesis using complete_iff [OF ok] by simp
next
  case False
  define ids where "ids = map fst (aggregate label_ids pages)"
  have lossless: "has_lossless_readings (Some (collected_labels pages maxn))"
    using False by (simp add: has_lossless_readings_def collected_labels_def label_subtype_def encode_label_items_def)
  have rs: "filter (\<lambda>r. lr_Key r = key) (map (label_reading_of ids maxn) (sort_key label_order (aggregate label_ids pages))) =
      map (label_reading_of ids maxn) (readings_of pages key)"
    by (simp add: readings_of_def filter_map comp_def label_reading_of_def)
  have dec: "decode_label_entries kv (collected_labels pages maxn) key =
      res_bind (res_map (entry_from_reading kv \<circ> label_reading_of ids maxn) (readings_of pages key))
        (\<lambda>es. res_bind (res_fold see_entry [] es) (\<lambda>_. Inr es))"
    using lossless label_readings_encoded [OF readings_ok [OF ok dns], of maxn]
    by (simp add: decode_label_entries_def decode_label_entries_from_items_def collected_labels_def ids_def [symmetric] rs res_map_map)
  have entry: "entry_from_reading kv (label_reading_of ids maxn x) = Inr (entry_of ids x)"
    if "x \<in> set (readings_of pages key)" "\<not> cut_off (snd x) maxn" for x
  proof -
    have x: "x \<in> set (aggregate label_ids pages)" using that by (simp add: readings_of_member)
    then have "nodes_ok (snd x)" using readings_ok [OF ok dns] by (simp add: label_readings_ok_def)
    then have "shown_nodes (snd x) maxn = snd x" using shown_nodes_complete that(2) by blast
    moreover have "valid_node_names kv (snd x)"
      using ok reading_nodes(1,3) [OF ok x] by (auto simp: valid_node_names_def list_all_iff cluster_ok_def carriers_of_def)
    ultimately show ?thesis using that(2) by (simp add: entry_from_reading_def label_reading_of_def entry_of_def)
  qed
  show ?thesis
  proof (cases "complete pages maxn key")
    case True
    then have "\<forall>x \<in> set (readings_of pages key). (entry_from_reading kv \<circ> label_reading_of ids maxn) x = Inr (entry_of ids x)"
      using entry complete_iff [OF ok] by auto
    then have es: "res_map (entry_from_reading kv \<circ> label_reading_of ids maxn) (readings_of pages key) =
        Inr (map (entry_of ids) (readings_of pages key))"
      by (rule res_map_Inr)
    have "\<exists>seen'. res_fold see_entry [] (map (entry_of ids) (readings_of pages key)) = Inr seen'"
      using reading_nodes(1) [OF ok] value_of_carrier [OF ok]
      by (intro see_entries_consistent [of _ "value_of pages key"]) (auto simp: entry_of_def readings_of_member)
    then show ?thesis using True es dec by (auto simp: ids_def)
  next
    case False
    have "\<exists>e. res_map (entry_from_reading kv \<circ> label_reading_of ids maxn) xs = Inl e \<and> err_code e = Some ErrCodeInvalidRequest"
      if "\<exists>x \<in> set xs. cut_off (snd x) maxn" "set xs \<subseteq> set (readings_of pages key)" for xs
      using that
    proof (induction xs)
      case (Cons x xs)
      show ?case
      proof (cases "cut_off (snd x) maxn")
        case True
        then show ?thesis by (simp add: entry_from_reading_def label_reading_of_def invalid_def)
      next
        case False
        then have "entry_from_reading kv (label_reading_of ids maxn x) = Inr (entry_of ids x)" using entry [of x] Cons.prems(2) by simp
        then show ?thesis using Cons False by auto
      qed
    qed simp
    then show ?thesis using False complete_iff [OF ok] dec by fastforce
  qed
qed


lemma universe_of:
  assumes ok: "cluster_ok kv pages"
  shows "set (concat (map ln_nodes (map (entry_of ids) (readings_of pages key)))) =
    nd_Name ` {n \<in> set (concat pages). has_label n key}"
proof -
  have "set (concat (map ln_nodes (map (entry_of ids) (readings_of pages key)))) =
      (\<Union>x \<in> set (readings_of pages key). nd_Name ` carriers_of pages key (li_Value (fst x)))"
    using reading_nodes(1) [OF ok] by (auto simp: entry_of_def readings_of_member)
  also have "\<dots> = nd_Name ` {n \<in> set (concat pages). has_label n key}"
  proof (intro equalityI subsetI)
    fix m assume "m \<in> nd_Name ` {n \<in> set (concat pages). has_label n key}"
    then obtain n where n: "m = nd_Name n" "n \<in> set (concat pages)" "has_label n key" by blast
    then obtain v where "(key, v) \<in> set (nd_Labels n)" by (auto simp: has_label_def)
    with n have n: "m = nd_Name n" "n \<in> set (concat pages)" "(key, v) \<in> set (nd_Labels n)" by blast+
    define x where "x = (\<lparr>li_Key = key, li_Value = v\<rparr>, sort (carriers label_ids \<lparr>li_Key = key, li_Value = v\<rparr> (concat pages)))"
    have "\<exists>n \<in> set (concat pages). fst x \<in> set (label_ids n)"
      using n(2,3) label_ids_set [of key v n] unfolding x_def fst_conv by blast
    then have "x \<in> set (readings_of pages key)"
      unfolding readings_of_member aggregate_member by (simp add: x_def)
    moreover have "m \<in> nd_Name ` carriers_of pages key (li_Value (fst x))" using n by (auto simp: x_def carriers_of_def)
    ultimately show "m \<in> (\<Union>x \<in> set (readings_of pages key). nd_Name ` carriers_of pages key (li_Value (fst x)))" by blast
  qed (force simp: carriers_of_def has_label_def)
  finally show ?thesis .
qed

lemma matched_of:
  assumes ok: "cluster_ok kv pages"
  shows "set (concat (map ln_nodes (filter (\<lambda>e. ln_value e = want) (map (entry_of ids) (readings_of pages key))))) =
    nd_Name ` carriers_of pages key want"
proof -
  have "set (concat (map ln_nodes (filter (\<lambda>e. ln_value e = want) (map (entry_of ids) (readings_of pages key))))) =
      (\<Union>x \<in> {x \<in> set (readings_of pages key). li_Value (fst x) = want}. set (snd x))"
    by (auto simp: entry_of_def)
  also have "\<dots> = (\<Union>x \<in> {x \<in> set (readings_of pages key). li_Value (fst x) = want}. nd_Name ` carriers_of pages key want)"
    using reading_nodes(1) [OF ok] by (intro SUP_cong) (auto simp: readings_of_member)
  also have "\<dots> = nd_Name ` carriers_of pages key want"
  proof (cases "carriers_of pages key want = {}")
    case False
    define x where "x = (\<lparr>li_Key = key, li_Value = want\<rparr>, sort (carriers label_ids \<lparr>li_Key = key, li_Value = want\<rparr> (concat pages)))"
    have "\<exists>n \<in> set (concat pages). fst x \<in> set (label_ids n)"
      using False label_ids_set [of key want] unfolding x_def fst_conv carriers_of_def by blast
    then have "x \<in> set (readings_of pages key)"
      unfolding readings_of_member aggregate_member by (simp add: x_def)
    then have "x \<in> {x \<in> set (readings_of pages key). li_Value (fst x) = want}" by (simp add: x_def)
    then show ?thesis by blast
  qed simp
  finally show ?thesis .
qed

lemma name_image:
  assumes ok: "cluster_ok kv pages" and "A \<subseteq> set (concat pages)" "n \<in> set (concat pages)"
  shows "nd_Name n \<in> nd_Name ` A \<longleftrightarrow> n \<in> A"
proof -
  have "inj_on nd_Name (set (concat pages))" using ok by (simp add: cluster_ok_def distinct_map)
  then show ?thesis using assms(2,3) inj_on_image_mem_iff by metis
qed

lemma find_collected:
  "find_label_subtype (Some [Some (collect pages maxn)]) = Some (collected_labels pages maxn)"
  by (simp add: find_label_subtype_def map_filter_def collect_def Let_def get_subtype_def taint_subtype_def
      subtypeTaint_def collected_labels_def label_subtype_def subtypeLabel_def)

text \<open>The two predicates on the names of the nodes.\<close>

lemma every_passed:
  "ev_Error (evaluate_every_gpu_node_has_value key want universe entries) = None \<and>
   (ev_Passed (evaluate_every_gpu_node_has_value key want universe entries) \<longleftrightarrow>
      set universe \<subseteq> set (concat (map ln_nodes (filter (\<lambda>e. ln_value e = want) entries))))"
proof -
  have "sort (filter (\<lambda>n. n \<notin> M) universe) = [] \<longleftrightarrow> set universe \<subseteq> M" for M
    unfolding set_empty [symmetric] by auto
  from this [of "set (concat (map ln_nodes (filter (\<lambda>e. ln_value e = want) entries)))"]
  show ?thesis unfolding evaluate_every_gpu_node_has_value_def Let_def length_0_conv by (simp only:) simp
qed

lemma none_passed:
  "ev_Error (evaluate_no_gpu_node_has_key key universe entries) = None \<and>
   (ev_Passed (evaluate_no_gpu_node_has_key key universe entries) \<longleftrightarrow>
      set universe \<inter> set (concat (map ln_nodes entries)) = {})"
proof -
  have "set (sort (remdups (filter (\<lambda>n. n \<in> set universe) (concat (map ln_nodes entries))))) =
      set universe \<inter> set (concat (map ln_nodes entries))" by auto
  then show ?thesis unfolding evaluate_no_gpu_node_has_key_def Let_def length_0_conv set_empty [symmetric] by simp
qed

definition predicate_holds :: "node list list \<Rightarrow> string \<Rightarrow> string \<Rightarrow> bool \<Rightarrow> bool" where
  "predicate_holds pages key want negated \<longleftrightarrow>
     (\<forall>n \<in> gpu_nodes pages. if negated then \<not> has_label n key else (key, want) \<in> set (nd_Labels n))"

text \<open>Property C27: the node-set constraint decides its predicate on the cluster. On the snapshot that the collector writes of a
  cluster, the constraint on GPU nodes passes exactly when every GPU node has the label with the value (or, negated, none
  has the label). It never passes on partial knowledge: with a cut-off list of nodes under either label it is an invalid
  request, and without a GPU node it is not found.\<close>

theorem gpu_nodes_label_exact:
  assumes "cluster_ok kv pages" "dns_names kv" "parse_gpu_nodes_label_value kv (co_Value c) = Inr (key, want, negated)"
    and "co_Name c = PathGPUNodesLabel"
    and "r = evaluate_constraint kv c (Some [Some (collect pages maxn)])"
  shows "if \<not> complete pages maxn gpuNodeUniverseLabel then \<exists>e. r = eval_error e \<and> err_code e = Some ErrCodeInvalidRequest
    else if gpu_nodes pages = {} then \<exists>e. r = eval_error e \<and> err_code e = Some ErrCodeNotFound
    else if \<not> complete pages maxn key then \<exists>e. r = eval_error e \<and> err_code e = Some ErrCodeInvalidRequest
    else ev_Error r = None \<and> (ev_Passed r \<longleftrightarrow> predicate_holds pages key want negated)"
proof -
  note ok = assms(1)
  define labels where "labels = collected_labels pages maxn"
  define ids where "ids = map fst (aggregate label_ids pages)"
  have dec: "complete pages maxn k \<Longrightarrow> decode_label_entries kv labels k = Inr (map (entry_of ids) (readings_of pages k))"
    "\<not> complete pages maxn k \<Longrightarrow> \<exists>e. decode_label_entries kv labels k = Inl e \<and> err_code e = Some ErrCodeInvalidRequest" for k
    using decode_collected [OF ok assms(2)] by (auto simp: labels_def ids_def)
  define universe where
    "universe = remdups (concat (map ln_nodes (map (entry_of ids) (readings_of pages gpuNodeUniverseLabel))))"
  note u = universe_def [symmetric]
  have uset: "set universe = nd_Name ` gpu_nodes pages"
    using universe_of [OF ok, of ids gpuNodeUniverseLabel] by (simp only: universe_def set_remdups gpu_nodes_def)
  have r: "r = result_or_error (res_bind (decode_label_entries kv labels gpuNodeUniverseLabel) (\<lambda>ue.
      let universe = remdups (concat (map ln_nodes ue)) in
      if length universe = 0 then
        Inl (err_new ErrCodeNotFound ''GPU-node universe is empty: snapshot has no %q label readings'' [gpuNodeUniverseLabel])
      else res_bind (decode_label_entries kv labels key) (\<lambda>te.
        Inr (if negated then evaluate_no_gpu_node_has_key key universe te
             else evaluate_every_gpu_node_has_value key want universe te))))"
    by (simp only: assms(3-5) evaluate_constraint_def GPUNodesLabelConstraintName_def if_True simp_thms evaluate_gpu_nodes_label_def
        find_collected res_bind_simps prod.case option.case labels_def)
  consider "\<not> complete pages maxn gpuNodeUniverseLabel"
    | "complete pages maxn gpuNodeUniverseLabel" "gpu_nodes pages = {}"
    | "complete pages maxn gpuNodeUniverseLabel" "gpu_nodes pages \<noteq> {}" "\<not> complete pages maxn key"
    | "complete pages maxn gpuNodeUniverseLabel" "gpu_nodes pages \<noteq> {}" "complete pages maxn key" by blast
  then show ?thesis
  proof cases
    case 1
    then show ?thesis using dec(2) [OF 1] by (auto simp: r result_or_error_def)
  next
    case 2
    then have "universe = []" using uset by simp
    then show ?thesis
      using 2 unfolding r dec(1) [OF 2(1)] res_bind_simps Let_def u
      by (simp add: result_or_error_def) (intro exI conjI, rule refl, simp)
  next
    case 3
    then have "universe \<noteq> []" using uset by auto
    then show ?thesis
      using 3 dec(2) [OF 3(3)] unfolding r dec(1) [OF 3(1)] res_bind_simps Let_def u by (auto simp: result_or_error_def)
  next
    case 4
    then have "universe \<noteq> []" using uset by auto
    then have r4: "r = (if negated then evaluate_no_gpu_node_has_key key universe (map (entry_of ids) (readings_of pages key))
        else evaluate_every_gpu_node_has_value key want universe (map (entry_of ids) (readings_of pages key)))"
      unfolding r dec(1) [OF 4(1)] dec(1) [OF 4(3)] res_bind_simps Let_def u by (simp add: result_or_error_def)
    have sub: "gpu_nodes pages \<subseteq> set (concat pages)" "carriers_of pages key want \<subseteq> set (concat pages)"
      by (auto simp: gpu_nodes_def carriers_of_def)
    have every: "nd_Name ` gpu_nodes pages \<subseteq> nd_Name ` carriers_of pages key want \<longleftrightarrow> gpu_nodes pages \<subseteq> carriers_of pages key want"
      using name_image [OF ok sub(2)] sub(1) by blast
    have disj: "nd_Name ` gpu_nodes pages \<inter> nd_Name ` {n \<in> set (concat pages). has_label n key} = {} \<longleftrightarrow>
        gpu_nodes pages \<inter> {n \<in> set (concat pages). has_label n key} = {}"
      using name_image [OF ok, of "{n \<in> set (concat pages). has_label n key}"] sub(1) by blast
    have "ev_Error r = None \<and> (ev_Passed r \<longleftrightarrow> predicate_holds pages key want negated)"
    proof (cases negated)
      case True
      then show ?thesis
        using none_passed [of key universe "map (entry_of ids) (readings_of pages key)"] sub(1)
        unfolding r4 universe_of [OF ok] uset disj predicate_holds_def by auto
    next
      case False
      then show ?thesis
        using every_passed [of key want universe "map (entry_of ids) (readings_of pages key)"] sub(1)
        unfolding r4 matched_of [OF ok] uset every predicate_holds_def using sub(1) by (auto simp: carriers_of_def)
    qed
    with 4 show ?thesis by simp
  qed
qed

text \<open>A cluster of three nodes, two of them with a GPU, and plain validators.\<close>

definition plain_validators :: k8s_validators where
  "plain_validators =
     (let plain = (\<lambda>s. s \<noteq> [] \<and> CHR '','' \<notin> set s \<and> CHR ''|'' \<notin> set s \<and> CHR '')'' \<notin> set s \<and> CHR ''='' \<notin> set s)
      in \<lparr>kv_LabelKey = plain, kv_LabelValue = (\<lambda>_. True), kv_DNS1123Subdomain = plain\<rparr>)"

definition small_cluster :: "node list list" where
  "small_cluster =
     [[\<lparr>nd_Name = ''gpu-2'', nd_Labels = [(gpuNodeUniverseLabel, ''nvidia-h100''), (''pool'', ''a'')], nd_Taints = []\<rparr>,
       \<lparr>nd_Name = ''cpu-1'', nd_Labels = [(''pool'', ''b'')], nd_Taints = []\<rparr>],
      [\<lparr>nd_Name = ''gpu-1'', nd_Labels = [(''pool'', ''a''), (gpuNodeUniverseLabel, ''nvidia-l4'')], nd_Taints = []\<rparr>]]"

definition pool_constraint :: constraint where
  "pool_constraint =
     \<lparr>co_Name = PathGPUNodesLabel, co_Value = ''pool=a'', co_Severity = [], co_Remediation = [], co_Unit = []\<rparr>"

lemma small_cluster_complete: "complete small_cluster 0 k"
  by (simp add: complete_def)

theorem gpu_nodes_label_exact_witness:
  "let r = evaluate_constraint plain_validators pool_constraint (Some [Some (collect small_cluster 0)])
   in ev_Error r = None \<and> ev_Passed r"
proof -
  define r where "r = evaluate_constraint plain_validators pool_constraint (Some [Some (collect small_cluster 0)])"
  have "cluster_ok plain_validators small_cluster" by code_simp
  moreover have "dns_names plain_validators"
    by (simp add: dns_names_def plain_validators_def node_name_def Let_def)
  moreover have "parse_gpu_nodes_label_value plain_validators (co_Value pool_constraint) = Inr (''pool'', ''a'', False)"
    by code_simp
  moreover have "co_Name pool_constraint = PathGPUNodesLabel" by (simp add: pool_constraint_def)
  moreover have "gpu_nodes small_cluster \<noteq> {}"
    by (simp add: gpu_nodes_def small_cluster_def has_label_def ex_disj_distrib conj_disj_distribR)
  moreover have "predicate_holds small_cluster ''pool'' ''a'' False"
    by (auto simp: predicate_holds_def gpu_nodes_def small_cluster_def has_label_def gpuNodeUniverseLabel_def)
  ultimately show ?thesis
    using gpu_nodes_label_exact [of plain_validators small_cluster pool_constraint "''pool''" "''a''" False r 0] small_cluster_complete
    by (simp add: r_def [symmetric] Let_def)
qed


text \<open>Property C26: what the collector writes of the labels is read back. Each label with the value that some node has gives one
  reading, in order of key and value; it counts the nodes that have it, is truncated exactly when they are more than the
  limit, and otherwise lists them exactly. A label and value that no node has give none: the collision of folded keys
  loses nothing.\<close>

theorem collected_readings_roundtrip:
  assumes "cluster_ok kv pages" "dns_names kv"
  shows "\<exists>rs. label_readings (get_subtype (collect pages maxn) ''label'') = Inr rs \<and>
    sorted (map (\<lambda>r. [lr_Key r, lr_Value r]) rs) \<and> distinct (map (\<lambda>r. [lr_Key r, lr_Value r]) rs) \<and>
    (\<forall>k v. (\<exists>r \<in> set rs. lr_Key r = k \<and> lr_Value r = v) \<longleftrightarrow> carriers_of pages k v \<noteq> {}) \<and>
    (\<forall>r \<in> set rs. \<exists>c. c = carriers_of pages (lr_Key r) (lr_Value r) \<and> lr_NodeCount r = int (card c) \<and>
       (lr_Truncated r \<longleftrightarrow> 0 < maxn \<and> maxn < int (card c)) \<and> (\<not> lr_Truncated r \<longrightarrow> set (lr_Nodes r) = nd_Name ` c))"
proof -
  note ok = assms(1)
  define agg where "agg = aggregate label_ids pages"
  define rs where "rs = map (label_reading_of (map fst agg) maxn) (sort_key label_order agg)"
  have sub: "get_subtype (collect pages maxn) ''label'' = Some (label_subtype agg maxn)"
    by (simp add: collect_def Let_def get_subtype_def taint_subtype_def subtypeTaint_def label_subtype_def subtypeLabel_def agg_def)
  have f1: "label_readings (get_subtype (collect pages maxn) ''label'') = Inr rs"
    unfolding sub rs_def using label_readings_encoded [OF readings_ok [OF assms]] by (simp add: agg_def)
  have keys: "map (\<lambda>r. [lr_Key r, lr_Value r]) rs = map label_order (sort_key label_order agg)"
    by (simp add: rs_def label_reading_of_def label_order_def)
  have f2: "distinct (map label_order (sort_key label_order agg))"
  proof -
    have "inj (\<lambda>i :: label_id. [li_Key i, li_Value i])" by (rule injI) (rule label_id.equality, simp_all)
    moreover have "distinct (map fst agg)" unfolding agg_def by (rule aggregate_distinct)
    ultimately have "distinct (map (\<lambda>i. [li_Key i, li_Value i]) (map fst agg))"
      unfolding distinct_map [of _ "map fst agg"] by (auto intro: inj_on_subset)
    then have "distinct (map label_order agg)" by (simp add: label_order_def [abs_def] comp_def)
    then show ?thesis by (simp only: distinct_map distinct_sort set_sort)
  qed
  have f3: "(\<exists>r \<in> set rs. lr_Key r = k \<and> lr_Value r = v) \<longleftrightarrow> carriers_of pages k v \<noteq> {}" for k v
  proof -
    have "(\<exists>r \<in> set rs. lr_Key r = k \<and> lr_Value r = v) \<longleftrightarrow> (\<exists>x \<in> set agg. fst x = \<lparr>li_Key = k, li_Value = v\<rparr>)"
    proof -
      have "(\<exists>r \<in> set rs. lr_Key r = k \<and> lr_Value r = v) \<longleftrightarrow> (\<exists>x \<in> set agg. li_Key (fst x) = k \<and> li_Value (fst x) = v)"
        by (simp add: rs_def label_reading_of_def)
      also have "\<dots> \<longleftrightarrow> (\<exists>x \<in> set agg. fst x = \<lparr>li_Key = k, li_Value = v\<rparr>)"
        by (metis label_id_eta label_id.select_convs)
      finally show ?thesis .
    qed
    also have "\<dots> \<longleftrightarrow> (\<exists>n \<in> set (concat pages). \<lparr>li_Key = k, li_Value = v\<rparr> \<in> set (label_ids n))"
      unfolding agg_def aggregate_member Bex_def by (metis fst_conv snd_conv)
    also have "\<dots> \<longleftrightarrow> carriers_of pages k v \<noteq> {}"
      unfolding label_ids_set carriers_of_def by blast
    finally show ?thesis .
  qed
  have f4: "\<exists>c. c = carriers_of pages (lr_Key r) (lr_Value r) \<and> lr_NodeCount r = int (card c) \<and>
       (lr_Truncated r \<longleftrightarrow> 0 < maxn \<and> maxn < int (card c)) \<and> (\<not> lr_Truncated r \<longrightarrow> set (lr_Nodes r) = nd_Name ` c)"
    if rin: "r \<in> set rs" for r
  proof -
    obtain x where x: "x \<in> set agg" "r = label_reading_of (map fst agg) maxn x" using rin unfolding rs_def set_map set_sort by blast
    have xa: "x \<in> set (aggregate label_ids pages)" using x(1) by (simp add: agg_def)
    have "nodes_ok (snd x)" using readings_ok [OF assms] xa by (simp add: label_readings_ok_def)
    then show ?thesis
      using reading_nodes(1,2) [OF ok xa] cut_off_iff [OF ok xa, of maxn] shown_nodes_complete
      by (auto simp: x(2) label_reading_of_def)
  qed
  show ?thesis
    by (intro exI [of _ rs] conjI allI ballI; (unfold keys)?; (rule f1 f2 f3 f4 sorted_sort_key | assumption)+)
qed

theorem collected_readings_roundtrip_witness:
  "\<exists>rs. label_readings (get_subtype (collect small_cluster 1) ''label'') = Inr rs \<and>
    (\<exists>r \<in> set rs. lr_Key r = ''pool'' \<and> lr_Value r = ''a'') \<and> (\<exists>r \<in> set rs. lr_Truncated r)"
proof -
  have ok: "cluster_ok plain_validators small_cluster" by code_simp
  have dns: "dns_names plain_validators" by (simp add: dns_names_def plain_validators_def node_name_def Let_def)
  have c: "carriers_of small_cluster ''pool'' ''a'' = set (concat small_cluster) - {small_cluster ! 0 ! 1}"
    by (auto simp: carriers_of_def small_cluster_def gpuNodeUniverseLabel_def)
  have card: "card (carriers_of small_cluster ''pool'' ''a'') = 2" "carriers_of small_cluster ''pool'' ''a'' \<noteq> {}"
    unfolding c by (simp_all add: small_cluster_def)
  obtain rs where rs: "label_readings (get_subtype (collect small_cluster 1) ''label'') = Inr rs"
      "\<exists>r \<in> set rs. lr_Key r = ''pool'' \<and> lr_Value r = ''a''"
      "\<forall>r \<in> set rs. \<exists>c. c = carriers_of small_cluster (lr_Key r) (lr_Value r) \<and> (lr_Truncated r \<longleftrightarrow> (0::int) < 1 \<and> 1 < int (card c))"
    using collected_readings_roundtrip [OF ok dns, of 1] card(2) by (elim exE) (blast)
  then show ?thesis using card(1) by (intro exI [of _ rs]) fastforce
qed

subsection \<open>The gate on constraint names (pkg/recipe/constraint_paths.go)\<close>

definition annotate_constraint_path_err :: "string \<Rightarrow> string \<Rightarrow> go_error \<Rightarrow> go_error" where
  "annotate_constraint_path_err source loc err =
     (let label = (if source \<noteq> [] then source @ '': '' @ loc @ ''[%d]'' else loc @ ''[%d]'')
      in case err_code err of
           None \<Rightarrow> err_wrap ErrCodeInternal label [] err
         | Some code \<Rightarrow> err_wrap code label [] err)"

definition validate_constraint_paths :: "constraint list \<Rightarrow> string \<Rightarrow> string \<Rightarrow> unit res" where
  "validate_constraint_paths cs source loc =
     each (\<lambda>c. res_wrap (annotate_constraint_path_err source loc) (validate_path (co_Name c))) cs"

definition readiness_constraints :: "recipe_metadata_spec \<Rightarrow> constraint list" where
  "readiness_constraints spec =
     (case rs_Validation spec of
        None \<Rightarrow> []
      | Some v \<Rightarrow> (case vc_Readiness v of None \<Rightarrow> [] | Some ph \<Rightarrow> slice (vp_Constraints ph)))"

definition validate_spec_constraint_paths :: "recipe_metadata_spec option \<Rightarrow> string \<Rightarrow> unit res" where
  "validate_spec_constraint_paths spec0 source =
     (case spec0 of
        None \<Rightarrow> Inr ()
      | Some spec \<Rightarrow>
          res_bind (validate_constraint_paths (rs_Constraints spec) source ''spec.constraints'') (\<lambda>_.
          res_bind (validate_constraint_paths (readiness_constraints spec) source ''spec.validation.readiness.constraints'') (\<lambda>_.
            case rs_Profile spec of
              None \<Rightarrow> Inr ()
            | Some pd \<Rightarrow>
                each (\<lambda>name. validate_constraint_paths (pv_Constraints (the (map_of (pd_Values pd) name))) source
                        (''spec.profile.values.'' @ name @ ''.constraints''))
                  (sort (map fst (pd_Values pd))))))"

text \<open>The constraints that a snapshot may have to answer for a specification.\<close>

definition snapshot_constraints :: "recipe_metadata_spec \<Rightarrow> constraint set" where
  "snapshot_constraints spec =
     set (rs_Constraints spec) \<union> set (readiness_constraints spec) \<union>
     (case rs_Profile spec of
        None \<Rightarrow> {}
      | Some pd \<Rightarrow> \<Union>name \<in> fst ` set (pd_Values pd). set (pv_Constraints (the (map_of (pd_Values pd) name))))"

lemma validate_constraint_paths_ok:
  "is_ok (validate_constraint_paths cs source loc) \<longleftrightarrow> (\<forall>c \<in> set cs. is_ok (validate_path (co_Name c)))"
  by (simp add: validate_constraint_paths_def)

lemma is_ok_bind_unit: "is_ok (res_bind (r :: 'e + unit) (\<lambda>_. f)) \<longleftrightarrow> is_ok r \<and> is_ok f"
  by (cases r) auto

lemma validate_spec_constraint_paths_ok:
  "is_ok (validate_spec_constraint_paths (Some spec) source) \<longleftrightarrow>
     (\<forall>c \<in> snapshot_constraints spec. is_ok (validate_path (co_Name c)))"
  unfolding validate_spec_constraint_paths_def option.case is_ok_bind_unit validate_constraint_paths_ok snapshot_constraints_def
  by (cases "rs_Profile spec") (auto simp: validate_constraint_paths_ok)

lemma annotate_keeps_code:
  "err_code (annotate_constraint_path_err source loc err) = Some (case err_code err of None \<Rightarrow> ErrCodeInternal | Some c \<Rightarrow> c)"
  by (simp add: annotate_constraint_path_err_def Let_def split: option.split)

text \<open>Why the gate exists: a constraint that passes it can be read from some snapshot, or is the node-set form. One that does not
  parse or is not in the catalog would exclude its overlay from every snapshot.\<close>

lemma gated_constraint_readable:
  assumes "is_ok (validate_spec_constraint_paths (Some spec) source)" "c \<in> snapshot_constraints spec"
  shows "co_Name c = PathGPUNodesLabel \<or>
    (\<exists>p ms actual. parse_path (co_Name c) = Inr p \<and> conforming measurement_catalog ms \<and> extract_path p ms = Inr actual)"
proof (cases "co_Name c \<in> set virtual_paths")
  case True
  then show ?thesis by (simp add: virtual_paths_def)
next
  case False
  have ok: "is_ok (validate_path (co_Name c))" using assms validate_spec_constraint_paths_ok by blast
  then obtain p where p: "parse_path (co_Name c) = Inr p"
    using False by (auto simp: validate_path_def validate_path_in_def is_ok_bind)
  have "pt_Type p \<in> set measurement_types" and sub: "pt_Subtype p \<noteq> []" using parse_path_Inr [OF p] by blast+
  then have "pt_Type p \<noteq> []" by (auto simp: measurement_types_def measurement_type_names)
  then show ?thesis
    using validate_path_in_ok [OF False p, of measurement_catalog] ok p answer_conforming [OF _ _ _ _ sub] answer_ok
    unfolding validate_path_def is_ok_iff by metis
qed

text \<open>A predicate selector that matches two items is a conflict, but the evaluation reports it as a value that is not found, so
  the overlay of the constraint is left out and resolution goes on.\<close>

lemma ambiguous_item_counts_as_not_found:
  assumes "co_Name c \<noteq> GPUNodesLabelConstraintName" "parse_path (co_Name c) = Inr p" "extract_path p ms = Inl e"
  shows "\<exists>err. ev_Error (evaluate_constraint kv c (Some ms)) = Some err \<and> is_not_found_eval_error err"
  using assms by (simp add: evaluate_constraint_def eval_error_def is_not_found_eval_error_def)

end
