(* ===== verification/Snapshot_Diff.thy ===== *)
theory Snapshot_Diff
  imports Constraint_Eval
begin


section \<open>Drift between two snapshots (pkg/diff)\<close>

text \<open>
  A comparison of two snapshots, field by field, with the two encodings of the node topology brought to one first. The
  sort by path leaves the order of equal paths open; the model's sort is stable, and no result here depends on that order.
  Writing the table to a stream is not modelled, the rendering of its cells is. Context maps and data maps have distinct keys.
\<close>

subsection \<open>Changes\<close>

datatype change_kind = Added | Removed | Modified

record change =
  ch_Kind :: change_kind
  ch_Path :: string
  ch_Baseline :: "string option"
  ch_Target :: "string option"

record diff_summary =
  sm_Added :: nat
  sm_Removed :: nat
  sm_Modified :: nat
  sm_Total :: nat

record diff_result =
  df_Changes :: "change list"
  df_Summary :: diff_summary

definition has_drift :: "diff_result option \<Rightarrow> bool" where
  "has_drift r = (case r of None \<Rightarrow> False | Some r \<Rightarrow> length (df_Changes r) > 0)"

definition merge_keys :: "(string \<times> 'a) list \<Rightarrow> (string \<times> 'b) list \<Rightarrow> string list" where
  "merge_keys a b = remdups (map fst a @ map fst b)"

text \<open>\<open>strconv.Quote\<close>, on ASCII text.\<close>

definition quote_char :: "char \<Rightarrow> string" where
  "quote_char c =
     (let n = (of_char c :: nat); bs = char_of (92 :: nat) in
      if n = 34 \<or> n = 92 then [bs, c]
      else if n = 7 then [bs, CHR ''a''] else if n = 8 then [bs, CHR ''b''] else if n = 12 then [bs, CHR ''f'']
      else if n = 10 then [bs, CHR ''n''] else if n = 13 then [bs, CHR ''r''] else if n = 9 then [bs, CHR ''t'']
      else if n = 11 then [bs, CHR ''v'']
      else if n < 32 \<or> n = 127 then [bs, CHR ''x'', hex_digit (n div 16), hex_digit (n mod 16)]
      else [c])"

definition go_quote :: "string \<Rightarrow> string" where
  "go_quote s = char_of (34 :: nat) # concat (map quote_char s) @ [char_of (34 :: nat)]"

definition data_path :: "string \<Rightarrow> string \<Rightarrow> string" where
  "data_path pre key =
     (if key = ''context'' \<or> has_prefix key ''context.'' \<or> key = ''items'' \<or> has_prefix key ''items.'' \<or> has_prefix key ''items[''
      then pre @ ''['' @ go_quote key @ '']''
      else pre @ ''.'' @ key)"

text \<open>One key that either side has: the change, if any.\<close>

definition compare_value :: "string \<Rightarrow> string option \<Rightarrow> string option \<Rightarrow> change list" where
  "compare_value p b t =
     (case (b, t) of
        (None, None) \<Rightarrow> []
      | (None, Some v) \<Rightarrow> [\<lparr>ch_Kind = Added, ch_Path = p, ch_Baseline = None, ch_Target = Some v\<rparr>]
      | (Some u, None) \<Rightarrow> [\<lparr>ch_Kind = Removed, ch_Path = p, ch_Baseline = Some u, ch_Target = None\<rparr>]
      | (Some u, Some v) \<Rightarrow>
          if u \<noteq> v then [\<lparr>ch_Kind = Modified, ch_Path = p, ch_Baseline = Some u, ch_Target = Some v\<rparr>] else [])"

definition compare_readings :: "string \<Rightarrow> (string \<times> reading) list \<Rightarrow> (string \<times> reading) list \<Rightarrow> change list" where
  "compare_readings pre base target =
     concat (map (\<lambda>key. compare_value (data_path pre key) (map_option reading_string (map_of base key))
                          (map_option reading_string (map_of target key)))
       (sort (merge_keys base target)))"

definition added_readings :: "string \<Rightarrow> (string \<times> reading) list \<Rightarrow> change list" where
  "added_readings pre vals = compare_readings pre [] vals"

definition removed_readings :: "string \<Rightarrow> (string \<times> reading) list \<Rightarrow> change list" where
  "removed_readings pre vals = compare_readings pre vals []"

definition compare_strings :: "string \<Rightarrow> (string \<times> string) list \<Rightarrow> (string \<times> string) list \<Rightarrow> change list" where
  "compare_strings pre base target =
     concat (map (\<lambda>key. compare_value (pre @ ''.'' @ key) (map_of base key) (map_of target key)) (sort (merge_keys base target)))"

definition added_strings :: "string \<Rightarrow> (string \<times> string) list \<Rightarrow> change list" where
  "added_strings pre vals = compare_strings pre [] vals"

definition removed_strings :: "string \<Rightarrow> (string \<times> string) list \<Rightarrow> change list" where
  "removed_strings pre vals = compare_strings pre vals []"

definition item_prefix :: "string \<Rightarrow> nat \<Rightarrow> string" where
  "item_prefix pre i = pre @ ''.items['' @ show_nat i @ '']''"

definition length_change :: "string \<Rightarrow> change_kind \<Rightarrow> string option \<Rightarrow> string option \<Rightarrow> change" where
  "length_change pre kind b t = \<lparr>ch_Kind = kind, ch_Path = pre @ ''.items.length'', ch_Baseline = b, ch_Target = t\<rparr>"

definition added_item :: "string \<Rightarrow> item_entry \<Rightarrow> change list" where
  "added_item pre item = added_strings (pre @ ''.context'') (it_Context item) @ added_readings (pre @ ''.data'') (it_Data item)"

definition removed_item :: "string \<Rightarrow> item_entry \<Rightarrow> change list" where
  "removed_item pre item = removed_strings (pre @ ''.context'') (it_Context item) @ removed_readings (pre @ ''.data'') (it_Data item)"

definition compare_items :: "string \<Rightarrow> item_entry list \<Rightarrow> item_entry list \<Rightarrow> change list" where
  "compare_items pre base target =
     (if length base \<noteq> length target
      then [length_change pre Modified (Some (show_nat (length base))) (Some (show_nat (length target)))] else []) @
     concat (map (\<lambda>i.
        compare_strings (item_prefix pre i @ ''.context'') (it_Context (base ! i)) (it_Context (target ! i)) @
        compare_readings (item_prefix pre i @ ''.data'') (it_Data (base ! i)) (it_Data (target ! i)))
       [0..<min (length base) (length target)]) @
     concat (map (\<lambda>i. added_item (item_prefix pre i) (target ! i)) [min (length base) (length target)..<length target]) @
     concat (map (\<lambda>i. removed_item (item_prefix pre i) (base ! i)) [min (length base) (length target)..<length base])"

definition added_items :: "string \<Rightarrow> item_entry list \<Rightarrow> change list" where
  "added_items pre items =
     (if length items = 0 then []
      else length_change pre Added None (Some (show_nat (length items))) #
           concat (map (\<lambda>i. added_item (item_prefix pre i) (items ! i)) [0..<length items]))"

definition removed_items :: "string \<Rightarrow> item_entry list \<Rightarrow> change list" where
  "removed_items pre items =
     (if length items = 0 then []
      else length_change pre Removed (Some (show_nat (length items))) None #
           concat (map (\<lambda>i. removed_item (item_prefix pre i) (items ! i)) [0..<length items]))"

definition added_subtype :: "string \<Rightarrow> subtype \<Rightarrow> change list" where
  "added_subtype pre st =
     added_readings pre (st_Data st) @ added_strings (pre @ ''.context'') (st_Context st) @ added_items pre (st_Items st)"

definition removed_subtype :: "string \<Rightarrow> subtype \<Rightarrow> change list" where
  "removed_subtype pre st =
     removed_readings pre (st_Data st) @ removed_strings (pre @ ''.context'') (st_Context st) @ removed_items pre (st_Items st)"

definition added_measurement :: "measurement \<Rightarrow> change list" where
  "added_measurement m = concat (map (\<lambda>st. added_subtype (mt_Type m @ ''.'' @ st_Name st) st) (mt_Subtypes m))"

definition removed_measurement :: "measurement \<Rightarrow> change list" where
  "removed_measurement m = concat (map (\<lambda>st. removed_subtype (mt_Type m @ ''.'' @ st_Name st) st) (mt_Subtypes m))"

text \<open>The last one of a name or type is the one in the index.\<close>

definition index_subtypes :: "subtype list \<Rightarrow> (string \<times> subtype) list" where
  "index_subtypes sts = foldl (\<lambda>idx st. upsert (st_Name st) st idx) [] sts"

definition index_measurements :: "measurement option list \<Rightarrow> (string \<times> measurement) list" where
  "index_measurements ms = foldl (\<lambda>idx m. case m of None \<Rightarrow> idx | Some m \<Rightarrow> upsert (mt_Type m) m idx) [] ms"

subsection \<open>One encoding for both sides\<close>

definition topologySummarySubtype :: string where "topologySummarySubtype = ''summary''"
definition topologyLabelSubtype :: string where "topologyLabelSubtype = ''label''"
definition topologyTaintSubtype :: string where "topologyTaintSubtype = ''taint''"
definition topologyLabelCountKey :: string where "topologyLabelCountKey = ''label-count''"
definition topologyTaintCountKey :: string where "topologyTaintCountKey = ''taint-count''"

lemmas topology_names = topologySummarySubtype_def topologyLabelSubtype_def topologyTaintSubtype_def topologyLabelCountKey_def
  topologyTaintCountKey_def

record subtype_plan =
  sp_hydrate :: bool
  sp_dropData :: bool
  sp_dropItems :: bool
  sp_countKey :: string
  sp_skipKeys :: "string list"

definition item_side :: "subtype \<Rightarrow> subtype \<Rightarrow> subtype" where
  "item_side a b = (if length (st_Items a) > 0 then a else b)"

definition plan_subtype ::
  "(string \<times> subtype) list \<Rightarrow> (string \<times> subtype) list \<Rightarrow> string \<Rightarrow> string \<Rightarrow> subtype_plan option" where
  "plan_subtype base_idx target_idx name count_key =
     (case (map_of base_idx name, map_of target_idx name) of
        (Some b, Some t) \<Rightarrow>
          let base_has = length (st_Items b) > 0; target_has = length (st_Items t) > 0 in
          if base_has \<and> target_has then
            Some \<lparr>sp_hydrate = True, sp_dropData = True, sp_dropItems = False, sp_countKey = [], sp_skipKeys = []\<rparr>
          else if base_has \<noteq> target_has then
            Some \<lparr>sp_hydrate = False, sp_dropData = False, sp_dropItems = True, sp_countKey = count_key,
                  sp_skipKeys = (case hydrate_items (Some (item_side b t)) of Inl _ \<Rightarrow> [] | Inr (_, ambiguous) \<Rightarrow> ambiguous)\<rparr>
          else None
      | _ \<Rightarrow> None)"

definition reduce_subtype :: "(string \<Rightarrow> subtype_plan option) \<Rightarrow> subtype \<Rightarrow> subtype" where
  "reduce_subtype plan st =
     (case plan (st_Name st) of
        None \<Rightarrow> st
      | Some p \<Rightarrow>
          let (items, drop_data) =
                (if sp_hydrate p then
                   (case hydrate_items (Some st) of Inr (items, _) \<Rightarrow> (items, sp_dropData p) | Inl _ \<Rightarrow> (st_Items st, False))
                 else (st_Items st, sp_dropData p));
              data = (if drop_data then [] else st_Data st)
          in st \<lparr>st_Items := (if sp_dropItems p then [] else items), st_Data := filter (\<lambda>(k, _). k \<notin> set (sp_skipKeys p)) data\<rparr>)"

text \<open>The count of the folded map, before keys are skipped.\<close>

definition folded_counts :: "(string \<Rightarrow> subtype_plan option) \<Rightarrow> subtype list \<Rightarrow> (string \<times> nat) list" where
  "folded_counts plan sts =
     foldl (\<lambda>folded st.
        case plan (st_Name st) of
          None \<Rightarrow> folded
        | Some p \<Rightarrow>
            if sp_countKey p \<noteq> [] then
              upsert (sp_countKey p) (if sp_dropData p then 0 else length (st_Data st)) folded
            else folded) [] sts"

definition restate_counts :: "(string \<times> nat) list \<Rightarrow> subtype \<Rightarrow> subtype" where
  "restate_counts folded st =
     (if st_Name st \<noteq> topologySummarySubtype then st
      else st \<lparr>st_Data := map (\<lambda>(k, v). (k, case map_of folded k of None \<Rightarrow> v | Some n \<Rightarrow> ReadInt (int n))) (st_Data st)\<rparr>)"

definition align_measurement :: "measurement \<Rightarrow> (string \<Rightarrow> subtype_plan option) \<Rightarrow> measurement" where
  "align_measurement m plan =
     (let sts = map (reduce_subtype plan) (mt_Subtypes m); folded = folded_counts plan (mt_Subtypes m)
      in m \<lparr>mt_Subtypes := (if folded = [] then sts else map (restate_counts folded) sts)\<rparr>)"

definition alignment_plan :: "measurement \<Rightarrow> measurement \<Rightarrow> string \<Rightarrow> subtype_plan option" where
  "alignment_plan base target name =
     (let b = index_subtypes (mt_Subtypes base); t = index_subtypes (mt_Subtypes target) in
      if name = topologyLabelSubtype then plan_subtype b t name topologyLabelCountKey
      else if name = topologyTaintSubtype then plan_subtype b t name topologyTaintCountKey
      else None)"

definition align_topology_encoding :: "measurement \<Rightarrow> measurement \<Rightarrow> measurement \<times> measurement" where
  "align_topology_encoding base target =
     (let plan = alignment_plan base target in
      if mt_Type base \<noteq> TypeNodeTopology \<or> mt_Type target \<noteq> TypeNodeTopology then (base, target)
      else if plan topologyLabelSubtype = None \<and> plan topologyTaintSubtype = None then (base, target)
      else (align_measurement base plan, align_measurement target plan))"

subsection \<open>The comparison\<close>

definition compare_subtype :: "string \<Rightarrow> subtype option \<Rightarrow> subtype option \<Rightarrow> change list" where
  "compare_subtype pre base target =
     (case (base, target) of
        (None, None) \<Rightarrow> []
      | (None, Some t) \<Rightarrow> added_subtype pre t
      | (Some b, None) \<Rightarrow> removed_subtype pre b
      | (Some b, Some t) \<Rightarrow>
          compare_readings pre (st_Data b) (st_Data t) @ compare_strings (pre @ ''.context'') (st_Context b) (st_Context t) @
          compare_items pre (st_Items b) (st_Items t))"

definition compare_measurements :: "measurement \<Rightarrow> measurement \<Rightarrow> change list" where
  "compare_measurements base0 target0 =
     (let (base, target) = align_topology_encoding base0 target0;
          b = index_subtypes (mt_Subtypes base); t = index_subtypes (mt_Subtypes target)
      in concat (map (\<lambda>name. compare_subtype (mt_Type base @ ''.'' @ name) (map_of b name) (map_of t name)) (sort (merge_keys b t))))"

definition compare_type :: "measurement option \<Rightarrow> measurement option \<Rightarrow> change list" where
  "compare_type base target =
     (case (base, target) of
        (None, None) \<Rightarrow> []
      | (None, Some t) \<Rightarrow> added_measurement t
      | (Some b, None) \<Rightarrow> removed_measurement b
      | (Some b, Some t) \<Rightarrow> compare_measurements b t)"

definition summarize :: "change list \<Rightarrow> diff_summary" where
  "summarize changes =
     foldl (\<lambda>s c. case ch_Kind c of
              Added \<Rightarrow> s \<lparr>sm_Added := sm_Added s + 1\<rparr>
            | Removed \<Rightarrow> s \<lparr>sm_Removed := sm_Removed s + 1\<rparr>
            | Modified \<Rightarrow> s \<lparr>sm_Modified := sm_Modified s + 1\<rparr>)
       \<lparr>sm_Added = 0, sm_Removed = 0, sm_Modified = 0, sm_Total = length changes\<rparr> changes"

definition compare_snapshots :: "measurement option list \<Rightarrow> measurement option list \<Rightarrow> change list" where
  "compare_snapshots base target =
     (let b = index_measurements base; t = index_measurements target
      in concat (map (\<lambda>ty. compare_type (map_of b ty) (map_of t ty)) (sort (merge_keys b t))))"

definition diff_snapshots :: "snapshot \<Rightarrow> snapshot \<Rightarrow> diff_result" where
  "diff_snapshots base target =
     (case (base, target) of
        (Some b, Some t) \<Rightarrow>
          let changes = sort_key ch_Path (compare_snapshots b t)
          in \<lparr>df_Changes = changes, df_Summary = summarize changes\<rparr>
      | _ \<Rightarrow> \<lparr>df_Changes = [], df_Summary = \<lparr>sm_Added = 0, sm_Removed = 0, sm_Modified = 0, sm_Total = 0\<rparr>\<rparr>)"

definition render_cell :: "string option \<Rightarrow> string" where
  "render_cell p = (case p of None \<Rightarrow> ''-'' | Some s \<Rightarrow> if s = [] then ''\"\"'' else s)"


subsection \<open>The comparison is symmetric\<close>

definition mirror_kind :: "change_kind \<Rightarrow> change_kind" where
  "mirror_kind k = (case k of Added \<Rightarrow> Removed | Removed \<Rightarrow> Added | Modified \<Rightarrow> Modified)"

definition mirror :: "change \<Rightarrow> change" where
  "mirror c = \<lparr>ch_Kind = mirror_kind (ch_Kind c), ch_Path = ch_Path c, ch_Baseline = ch_Target c, ch_Target = ch_Baseline c\<rparr>"

definition mirror_result :: "diff_result \<Rightarrow> diff_result" where
  "mirror_result r =
     \<lparr>df_Changes = map mirror (df_Changes r),
      df_Summary = \<lparr>sm_Added = sm_Removed (df_Summary r), sm_Removed = sm_Added (df_Summary r),
                    sm_Modified = sm_Modified (df_Summary r), sm_Total = sm_Total (df_Summary r)\<rparr>\<rparr>"

lemma compare_value_mirror: "compare_value p t b = map mirror (compare_value p b t)"
  by (auto simp: compare_value_def mirror_def mirror_kind_def split: option.splits)

lemma sorted_keys_eq: "set xs = set ys \<Longrightarrow> sort (remdups xs) = sort (remdups ys)"
  for xs :: "'a :: linorder list"
  by (metis sorted_list_of_set_sort_remdups)

lemma merge_keys_swap: "sort (merge_keys b a) = sort (merge_keys a b)"
  unfolding merge_keys_def by (rule sorted_keys_eq) auto

lemma map_concat_map: "concat (map (\<lambda>x. map f (g x)) xs) = map f (concat (map g xs))"
  by (simp add: map_concat comp_def)

lemma compare_readings_mirror: "compare_readings pre t b = map mirror (compare_readings pre b t)"
  unfolding compare_readings_def merge_keys_swap [of t b] map_concat_map [symmetric] compare_value_mirror [symmetric] ..

lemma compare_strings_mirror: "compare_strings pre t b = map mirror (compare_strings pre b t)"
  unfolding compare_strings_def merge_keys_swap [of t b] map_concat_map [symmetric] compare_value_mirror [symmetric] ..

lemma removed_is_mirrored:
  "removed_readings pre vs = map mirror (added_readings pre vs)" "removed_strings pre ws = map mirror (added_strings pre ws)"
  unfolding removed_readings_def added_readings_def removed_strings_def added_strings_def
  by (rule compare_readings_mirror, rule compare_strings_mirror)

lemma removed_item_mirror: "removed_item pre item = map mirror (added_item pre item)"
  by (simp add: removed_item_def added_item_def removed_is_mirrored)

lemma length_change_mirror: "mirror (length_change pre k b t) = length_change pre (mirror_kind k) t b"
  by (simp add: mirror_def length_change_def)

lemma removed_items_mirror: "removed_items pre items = map mirror (added_items pre items)"
  by (simp add: removed_items_def added_items_def removed_item_mirror length_change_mirror mirror_kind_def map_concat comp_def)

lemma mirror_mirror [simp]: "mirror (mirror c) = c"
  by (cases "ch_Kind c") (simp_all add: mirror_def mirror_kind_def)

lemma added_item_mirror: "map mirror (removed_item pre item) = added_item pre item"
  by (simp add: removed_item_mirror comp_def)

lemma compare_items_mirror: "compare_items pre t b = map mirror (compare_items pre b t)"
proof -
  have len: "(if length t \<noteq> length b then [length_change pre Modified (Some (show_nat (length t))) (Some (show_nat (length b)))] else []) =
      map mirror (if length b \<noteq> length t then [length_change pre Modified (Some (show_nat (length b))) (Some (show_nat (length t)))] else [])"
    by (simp add: length_change_mirror mirror_kind_def)
  have shared: "concat (map (\<lambda>i. compare_strings (item_prefix pre i @ ''.context'') (it_Context (t ! i)) (it_Context (b ! i)) @
        compare_readings (item_prefix pre i @ ''.data'') (it_Data (t ! i)) (it_Data (b ! i))) xs) =
      map mirror (concat (map (\<lambda>i. compare_strings (item_prefix pre i @ ''.context'') (it_Context (b ! i)) (it_Context (t ! i)) @
        compare_readings (item_prefix pre i @ ''.data'') (it_Data (b ! i)) (it_Data (t ! i))) xs))" for xs
    by (induction xs) (simp_all add: compare_strings_mirror [of _ "it_Context (t ! _)"] compare_readings_mirror [of _ "it_Data (t ! _)"])
  have rest: "concat (map (\<lambda>i. added_item (item_prefix pre i) (b ! i)) [min (length t) (length b)..<length b]) @
      concat (map (\<lambda>i. removed_item (item_prefix pre i) (t ! i)) [min (length t) (length b)..<length t]) =
      map mirror (concat (map (\<lambda>i. added_item (item_prefix pre i) (t ! i)) [min (length b) (length t)..<length t]) @
        concat (map (\<lambda>i. removed_item (item_prefix pre i) (b ! i)) [min (length b) (length t)..<length b]))"
    by (cases "length b \<le> length t") (simp_all add: min_def map_concat comp_def removed_item_mirror)
  show ?thesis
    unfolding compare_items_def len min.commute [of "length t"] shared
    using rest [unfolded min.commute [of "length t"]] by simp
qed

lemma compare_subtype_mirror: "compare_subtype pre t b = map mirror (compare_subtype pre b t)"
proof -
  have add: "removed_subtype pre st = map mirror (added_subtype pre st)" for st
    by (simp add: removed_subtype_def added_subtype_def removed_is_mirrored removed_items_mirror)
  then have rem: "added_subtype pre st = map mirror (removed_subtype pre st)" for st
    by (simp add: comp_def)
  show ?thesis
  proof (cases b)
    case None
    then show ?thesis by (cases t) (simp_all add: compare_subtype_def add)
  next
    case (Some bs)
    show ?thesis
    proof (cases t)
      case None
      show ?thesis unfolding \<open>b = Some bs\<close> None compare_subtype_def prod.case option.case by (rule rem)
    next
      case (Some ts)
      then show ?thesis
        by (simp add: \<open>b = Some bs\<close> compare_subtype_def compare_readings_mirror [of _ "st_Data ts"]
            compare_strings_mirror [of _ "st_Context ts"] compare_items_mirror [of _ "st_Items ts"])
    qed
  qed
qed

lemma plan_subtype_swap: "plan_subtype t b name key = plan_subtype b t name key"
proof -
  have "item_side x y = item_side y x" if "(length (st_Items x) > 0) \<noteq> (length (st_Items y) > 0)" for x y
    using that by (auto simp: item_side_def)
  then show ?thesis
    by (cases "map_of b name"; cases "map_of t name") (auto simp: plan_subtype_def Let_def)
qed

lemma alignment_plan_swap: "alignment_plan target base = alignment_plan base target"
  by (rule ext) (simp add: alignment_plan_def Let_def plan_subtype_swap [of "index_subtypes (mt_Subtypes target)"])

lemma align_swap: "align_topology_encoding target base = prod.swap (align_topology_encoding base target)"
  by (auto simp: align_topology_encoding_def alignment_plan_swap [of target] Let_def)

lemma align_type:
  "align_topology_encoding base target = (b, t) \<Longrightarrow> mt_Type b = mt_Type base \<and> mt_Type t = mt_Type target"
  by (auto simp: align_topology_encoding_def align_measurement_def Let_def split: if_splits)

lemma compare_measurements_mirror:
  assumes "mt_Type base = mt_Type target"
  shows "compare_measurements target base = map mirror (compare_measurements base target)"
proof -
  obtain b t where bt: "align_topology_encoding base target = (b, t)" by (cases "align_topology_encoding base target")
  then have tb: "align_topology_encoding target base = (t, b)" by (simp add: align_swap [of target])
  have ty: "mt_Type t = mt_Type b" using align_type [OF bt] assms by simp
  define names where "names = sort (merge_keys (index_subtypes (mt_Subtypes b)) (index_subtypes (mt_Subtypes t)))"
  have names: "sort (merge_keys (index_subtypes (mt_Subtypes t)) (index_subtypes (mt_Subtypes b))) = names"
    unfolding names_def by (rule merge_keys_swap)
  have "compare_measurements target base =
      concat (map (\<lambda>name. compare_subtype (mt_Type t @ ''.'' @ name) (map_of (index_subtypes (mt_Subtypes t)) name)
        (map_of (index_subtypes (mt_Subtypes b)) name)) names)"
    by (simp only: compare_measurements_def tb prod.case Let_def names)
  also have "\<dots> = concat (map (\<lambda>name. map mirror (compare_subtype (mt_Type b @ ''.'' @ name)
        (map_of (index_subtypes (mt_Subtypes b)) name) (map_of (index_subtypes (mt_Subtypes t)) name))) names)"
    unfolding ty by (rule arg_cong [where f = concat], rule map_cong [OF refl], rule compare_subtype_mirror)
  also have "\<dots> = map mirror (compare_measurements base target)"
    unfolding map_concat_map by (simp only: compare_measurements_def bt prod.case Let_def names_def)
  finally show ?thesis .
qed

lemma index_measurements_type:
  "map_of (index_measurements ms) ty = Some m \<Longrightarrow> mt_Type m = ty"
proof (induction ms arbitrary: m rule: rev_induct)
  case (snoc x ms)
  show ?case
  proof (cases x)
    case None
    then have "map_of (index_measurements (ms @ [x])) ty = map_of (index_measurements ms) ty" by (simp add: index_measurements_def)
    then show ?thesis using snoc.IH snoc.prems by metis
  next
    case (Some y)
    then have "map_of (index_measurements (ms @ [x])) ty = (if mt_Type y = ty then Some y else map_of (index_measurements ms) ty)"
      by (simp add: index_measurements_def)
    then show ?thesis using snoc.IH snoc.prems by (metis option.inject)
  qed
qed (simp add: index_measurements_def)

lemma compare_type_mirror:
  assumes "\<And>b. base = Some b \<Longrightarrow> mt_Type b = ty" "\<And>t. target = Some t \<Longrightarrow> mt_Type t = ty"
  shows "compare_type target base = map mirror (compare_type base target)"
proof -
  have add: "removed_subtype pre st = map mirror (added_subtype pre st)" for pre st
    by (simp add: removed_subtype_def added_subtype_def removed_is_mirrored removed_items_mirror)
  have addm: "removed_measurement m = map mirror (added_measurement m)" for m
    by (simp add: removed_measurement_def added_measurement_def add map_concat comp_def)
  then have remm: "added_measurement m = map mirror (removed_measurement m)" for m by (simp add: comp_def)
  show ?thesis
  proof (cases base)
    case None
    then show ?thesis by (cases target) (simp_all add: compare_type_def addm)
  next
    case (Some b)
    show ?thesis
    proof (cases target)
      case None
      show ?thesis unfolding \<open>base = Some b\<close> None compare_type_def prod.case option.case by (rule remm)
    next
      case (Some t)
      have "mt_Type b = mt_Type t" using assms(1) [OF \<open>base = Some b\<close>] assms(2) [OF Some] by (rule trans [OF _ sym])
      then show ?thesis
        unfolding \<open>base = Some b\<close> Some compare_type_def prod.case option.case by (rule compare_measurements_mirror)
    qed
  qed
qed

lemma compare_snapshots_mirror: "compare_snapshots t b = map mirror (compare_snapshots b t)"
  unfolding compare_snapshots_def Let_def merge_keys_swap [of "index_measurements t"] map_concat_map [symmetric]
  by (rule arg_cong [where f = concat], rule map_cong [OF refl], rule compare_type_mirror)
    (auto dest: index_measurements_type)

lemma summarize_counts:
  "summarize cs = \<lparr>sm_Added = length (filter (\<lambda>c. ch_Kind c = Added) cs), sm_Removed = length (filter (\<lambda>c. ch_Kind c = Removed) cs),
     sm_Modified = length (filter (\<lambda>c. ch_Kind c = Modified) cs), sm_Total = length cs\<rparr>"
proof -
  define step where "step = (\<lambda>(s :: diff_summary) (c :: change). case ch_Kind c of
      Added \<Rightarrow> s \<lparr>sm_Added := sm_Added s + 1\<rparr> | Removed \<Rightarrow> s \<lparr>sm_Removed := sm_Removed s + 1\<rparr>
    | Modified \<Rightarrow> s \<lparr>sm_Modified := sm_Modified s + 1\<rparr>)"
  have "foldl step \<lparr>sm_Added = a, sm_Removed = r, sm_Modified = m, sm_Total = n\<rparr> cs =
      \<lparr>sm_Added = a + length (filter (\<lambda>c. ch_Kind c = Added) cs), sm_Removed = r + length (filter (\<lambda>c. ch_Kind c = Removed) cs),
       sm_Modified = m + length (filter (\<lambda>c. ch_Kind c = Modified) cs), sm_Total = n\<rparr>" for a r m n
  proof (induction cs arbitrary: a r m)
    case (Cons c cs)
    have step: "step \<lparr>sm_Added = a, sm_Removed = r, sm_Modified = m, sm_Total = n\<rparr> c =
        (case ch_Kind c of
           Added \<Rightarrow> \<lparr>sm_Added = a + 1, sm_Removed = r, sm_Modified = m, sm_Total = n\<rparr>
         | Removed \<Rightarrow> \<lparr>sm_Added = a, sm_Removed = r + 1, sm_Modified = m, sm_Total = n\<rparr>
         | Modified \<Rightarrow> \<lparr>sm_Added = a, sm_Removed = r, sm_Modified = m + 1, sm_Total = n\<rparr>)"
      by (cases "ch_Kind c") (simp_all add: step_def)
    show ?case by (cases "ch_Kind c") (simp_all add: step Cons.IH)
  qed simp
  then show ?thesis unfolding summarize_def step_def [symmetric] by simp
qed

lemma mirror_kind_eq: "mirror_kind k = Added \<longleftrightarrow> k = Removed" "mirror_kind k = Removed \<longleftrightarrow> k = Added" "mirror_kind k = Modified \<longleftrightarrow> k = Modified"
  by (cases k; simp add: mirror_kind_def)+

lemma summarize_mirror:
  "summarize (map mirror cs) =
     \<lparr>sm_Added = sm_Removed (summarize cs), sm_Removed = sm_Added (summarize cs), sm_Modified = sm_Modified (summarize cs),
      sm_Total = sm_Total (summarize cs)\<rparr>"
  by (simp add: summarize_counts filter_map comp_def mirror_def mirror_kind_eq)

lemma sort_key_mirror: "sort_key ch_Path (map mirror cs) = map mirror (sort_key ch_Path cs)"
proof -
  have "insort_key ch_Path (mirror c) (map mirror ds) = map mirror (insort_key ch_Path c ds)" for c ds
    by (induction ds) (auto simp: mirror_def)
  then show ?thesis by (induction cs) simp_all
qed

text \<open>Property C29: the comparison is symmetric. With the two snapshots exchanged, each addition is a removal of the same value at
  the same path, each modification has its values exchanged, and the summary its counts; in the topology both directions
  compare the same encoding.\<close>

theorem diff_mirrored: "diff_snapshots target base = mirror_result (diff_snapshots base target)"
proof (cases base)
  case (Some b)
  show ?thesis
  proof (cases target)
    case None
    then show ?thesis using Some by (simp add: diff_snapshots_def mirror_result_def)
  next
    case (Some t)
    then show ?thesis
      using \<open>base = Some b\<close>
      by (simp add: diff_snapshots_def mirror_result_def Let_def compare_snapshots_mirror [of t] sort_key_mirror summarize_mirror)
  qed
qed (cases target; simp add: diff_snapshots_def mirror_result_def)


subsection \<open>What is reported is what differs\<close>

text \<open>Where a snapshot holds a value, and the value that is there.\<close>

datatype locus = DataAt string | ContextAt string | ItemCount | ItemContextAt nat string | ItemDataAt nat string

definition item_at :: "subtype \<Rightarrow> nat \<Rightarrow> item_entry option" where
  "item_at st i = (if i < length (st_Items st) then Some (st_Items st ! i) else None)"

fun observe_subtype :: "subtype \<Rightarrow> locus \<Rightarrow> string option" where
  "observe_subtype st (DataAt k) = map_option reading_string (map_of (st_Data st) k)"
| "observe_subtype st (ContextAt k) = map_of (st_Context st) k"
| "observe_subtype st ItemCount = (if st_Items st = [] then None else Some (show_nat (length (st_Items st))))"
| "observe_subtype st (ItemContextAt i k) = (case item_at st i of None \<Rightarrow> None | Some item \<Rightarrow> map_of (it_Context item) k)"
| "observe_subtype st (ItemDataAt i k) =
     (case item_at st i of None \<Rightarrow> None | Some item \<Rightarrow> map_option reading_string (map_of (it_Data item) k))"

definition observe_at :: "subtype option \<Rightarrow> locus \<Rightarrow> string option" where
  "observe_at st l = (case st of None \<Rightarrow> None | Some st \<Rightarrow> observe_subtype st l)"

fun locus_path :: "string \<Rightarrow> locus \<Rightarrow> string" where
  "locus_path pre (DataAt k) = data_path pre k"
| "locus_path pre (ContextAt k) = pre @ ''.context.'' @ k"
| "locus_path pre ItemCount = pre @ ''.items.length''"
| "locus_path pre (ItemContextAt i k) = item_prefix pre i @ ''.context.'' @ k"
| "locus_path pre (ItemDataAt i k) = data_path (item_prefix pre i @ ''.data'') k"

text \<open>The change at a place; the number of items of a subtype that both sides have counts as present, zero or not.\<close>

definition report :: "string \<Rightarrow> subtype option \<Rightarrow> subtype option \<Rightarrow> locus \<Rightarrow> change list" where
  "report pre b t l =
     (case (l, b, t) of
        (ItemCount, Some bs, Some ts) \<Rightarrow>
          compare_value (locus_path pre l) (Some (show_nat (length (st_Items bs)))) (Some (show_nat (length (st_Items ts))))
      | _ \<Rightarrow> compare_value (locus_path pre l) (observe_at b l) (observe_at t l))"

lemma show_nat_inject: "show_nat m = show_nat n \<longleftrightarrow> m = n"
  by (metis digits_val_show_nat)

lemma compare_value_empty: "compare_value p u v = [] \<longleftrightarrow> u = v"
  by (auto simp: compare_value_def split: option.splits)

lemma report_empty: "report pre b t l = [] \<longleftrightarrow> observe_at b l = observe_at t l"
proof (cases l)
  case ItemCount
  then show ?thesis
    by (cases b; cases t) (auto simp: report_def compare_value_empty observe_at_def show_nat_inject)
qed (auto simp: report_def compare_value_empty)

lemma concat_keys_set:
  assumes "\<And>k. k \<notin> set ks \<Longrightarrow> f k = []"
  shows "set (concat (map f (sort ks))) = (\<Union>k. set (f k))"
proof -
  have "set (f k) \<subseteq> (\<Union>k \<in> set ks. set (f k))" for k
    using assms [of k] by (cases "k \<in> set ks") auto
  then show ?thesis by (simp add: set_eq_iff) blast
qed

lemma compare_readings_set:
  "set (compare_readings pre b t) =
     (\<Union>k. set (compare_value (data_path pre k) (map_option reading_string (map_of b k)) (map_option reading_string (map_of t k))))"
proof -
  have "compare_value p (map_option reading_string (map_of b k)) (map_option reading_string (map_of t k)) = []"
    if "k \<notin> set (merge_keys b t)" for p k
    using that by (simp add: merge_keys_def map_of_eq_None_iff [THEN iffD2] compare_value_def)
  then show ?thesis unfolding compare_readings_def by (rule concat_keys_set)
qed

lemma compare_strings_set:
  "set (compare_strings pre b t) = (\<Union>k. set (compare_value (pre @ ''.'' @ k) (map_of b k) (map_of t k)))"
proof -
  have "compare_value p (map_of b k) (map_of t k) = []" if "k \<notin> set (merge_keys b t)" for p k
    using that by (simp add: merge_keys_def map_of_eq_None_iff [THEN iffD2] compare_value_def)
  then show ?thesis unfolding compare_strings_def by (rule concat_keys_set)
qed


lemma union_ranges:
  fixes a b :: nat
  assumes F: "\<And>i. i < min a b \<Longrightarrow> F i = U i" and G: "\<And>i. min a b \<le> i \<Longrightarrow> i < b \<Longrightarrow> G i = U i"
    and H: "\<And>i. min a b \<le> i \<Longrightarrow> i < a \<Longrightarrow> H i = U i" and E: "\<And>i. a \<le> i \<Longrightarrow> b \<le> i \<Longrightarrow> U i = {}"
  shows "(\<Union>i \<in> {0..<min a b}. F i) \<union> ((\<Union>i \<in> {min a b..<b}. G i) \<union> (\<Union>i \<in> {min a b..<a}. H i)) = (\<Union>i. U i)"
proof -
  have "(\<Union>i \<in> {0..<min a b}. F i) = (\<Union>i \<in> {0..<min a b}. U i)" "(\<Union>i \<in> {min a b..<b}. G i) = (\<Union>i \<in> {min a b..<b}. U i)"
    "(\<Union>i \<in> {min a b..<a}. H i) = (\<Union>i \<in> {min a b..<a}. U i)"
    by (intro SUP_cong refl; simp add: F G H)+
  moreover have "U i \<subseteq> (\<Union>i \<in> {0..<min a b}. U i) \<union> ((\<Union>i \<in> {min a b..<b}. U i) \<union> (\<Union>i \<in> {min a b..<a}. U i))" for i
  proof -
    have "a \<le> i \<and> b \<le> i \<or> i \<in> {0..<min a b} \<union> ({min a b..<b} \<union> {min a b..<a})" by auto
    then have "i \<in> {0..<min a b} \<union> ({min a b..<b} \<union> {min a b..<a}) \<or> U i = {}" using E [of i] by blast
    then show ?thesis by blast
  qed
  ultimately show ?thesis by (simp only:) (intro equalityI Un_least UN_least UN_upper UNIV_I)
qed

lemma compare_items_set:
  "set (compare_items pre bs ts) =
     set (if length bs \<noteq> length ts
          then [length_change pre Modified (Some (show_nat (length bs))) (Some (show_nat (length ts)))] else []) \<union>
     (\<Union>i. (\<Union>k. set (compare_value (item_prefix pre i @ ''.context.'' @ k)
              (if i < length bs then map_of (it_Context (bs ! i)) k else None)
              (if i < length ts then map_of (it_Context (ts ! i)) k else None))) \<union>
          (\<Union>k. set (compare_value (data_path (item_prefix pre i @ ''.data'') k)
              (if i < length bs then map_option reading_string (map_of (it_Data (bs ! i)) k) else None)
              (if i < length ts then map_option reading_string (map_of (it_Data (ts ! i)) k) else None))))"
    (is "_ = ?len \<union> (\<Union>i. ?at i)")
proof -
  define n where "n = min (length bs) (length ts)"
  have shared: "set (compare_strings (item_prefix pre i @ ''.context'') (it_Context (bs ! i)) (it_Context (ts ! i)) @
      compare_readings (item_prefix pre i @ ''.data'') (it_Data (bs ! i)) (it_Data (ts ! i))) = ?at i" if "i < n" for i
    using that by (simp add: n_def compare_strings_set compare_readings_set)
  have added: "set (added_item (item_prefix pre i) (ts ! i)) = ?at i" if "n \<le> i" "i < length ts" for i
  proof -
    have "\<not> i < length bs" using that by (auto simp: n_def)
    then show ?thesis
      using that(2) by (simp add: added_item_def added_strings_def added_readings_def compare_strings_set compare_readings_set)
  qed
  have removed: "set (removed_item (item_prefix pre i) (bs ! i)) = ?at i" if "n \<le> i" "i < length bs" for i
  proof -
    have "\<not> i < length ts" using that by (auto simp: n_def)
    then show ?thesis
      using that(2) by (simp add: removed_item_def removed_strings_def removed_readings_def compare_strings_set compare_readings_set)
  qed
  have beyond: "?at i = {}" if "length bs \<le> i" "length ts \<le> i" for i
    using that by (simp add: compare_value_def)
  define f where "f = (\<lambda>i. compare_strings (item_prefix pre i @ ''.context'') (it_Context (bs ! i)) (it_Context (ts ! i)) @
      compare_readings (item_prefix pre i @ ''.data'') (it_Data (bs ! i)) (it_Data (ts ! i)))"
  define at' where "at' = (\<lambda>i. ?at i)"
  have "compare_items pre bs ts =
      (if length bs \<noteq> length ts
       then [length_change pre Modified (Some (show_nat (length bs))) (Some (show_nat (length ts)))] else []) @
      concat (map f [0..<n]) @ concat (map (\<lambda>i. added_item (item_prefix pre i) (ts ! i)) [n..<length ts]) @
      concat (map (\<lambda>i. removed_item (item_prefix pre i) (bs ! i)) [n..<length bs])"
    by (simp only: compare_items_def n_def f_def)
  then have "set (compare_items pre bs ts) = ?len \<union> ((\<Union>i \<in> {0..<n}. set (f i)) \<union>
      ((\<Union>i \<in> {n..<length ts}. set (added_item (item_prefix pre i) (ts ! i))) \<union>
       (\<Union>i \<in> {n..<length bs}. set (removed_item (item_prefix pre i) (bs ! i)))))"
    by (simp only: set_append set_concat set_map set_upt image_image)
  also have "\<dots> = ?len \<union> (\<Union>i. at' i)"
    unfolding n_def
    by (rule arg_cong [where f = "\<lambda>x. ?len \<union> x"], rule union_ranges)
      (simp_all only: at'_def f_def shared added removed beyond n_def)
  finally show ?thesis unfolding at'_def .
qed


lemma ex_locus:
  "(\<exists>l. P l) \<longleftrightarrow> (\<exists>k. P (DataAt k)) \<or> (\<exists>k. P (ContextAt k)) \<or> P ItemCount \<or>
     (\<exists>i. (\<exists>k. P (ItemContextAt i k)) \<or> (\<exists>k. P (ItemDataAt i k)))"
  by (metis locus.exhaust)

lemma UN_locus:
  "(\<Union>l. f l) = (\<Union>k. f (DataAt k)) \<union> (\<Union>k. f (ContextAt k)) \<union> f ItemCount \<union>
     (\<Union>i. (\<Union>k. f (ItemContextAt i k)) \<union> (\<Union>k. f (ItemDataAt i k)))"
proof (rule set_eqI)
  fix x
  show "x \<in> (\<Union>l. f l) \<longleftrightarrow> x \<in> (\<Union>k. f (DataAt k)) \<union> (\<Union>k. f (ContextAt k)) \<union> f ItemCount \<union>
      (\<Union>i. (\<Union>k. f (ItemContextAt i k)) \<union> (\<Union>k. f (ItemDataAt i k)))"
    using ex_locus [of "\<lambda>l. x \<in> f l"] by (simp only: UN_iff Un_iff bex_UNIV disj_assoc)
qed

lemma data_dot_context: "pre @ ''.context'' @ ''.'' @ k = pre @ ''.context.'' @ k"
  by simp

lemma compare_subtype_items:
  "set (compare_items pre (st_Items b) (st_Items t)) =
     set (report pre (Some b) (Some t) ItemCount) \<union>
     (\<Union>i. (\<Union>k. set (report pre (Some b) (Some t) (ItemContextAt i k))) \<union> (\<Union>k. set (report pre (Some b) (Some t) (ItemDataAt i k))))"
proof -
  have len: "(if length (st_Items b) \<noteq> length (st_Items t)
      then [length_change pre Modified (Some (show_nat (length (st_Items b)))) (Some (show_nat (length (st_Items t))))] else []) =
      report pre (Some b) (Some t) ItemCount"
    by (simp add: report_def compare_value_def length_change_def show_nat_inject)
  have at': "report pre (Some b) (Some t) (ItemContextAt i k) = compare_value (item_prefix pre i @ ''.context.'' @ k)
      (if i < length (st_Items b) then map_of (it_Context (st_Items b ! i)) k else None)
      (if i < length (st_Items t) then map_of (it_Context (st_Items t ! i)) k else None)"
    "report pre (Some b) (Some t) (ItemDataAt i k) = compare_value (data_path (item_prefix pre i @ ''.data'') k)
      (if i < length (st_Items b) then map_option reading_string (map_of (it_Data (st_Items b ! i)) k) else None)
      (if i < length (st_Items t) then map_option reading_string (map_of (it_Data (st_Items t ! i)) k) else None)" for i k
    by (simp_all add: report_def observe_at_def item_at_def)
  show ?thesis unfolding compare_items_set len at' ..
qed

lemma added_items_set:
  "set (added_items pre (st_Items t)) =
     set (report pre None (Some t) ItemCount) \<union>
     (\<Union>i. (\<Union>k. set (report pre None (Some t) (ItemContextAt i k))) \<union> (\<Union>k. set (report pre None (Some t) (ItemDataAt i k))))"
proof -
  define items where "items = st_Items t"
  define at' where "at' = (\<lambda>i. (\<Union>k. set (report pre None (Some t) (ItemContextAt i k))) \<union>
      (\<Union>k. set (report pre None (Some t) (ItemDataAt i k))))"
  have at_in: "set (added_item (item_prefix pre i) (items ! i)) = at' i" if "i < length items" for i
    using that
    by (simp add: at'_def items_def added_item_def added_strings_def added_readings_def compare_strings_set compare_readings_set
        report_def observe_at_def item_at_def)
  have beyond: "at' i = {}" if "length items \<le> i" for i
    using that by (simp add: at'_def items_def report_def observe_at_def item_at_def compare_value_def)
  have "(\<Union>i \<in> {0..<length items}. set (added_item (item_prefix pre i) (items ! i))) = (\<Union>i. at' i)"
    using union_ranges [of 0 "length items" "\<lambda>_. {}" at' "\<lambda>i. set (added_item (item_prefix pre i) (items ! i))" "\<lambda>_. {}"]
      at_in beyond by simp
  moreover have "set (added_items pre items) = set (report pre None (Some t) ItemCount) \<union>
      (\<Union>i \<in> {0..<length items}. set (added_item (item_prefix pre i) (items ! i)))"
    by (simp add: added_items_def report_def observe_at_def items_def [symmetric] compare_value_def length_change_def)
  ultimately show ?thesis unfolding at'_def items_def by simp
qed

lemma report_mirror: "report pre t b l = map mirror (report pre b t l)"
  by (cases l; cases b; cases t) (simp_all add: report_def compare_value_mirror [symmetric])

lemma compare_subtype_set: "set (compare_subtype pre b t) = (\<Union>l. set (report pre b t l))"
proof -
  have both: "set (compare_subtype pre (Some bs) (Some ts)) = (\<Union>l. set (report pre (Some bs) (Some ts) l))" for bs ts
    unfolding UN_locus [of "\<lambda>l. set (report pre (Some bs) (Some ts) l)"]
    by (simp add: compare_subtype_def compare_readings_set compare_strings_set compare_subtype_items report_def observe_at_def Un_assoc)
  have add: "set (compare_subtype pre None (Some ts)) = (\<Union>l. set (report pre None (Some ts) l))" for ts
    unfolding UN_locus [of "\<lambda>l. set (report pre None (Some ts) l)"]
    by (simp add: compare_subtype_def added_subtype_def added_readings_def added_strings_def compare_readings_set compare_strings_set
        added_items_set report_def observe_at_def Un_assoc)
  have none: "set (compare_subtype pre None None) = (\<Union>l. set (report pre None None l))"
    by (simp add: compare_subtype_def report_def observe_at_def compare_value_def split: locus.split)
  have rem: "set (compare_subtype pre (Some bs) None) = (\<Union>l. set (report pre (Some bs) None l))" for bs
    unfolding compare_subtype_mirror [of pre "Some bs" None] report_mirror [of pre "Some bs" None] set_map add image_UN ..
  show ?thesis by (cases b; cases t) (simp_all only: both add none rem)
qed


text \<open>The two sides of a type, brought to one encoding when both have it.\<close>

definition sides :: "measurement option list \<Rightarrow> measurement option list \<Rightarrow> string \<Rightarrow> measurement option \<times> measurement option" where
  "sides b t ty =
     (case (map_of (index_measurements b) ty, map_of (index_measurements t) ty) of
        (Some x, Some y) \<Rightarrow> (Some (fst (align_topology_encoding x y)), Some (snd (align_topology_encoding x y)))
      | s \<Rightarrow> s)"

definition subtype_in :: "measurement option \<Rightarrow> string \<Rightarrow> subtype option" where
  "subtype_in m name = (case m of None \<Rightarrow> None | Some m \<Rightarrow> map_of (index_subtypes (mt_Subtypes m)) name)"

definition subtypes_distinct :: "measurement option list \<Rightarrow> bool" where
  "subtypes_distinct ms \<longleftrightarrow> (\<forall>m. Some m \<in> set ms \<longrightarrow> distinct (map st_Name (mt_Subtypes m)))"

lemma index_subtypes_snoc: "index_subtypes (sts @ [st]) = upsert (st_Name st) st (index_subtypes sts)"
  by (simp add: index_subtypes_def)

lemma index_subtypes_distinct:
  "distinct (map st_Name sts) \<Longrightarrow> map_of (index_subtypes sts) name = Some st \<longleftrightarrow> st \<in> set sts \<and> st_Name st = name"
proof (induction sts rule: rev_induct)
  case (snoc x sts)
  have IH: "map_of (index_subtypes sts) name = Some st \<longleftrightarrow> st \<in> set sts \<and> st_Name st = name" using snoc by simp
  show ?case
  proof (cases "st_Name x = name")
    case True
    have "\<forall>y \<in> set sts. st_Name y \<noteq> name"
    proof (intro ballI notI)
      fix y assume "y \<in> set sts" "st_Name y = name"
      then have "name \<in> st_Name ` set sts" by (metis imageI)
      then show False using snoc.prems True by simp
    qed
    then show ?thesis using True by (auto simp: index_subtypes_snoc)
  next
    case False
    then show ?thesis using IH by (auto simp: index_subtypes_snoc)
  qed
qed (simp add: index_subtypes_def)

lemma index_measurements_member: "map_of (index_measurements ms) ty = Some m \<Longrightarrow> Some m \<in> set ms"
proof (induction ms arbitrary: m rule: rev_induct)
  case (snoc x ms)
  show ?case
  proof (cases x)
    case None
    then have "map_of (index_measurements (ms @ [x])) ty = map_of (index_measurements ms) ty" by (simp add: index_measurements_def)
    then have "Some m \<in> set ms" using snoc.prems by (intro snoc.IH) simp
    then show ?thesis by simp
  next
    case (Some y)
    then have eq: "map_of (index_measurements (ms @ [x])) ty = (if mt_Type y = ty then Some y else map_of (index_measurements ms) ty)"
      by (simp add: index_measurements_def)
    have "mt_Type y = ty \<and> m = y \<or> Some m \<in> set ms"
    proof (cases "mt_Type y = ty")
      case False
      then have "map_of (index_measurements ms) ty = Some m" using snoc.prems eq by simp
      then show ?thesis using snoc.IH by blast
    qed (use snoc.prems eq in simp)
    then show ?thesis using Some by auto
  qed
qed (simp add: index_measurements_def)

lemma added_measurement_set:
  assumes "distinct (map st_Name (mt_Subtypes m))"
  shows "set (added_measurement m) = (\<Union>name. set (compare_subtype (mt_Type m @ ''.'' @ name) None (subtype_in (Some m) name)))"
proof -
  have eq: "set (compare_subtype (mt_Type m @ ''.'' @ name) None (subtype_in (Some m) name)) =
      (\<Union>st \<in> {st \<in> set (mt_Subtypes m). st_Name st = name}. set (added_subtype (mt_Type m @ ''.'' @ name) st))" for name
  proof (cases "subtype_in (Some m) name")
    case None
    then have "{st \<in> set (mt_Subtypes m). st_Name st = name} = {}"
      using index_subtypes_distinct [OF assms, of name] by (auto simp: subtype_in_def)
    then show ?thesis by (simp only: None) (simp add: compare_subtype_def)
  next
    case (Some st)
    then have "x \<in> set (mt_Subtypes m) \<and> st_Name x = name \<longleftrightarrow> x = st" for x
      using index_subtypes_distinct [OF assms, of name x] by (auto simp: subtype_in_def)
    then have "{st \<in> set (mt_Subtypes m). st_Name st = name} = {st}" by simp
    then show ?thesis by (simp only: Some) (simp add: compare_subtype_def)
  qed
  show ?thesis unfolding eq by (auto simp: added_measurement_def)
qed

lemma removed_measurement_set:
  assumes "distinct (map st_Name (mt_Subtypes m))"
  shows "set (removed_measurement m) = (\<Union>name. set (compare_subtype (mt_Type m @ ''.'' @ name) (subtype_in (Some m) name) None))"
proof -
  have "removed_subtype pre st = map mirror (added_subtype pre st)" for pre st
    by (simp add: removed_subtype_def added_subtype_def removed_is_mirrored removed_items_mirror)
  then have "removed_measurement m = map mirror (added_measurement m)"
    by (simp add: removed_measurement_def added_measurement_def map_concat comp_def)
  then show ?thesis
    unfolding compare_subtype_mirror [of _ "subtype_in (Some m) _" None] set_map
    by (simp only: set_map added_measurement_set [OF assms] image_UN)
qed

lemma compare_measurements_set:
  assumes "align_topology_encoding base target = (b, t)"
  shows "set (compare_measurements base target) =
    (\<Union>name. set (compare_subtype (mt_Type base @ ''.'' @ name) (subtype_in (Some b) name) (subtype_in (Some t) name)))"
proof -
  have "mt_Type b = mt_Type base" using align_type [OF assms] by simp
  then have eq: "compare_measurements base target = concat (map (\<lambda>name. compare_subtype (mt_Type base @ ''.'' @ name)
      (subtype_in (Some b) name) (subtype_in (Some t) name))
      (sort (merge_keys (index_subtypes (mt_Subtypes b)) (index_subtypes (mt_Subtypes t)))))"
    by (simp add: compare_measurements_def assms subtype_in_def Let_def)
  show ?thesis
    unfolding eq
  proof (rule concat_keys_set)
    fix name assume "name \<notin> set (merge_keys (index_subtypes (mt_Subtypes b)) (index_subtypes (mt_Subtypes t)))"
    then show "compare_subtype (mt_Type base @ ''.'' @ name) (subtype_in (Some b) name) (subtype_in (Some t) name) = []"
      by (simp add: merge_keys_def subtype_in_def map_of_eq_None_iff [THEN iffD2] compare_subtype_def)
  qed
qed

lemma compare_type_set:
  assumes "subtypes_distinct b" "subtypes_distinct t"
  shows "set (compare_type (map_of (index_measurements b) ty) (map_of (index_measurements t) ty)) =
    (\<Union>name. set (compare_subtype (ty @ ''.'' @ name) (subtype_in (fst (sides b t ty)) name) (subtype_in (snd (sides b t ty)) name)))"
proof -
  have wf: "distinct (map st_Name (mt_Subtypes m))" "mt_Type m = ty"
    if "map_of (index_measurements b) ty = Some m \<or> map_of (index_measurements t) ty = Some m" for m
    using that assms index_measurements_member index_measurements_type unfolding subtypes_distinct_def by blast+
  have none: "set (compare_subtype pre (subtype_in None name) (subtype_in None name)) = {}" for pre name
    by (simp add: subtype_in_def compare_subtype_def)
  show ?thesis
  proof (cases "map_of (index_measurements b) ty")
    case None
    show ?thesis
    proof (cases "map_of (index_measurements t) ty")
      case None
      then show ?thesis using \<open>map_of (index_measurements b) ty = None\<close> none by (simp add: compare_type_def sides_def)
    next
      case (Some y)
      then show ?thesis
        using \<open>map_of (index_measurements b) ty = None\<close> wf [of y] added_measurement_set [of y]
        by (simp add: compare_type_def sides_def subtype_in_def)
    qed
  next
    case (Some x)
    note x = this
    show ?thesis
    proof (cases "map_of (index_measurements t) ty")
      case None
      then show ?thesis
        using x wf [of x] removed_measurement_set [of x] by (simp add: compare_type_def sides_def subtype_in_def)
    next
      case (Some y)
      obtain x' y' where "align_topology_encoding x y = (x', y')" by (cases "align_topology_encoding x y")
      then show ?thesis
        using x Some wf [of x] compare_measurements_set by (simp add: compare_type_def sides_def)
    qed
  qed
qed

lemma compare_snapshots_set:
  assumes "subtypes_distinct b" "subtypes_distinct t"
  shows "set (compare_snapshots b t) =
    (\<Union>ty. \<Union>name. \<Union>l. set (report (ty @ ''.'' @ name)
       (subtype_in (fst (sides b t ty)) name) (subtype_in (snd (sides b t ty)) name) l))"
proof -
  have "set (compare_snapshots b t) =
      (\<Union>ty. set (compare_type (map_of (index_measurements b) ty) (map_of (index_measurements t) ty)))"
    unfolding compare_snapshots_def Let_def
  proof (rule concat_keys_set)
    fix ty assume "ty \<notin> set (merge_keys (index_measurements b) (index_measurements t))"
    then show "compare_type (map_of (index_measurements b) ty) (map_of (index_measurements t) ty) = []"
      by (simp add: merge_keys_def map_of_eq_None_iff [THEN iffD2] compare_type_def)
  qed
  then show ?thesis unfolding compare_type_set [OF assms] compare_subtype_set .
qed

text \<open>Property C28: the comparison reports exactly what differs. When no measurement has two subtypes of one name, the changes are
  those of the places (a key of the data or context of a subtype, of one of its items, or the number of its items) where the two
  snapshots hold different values, each with the path, kind and both values of the place; so there is drift
  exactly when some place differs, and the summary counts the changes of each kind.\<close>

theorem drift_exact:
  assumes "subtypes_distinct b" "subtypes_distinct t" and "r = diff_snapshots (Some b) (Some t)"
  shows "set (df_Changes r) = (\<Union>ty. \<Union>name. \<Union>l. set (report (ty @ ''.'' @ name)
       (subtype_in (fst (sides b t ty)) name) (subtype_in (snd (sides b t ty)) name) l)) \<and>
    (has_drift (Some r) \<longleftrightarrow> (\<exists>ty name l.
       observe_at (subtype_in (fst (sides b t ty)) name) l \<noteq> observe_at (subtype_in (snd (sides b t ty)) name) l)) \<and>
    df_Summary r = summarize (df_Changes r) \<and>
    sm_Total (df_Summary r) = sm_Added (df_Summary r) + sm_Removed (df_Summary r) + sm_Modified (df_Summary r)"
proof -
  have changes: "set (df_Changes r) = set (compare_snapshots b t)" "df_Summary r = summarize (df_Changes r)"
    by (simp_all add: assms(3) diff_snapshots_def Let_def)
  have total: "length cs = length (filter (\<lambda>c. ch_Kind c = Added) cs) + length (filter (\<lambda>c. ch_Kind c = Removed) cs) +
      length (filter (\<lambda>c. ch_Kind c = Modified) cs)" for cs :: "change list"
  proof (induction cs)
    case (Cons c cs)
    then show ?case by (cases "ch_Kind c") simp_all
  qed simp
  have "has_drift (Some r) \<longleftrightarrow> set (df_Changes r) \<noteq> {}" by (simp add: has_drift_def)
  also have "\<dots> \<longleftrightarrow> (\<exists>ty name l. report (ty @ ''.'' @ name)
       (subtype_in (fst (sides b t ty)) name) (subtype_in (snd (sides b t ty)) name) l \<noteq> [])"
    unfolding changes(1) compare_snapshots_set [OF assms(1,2)] by simp
  finally show ?thesis
    using changes compare_snapshots_set [OF assms(1,2)] total [of "df_Changes r"] by (simp add: report_empty summarize_counts)
qed

theorem drift_exact_witness:
  "let m = (\<lambda>v. [Some \<lparr>mt_Type = ''K8s'', mt_Subtypes =
        [\<lparr>st_Name = ''server'', st_Data = [(''version'', ReadStr v)], st_Context = [], st_Items = []\<rparr>]\<rparr>])
   in has_drift (Some (diff_snapshots (Some (m ''v1.32'')) (Some (m ''v1.33''))))"
proof -
  define m where "m = (\<lambda>v. [Some \<lparr>mt_Type = ''K8s'', mt_Subtypes =
        [\<lparr>st_Name = ''server'', st_Data = [(''version'', ReadStr v)], st_Context = [], st_Items = []\<rparr>]\<rparr>])"
  have wf: "subtypes_distinct (m v)" for v by (simp add: subtypes_distinct_def m_def)
  have "observe_at (subtype_in (fst (sides (m ''v1.32'') (m ''v1.33'') ''K8s'')) ''server'') (DataAt ''version'') \<noteq>
      observe_at (subtype_in (snd (sides (m ''v1.32'') (m ''v1.33'') ''K8s'')) ''server'') (DataAt ''version'')"
    unfolding m_def by code_simp
  then have "has_drift (Some (diff_snapshots (Some (m ''v1.32'')) (Some (m ''v1.33''))))"
    using drift_exact [OF wf wf refl, of "''v1.32''" "''v1.33''"] by blast
  then show ?thesis unfolding m_def Let_def .
qed


subsection \<open>The encoding is no drift\<close>

context folded_encoding
begin

lemma encode_keys: "fst ` set (encode rs maxn) = raw (map fst rs) ` set (map fst rs)"
  and encode_distinct: "distinct (map fst (encode rs maxn))"
proof -
  have keys: "fst ` set (foldl (\<lambda>d x. upsert (f x) (g x) d) [] xs) = f ` set xs" for f :: "'id \<times> string list \<Rightarrow> string" and g :: "_ \<Rightarrow> reading" and xs
    by (induction xs rule: rev_induct) simp_all
  show "fst ` set (encode rs maxn) = raw (map fst rs) ` set (map fst rs)"
    unfolding encode_eq keys by (simp add: image_image)
  have dist: "distinct (map fst (foldl (\<lambda>d x. upsert (f x) (g x) d) [] xs))" for f :: "'id \<times> string list \<Rightarrow> string" and g :: "_ \<Rightarrow> reading" and xs
    by (induction xs rule: rev_induct) (simp_all add: distinct_upsert)
  show "distinct (map fst (encode rs maxn))" unfolding encode_eq by (rule dist)
qed

lemma encode_length: "length (encode rs maxn) = card (raw (map fst rs) ` set (map fst rs))"
  using distinct_card [OF encode_distinct [of rs maxn]] by (simp add: encode_keys)

lemma encode_length_order:
  assumes "mset rs = mset rs'" shows "length (encode rs maxn) = length (encode rs' maxn)"
proof -
  have "mset (map fst rs) = mset (map fst rs')" using assms by simp
  then have "raw (map fst rs) = raw (map fst rs')" "set (map fst rs) = set (map fst rs')"
    using raw_order by (blast, metis set_mset_mset)
  then show ?thesis by (simp only: encode_length)
qed

text \<open>An entry on which at most one reading folds does not depend on the order in which the readings are written.\<close>

lemma encode_lookup_order:
  assumes "mset rs = mset rs'" "tally (map (raw (map fst rs)) (map fst rs)) k \<le> 1"
  shows "map_of (encode rs maxn) k = map_of (encode rs' maxn) k"
proof -
  have ms: "mset (map fst rs) = mset (map fst rs')" using assms(1) by simp
  define P where "P = (\<lambda>x :: 'id \<times> string list. raw (map fst rs) (fst x) = k)"
  have "tally (map f xs) k = length (filter (\<lambda>x. f x = k) xs)" for f and xs :: "('id \<times> string list) list"
    by (induction xs) (auto simp: tally_def)
  from this [of "\<lambda>x. raw (map fst rs) (fst x)" rs] have one: "length (filter P rs) \<le> 1"
    using assms(2) by (simp add: P_def comp_def)
  have ms': "mset (filter P rs) = mset (filter P rs')" using assms(1) by simp
  have filt: "filter P rs' = filter P rs"
  proof (cases "filter P rs")
    case Nil
    then have "mset (filter P rs') = {#}" using ms' by (metis mset.simps(1))
    then have "filter P rs' = []" by (simp only: mset_zero_iff)
    with Nil show ?thesis by (simp only:)
  next
    case (Cons x xs)
    then have x: "filter P rs = [x]" using one by simp
    have "mset (filter P rs') = {#x#}" unfolding ms' [symmetric] x by simp
    moreover have "mset ys = {#x#} \<Longrightarrow> ys = [x]" for ys by simp
    ultimately have "filter P rs' = [x]" by blast
    with x show ?thesis by (simp only:)
  qed
  have "raw (map fst rs') = raw (map fst rs)" "lead (map fst rs') = lead (map fst rs)"
    using raw_order [OF ms] lead_order [OF ms] by simp_all
  then show ?thesis
    using filt unfolding encode_eq map_of_foldl_upsert P_def by simp
qed

lemma items_data_order:
  assumes "mset rs = mset rs'" "(i, nodes) \<in> set rs"
  shows "membership_data nodes maxn (the (map_of (map_keys rs) i)) (ref_counts (map_keys rs)) =
    membership_data nodes maxn (the (map_of (map_keys rs') i)) (ref_counts (map_keys rs'))"
proof -
  have ms: "mset (map fst rs) = mset (map fst rs')" using assms(1) by simp
  have "(i, nodes) \<in> set rs'" using assms by (metis set_mset_mset)
  moreover have raw: "raw (map fst rs') = raw (map fst rs)" using raw_order [OF ms] by simp
  moreover have "tally (map (raw (map fst rs)) (map fst rs)) = tally (map (raw (map fst rs)) (map fst rs'))"
    by (rule tally_mset) (metis ms mset_map)
  ultimately show ?thesis using assms(2) by (simp only: map_key counts_eq)
qed

end

text \<open>The same nodes, listed in another order or paging, give the same aggregation but for its order.\<close>

lemma aggregate_order:
  assumes "mset (concat pages) = mset (concat pages')"
  shows "mset (aggregate ids pages) = mset (aggregate ids pages')"
proof -
  have set_eq: "set (concat pages) = set (concat pages')" using assms by (metis set_mset_mset)
  have "sort (carriers ids i (concat pages)) = sort (carriers ids i (concat pages'))" for i
  proof (rule properties_for_sort)
    have "mset (carriers ids i ns) = (\<Sum>n\<in>#mset ns. replicate_mset (count_list (ids n) i) (nd_Name n))" for ns
      by (induction ns) (simp_all add: carriers_def)
    then show "mset (sort (carriers ids i (concat pages'))) = mset (carriers ids i (concat pages))" using assms by simp
  qed simp
  then have "set (aggregate ids pages) = set (aggregate ids pages')"
    by (auto simp: aggregate_member set_eq simp del: set_concat)
  moreover have "distinct (aggregate ids pages)" "distinct (aggregate ids pages')"
    using aggregate_distinct distinct_map by blast+
  ultimately show ?thesis by (simp add: set_eq_iff_mset_eq_distinct)
qed


text \<open>What one build writes and reads back does not depend on that order.\<close>

lemma sort_label_order:
  assumes "mset labels = mset labels'" "distinct (map fst labels)"
  shows "sort_key label_order labels = sort_key label_order labels'"
proof (rule sort_key_unique [OF _ assms(1)])
  have "inj (\<lambda>i :: label_id. [li_Key i, li_Value i])" by (rule injI) (rule label_id.equality, simp_all)
  then show "inj_on label_order (set labels)"
    using assms(2) by (auto simp: inj_on_def label_order_def distinct_map inj_def)
qed

lemma sort_taint_order:
  assumes "mset taints = mset taints'" "distinct (map fst taints)"
  shows "sort_key taint_order taints = sort_key taint_order taints'"
proof (rule sort_key_unique [OF _ assms(1)])
  have "inj (\<lambda>i :: taint_id. [ti_Key i, ti_Effect i, ti_Value i])" by (rule injI) (rule taint_id.equality, simp_all)
  then show "inj_on taint_order (set taints)"
    using assms(2) by (auto simp: inj_on_def taint_order_def distinct_map inj_def)
qed

lemma encode_label_items_order:
  assumes "mset labels = mset labels'" "distinct (map fst labels)"
  shows "encode_label_items labels maxn = encode_label_items labels' maxn"
proof -
  define S where "S = sort_key label_order labels"
  have S: "sort_key (\<lambda>(i, _). [li_Key i, li_Value i]) labels = S" "sort_key (\<lambda>(i, _). [li_Key i, li_Value i]) labels' = S"
    using sort_label_order [OF assms] by (simp_all add: S_def label_order_def [abs_def] case_prod_beta')
  show ?thesis
    unfolding encode_label_items_def S
    by (rule map_cong [OF refl]) (auto simp: S_def intro!: lab.items_data_order [OF assms(1)])
qed

lemma encode_taint_items_order:
  assumes "mset taints = mset taints'" "distinct (map fst taints)"
  shows "encode_taint_items taints maxn = encode_taint_items taints' maxn"
proof -
  define S where "S = sort_key taint_order taints"
  have S: "sort_key (\<lambda>(i, _). [ti_Key i, ti_Effect i, ti_Value i]) taints = S"
    "sort_key (\<lambda>(i, _). [ti_Key i, ti_Effect i, ti_Value i]) taints' = S"
    using sort_taint_order [OF assms] by (simp_all add: S_def taint_order_def [abs_def] case_prod_beta')
  show ?thesis
    unfolding encode_taint_items_def S
    by (rule map_cong [OF refl]) (auto simp: S_def intro!: tnt.items_data_order [OF assms(1)])
qed

text \<open>Hydrating what was written: the items with their nodes inline, and the folded keys of more than one reading.\<close>

definition ambiguous_keys :: "string list \<Rightarrow> string list" where
  "ambiguous_keys ks = filter (\<lambda>k. tally ks k > 1) (remdups ks)"

definition inlined_labels :: "(label_id \<times> string list) list \<Rightarrow> int \<Rightarrow> item_entry list" where
  "inlined_labels labels maxn =
     map (\<lambda>(item, x). inline_nodes item (shown_nodes (snd x) maxn))
       (zip (encode_label_items labels maxn) (sort_key label_order labels))"

definition inlined_taints :: "(taint_id \<times> string list) list \<Rightarrow> int \<Rightarrow> item_entry list" where
  "inlined_taints taints maxn =
     map (\<lambda>(item, x). inline_nodes item (shown_nodes (snd x) maxn))
       (zip (encode_taint_items taints maxn) (sort_key taint_order taints))"

lemma zip_map_snd: "map (\<lambda>(a, r). f a (g r)) (zip as (map h xs)) = map (\<lambda>(a, x). f a (g (h x))) (zip as xs)"
  by (simp add: zip_map2 case_prod_beta')

lemma hydrate_labels:
  assumes "label_readings_ok labels" "labels \<noteq> []"
  shows "hydrate_items (Some (label_subtype labels maxn)) =
    Inr (inlined_labels labels maxn, ambiguous_keys (map (label_raw (map fst labels) \<circ> fst) (sort_key label_order labels)))"
proof -
  have n: "length (st_Items (label_subtype labels maxn)) \<noteq> 0" "st_Items (label_subtype labels maxn) = encode_label_items labels maxn"
    "length (encode_label_items labels maxn) = length labels"
    using assms(2) by (simp_all add: label_subtype_def encode_label_items_def)
  show ?thesis
    using n label_readings_encoded [OF assms(1), of maxn]
    by (simp add: hydrate_items_def label_subtype_def hydrate_from_def inlined_labels_def ambiguous_keys_def comp_def
        label_reading_of_def zip_map2 case_prod_beta')
qed

lemma hydrate_taints:
  assumes "taint_readings_ok taints" "taints \<noteq> []"
  shows "hydrate_items (Some (taint_subtype taints maxn)) =
    Inr (inlined_taints taints maxn, ambiguous_keys (map (taint_raw (map fst taints) \<circ> fst) (sort_key taint_order taints)))"
proof -
  have n: "length (st_Items (taint_subtype taints maxn)) \<noteq> 0" "st_Items (taint_subtype taints maxn) = encode_taint_items taints maxn"
    "length (encode_taint_items taints maxn) = length taints" "subtypeTaint \<noteq> subtypeLabel"
    using assms(2) by (simp_all add: taint_subtype_def encode_taint_items_def subtypeTaint_def subtypeLabel_def)
  show ?thesis
    using n taint_readings_encoded [OF assms(1), of maxn]
    by (simp add: hydrate_items_def taint_subtype_def hydrate_from_def inlined_taints_def ambiguous_keys_def comp_def
        taint_reading_of_def zip_map2 case_prod_beta')
qed

lemma inlined_order:
  "mset labels = mset labels' \<Longrightarrow> distinct (map fst labels) \<Longrightarrow> inlined_labels labels maxn = inlined_labels labels' maxn"
  "mset taints = mset taints' \<Longrightarrow> distinct (map fst taints) \<Longrightarrow> inlined_taints taints maxn = inlined_taints taints' maxn"
  unfolding inlined_labels_def inlined_taints_def
  by (simp_all only: encode_label_items_order sort_label_order encode_taint_items_order sort_taint_order)


definition taints_ok :: "node list list \<Rightarrow> bool" where
  "taints_ok pages \<longleftrightarrow>
     (\<forall>n \<in> set (concat pages). distinct (taint_ids n) \<and> (\<forall>t \<in> set (nd_Taints n). tn_Key t \<noteq> [] \<and> tn_Effect t \<noteq> []))"

lemma taint_aggregate_ok:
  assumes ok: "cluster_ok kv pages" and dns: "dns_names kv" and t: "taints_ok pages"
  shows "taint_readings_ok (aggregate taint_ids pages)"
  unfolding taint_readings_ok_def nodes_ok_def
proof (intro ballI conjI)
  fix x assume "x \<in> set (aggregate taint_ids pages)"
  then have mem: "\<exists>n \<in> set (concat pages). fst x \<in> set (taint_ids n)"
    and snd: "snd x = sort (carriers taint_ids (fst x) (concat pages))" unfolding aggregate_member by blast+
  have "count_list (taint_ids n) i = (if i \<in> set (taint_ids n) then 1 else 0)" if "n \<in> set (concat pages)" for n i
    using that t distinct_count_atmost_1 [of "taint_ids n"] by (auto simp: taints_ok_def count_mset [symmetric] simp del: set_concat)
  then have "carriers taint_ids (fst x) qs = map nd_Name (filter (\<lambda>n. fst x \<in> set (taint_ids n)) qs)"
    if "set qs \<subseteq> set (concat pages)" for qs
    using that by (induction qs) (auto simp: carriers_def simp del: set_concat)
  then have c: "carriers taint_ids (fst x) (concat pages) = map nd_Name (filter (\<lambda>n. fst x \<in> set (taint_ids n)) (concat pages))" by blast
  obtain n where n: "n \<in> set (concat pages)" "fst x \<in> set (taint_ids n)" using mem by blast
  then show "ti_Key (fst x) \<noteq> []" "ti_Effect (fst x) \<noteq> []" using t by (auto simp: taints_ok_def taint_ids_def)
  have "nd_Name n \<in> set (snd x)" using n by (simp add: snd c del: set_concat)
  then show "snd x \<noteq> []" by auto
  have "length (snd x) \<le> length (concat pages)" unfolding snd c length_sort length_map by (rule length_filter_le)
  then show "int (length (snd x)) \<le> int64_max" using ok by (simp add: cluster_ok_def)
  fix m assume "m \<in> set (snd x)"
  then show "node_name m" using ok dns by (auto simp: snd c cluster_ok_def dns_names_def)
qed

lemma compare_readings_lookup: "map_of d = map_of d' \<Longrightarrow> compare_readings pre d d' = []"
  using compare_readings_set [of pre d d'] by (simp add: compare_value_empty [THEN iffD2])

lemma compare_subtype_same: "compare_subtype pre (Some st) (Some st) = []"
  using compare_subtype_set [of pre "Some st" "Some st"] by (simp add: report_empty [THEN iffD2])

lemma compare_measurements_same:
  "align_topology_encoding base target = (m, m) \<Longrightarrow> compare_measurements base target = []"
proof -
  assume a: "align_topology_encoding base target = (m, m)"
  have "set (compare_measurements base target) = {}"
  proof -
    have "compare_subtype pre st st = []" for pre st
      using compare_subtype_same by (cases st) (simp_all add: compare_subtype_def)
    then show ?thesis unfolding compare_measurements_set [OF a] by simp
  qed
  then show ?thesis by simp
qed

lemma single_no_drift:
  assumes "compare_measurements b t = []" "mt_Type b = mt_Type t"
  shows "\<not> has_drift (Some (diff_snapshots (Some [Some b]) (Some [Some t])))"
  using assms
  by (simp add: has_drift_def diff_snapshots_def Let_def compare_snapshots_def index_measurements_def merge_keys_def compare_type_def)

text \<open>The three subtypes of a topology.\<close>

definition topology_of :: "(string \<times> reading) list \<Rightarrow> subtype \<Rightarrow> subtype \<Rightarrow> measurement" where
  "topology_of summary taints labels =
     \<lparr>mt_Type = TypeNodeTopology,
      mt_Subtypes = [\<lparr>st_Name = ''summary'', st_Data = summary, st_Context = [], st_Items = []\<rparr>, taints, labels]\<rparr>"

definition bare_subtype :: "string \<Rightarrow> (string \<times> reading) list \<Rightarrow> item_entry list \<Rightarrow> subtype" where
  "bare_subtype name data items = \<lparr>st_Name = name, st_Data = data, st_Context = [], st_Items = items\<rparr>"

definition count_data :: "nat \<Rightarrow> nat \<Rightarrow> nat \<Rightarrow> (string \<times> reading) list" where
  "count_data nodes taints labels =
     [(''node-count'', ReadInt (int nodes)), (''taint-count'', ReadInt (int taints)), (''label-count'', ReadInt (int labels))]"

lemma collect_topology:
  "collect pages maxn =
     topology_of (count_data (length (concat pages)) (length (aggregate taint_ids pages)) (length (aggregate label_ids pages)))
       (bare_subtype ''taint'' (encode_taints (aggregate taint_ids pages) maxn) (encode_taint_items (aggregate taint_ids pages) maxn))
       (bare_subtype ''label'' (encode_labels (aggregate label_ids pages) maxn) (encode_label_items (aggregate label_ids pages) maxn))"
  by (simp add: collect_def Let_def topology_of_def bare_subtype_def count_data_def taint_subtype_def label_subtype_def
      subtypeTaint_def subtypeLabel_def encode_taint_items_def encode_label_items_def)

text \<open>What a build without items wrote: the folded maps, with their sizes as the counts.\<close>

definition older_collect :: "node list list \<Rightarrow> int \<Rightarrow> measurement" where
  "older_collect pages maxn =
     (let taints = encode_taints (aggregate taint_ids pages) maxn; labels = encode_labels (aggregate label_ids pages) maxn
      in topology_of (count_data (length (concat pages)) (length taints) (length labels))
           (bare_subtype ''taint'' taints []) (bare_subtype ''label'' labels []))"

lemma index_topology:
  assumes "st_Name taints = ''taint''" "st_Name labels = ''label''"
  shows "map_of (index_subtypes (mt_Subtypes (topology_of s taints labels))) ''label'' = Some labels"
    "map_of (index_subtypes (mt_Subtypes (topology_of s taints labels))) ''taint'' = Some taints"
  using assms by (simp_all add: topology_of_def index_subtypes_def)

lemma plan_subtype_cong:
  "map_of b name = map_of b' name \<Longrightarrow> map_of t name = map_of t' name \<Longrightarrow> plan_subtype b t name k = plan_subtype b' t' name k"
  by (simp only: plan_subtype_def)

lemma plan_topology:
  assumes "base = topology_of s (bare_subtype ''taint'' dt it) (bare_subtype ''label'' dl il)"
    "target = topology_of s' (bare_subtype ''taint'' dt' it') (bare_subtype ''label'' dl' il')"
  shows "alignment_plan base target ''label'' =
      plan_subtype [(''label'', bare_subtype ''label'' dl il)] [(''label'', bare_subtype ''label'' dl' il')] ''label'' ''label-count''"
    "alignment_plan base target ''taint'' =
      plan_subtype [(''taint'', bare_subtype ''taint'' dt it)] [(''taint'', bare_subtype ''taint'' dt' it')] ''taint'' ''taint-count''"
    "name \<noteq> ''label'' \<Longrightarrow> name \<noteq> ''taint'' \<Longrightarrow> alignment_plan base target name = None"
proof -
  have name: "st_Name (bare_subtype n d i) = n" for n d i by (simp add: bare_subtype_def)
  note index = index_topology [of "bare_subtype ''taint'' _ _" "bare_subtype ''label'' _ _", OF name name]
  have "alignment_plan base target ''label'' =
      plan_subtype (index_subtypes (mt_Subtypes base)) (index_subtypes (mt_Subtypes target)) ''label'' ''label-count''"
    by (simp add: alignment_plan_def Let_def topology_names)
  also have "\<dots> = plan_subtype [(''label'', bare_subtype ''label'' dl il)] [(''label'', bare_subtype ''label'' dl' il')] ''label'' ''label-count''"
    by (rule plan_subtype_cong) (simp_all add: assms index)
  finally show "alignment_plan base target ''label'' =
      plan_subtype [(''label'', bare_subtype ''label'' dl il)] [(''label'', bare_subtype ''label'' dl' il')] ''label'' ''label-count''" .
  have "alignment_plan base target ''taint'' =
      plan_subtype (index_subtypes (mt_Subtypes base)) (index_subtypes (mt_Subtypes target)) ''taint'' ''taint-count''"
    by (simp add: alignment_plan_def Let_def topology_names)
  also have "\<dots> = plan_subtype [(''taint'', bare_subtype ''taint'' dt it)] [(''taint'', bare_subtype ''taint'' dt' it')] ''taint'' ''taint-count''"
    by (rule plan_subtype_cong) (simp_all add: assms index)
  finally show "alignment_plan base target ''taint'' =
      plan_subtype [(''taint'', bare_subtype ''taint'' dt it)] [(''taint'', bare_subtype ''taint'' dt' it')] ''taint'' ''taint-count''" .
qed (simp add: alignment_plan_def Let_def topology_names)

lemma align_topology_of:
  assumes "plan = alignment_plan base target"
    and "base = topology_of s (bare_subtype ''taint'' dt it) (bare_subtype ''label'' dl il)"
    and "target = topology_of s' (bare_subtype ''taint'' dt' it') (bare_subtype ''label'' dl' il')"
  shows "align_topology_encoding base target = (align_measurement base plan, align_measurement target plan)"
proof (cases "plan ''label'' = None \<and> plan ''taint'' = None")
  case True
  then have none: "plan name = None" for name
    using plan_topology(3) [OF assms(2,3)] assms(1) by (cases "name = ''label''"; cases "name = ''taint''") auto
  have "folded_counts plan sts = []" for sts
    by (induction sts rule: rev_induct) (simp_all add: folded_counts_def none)
  moreover have "map (reduce_subtype plan) sts = sts" for sts
    by (induction sts) (simp_all add: reduce_subtype_def none)
  ultimately have "align_measurement m plan = m" for m by (simp add: align_measurement_def Let_def)
  then show ?thesis using none by (simp add: align_topology_encoding_def Let_def assms(1) [symmetric])
next
  case False
  then show ?thesis
    by (auto simp: align_topology_encoding_def Let_def assms(1) [symmetric] topology_names) (simp_all add: assms topology_of_def)
qed


definition hydrating :: subtype_plan where
  "hydrating = \<lparr>sp_hydrate = True, sp_dropData = True, sp_dropItems = False, sp_countKey = [], sp_skipKeys = []\<rparr>"

definition folding :: "string \<Rightarrow> string list \<Rightarrow> subtype_plan" where
  "folding key skip = \<lparr>sp_hydrate = False, sp_dropData = False, sp_dropItems = True, sp_countKey = key, sp_skipKeys = skip\<rparr>"

lemma plan_both:
  "plan_subtype [(n, bare_subtype n d it)] [(n, bare_subtype n d' it')] n key =
     (if it \<noteq> [] \<and> it' \<noteq> [] then Some hydrating
      else if it = [] \<and> it' = [] then None
      else Some (folding key (case hydrate_items (Some (item_side (bare_subtype n d it) (bare_subtype n d' it'))) of
                                Inl _ \<Rightarrow> [] | Inr (_, ambiguous) \<Rightarrow> ambiguous)))"
  by (simp add: plan_subtype_def Let_def bare_subtype_def hydrating_def folding_def)

lemma reduce_hydrating:
  assumes "plan n = (if it = [] then None else Some hydrating)"
    and "it = [] \<Longrightarrow> d = []" "it \<noteq> [] \<Longrightarrow> \<exists>amb. hydrate_items (Some (bare_subtype n d it)) = Inr (it', amb)" "it = [] \<Longrightarrow> it' = []"
  shows "reduce_subtype plan (bare_subtype n d it) = bare_subtype n [] it'"
proof (cases "it = []")
  case True
  then show ?thesis using assms by (simp add: reduce_subtype_def bare_subtype_def)
next
  case False
  then obtain amb where "hydrate_items (Some (bare_subtype n d it)) = Inr (it', amb)" using assms(3) by blast
  then show ?thesis using False assms(1) by (simp add: reduce_subtype_def bare_subtype_def hydrating_def)
qed

lemma reduce_folding:
  "plan n = Some (folding key skip) \<Longrightarrow>
   reduce_subtype plan (bare_subtype n d it) = bare_subtype n (filter (\<lambda>(k, _). k \<notin> set skip) d) []"
  by (simp add: reduce_subtype_def bare_subtype_def folding_def)

lemma reduce_none: "plan n = None \<Longrightarrow> reduce_subtype plan (bare_subtype n d it) = bare_subtype n d it"
  by (simp add: reduce_subtype_def bare_subtype_def)

lemma bare_is_label_subtype: "bare_subtype ''label'' (encode_labels labels maxn) (encode_label_items labels maxn) = label_subtype labels maxn"
  by (simp add: bare_subtype_def label_subtype_def subtypeLabel_def)

lemma bare_is_taint_subtype: "bare_subtype ''taint'' (encode_taints taints maxn) (encode_taint_items taints maxn) = taint_subtype taints maxn"
  by (simp add: bare_subtype_def taint_subtype_def subtypeTaint_def)

lemma length_encode_items [simp]:
  "length (encode_label_items labels maxn) = length labels" "length (encode_taint_items taints maxn) = length taints"
  by (simp_all add: encode_label_items_def encode_taint_items_def)

lemma encode_items_Nil:
  "encode_label_items labels maxn = [] \<longleftrightarrow> labels = []" "encode_taint_items taints maxn = [] \<longleftrightarrow> taints = []"
  using length_encode_items by (metis length_0_conv)+

definition aligned_topology :: "node list list \<Rightarrow> int \<Rightarrow> measurement" where
  "aligned_topology pages maxn =
     topology_of (count_data (length (concat pages)) (length (aggregate taint_ids pages)) (length (aggregate label_ids pages)))
       (bare_subtype ''taint'' [] (inlined_taints (aggregate taint_ids pages) maxn))
       (bare_subtype ''label'' [] (inlined_labels (aggregate label_ids pages) maxn))"

lemma align_new:
  assumes "plan ''label'' = (if aggregate label_ids pages = [] then None else Some hydrating)"
    and "plan ''taint'' = (if aggregate taint_ids pages = [] then None else Some hydrating)" "plan ''summary'' = None"
    and "label_readings_ok (aggregate label_ids pages)" "taint_readings_ok (aggregate taint_ids pages)"
  shows "align_measurement (collect pages maxn) plan = aligned_topology pages maxn"
proof -
  have lab: "reduce_subtype plan (bare_subtype ''label'' (encode_labels (aggregate label_ids pages) maxn) (encode_label_items (aggregate label_ids pages) maxn)) =
      bare_subtype ''label'' [] (inlined_labels (aggregate label_ids pages) maxn)"
  proof (rule reduce_hydrating)
    show "plan ''label'' = (if encode_label_items (aggregate label_ids pages) maxn = [] then None else Some hydrating)"
      using assms(1) by (simp add: encode_items_Nil)
    show "encode_label_items (aggregate label_ids pages) maxn = [] \<Longrightarrow> encode_labels (aggregate label_ids pages) maxn = []"
      by (simp add: encode_items_Nil encode_labels_def)
    show "encode_label_items (aggregate label_ids pages) maxn \<noteq> [] \<Longrightarrow> \<exists>amb. hydrate_items (Some (bare_subtype ''label''
        (encode_labels (aggregate label_ids pages) maxn) (encode_label_items (aggregate label_ids pages) maxn))) =
        Inr (inlined_labels (aggregate label_ids pages) maxn, amb)"
      unfolding bare_is_label_subtype encode_items_Nil using hydrate_labels [OF assms(4)] by blast
    show "encode_label_items (aggregate label_ids pages) maxn = [] \<Longrightarrow> inlined_labels (aggregate label_ids pages) maxn = []"
      by (simp add: inlined_labels_def)
  qed
  have tnt: "reduce_subtype plan (bare_subtype ''taint'' (encode_taints (aggregate taint_ids pages) maxn) (encode_taint_items (aggregate taint_ids pages) maxn)) =
      bare_subtype ''taint'' [] (inlined_taints (aggregate taint_ids pages) maxn)"
  proof (rule reduce_hydrating)
    show "plan ''taint'' = (if encode_taint_items (aggregate taint_ids pages) maxn = [] then None else Some hydrating)"
      using assms(2) by (simp add: encode_items_Nil)
    show "encode_taint_items (aggregate taint_ids pages) maxn = [] \<Longrightarrow> encode_taints (aggregate taint_ids pages) maxn = []"
      by (simp add: encode_items_Nil encode_taints_def)
    show "encode_taint_items (aggregate taint_ids pages) maxn \<noteq> [] \<Longrightarrow> \<exists>amb. hydrate_items (Some (bare_subtype ''taint''
        (encode_taints (aggregate taint_ids pages) maxn) (encode_taint_items (aggregate taint_ids pages) maxn))) =
        Inr (inlined_taints (aggregate taint_ids pages) maxn, amb)"
      unfolding bare_is_taint_subtype encode_items_Nil using hydrate_taints [OF assms(5)] by blast
    show "encode_taint_items (aggregate taint_ids pages) maxn = [] \<Longrightarrow> inlined_taints (aggregate taint_ids pages) maxn = []"
      by (simp add: inlined_taints_def)
  qed
  have "folded_counts plan (mt_Subtypes (collect pages maxn)) = []"
    using assms(1-3) by (auto simp: collect_topology topology_of_def folded_counts_def bare_subtype_def hydrating_def)
  then show ?thesis
    using lab tnt assms(3)
    by (simp add: align_measurement_def Let_def collect_topology topology_of_def aligned_topology_def reduce_subtype_def [of plan "\<lparr>st_Name = ''summary'', st_Data = _, st_Context = _, st_Items = _\<rparr>"])
qed

lemma aggregate_Nil:
  assumes "mset (concat pages) = mset (concat pages')"
  shows "aggregate ids pages = [] \<longleftrightarrow> aggregate ids pages' = []" "length (aggregate ids pages) = length (aggregate ids pages')"
  using aggregate_order [OF assms, of ids] by (metis mset_zero_iff mset.simps(1), metis size_mset)

lemma same_nodes_ok:
  assumes ok: "cluster_ok kv pages" "taints_ok pages" and eq: "mset (concat pages) = mset (concat pages')"
  shows "cluster_ok kv pages'" "taints_ok pages'" "length (concat pages') = length (concat pages)"
proof -
  have set_eq: "set (concat pages') = set (concat pages)" using eq by (metis set_mset_mset)
  have "mset (map nd_Name (concat pages')) = mset (map nd_Name (concat pages))" using eq by (metis mset_map)
  then have "distinct (map nd_Name (concat pages')) \<longleftrightarrow> distinct (map nd_Name (concat pages))" by (rule mset_eq_imp_distinct_iff)
  moreover show len: "length (concat pages') = length (concat pages)" using eq by (metis size_mset)
  ultimately show "cluster_ok kv pages'" using ok(1) unfolding cluster_ok_def set_eq by simp
  show "taints_ok pages'" using ok(2) unfolding taints_ok_def set_eq .
qed

lemma rescan_no_drift:
  assumes ok: "cluster_ok kv pages" "dns_names kv" "taints_ok pages" and eq: "mset (concat pages) = mset (concat pages')"
  shows "compare_measurements (collect pages maxn) (collect pages' maxn) = []"
proof -
  define plan where "plan = alignment_plan (collect pages maxn) (collect pages' maxn)"
  note ok' = same_nodes_ok [OF ok(1,3) eq]
  have plans: "plan ''label'' = (if aggregate label_ids pages = [] then None else Some hydrating)"
    "plan ''taint'' = (if aggregate taint_ids pages = [] then None else Some hydrating)" "plan ''summary'' = None"
    using aggregate_Nil(1) [OF eq, of label_ids] aggregate_Nil(1) [OF eq, of taint_ids] plan_topology [OF collect_topology [of pages maxn] collect_topology [of pages' maxn]]
    by (auto simp: plan_def plan_both encode_items_Nil)
  have plans': "plan ''label'' = (if aggregate label_ids pages' = [] then None else Some hydrating)"
    "plan ''taint'' = (if aggregate taint_ids pages' = [] then None else Some hydrating)"
    by (simp_all only: plans(1,2) aggregate_Nil(1) [OF eq, of label_ids] aggregate_Nil(1) [OF eq, of taint_ids])
  have "align_topology_encoding (collect pages maxn) (collect pages' maxn) = (aligned_topology pages maxn, aligned_topology pages' maxn)"
    unfolding align_topology_of [OF plan_def collect_topology collect_topology]
    using align_new [OF plans readings_ok [OF ok(1,2)] taint_aggregate_ok [OF ok]]
      align_new [OF plans' plans(3) readings_ok [OF ok'(1) ok(2)] taint_aggregate_ok [OF ok'(1) ok(2) ok'(2)]]
    by simp
  moreover have "aligned_topology pages maxn = aligned_topology pages' maxn"
    unfolding aligned_topology_def ok'(3) aggregate_Nil(2) [OF eq]
      inlined_order(1) [OF aggregate_order [OF eq] aggregate_distinct] inlined_order(2) [OF aggregate_order [OF eq] aggregate_distinct] ..
  ultimately show ?thesis by (intro compare_measurements_same) simp
qed


subsection \<open>An upgrade is no drift\<close>

lemma ambiguous_keys_member: "k \<in> set (ambiguous_keys ks) \<longleftrightarrow> tally ks k > 1"
  by (auto simp: ambiguous_keys_def tally_def count_list_0_iff [symmetric]) (metis count_list_0_iff not_less_zero)

lemma map_of_filter_keys: "map_of (filter (\<lambda>(k, _). k \<notin> A) m) k = (if k \<in> A then None else map_of m k)"
  by (induction m) auto

context folded_encoding
begin

lemma unambiguous_lookup:
  assumes "mset rs = mset rs'" "mset ids = mset (map fst rs)"
  shows "map_of (filter (\<lambda>(k, _). k \<notin> set (ambiguous_keys (map (raw (map fst rs)) ids))) (encode rs' maxn)) =
    map_of (filter (\<lambda>(k, _). k \<notin> set (ambiguous_keys (map (raw (map fst rs)) ids))) (encode rs maxn))"
proof (rule ext)
  fix k
  have "tally (map (raw (map fst rs)) ids) = tally (map (raw (map fst rs)) (map fst rs))"
    by (rule tally_mset) (metis assms(2) mset_map)
  then show "map_of (filter (\<lambda>(k, _). k \<notin> set (ambiguous_keys (map (raw (map fst rs)) ids))) (encode rs' maxn)) k =
    map_of (filter (\<lambda>(k, _). k \<notin> set (ambiguous_keys (map (raw (map fst rs)) ids))) (encode rs maxn)) k"
    unfolding map_of_filter_keys unfolding ambiguous_keys_member using encode_lookup_order [OF assms(1), of k maxn] by (simp add: not_less)
qed

end

text \<open>One of the two subtypes of an older and of a newer snapshot, after the alignment.\<close>

definition folded_alike :: "subtype \<Rightarrow> subtype \<Rightarrow> bool" where
  "folded_alike b t \<longleftrightarrow> map_of (st_Data b) = map_of (st_Data t) \<and> st_Context b = [] \<and> st_Context t = [] \<and> st_Items b = [] \<and> st_Items t = []"

lemma folded_alike_bare: "folded_alike (bare_subtype n d []) (bare_subtype n' d' []) \<longleftrightarrow> map_of d = map_of d'"
  by (simp add: folded_alike_def bare_subtype_def)

lemma compare_folded: "folded_alike b t \<Longrightarrow> compare_subtype pre (Some b) (Some t) = []"
  by (simp add: folded_alike_def compare_subtype_def compare_readings_lookup compare_strings_def compare_items_def merge_keys_def)

lemma fold_labels:
  assumes eq: "mset labels = mset labels'" and ok: "label_readings_ok labels'"
    and plan: "plan = plan_subtype [(''label'', bare_subtype ''label'' (encode_labels labels maxn) [])]
      [(''label'', bare_subtype ''label'' (encode_labels labels' maxn) (encode_label_items labels' maxn))] ''label'' ''label-count''"
  shows "labels' = [] \<Longrightarrow> plan = None"
    and "labels' \<noteq> [] \<Longrightarrow> \<exists>skip. plan = Some (folding ''label-count'' skip) \<and>
      map_of (filter (\<lambda>(k, _). k \<notin> set skip) (encode_labels labels maxn)) =
      map_of (filter (\<lambda>(k, _). k \<notin> set skip) (encode_labels labels' maxn))"
proof -
  show "labels' = [] \<Longrightarrow> plan = None" by (simp add: plan plan_both encode_label_items_def)
  assume ne: "labels' \<noteq> []"
  define ids where "ids = map fst (sort_key label_order labels')"
  define skip where "skip = ambiguous_keys (map (label_raw (map fst labels')) ids)"
  have side: "item_side (bare_subtype ''label'' (encode_labels labels maxn) [])
      (bare_subtype ''label'' (encode_labels labels' maxn) (encode_label_items labels' maxn)) = label_subtype labels' maxn"
    by (simp add: item_side_def bare_subtype_def label_subtype_def subtypeLabel_def)
  have "plan = Some (folding ''label-count'' skip)"
    unfolding plan plan_both side
    using ne by (simp add: encode_items_Nil hydrate_labels [OF ok ne] skip_def ids_def)
  moreover have "map_of (filter (\<lambda>(k, _). k \<notin> set skip) (encode_labels labels maxn)) =
      map_of (filter (\<lambda>(k, _). k \<notin> set skip) (encode_labels labels' maxn))"
    unfolding skip_def by (rule lab.unambiguous_lookup) (simp_all add: eq ids_def)
  ultimately show "\<exists>skip. plan = Some (folding ''label-count'' skip) \<and>
      map_of (filter (\<lambda>(k, _). k \<notin> set skip) (encode_labels labels maxn)) =
      map_of (filter (\<lambda>(k, _). k \<notin> set skip) (encode_labels labels' maxn))" by blast
qed

lemma fold_taints:
  assumes eq: "mset taints = mset taints'" and ok: "taint_readings_ok taints'"
    and plan: "plan = plan_subtype [(''taint'', bare_subtype ''taint'' (encode_taints taints maxn) [])]
      [(''taint'', bare_subtype ''taint'' (encode_taints taints' maxn) (encode_taint_items taints' maxn))] ''taint'' ''taint-count''"
  shows "taints' = [] \<Longrightarrow> plan = None"
    and "taints' \<noteq> [] \<Longrightarrow> \<exists>skip. plan = Some (folding ''taint-count'' skip) \<and>
      map_of (filter (\<lambda>(k, _). k \<notin> set skip) (encode_taints taints maxn)) =
      map_of (filter (\<lambda>(k, _). k \<notin> set skip) (encode_taints taints' maxn))"
proof -
  show "taints' = [] \<Longrightarrow> plan = None" by (simp add: plan plan_both encode_taint_items_def)
  assume ne: "taints' \<noteq> []"
  define ids where "ids = map fst (sort_key taint_order taints')"
  define skip where "skip = ambiguous_keys (map (taint_raw (map fst taints')) ids)"
  have side: "item_side (bare_subtype ''taint'' (encode_taints taints maxn) [])
      (bare_subtype ''taint'' (encode_taints taints' maxn) (encode_taint_items taints' maxn)) = taint_subtype taints' maxn"
    by (simp add: item_side_def bare_subtype_def taint_subtype_def subtypeTaint_def)
  have "plan = Some (folding ''taint-count'' skip)"
    unfolding plan plan_both side
    using ne by (simp add: encode_items_Nil hydrate_taints [OF ok ne] skip_def ids_def)
  moreover have "map_of (filter (\<lambda>(k, _). k \<notin> set skip) (encode_taints taints maxn)) =
      map_of (filter (\<lambda>(k, _). k \<notin> set skip) (encode_taints taints' maxn))"
    unfolding skip_def by (rule tnt.unambiguous_lookup) (simp_all add: eq ids_def)
  ultimately show "\<exists>skip. plan = Some (folding ''taint-count'' skip) \<and>
      map_of (filter (\<lambda>(k, _). k \<notin> set skip) (encode_taints taints maxn)) =
      map_of (filter (\<lambda>(k, _). k \<notin> set skip) (encode_taints taints' maxn))" by blast
qed


definition folded_summary :: "(string \<Rightarrow> subtype_plan option) \<Rightarrow> nat \<Rightarrow> nat \<Rightarrow> nat \<Rightarrow> nat \<Rightarrow> nat \<Rightarrow> (string \<times> reading) list" where
  "folded_summary plan n t l t' l' =
     count_data n (if plan ''taint'' = None then t else t') (if plan ''label'' = None then l else l')"

lemma folded_counts_topology:
  assumes "plan ''label'' = None \<or> (\<exists>skip. plan ''label'' = Some (folding ''label-count'' skip))"
    and "plan ''taint'' = None \<or> (\<exists>skip. plan ''taint'' = Some (folding ''taint-count'' skip))" and "plan ''summary'' = None"
  shows "folded_counts plan (mt_Subtypes (topology_of s (bare_subtype ''taint'' dt it) (bare_subtype ''label'' dl il))) =
    (if plan ''taint'' = None then [] else [(''taint-count'', length dt)]) @ (if plan ''label'' = None then [] else [(''label-count'', length dl)])"
  using assms by (auto simp: folded_counts_def topology_of_def bare_subtype_def folding_def)

lemma align_folded:
  assumes lab: "plan ''label'' = None \<or> (\<exists>skip. plan ''label'' = Some (folding ''label-count'' skip))"
    and tnt: "plan ''taint'' = None \<or> (\<exists>skip. plan ''taint'' = Some (folding ''taint-count'' skip))" and sum: "plan ''summary'' = None"
  shows "align_measurement (topology_of (count_data n t l) (bare_subtype ''taint'' dt it) (bare_subtype ''label'' dl il)) plan =
    topology_of (folded_summary plan n t l (length dt) (length dl))
      (reduce_subtype plan (bare_subtype ''taint'' dt it)) (reduce_subtype plan (bare_subtype ''label'' dl il))"
proof -
  have names: "st_Name (reduce_subtype plan (bare_subtype nm d i)) = nm" for nm d i
    by (simp add: reduce_subtype_def bare_subtype_def split: option.split prod.split)
  have sums: "reduce_subtype plan \<lparr>st_Name = ''summary'', st_Data = d, st_Context = [], st_Items = []\<rparr> =
      \<lparr>st_Name = ''summary'', st_Data = d, st_Context = [], st_Items = []\<rparr>" for d
    by (simp add: reduce_subtype_def sum)
  have summary_restated: "restate_counts folded \<lparr>st_Name = ''summary'', st_Data = d, st_Context = [], st_Items = []\<rparr> =
      \<lparr>st_Name = ''summary'', st_Data = map (\<lambda>(k, v). (k, case map_of folded k of None \<Rightarrow> v | Some n \<Rightarrow> ReadInt (int n))) d,
       st_Context = [], st_Items = []\<rparr>" for folded d
    by (simp add: restate_counts_def topologySummarySubtype_def)
  have keep: "restate_counts folded (reduce_subtype plan (bare_subtype nm d i)) = reduce_subtype plan (bare_subtype nm d i)"
    if "nm \<noteq> ''summary''" for folded nm d i
    using that by (simp add: restate_counts_def names topologySummarySubtype_def)
  show ?thesis
    unfolding align_measurement_def Let_def folded_counts_topology [OF assms]
    using keep [of "''taint''"] keep [of "''label''"]
    by (cases "plan ''taint''"; cases "plan ''label''") (simp_all add: topology_of_def sums summary_restated count_data_def folded_summary_def)
qed


lemma compare_topology:
  assumes align: "align_topology_encoding base target = (topology_of s tb lb, topology_of s tt lt)"
    and alike: "tb = tt \<or> folded_alike tb tt" "lb = lt \<or> folded_alike lb lt"
    and names: "st_Name tb = ''taint''" "st_Name tt = ''taint''" "st_Name lb = ''label''" "st_Name lt = ''label''"
  shows "compare_measurements base target = []"
proof -
  have sub: "subtype_in (Some (topology_of s t l)) name =
      (if name = ''label'' then Some l else if name = ''taint'' then Some t
       else if name = ''summary'' then Some \<lparr>st_Name = ''summary'', st_Data = s, st_Context = [], st_Items = []\<rparr> else None)"
    if "st_Name t = ''taint''" "st_Name l = ''label''" for t l name
    using that by (simp add: subtype_in_def topology_of_def index_subtypes_def)
  have "compare_subtype pre (subtype_in (Some (topology_of s tb lb)) name) (subtype_in (Some (topology_of s tt lt)) name) = []" for pre name
    unfolding sub [OF names(1,3)] sub [OF names(2,4)]
    using alike compare_subtype_same compare_folded by (auto simp: compare_subtype_def [of _ None None])
  then have "set (compare_measurements base target) = {}"
    unfolding compare_measurements_set [OF align] by simp
  then show ?thesis by simp
qed

lemma upgrade_no_drift:
  assumes ok: "cluster_ok kv pages" "dns_names kv" "taints_ok pages" and eq: "mset (concat pages) = mset (concat pages')"
  shows "compare_measurements (older_collect pages maxn) (collect pages' maxn) = []"
proof -
  note ok' = same_nodes_ok [OF ok(1,3) eq]
  define lab where "lab = aggregate label_ids pages"
  define lab' where "lab' = aggregate label_ids pages'"
  define tnt where "tnt = aggregate taint_ids pages"
  define tnt' where "tnt' = aggregate taint_ids pages'"
  have ms: "mset lab = mset lab'" "mset tnt = mset tnt'" using aggregate_order [OF eq] by (simp_all add: lab_def lab'_def tnt_def tnt'_def)
  have rok: "label_readings_ok lab'" "taint_readings_ok tnt'"
    using readings_ok [OF ok'(1) ok(2)] taint_aggregate_ok [OF ok'(1) ok(2) ok'(2)] by (simp_all add: lab'_def tnt'_def)
  have len: "length (encode_labels lab maxn) = length (encode_labels lab' maxn)" "length (encode_taints tnt maxn) = length (encode_taints tnt' maxn)"
    using lab.encode_length_order [OF ms(1)] tnt.encode_length_order [OF ms(2)] by blast+
  have base: "older_collect pages maxn = topology_of (count_data (length (concat pages)) (length (encode_taints tnt maxn)) (length (encode_labels lab maxn)))
      (bare_subtype ''taint'' (encode_taints tnt maxn) []) (bare_subtype ''label'' (encode_labels lab maxn) [])"
    by (simp add: older_collect_def Let_def lab_def tnt_def)
  have target: "collect pages' maxn = topology_of (count_data (length (concat pages)) (length tnt') (length lab'))
      (bare_subtype ''taint'' (encode_taints tnt' maxn) (encode_taint_items tnt' maxn))
      (bare_subtype ''label'' (encode_labels lab' maxn) (encode_label_items lab' maxn))"
    using collect_topology [of pages' maxn] ok'(3) by (simp only: lab'_def tnt'_def)
  define plan where "plan = alignment_plan (older_collect pages maxn) (collect pages' maxn)"
  note plans = plan_topology [OF base target, folded plan_def]
  note fl = fold_labels [OF ms(1) rok(1) plans(1)] and ft = fold_taints [OF ms(2) rok(2) plans(2)]
  have cases: "plan ''label'' = None \<or> (\<exists>skip. plan ''label'' = Some (folding ''label-count'' skip))"
    "plan ''taint'' = None \<or> (\<exists>skip. plan ''taint'' = Some (folding ''taint-count'' skip))" "plan ''summary'' = None"
    using fl ft plans(3) by auto
  have none: "plan ''label'' = None \<longleftrightarrow> lab' = []" "plan ''taint'' = None \<longleftrightarrow> tnt' = []"
    using fl(1) fl(2) ft(1) ft(2) by (metis option.distinct(1))+
  have sums: "folded_summary plan n (length (encode_taints tnt maxn)) (length (encode_labels lab maxn)) (length (encode_taints tnt maxn)) (length (encode_labels lab maxn)) =
      folded_summary plan n (length tnt') (length lab') (length (encode_taints tnt' maxn)) (length (encode_labels lab' maxn))" for n
    using len none by (auto simp: folded_summary_def encode_taints_def [of "[]"] encode_labels_def [of "[]"])
  have align: "align_topology_encoding (older_collect pages maxn) (collect pages' maxn) =
      (topology_of (folded_summary plan (length (concat pages)) (length tnt') (length lab') (length (encode_taints tnt' maxn)) (length (encode_labels lab' maxn)))
         (reduce_subtype plan (bare_subtype ''taint'' (encode_taints tnt maxn) [])) (reduce_subtype plan (bare_subtype ''label'' (encode_labels lab maxn) [])),
       topology_of (folded_summary plan (length (concat pages)) (length tnt') (length lab') (length (encode_taints tnt' maxn)) (length (encode_labels lab' maxn)))
         (reduce_subtype plan (bare_subtype ''taint'' (encode_taints tnt' maxn) (encode_taint_items tnt' maxn)))
         (reduce_subtype plan (bare_subtype ''label'' (encode_labels lab' maxn) (encode_label_items lab' maxn))))"
    unfolding align_topology_of [OF plan_def base target] unfolding base target align_folded [OF cases] sums ..
  have lalike: "reduce_subtype plan (bare_subtype ''label'' (encode_labels lab maxn) []) =
        reduce_subtype plan (bare_subtype ''label'' (encode_labels lab' maxn) (encode_label_items lab' maxn)) \<or>
      folded_alike (reduce_subtype plan (bare_subtype ''label'' (encode_labels lab maxn) []))
        (reduce_subtype plan (bare_subtype ''label'' (encode_labels lab' maxn) (encode_label_items lab' maxn)))"
  proof (cases "lab' = []")
    case True
    then have "lab = []" using ms(1) by simp
    with True show ?thesis by (simp add: encode_label_items_def encode_labels_def)
  next
    case False
    then obtain skip where "plan ''label'' = Some (folding ''label-count'' skip)"
      "map_of (filter (\<lambda>(k, _). k \<notin> set skip) (encode_labels lab maxn)) = map_of (filter (\<lambda>(k, _). k \<notin> set skip) (encode_labels lab' maxn))"
      using fl(2) by blast
    then show ?thesis by (simp add: reduce_folding folded_alike_bare)
  qed
  have talike: "reduce_subtype plan (bare_subtype ''taint'' (encode_taints tnt maxn) []) =
        reduce_subtype plan (bare_subtype ''taint'' (encode_taints tnt' maxn) (encode_taint_items tnt' maxn)) \<or>
      folded_alike (reduce_subtype plan (bare_subtype ''taint'' (encode_taints tnt maxn) []))
        (reduce_subtype plan (bare_subtype ''taint'' (encode_taints tnt' maxn) (encode_taint_items tnt' maxn)))"
  proof (cases "tnt' = []")
    case True
    then have "tnt = []" using ms(2) by simp
    with True show ?thesis by (simp add: encode_taint_items_def encode_taints_def)
  next
    case False
    then obtain skip where "plan ''taint'' = Some (folding ''taint-count'' skip)"
      "map_of (filter (\<lambda>(k, _). k \<notin> set skip) (encode_taints tnt maxn)) = map_of (filter (\<lambda>(k, _). k \<notin> set skip) (encode_taints tnt' maxn))"
      using ft(2) by blast
    then show ?thesis by (simp add: reduce_folding folded_alike_bare)
  qed
  have nm: "st_Name (reduce_subtype plan (bare_subtype n d i)) = n" for n d i
    by (simp add: reduce_subtype_def bare_subtype_def split: option.split prod.split)
  show ?thesis by (rule compare_topology [OF align talike lalike nm nm nm nm])
qed

lemma mirrored_drift: "has_drift (Some (diff_snapshots t b)) \<longleftrightarrow> has_drift (Some (diff_snapshots b t))"
proof (cases b; cases t)
  fix bm tm assume "b = Some bm" "t = Some tm"
  then show ?thesis by (simp add: has_drift_def diff_snapshots_def Let_def compare_snapshots_mirror [of tm] sort_key_mirror)
qed (simp_all add: has_drift_def diff_snapshots_def)

text \<open>Property C30: an unchanged cluster shows no drift, whatever the encoding. Two snapshots of the same nodes compare equal, in
  whatever order and paging the nodes were listed, also where folded keys collide and the folded maps differ; and so do a
  snapshot of a build that wrote only the folded maps and one of this build, in both directions.\<close>

theorem same_cluster_no_drift:
  assumes "cluster_ok kv pages" "dns_names kv" "taints_ok pages" "mset (concat pages) = mset (concat pages')"
  shows "\<not> has_drift (Some (diff_snapshots (Some [Some (collect pages maxn)]) (Some [Some (collect pages' maxn)]))) \<and>
    \<not> has_drift (Some (diff_snapshots (Some [Some (older_collect pages maxn)]) (Some [Some (collect pages' maxn)]))) \<and>
    \<not> has_drift (Some (diff_snapshots (Some [Some (collect pages' maxn)]) (Some [Some (older_collect pages maxn)])))"
proof -
  have ty: "mt_Type (collect pages maxn) = mt_Type (collect pages' maxn)" "mt_Type (older_collect pages maxn) = mt_Type (collect pages' maxn)"
    by (simp_all add: collect_def older_collect_def topology_of_def Let_def)
  have up: "\<not> has_drift (Some (diff_snapshots (Some [Some (older_collect pages maxn)]) (Some [Some (collect pages' maxn)])))"
    using single_no_drift [OF upgrade_no_drift [OF assms] ty(2)] .
  show ?thesis
    using up single_no_drift [OF rescan_no_drift [OF assms] ty(1)] mirrored_drift by blast
qed


theorem same_cluster_no_drift_witness:
  "\<not> has_drift (Some (diff_snapshots (Some [Some (older_collect small_cluster 1)]) (Some [Some (collect [rev (concat small_cluster)] 1)])))"
proof -
  have "cluster_ok plain_validators small_cluster" by code_simp
  moreover have "dns_names plain_validators"
    by (simp add: dns_names_def plain_validators_def node_name_def Let_def)
  moreover have "taints_ok small_cluster" by code_simp
  moreover have "mset (concat small_cluster) = mset (concat [rev (concat small_cluster)])" by simp
  ultimately show ?thesis using same_cluster_no_drift [of plain_validators small_cluster "[rev (concat small_cluster)]" 1] by blast
qed

end
