(* ===== verification/Topology_Collect.thy ===== *)
theory Topology_Collect
  imports Topology
begin

section \<open>Listing the nodes page by page (pkg/collector/topology, Collect)\<close>

text \<open>
  The loop of \<open>Collect\<close>: a page of nodes is asked of the API server, its taints and labels are folded into the two
  maps, and the continuation token of the page says whether there is another. Nothing in the loop bounds the number of
  pages: what ends it is the context, which carries the timeout of the collector. So the loop is a
  \<open>partial_function (option)\<close>, in which a loop that never ends is \<open>None\<close>.

  Parameters: \<open>ctx k\<close> is what the \<open>k\<close>-th call of \<open>ctx.Err()\<close> answers (the call before the client is
  built is number 0, the one before the \<open>k\<close>-th page is number \<open>k\<close>); \<open>api k token\<close> is the answer of the API
  server to the \<open>k\<close>-th request, so the server may change between requests; \<open>client\<close> is the client that the
  collector has or the one that \<open>client.GetKubeClient\<close> builds.
\<close>

record node_page =
  np_Items :: "node list"
  np_Continue :: string

type_synonym api_server = "nat \<Rightarrow> string \<Rightarrow> node_page res"

record collect_state =
  cs_Taints :: "(taint_id \<times> string list) list"
  cs_Labels :: "(label_id \<times> string list) list"
  cs_NodeCount :: nat

definition collect_init :: collect_state where
  "collect_init = \<lparr>cs_Taints = [], cs_Labels = [], cs_NodeCount = 0\<rparr>"

definition fold_node :: "collect_state \<Rightarrow> node \<Rightarrow> collect_state" where
  "fold_node st n =
     \<lparr>cs_Taints = foldl (add_carrier (nd_Name n)) (cs_Taints st) (taint_ids n),
      cs_Labels = foldl (add_carrier (nd_Name n)) (cs_Labels st) (label_ids n),
      cs_NodeCount = cs_NodeCount st + 1\<rparr>"

definition sort_carriers :: "('id \<times> string list) list \<Rightarrow> ('id \<times> string list) list" where
  "sort_carriers m = map (\<lambda>(id, ns). (id, sort ns)) m"

definition build_topology :: "collect_state \<Rightarrow> int \<Rightarrow> measurement" where
  "build_topology st maxn =
     (let taints = sort_carriers (cs_Taints st); labels = sort_carriers (cs_Labels st)
      in \<lparr>mt_Type = TypeNodeTopology,
          mt_Subtypes =
            [\<lparr>st_Name = ''summary'',
              st_Data = [(''node-count'', ReadInt (int (cs_NodeCount st))),
                         (''taint-count'', ReadInt (int (length (encode_taint_items taints maxn)))),
                         (''label-count'', ReadInt (int (length (encode_label_items labels maxn))))],
              st_Context = [], st_Items = []\<rparr>,
             taint_subtype taints maxn, label_subtype labels maxn]\<rparr>)"

partial_function (option) collect_pages ::
  "(nat \<Rightarrow> go_error option) \<Rightarrow> api_server \<Rightarrow> nat \<Rightarrow> string \<Rightarrow> collect_state \<Rightarrow> collect_state res option" where
  "collect_pages ctx api k token st =
     (case ctx k of
        Some e \<Rightarrow> Some (Inl (err_wrap ErrCodeTimeout ''topology collection interrupted'' [] e))
      | None \<Rightarrow>
          (case api k token of
             Inl e \<Rightarrow> Some (Inl (err_wrap ErrCodeInternal ''failed to list nodes'' [] e))
           | Inr page \<Rightarrow>
               (let st' = foldl fold_node st (np_Items page)
                in if np_Continue page = [] then Some (Inr st')
                   else collect_pages ctx api (Suc k) (np_Continue page) st')))"

definition get_client :: "'c option \<Rightarrow> 'c res \<Rightarrow> 'c res" where
  "get_client client_set kube =
     (case client_set of
        Some c \<Rightarrow> Inr c
      | None \<Rightarrow> (case kube of
                   Inl e \<Rightarrow> Inl (err_wrap ErrCodeInternal ''failed to get kubernetes client'' [] e)
                 | Inr c \<Rightarrow> Inr c))"

definition collect_topology ::
  "(nat \<Rightarrow> go_error option) \<Rightarrow> api_server option \<Rightarrow> api_server res \<Rightarrow> int \<Rightarrow> measurement res option" where
  "collect_topology ctx client_set kube maxn =
     (case ctx 0 of
        Some e \<Rightarrow> Some (Inl (err_wrap ErrCodeTimeout ''topology collector context cancelled'' [] e))
      | None \<Rightarrow>
          (case get_client client_set kube of
             Inl _ \<Rightarrow> Some (Inr empty_measurement)
           | Inr api \<Rightarrow>
               (case collect_pages ctx api 1 [] collect_init of
                  None \<Rightarrow> None
                | Some (Inl e) \<Rightarrow> Some (Inl e)
                | Some (Inr st) \<Rightarrow> Some (Inr (build_topology st maxn)))))"

subsection \<open>The listing of a server\<close>

text \<open>\<open>listing api k token pages\<close>: from request \<open>k\<close> with that token on, the server answers these pages, each token
  but the last one leading to the next page, and the last page has none.\<close>

inductive listing :: "api_server \<Rightarrow> nat \<Rightarrow> string \<Rightarrow> node list list \<Rightarrow> bool" for api where
  last_page: "api k token = Inr page \<Longrightarrow> np_Continue page = [] \<Longrightarrow> listing api k token [np_Items page]"
| next_page: "api k token = Inr page \<Longrightarrow> np_Continue page \<noteq> [] \<Longrightarrow> listing api (Suc k) (np_Continue page) pages
    \<Longrightarrow> listing api k token (np_Items page # pages)"

inductive_simps listing_iff: "listing api k token pages"

lemma listing_nonempty: "listing api k token pages \<Longrightarrow> pages \<noteq> []"
  by (induction rule: listing.induct) simp_all

lemma listing_unique: "listing api k token pages \<Longrightarrow> listing api k token pages' \<Longrightarrow> pages' = pages"
proof (induction arbitrary: pages' rule: listing.induct)
  case (last_page k token page)
  then show ?case by (auto simp: listing_iff [of _ k])
next
  case (next_page k token page pages)
  from next_page.prems next_page.hyps(1,2) obtain ps
    where "pages' = np_Items page # ps" "listing api (Suc k) (np_Continue page) ps"
    by (auto simp: listing_iff [of _ k])
  with next_page.IH show ?case by simp
qed

subsection \<open>Aggregation in one pass\<close>

lemma fold_nodes:
  "foldl fold_node st ns =
     \<lparr>cs_Taints = foldl (\<lambda>m n. foldl (add_carrier (nd_Name n)) m (taint_ids n)) (cs_Taints st) ns,
      cs_Labels = foldl (\<lambda>m n. foldl (add_carrier (nd_Name n)) m (label_ids n)) (cs_Labels st) ns,
      cs_NodeCount = cs_NodeCount st + length ns\<rparr>"
  by (induction ns arbitrary: st) (simp_all add: fold_node_def)

lemma build_topology_collect: "build_topology (foldl fold_node collect_init (concat pages)) maxn = collect pages maxn"
  by (simp add: build_topology_def collect_def sort_carriers_def aggregate_def fold_nodes collect_init_def Let_def)

subsection \<open>The loop ends, and with what\<close>

lemma collect_pages_steps:
  "ctx k = Some e \<Longrightarrow>
    collect_pages ctx api k token st = Some (Inl (err_wrap ErrCodeTimeout ''topology collection interrupted'' [] e))"
  "ctx k = None \<Longrightarrow> api k token = Inl e \<Longrightarrow>
    collect_pages ctx api k token st = Some (Inl (err_wrap ErrCodeInternal ''failed to list nodes'' [] e))"
  "ctx k = None \<Longrightarrow> api k token = Inr page \<Longrightarrow> np_Continue page = [] \<Longrightarrow>
    collect_pages ctx api k token st = Some (Inr (foldl fold_node st (np_Items page)))"
  "ctx k = None \<Longrightarrow> api k token = Inr page \<Longrightarrow> np_Continue page \<noteq> [] \<Longrightarrow>
    collect_pages ctx api k token st =
      collect_pages ctx api (Suc k) (np_Continue page) (foldl fold_node st (np_Items page))"
  by (subst collect_pages.simps, simp)+

text \<open>What the loop has to return when it succeeds: every page of the server, all asked before the context expired.\<close>

definition listed :: "(nat \<Rightarrow> go_error option) \<Rightarrow> api_server \<Rightarrow> nat \<Rightarrow> string \<Rightarrow> node list list \<Rightarrow> bool" where
  "listed ctx api k token pages \<longleftrightarrow> listing api k token pages \<and> (\<forall>i < length pages. ctx (k + i) = None)"

lemma listed_expired:
  assumes e: "ctx k = Some e"
  shows "\<not> listed ctx api k token pages"
proof
  assume l: "listed ctx api k token pages"
  then have "0 < length pages" using listing_nonempty [of api k token pages] by (simp add: listed_def)
  then have "ctx (k + 0) = None" using l unfolding listed_def by blast
  with e show False by simp
qed

lemma listed_failed: "api k token = Inl e \<Longrightarrow> \<not> listed ctx api k token pages"
  unfolding listed_def by (subst listing_iff) simp

lemma listed_last:
  assumes "ctx k = None" and "api k token = Inr page" and "np_Continue page = []"
  shows "listed ctx api k token pages \<longleftrightarrow> pages = [np_Items page]"
  unfolding listed_def using assms by (subst listing_iff) auto

lemma listed_more:
  assumes "ctx k = None" and "api k token = Inr page" and "np_Continue page \<noteq> []"
  shows "listed ctx api k token pages \<longleftrightarrow>
    (\<exists>ps. pages = np_Items page # ps \<and> listed ctx api (Suc k) (np_Continue page) ps)"
proof -
  have steps: "(\<forall>i < length (np_Items page # ps). ctx (k + i) = None) \<longleftrightarrow> (\<forall>i < length ps. ctx (Suc k + i) = None)" for ps
    using assms(1) by (simp add: All_less_Suc2)
  have "listing api k token pages \<longleftrightarrow>
      (\<exists>ps. pages = np_Items page # ps \<and> listing api (Suc k) (np_Continue page) ps)"
    using assms(2,3) by (subst listing_iff) simp
  then show ?thesis unfolding listed_def using steps by (metis (no_types, lifting))
qed

definition loop_result :: "(nat \<Rightarrow> go_error option) \<Rightarrow> api_server \<Rightarrow> nat \<Rightarrow> string \<Rightarrow> collect_state \<Rightarrow> collect_state res \<Rightarrow> bool" where
  "loop_result ctx api k token st r \<longleftrightarrow>
     (case r of
        Inr st' \<Rightarrow> \<exists>pages. listed ctx api k token pages \<and> st' = foldl fold_node st (concat pages)
      | Inl e \<Rightarrow> (\<forall>pages. \<not> listed ctx api k token pages) \<and>
          (\<exists>j token' c. ctx j = Some c \<and> e = err_wrap ErrCodeTimeout ''topology collection interrupted'' [] c \<or>
             api j token' = Inl c \<and> e = err_wrap ErrCodeInternal ''failed to list nodes'' [] c))"

text \<open>When the context expires at some later request, the loop returns, with the listing of the server or with an error.\<close>

lemma collect_pages_ends:
  "ctx (k + d) \<noteq> None \<Longrightarrow> \<exists>r. collect_pages ctx api k token st = Some r \<and> loop_result ctx api k token st r"
proof (induction d arbitrary: k token st)
  case 0
  then obtain e where "ctx k = Some e" by auto
  then show ?case
    using collect_pages_steps(1) [of ctx k e] listed_expired [of ctx k e] by (auto simp: loop_result_def)
next
  case (Suc d)
  consider (expired) e where "ctx k = Some e" | (failed) e where "ctx k = None" "api k token = Inl e"
    | (last) page where "ctx k = None" "api k token = Inr page" "np_Continue page = []"
    | (more) page where "ctx k = None" "api k token = Inr page" "np_Continue page \<noteq> []"
    by (cases "ctx k"; cases "api k token") auto
  then show ?case
  proof cases
    case expired
    then show ?thesis
      using collect_pages_steps(1) [of ctx k e] listed_expired [of ctx k e] by (auto simp: loop_result_def)
  next
    case failed
    then show ?thesis
      using collect_pages_steps(2) [of ctx k api token e] listed_failed [of api k token e ctx] failed by (auto simp: loop_result_def)
  next
    case last
    then show ?thesis
      using collect_pages_steps(3) [of ctx k api token page] listed_last [of ctx k api token page] last by (auto simp: loop_result_def)
  next
    case more
    have "ctx (Suc k + d) \<noteq> None" using Suc.prems by simp
    from Suc.IH [OF this, of "np_Continue page" "foldl fold_node st (np_Items page)"]
    obtain r where r: "collect_pages ctx api (Suc k) (np_Continue page) (foldl fold_node st (np_Items page)) = Some r"
      and ok: "loop_result ctx api (Suc k) (np_Continue page) (foldl fold_node st (np_Items page)) r" by blast
    have "loop_result ctx api k token st r"
    proof (cases r)
      case (Inl e)
      with ok show ?thesis using listed_more [where ctx = ctx and k = k and api = api and token = token, OF more] by (simp add: loop_result_def)
    next
      case (Inr st')
      with ok obtain pages where "listed ctx api (Suc k) (np_Continue page) pages"
        "st' = foldl fold_node st (concat (np_Items page # pages))" by (auto simp: loop_result_def)
      with Inr show ?thesis using listed_more [where ctx = ctx and k = k and api = api and token = token, OF more] by (fastforce simp: loop_result_def)
    qed
    with r show ?thesis using collect_pages_steps(4) [where ctx = ctx and k = k and api = api and token = token, OF more] by simp
  qed
qed

text \<open>Without a deadline a server that always hands out another token holds the collector for ever.\<close>

lemma endless_server:
  assumes live: "\<And>k. ctx k = None" and more: "\<And>k token. api k token = Inr \<lparr>np_Items = [], np_Continue = ''next''\<rparr>"
  shows "collect_pages ctx api k token st = None"
proof -
  have False if r: "collect_pages ctx api k token st = Some r" for r
  proof -
    have "\<not> (ctx = ctx \<and> api = api)"
      by (rule collect_pages.raw_induct [where P = "\<lambda>c a _ _ _ _. \<not> (c = ctx \<and> a = api)", OF _ r])
        (fastforce simp: live more Let_def)
    then show False by simp
  qed
  then show ?thesis by (metis option.exhaust)
qed

text \<open>Property C25: collecting the topology ends, and with the whole cluster or nothing. The loop over the pages has no
  bound of its own; as soon as the context of the call expires at some check (it carries the timeout of the collector),
  \<open>Collect\<close> returns, whatever tokens the API server hands out. It returns a measurement exactly when there is no client
  (the empty measurement) or when every page up to the one without a token was answered before the context expired, and
  then the measurement is the one of all those nodes, page by page: never of a part of them. Otherwise it returns an
  error: a timeout that wraps the error of the context, or an internal error that wraps the one of the server.\<close>

theorem collect_ends_complete:
  assumes "ctx deadline = Some expired"
  shows "\<exists>r. collect_topology ctx client_set kube maxn = Some r \<and>
    (\<forall>m. r = Inr m \<longleftrightarrow> ctx 0 = None \<and>
       (case get_client client_set kube of
          Inl _ \<Rightarrow> m = empty_measurement
        | Inr api \<Rightarrow> \<exists>pages. listing api 1 [] pages \<and> (\<forall>i < length pages. ctx (Suc i) = None) \<and> m = collect pages maxn)) \<and>
    (\<forall>e. r = Inl e \<longrightarrow>
       (\<exists>k c msg. ctx k = Some c \<and> e = err_wrap ErrCodeTimeout msg [] c) \<or>
       (\<exists>k token c api. get_client client_set kube = Inr api \<and> api k token = Inl c \<and>
          e = err_wrap ErrCodeInternal ''failed to list nodes'' [] c))"
proof (cases "ctx 0")
  case (Some c)
  then show ?thesis by (auto simp: collect_topology_def)
next
  case live: None
  show ?thesis
  proof (cases "get_client client_set kube")
    case (Inl e)
    with live show ?thesis by (auto simp: collect_topology_def)
  next
    case (Inr api)
    obtain d where "deadline = 1 + d" using assms live by (cases deadline) auto
    with assms obtain r where r: "collect_pages ctx api 1 [] collect_init = Some r"
      and ok: "loop_result ctx api 1 [] collect_init r" using collect_pages_ends [of ctx 1 d api "[]" collect_init] by auto
    show ?thesis
    proof (cases r)
      case e: (Inl e)
      from ok e have none: "\<And>pages. \<not> listed ctx api 1 [] pages"
        and err: "\<exists>j token' c. ctx j = Some c \<and> e = err_wrap ErrCodeTimeout ''topology collection interrupted'' [] c \<or>
             api j token' = Inl c \<and> e = err_wrap ErrCodeInternal ''failed to list nodes'' [] c"
        by (simp_all add: loop_result_def)
      have "collect_topology ctx client_set kube maxn = Some (Inl e)" using live Inr r e by (simp add: collect_topology_def)
      then show ?thesis using none err live Inr by (auto simp: listed_def)
    next
      case st: (Inr st)
      with ok obtain pages where pages: "listed ctx api 1 [] pages" "st = foldl fold_node collect_init (concat pages)"
        by (auto simp: loop_result_def)
      have run: "collect_topology ctx client_set kube maxn = Some (Inr (collect pages maxn))"
        using live Inr r st pages(2) by (simp add: collect_topology_def build_topology_collect)
      have "listing api 1 [] pages' \<Longrightarrow> pages' = pages" for pages'
        using listing_unique pages(1) by (auto simp: listed_def)
      then show ?thesis using run pages(1) live Inr by (auto simp: listed_def)
    qed
  qed
qed

text \<open>A cluster of two pages, read before the context expires.\<close>

definition paged_node :: "string \<Rightarrow> node" where
  "paged_node name = \<lparr>nd_Name = name, nd_Labels = [(''pool'', ''gpu'')], nd_Taints = []\<rparr>"

definition paged_api :: api_server where
  "paged_api k token =
     (if token = [] then Inr \<lparr>np_Items = [paged_node ''n1''], np_Continue = ''c2''\<rparr>
      else if token = ''c2'' then Inr \<lparr>np_Items = [paged_node ''n2''], np_Continue = []\<rparr>
      else Inl (PlainError ''expired token''))"

definition expires_at :: "nat \<Rightarrow> nat \<Rightarrow> go_error option" where
  "expires_at n k = (if k < n then None else Some CtxDeadlineExceeded)"

lemma paged_listing: "listing paged_api 1 [] [[paged_node ''n1''], [paged_node ''n2'']]"
  by (subst listing_iff, simp add: paged_api_def, subst listing_iff, simp add: paged_api_def)

theorem collect_ends_complete_witness:
  "collect_topology (expires_at 3) (Some paged_api) (Inl CtxCanceled) 0 =
     Some (Inr (collect [[paged_node ''n1''], [paged_node ''n2'']] 0)) \<and>
   (\<exists>e. collect_topology (expires_at 2) (Some paged_api) (Inl CtxCanceled) 0 = Some (Inl e))"
proof
  let ?ps = "[[paged_node ''n1''], [paged_node ''n2'']]"
  let ?run = "\<lambda>n. collect_topology (expires_at n) (Some paged_api) (Inl CtxCanceled) 0"
  have only: "listing paged_api 1 [] ps \<longleftrightarrow> ps = ?ps" for ps
    using listing_unique [OF paged_listing] paged_listing by blast
  have expires_at_now: "expires_at n n = Some CtxDeadlineExceeded" for n by (simp add: expires_at_def)
  have total: "\<exists>r. ?run n = Some r \<and> (\<forall>m. r = Inr m \<longleftrightarrow> expires_at n 0 = None \<and>
      (\<forall>i < length ?ps. expires_at n (Suc i) = None) \<and> m = collect ?ps 0)" for n
    using collect_ends_complete [where ctx = "expires_at n" and deadline = n and expired = CtxDeadlineExceeded
        and client_set = "Some paged_api" and kube = "Inl CtxCanceled" and maxn = 0]
    by (simp add: get_client_def only expires_at_now del: One_nat_def all_simps) blast
  show "?run 3 = Some (Inr (collect ?ps 0))" using total [of 3] by (auto simp: expires_at_def)
  have "\<not> (\<forall>i < length ?ps. expires_at 2 (Suc i) = None)" by (auto simp: expires_at_def intro!: exI [of _ 1])
  then obtain r where r: "?run 2 = Some r" "\<And>m. r \<noteq> Inr m" using total [of 2] by blast
  then show "\<exists>e. ?run 2 = Some (Inl e)" by (cases r) auto
qed

end
