(* ===== verification/Fingerprint.thy ===== *)
theory Fingerprint
  imports Constraint_Eval Criteria
begin

section \<open>Cluster fingerprints (pkg/fingerprint)\<close>

text \<open>
  A fingerprint is the identity of a cluster, derived from the measurements of a snapshot: service, accelerator, operating
  system, version, region, and two node counts. It answers a query (\<open>ToCriteria\<close>) and confirms or refutes the
  criteria of a recipe dimension by dimension (\<open>Match\<close>). Product names are ASCII text. Nothing here fails: a
  reading that is missing or cannot be decoded leaves its dimension empty.
\<close>

subsection \<open>Types (types.go)\<close>

record dimension =
  dm_Value :: string
  dm_Source :: string
  dm_Note :: string

record int_dimension =
  im_Value :: int
  im_Source :: string

record os_dimension =
  od_Value :: string
  od_Version :: string
  od_Source :: string

record fingerprint =
  fp_Service :: dimension
  fp_Accelerator :: dimension
  fp_GPUModel :: dimension
  fp_OS :: os_dimension
  fp_K8sVersion :: dimension
  fp_Region :: dimension
  fp_NodeCount :: int_dimension
  fp_GPUNodeCount :: int_dimension

definition no_dimension :: dimension where
  "no_dimension = \<lparr>dm_Value = [], dm_Source = [], dm_Note = []\<rparr>"

definition empty_fingerprint :: fingerprint where
  "empty_fingerprint =
     \<lparr>fp_Service = no_dimension, fp_Accelerator = no_dimension, fp_GPUModel = no_dimension,
      fp_OS = \<lparr>od_Value = [], od_Version = [], od_Source = []\<rparr>, fp_K8sVersion = no_dimension, fp_Region = no_dimension,
      fp_NodeCount = \<lparr>im_Value = 0, im_Source = []\<rparr>, fp_GPUNodeCount = \<lparr>im_Value = 0, im_Source = []\<rparr>\<rparr>"

datatype dimension_match = DimensionMatched | DimensionMismatched | DimensionUnknown

datatype dimension_name =
    DimensionService | DimensionAccelerator | DimensionOS | DimensionIntent | DimensionPlatform | DimensionNodes

record dimension_diff =
  dd_Dimension :: dimension_name
  dd_RecipeRequires :: string
  dd_FingerprintProvides :: string
  dd_Match :: dimension_match

record match_result =
  mr_Matched :: bool
  mr_PerDimension :: "dimension_diff list"

definition find_dimension :: "match_result \<Rightarrow> dimension_name \<Rightarrow> dimension_diff option" where
  "find_dimension r name = find (\<lambda>d. dd_Dimension d = name) (mr_PerDimension r)"

subsection \<open>GPU product names (gpu\_sku.go)\<close>

definition upper_char :: "char \<Rightarrow> char" where
  "upper_char c = (let n = (of_char c :: nat) in if 97 \<le> n \<and> n \<le> 122 then char_of (n - 32) else c)"

definition to_upper :: "string \<Rightarrow> string" where
  "to_upper s = map upper_char s"

text \<open>\<open>strings.FieldsFunc\<close>: the runs of characters between separators.\<close>

definition fields_func :: "(char \<Rightarrow> bool) \<Rightarrow> string \<Rightarrow> string list" where
  "fields_func sep s = filter (\<lambda>w. w \<noteq> []) (split_on CHR '' '' (map (\<lambda>c. if sep c then CHR '' '' else c) s))"

definition tokenize_product_name :: "string \<Rightarrow> string list" where
  "tokenize_product_name model = fields_func (\<lambda>c. is_space c \<or> c = CHR ''-'') (to_upper model)"

definition contains_token_sequence :: "string list \<Rightarrow> string list \<Rightarrow> bool" where
  "contains_token_sequence tokens seq =
     (if length seq = 0 \<or> length seq > length tokens then False
      else list_ex (\<lambda>i. take (length seq) (drop i tokens) = seq) [0..<Suc (length tokens - length seq)])"

definition gpu_sku_registry :: "(string list \<times> string) list" where
  "gpu_sku_registry =
     [([''GB300''], ''gb300''), ([''GB200''], ''gb200''), ([''B200''], ''b200''), ([''H100''], ''h100''),
      ([''H200''], ''h200''), ([''A100''], ''a100''), ([''RTX'', ''PRO'', ''6000''], ''rtx-pro-6000''),
      ([''L40S''], ''l40s''), ([''L40''], ''l40'')]"

definition parse_gpu_sku :: "string \<Rightarrow> string" where
  "parse_gpu_sku model =
     (let tokens = tokenize_product_name model in
      if length tokens = 0 then []
      else (case find (\<lambda>(seq, _). contains_token_sequence tokens seq) gpu_sku_registry of
              Some (_, sku) \<Rightarrow> sku
            | None \<Rightarrow> []))"

subsection \<open>From measurements (from\_measurements.go)\<close>

definition labelKeyRegion :: string where "labelKeyRegion = ''topology.kubernetes.io/region''"
definition labelKeyGPUProduct :: string where "labelKeyGPUProduct = ''nvidia.com/gpu.product''"
definition sourceServiceProvider :: string where "sourceServiceProvider = ''k8s.node.provider''"
definition sourceAcceleratorPCI :: string where "sourceAcceleratorPCI = ''gpu.hardware.model''"
definition sourceOSRelease :: string where "sourceOSRelease = ''os.release''"
definition sourceK8sServerVersion :: string where "sourceK8sServerVersion = ''k8s.server.version''"
definition sourceTopologyNodeCount :: string where "sourceTopologyNodeCount = ''nodeTopology.summary.node-count''"
definition sourceTopologyRegion :: string where "sourceTopologyRegion = ''nodeTopology.label.'' @ labelKeyRegion"
definition sourceTopologyGPU :: string where "sourceTopologyGPU = ''nodeTopology.label.'' @ labelKeyGPUProduct"
definition noteMultiRegion :: string where "noteMultiRegion = ''multi-region''"
definition noteMultiGPU :: string where "noteMultiGPU = ''multi-gpu''"
definition noteUnknownSKU :: string where "noteUnknownSKU = ''unknown-sku''"

lemmas notes_distinct = noteMultiGPU_def noteUnknownSKU_def noteMultiRegion_def

definition get_int64 :: "subtype \<Rightarrow> string \<Rightarrow> int res" where
  "get_int64 st key =
     (case map_of (st_Data st) key of
        None \<Rightarrow> Inl (err_new ErrCodeNotFound ''key %q not found'' [key])
      | Some r \<Rightarrow> (case reading_int r of
                     Some v \<Rightarrow> Inr v
                   | None \<Rightarrow> invalid ''key %q is not an integer'' [key]))"

text \<open>The value of a string reading, and the empty string where \<open>GetString\<close> fails.\<close>

definition string_or_empty :: "subtype \<Rightarrow> string \<Rightarrow> string" where
  "string_or_empty st key = (case get_string st key of Inr v \<Rightarrow> v | Inl _ \<Rightarrow> [])"

definition parse_label_encoding :: "string \<Rightarrow> string \<times> string" where
  "parse_label_encoding raw =
     (case char_index CHR ''|'' raw of
        Some i \<Rightarrow> (take i raw, drop (i + 1) raw)
      | None \<Rightarrow> (raw, []))"

definition has_multi_value_keys :: "subtype \<Rightarrow> string \<Rightarrow> bool" where
  "has_multi_value_keys st label \<longleftrightarrow> length (filter (\<lambda>(k, _). has_prefix k (label @ ''.'')) (st_Data st)) > 1"

definition distinct_label_values :: "subtype \<Rightarrow> string \<Rightarrow> string list" where
  "distinct_label_values st key =
     (case label_readings (Some st) of
        Inl _ \<Rightarrow> []
      | Inr readings \<Rightarrow>
          sort (foldl (\<lambda>values r.
                  if lr_Key r \<noteq> key then values
                  else if lr_Value r \<in> set values then values
                  else values @ [lr_Value r]) [] readings))"

definition normalize_provider_id :: "string \<Rightarrow> string" where
  "normalize_provider_id v =
     (if has_prefix v ''ocid1.'' then ''oke''
      else if has_prefix v ''oci://'' then ''oke''
      else if v = ''oci'' then ''oke''
      else if has_prefix v ''linode://'' then ''lke''
      else if v = ''linode'' then ''lke''
      else v)"

definition normalize_os_id :: "string \<Rightarrow> string" where
  "normalize_os_id s =
     (let v = to_lower (trim_space s) in
      if v = ''ubuntu'' then ''ubuntu''
      else if v \<in> {''rhel'', ''redhatenterpriselinux'', ''redhat''} then ''rhel''
      else if v = ''cos'' then ''cos''
      else if v \<in> {''amazonlinux'', ''amzn'', ''amazon'', ''al2'', ''al2023''} then ''amazonlinux''
      else if v = ''ol'' then ''ol''
      else if v = ''talos'' then ''talos''
      else [])"

definition populate_from_k8s :: "measurement \<Rightarrow> fingerprint \<Rightarrow> fingerprint" where
  "populate_from_k8s m fp =
     (let fp1 = (case get_subtype m ''server'' of
                   None \<Rightarrow> fp
                 | Some st \<Rightarrow>
                     (let v = string_or_empty st ''version'' in
                      if v = [] then fp
                      else fp \<lparr>fp_K8sVersion :=
                             \<lparr>dm_Value = trim_prefix v ''v'', dm_Source = sourceK8sServerVersion, dm_Note = []\<rparr>\<rparr>))
      in case get_subtype m ''node'' of
           None \<Rightarrow> fp1
         | Some st \<Rightarrow>
             (let v = string_or_empty st ''provider'' in
              if v = [] then fp1
              else fp1 \<lparr>fp_Service :=
                     \<lparr>dm_Value = normalize_provider_id v, dm_Source = sourceServiceProvider, dm_Note = []\<rparr>\<rparr>))"

definition populate_from_os :: "measurement \<Rightarrow> fingerprint \<Rightarrow> fingerprint" where
  "populate_from_os m fp =
     (case get_subtype m ''release'' of
        None \<Rightarrow> fp
      | Some st \<Rightarrow>
          (let kind = normalize_os_id (string_or_empty st ''ID'') in
           if kind = [] then fp
           else fp \<lparr>fp_OS := \<lparr>od_Value = kind, od_Version = string_or_empty st ''VERSION_ID'', od_Source = sourceOSRelease\<rparr>\<rparr>))"

text \<open>The node names of one folded entry, added to those seen.\<close>

definition see_nodes :: "string list \<Rightarrow> string \<Rightarrow> string list" where
  "see_nodes nodes node_list =
     (if node_list = [] then nodes
      else foldl (\<lambda>ns n. let n' = trim_space n in if n' = [] \<or> n' \<in> set ns then ns else ns @ [n'])
             nodes (split_on CHR '','' node_list))"

definition count_gpu_nodes_from_items :: "subtype \<Rightarrow> int" where
  "count_gpu_nodes_from_items st =
     (case label_readings (Some st) of
        Inl _ \<Rightarrow> 0
      | Inr readings \<Rightarrow> foldl (\<lambda>total r. if lr_Key r = labelKeyGPUProduct then total + lr_NodeCount r else total) 0 readings)"

definition count_gpu_nodes :: "subtype \<Rightarrow> int" where
  "count_gpu_nodes st =
     (if has_lossless_readings (Some st) then count_gpu_nodes_from_items st
      else int (length (foldl (\<lambda>nodes (k, v).
             if k \<noteq> labelKeyGPUProduct \<and> \<not> has_prefix k (labelKeyGPUProduct @ ''.'') then nodes
             else see_nodes nodes (snd (parse_label_encoding (reading_string v)))) [] (st_Data st))))"

definition extract_region :: "measurement \<Rightarrow> string \<times> bool" where
  "extract_region m =
     (case get_subtype m subtypeLabel of
        None \<Rightarrow> ([], False)
      | Some st \<Rightarrow>
          (if has_lossless_readings (Some st) then
             (case distinct_label_values st labelKeyRegion of
                [] \<Rightarrow> ([], False)
              | [v] \<Rightarrow> (v, False)
              | _ \<Rightarrow> ([], True))
           else if has_multi_value_keys st labelKeyRegion then ([], True)
           else
             (let raw = string_or_empty st labelKeyRegion in
              if raw = [] then ([], False) else (fst (parse_label_encoding raw), False))))"

definition populate_from_topology :: "measurement \<Rightarrow> fingerprint \<Rightarrow> fingerprint" where
  "populate_from_topology m fp =
     (let fp1 = (case get_subtype m ''summary'' of
                   None \<Rightarrow> fp
                 | Some st \<Rightarrow>
                     (case get_int64 st ''node-count'' of
                        Inl _ \<Rightarrow> fp
                      | Inr n \<Rightarrow> fp \<lparr>fp_NodeCount := \<lparr>im_Value = n, im_Source = sourceTopologyNodeCount\<rparr>\<rparr>));
          (region, multi) = extract_region m;
          fp2 = (if region \<noteq> [] then
                   fp1 \<lparr>fp_Region := \<lparr>dm_Value = region, dm_Source = sourceTopologyRegion, dm_Note = []\<rparr>\<rparr>
                 else if multi then
                   fp1 \<lparr>fp_Region := \<lparr>dm_Value = [], dm_Source = sourceTopologyRegion, dm_Note = noteMultiRegion\<rparr>\<rparr>
                 else fp1)
      in case get_subtype m subtypeLabel of
           None \<Rightarrow> fp2
         | Some st \<Rightarrow> fp2 \<lparr>fp_GPUNodeCount := \<lparr>im_Value = count_gpu_nodes st, im_Source = sourceTopologyGPU\<rparr>\<rparr>)"

text \<open>The end of both encodings: one product name, set unless the dimension says something already.\<close>

definition set_product :: "string \<Rightarrow> fingerprint \<Rightarrow> fingerprint" where
  "set_product product fp =
     (let sku = parse_gpu_sku product in
      if sku \<noteq> [] then fp \<lparr>fp_Accelerator := \<lparr>dm_Value = sku, dm_Source = sourceTopologyGPU, dm_Note = []\<rparr>\<rparr>
      else if dm_Note (fp_Accelerator fp) = [] then
        fp \<lparr>fp_Accelerator := \<lparr>dm_Value = [], dm_Source = sourceTopologyGPU, dm_Note = noteUnknownSKU\<rparr>\<rparr>
      else fp)"

definition multi_gpu :: dimension where
  "multi_gpu = \<lparr>dm_Value = [], dm_Source = sourceTopologyGPU, dm_Note = noteMultiGPU\<rparr>"

definition reconcile_accelerator_from_items :: "subtype \<Rightarrow> fingerprint \<Rightarrow> fingerprint" where
  "reconcile_accelerator_from_items st fp =
     (let values = distinct_label_values st labelKeyGPUProduct in
      if length values > 1 then fp \<lparr>fp_Accelerator := multi_gpu\<rparr>
      else if dm_Value (fp_Accelerator fp) \<noteq> [] \<or> length values = 0 then fp
      else set_product (hd values) fp)"

definition reconcile_accelerator :: "measurement \<Rightarrow> fingerprint \<Rightarrow> fingerprint" where
  "reconcile_accelerator topo fp =
     (case get_subtype topo subtypeLabel of
        None \<Rightarrow> fp
      | Some st \<Rightarrow>
          (if has_lossless_readings (Some st) then reconcile_accelerator_from_items st fp
           else if has_multi_value_keys st labelKeyGPUProduct then fp \<lparr>fp_Accelerator := multi_gpu\<rparr>
           else if dm_Value (fp_Accelerator fp) \<noteq> [] then fp
           else
             (let raw = string_or_empty st labelKeyGPUProduct in
              if raw = [] then fp else set_product (fst (parse_label_encoding raw)) fp)))"

definition is_supported_accelerator :: "string \<Rightarrow> bool" where
  "is_supported_accelerator sku \<longleftrightarrow> sku \<in> set (static_types FieldAccelerator)"

definition populate_pci_discovery :: "measurement \<Rightarrow> fingerprint \<Rightarrow> fingerprint" where
  "populate_pci_discovery gpu fp =
     (case get_subtype gpu ''hardware'' of
        None \<Rightarrow> fp
      | Some st \<Rightarrow>
          (let sku = string_or_empty st ''model'' in
           if sku = [] then fp
           else
             (let fp1 = fp \<lparr>fp_GPUModel := \<lparr>dm_Value = sku, dm_Source = sourceAcceleratorPCI, dm_Note = []\<rparr>\<rparr> in
              if dm_Value (fp_Accelerator fp1) \<noteq> [] \<or> dm_Note (fp_Accelerator fp1) = noteMultiGPU then fp1
              else if is_supported_accelerator sku then
                fp1 \<lparr>fp_Accelerator := \<lparr>dm_Value = sku, dm_Source = sourceAcceleratorPCI, dm_Note = []\<rparr>\<rparr>
              else if dm_Note (fp_Accelerator fp1) = [] then
                fp1 \<lparr>fp_Accelerator := \<lparr>dm_Value = [], dm_Source = sourceAcceleratorPCI, dm_Note = noteUnknownSKU\<rparr>\<rparr>
              else fp1)))"

text \<open>One measurement of the loop: the fingerprint so far, and the topology and GPU measurements kept for later.\<close>

definition scan_measurement ::
  "fingerprint \<times> measurement option \<times> measurement option \<Rightarrow> measurement option \<Rightarrow>
   fingerprint \<times> measurement option \<times> measurement option" where
  "scan_measurement acc mo =
     (case acc of (fp, topo, gpu) \<Rightarrow>
        (case mo of
           None \<Rightarrow> acc
         | Some m \<Rightarrow>
             (if mt_Type m = TypeK8s then (populate_from_k8s m fp, topo, gpu)
              else if mt_Type m = TypeGPU then (fp, topo, Some m)
              else if mt_Type m = TypeOS then (populate_from_os m fp, topo, gpu)
              else if mt_Type m = TypeNodeTopology then (populate_from_topology m fp, Some m, gpu)
              else acc)))"

definition from_measurements :: "measurement option list \<Rightarrow> fingerprint" where
  "from_measurements ms =
     (case foldl scan_measurement (empty_fingerprint, None, None) ms of (fp, topo, gpu) \<Rightarrow>
        (let fp1 = (case topo of None \<Rightarrow> fp | Some t \<Rightarrow> reconcile_accelerator t fp)
         in case gpu of None \<Rightarrow> fp1 | Some g \<Rightarrow> populate_pci_discovery g fp1))"

subsection \<open>Criteria (match.go, to\_criteria.go)\<close>

definition is_any :: "string \<Rightarrow> bool" where
  "is_any v \<longleftrightarrow> v = [] \<or> v = CriteriaAnyValue"

definition match_dim :: "dimension_name \<Rightarrow> string \<Rightarrow> string \<Rightarrow> bool \<Rightarrow> dimension_diff" where
  "match_dim name recipe_requires fingerprint_provides captured =
     \<lparr>dd_Dimension = name, dd_RecipeRequires = recipe_requires, dd_FingerprintProvides = fingerprint_provides,
      dd_Match =
        (if is_any recipe_requires then DimensionMatched
         else if \<not> captured then DimensionUnknown
         else if recipe_requires = fingerprint_provides then DimensionMatched
         else DimensionMismatched)\<rparr>"

definition match_fingerprint :: "fingerprint option \<Rightarrow> criteria option \<Rightarrow> match_result" where
  "match_fingerprint f0 c0 =
     (let c = (case c0 of None \<Rightarrow> new_criteria | Some c \<Rightarrow> c);
          f = (case f0 of None \<Rightarrow> empty_fingerprint | Some f \<Rightarrow> f);
          service = dm_Value (fp_Service f); accelerator = dm_Value (fp_Accelerator f); os = od_Value (fp_OS f);
          n = im_Value (fp_NodeCount f);
          recipe_nodes = (if c_Nodes c = 0 then [] else show_int (c_Nodes c));
          fp_nodes = (if n = 0 then [] else show_int n);
          diffs =
            [match_dim DimensionService (c_Service c) service (\<not> is_any service),
             match_dim DimensionAccelerator (c_Accelerator c) accelerator (\<not> is_any accelerator),
             match_dim DimensionOS (c_OS c) os (\<not> is_any os),
             match_dim DimensionIntent (c_Intent c) [] False,
             match_dim DimensionPlatform (c_Platform c) [] False,
             match_dim DimensionNodes recipe_nodes fp_nodes (n \<noteq> 0)]
      in \<lparr>mr_Matched = list_all (\<lambda>d. dd_Match d \<noteq> DimensionMismatched) diffs, mr_PerDimension = diffs\<rparr>)"

text \<open>\<open>known\<close> is what the registry knows (\<open>has_value\<close>), of a fresh one where the code was given none.\<close>

definition to_criteria :: "lookup \<Rightarrow> fingerprint option \<Rightarrow> criteria" where
  "to_criteria known f0 =
     (case f0 of
        None \<Rightarrow> new_criteria
      | Some f \<Rightarrow>
          (let take_field = (\<lambda>field v c. case parse_field field known v of Inr w \<Rightarrow> crit_set field w c | Inl _ \<Rightarrow> c);
               c = take_field FieldOS (od_Value (fp_OS f))
                     (take_field FieldAccelerator (dm_Value (fp_Accelerator f))
                       (take_field FieldService (dm_Value (fp_Service f)) new_criteria))
           in if im_Value (fp_NodeCount f) > 0 then c \<lparr>c_Nodes := im_Value (fp_NodeCount f)\<rparr> else c))"


subsection \<open>What it says of a cluster\<close>

text \<open>The part of a fingerprint that topology measurements write in the loop, and what the loop leaves to the end.\<close>

definition topology_view :: "fingerprint \<Rightarrow> int_dimension \<times> dimension \<times> int_dimension" where
  "topology_view fp = (fp_NodeCount fp, fp_Region fp, fp_GPUNodeCount fp)"

definition accelerator_view :: "fingerprint \<Rightarrow> dimension \<times> dimension" where
  "accelerator_view fp = (fp_Accelerator fp, fp_GPUModel fp)"

definition topologies :: "measurement option list \<Rightarrow> measurement list" where
  "topologies ms = filter (\<lambda>m. mt_Type m = TypeNodeTopology) (List.map_filter id ms)"

lemma topology_view_populate:
  "topology_view (populate_from_k8s m fp) = topology_view fp" "topology_view (populate_from_os m fp) = topology_view fp"
  "topology_view fp = topology_view fp' \<Longrightarrow>
     topology_view (populate_from_topology m fp) = topology_view (populate_from_topology m fp')"
  by (auto simp: topology_view_def populate_from_k8s_def populate_from_os_def populate_from_topology_def Let_def
      split: option.split sum.split prod.split)

lemma topology_view_reconcile:
  "topology_view (reconcile_accelerator m fp) = topology_view fp" "topology_view (populate_pci_discovery m fp) = topology_view fp"
  by (simp_all add: topology_view_def reconcile_accelerator_def reconcile_accelerator_from_items_def populate_pci_discovery_def
      set_product_def Let_def split: option.split)

lemma accelerator_view_populate:
  "accelerator_view (populate_from_k8s m fp) = accelerator_view fp" "accelerator_view (populate_from_os m fp) = accelerator_view fp"
  "accelerator_view (populate_from_topology m fp) = accelerator_view fp"
  by (auto simp: accelerator_view_def populate_from_k8s_def populate_from_os_def populate_from_topology_def Let_def
      split: option.split sum.split prod.split)

lemma scan_views:
  "foldl scan_measurement (fp, topo, gpu) ms = (fp', topo', gpu') \<Longrightarrow>
    topology_view fp' = topology_view (foldl (\<lambda>f m. populate_from_topology m f) fp (topologies ms)) \<and>
    topo' = (if topologies ms = [] then topo else Some (last (topologies ms))) \<and> accelerator_view fp' = accelerator_view fp"
proof (induction ms arbitrary: fp topo gpu)
  case Nil
  then show ?case by (simp add: topologies_def List.map_filter_def)
next
  case (Cons mo ms)
  have fold_cong: "topology_view (foldl (\<lambda>f m. populate_from_topology m f) a ts) =
      topology_view (foldl (\<lambda>f m. populate_from_topology m f) b ts)" if "topology_view a = topology_view b" for a b ts
    using that
  proof (induction ts arbitrary: a b)
    case (Cons t ts)
    show ?case using Cons.IH [OF topology_view_populate(3) [OF Cons.prems, of t]] by simp
  qed simp
  obtain fp1 topo1 gpu1 where step: "scan_measurement (fp, topo, gpu) mo = (fp1, topo1, gpu1)" by (metis prod_cases3)
  with Cons.prems have "foldl scan_measurement (fp1, topo1, gpu1) ms = (fp', topo', gpu')" by simp
  note IH = Cons.IH [OF this]
  show ?case
  proof (cases "\<exists>m. mo = Some m \<and> mt_Type m = TypeNodeTopology")
    case True
    then obtain m where m: "mo = Some m" "mt_Type m = TypeNodeTopology" by blast
    then have ts: "topologies (mo # ms) = m # topologies ms" by (simp add: topologies_def List.map_filter_def)
    from step m have "fp1 = populate_from_topology m fp" "topo1 = Some m"
      by (simp_all add: scan_measurement_def measurement_type_names)
    with IH show ?thesis by (simp add: ts accelerator_view_populate)
  next
    case False
    then have ts: "topologies (mo # ms) = topologies ms"
      by (cases mo) (auto simp: topologies_def List.map_filter_def)
    from step False have "topology_view fp1 = topology_view fp" "accelerator_view fp1 = accelerator_view fp" "topo1 = topo"
      by (auto simp: scan_measurement_def topology_view_populate accelerator_view_populate split: option.splits if_splits)
    with IH fold_cong [of fp1 fp] show ?thesis by (simp add: ts)
  qed
qed

text \<open>The values of a label on the nodes of a cluster, and how the readers of the subtype see them.\<close>

definition label_values :: "node list list \<Rightarrow> string \<Rightarrow> string set" where
  "label_values pages key = {v. carriers_of pages key v \<noteq> {}}"

definition labelled :: "node list list \<Rightarrow> string \<Rightarrow> node set" where
  "labelled pages key = {n \<in> set (concat pages). has_label n key}"

lemma fold_values:
  "distinct vs \<Longrightarrow>
    (let out = foldl (\<lambda>values r. if lr_Key r \<noteq> key then values else if lr_Value r \<in> set values then values
                                 else values @ [lr_Value r]) vs rs
     in distinct out \<and> set out = set vs \<union> lr_Value ` {r \<in> set rs. lr_Key r = key})"
  by (induction rs arbitrary: vs) (auto simp: Let_def)

lemma collected_readings:
  assumes "cluster_ok kv pages" "dns_names kv"
  shows "label_readings (Some (collected_labels pages maxn)) =
    Inr (map (label_reading_of (map fst (aggregate label_ids pages)) maxn) (sort_key label_order (aggregate label_ids pages)))"
  unfolding collected_labels_def by (rule label_readings_encoded [OF readings_ok [OF assms]])

lemma label_values_entries:
  "label_values pages key = (\<lambda>x. li_Value (fst x)) ` {x \<in> set (aggregate label_ids pages). li_Key (fst x) = key}"
proof (intro set_eqI iffI)
  fix v assume "v \<in> label_values pages key"
  then obtain n where "n \<in> set (concat pages)" "\<lparr>li_Key = key, li_Value = v\<rparr> \<in> set (label_ids n)"
    by (auto simp: label_values_def carriers_of_def label_ids_set)
  then show "v \<in> (\<lambda>x. li_Value (fst x)) ` {x \<in> set (aggregate label_ids pages). li_Key (fst x) = key}"
    using aggregate_member [of "(\<lparr>li_Key = key, li_Value = v\<rparr>, sort (carriers label_ids \<lparr>li_Key = key, li_Value = v\<rparr> (concat pages)))"]
    by (force intro: rev_image_eqI)
next
  fix v assume "v \<in> (\<lambda>x. li_Value (fst x)) ` {x \<in> set (aggregate label_ids pages). li_Key (fst x) = key}"
  then obtain x where x: "x \<in> set (aggregate label_ids pages)" "li_Key (fst x) = key" "li_Value (fst x) = v" by blast
  then obtain n where n: "n \<in> set (concat pages)" "fst x \<in> set (label_ids n)" by (auto simp: aggregate_member)
  then have "(li_Key (fst x), li_Value (fst x)) \<in> set (nd_Labels n)"
    using label_ids_set [of "li_Key (fst x)" "li_Value (fst x)" n] by (simp only: label_id_eta)
  then have "(key, v) \<in> set (nd_Labels n)" using x by simp
  with n show "v \<in> label_values pages key" by (auto simp: label_values_def carriers_of_def)
qed

lemma distinct_values_collected:
  assumes "cluster_ok kv pages" "dns_names kv"
  shows "distinct (distinct_label_values (collected_labels pages maxn) key)"
    and "set (distinct_label_values (collected_labels pages maxn) key) = label_values pages key"
  using fold_values [of "[]" key "map (label_reading_of (map fst (aggregate label_ids pages)) maxn)
      (sort_key label_order (aggregate label_ids pages))"]
  by (simp_all add: distinct_label_values_def collected_readings [OF assms] label_values_entries label_reading_of_def Let_def
      image_def conj_disj_distribR) auto

lemma fold_counts:
  "foldl (\<lambda>total r. if lr_Key r = key then total + lr_NodeCount r else total) a rs =
    a + sum_list (map lr_NodeCount (filter (\<lambda>r. lr_Key r = key) rs))"
  by (induction rs arbitrary: a) simp_all

text \<open>A node has one value of a label, so the values divide the nodes and their counts add up.\<close>

lemma entries_partition:
  fixes key :: string
  assumes ok: "cluster_ok kv pages"
  defines "entries \<equiv> {x \<in> set (aggregate label_ids pages). li_Key (fst x) = key}"
  shows "(\<Sum>x\<in>entries. length (snd x)) = card (labelled pages key)"
proof -
  have len: "length (snd x) = card (carriers_of pages key (li_Value (fst x)))" if "x \<in> entries" for x
    using that reading_nodes(2) [OF ok, of x] by (simp add: entries_def)
  have one: "li_Value (fst x) \<noteq> li_Value (fst y)" if xy: "x \<in> entries" "y \<in> entries" "x \<noteq> y" for x y
  proof
    assume "li_Value (fst x) = li_Value (fst y)"
    with xy have "fst x = fst y" by (intro label_id.equality) (simp_all add: entries_def)
    with xy show False by (simp add: entries_def aggregate_member prod_eq_iff)
  qed
  have "carriers_of pages key (li_Value (fst x)) \<inter> carriers_of pages key (li_Value (fst y)) = {}"
    if "x \<in> entries" "y \<in> entries" "x \<noteq> y" for x y
  proof -
    have "v = w" if "n \<in> set (concat pages)" "(key, v) \<in> set (nd_Labels n)" "(key, w) \<in> set (nd_Labels n)" for n v w
      using that ok by (metis cluster_ok_def eq_key_imp_eq_value)
    with one [OF that] show ?thesis by (auto simp: carriers_of_def)
  qed
  then have "card (\<Union>x\<in>entries. carriers_of pages key (li_Value (fst x))) =
      (\<Sum>x\<in>entries. card (carriers_of pages key (li_Value (fst x))))"
    by (intro card_UN_disjoint ballI impI) (simp_all add: entries_def carriers_of_def)
  moreover have "(\<Union>x\<in>entries. carriers_of pages key (li_Value (fst x))) = labelled pages key"
  proof -
    have "(\<Union>x\<in>entries. carriers_of pages key (li_Value (fst x))) = (\<Union>v\<in>label_values pages key. carriers_of pages key v)"
      unfolding label_values_entries entries_def by simp
    also have "\<dots> = labelled pages key"
      by (force simp: label_values_def labelled_def carriers_of_def has_label_def)
    finally show ?thesis .
  qed
  ultimately show ?thesis by (simp add: len)
qed

lemma counts_collected:
  assumes "cluster_ok kv pages" "dns_names kv"
  shows "count_gpu_nodes_from_items (collected_labels pages maxn) = int (card (labelled pages labelKeyGPUProduct))"
proof -
  let ?agg = "aggregate label_ids pages" and ?key = "\<lambda>x. li_Key (fst x) = labelKeyGPUProduct"
  have dist: "distinct ?agg" using aggregate_distinct [of label_ids pages] by (simp add: distinct_map)
  have "count_gpu_nodes_from_items (collected_labels pages maxn) =
      sum_list (map (\<lambda>x. int (length (snd x))) (filter ?key (sort_key label_order ?agg)))"
    by (simp add: count_gpu_nodes_from_items_def collected_readings [OF assms] fold_counts filter_map comp_def label_reading_of_def)
  also have "\<dots> = (\<Sum>x \<in> {x \<in> set ?agg. ?key x}. int (length (snd x)))"
    using dist by (simp add: sum_list_distinct_conv_sum_set)
  also have "\<dots> = int (card (labelled pages labelKeyGPUProduct))"
    using entries_partition [OF assms(1), of labelKeyGPUProduct] by (simp flip: of_nat_sum)
  finally show ?thesis .
qed

text \<open>A cluster without any label is written without records, and the folded readers see nothing either.\<close>

lemma collected_lossless: "has_lossless_readings (Some (collected_labels pages maxn)) \<longleftrightarrow> aggregate label_ids pages \<noteq> []"
  by (simp add: has_lossless_readings_def collected_labels_def label_subtype_def encode_label_items_def)

lemma no_labels:
  assumes "aggregate label_ids pages = []"
  shows "st_Data (collected_labels pages maxn) = []" "label_values pages key = {}" "labelled pages key = {}"
proof -
  show "st_Data (collected_labels pages maxn) = []" using assms by (simp add: collected_labels_def label_subtype_def encode_labels_def)
  show empty: "label_values pages key = {}" using assms by (simp add: label_values_entries)
  show "labelled pages key = {}" using empty by (force simp: label_values_def labelled_def carriers_of_def has_label_def)
qed

lemma count_collected:
  assumes "cluster_ok kv pages" "dns_names kv"
  shows "count_gpu_nodes (collected_labels pages maxn) = int (card (labelled pages labelKeyGPUProduct))"
  using counts_collected [OF assms] no_labels [of pages]
  by (cases "aggregate label_ids pages = []") (simp_all add: count_gpu_nodes_def collected_lossless)

lemma collected_subtypes:
  "get_subtype (collect pages maxn) subtypeLabel = Some (collected_labels pages maxn)"
  "\<exists>st. get_subtype (collect pages maxn) ''summary'' = Some st \<and> get_int64 st ''node-count'' = Inr (int (length (concat pages)))"
  by (simp_all add: collect_def Let_def get_subtype_def taint_subtype_def subtypeTaint_def collected_labels_def label_subtype_def
      subtypeLabel_def get_int64_def reading_int_def)

lemma region_collected:
  assumes "cluster_ok kv pages" "dns_names kv"
  shows "extract_region (collect pages maxn) =
    (if card (label_values pages labelKeyRegion) = 1 then (the_elem (label_values pages labelKeyRegion), False)
     else ([], card (label_values pages labelKeyRegion) > 1))"
proof (cases "aggregate label_ids pages = []")
  case True
  then show ?thesis using no_labels [OF True]
    by (simp add: extract_region_def collected_subtypes collected_lossless has_multi_value_keys_def string_or_empty_def
        get_string_def Let_def)
next
  case False
  define vs where "vs = distinct_label_values (collected_labels pages maxn) labelKeyRegion"
  have vs: "label_values pages labelKeyRegion = set vs" "distinct vs"
    unfolding vs_def using distinct_values_collected [OF assms] by simp_all
  have "extract_region (collect pages maxn) = (case vs of [] \<Rightarrow> ([], False) | [v] \<Rightarrow> (v, False) | _ \<Rightarrow> ([], True))"
    using False by (simp add: extract_region_def collected_subtypes collected_lossless vs_def)
  then show ?thesis using vs by (auto simp: distinct_card split: list.split)
qed

definition product_dimension :: "string set \<Rightarrow> dimension" where
  "product_dimension products =
     (if card products > 1 then multi_gpu
      else if card products = 0 then no_dimension
      else if parse_gpu_sku (the_elem products) \<noteq> []
           then \<lparr>dm_Value = parse_gpu_sku (the_elem products), dm_Source = sourceTopologyGPU, dm_Note = []\<rparr>
      else \<lparr>dm_Value = [], dm_Source = sourceTopologyGPU, dm_Note = noteUnknownSKU\<rparr>)"

lemma reconcile_collected:
  assumes "cluster_ok kv pages" "dns_names kv" and "accelerator_view fp = (no_dimension, no_dimension)"
  shows "accelerator_view (reconcile_accelerator (collect pages maxn) fp) =
    (product_dimension (label_values pages labelKeyGPUProduct), no_dimension)"
proof (cases "aggregate label_ids pages = []")
  case True
  then show ?thesis using no_labels [OF True] assms(3)
    by (simp add: reconcile_accelerator_def collected_subtypes collected_lossless has_multi_value_keys_def string_or_empty_def
        get_string_def Let_def product_dimension_def accelerator_view_def no_dimension_def)
next
  case False
  define vs where "vs = distinct_label_values (collected_labels pages maxn) labelKeyGPUProduct"
  have vs: "label_values pages labelKeyGPUProduct = set vs" "distinct vs"
    unfolding vs_def using distinct_values_collected [OF assms(1,2)] by simp_all
  have step: "reconcile_accelerator (collect pages maxn) fp =
      (if length vs > 1 then fp \<lparr>fp_Accelerator := multi_gpu\<rparr> else if length vs = 0 then fp else set_product (hd vs) fp)"
    using False assms(3)
    by (simp add: reconcile_accelerator_def reconcile_accelerator_from_items_def collected_subtypes collected_lossless
        flip: vs_def) (simp add: accelerator_view_def no_dimension_def Let_def)
  consider "vs = []" | v where "vs = [v]" | "length vs > 1" by (cases vs; cases "tl vs") auto
  then show ?thesis
    by cases (use assms(3) vs in \<open>simp_all add: step distinct_card product_dimension_def accelerator_view_def set_product_def
        no_dimension_def Let_def\<close>)
qed

lemma pci_accelerator:
  assumes "fp_GPUModel fp = no_dimension"
  shows "dm_Value (fp_Accelerator (populate_pci_discovery g fp)) =
      (if dm_Value (fp_Accelerator fp) \<noteq> [] \<or> dm_Note (fp_Accelerator fp) = noteMultiGPU then dm_Value (fp_Accelerator fp)
       else if is_supported_accelerator (dm_Value (fp_GPUModel (populate_pci_discovery g fp)))
            then dm_Value (fp_GPUModel (populate_pci_discovery g fp)) else [])"
    and "dm_Note (fp_Accelerator (populate_pci_discovery g fp)) = noteMultiGPU \<longleftrightarrow> dm_Note (fp_Accelerator fp) = noteMultiGPU"
proof -
  have none: "\<not> is_supported_accelerator []" by code_simp
  show "dm_Value (fp_Accelerator (populate_pci_discovery g fp)) =
      (if dm_Value (fp_Accelerator fp) \<noteq> [] \<or> dm_Note (fp_Accelerator fp) = noteMultiGPU then dm_Value (fp_Accelerator fp)
       else if is_supported_accelerator (dm_Value (fp_GPUModel (populate_pci_discovery g fp)))
            then dm_Value (fp_GPUModel (populate_pci_discovery g fp)) else [])"
    using assms none by (simp add: populate_pci_discovery_def Let_def no_dimension_def split: option.split)
  show "dm_Note (fp_Accelerator (populate_pci_discovery g fp)) = noteMultiGPU \<longleftrightarrow> dm_Note (fp_Accelerator fp) = noteMultiGPU"
    by (simp add: populate_pci_discovery_def Let_def notes_distinct split: option.split)
qed

lemma empty_views: "accelerator_view empty_fingerprint = (no_dimension, no_dimension)"
  by (simp add: accelerator_view_def empty_fingerprint_def)

lemma from_measurements_parts:
  obtains fp gpu where
    "topology_view fp = topology_view (foldl (\<lambda>f m. populate_from_topology m f) empty_fingerprint (topologies ms))"
    "accelerator_view fp = (no_dimension, no_dimension)"
    "from_measurements ms =
       (let fp1 = (if topologies ms = [] then fp else reconcile_accelerator (last (topologies ms)) fp)
        in case gpu of None \<Rightarrow> fp1 | Some g \<Rightarrow> populate_pci_discovery g fp1)"
proof -
  obtain fp topo gpu where f: "foldl scan_measurement (empty_fingerprint, None, None) ms = (fp, topo, gpu)" by (metis prod_cases3)
  from scan_views [OF f] show ?thesis
    by (intro that [of fp gpu]) (simp_all add: from_measurements_def f empty_views)
qed

text \<open>Property C37: the fingerprint says what the cluster is. On a snapshot with the topology that the collector writes of the
  nodes, among any other measurements and whatever the limit on listed nodes, the node count is the number of nodes and
  the GPU node count the number of nodes with a product label, also of those that the limit cut off. A region is stated
  exactly when all labelled nodes agree on it, else the note says they differ. With two products there is no accelerator,
  whatever the local GPU says; with one that is known it is that one; otherwise it is the model found on the bus, if
  recipes support it.\<close>

theorem fingerprint_of_cluster:
  assumes "cluster_ok kv pages" "dns_names kv" "topologies ms = [collect pages maxn]"
  shows "let fp = from_measurements ms; regions = label_values pages labelKeyRegion;
      products = label_values pages labelKeyGPUProduct; model = dm_Value (fp_GPUModel fp)
    in im_Value (fp_NodeCount fp) = int (length (concat pages)) \<and>
       im_Value (fp_GPUNodeCount fp) = int (card (labelled pages labelKeyGPUProduct)) \<and>
       dm_Value (fp_Region fp) = (if card regions = 1 then the_elem regions else []) \<and>
       (dm_Note (fp_Region fp) = noteMultiRegion \<longleftrightarrow> card regions > 1) \<and>
       dm_Value (fp_Accelerator fp) =
         (if card products > 1 then []
          else if card products = 1 \<and> parse_gpu_sku (the_elem products) \<noteq> [] then parse_gpu_sku (the_elem products)
          else if is_supported_accelerator model then model else []) \<and>
       (dm_Note (fp_Accelerator fp) = noteMultiGPU \<longleftrightarrow> card products > 1)"
proof -
  obtain fp gpu where parts:
    "topology_view fp = topology_view (populate_from_topology (collect pages maxn) empty_fingerprint)"
    "accelerator_view fp = (no_dimension, no_dimension)"
    "from_measurements ms = (case gpu of None \<Rightarrow> reconcile_accelerator (collect pages maxn) fp
       | Some g \<Rightarrow> populate_pci_discovery g (reconcile_accelerator (collect pages maxn) fp))"
    by (rule from_measurements_parts [of ms]) (simp add: assms(3) Let_def)
  define fp1 where "fp1 = reconcile_accelerator (collect pages maxn) fp"
  have acc: "fp_Accelerator fp1 = product_dimension (label_values pages labelKeyGPUProduct)" "fp_GPUModel fp1 = no_dimension"
    using reconcile_collected [OF assms(1,2) parts(2), of maxn] by (simp_all add: accelerator_view_def fp1_def)
  have view: "topology_view (from_measurements ms) = topology_view (populate_from_topology (collect pages maxn) empty_fingerprint)"
    unfolding parts(3) using parts(1) by (cases gpu) (simp_all add: topology_view_reconcile)
  obtain st where st: "get_subtype (collect pages maxn) ''summary'' = Some st"
      "get_int64 st ''node-count'' = Inr (int (length (concat pages)))" using collected_subtypes(2) by blast
  have top: "im_Value (fp_NodeCount (from_measurements ms)) = int (length (concat pages)) \<and>
      im_Value (fp_GPUNodeCount (from_measurements ms)) = int (card (labelled pages labelKeyGPUProduct)) \<and>
      dm_Value (fp_Region (from_measurements ms)) =
        (if card (label_values pages labelKeyRegion) = 1 then the_elem (label_values pages labelKeyRegion) else []) \<and>
      (dm_Note (fp_Region (from_measurements ms)) = noteMultiRegion \<longleftrightarrow> card (label_values pages labelKeyRegion) > 1)"
    using view
    by (auto simp: topology_view_def populate_from_topology_def st region_collected [OF assms(1,2)] collected_subtypes(1)
        count_collected [OF assms(1,2)] empty_fingerprint_def no_dimension_def noteMultiRegion_def Let_def)
  have none: "\<not> is_supported_accelerator []" by code_simp
  have "dm_Value (fp_Accelerator (from_measurements ms)) =
      (if dm_Value (fp_Accelerator fp1) \<noteq> [] \<or> dm_Note (fp_Accelerator fp1) = noteMultiGPU then dm_Value (fp_Accelerator fp1)
       else if is_supported_accelerator (dm_Value (fp_GPUModel (from_measurements ms)))
            then dm_Value (fp_GPUModel (from_measurements ms)) else []) \<and>
      (dm_Note (fp_Accelerator (from_measurements ms)) = noteMultiGPU \<longleftrightarrow> dm_Note (fp_Accelerator fp1) = noteMultiGPU)"
    unfolding parts(3) fp1_def [symmetric] using pci_accelerator [OF acc(2)] acc(2) none
    by (cases gpu) (simp_all add: no_dimension_def)
  then show ?thesis using top
    by (auto simp: Let_def acc(1) product_dimension_def multi_gpu_def no_dimension_def notes_distinct)
qed

text \<open>The small cluster has two products; with the device id of one of them the fingerprint still claims none.\<close>

definition product_node :: "string \<Rightarrow> string \<Rightarrow> node" where
  "product_node name product =
     \<lparr>nd_Name = name, nd_Labels = [(labelKeyGPUProduct, product), (labelKeyRegion, ''eu-1'')], nd_Taints = []\<rparr>"

definition product_cluster :: "node list list" where
  "product_cluster = [[product_node ''gpu-1'' ''NVIDIA-H100-80GB-HBM3'', product_node ''gpu-2'' ''NVIDIA-L40S''],
     [product_node ''gpu-3'' ''NVIDIA-L40S'']]"

definition gpu_measurement :: measurement where
  "gpu_measurement =
     \<lparr>mt_Type = TypeGPU, mt_Subtypes = [\<lparr>st_Name = ''hardware'', st_Data = [(''model'', ReadStr ''h100'')], st_Context = [], st_Items = []\<rparr>]\<rparr>"

lemma label_values_code:
  "label_values pages key =
    set (map (\<lambda>x. li_Value (fst x)) (filter (\<lambda>x. li_Key (fst x) = key) (aggregate label_ids pages)))"
  by (simp add: label_values_entries)

lemma label_values_product:
  "label_values product_cluster labelKeyGPUProduct = {''NVIDIA-H100-80GB-HBM3'', ''NVIDIA-L40S''}"
  "label_values product_cluster labelKeyRegion = {''eu-1''}"
  "card (labelled product_cluster labelKeyGPUProduct) = 3"
proof -
  show "label_values product_cluster labelKeyGPUProduct = {''NVIDIA-H100-80GB-HBM3'', ''NVIDIA-L40S''}"
    unfolding label_values_code by code_simp
  show "label_values product_cluster labelKeyRegion = {''eu-1''}" unfolding label_values_code by code_simp
  have "labelled product_cluster labelKeyGPUProduct = set (filter (\<lambda>n. has_label n labelKeyGPUProduct) (concat product_cluster))"
    by (auto simp: labelled_def)
  also have "card \<dots> = 3" by code_simp
  finally show "card (labelled product_cluster labelKeyGPUProduct) = 3" .
qed

theorem fingerprint_of_cluster_witness:
  "let fp = from_measurements [Some gpu_measurement, None, Some (collect product_cluster 1)]
   in im_Value (fp_GPUNodeCount fp) = 3 \<and> dm_Value (fp_Region fp) = ''eu-1'' \<and>
      dm_Value (fp_Accelerator fp) = [] \<and> dm_Note (fp_Accelerator fp) = noteMultiGPU"
proof -
  have ok: "cluster_ok plain_validators product_cluster" by code_simp
  have dns: "dns_names plain_validators" by (simp add: dns_names_def plain_validators_def node_name_def Let_def)
  have ts: "topologies [Some gpu_measurement, None, Some (collect product_cluster 1)] = [collect product_cluster 1]"
    by (simp add: topologies_def List.map_filter_def gpu_measurement_def measurement_type_names collect_def Let_def)
  show ?thesis
    using fingerprint_of_cluster [OF ok dns ts] by (simp add: label_values_product Let_def)
qed

subsection \<open>Fingerprint and recipe criteria\<close>

lemma supported_skus: "parse_gpu_sku product = [] \<or> is_supported_accelerator (parse_gpu_sku product)"
proof -
  have reg: "\<forall>e \<in> set gpu_sku_registry. is_supported_accelerator (snd e)" by code_simp
  show ?thesis
  proof (cases "find (\<lambda>(seq, _). contains_token_sequence (tokenize_product_name product) seq) gpu_sku_registry")
    case (Some e)
    then obtain i where "i < length gpu_sku_registry" "e = gpu_sku_registry ! i" unfolding find_Some_iff by blast
    then have "e \<in> set gpu_sku_registry" by (simp only: nth_mem)
    with reg Some show ?thesis by (cases e) (auto simp: parse_gpu_sku_def Let_def)
  qed (simp add: parse_gpu_sku_def Let_def)
qed

text \<open>The vocabulary: a fingerprint claims only what the criteria of recipes can name.\<close>

definition os_vocabulary :: "string list" where
  "os_vocabulary = [[], ''ubuntu'', ''rhel'', ''cos'', ''amazonlinux'', ''ol'', ''talos'']"

definition accelerator_ok :: "fingerprint \<Rightarrow> bool" where
  "accelerator_ok fp \<longleftrightarrow> dm_Value (fp_Accelerator fp) = [] \<or> is_supported_accelerator (dm_Value (fp_Accelerator fp))"

lemma os_ok_step:
  "od_Value (fp_OS fp) \<in> set os_vocabulary \<Longrightarrow> scan_measurement (fp, topo, gpu) mo = (fp', topo', gpu') \<Longrightarrow>
    od_Value (fp_OS fp') \<in> set os_vocabulary"
proof -
  have k8s: "fp_OS (populate_from_k8s m f) = fp_OS f" and top: "fp_OS (populate_from_topology m f) = fp_OS f" for m f
    by (auto simp: populate_from_k8s_def populate_from_topology_def Let_def split: option.split sum.split prod.split)
  have "normalize_os_id s \<in> set os_vocabulary" for s by (simp add: normalize_os_id_def os_vocabulary_def Let_def)
  then have os: "od_Value (fp_OS f) \<in> set os_vocabulary \<Longrightarrow> od_Value (fp_OS (populate_from_os m f)) \<in> set os_vocabulary" for m f
    by (simp add: populate_from_os_def Let_def split: option.split)
  show "od_Value (fp_OS fp) \<in> set os_vocabulary \<Longrightarrow> scan_measurement (fp, topo, gpu) mo = (fp', topo', gpu') \<Longrightarrow>
    od_Value (fp_OS fp') \<in> set os_vocabulary"
    by (auto simp: scan_measurement_def k8s top os split: option.splits if_splits)
qed

lemma os_ok_scan:
  "od_Value (fp_OS fp) \<in> set os_vocabulary \<Longrightarrow> foldl scan_measurement (fp, topo, gpu) ms = (fp', topo', gpu') \<Longrightarrow>
    od_Value (fp_OS fp') \<in> set os_vocabulary"
proof (induction ms arbitrary: fp topo gpu)
  case (Cons mo ms)
  obtain fp1 topo1 gpu1 where step: "scan_measurement (fp, topo, gpu) mo = (fp1, topo1, gpu1)" by (metis prod_cases3)
  show ?case using Cons.IH [OF os_ok_step [OF Cons.prems(1) step]] Cons.prems(2) step by simp
qed simp

lemma accelerator_ok_steps:
  "accelerator_ok fp \<Longrightarrow> accelerator_ok (reconcile_accelerator m fp)"
  "accelerator_ok fp \<Longrightarrow> accelerator_ok (populate_pci_discovery m fp)"
proof -
  assume ok: "accelerator_ok fp"
  have "accelerator_ok (set_product p fp)" for p
    using ok supported_skus [of p] by (auto simp: set_product_def accelerator_ok_def Let_def)
  with ok show "accelerator_ok (reconcile_accelerator m fp)"
    by (auto simp: reconcile_accelerator_def reconcile_accelerator_from_items_def Let_def accelerator_ok_def multi_gpu_def
        split: option.split)
  from ok show "accelerator_ok (populate_pci_discovery m fp)"
    by (auto simp: populate_pci_discovery_def Let_def accelerator_ok_def split: option.split)
qed

lemma fingerprint_vocabulary:
  "accelerator_ok (from_measurements ms)" "od_Value (fp_OS (from_measurements ms)) \<in> set os_vocabulary"
proof -
  obtain fp topo gpu where f: "foldl scan_measurement (empty_fingerprint, None, None) ms = (fp, topo, gpu)" by (metis prod_cases3)
  have "accelerator_view fp = (no_dimension, no_dimension)" using scan_views [OF f] empty_views by simp
  then have "accelerator_ok fp" by (simp add: accelerator_view_def accelerator_ok_def no_dimension_def)
  then show "accelerator_ok (from_measurements ms)"
    by (simp add: from_measurements_def f Let_def accelerator_ok_steps split: option.split)
  have e: "od_Value (fp_OS empty_fingerprint) \<in> set os_vocabulary" by (simp add: empty_fingerprint_def os_vocabulary_def)
  have rec: "fp_OS (reconcile_accelerator m g) = fp_OS g" and pci: "fp_OS (populate_pci_discovery m g) = fp_OS g" for m g
    by (simp_all add: reconcile_accelerator_def reconcile_accelerator_from_items_def populate_pci_discovery_def
        set_product_def Let_def split: option.split)
  show "od_Value (fp_OS (from_measurements ms)) \<in> set os_vocabulary"
    using os_ok_scan [OF e f] by (simp add: from_measurements_def f Let_def rec pci split: option.split)
qed

text \<open>The criteria of a fingerprint, field by field.\<close>

definition claimed :: "fingerprint \<Rightarrow> criteria_field \<Rightarrow> string" where
  "claimed fp field =
     (case field of
        FieldService \<Rightarrow> dm_Value (fp_Service fp) | FieldAccelerator \<Rightarrow> dm_Value (fp_Accelerator fp)
      | FieldOS \<Rightarrow> od_Value (fp_OS fp) | _ \<Rightarrow> [])"

lemma to_criteria_field:
  "crit_get f (to_criteria known (Some fp)) = (case parse_field f known (claimed fp f) of Inr w \<Rightarrow> w | Inl _ \<Rightarrow> ''any'')"
  by (cases f) (auto simp: to_criteria_def claimed_def Let_def split: sum.split)

text \<open>A value in normal form that is no alias is read as itself or as \<open>any\<close>.\<close>

definition canonical :: "criteria_field \<Rightarrow> string \<Rightarrow> bool" where
  "canonical f v \<longleftrightarrow> normalize_criteria_value v = v \<and> map_of (arms_of f) v \<in> {None, Some v, Some ''any''}"

lemma canonical_claim:
  assumes "canonical f (claimed fp f)" and "stated (crit_get f (to_criteria known (Some fp)))"
  shows "crit_get f (to_criteria known (Some fp)) = claimed fp f"
proof (cases "parse_field f known (claimed fp f)")
  case (Inl e)
  with assms(2) show ?thesis by (simp add: to_criteria_field stated_def CriteriaAnyValue_def)
next
  case (Inr w)
  then have w: "crit_get f (to_criteria known (Some fp)) = w" by (simp add: to_criteria_field)
  with assms Inr [unfolded parse_field_Inr] show ?thesis
    by (auto simp: canonical_def stated_def CriteriaAnyValue_def)
qed

lemma canonical_vocabulary:
  "canonical FieldAccelerator (claimed (from_measurements ms) FieldAccelerator)"
  "canonical FieldOS (claimed (from_measurements ms) FieldOS)"
  "canonical FieldIntent []" "canonical FieldPlatform []"
proof -
  have acc: "\<forall>v \<in> set ([] # static_types FieldAccelerator). canonical FieldAccelerator v" by code_simp
  have os: "\<forall>v \<in> set os_vocabulary. canonical FieldOS v" by code_simp
  show "canonical FieldAccelerator (claimed (from_measurements ms) FieldAccelerator)"
    using acc fingerprint_vocabulary(1) [of ms] by (auto simp: claimed_def accelerator_ok_def is_supported_accelerator_def)
  show "canonical FieldOS (claimed (from_measurements ms) FieldOS)"
    using os fingerprint_vocabulary(2) [of ms] by (simp add: claimed_def)
  show "canonical FieldIntent []" "canonical FieldPlatform []" by code_simp+
qed

lemma match_dim_confirmed:
  "dd_Match (match_dim name v w (\<not> is_any w)) = DimensionMatched \<longleftrightarrow> \<not> stated v \<or> v = w"
  "dd_Match (match_dim name v [] False) = DimensionMatched \<longleftrightarrow> \<not> stated v"
  "dd_Dimension (match_dim name v w b) = name"
  by (auto simp: match_dim_def is_any_def stated_def)

lemma show_int_inject: "show_int i = show_int j \<longleftrightarrow> i = j"
proof -
  have nat: "show_nat m = show_nat n \<longleftrightarrow> m = n" for m n by (metis digits_val_show_nat)
  have minus: "show_nat m \<noteq> CHR ''-'' # s" for m s
    using show_nat_first_digit [of m] by (auto simp: is_digit_def)
  show ?thesis by (auto simp: show_int_def nat minus minus [symmetric])
qed

lemma show_int_not_any: "\<not> is_any (show_int i)"
proof -
  have "show_nat m \<noteq> ''any''" for m using show_nat_first_digit [of m] by (auto simp: is_digit_def)
  then show ?thesis by (auto simp: is_any_def show_int_def CriteriaAnyValue_def)
qed

lemma match_nodes:
  "dd_Match (match_dim DimensionNodes (if i = 0 then [] else show_int i) (if n = 0 then [] else show_int n) (n \<noteq> 0))
    = DimensionMismatched \<longleftrightarrow> i \<noteq> 0 \<and> n \<noteq> 0 \<and> i \<noteq> n"
  by (simp add: match_dim_def show_int_not_any show_int_inject is_any_def [of "[]"])

text \<open>Property C38: what the fingerprint selects it also confirms. Criteria that match the query of the fingerprint, such as those
  of an overlay chosen for it or the query itself, are confirmed by the fingerprint in every dimension but the node count,
  with none unknown: a value that is claimed is read back as itself. The verdict then hangs on the node count alone, which
  matching ignores and the fingerprint compares. The service has to be in its normal form, since any text is
  claimed for it.\<close>

theorem fingerprint_confirms_selection:
  assumes "fp = from_measurements ms" and "canonical FieldService (dm_Value (fp_Service fp))"
    and "matches (Some c) (Some (to_criteria known (Some fp)))"
  shows "(\<forall>d \<in> set (mr_PerDimension (match_fingerprint (Some fp) (Some c))).
       dd_Dimension d \<noteq> DimensionNodes \<longrightarrow> dd_Match d = DimensionMatched) \<and>
    (mr_Matched (match_fingerprint (Some fp) (Some c)) \<longleftrightarrow>
       c_Nodes c = 0 \<or> im_Value (fp_NodeCount fp) = 0 \<or> c_Nodes c = im_Value (fp_NodeCount fp))"
proof -
  have can: "canonical f (claimed fp f)" for f
    using assms(1,2) canonical_vocabulary(1,2) [of ms] canonical_vocabulary(3,4) by (cases f) (simp_all add: claimed_def)
  have agree: "\<not> stated (crit_get f c) \<or> crit_get f c = claimed fp f" for f
  proof (cases "stated (crit_get f c)")
    case True
    with assms(3) have "crit_get f (to_criteria known (Some fp)) = crit_get f c" by (simp only: matches_iff)
    with True canonical_claim [OF can [of f], of known] show ?thesis by simp
  qed simp
  have none: "\<not> stated (c_Intent c)" "\<not> stated (c_Platform c)"
    using agree [of FieldIntent] agree [of FieldPlatform] by (auto simp: crit_get_def claimed_def stated_def)
  have conf: "\<not> stated (c_Service c) \<or> c_Service c = dm_Value (fp_Service fp)"
      "\<not> stated (c_Accelerator c) \<or> c_Accelerator c = dm_Value (fp_Accelerator fp)"
      "\<not> stated (c_OS c) \<or> c_OS c = od_Value (fp_OS fp)"
    using agree [of FieldService] agree [of FieldAccelerator] agree [of FieldOS] by (simp_all add: crit_get_def claimed_def)
  have dims:
    "dd_Match (match_dim name (c_Service c) (dm_Value (fp_Service fp)) (\<not> is_any (dm_Value (fp_Service fp)))) = DimensionMatched"
    "dd_Match (match_dim name (c_Accelerator c) (dm_Value (fp_Accelerator fp)) (\<not> is_any (dm_Value (fp_Accelerator fp))))
       = DimensionMatched"
    "dd_Match (match_dim name (c_OS c) (od_Value (fp_OS fp)) (\<not> is_any (od_Value (fp_OS fp)))) = DimensionMatched"
    "dd_Match (match_dim name (c_Intent c) [] False) = DimensionMatched"
    "dd_Match (match_dim name (c_Platform c) [] False) = DimensionMatched" for name
    using conf none by (simp_all only: match_dim_confirmed not_False_eq_True)
  show ?thesis
    by (simp add: match_fingerprint_def Let_def dims match_dim_confirmed(3) match_nodes)
qed

text \<open>A driverless node of a bare cluster on \<open>oci\<close>, and a recipe for its service and three nodes.\<close>

definition bare_measurements :: "measurement option list" where
  "bare_measurements =
     [Some gpu_measurement,
      Some \<lparr>mt_Type = TypeK8s, mt_Subtypes =
        [\<lparr>st_Name = ''node'', st_Data = [(''provider'', ReadStr ''oci'')], st_Context = [], st_Items = []\<rparr>]\<rparr>,
      Some \<lparr>mt_Type = TypeNodeTopology, mt_Subtypes =
        [\<lparr>st_Name = ''summary'', st_Data = [(''node-count'', ReadInt 4)], st_Context = [], st_Items = []\<rparr>]\<rparr>]"

definition no_registrations :: lookup where
  "no_registrations f v \<longleftrightarrow> False"

definition oke_recipe :: "int \<Rightarrow> criteria" where
  "oke_recipe nodes =
     \<lparr>c_Service = ''oke'', c_Accelerator = ''h100'', c_Intent = ''any'', c_OS = [], c_Platform = ''any'', c_Nodes = nodes\<rparr>"

theorem fingerprint_confirms_selection_witness:
  "(let fp = from_measurements bare_measurements
    in dm_Value (fp_Service fp) = ''oke'' \<and> mr_Matched (match_fingerprint (Some fp) (Some (oke_recipe 0))) \<and>
       \<not> mr_Matched (match_fingerprint (Some fp) (Some (oke_recipe 3))))"
proof -
  define fp where "fp = from_measurements bare_measurements"
  have s: "dm_Value (fp_Service fp) = ''oke''" unfolding fp_def by code_simp
  have n: "im_Value (fp_NodeCount fp) = 4" unfolding fp_def by code_simp
  have can: "canonical FieldService (dm_Value (fp_Service fp))" unfolding s by code_simp
  have sel: "matches (Some (oke_recipe 0)) (Some (to_criteria no_registrations (Some fp)))"
    "matches (Some (oke_recipe 3)) (Some (to_criteria no_registrations (Some fp)))"
    unfolding fp_def by code_simp+
  show ?thesis
    using fingerprint_confirms_selection [OF fp_def can sel(1)] fingerprint_confirms_selection [OF fp_def can sel(2)] s n
    by (simp add: fp_def [symmetric] oke_recipe_def Let_def)
qed

text \<open>What the comments promise and the code does not. The service is any text that the provider gives, so a fingerprint
  of \<open>openshift\<close> refutes the query that it answers itself; and a recipe for the worker nodes of a cluster is
  refuted by the nodes of its control plane, which are counted too.\<close>

definition provider_measurement :: "string \<Rightarrow> measurement" where
  "provider_measurement p =
     \<lparr>mt_Type = TypeK8s, mt_Subtypes =
        [\<lparr>st_Name = ''node'', st_Data = [(''provider'', ReadStr p)], st_Context = [], st_Items = []\<rparr>]\<rparr>"

theorem service_not_normalized:
  "let fp = from_measurements [Some (provider_measurement ''openshift'')]
   in \<not> mr_Matched (match_fingerprint (Some fp) (Some (to_criteria no_registrations (Some fp))))"
  by code_simp

definition plain_node :: "string \<Rightarrow> (string \<times> string) list \<Rightarrow> node" where
  "plain_node name labels = \<lparr>nd_Name = name, nd_Labels = labels, nd_Taints = []\<rparr>"

theorem control_plane_counts_as_workers:
  "let fp = from_measurements [Some (collect [[plain_node ''cp-1'' [(''node-role.kubernetes.io/control-plane'', [])],
         plain_node ''worker-1'' [], plain_node ''worker-2'' []]] 0)];
       two_workers = new_criteria \<lparr>c_Nodes := 2\<rparr>
   in c_Nodes (to_criteria no_registrations (Some fp)) = 3 \<and>
      \<not> mr_Matched (match_fingerprint (Some fp) (Some two_workers))"
  by code_simp

end
