(* ===== verification/Allowlist.thy ===== *)
theory Allowlist
  imports Aicr_Errors
begin

section \<open>Signer allowlist (pkg/evidence/allowlist, SourceSlug of pkg/evidence/attestation)\<close>

text \<open>
  The trust root of the corroboration dashboard: which verified signers carry weight, and in
  which class. Strings are byte strings. \<open>sha\<close> (\<open>sha256.Sum256\<close>, on bytes), \<open>compile\<close>
  (\<open>regexp.Compile\<close>, giving the \<open>MatchString\<close> of the pattern) and \<open>decode\<close> (the strict YAML decoder)
  are arguments. \<open>file_read\<close> is what opening and reading at most a bounded number of bytes gives.
\<close>

subsection \<open>Source slugs\<close>

definition hex_encode :: "string \<Rightarrow> string" where
  "hex_encode bs = concat (map (\<lambda>b. [hex_digit (of_char b div 16), hex_digit (of_char b mod 16)]) bs)"

definition source_slug_length :: nat where
  "source_slug_length = 32"

definition source_slug :: "(string \<Rightarrow> string) \<Rightarrow> string \<Rightarrow> string \<Rightarrow> string res" where
  "source_slug sha issuer identity =
     (if issuer = [] \<or> identity = []
      then Inl (err_new ErrCodeInvalidRequest ''source slug requires non-empty issuer and identity'' [])
      else Inr (take source_slug_length (hex_encode (sha (issuer @ CHR 10 # identity)))))"

definition is_hex_slug :: "string \<Rightarrow> bool" where
  "is_hex_slug s =
     (length s = source_slug_length \<and>
      list_all (\<lambda>c. let n = (of_char c :: nat) in \<not> ((n < 48 \<or> n > 57) \<and> (n < 97 \<or> n > 102))) s)"

subsection \<open>Escapes in a pattern\<close>

text \<open>
  The loops skip the byte after a backslash; a backslash that ends the string escapes nothing.
\<close>

definition backslash :: char where
  "backslash = CHR 92"

fun index_unescaped :: "string \<Rightarrow> char \<Rightarrow> nat option" where
  "index_unescaped [] c = None"
| "index_unescaped [x] c = (if x = backslash then None else if x = c then Some 0 else None)"
| "index_unescaped (x # y # s) c =
     (if x = backslash then map_option (\<lambda>i. i + 2) (index_unescaped s c)
      else if x = c then Some 0
      else map_option Suc (index_unescaped (y # s) c))"

definition regex_meta :: string where
  "regex_meta = ''.*+?()[]{}|^$''"

fun first_unescaped_meta :: "string \<Rightarrow> nat option" where
  "first_unescaped_meta [] = None"
| "first_unescaped_meta [x] = (if x = backslash then None else if x \<in> set regex_meta then Some 0 else None)"
| "first_unescaped_meta (x # y # s) =
     (if x = backslash then map_option (\<lambda>i. i + 2) (first_unescaped_meta s)
      else if x \<in> set regex_meta then Some 0
      else map_option Suc (first_unescaped_meta (y # s)))"

fun unescape_regex :: "string \<Rightarrow> string" where
  "unescape_regex [] = []"
| "unescape_regex [x] = [x]"
| "unescape_regex (x # y # s) = (if x = backslash then y # unescape_regex s else x # unescape_regex (y # s))"

definition check_not_over_broad :: "string \<Rightarrow> string \<Rightarrow> unit res" where
  "check_not_over_broad i pattern =
     (if \<not> has_prefix pattern ''^'' \<or> \<not> has_suffix pattern ''$''
      then invalid ''allowlist entry %s identityPattern must be fully anchored with ^ and $'' [i]
      else
        (let body = butlast (tl pattern)
         in case index_unescaped body (CHR ''@'') of
              None \<Rightarrow> invalid ''allowlist entry %s identityPattern must contain an OIDC subject of the form <issuer-path>@<ref>'' [i]
            | Some at \<Rightarrow>
                (if first_unescaped_meta (take at body) \<noteq> None
                 then invalid ''allowlist entry %s identityPattern has a wildcard in the issuer/org/repo/workflow segment (over-broad)'' [i]
                 else Inr ())))"

definition literal_prefix :: "string \<Rightarrow> string" where
  "literal_prefix pattern =
     (let body = trim_suffix (trim_prefix pattern ''^'') ''$''
      in case index_unescaped body (CHR ''@'') of
           None \<Rightarrow> body
         | Some at \<Rightarrow> unescape_regex (take at body))"

subsection \<open>Entries\<close>

datatype signer_class = ClassFirstParty | ClassCommunity | ClassPartner

fun class_text :: "signer_class \<Rightarrow> string" where
  "class_text ClassFirstParty = ''first-party''"
| "class_text ClassCommunity = ''community''"
| "class_text ClassPartner = ''partner''"

record allow_entry =
  en_Label :: string
  en_Issuer :: string
  en_Source :: string
  en_IdentityPattern :: string

record allowlist =
  al_SchemaVersion :: string
  al_FirstParty :: "allow_entry list"
  al_Community :: "allow_entry list"
  al_Partner :: "allow_entry list"

type_synonym matcher = "string \<Rightarrow> bool"

record classified =
  cl_entry :: allow_entry
  cl_class :: signer_class
  cl_pattern :: "matcher option"

definition entry_id :: "allow_entry \<Rightarrow> string" where
  "entry_id e =
     (if en_Label e \<noteq> [] then en_Label e
      else if en_Source e \<noteq> [] then ''source '' @ en_Source e
      else ''pattern '' @ en_IdentityPattern e)"

definition validate_slug_entry :: "allow_entry \<Rightarrow> unit res" where
  "validate_slug_entry e =
     (if is_hex_slug (en_Source e) then Inr ()
      else invalid ''allowlist entry %s source must be a %s-character lowercase-hex slug'' [entry_id e, show_nat source_slug_length])"

definition validate_pattern_entry :: "(string \<Rightarrow> go_error + matcher) \<Rightarrow> allow_entry \<Rightarrow> matcher res" where
  "validate_pattern_entry compile e =
     res_bind (check_not_over_broad (entry_id e) (en_IdentityPattern e)) (\<lambda>_.
       res_wrap (err_wrap ErrCodeInvalidRequest ''allowlist entry %s has an invalid identityPattern'' [entry_id e])
         (compile (en_IdentityPattern e)))"

definition validate_entry :: "(string \<Rightarrow> go_error + matcher) \<Rightarrow> allow_entry \<Rightarrow> signer_class \<Rightarrow> matcher option res" where
  "validate_entry compile e class =
     (if en_Issuer e = []
      then invalid ''allowlist entry %s in %s is missing issuer'' [entry_id e, class_text class]
      else if (en_Source e = []) = (en_IdentityPattern e = [])
      then invalid ''allowlist entry %s must set exactly one of source or identityPattern'' [entry_id e]
      else if class = ClassFirstParty \<and> en_IdentityPattern e = []
      then invalid ''allowlist entry %s in %s must use identityPattern, not source'' [entry_id e, class_text class]
      else if (class = ClassCommunity \<or> class = ClassPartner) \<and> en_Source e = []
      then invalid ''allowlist entry %s in %s must use source, not identityPattern'' [entry_id e, class_text class]
      else if en_Source e \<noteq> [] then res_bind (validate_slug_entry e) (\<lambda>_. Inr None)
      else res_bind (validate_pattern_entry compile e) (\<lambda>p. Inr (Some p)))"

definition classify_group :: "(string \<Rightarrow> go_error + matcher) \<Rightarrow> classified list \<Rightarrow> signer_class \<times> allow_entry \<Rightarrow> classified list res" where
  "classify_group compile out = (\<lambda>(class, e).
     res_bind (validate_entry compile e class) (\<lambda>pat.
       Inr (out @ [\<lparr> cl_entry = e, cl_class = class, cl_pattern = pat \<rparr>])))"

definition tagged_entries :: "allowlist \<Rightarrow> (signer_class \<times> allow_entry) list" where
  "tagged_entries a =
     map (Pair ClassFirstParty) (al_FirstParty a) @ map (Pair ClassCommunity) (al_Community a) @
     map (Pair ClassPartner) (al_Partner a)"

definition classify_all :: "(string \<Rightarrow> go_error + matcher) \<Rightarrow> allowlist \<Rightarrow> classified list res" where
  "classify_all compile a = res_fold (classify_group compile) [] (tagged_entries a)"

subsection \<open>Disjointness\<close>

definition label_step :: "string list \<Rightarrow> classified \<Rightarrow> string list res" where
  "label_step seen c =
     (let l = en_Label (cl_entry c)
      in if l = [] then Inr seen
         else if l \<in> set seen then invalid ''allowlist has a duplicate entry label %s'' [l]
         else Inr (seen @ [l]))"

definition check_duplicate_labels :: "classified list \<Rightarrow> unit res" where
  "check_duplicate_labels cs = res_bind (res_fold label_step [] cs) (\<lambda>_. Inr ())"

record seen_entries =
  se_Source :: "(string \<times> string) list"
  se_Pattern :: "((string \<times> string) \<times> string) list"

definition disjoint_step :: "seen_entries \<Rightarrow> classified \<Rightarrow> seen_entries res" where
  "disjoint_step s c =
     (let e = cl_entry c
      in if en_Source e \<noteq> [] then
           (case map_of (se_Source s) (en_Source e) of
              Some prev \<Rightarrow> invalid ''allowlist entries %s and %s share the same source slug'' [prev, entry_id e]
            | None \<Rightarrow> Inr (s\<lparr>se_Source := upsert (en_Source e) (entry_id e) (se_Source s)\<rparr>))
         else
           (let k = (en_Issuer e, literal_prefix (en_IdentityPattern e))
            in case map_of (se_Pattern s) k of
                 Some prev \<Rightarrow> invalid ''allowlist entries %s and %s have overlapping identity patterns'' [prev, entry_id e]
               | None \<Rightarrow> Inr (s\<lparr>se_Pattern := upsert k (entry_id e) (se_Pattern s)\<rparr>)))"

definition check_disjoint :: "classified list \<Rightarrow> unit res" where
  "check_disjoint cs =
     res_bind (check_duplicate_labels cs) (\<lambda>_.
       res_bind (res_fold disjoint_step \<lparr> se_Source = [], se_Pattern = [] \<rparr> cs) (\<lambda>_. Inr ()))"

definition validate_allowlist :: "(string \<Rightarrow> go_error + matcher) \<Rightarrow> allowlist \<Rightarrow> unit res" where
  "validate_allowlist compile a =
     (if \<not> has_prefix (al_SchemaVersion a) ''1.0.'' \<and> al_SchemaVersion a \<noteq> ''1.0''
      then invalid ''unsupported allowlist schemaVersion %s (supports 1.0.x)'' [al_SchemaVersion a]
      else res_bind (classify_all compile a) check_disjoint)"

subsection \<open>Loading\<close>

definition size_ceiling :: nat where
  "size_ceiling = 1048576"

text \<open>
  \<open>body\<close> is \<open>io.ReadAll\<close> of the file, of which the limited reader passes one byte more than the
  ceiling; \<open>decode\<close> gives \<open>None\<close> for \<open>io.EOF\<close>, an empty document.
\<close>

definition load_allowlist ::
  "(string \<Rightarrow> go_error + matcher) \<Rightarrow> (string \<Rightarrow> go_error + allowlist option) \<Rightarrow>
   (go_error + (go_error + string)) \<Rightarrow> allowlist res" where
  "load_allowlist compile decode file =
     (case file of
        Inl err \<Rightarrow> Inl (err_wrap ErrCodeNotFound ''failed to open allowlist file'' [] err)
      | Inr (Inl err) \<Rightarrow> Inl (err_wrap ErrCodeInternal ''failed to read allowlist file'' [] err)
      | Inr (Inr contents) \<Rightarrow>
          (let body = take (size_ceiling + 1) contents
           in if length body > size_ceiling then invalid ''allowlist file exceeds size limit (1 MiB)'' []
              else
                (case decode body of
                   Inl err \<Rightarrow> Inl (err_wrap ErrCodeInvalidRequest ''allowlist file is not valid YAML'' [] err)
                 | Inr doc \<Rightarrow>
                     (let al = (case doc of Some a \<Rightarrow> a
                                | None \<Rightarrow> \<lparr> al_SchemaVersion = [], al_FirstParty = [], al_Community = [], al_Partner = [] \<rparr>)
                      in res_bind (validate_allowlist compile al) (\<lambda>_. Inr al)))))"

subsection \<open>Classification\<close>

definition slug_entry_for :: "string \<Rightarrow> string \<Rightarrow> classified \<Rightarrow> bool" where
  "slug_entry_for slug issuer c = (en_Source (cl_entry c) = slug \<and> en_Issuer (cl_entry c) = issuer)"

definition pattern_entry_for :: "string \<Rightarrow> string \<Rightarrow> classified \<Rightarrow> bool" where
  "pattern_entry_for issuer identity c =
     (case cl_pattern c of None \<Rightarrow> False | Some m \<Rightarrow> en_Issuer (cl_entry c) = issuer \<and> m identity)"

definition allowlist_classify ::
  "(string \<Rightarrow> string) \<Rightarrow> (string \<Rightarrow> go_error + matcher) \<Rightarrow> allowlist \<Rightarrow> string \<Rightarrow> string \<Rightarrow> (signer_class \<times> allow_entry) option" where
  "allowlist_classify sha compile a issuer identity =
     (case classify_all compile a of
        Inl _ \<Rightarrow> None
      | Inr all \<Rightarrow>
          (case (case source_slug sha issuer identity of
                   Inl _ \<Rightarrow> None
                 | Inr slug \<Rightarrow> find (slug_entry_for slug issuer) all) of
             Some c \<Rightarrow> Some (cl_class c, cl_entry c)
           | None \<Rightarrow> map_option (\<lambda>c. (cl_class c, cl_entry c)) (find (pattern_entry_for issuer identity) all)))"

subsection \<open>What a validated allowlist pins\<close>

definition entry_wf :: "(string \<Rightarrow> go_error + matcher) \<Rightarrow> signer_class \<Rightarrow> allow_entry \<Rightarrow> bool" where
  "entry_wf compile cls e \<longleftrightarrow>
     en_Issuer e \<noteq> [] \<and>
     (if cls = ClassFirstParty
      then en_Source e = [] \<and> en_IdentityPattern e \<noteq> [] \<and>
           is_ok (check_not_over_broad (entry_id e) (en_IdentityPattern e)) \<and> is_ok (compile (en_IdentityPattern e))
      else en_IdentityPattern e = [] \<and> is_hex_slug (en_Source e))"

definition compiled :: "(string \<Rightarrow> go_error + matcher) \<Rightarrow> allow_entry \<Rightarrow> matcher option" where
  "compiled compile e = (if en_Source e \<noteq> [] then None else case compile (en_IdentityPattern e) of Inl _ \<Rightarrow> None | Inr m \<Rightarrow> Some m)"

definition classify_entry :: "(string \<Rightarrow> go_error + matcher) \<Rightarrow> signer_class \<times> allow_entry \<Rightarrow> classified" where
  "classify_entry compile = (\<lambda>(cls, e). \<lparr> cl_entry = e, cl_class = cls, cl_pattern = compiled compile e \<rparr>)"

lemma slug_not_empty: "is_hex_slug s \<Longrightarrow> s \<noteq> []"
  by (auto simp: is_hex_slug_def source_slug_length_def)

lemma validate_entry_Inr:
  "validate_entry compile e cls = Inr p \<longleftrightarrow> entry_wf compile cls e \<and> p = compiled compile e"
  by (cases cls; cases "en_Source e = []"; cases "en_IdentityPattern e = []"; cases "compile (en_IdentityPattern e)")
    (auto simp: validate_entry_def entry_wf_def compiled_def validate_slug_entry_def validate_pattern_entry_def
       res_simps is_ok_iff dest: slug_not_empty)

lemma classify_fold:
  "res_fold (classify_group compile) out xs = Inr all \<longleftrightarrow>
     (\<forall>(cls, e) \<in> set xs. entry_wf compile cls e) \<and> all = out @ map (classify_entry compile) xs"
proof (induction xs arbitrary: out)
  case (Cons x xs)
  obtain cls e where x: "x = (cls, e)" by (cases x)
  show ?case
  proof (cases "entry_wf compile cls e")
    case True
    then have "validate_entry compile e cls = Inr (compiled compile e)" by (simp add: validate_entry_Inr)
    then have "classify_group compile out x = Inr (out @ [classify_entry compile x])"
      by (simp add: x classify_group_def classify_entry_def)
    with True show ?thesis by (simp add: Cons.IH) (auto simp: x)
  next
    case False
    then obtain err where "validate_entry compile e cls = Inl err"
      using validate_entry_Inr [of compile e cls] by (cases "validate_entry compile e cls") auto
    with False show ?thesis by (simp add: x classify_group_def)
  qed
qed auto

lemma classify_all_Inr:
  "classify_all compile a = Inr all \<longleftrightarrow>
     (\<forall>(cls, e) \<in> set (tagged_entries a). entry_wf compile cls e) \<and> all = map (classify_entry compile) (tagged_entries a)"
  by (simp add: classify_all_def classify_fold)

definition class_entries :: "allowlist \<Rightarrow> signer_class \<Rightarrow> allow_entry list" where
  "class_entries a cls =
     (case cls of ClassFirstParty \<Rightarrow> al_FirstParty a | ClassCommunity \<Rightarrow> al_Community a | ClassPartner \<Rightarrow> al_Partner a)"

lemma tagged_iff: "(cls, e) \<in> set (tagged_entries a) \<longleftrightarrow> e \<in> set (class_entries a cls)"
  by (cases cls) (auto simp: tagged_entries_def class_entries_def)

lemma disjoint_fold_sources:
  assumes "res_fold disjoint_step s cs = Inr t"
  shows "distinct (filter (\<lambda>x. x \<noteq> []) (map (en_Source \<circ> cl_entry) cs)) \<and>
    (\<forall>c \<in> set cs. en_Source (cl_entry c) \<noteq> [] \<longrightarrow> en_Source (cl_entry c) \<notin> fst ` set (se_Source s))"
  using assms
proof (induction cs arbitrary: s)
  case (Cons c cs)
  then obtain u where u: "disjoint_step s c = Inr u" "res_fold disjoint_step u cs = Inr t"
    by (auto split: sum.splits)
  note IH = Cons.IH [OF u(2)]
  show ?case
  proof (cases "en_Source (cl_entry c) = []")
    case True
    then have "se_Source u = se_Source s"
      using u(1) by (auto simp: disjoint_step_def Let_def split: option.splits)
    with IH True show ?thesis by simp
  next
    case False
    then have fresh: "map_of (se_Source s) (en_Source (cl_entry c)) = None"
      and u_eq: "se_Source u = upsert (en_Source (cl_entry c)) (entry_id (cl_entry c)) (se_Source s)"
      using u(1) by (auto simp: disjoint_step_def Let_def split: option.splits)
    have upd: "fst ` set (se_Source u) = insert (en_Source (cl_entry c)) (fst ` set (se_Source s))"
      by (simp add: u_eq)
    from fresh have "en_Source (cl_entry c) \<notin> fst ` set (se_Source s)" by (simp add: map_of_eq_None_iff)
    with IH False upd show ?thesis by auto
  qed
qed simp

lemma distinct_filter_map:
  assumes "distinct (filter P (map f xs))" "x \<in> set xs" "y \<in> set xs" "P (f x)" "f x = f y"
  shows "x = y"
proof -
  from assms(1) have "inj_on f (set (filter (P \<circ> f) xs))" by (simp add: filter_map distinct_map comp_def)
  with assms(2-5) show ?thesis by (auto simp: inj_on_def)
qed

lemma validated_entries:
  assumes "validate_allowlist compile a = Inr ()"
  shows "classify_all compile a = Inr (map (classify_entry compile) (tagged_entries a))"
    and "e \<in> set (class_entries a cls) \<Longrightarrow> entry_wf compile cls e"
    and "e \<in> set (class_entries a cls) \<Longrightarrow> e' \<in> set (class_entries a cls') \<Longrightarrow>
      en_Source e \<noteq> [] \<Longrightarrow> en_Source e = en_Source e' \<Longrightarrow> cls = cls' \<and> e = e'"
proof -
  from assms obtain all where all: "classify_all compile a = Inr all" "check_disjoint all = Inr ()"
    by (auto simp: validate_allowlist_def res_simps split: if_splits)
  then show "classify_all compile a = Inr (map (classify_entry compile) (tagged_entries a))"
    and wf: "e \<in> set (class_entries a cls) \<Longrightarrow> entry_wf compile cls e"
    by (auto simp: classify_all_Inr simp flip: tagged_iff)
  from all have eq: "all = map (classify_entry compile) (tagged_entries a)" by (simp add: classify_all_Inr)
  from all(2) obtain t where "res_fold disjoint_step \<lparr> se_Source = [], se_Pattern = [] \<rparr> all = Inr t"
    by (auto simp: check_disjoint_def res_simps)
  from disjoint_fold_sources [OF this]
  have d: "distinct (filter (\<lambda>x. x \<noteq> []) (map (en_Source \<circ> snd) (tagged_entries a)))"
    by (simp add: eq classify_entry_def comp_def case_prod_unfold)
  show "cls = cls' \<and> e = e'"
    if "e \<in> set (class_entries a cls)" "e' \<in> set (class_entries a cls')" "en_Source e \<noteq> []" "en_Source e = en_Source e'"
    using distinct_filter_map [OF d, of "(cls, e)" "(cls', e')"] that by (simp add: tagged_iff)
qed

definition slug_listed :: "(string \<Rightarrow> string) \<Rightarrow> allow_entry \<Rightarrow> string \<Rightarrow> string \<Rightarrow> bool" where
  "slug_listed sha e issuer identity \<longleftrightarrow>
     en_Issuer e = issuer \<and> source_slug sha issuer identity = Inr (en_Source e)"

definition pattern_listed :: "(string \<Rightarrow> go_error + matcher) \<Rightarrow> allow_entry \<Rightarrow> string \<Rightarrow> string \<Rightarrow> bool" where
  "pattern_listed compile e issuer identity \<longleftrightarrow>
     en_Issuer e = issuer \<and> (\<exists>m. compile (en_IdentityPattern e) = Inr m \<and> m identity)"

lemma find_map_Some:
  "find P (map f xs) = Some y \<Longrightarrow> \<exists>x \<in> set xs. f x = y \<and> P y"
  by (auto simp: find_Some_iff)

lemma find_map_None: "find P (map f xs) = None \<longleftrightarrow> (\<forall>x \<in> set xs. \<not> P (f x))"
  by (auto simp: find_None_iff)

lemma hex_encode_Nil: "hex_encode bs = [] \<longleftrightarrow> bs = []"
  by (cases bs) (simp_all add: hex_encode_def)

lemma slug_found:
  assumes v: "validate_allowlist compile a = Inr ()" and sha: "\<forall>s. length (sha s) = 32"
    and slug: "source_slug sha issuer identity = Inr slug"
    and found: "find (slug_entry_for slug issuer) (map (classify_entry compile) (tagged_entries a)) = Some c"
  shows "cl_class c \<noteq> ClassFirstParty" "cl_entry c \<in> set (class_entries a (cl_class c))"
    "slug_listed sha (cl_entry c) issuer identity"
proof -
  from find_map_Some [OF found] obtain cls e where ce: "(cls, e) \<in> set (tagged_entries a)"
    "c = classify_entry compile (cls, e)" "slug_entry_for slug issuer c" by auto
  then have e: "cl_class c = cls" "cl_entry c = e" "en_Source e = slug" "en_Issuer e = issuer" "e \<in> set (class_entries a cls)"
    by (auto simp: slug_entry_for_def classify_entry_def tagged_iff)
  show "slug_listed sha (cl_entry c) issuer identity" "cl_entry c \<in> set (class_entries a (cl_class c))"
    using e slug by (simp_all add: slug_listed_def)
  have wf: "entry_wf compile cls e" by (rule validated_entries(2) [OF v e(5)])
  show "cl_class c \<noteq> ClassFirstParty"
  proof
    assume "cl_class c = ClassFirstParty"
    with wf e have "slug = []" "issuer \<noteq> []" by (auto simp: entry_wf_def)
    with slug have "sha (issuer @ CHR 10 # identity) = []"
      by (auto simp: source_slug_def source_slug_length_def hex_encode_Nil split: if_splits)
    with sha [rule_format, of "issuer @ CHR 10 # identity"] show False by simp
  qed
qed

definition listed :: "(string \<Rightarrow> string) \<Rightarrow> (string \<Rightarrow> go_error + matcher) \<Rightarrow> allowlist \<Rightarrow> signer_class \<Rightarrow> string \<Rightarrow> string \<Rightarrow> bool" where
  "listed sha compile a cls issuer identity \<longleftrightarrow>
     (\<exists>e \<in> set (class_entries a cls).
        if cls = ClassFirstParty then pattern_listed compile e issuer identity else slug_listed sha e issuer identity)"

lemma classify_slug_hit:
  assumes v: "validate_allowlist compile a = Inr ()" and "cls \<noteq> ClassFirstParty"
    and "listed sha compile a cls issuer identity"
  shows "\<exists>c slug. source_slug sha issuer identity = Inr slug \<and>
    find (slug_entry_for slug issuer) (map (classify_entry compile) (tagged_entries a)) = Some c"
proof -
  from assms(2,3) obtain e where e: "e \<in> set (class_entries a cls)" "slug_listed sha e issuer identity"
    by (auto simp: listed_def)
  then have "slug_entry_for (en_Source e) issuer (classify_entry compile (cls, e))"
    by (simp add: slug_entry_for_def classify_entry_def slug_listed_def)
  moreover have "(cls, e) \<in> set (tagged_entries a)" using e(1) by (simp add: tagged_iff)
  ultimately have "find (slug_entry_for (en_Source e) issuer) (map (classify_entry compile) (tagged_entries a)) \<noteq> None"
    by (auto simp: find_map_None)
  with e(2) show ?thesis by (auto simp: slug_listed_def)
qed

lemma pattern_entry_iff:
  assumes "entry_wf compile cls e"
  shows "pattern_entry_for issuer identity (classify_entry compile (cls, e)) \<longleftrightarrow>
    cls = ClassFirstParty \<and> pattern_listed compile e issuer identity"
  using assms slug_not_empty
  by (cases "compile (en_IdentityPattern e)")
    (auto simp: pattern_entry_for_def classify_entry_def compiled_def entry_wf_def pattern_listed_def split: if_splits)

lemma classify_Some:
  assumes v: "validate_allowlist compile a = Inr ()" and sha: "\<forall>s. length (sha s) = 32"
  shows "allowlist_classify sha compile a issuer identity = Some (cls, e) \<Longrightarrow> e \<in> set (class_entries a cls) \<and>
      (if cls = ClassFirstParty then pattern_listed compile e issuer identity else slug_listed sha e issuer identity)"
    and "allowlist_classify sha compile a issuer identity = None \<Longrightarrow> \<not> listed sha compile a c issuer identity"
    and "allowlist_classify sha compile a issuer identity = Some (ClassFirstParty, e) \<Longrightarrow> c \<noteq> ClassFirstParty \<Longrightarrow>
      \<not> listed sha compile a c issuer identity"
proof -
  let ?all = "map (classify_entry compile) (tagged_entries a)"
  note all = validated_entries(1) [OF v]
  let ?hit = "case source_slug sha issuer identity of Inl _ \<Rightarrow> None | Inr slug \<Rightarrow> find (slug_entry_for slug issuer) ?all"
  have cl: "allowlist_classify sha compile a issuer identity =
      (case ?hit of Some c \<Rightarrow> Some (cl_class c, cl_entry c)
       | None \<Rightarrow> map_option (\<lambda>c. (cl_class c, cl_entry c)) (find (pattern_entry_for issuer identity) ?all))"
    by (simp add: allowlist_classify_def all)
  have hit: "cl_class x \<noteq> ClassFirstParty \<and> cl_entry x \<in> set (class_entries a (cl_class x)) \<and> slug_listed sha (cl_entry x) issuer identity"
    if "?hit = Some x" for x
    using that slug_found [OF v sha] by (auto split: sum.splits)
  have miss: "\<not> listed sha compile a c issuer identity" if "?hit = None" "c \<noteq> ClassFirstParty" for c
    using classify_slug_hit [OF v that(2)] that(1) by fastforce
  have pat: "cl_class x = ClassFirstParty \<and> cl_entry x \<in> set (class_entries a (cl_class x)) \<and> pattern_listed compile (cl_entry x) issuer identity"
    if "find (pattern_entry_for issuer identity) ?all = Some x" for x
  proof -
    from find_map_Some [OF that] obtain kl e where ce: "(kl, e) \<in> set (tagged_entries a)" "x = classify_entry compile (kl, e)"
      "pattern_entry_for issuer identity x" by auto
    then have "e \<in> set (class_entries a kl)" by (simp add: tagged_iff)
    from pattern_entry_iff [OF validated_entries(2) [OF v this]] ce this show ?thesis
      by (simp add: classify_entry_def)
  qed
  have nopat: "\<not> listed sha compile a ClassFirstParty issuer identity" if "find (pattern_entry_for issuer identity) ?all = None"
  proof
    assume "listed sha compile a ClassFirstParty issuer identity"
    then obtain e where e: "e \<in> set (class_entries a ClassFirstParty)" "pattern_listed compile e issuer identity"
      by (auto simp: listed_def)
    with pattern_entry_iff [OF validated_entries(2) [OF v e(1)]] that show False
      by (auto simp: find_map_None simp flip: tagged_iff)
  qed
  show "e \<in> set (class_entries a cls) \<and>
      (if cls = ClassFirstParty then pattern_listed compile e issuer identity else slug_listed sha e issuer identity)"
    if "allowlist_classify sha compile a issuer identity = Some (cls, e)"
    using that hit pat by (cases ?hit) (auto simp: cl)
  show "\<not> listed sha compile a c issuer identity" if "allowlist_classify sha compile a issuer identity = None"
    using that miss nopat by (cases "c = ClassFirstParty"; cases ?hit) (auto simp: cl)
  show "\<not> listed sha compile a c issuer identity"
    if "allowlist_classify sha compile a issuer identity = Some (ClassFirstParty, e)" "c \<noteq> ClassFirstParty"
    using that hit miss by (cases ?hit) (auto simp: cl)
qed

text \<open>Property C31:
  A validated allowlist classifies a signer by what its entries pin, whatever their order.
  A community or partner signer is one whose source slug, the digest of its issuer and
  identity, is listed in that cls under its own issuer; no signer is in both. A first-party
  signer is one that no slug lists and whose identity matches a first-party pattern of its
  issuer. Any other signer is not classified.\<close>

theorem classify_exact:
  assumes v: "validate_allowlist compile a = Inr ()" and sha: "\<forall>s. length (sha s) = 32"
  shows "(map_option fst (allowlist_classify sha compile a issuer identity) = Some cls \<longleftrightarrow>
      listed sha compile a cls issuer identity \<and>
      (cls = ClassFirstParty \<longrightarrow>
         \<not> listed sha compile a ClassCommunity issuer identity \<and> \<not> listed sha compile a ClassPartner issuer identity)) \<and>
    \<not> (listed sha compile a ClassCommunity issuer identity \<and> listed sha compile a ClassPartner issuer identity)"
proof -
  have excl: "c = c'" if "listed sha compile a c issuer identity" "listed sha compile a c' issuer identity"
    "c \<noteq> ClassFirstParty" "c' \<noteq> ClassFirstParty" for c c'
  proof -
    from that obtain e e' where e: "e \<in> set (class_entries a c)" "e' \<in> set (class_entries a c')"
      "slug_listed sha e issuer identity" "slug_listed sha e' issuer identity" by (auto simp: listed_def)
    have "entry_wf compile c e" by (rule validated_entries(2) [OF v e(1)])
    with that(3) have "en_Source e \<noteq> []" using slug_not_empty by (auto simp: entry_wf_def)
    with validated_entries(3) [OF v e(1,2)] e(3,4) show ?thesis by (simp add: slug_listed_def)
  qed
  show ?thesis
  proof (cases "allowlist_classify sha compile a issuer identity")
    case None
    with classify_Some(2) [OF v sha None] show ?thesis by simp
  next
    case (Some p)
    obtain c e where p: "p = (c, e)" by (cases p)
    with classify_Some(1) [OF v sha, of issuer identity c e] Some have l: "listed sha compile a c issuer identity"
      unfolding listed_def by blast
    show ?thesis
    proof (cases "c = ClassFirstParty")
      case True
      with classify_Some(3) [OF v sha, of issuer identity e] Some p l show ?thesis by (cases cls) auto
    next
      case False
      with Some p l show ?thesis by (cases c; cases cls) (auto dest: excl)
    qed
  qed
qed

text \<open>A signer is classified only by a valid list: a list with a malformed entry classifies nobody.\<close>

lemma classify_fails_closed: "classify_all compile a = Inl err \<Longrightarrow> allowlist_classify sha compile a issuer identity = None"
  by (simp add: allowlist_classify_def)

text \<open>
  The anchoring check looks at the bytes left of the first unescaped at sign only. An
  alternative on its right, an escape that names a class of bytes on its left, and a final dollar sign
  that is escaped all pass, and two patterns with an at sign in common may escape it differently.
\<close>

lemma over_broad_patterns_pass:
  "check_not_over_broad i ''^ci@main|.*$'' = Inr ()"
  "check_not_over_broad i (''^ci/'' @ [backslash, CHR ''S'', backslash, CHR ''S''] @ ''@main$'') = Inr ()"
  "check_not_over_broad i (''^ci@main'' @ [backslash, CHR ''$'']) = Inr ()"
  "literal_prefix (''^a'' @ backslash # ''@b@c$'') \<noteq> literal_prefix ''^a@b@c$''"
  by (simp_all add: check_not_over_broad_def literal_prefix_def has_prefix_def has_suffix_def trim_suffix_def
      trim_prefix_def backslash_def regex_meta_def Let_def)

definition example_sha :: "string \<Rightarrow> string" where
  "example_sha s = take 32 (s @ replicate 32 (CHR ''x''))"

definition example_compile :: "string \<Rightarrow> go_error + matcher" where
  "example_compile p = (if p = ''^ci@main$'' then Inr (\<lambda>s. s = ''ci@main'') else Inl (PlainError ''syntax''))"

definition example_allowlist :: allowlist where
  "example_allowlist = \<lparr> al_SchemaVersion = ''1.0.0'',
     al_FirstParty = [\<lparr> en_Label = ''ci'', en_Issuer = ''iss'', en_Source = [], en_IdentityPattern = ''^ci@main$'' \<rparr>],
     al_Community = [\<lparr> en_Label = ''joe'', en_Issuer = ''iss'',
       en_Source = take 32 (hex_encode (example_sha (''iss'' @ CHR 10 # ''joe''))), en_IdentityPattern = [] \<rparr>],
     al_Partner = [] \<rparr>"

theorem classify_exact_witness:
  "listed example_sha example_compile example_allowlist ClassFirstParty ''iss'' ''ci@main'' \<and>
   listed example_sha example_compile example_allowlist ClassCommunity ''iss'' ''joe'' \<and>
   \<not> listed example_sha example_compile example_allowlist ClassCommunity ''iss'' ''ci@main'' \<and>
   \<not> listed example_sha example_compile example_allowlist ClassFirstParty ''other'' ''ci@main''"
proof -
  have v: "validate_allowlist example_compile example_allowlist = Inr ()" by code_simp
  have l: "\<forall>s. length (example_sha s) = 32" by (simp add: example_sha_def min_def)
  have "allowlist_classify example_sha example_compile example_allowlist ''iss'' ''ci@main'' \<noteq> None \<and>
      map_option fst (allowlist_classify example_sha example_compile example_allowlist ''iss'' ''ci@main'') = Some ClassFirstParty"
    "map_option fst (allowlist_classify example_sha example_compile example_allowlist ''iss'' ''joe'') = Some ClassCommunity"
    "map_option fst (allowlist_classify example_sha example_compile example_allowlist ''other'' ''ci@main'') = None"
    by code_simp+
  with classify_exact [OF v l, of "''iss''" "''ci@main''" ClassFirstParty]
    classify_exact [OF v l, of "''iss''" "''joe''" ClassCommunity]
    classify_exact [OF v l, of "''other''" "''ci@main''" ClassFirstParty]
    classify_exact [OF v l, of "''other''" "''ci@main''" ClassCommunity]
    classify_exact [OF v l, of "''other''" "''ci@main''" ClassPartner]
  show ?thesis by auto
qed

end
