(* ===== verification/Consensus.thy ===== *)
theory Consensus
  imports Allowlist
begin

section \<open>Consensus of signers on a test (pkg/corroborate: consensus.go)\<close>

text \<open>
  What several signers' runs of one test say together. The Go strings \<open>State\<close> and \<open>Result\<close> only
  ever hold their constants, so they are datatypes; \<open>state_text\<close> and \<open>result_text\<close> are their wire values.
\<close>

datatype cell_state = StateConfirmed | StateSingle | StateContested | StateFailing | StateUntested | StatePartial

datatype run_result = ResultPass | ResultFail | ResultNotRun

fun state_text :: "cell_state \<Rightarrow> string" where
  "state_text StateConfirmed = ''CONFIRMED''"
| "state_text StateSingle = ''SINGLE''"
| "state_text StateContested = ''CONTESTED''"
| "state_text StateFailing = ''FAILING''"
| "state_text StateUntested = ''UNTESTED''"
| "state_text StatePartial = ''PARTIAL''"

fun result_text :: "run_result \<Rightarrow> string" where
  "result_text ResultPass = ''pass''"
| "result_text ResultFail = ''fail''"
| "result_text ResultNotRun = ''not-run''"

text \<open>The statuses are those of package \<open>ctrf\<close>.\<close>

definition bucket_status :: "string \<Rightarrow> run_result" where
  "bucket_status status =
     (if status = ''passed'' then ResultPass
      else if status = ''failed'' \<or> status = ''other'' then ResultFail
      else if status = ''skipped'' \<or> status = ''pending'' then ResultNotRun
      else ResultFail)"

record signer_result =
  sr_SignerID :: string
  sr_Allowlisted :: bool
  sr_Result :: run_result

record consensus =
  cs_State :: cell_state
  cs_PassAllow :: nat
  cs_FailAllow :: nat
  cs_Reported :: nat

subsection \<open>The count\<close>

record tally_state =
  ts_pass :: nat
  ts_fail :: nat
  ts_reported :: nat
  ts_ran :: bool
  ts_seen :: "string set"

definition count_signer :: "tally_state \<Rightarrow> signer_result \<Rightarrow> tally_state" where
  "count_signer t s =
     (if sr_SignerID s \<in> ts_seen t then t
      else
        (let t = t\<lparr>ts_seen := insert (sr_SignerID s) (ts_seen t)\<rparr>;
             ran = (sr_Result s = ResultPass \<or> sr_Result s = ResultFail)
         in if \<not> sr_Allowlisted s then (if ran then t\<lparr>ts_reported := ts_reported t + 1\<rparr> else t)
            else
              (case sr_Result s of
                 ResultPass \<Rightarrow> t\<lparr>ts_pass := ts_pass t + 1, ts_ran := True\<rparr>
               | ResultFail \<Rightarrow> t\<lparr>ts_fail := ts_fail t + 1, ts_ran := True\<rparr>
               | ResultNotRun \<Rightarrow> t)))"

definition tally_start :: tally_state where
  "tally_start = \<lparr> ts_pass = 0, ts_fail = 0, ts_reported = 0, ts_ran = False, ts_seen = {} \<rparr>"

definition state_of_tally :: "tally_state \<Rightarrow> cell_state" where
  "state_of_tally t =
     (if \<not> ts_ran t then StateUntested
      else if ts_pass t \<ge> 1 \<and> ts_fail t \<ge> 1 then StateContested
      else if ts_fail t \<ge> 1 then StateFailing
      else if ts_pass t \<ge> 2 then StateConfirmed
      else StateSingle)"

definition compute_consensus :: "signer_result list \<Rightarrow> consensus" where
  "compute_consensus signers =
     (let t = foldl count_signer tally_start signers
      in \<lparr> cs_State = state_of_tally t, cs_PassAllow = ts_pass t, cs_FailAllow = ts_fail t, cs_Reported = ts_reported t \<rparr>)"

subsection \<open>Rolling a phase up\<close>

definition phase_priority :: "cell_state list" where
  "phase_priority = [StateContested, StateFailing, StateUntested, StateSingle, StateConfirmed]"

fun index_in :: "'a \<Rightarrow> 'a list \<Rightarrow> nat" where
  "index_in x [] = 0"
| "index_in x (y # ys) = (if y = x then 0 else Suc (index_in x ys))"

definition priority_of :: "cell_state \<Rightarrow> nat" where
  "priority_of st = index_in st phase_priority"

definition rollup_phase :: "cell_state list \<Rightarrow> cell_state" where
  "rollup_phase states =
     (case states of
        [] \<Rightarrow> StateUntested
      | s # rest \<Rightarrow>
          (let hasPositive = list_ex (\<lambda>st. st = StateConfirmed \<or> st = StateSingle) states;
               worst = foldl (\<lambda>w st. if priority_of st < priority_of w then st else w) s rest
           in if worst = StateUntested \<and> hasPositive then StatePartial else worst))"

text \<open>The order of the states, worst first, is the order of their priorities.\<close>

instantiation cell_state :: linorder
begin

definition less_eq_cell_state :: "cell_state \<Rightarrow> cell_state \<Rightarrow> bool" where
  "less_eq_cell_state a b \<longleftrightarrow> priority_of a \<le> priority_of b"

definition less_cell_state :: "cell_state \<Rightarrow> cell_state \<Rightarrow> bool" where
  "less_cell_state a b \<longleftrightarrow> priority_of a < priority_of b"

instance
proof
  fix a b :: cell_state
  assume "a \<le> b" "b \<le> a"
  then show "a = b"
    by (cases a; cases b) (simp_all add: less_eq_cell_state_def priority_of_def phase_priority_def)
qed (auto simp: less_eq_cell_state_def less_cell_state_def)

end

subsection \<open>The count is of distinct signers\<close>

text \<open>A signer's ballot is its first entry; later ones do not count.\<close>

definition ballots :: "signer_result list \<Rightarrow> string \<Rightarrow> signer_result option" where
  "ballots ss = map_of (map (\<lambda>s. (sr_SignerID s, s)) ss)"

definition voters :: "signer_result list \<Rightarrow> bool \<Rightarrow> run_result \<Rightarrow> string set" where
  "voters ss allowed r =
     {i. case ballots ss i of None \<Rightarrow> False | Some s \<Rightarrow> sr_Allowlisted s = allowed \<and> sr_Result s = r}"

lemma ballots_snoc:
  "ballots (ss @ [s]) i =
     (case ballots ss i of Some b \<Rightarrow> Some b | None \<Rightarrow> if i = sr_SignerID s then Some s else None)"
  by (auto simp: ballots_def map_add_def split: option.splits)

lemma dom_ballots: "ballots ss i = None \<longleftrightarrow> i \<notin> sr_SignerID ` set ss"
  by (auto simp: ballots_def map_of_eq_None_iff image_iff)

lemma voters_snoc:
  "voters (ss @ [s]) a r =
     (if sr_SignerID s \<notin> sr_SignerID ` set ss \<and> sr_Allowlisted s = a \<and> sr_Result s = r
      then insert (sr_SignerID s) (voters ss a r) else voters ss a r)"
proof (rule set_eqI)
  fix i
  show "i \<in> voters (ss @ [s]) a r \<longleftrightarrow> i \<in> (if sr_SignerID s \<notin> sr_SignerID ` set ss \<and> sr_Allowlisted s = a \<and> sr_Result s = r
      then insert (sr_SignerID s) (voters ss a r) else voters ss a r)"
  proof (cases "ballots ss i")
    case None
    then have "i \<notin> sr_SignerID ` set ss" by (rule dom_ballots [THEN iffD1])
    with None show ?thesis by (cases "i = sr_SignerID s") (simp_all add: voters_def ballots_snoc)
  next
    case (Some b)
    then have "i \<in> sr_SignerID ` set ss" using dom_ballots [of ss i] by (metis option.distinct(1))
    with Some show ?thesis by (cases "i = sr_SignerID s") (simp_all add: voters_def ballots_snoc)
  qed
qed

lemma voters_sub: "voters ss a r \<subseteq> sr_SignerID ` set ss"
proof
  fix i assume "i \<in> voters ss a r"
  then have "ballots ss i \<noteq> None" by (cases "ballots ss i") (simp_all add: voters_def)
  then show "i \<in> sr_SignerID ` set ss" by (metis dom_ballots)
qed

lemma finite_voters [simp]: "finite (voters ss a r)"
  using voters_sub by (rule finite_subset) simp

definition tally_ok :: "signer_result list \<Rightarrow> tally_state \<Rightarrow> bool" where
  "tally_ok ss t \<longleftrightarrow>
     ts_seen t = sr_SignerID ` set ss \<and>
     ts_pass t = card (voters ss True ResultPass) \<and> ts_fail t = card (voters ss True ResultFail) \<and>
     ts_reported t = card (voters ss False ResultPass) + card (voters ss False ResultFail) \<and>
     ts_ran t = (voters ss True ResultPass \<noteq> {} \<or> voters ss True ResultFail \<noteq> {})"

lemma count_signer_ok:
  assumes "tally_ok ss t"
  shows "tally_ok (ss @ [s]) (count_signer t s)"
proof (cases "sr_SignerID s \<in> sr_SignerID ` set ss")
  case True
  with assms show ?thesis by (simp add: tally_ok_def count_signer_def voters_snoc insert_absorb)
next
  case False
  then have "sr_SignerID s \<notin> voters ss a r" for a r using voters_sub by blast
  with assms False show ?thesis
    by (cases "sr_Allowlisted s"; cases "sr_Result s")
      (simp_all add: tally_ok_def count_signer_def voters_snoc Let_def)
qed

lemma tally_all: "tally_ok ss (foldl count_signer tally_start ss)"
proof (induction ss rule: rev_induct)
  case Nil
  show ?case by (simp add: tally_ok_def tally_start_def voters_def ballots_def)
qed (simp add: count_signer_ok)

text \<open>The state of a test is decided by the sets of distinct allowlisted signers that passed it and
  that failed it: confirmed from two passes on, contested as soon as both sets have a member,
  untested when both are empty. Signers that are not on the list, or did not run the test, never
  change it, and a signer listed twice counts once.\<close>

theorem consensus_exact:
  "compute_consensus ss = c \<Longrightarrow>
     cs_PassAllow c = card (voters ss True ResultPass) \<and> cs_FailAllow c = card (voters ss True ResultFail) \<and>
     cs_Reported c = card (voters ss False ResultPass) + card (voters ss False ResultFail) \<and>
     (cs_State c = StateConfirmed \<longleftrightarrow> card (voters ss True ResultPass) \<ge> 2 \<and> voters ss True ResultFail = {}) \<and>
     (cs_State c = StateSingle \<longleftrightarrow> card (voters ss True ResultPass) = 1 \<and> voters ss True ResultFail = {}) \<and>
     (cs_State c = StateContested \<longleftrightarrow> voters ss True ResultPass \<noteq> {} \<and> voters ss True ResultFail \<noteq> {}) \<and>
     (cs_State c = StateFailing \<longleftrightarrow> voters ss True ResultPass = {} \<and> voters ss True ResultFail \<noteq> {}) \<and>
     (cs_State c = StateUntested \<longleftrightarrow> voters ss True ResultPass = {} \<and> voters ss True ResultFail = {})"
proof -
  let ?p = "voters ss True ResultPass" and ?f = "voters ss True ResultFail"
  assume c: "compute_consensus ss = c"
  have e: "?p = {} \<longleftrightarrow> card ?p = 0" "?f = {} \<longleftrightarrow> card ?f = 0" by simp_all
  have t: "tally_ok ss (foldl count_signer tally_start ss)" by (rule tally_all)
  then have st: "cs_State c =
      (if card ?p = 0 \<and> card ?f = 0 then StateUntested
       else if card ?p \<ge> 1 \<and> card ?f \<ge> 1 then StateContested
       else if card ?f \<ge> 1 then StateFailing else if card ?p \<ge> 2 then StateConfirmed else StateSingle)"
    unfolding c [symmetric] compute_consensus_def Let_def state_of_tally_def tally_ok_def by simp
  have "cs_PassAllow c = card ?p \<and> cs_FailAllow c = card ?f \<and>
      cs_Reported c = card (voters ss False ResultPass) + card (voters ss False ResultFail)"
    using t unfolding c [symmetric] compute_consensus_def Let_def tally_ok_def by simp
  moreover obtain p f where pf: "card ?p = p" "card ?f = f" by blast
  ultimately show ?thesis unfolding e st pf by auto
qed

lemma worst_fold:
  "foldl (\<lambda>w st. if priority_of st < priority_of w then st else w) s rest = Min (set (s # rest))"
proof (induction rest arbitrary: s)
  case (Cons r rest)
  have "(if priority_of r < priority_of s then r else s) = min s r"
    by (auto simp: min_def less_eq_cell_state_def)
  then show ?case
    using Cons.IH [of "min s r"]
    by (simp del: Min_insert Min_insert2) (cases "rest = []"; simp add: min.assoc)
qed simp

text \<open>A phase with rows rolls up to the worst state of its rows, except that untested as the worst
  becomes partial where some row has a pass that is not disputed.\<close>

theorem rollup_worst_first:
  "states \<noteq> [] \<Longrightarrow> rollup_phase states =
     (if Min (set states) = StateUntested \<and> (\<exists>st \<in> set states. st = StateConfirmed \<or> st = StateSingle)
      then StatePartial else Min (set states))"
  by (cases states) (simp_all only: rollup_phase_def list.case Let_def worst_fold list_ex_iff)

theorem consensus_exact_witness:
  "voters [\<lparr> sr_SignerID = ''a'', sr_Allowlisted = True, sr_Result = ResultPass \<rparr>,
     \<lparr> sr_SignerID = ''a'', sr_Allowlisted = True, sr_Result = ResultFail \<rparr>] True ResultFail = {}"
proof -
  have "cs_State (compute_consensus [\<lparr> sr_SignerID = ''a'', sr_Allowlisted = True, sr_Result = ResultPass \<rparr>,
     \<lparr> sr_SignerID = ''a'', sr_Allowlisted = True, sr_Result = ResultFail \<rparr>]) = StateSingle" by code_simp
  with consensus_exact [OF refl] show ?thesis by blast
qed

theorem rollup_worst_first_witness: "Min {StateUntested, StateConfirmed} = StateUntested"
proof -
  have "rollup_phase [StateUntested, StateConfirmed] = StatePartial" by code_simp
  then have "Min {StateUntested, StateConfirmed} = StateUntested \<or> Min {StateUntested, StateConfirmed} = StatePartial"
    using rollup_worst_first [of "[StateUntested, StateConfirmed]"] by (simp split: if_splits)
  moreover have "Min {StateUntested, StateConfirmed} \<in> {StateUntested, StateConfirmed}" by (rule Min_in) simp_all
  ultimately show ?thesis by auto
qed
end
