(* ===== verification/Coordinate.thy ===== *)
theory Coordinate
  imports Criteria
begin

section \<open>Coordinates (pkg/recipe/coordinate.go, pkg/corroborate/coordinate.go)\<close>

text \<open>
  A coordinate places a recipe on the dashboard: service, accelerator and system, intent and
  platform. One direction joins the criteria to segments; the other splits the segments again and keeps the
  result only if it maps back to the same path.
\<close>

record coordinate =
  co_Group :: string
  co_Dashboard :: string
  co_Tab :: string

definition coordinate_path :: "coordinate \<Rightarrow> string" where
  "coordinate_path co = co_Group co @ ''/'' @ co_Dashboard co @ ''/'' @ co_Tab co"

definition reject_path_separator :: "string \<Rightarrow> string \<Rightarrow> string res" where
  "reject_path_separator dim v =
     (if CHR ''/'' \<in> set v then invalid ''%s dimension must not contain \"/\" (the coordinate path separator)'' [dim]
      else Inr v)"

definition require_concrete :: "string \<Rightarrow> string \<Rightarrow> string res" where
  "require_concrete dim v =
     (if v = [] \<or> v = CriteriaAnyValue then invalid ''%s dimension must be concrete (got empty or \"any\")'' [dim]
      else reject_path_separator dim v)"

definition coordinate_for :: "criteria option \<Rightarrow> coordinate res" where
  "coordinate_for c =
     (case c of
        None \<Rightarrow> invalid ''criteria is nil'' []
      | Some c \<Rightarrow>
          res_bind (require_concrete ''service'' (c_Service c)) (\<lambda>service.
          res_bind (require_concrete ''accelerator'' (c_Accelerator c)) (\<lambda>accelerator.
          res_bind (require_concrete ''intent'' (c_Intent c)) (\<lambda>intent.
          (let osName = (if c_OS c = [] then CriteriaAnyValue else c_OS c); platform = c_Platform c
           in res_bind (reject_path_separator ''os'' osName) (\<lambda>_.
              res_bind
                (if platform \<noteq> [] \<and> platform \<noteq> CriteriaAnyValue
                 then res_bind (reject_path_separator ''platform'' platform) (\<lambda>_. Inr (intent @ ''-'' @ platform))
                 else Inr intent)
                (\<lambda>tab. Inr \<lparr> co_Group = service, co_Dashboard = accelerator @ ''-'' @ osName, co_Tab = tab \<rparr>)))))))"

subsection \<open>Splitting\<close>

definition last_index :: "char \<Rightarrow> string \<Rightarrow> nat option" where
  "last_index c s = (if c \<in> set s then Some (length s - 1 - length (takeWhile (\<lambda>x. x \<noteq> c) (rev s))) else None)"

definition first_index :: "char \<Rightarrow> string \<Rightarrow> nat option" where
  "first_index c s = (if c \<in> set s then Some (length (takeWhile (\<lambda>x. x \<noteq> c) s)) else None)"

definition best_os :: "string \<Rightarrow> string list \<Rightarrow> string" where
  "best_os dashboard oses =
     foldl (\<lambda>best os.
       if os = CriteriaAnyValue then best
       else if has_suffix dashboard (CHR ''-'' # os) \<and> length dashboard > length os + 1
       then (if length os > length best then os else best)
       else best) [] oses"

definition split_dashboard :: "string \<Rightarrow> (string \<times> string) res" where
  "split_dashboard dashboard =
     (let best = best_os dashboard (static_types FieldOS)
      in if best \<noteq> [] then Inr (trim_suffix dashboard (CHR ''-'' # best), best)
         else
           (case last_index (CHR ''-'') dashboard of
              None \<Rightarrow> invalid ''dashboard %q is not <accelerator>-<os>'' [dashboard]
            | Some i \<Rightarrow>
                (if i = 0 \<or> int i \<ge> int (length dashboard) - 1
                 then invalid ''dashboard %q is not <accelerator>-<os>'' [dashboard]
                 else Inr (take i dashboard, drop (i + 1) dashboard))))"

fun split_tab_known :: "string \<Rightarrow> string list \<Rightarrow> (string \<times> string) option" where
  "split_tab_known tab [] = None"
| "split_tab_known tab (i # is) =
     (if i = CriteriaAnyValue then split_tab_known tab is
      else if tab = i then Some (i, [])
      else if has_prefix tab (i @ ''-'') then Some (i, trim_prefix tab (i @ ''-''))
      else split_tab_known tab is)"

definition split_tab :: "string \<Rightarrow> (string \<times> string) res" where
  "split_tab tab =
     (case split_tab_known tab (static_types FieldIntent) of
        Some r \<Rightarrow> Inr r
      | None \<Rightarrow>
          (if tab = [] then invalid ''tab is empty'' []
           else
             (case first_index (CHR ''-'') tab of
                None \<Rightarrow> Inr (tab, [])
              | Some i \<Rightarrow> if i > 0 then Inr (take i tab, drop (i + 1) tab) else Inr (tab, []))))"

definition criteria_from_coordinate :: "coordinate \<Rightarrow> criteria res" where
  "criteria_from_coordinate co =
     res_bind (split_dashboard (co_Dashboard co)) (\<lambda>(accel, osName).
     res_bind (split_tab (co_Tab co)) (\<lambda>(intent, platform).
       (let crit = \<lparr> c_Service = co_Group co, c_Accelerator = accel, c_Intent = intent, c_OS = osName,
                     c_Platform = platform, c_Nodes = 0 \<rparr>
        in res_bind (res_wrap (propagate_or_wrap ErrCodeInvalidRequest ''coordinate %s does not round-trip through CoordinateFor'')
                       (coordinate_for (Some crit)))
             (\<lambda>got.
                if coordinate_path got \<noteq> coordinate_path co
                then invalid ''coordinate %q inverts to criteria that re-maps to %q'' [coordinate_path co, coordinate_path got]
                else Inr crit))))"

subsection \<open>Round trip\<close>

definition segment :: "string \<Rightarrow> bool" where
  "segment v \<longleftrightarrow> CHR ''/'' \<notin> set v"

definition concrete :: "string \<Rightarrow> bool" where
  "concrete v \<longleftrightarrow> v \<noteq> [] \<and> v \<noteq> CriteriaAnyValue \<and> segment v"

text \<open>The criteria of a coordinate: an unstated system is the wildcard, an unstated platform is empty.\<close>

definition coordinate_criteria :: "criteria \<Rightarrow> criteria" where
  "coordinate_criteria c = c\<lparr>c_OS := (if c_OS c = [] then CriteriaAnyValue else c_OS c),
     c_Platform := (if c_Platform c = CriteriaAnyValue then [] else c_Platform c), c_Nodes := 0\<rparr>"

lemma reject_path_separator_Inr: "reject_path_separator d v = Inr w \<longleftrightarrow> segment v \<and> w = v"
  by (auto simp: reject_path_separator_def segment_def)

lemma require_concrete_Inr: "require_concrete d v = Inr w \<longleftrightarrow> concrete v \<and> w = v"
  by (auto simp: require_concrete_def concrete_def reject_path_separator_Inr)

lemma coordinate_for_Inr:
  "coordinate_for (Some c) = Inr co \<longleftrightarrow>
     concrete (c_Service c) \<and> concrete (c_Accelerator c) \<and> concrete (c_Intent c) \<and>
     segment (c_OS c) \<and> segment (c_Platform c) \<and>
     co = \<lparr> co_Group = c_Service c,
        co_Dashboard = c_Accelerator c @ ''-'' @ (if c_OS c = [] then CriteriaAnyValue else c_OS c),
        co_Tab = (if c_Platform c \<noteq> [] \<and> c_Platform c \<noteq> CriteriaAnyValue
          then c_Intent c @ ''-'' @ c_Platform c else c_Intent c) \<rparr>"
  by (auto simp: coordinate_for_def Let_def res_simps require_concrete_Inr reject_path_separator_Inr
      segment_def CriteriaAnyValue_def)

lemma coordinate_for_segments:
  "coordinate_for (Some c) = Inr co \<Longrightarrow> segment (co_Group co) \<and> segment (co_Dashboard co) \<and> segment (co_Tab co)"
  by (auto simp: coordinate_for_Inr concrete_def segment_def CriteriaAnyValue_def)

lemma slash_append: "CHR ''/'' \<notin> set a \<Longrightarrow> CHR ''/'' \<notin> set b \<Longrightarrow>
    a @ CHR ''/'' # x = b @ CHR ''/'' # y \<longleftrightarrow> a = b \<and> x = y"
proof (induction a arbitrary: b)
  case Nil
  then show ?case by (cases b) auto
next
  case (Cons c a)
  then show ?case by (cases b) auto
qed

text \<open>Splits that succeed lose nothing.\<close>

lemma has_suffixE: "has_suffix s p \<Longrightarrow> \<exists>r. s = r @ p"
  unfolding has_suffix_def by (metis append_take_drop_id)

lemma trim_suffix_append [simp]: "trim_suffix (r @ p) p = r"
  by (simp add: trim_suffix_def has_suffix_def)

lemma takeWhile_until: "c \<notin> set ys \<Longrightarrow> takeWhile (\<lambda>x. x \<noteq> c) (ys @ c # zs) = ys"
  by (induction ys) auto

lemma last_index_at: "c \<notin> set zs \<Longrightarrow> last_index c (ys @ c # zs) = Some (length ys)"
  by (simp add: last_index_def takeWhile_until [of c "rev zs"])

lemma first_index_at: "c \<notin> set ys \<Longrightarrow> first_index c (ys @ c # zs) = Some (length ys)"
  by (simp add: first_index_def takeWhile_until)

lemma last_index_Some:
  assumes "last_index c s = Some i"
  obtains ys zs where "s = ys @ c # zs" "c \<notin> set zs" "i = length ys"
proof -
  from assms have "c \<in> set s" by (auto simp: last_index_def split: if_splits)
  then obtain ys zs where "s = ys @ c # zs" "c \<notin> set zs" by (meson split_list_last)
  with assms last_index_at that show ?thesis by (metis option.inject)
qed

lemma first_index_Some:
  assumes "first_index c s = Some i"
  obtains ys zs where "s = ys @ c # zs" "c \<notin> set ys" "i = length ys"
proof -
  from assms have "c \<in> set s" by (auto simp: first_index_def split: if_splits)
  then obtain ys zs where "s = ys @ c # zs" "c \<notin> set ys" by (meson split_list_first)
  with assms first_index_at that show ?thesis by (metis option.inject)
qed

lemma best_os_invariant:
  assumes "best_os dashboard oses \<noteq> []"
  shows "best_os dashboard oses \<in> set oses \<and> has_suffix dashboard (CHR ''-'' # best_os dashboard oses) \<and>
    length dashboard > length (best_os dashboard oses) + 1"
proof -
  let ?P = "\<lambda>b. b = [] \<or> b \<in> set oses \<and> has_suffix dashboard (CHR ''-'' # b) \<and> length dashboard > length b + 1"
  have "?P (foldl (\<lambda>best os. if os = CriteriaAnyValue then best
       else if has_suffix dashboard (CHR ''-'' # os) \<and> length dashboard > length os + 1
       then (if length os > length best then os else best) else best) b os')" if "?P b" "set os' \<subseteq> set oses" for b os'
    using that by (induction os' arbitrary: b) auto
  from this [of "[]" oses] assms show ?thesis by (simp add: best_os_def)
qed

lemma split_dashboard_joins:
  assumes "split_dashboard d = Inr (a, os)"
  shows "d = a @ ''-'' @ os \<and> a \<noteq> [] \<and> os \<noteq> []"
proof (cases "best_os d (static_types FieldOS) = []")
  case True
  with assms obtain i where i: "last_index (CHR ''-'') d = Some i" "i \<noteq> 0" "i < length d - 1" "a = take i d" "os = drop (i + 1) d"
    by (auto simp: split_dashboard_def Let_def split: option.splits if_splits)
  from i(1) obtain ys zs where "d = ys @ CHR ''-'' # zs" "i = length ys" by (rule last_index_Some)
  with i show ?thesis by auto
next
  case False
  let ?b = "best_os d (static_types FieldOS)"
  from False assms have a: "a = trim_suffix d (CHR ''-'' # ?b)" "os = ?b" by (auto simp: split_dashboard_def Let_def)
  from best_os_invariant [OF False] obtain r where r: "d = r @ CHR ''-'' # ?b" "length d > length ?b + 1"
    using has_suffixE by blast
  have "a = r" using a(1) r(1) trim_suffix_append by metis
  moreover have "r \<noteq> []"
  proof
    assume "r = []"
    with r(1) have "length d = length (CHR ''-'' # ?b)" by (metis append_Nil)
    with r(2) show False by simp
  qed
  ultimately show ?thesis using False r(1) a(2) by simp
qed

lemma split_tab_known_joins:
  "split_tab_known tab is = Some (i, p) \<Longrightarrow> i \<in> set is \<and> (tab = i \<and> p = [] \<or> tab = i @ ''-'' @ p)"
proof (induction tab "is" rule: split_tab_known.induct)
  case (2 tab x xs)
  show ?case
  proof (cases "x \<noteq> CriteriaAnyValue \<and> tab \<noteq> x \<and> has_prefix tab (x @ ''-'')")
    case True
    then have "tab = (x @ ''-'') @ drop (length (x @ ''-'')) tab"
      by (metis has_prefix_def append_take_drop_id)
    moreover have "x = i \<and> p = drop (length (x @ ''-'')) tab"
      using True 2(3) by (auto simp: trim_prefix_def)
    ultimately show ?thesis by auto
  next
    case False
    with 2 show ?thesis by (auto split: if_splits)
  qed
qed simp

lemma split_tab_joins:
  assumes "split_tab tab = Inr (i, p)"
  shows "tab = i \<and> p = [] \<or> tab = i @ ''-'' @ p"
proof (cases "split_tab_known tab (static_types FieldIntent)")
  case (Some r)
  with assms split_tab_known_joins [of tab _ i p] show ?thesis by (auto simp: split_tab_def)
next
  case None
  show ?thesis
  proof (cases "first_index (CHR ''-'') tab")
    case (Some k)
    then obtain ys zs where "tab = ys @ CHR ''-'' # zs" "k = length ys" by (rule first_index_Some)
    with None Some assms show ?thesis by (auto simp: split_tab_def split: if_splits)
  qed (use None assms in \<open>auto simp: split_tab_def split: if_splits\<close>)
qed

lemma criteria_from_coordinate_Inr:
  assumes "criteria_from_coordinate co = Inr c"
  shows "coordinate_for (Some c) = Inr co \<and> c_Nodes c = 0"
proof -
  from assms obtain a os i p got where split: "split_dashboard (co_Dashboard co) = Inr (a, os)" "split_tab (co_Tab co) = Inr (i, p)"
    and c: "c = \<lparr> c_Service = co_Group co, c_Accelerator = a, c_Intent = i, c_OS = os, c_Platform = p, c_Nodes = 0 \<rparr>"
    and got: "coordinate_for (Some c) = Inr got" "coordinate_path got = coordinate_path co"
    unfolding criteria_from_coordinate_def Let_def res_bind_Inr res_wrap_Inr
    by (auto simp: res_simps split: if_splits)
  from split_dashboard_joins [OF split(1)] got(1) have "co_Group got = co_Group co" "co_Dashboard got = co_Dashboard co"
    by (auto simp: coordinate_for_Inr c)
  moreover from this got(2) have "co_Tab got = co_Tab co" by (simp add: coordinate_path_def)
  ultimately have "got = co" by (intro coordinate.equality) simp_all
  with got(1) show ?thesis by (simp add: c)
qed

lemma last_hyphen:
  assumes "CHR ''-'' \<notin> set x" "CHR ''-'' \<notin> set y" "a @ CHR ''-'' # x = b @ CHR ''-'' # y"
  shows "a = b" "x = y"
proof -
  from assms last_index_at have "length a = length b" by (metis option.inject)
  with assms(3) show "a = b" "x = y" by simp_all
qed

lemma split_dashboard_join:
  assumes "CHR ''-'' \<notin> set os" "a \<noteq> []" "os \<noteq> []"
  shows "split_dashboard (a @ ''-'' @ os) = Inr (a, os)"
proof (cases "best_os (a @ ''-'' @ os) (static_types FieldOS) = []")
  case True
  have "last_index (CHR ''-'') (a @ CHR ''-'' # os) = Some (length a)" by (rule last_index_at [OF assms(1)])
  with True assms show ?thesis by (simp add: split_dashboard_def Let_def)
next
  case False
  let ?b = "best_os (a @ ''-'' @ os) (static_types FieldOS)"
  from best_os_invariant [OF False] obtain r where r: "a @ ''-'' @ os = r @ CHR ''-'' # ?b" "?b \<in> set (static_types FieldOS)"
    using has_suffixE by blast
  from r(2) have "CHR ''-'' \<notin> set ?b" by (auto simp: static_types_def oskind_all_def)
  from last_hyphen [OF assms(1) this, of a r] r(1) have "a = r" "os = ?b" by simp_all
  moreover have "split_dashboard (a @ ''-'' @ os) = Inr (trim_suffix (r @ CHR ''-'' # ?b) (CHR ''-'' # ?b), ?b)"
    using False r(1) by (simp add: split_dashboard_def Let_def)
  ultimately show ?thesis by (metis trim_suffix_append)
qed

lemma first_hyphen:
  "CHR ''-'' \<notin> set x \<Longrightarrow> CHR ''-'' \<notin> set y \<Longrightarrow> x @ CHR ''-'' # a = y @ CHR ''-'' # b \<longleftrightarrow> x = y \<and> a = b"
proof (induction x arbitrary: y)
  case Nil
  then show ?case by (cases y) auto
next
  case (Cons c x)
  then show ?case by (cases y) auto
qed

lemma split_tab_join:
  assumes "CHR ''-'' \<notin> set i" "i \<noteq> []" "tab = (if p = [] then i else i @ ''-'' @ p)"
  shows "split_tab tab = Inr (i, p)"
proof (cases "split_tab_known tab (static_types FieldIntent)")
  case None
  have "first_index (CHR ''-'') i = None" using assms(1) by (simp add: first_index_def)
  moreover have "first_index (CHR ''-'') (i @ CHR ''-'' # p) = Some (length i)" by (rule first_index_at [OF assms(1)])
  ultimately show ?thesis using None assms by (simp add: split_tab_def)
next
  case (Some r)
  obtain i' p' where r: "r = (i', p')" by (cases r)
  from Some split_tab_known_joins [of tab _ i' p'] have j: "i' \<in> set (static_types FieldIntent)"
    "tab = i' \<and> p' = [] \<or> tab = i' @ ''-'' @ p'" by (simp_all add: r)
  then have "CHR ''-'' \<notin> set i'" by (auto simp: static_types_def)
  with j(2) assms first_hyphen [of i' i p' p] have "i' = i \<and> p' = p"
    by (auto split: if_splits)
  with Some show ?thesis by (simp add: split_tab_def r)
qed

text \<open>Property C32:
  Criteria and coordinates invert each other. Criteria recovered from a coordinate map to that
  coordinate again, so no two coordinates yield the same criteria; and the coordinate of
  criteria, whatever the accelerator and the platform, yields them back, an unstated
  system as the wildcard and no node count, provided that the names of the system and of the
  intent hold no hyphen.\<close>

theorem coordinate_roundtrip:
  "(\<forall>co c. criteria_from_coordinate co = Inr c \<longrightarrow> coordinate_for (Some c) = Inr co) \<and>
   (\<forall>c co. coordinate_for (Some c) = Inr co \<longrightarrow> CHR ''-'' \<notin> set (c_OS c) \<longrightarrow> CHR ''-'' \<notin> set (c_Intent c) \<longrightarrow>
      criteria_from_coordinate co = Inr (coordinate_criteria c))"
proof (intro conjI allI impI)
  fix c co assume co: "coordinate_for (Some c) = Inr co" and h: "CHR ''-'' \<notin> set (c_OS c)" "CHR ''-'' \<notin> set (c_Intent c)"
  let ?os = "if c_OS c = [] then CriteriaAnyValue else c_OS c"
  let ?p = "if c_Platform c = CriteriaAnyValue then [] else c_Platform c"
  have os: "CHR ''-'' \<notin> set ?os" "?os \<noteq> []" using h(1) by (auto simp: CriteriaAnyValue_def)
  from co have c: "concrete (c_Accelerator c)" "concrete (c_Intent c)"
    "co_Dashboard co = c_Accelerator c @ ''-'' @ ?os" "co_Group co = c_Service c"
    "co_Tab co = (if ?p = [] then c_Intent c else c_Intent c @ ''-'' @ ?p)"
    by (auto simp: coordinate_for_Inr)
  have d: "split_dashboard (co_Dashboard co) = Inr (c_Accelerator c, ?os)"
    unfolding c(3) using c(1) os by (intro split_dashboard_join) (simp_all add: concrete_def)
  have t: "split_tab (co_Tab co) = Inr (c_Intent c, ?p)"
    using c(2) h(2) by (intro split_tab_join [OF _ _ c(5)]) (simp_all add: concrete_def)
  have crit: "\<lparr> c_Service = co_Group co, c_Accelerator = c_Accelerator c, c_Intent = c_Intent c, c_OS = ?os,
      c_Platform = ?p, c_Nodes = 0 \<rparr> = coordinate_criteria c"
    by (simp add: coordinate_criteria_def c(4))
  have "coordinate_for (Some (coordinate_criteria c)) = Inr co"
    using co by (auto simp: coordinate_for_Inr coordinate_criteria_def segment_def CriteriaAnyValue_def)
  then show "criteria_from_coordinate co = Inr (coordinate_criteria c)"
    unfolding criteria_from_coordinate_def d t res_bind_simps prod.case crit Let_def by simp
qed (simp add: criteria_from_coordinate_Inr)

theorem coordinate_roundtrip_witness:
  "criteria_from_coordinate \<lparr> co_Group = ''eks'', co_Dashboard = ''rtx-pro-6000-ubuntu'', co_Tab = ''training-kubeflow'' \<rparr> =
     Inr \<lparr> c_Service = ''eks'', c_Accelerator = ''rtx-pro-6000'', c_Intent = ''training'', c_OS = ''ubuntu'',
       c_Platform = ''kubeflow'', c_Nodes = 0 \<rparr>"
proof -
  let ?c = "\<lparr> c_Service = ''eks'', c_Accelerator = ''rtx-pro-6000'', c_Intent = ''training'', c_OS = ''ubuntu'',
       c_Platform = ''kubeflow'', c_Nodes = 8 \<rparr>"
  have "coordinate_for (Some ?c) = Inr \<lparr> co_Group = ''eks'', co_Dashboard = ''rtx-pro-6000-ubuntu'', co_Tab = ''training-kubeflow'' \<rparr>"
    by code_simp
  from coordinate_roundtrip [THEN conjunct2, rule_format, OF this] show ?thesis
    by (simp add: coordinate_criteria_def CriteriaAnyValue_def)
qed

text \<open>A system name with a hyphen, as a data directory may register one, is split elsewhere.\<close>

lemma hyphen_moves_to_accelerator:
  "criteria_from_coordinate \<lparr> co_Group = ''eks'', co_Dashboard = ''h100-my-os'', co_Tab = ''training'' \<rparr> =
     Inr \<lparr> c_Service = ''eks'', c_Accelerator = ''h100-my'', c_Intent = ''training'', c_OS = ''os'', c_Platform = [], c_Nodes = 0 \<rparr>"
  "is_ok (coordinate_for (Some \<lparr> c_Service = ''eks'', c_Accelerator = ''h100'', c_Intent = ''training'', c_OS = ''my-os'',
     c_Platform = [], c_Nodes = 0 \<rparr>))"
  by code_simp+
end
