(* ===== verification/Go_Slices.thy ===== *)
theory Go_Slices
  imports Aicr_Prelude
begin

section \<open>Sorting and grouping slices\<close>

text \<open>
  \<open>sort.Slice\<close> and \<open>sort.Sort\<close> with a \<open>less\<close> that is a strict weak order. The library leaves the order of
  elements that are equal under it open; the model's insertion sort keeps them as they come, which is what the
  library does on up to twelve elements. No result below depends on the order of equal elements
  unless it says so.
\<close>

fun insert_slice :: "('a \<Rightarrow> 'a \<Rightarrow> bool) \<Rightarrow> 'a \<Rightarrow> 'a list \<Rightarrow> 'a list" where
  "insert_slice lt x [] = [x]"
| "insert_slice lt x (y # ys) = (if lt x y then x # y # ys else y # insert_slice lt x ys)"

definition sort_slice :: "('a \<Rightarrow> 'a \<Rightarrow> bool) \<Rightarrow> 'a list \<Rightarrow> 'a list" where
  "sort_slice lt xs = foldl (\<lambda>s x. insert_slice lt x s) [] xs"

lemma mset_insert_slice [simp]: "mset (insert_slice lt x ys) = add_mset x (mset ys)"
  by (induction ys) auto

lemma mset_sort_slice [simp]: "mset (sort_slice lt xs) = mset xs"
proof -
  have "mset (foldl (\<lambda>s x. insert_slice lt x s) s xs) = mset s + mset xs" for s
    by (induction xs arbitrary: s) auto
  then show ?thesis by (simp add: sort_slice_def)
qed

lemma set_sort_slice [simp]: "set (sort_slice lt xs) = set xs"
  by (metis mset_sort_slice set_mset_mset)

lemma length_sort_slice [simp]: "length (sort_slice lt xs) = length xs"
  by (metis mset_sort_slice size_mset)

lemma distinct_sort_slice [simp]: "distinct (sort_slice lt xs) = distinct xs"
  by (metis mset_eq_imp_distinct_iff mset_sort_slice)

lemma sort_slice_Nil_iff [simp]: "sort_slice lt xs = [] \<longleftrightarrow> xs = []"
  by (metis length_0_conv length_sort_slice)

text \<open>What a \<open>less\<close> function has to be for the sort to sort.\<close>

locale slice_order =
  fixes lt :: "'a \<Rightarrow> 'a \<Rightarrow> bool"
  assumes asym: "lt x y \<Longrightarrow> \<not> lt y x"
    and not_less_trans: "\<not> lt y x \<Longrightarrow> \<not> lt z y \<Longrightarrow> \<not> lt z x"
begin

lemma insert_sorted:
  "sorted_wrt (\<lambda>x y. \<not> lt y x) ys \<Longrightarrow> sorted_wrt (\<lambda>x y. \<not> lt y x) (insert_slice lt x ys)"
proof (induction ys)
  case (Cons y ys)
  show ?case
  proof (cases "lt x y")
    case True
    have "\<not> lt z x" if "z \<in> set ys" for z
      using that Cons.prems asym [OF True] not_less_trans [of y x z] by auto
    with True Cons.prems asym [OF True] show ?thesis by auto
  next
    case False
    have "set (insert_slice lt x ys) = insert x (set ys)"
      by (metis mset_insert_slice set_mset_add_mset_insert set_mset_mset)
    with False Cons show ?thesis by auto
  qed
qed simp

lemma sort_sorted: "sorted_wrt (\<lambda>x y. \<not> lt y x) (sort_slice lt xs)"
proof -
  have "sorted_wrt (\<lambda>x y. \<not> lt y x) (foldl (\<lambda>s x. insert_slice lt x s) s xs)"
    if "sorted_wrt (\<lambda>x y. \<not> lt y x) s" for s
    using that by (induction xs arbitrary: s) (simp_all add: insert_sorted)
  then show ?thesis by (simp add: sort_slice_def)
qed

lemma find_sorted_first:
  assumes "find P (sort_slice lt xs) = Some x"
  shows "x \<in> set xs \<and> P x \<and> (\<forall>y \<in> set xs. P y \<longrightarrow> y = x \<or> \<not> lt y x)"
proof -
  from assms obtain i where i: "i < length (sort_slice lt xs)" "P (sort_slice lt xs ! i)" "x = sort_slice lt xs ! i"
    "\<And>j. j < i \<Longrightarrow> \<not> P (sort_slice lt xs ! j)" by (auto simp: find_Some_iff)
  then have "x \<in> set xs" by (metis nth_mem set_sort_slice)
  moreover have "y = x \<or> \<not> lt y x" if "y \<in> set xs" "P y" for y
  proof -
    from that(1) obtain j where j: "j < length (sort_slice lt xs)" "y = sort_slice lt xs ! j"
      by (metis in_set_conv_nth set_sort_slice)
    with i(4) that(2) have "i \<le> j" by (metis leI)
    then show ?thesis
      using sorted_wrt_nth_less [OF sort_sorted, of i j] i(3) j by (cases "i = j") auto
  qed
  ultimately show ?thesis using i by auto
qed

end

subsection \<open>Appending to the slices of a map\<close>

text \<open>\<open>m[k] = append(m[k], x)\<close>, and a loop of it.\<close>

definition append_at :: "'k \<Rightarrow> 'a \<Rightarrow> ('k \<times> 'a list) list \<Rightarrow> ('k \<times> 'a list) list" where
  "append_at k x m = upsert k ((case map_of m k of None \<Rightarrow> [] | Some xs \<Rightarrow> xs) @ [x]) m"

definition group_by :: "('a \<Rightarrow> 'k) \<Rightarrow> 'a list \<Rightarrow> ('k \<times> 'a list) list" where
  "group_by f xs = foldl (\<lambda>m x. append_at (f x) x m) [] xs"

lemma group_by_snoc: "group_by f (xs @ [x]) = append_at (f x) x (group_by f xs)"
  by (simp add: group_by_def)

lemma map_of_group_by:
  "map_of (group_by f xs) k = (let ys = filter (\<lambda>x. f x = k) xs in if ys = [] then None else Some ys)"
proof (induction xs rule: rev_induct)
  case Nil
  show ?case by (simp add: group_by_def)
next
  case (snoc x xs)
  then show ?case by (auto simp: group_by_snoc append_at_def Let_def)
qed

lemma distinct_group_by: "distinct (map fst (group_by f xs))"
proof (induction xs rule: rev_induct)
  case Nil
  show ?case by (simp add: group_by_def)
qed (simp add: group_by_snoc append_at_def distinct_upsert)

lemma set_group_by: "(k, ys) \<in> set (group_by f xs) \<longleftrightarrow> ys \<noteq> [] \<and> ys = filter (\<lambda>x. f x = k) xs"
proof -
  have "(k, ys) \<in> set (group_by f xs) \<longleftrightarrow> map_of (group_by f xs) k = Some ys"
    using distinct_group_by by (metis map_of_eq_Some_iff)
  then show ?thesis by (auto simp: map_of_group_by Let_def)
qed

text \<open>A loop that stores under keys that are new each time appends.\<close>

lemma foldl_upsert_distinct:
  "distinct (map f xs) \<Longrightarrow> f ` set xs \<inter> fst ` set m = {} \<Longrightarrow>
     foldl (\<lambda>m x. upsert (f x) (g x) m) m xs = m @ map (\<lambda>x. (f x, g x)) xs"
proof (induction xs arbitrary: m)
  case (Cons x xs)
  then have "upsert (f x) (g x) m = m @ [(f x, g x)]" by (intro upsert_fresh) auto
  with Cons show ?case by auto
qed simp

lemma foldl_cong_set: "(\<And>m x. x \<in> set xs \<Longrightarrow> f m x = g m x) \<Longrightarrow> foldl f m xs = foldl g m xs"
  by (induction xs arbitrary: m) auto

end
