(* ===== verification/Coverage.thy ===== *)
theory Coverage
  imports Snapshot_Filter "HOL-Library.Infinite_Set"
begin

section \<open>Criteria coverage (pkg/recipe/coverage.go)\<close>

text \<open>
  After composition every dimension that the query states must be carried by an applied recipe. When
  one is not, the error suggests completions: minimal sets of further dimension values
  under which some overlay would carry it. A tuple is a Go map from dimension names to values, a
  keyed list here. The structured entries that the error carries in its context (\<open>pkg/client/v1\<close> reads
  them) are the result of \<open>coverage_entries\<close>; the error itself carries the rendered text.
\<close>

definition coverage_dimensions :: "(string \<times> criteria_field) list" where
  "coverage_dimensions =
     [(''service'', FieldService), (''accelerator'', FieldAccelerator), (''intent'', FieldIntent),
      (''os'', FieldOS), (''platform'', FieldPlatform)]"

definition coverage_dimension_names :: "string list" where
  "coverage_dimension_names = map fst coverage_dimensions"

definition is_specified_criteria_value :: "string \<Rightarrow> bool" where
  "is_specified_criteria_value v \<longleftrightarrow> v \<noteq> [] \<and> v \<noteq> CriteriaAnyValue"

type_synonym tuple = "(string \<times> string) list"

definition carries :: "metadata_store \<Rightarrow> criteria_field \<Rightarrow> string \<Rightarrow> string \<Rightarrow> bool" where
  "carries s f want name =
     (case get_recipe_by_name s name of
        None \<Rightarrow> False
      | Some meta \<Rightarrow> (case rs_Criteria (rm_Spec meta) of None \<Rightarrow> False | Some c \<Rightarrow> crit_get f c = want))"

definition uncovered_dimensions :: "metadata_store \<Rightarrow> criteria \<Rightarrow> string list \<Rightarrow> string list" where
  "uncovered_dimensions s q applied =
     map fst (filter (\<lambda>(dim, f).
        is_specified_criteria_value (crit_get f q) \<and> \<not> list_ex (carries s f (crit_get f q)) applied) coverage_dimensions)"

fun completion_loop ::
  "criteria \<Rightarrow> criteria \<Rightarrow> string \<Rightarrow> string \<Rightarrow> (string \<times> criteria_field) list \<Rightarrow> tuple \<Rightarrow> bool \<Rightarrow> tuple option" where
  "completion_loop q oc dim_name want [] tuple carried = (if \<not> carried then None else Some tuple)"
| "completion_loop q oc dim_name want ((dim, f) # dims) tuple carried =
     (let overlay_val = crit_get f oc in
      if dim = dim_name then
        (if overlay_val \<noteq> want then None else completion_loop q oc dim_name want dims tuple True)
      else if \<not> is_specified_criteria_value overlay_val then completion_loop q oc dim_name want dims tuple carried
      else if is_specified_criteria_value (crit_get f q) then
        (if crit_get f q \<noteq> overlay_val then None else completion_loop q oc dim_name want dims tuple carried)
      else completion_loop q oc dim_name want dims (upsert dim overlay_val tuple) carried)"

definition completion_tuple :: "criteria \<Rightarrow> criteria \<Rightarrow> string \<Rightarrow> string \<Rightarrow> tuple option" where
  "completion_tuple q oc dim_name want = completion_loop q oc dim_name want coverage_dimensions [] False"

definition tuple_key :: "tuple \<Rightarrow> string" where
  "tuple_key t =
     join_with '', '' (concat (map (\<lambda>(dim, _).
        case map_of t dim of None \<Rightarrow> [] | Some v \<Rightarrow> [dim @ ''='' @ v]) coverage_dimensions))"

definition is_subset_tuple :: "tuple \<Rightarrow> tuple \<Rightarrow> bool" where
  "is_subset_tuple sub super =
     (if length sub \<ge> length super then False
      else list_all (\<lambda>(k, v). (case map_of super k of None \<Rightarrow> [] | Some w \<Rightarrow> w) = v) sub)"

text \<open>\<open>uniq\<close> lists a Go map keyed by \<open>tupleKey\<close>; its order does not matter, the result is sorted.\<close>

definition unique_tuples :: "tuple list \<Rightarrow> tuple list" where
  "unique_tuples ts = map snd (foldl (\<lambda>seen t. if length t = 0 then seen else upsert (tuple_key t) t seen) [] ts)"

definition minimal_tuples :: "tuple list \<Rightarrow> tuple list" where
  "minimal_tuples ts =
     (let uniq = unique_tuples ts in
      sort_key (\<lambda>t. (length t, tuple_key t))
        (filter (\<lambda>t. \<not> list_ex (\<lambda>u. tuple_key u \<noteq> tuple_key t \<and> is_subset_tuple u t) uniq) uniq))"

definition completion_tuples_for :: "metadata_store \<Rightarrow> criteria \<Rightarrow> string \<Rightarrow> string \<Rightarrow> tuple list" where
  "completion_tuples_for s q dim_name want =
     minimal_tuples (concat (map (\<lambda>(_, ov).
       case rs_Criteria (rm_Spec ov) of
         None \<Rightarrow> []
       | Some oc \<Rightarrow> (case completion_tuple q oc dim_name want of None \<Rightarrow> [] | Some t \<Rightarrow> [t])) (ms_Overlays s)))"

definition criteria_dimension_value :: "criteria \<Rightarrow> string \<Rightarrow> string" where
  "criteria_dimension_value c dim_name =
     (case find (\<lambda>(dim, _). dim = dim_name) coverage_dimensions of None \<Rightarrow> [] | Some (_, f) \<Rightarrow> crit_get f c)"

definition excluded_overlay_provides :: "metadata_store \<Rightarrow> string \<Rightarrow> string \<Rightarrow> excluded_overlay list \<Rightarrow> bool" where
  "excluded_overlay_provides s dim_name want excluded =
     list_ex (\<lambda>ex. case get_recipe_by_name s (xo_Name ex) of
        None \<Rightarrow> False
      | Some meta \<Rightarrow> (case rs_Criteria (rm_Spec meta) of
                        None \<Rightarrow> False | Some c \<Rightarrow> criteria_dimension_value c dim_name = want)) excluded"

fun singletons_from :: "string \<Rightarrow> string list \<Rightarrow> tuple list \<Rightarrow> (string \<times> string list) option" where
  "singletons_from key vals [] = Some (key, sort vals)"
| "singletons_from key vals (t # ts) =
     (case t of
        [(k, v)] \<Rightarrow>
          (let key' = (if key = [] then k else key)
           in if k \<noteq> key' then None else singletons_from key' (vals @ [v]) ts)
      | _ \<Rightarrow> None)"

definition same_dimension_singletons :: "tuple list \<Rightarrow> (string \<times> string list) option" where
  "same_dimension_singletons ts = singletons_from [] [] ts"

definition completion_clause :: "criteria \<Rightarrow> string \<Rightarrow> string \<Rightarrow> tuple list \<Rightarrow> bool \<Rightarrow> string" where
  "completion_clause q dim_name want ts only_excluded =
     (let stated_text = criteria_string q; quoted = [CHR 0x27] @ want @ [CHR 0x27] in
      if length ts = 0 then
        (if only_excluded then
           dim_name @ '' '' @ quoted @ '' for '' @ stated_text
             @ '' is provided only by overlays excluded by failing constraints (see excludedOverlays)''
         else ''no recipe provides '' @ dim_name @ '' '' @ quoted @ '' for '' @ stated_text)
      else (case same_dimension_singletons ts of
              Some (key, vals) \<Rightarrow>
                dim_name @ '' '' @ quoted @ '' for '' @ stated_text @ '' requires '' @ key
                  @ '' (valid: '' @ join_with '', '' vals @ '')''
            | None \<Rightarrow>
                dim_name @ '' '' @ quoted @ '' requires additional criteria; supported combinations: ''
                  @ join_with '', '' (map (\<lambda>t. ''('' @ tuple_key t @ '')'') ts)))"

record coverage_entry =
  ce_Dimension :: string
  ce_Requested :: string
  ce_Completions :: "tuple list"
  ce_ConstraintExcluded :: bool

definition coverage_entry_for :: "metadata_store \<Rightarrow> criteria \<Rightarrow> excluded_overlay list \<Rightarrow> string \<Rightarrow> coverage_entry" where
  "coverage_entry_for s q excluded dim_name =
     (let want = criteria_dimension_value q dim_name in
      \<lparr>ce_Dimension = dim_name, ce_Requested = want, ce_Completions = completion_tuples_for s q dim_name want,
       ce_ConstraintExcluded = excluded_overlay_provides s dim_name want excluded\<rparr>)"

definition coverage_entries :: "metadata_store \<Rightarrow> criteria \<Rightarrow> string list \<Rightarrow> excluded_overlay list \<Rightarrow> coverage_entry list" where
  "coverage_entries s q applied excluded = map (coverage_entry_for s q excluded) (uncovered_dimensions s q applied)"

definition entry_clause :: "criteria \<Rightarrow> coverage_entry \<Rightarrow> string" where
  "entry_clause q e =
     completion_clause q (ce_Dimension e) (ce_Requested e) (ce_Completions e)
       (length (ce_Completions e) = 0 \<and> ce_ConstraintExcluded e)"

definition verify_criteria_coverage ::
  "metadata_store \<Rightarrow> criteria \<Rightarrow> string list \<Rightarrow> excluded_overlay list \<Rightarrow> unit res" where
  "verify_criteria_coverage s q applied excluded =
     (let entries = coverage_entries s q applied excluded in
      if length entries = 0 then Inr ()
      else Inl (err_new ErrCodeInvalidRequest (join_with ''; '' (map (entry_clause q) entries)) []))"


subsection \<open>The post-condition\<close>

lemma specified_iff_stated: "is_specified_criteria_value v \<longleftrightarrow> stated v"
  by (auto simp: is_specified_criteria_value_def stated_def)

definition dim_of :: "criteria_field \<Rightarrow> string" where
  "dim_of f = (case f of FieldService \<Rightarrow> ''service'' | FieldAccelerator \<Rightarrow> ''accelerator'' | FieldIntent \<Rightarrow> ''intent''
     | FieldOS \<Rightarrow> ''os'' | FieldPlatform \<Rightarrow> ''platform'')"

lemma set_coverage_dimensions: "set coverage_dimensions = {(dim_of f, f) | f. True}"
proof -
  have "(d, f) \<in> set coverage_dimensions \<longleftrightarrow> d = dim_of f" for d f
    by (cases f) (auto simp: coverage_dimensions_def dim_of_def)
  then show ?thesis by auto
qed

lemma dim_of_inject [simp]: "dim_of f = dim_of g \<longleftrightarrow> f = g"
  by (cases f; cases g; simp add: dim_of_def)

lemma dim_of_not_Nil [simp]: "dim_of f \<noteq> []"
  by (cases f) (simp_all add: dim_of_def)

lemma distinct_dimensions: "distinct (map fst coverage_dimensions)"
  by (simp add: coverage_dimensions_def)

lemma criteria_dimension_value_dim [simp]: "criteria_dimension_value c (dim_of f) = crit_get f c"
  by (cases f) (simp_all add: criteria_dimension_value_def coverage_dimensions_def dim_of_def)

lemma set_uncovered:
  "set (uncovered_dimensions s q applied) =
     {dim_of f | f. stated (crit_get f q) \<and> (\<forall>n \<in> set applied. \<not> carries s f (crit_get f q) n)}"
  by (auto simp: uncovered_dimensions_def set_coverage_dimensions specified_iff_stated list_ex_iff image_iff)

lemma verify_ok_iff: "is_ok (verify_criteria_coverage s q applied excluded) \<longleftrightarrow> uncovered_dimensions s q applied = []"
  by (simp add: verify_criteria_coverage_def coverage_entries_def Let_def)

subsection \<open>Completion tuples\<close>

definition required :: "criteria \<Rightarrow> criteria \<Rightarrow> string \<Rightarrow> (string \<times> criteria_field) list \<Rightarrow> tuple" where
  "required q oc d dims =
     map (\<lambda>(dim, f). (dim, crit_get f oc))
       (filter (\<lambda>(dim, f). dim \<noteq> d \<and> stated (crit_get f oc) \<and> \<not> stated (crit_get f q)) dims)"

lemma completion_loop_iff:
  "distinct (map fst dims) \<Longrightarrow> fst ` set t \<inter> fst ` set dims = {} \<Longrightarrow>
   completion_loop q oc d w dims t carried = Some t' \<longleftrightarrow>
     (\<forall>(dim, f) \<in> set dims. if dim = d then crit_get f oc = w
        else stated (crit_get f oc) \<longrightarrow> stated (crit_get f q) \<longrightarrow> crit_get f q = crit_get f oc) \<and>
     (carried \<or> d \<in> fst ` set dims) \<and> t' = t @ required q oc d dims"
proof (induction q oc d w dims t carried rule: completion_loop.induct)
  case (1 q oc d w t carried)
  then show ?case by (auto simp: required_def)
next
  case (2 q oc d w dim f dims t carried)
  let ?v = "crit_get f oc"
  have prem: "distinct (map fst dims)" "fst ` set t \<inter> fst ` set dims = {}" "dim \<notin> fst ` set t" "dim \<notin> fst ` set dims"
    using 2(5,6) by auto
  consider "dim = d" "?v \<noteq> w" | "dim = d" "?v = w" | "dim \<noteq> d" "\<not> stated ?v"
    | "dim \<noteq> d" "stated ?v" "stated (crit_get f q)" "crit_get f q \<noteq> ?v"
    | "dim \<noteq> d" "stated ?v" "stated (crit_get f q)" "crit_get f q = ?v"
    | "dim \<noteq> d" "stated ?v" "\<not> stated (crit_get f q)" by metis
  then show ?case
  proof cases
    case 2
    then show ?thesis using "2.IH"(1) [OF refl] prem by (auto simp: required_def Let_def)
  next
    case 3
    then show ?thesis using "2.IH"(2) [OF refl] prem by (auto simp: required_def Let_def specified_iff_stated)
  next
    case 5
    then show ?thesis using "2.IH"(3) [OF refl] prem by (auto simp: required_def Let_def specified_iff_stated)
  next
    case 6
    have "fst ` set (upsert dim ?v t) \<inter> fst ` set dims = {}" using prem by auto
    then show ?thesis
      using "2.IH"(4) [OF refl] prem 6 by (auto simp: required_def Let_def specified_iff_stated upsert_fresh)
  qed (auto simp: Let_def specified_iff_stated)
qed

lemma completion_tuple_iff:
  "completion_tuple q oc (dim_of g) w = Some t \<longleftrightarrow>
     crit_get g oc = w \<and>
     (\<forall>f. f \<noteq> g \<longrightarrow> stated (crit_get f oc) \<longrightarrow> stated (crit_get f q) \<longrightarrow> crit_get f q = crit_get f oc) \<and>
     t = required q oc (dim_of g) coverage_dimensions"
proof -
  have "dim_of g \<in> fst ` set coverage_dimensions" by (auto simp: set_coverage_dimensions image_iff)
  then show ?thesis
    unfolding completion_tuple_def
    by (subst completion_loop_iff [OF distinct_dimensions]) (auto simp: set_coverage_dimensions split: if_splits)
qed

lemma set_required:
  "set (required q oc (dim_of g) coverage_dimensions) =
     {(dim_of f, crit_get f oc) | f. f \<noteq> g \<and> stated (crit_get f oc) \<and> \<not> stated (crit_get f q)}"
  by (auto simp: required_def set_coverage_dimensions image_iff)

lemma distinct_required: "distinct (map fst (required q oc d coverage_dimensions))"
proof -
  have "map fst (required q oc d dims) = map fst (filter (\<lambda>(dim, f). dim \<noteq> d \<and> stated (crit_get f oc) \<and> \<not> stated (crit_get f q)) dims)" for dims
    by (induction dims) (auto simp: required_def)
  moreover have "distinct (map fst (filter P coverage_dimensions))" for P
    using distinct_dimensions by (simp add: distinct_map_filter)
  ultimately show ?thesis by simp
qed

text \<open>The query with the suggested values filled in.\<close>

definition extend_query :: "criteria \<Rightarrow> tuple \<Rightarrow> criteria" where
  "extend_query q t = foldl (\<lambda>c (dim, f). case map_of t dim of None \<Rightarrow> c | Some v \<Rightarrow> crit_set f v c) q coverage_dimensions"

lemma crit_get_extend: "crit_get f (extend_query q t) = (case map_of t (dim_of f) of None \<Rightarrow> crit_get f q | Some v \<Rightarrow> v)"
proof -
  have step: "crit_get f (foldl (\<lambda>c (dim, f). case map_of t dim of None \<Rightarrow> c | Some v \<Rightarrow> crit_set f v c) q dims) =
      (if (dim_of f, f) \<in> set dims then (case map_of t (dim_of f) of None \<Rightarrow> crit_get f q | Some v \<Rightarrow> v) else crit_get f q)"
    if "set dims \<subseteq> set coverage_dimensions" "distinct (map fst dims)" for dims
    using that
  proof (induction dims rule: rev_induct)
    case (snoc x dims)
    then obtain g where x: "x = (dim_of g, g)" by (auto simp: set_coverage_dimensions)
    show ?case using snoc by (auto simp: x split: option.split)
  qed simp
  have "(dim_of f, f) \<in> set coverage_dimensions" by (simp add: set_coverage_dimensions)
  then show ?thesis using step [OF subset_refl distinct_dimensions] by (simp add: extend_query_def)
qed

lemma completion_matches:
  assumes "completion_tuple q oc (dim_of g) (crit_get g q) = Some t"
  shows "matches (Some oc) (Some (extend_query q t))"
proof -
  have t: "t = required q oc (dim_of g) coverage_dimensions" "crit_get g oc = crit_get g q"
    "\<And>f. f \<noteq> g \<Longrightarrow> stated (crit_get f oc) \<Longrightarrow> stated (crit_get f q) \<Longrightarrow> crit_get f q = crit_get f oc"
    using assms unfolding completion_tuple_iff by auto
  have "distinct (map fst t)" by (simp add: t(1) distinct_required)
  then have lookup: "map_of t k = Some v \<longleftrightarrow> (k, v) \<in> set t" for k v by simp
  have "crit_get f (extend_query q t) = crit_get f oc" if "stated (crit_get f oc)" for f
  proof (cases "f \<noteq> g \<and> \<not> stated (crit_get f q)")
    case True
    then have "map_of t (dim_of f) = Some (crit_get f oc)" using that set_required [of q oc g] lookup t(1) by blast
    then show ?thesis by (simp add: crit_get_extend)
  next
    case False
    then have "map_of t (dim_of f) = None"
      unfolding map_of_eq_None_iff t(1) set_required by auto
    then show ?thesis using False t(2,3) that by (cases "f = g") (auto simp: crit_get_extend)
  qed
  then show ?thesis by (simp add: matches_iff)
qed


subsection \<open>Minimal tuples\<close>

lemma seen_keyed:
  "keyed tuple_key (foldl (\<lambda>seen t. if length t = 0 then seen else upsert (tuple_key t) t seen) [] ts)"
  by (induction ts rule: rev_induct) (auto simp: keyed_upsert, simp add: keyed_def)

lemma unique_tuples_facts:
  "distinct (map tuple_key (unique_tuples ts))" "set (unique_tuples ts) \<subseteq> {t \<in> set ts. t \<noteq> []}"
  "t \<in> set ts \<Longrightarrow> t \<noteq> [] \<Longrightarrow> \<exists>u \<in> set (unique_tuples ts). tuple_key u = tuple_key t"
proof -
  let ?f = "\<lambda>seen t. if length t = 0 then seen else upsert (tuple_key t) t seen"
  show "distinct (map tuple_key (unique_tuples ts))"
    unfolding unique_tuples_def by (rule keyed_distinct_snd [OF seen_keyed])
  show "set (unique_tuples ts) \<subseteq> {t \<in> set ts. t \<noteq> []}"
    unfolding unique_tuples_def
  proof (induction ts rule: rev_induct)
    case (snoc t ts)
    have "snd ` set (upsert (tuple_key t) t (foldl ?f [] ts)) \<subseteq> insert t (snd ` set (foldl ?f [] ts))"
      using image_mono [OF set_upsert_subset [of "tuple_key t" t "foldl ?f [] ts"], of snd] by simp
    then show ?case using snoc by auto
  qed simp
  show "\<exists>u \<in> set (unique_tuples ts). tuple_key u = tuple_key t" if t: "t \<in> set ts" "t \<noteq> []"
  proof -
    have "tuple_key t \<in> fst ` set (foldl ?f [] ts)"
      using t by (induction ts rule: rev_induct) (simp_all, blast)
    also have "fst ` set (foldl ?f [] ts) = set (map tuple_key (unique_tuples ts))"
      unfolding unique_tuples_def keyed_map_snd [OF seen_keyed] by simp
    finally show ?thesis by (simp add: image_iff) metis
  qed
qed

lemma subset_tuple_shorter: "is_subset_tuple u t \<Longrightarrow> length u < length t"
  by (auto simp: is_subset_tuple_def split: if_splits)

lemma minimal_tuples_facts:
  "set (minimal_tuples ts) \<subseteq> {t \<in> set ts. t \<noteq> []}"
  "t \<in> set (minimal_tuples ts) \<Longrightarrow> u \<in> set (minimal_tuples ts) \<Longrightarrow> \<not> is_subset_tuple u t"
  "minimal_tuples ts = [] \<longleftrightarrow> (\<forall>t \<in> set ts. t = [])"
proof -
  let ?u = "unique_tuples ts"
  have set: "set (minimal_tuples ts) = {t \<in> set ?u. \<not> (\<exists>u \<in> set ?u. tuple_key u \<noteq> tuple_key t \<and> is_subset_tuple u t)}"
    by (auto simp: minimal_tuples_def Let_def list_ex_iff)
  show sub: "set (minimal_tuples ts) \<subseteq> {t \<in> set ts. t \<noteq> []}" using unique_tuples_facts(2) [of ts] unfolding set by blast
  have inj: "inj_on tuple_key (set ?u)" using unique_tuples_facts(1) [of ts] by (simp add: distinct_map)
  show "\<not> is_subset_tuple u t" if "t \<in> set (minimal_tuples ts)" "u \<in> set (minimal_tuples ts)" for t u
    using that subset_tuple_shorter [of u t] inj unfolding set inj_on_def by blast
  show "minimal_tuples ts = [] \<longleftrightarrow> (\<forall>t \<in> set ts. t = [])"
  proof
    assume empty: "minimal_tuples ts = []"
    have "set ?u = {}"
    proof (rule ccontr)
      assume "set ?u \<noteq> {}"
      then obtain t0 where "t0 \<in> set ?u" by (meson all_not_in_conv)
      from ex_has_least_nat [of "\<lambda>t. t \<in> set ?u", OF this, of length]
      obtain t where t: "t \<in> set ?u" "\<And>u. u \<in> set ?u \<Longrightarrow> length t \<le> length u" by blast
      then have "t \<in> set (minimal_tuples ts)" using subset_tuple_shorter unfolding set by fastforce
      then show False by (simp add: empty)
    qed
    then show "\<forall>t \<in> set ts. t = []" using unique_tuples_facts(3) [of _ ts] by auto
  next
    assume "\<forall>t \<in> set ts. t = []"
    then show "minimal_tuples ts = []" using sub by (cases "minimal_tuples ts") auto
  qed
qed

definition completes :: "metadata_store \<Rightarrow> criteria \<Rightarrow> string \<Rightarrow> string \<Rightarrow> tuple \<Rightarrow> recipe_metadata \<Rightarrow> bool" where
  "completes s q d w t ov \<longleftrightarrow>
     map_of (ms_Overlays s) (rm_Name ov) = Some ov \<and>
     (\<exists>oc. rs_Criteria (rm_Spec ov) = Some oc \<and> completion_tuple q oc d w = Some t)"

lemma candidate_tuples:
  assumes "store_wf s"
  shows "t \<in> set (concat (map (\<lambda>(_, ov). case rs_Criteria (rm_Spec ov) of
         None \<Rightarrow> []
       | Some oc \<Rightarrow> (case completion_tuple q oc d w of None \<Rightarrow> [] | Some t \<Rightarrow> [t])) (ms_Overlays s))) \<longleftrightarrow>
     (\<exists>ov. completes s q d w t ov)" (is "?l \<longleftrightarrow> ?r")
proof -
  have "?l \<longleftrightarrow> (\<exists>ov \<in> set (map snd (ms_Overlays s)). \<exists>oc. rs_Criteria (rm_Spec ov) = Some oc \<and> completion_tuple q oc d w = Some t)"
    by (force split: option.splits)
  then show ?thesis unfolding overlay_entries [OF assms] completes_def by blast
qed

lemma completions_from_overlay:
  assumes "store_wf s" "t \<in> set (completion_tuples_for s q d w)"
  shows "t \<noteq> [] \<and> (\<exists>ov. completes s q d w t ov)"
  using assms(2) minimal_tuples_facts(1) unfolding completion_tuples_for_def candidate_tuples [OF assms(1), symmetric] by blast

lemma completions_empty_iff:
  assumes "store_wf s"
  shows "completion_tuples_for s q d w = [] \<longleftrightarrow> (\<forall>t ov. completes s q d w t ov \<longrightarrow> t = [])"
  unfolding completion_tuples_for_def minimal_tuples_facts(3) Ball_def candidate_tuples [OF assms] by blast

lemma completes_facts:
  assumes "completes s q (dim_of g) (crit_get g q) t ov"
  shows "overlay_matches (extend_query q t) ov"
    "\<exists>oc. rs_Criteria (rm_Spec ov) = Some oc \<and> crit_get g oc = crit_get g q"
    "(d, v) \<in> set t \<Longrightarrow> \<exists>f. d = dim_of f \<and> \<not> stated (crit_get f q) \<and> stated v"
proof -
  obtain oc where oc: "rs_Criteria (rm_Spec ov) = Some oc" "completion_tuple q oc (dim_of g) (crit_get g q) = Some t"
    using assms by (auto simp: completes_def)
  show "overlay_matches (extend_query q t) ov"
    using completion_matches [OF oc(2)] oc(1) by (simp add: overlay_matches_def)
  show "\<exists>oc. rs_Criteria (rm_Spec ov) = Some oc \<and> crit_get g oc = crit_get g q"
    using oc by (simp add: completion_tuple_iff)
  show "\<exists>f. d = dim_of f \<and> \<not> stated (crit_get f q) \<and> stated v" if "(d, v) \<in> set t"
    using oc(2) that by (auto simp: completion_tuple_iff set_required)
qed

lemma entry_dimension:
  "e \<in> set (coverage_entries s q applied excluded) \<Longrightarrow>
   \<exists>g. stated (crit_get g q) \<and> e = coverage_entry_for s q excluded (dim_of g)"
  by (auto simp: coverage_entries_def set_uncovered)

text \<open>
  Property C10: coverage is exact and its advice is honest. Resolution passes the check exactly when every stated
  dimension of the query is carried, with the stated value, by an applied recipe. Otherwise each
  completion that the error suggests only names dimensions the query left open, and with them filled in some overlay that
  carries the missing value matches the query; no suggestion contains another; and nothing is suggested only
  if no compatible overlay carries the value and requires something more.
\<close>

theorem coverage_exact_and_advice_honest:
  assumes "store_wf s"
  shows "(is_ok (verify_criteria_coverage s q applied excluded) \<longleftrightarrow>
            (\<forall>f. stated (crit_get f q) \<longrightarrow> (\<exists>n \<in> set applied. carries s f (crit_get f q) n))) \<and>
     (\<forall>e \<in> set (coverage_entries s q applied excluded). \<exists>g. ce_Dimension e = dim_of g \<and> ce_Requested e = crit_get g q \<and>
        (\<forall>t \<in> set (ce_Completions e).
           (\<forall>(d, v) \<in> set t. \<exists>f. d = dim_of f \<and> \<not> stated (crit_get f q) \<and> stated v) \<and>
           (\<exists>ov oc. map_of (ms_Overlays s) (rm_Name ov) = Some ov \<and> overlay_matches (extend_query q t) ov \<and>
                    rs_Criteria (rm_Spec ov) = Some oc \<and> crit_get g oc = crit_get g q) \<and>
           (\<forall>u \<in> set (ce_Completions e). \<not> is_subset_tuple u t)) \<and>
        (ce_Completions e = [] \<longrightarrow>
           (\<forall>t ov. completes s q (dim_of g) (crit_get g q) t ov \<longrightarrow> t = [])))"
proof (intro conjI ballI)
  show "is_ok (verify_criteria_coverage s q applied excluded) \<longleftrightarrow>
      (\<forall>f. stated (crit_get f q) \<longrightarrow> (\<exists>n \<in> set applied. carries s f (crit_get f q) n))"
    unfolding verify_ok_iff set_empty [symmetric] set_uncovered by blast
next
  fix e assume "e \<in> set (coverage_entries s q applied excluded)"
  then obtain g where e: "e = coverage_entry_for s q excluded (dim_of g)" using entry_dimension by blast
  let ?ts = "completion_tuples_for s q (dim_of g) (crit_get g q)"
  have fields: "ce_Dimension e = dim_of g" "ce_Requested e = crit_get g q" "ce_Completions e = ?ts"
    by (simp_all add: e coverage_entry_for_def Let_def)
  have adv: "(\<forall>(d, v) \<in> set t. \<exists>f. d = dim_of f \<and> \<not> stated (crit_get f q) \<and> stated v) \<and>
      (\<exists>ov oc. map_of (ms_Overlays s) (rm_Name ov) = Some ov \<and> overlay_matches (extend_query q t) ov \<and>
               rs_Criteria (rm_Spec ov) = Some oc \<and> crit_get g oc = crit_get g q) \<and>
      (\<forall>u \<in> set ?ts. \<not> is_subset_tuple u t)" if t: "t \<in> set ?ts" for t
  proof -
    obtain ov where ov: "completes s q (dim_of g) (crit_get g q) t ov" using completions_from_overlay [OF assms t] by blast
    then have "map_of (ms_Overlays s) (rm_Name ov) = Some ov" by (simp add: completes_def)
    moreover have "\<forall>u \<in> set ?ts. \<not> is_subset_tuple u t"
      using minimal_tuples_facts(2) t unfolding completion_tuples_for_def by blast
    ultimately show ?thesis using completes_facts [OF ov] by blast
  qed
  show "\<exists>g. ce_Dimension e = dim_of g \<and> ce_Requested e = crit_get g q \<and>
        (\<forall>t \<in> set (ce_Completions e).
           (\<forall>(d, v) \<in> set t. \<exists>f. d = dim_of f \<and> \<not> stated (crit_get f q) \<and> stated v) \<and>
           (\<exists>ov oc. map_of (ms_Overlays s) (rm_Name ov) = Some ov \<and> overlay_matches (extend_query q t) ov \<and>
                    rs_Criteria (rm_Spec ov) = Some oc \<and> crit_get g oc = crit_get g q) \<and>
           (\<forall>u \<in> set (ce_Completions e). \<not> is_subset_tuple u t)) \<and>
        (ce_Completions e = [] \<longrightarrow>
           (\<forall>t ov. completes s q (dim_of g) (crit_get g q) t ov \<longrightarrow> t = []))"
    unfolding fields using adv completions_empty_iff [OF assms] fields(1,2) by (intro exI [of _ g]) blast
qed

definition h100_query :: criteria where
  "h100_query = new_criteria \<lparr>c_Accelerator := ''h100''\<rparr>"

lemma coverage_exact_and_advice_honest_witness:
  "\<exists>e g. coverage_entries sample_store h100_query [''base''] [] = [e] \<and> ce_Dimension e = dim_of g \<and>
     ce_Completions e = [[(''service'', ''eks'')]] \<and>
     (\<exists>ov. overlay_matches (extend_query h100_query [(''service'', ''eks'')]) ov)"
proof -
  let ?es = "coverage_entries sample_store h100_query [''base''] []"
  have es: "map ce_Completions ?es = [[[(''service'', ''eks'')]]]" by code_simp
  then obtain e where e: "?es = [e]" "ce_Completions e = [[(''service'', ''eks'')]]" by auto
  from coverage_exact_and_advice_honest [OF sample_store_wf, of h100_query "[''base'']" "[]"] e
  show ?thesis by (auto simp: Ball_def)
qed


subsection \<open>Following the advice\<close>

lemma reaches_root_above: "on_path s m n \<Longrightarrow> reaches_root s n \<Longrightarrow> reaches_root s m"
  by (induction rule: on_path.induct) (auto intro: reaches_root.up)

text \<open>A catalog in which every overlay has a name of its own and inherits, in the end, from the base.\<close>

definition catalog_rooted :: "metadata_store \<Rightarrow> bool" where
  "catalog_rooted s \<longleftrightarrow> store_wf s \<and> (\<forall>(n, _) \<in> set (ms_Overlays s). \<not> is_root n \<and> reaches_root s n)"

lemma catalog_rooted_lookup:
  "catalog_rooted s \<Longrightarrow> map_of (ms_Overlays s) n = Some ov \<Longrightarrow> \<not> is_root n \<and> reaches_root s n \<and> rm_Name ov = n"
  by (auto simp: catalog_rooted_def store_wf_def dest: map_of_SomeD)

text \<open>An overlay that matches is a candidate or is inherited by one.\<close>

lemma matching_below_candidate:
  assumes "catalog_rooted s" "map_of (ms_Overlays s) n = Some ov" "overlay_matches q ov"
  shows "\<exists>cand \<in> set (find_matching_overlays s q). on_path s (rm_Name cand) n"
proof (rule ccontr)
  assume none: "\<not> (\<exists>cand \<in> set (find_matching_overlays s q). on_path s (rm_Name cand) n)"
  have wf: "store_wf s" using assms(1) by (simp add: catalog_rooted_def)
  note stored = catalog_rooted_lookup [OF assms(1)]
  define A where "A = {m. map_of (ms_Overlays s) (rm_Name m) = Some m \<and> overlay_matches q m \<and> on_path s (rm_Name m) n}"
  define R where "R x y \<longleftrightarrow> x \<in> A \<and> y \<in> A \<and> on_path s (rs_Base (rm_Spec y)) (rm_Name x)" for x y
  have "A \<subseteq> set (map snd (ms_Overlays s))" unfolding A_def overlay_entries [OF wf] by blast
  then have fin: "finite A" by (rule finite_subset) simp
  have "A = {}"
  proof (rule finite_transitivity_chain [where R = R, OF fin])
    show "\<not> R x x" for x
    proof
      assume "R x x"
      then have "map_of (ms_Overlays s) (rm_Name x) = Some x" "on_path s (rm_Name x) n" "on_path s (rs_Base (rm_Spec x)) (rm_Name x)"
        by (auto simp: R_def A_def)
      then show False using reaches_root_acyclic stored by blast
    qed
    show "R x z" if "R x y" "R y z" for x y z
      using that on_path.up [of "rm_Name y" s y "rm_Name x"] on_path_trans on_path_not_root
      unfolding R_def A_def by blast
    show "\<exists>y. y \<in> A \<and> R x y" if asm: "x \<in> A" for x
    proof -
      have "x \<notin> set (find_matching_overlays s q)" using none asm by (auto simp: A_def)
      then have "dominated s q x" using asm unfolding set_find_matching [OF wf] by (auto simp: A_def)
      then obtain d where d: "map_of (ms_Overlays s) (rm_Name d) = Some d" "overlay_matches q d"
        "on_path s (rs_Base (rm_Spec d)) (rm_Name x)" by (auto simp: dominated_def)
      have "on_path s (rs_Base (rm_Spec d)) n" using on_path_trans [OF d(3)] asm by (simp add: A_def)
      moreover have "\<not> is_root (rm_Name d)" using stored [OF d(1)] by simp
      ultimately have "d \<in> A" using on_path.up [OF _ d(1)] d by (simp add: A_def)
      then show ?thesis using asm d(3) by (auto simp: R_def)
    qed
  qed
  moreover have "ov \<in> A" using assms(2,3) stored [OF assms(2)] on_path.here by (simp add: A_def)
  ultimately show False by simp
qed

lemma matching_is_applied:
  assumes "catalog_rooted s" "map_of (ms_Overlays s) n = Some ov" "overlay_matches q ov"
    and "merge_overlay_chains s (find_matching_overlays s q) (init_base_merged_spec s) = Inr (spec, applied)"
  shows "n \<in> set applied"
proof -
  have wf: "store_wf s" using assms(1) by (simp add: catalog_rooted_def)
  obtain cand where "cand \<in> set (find_matching_overlays s q)" "on_path s (rm_Name cand) n"
    using matching_below_candidate [OF assms(1-3)] by blast
  then show ?thesis using merged_chains [OF wf assms(4)] by auto
qed

text \<open>
  Property C11: the advice works. In a catalog whose overlays all lead to the base recipe, take a query for which a
  dimension is uncovered, fill in any completion the error suggests for it, and resolve again: composition
  succeeds and the dimension is now carried by an applied recipe, whatever else the query states.
\<close>

theorem following_advice_covers:
  assumes "catalog_rooted s" "e \<in> set (coverage_entries s q applied excluded)" "t \<in> set (ce_Completions e)"
  shows "\<exists>spec applied'.
     merge_overlay_chains s (find_matching_overlays s (extend_query q t)) (init_base_merged_spec s) = Inr (spec, applied') \<and>
     ce_Dimension e \<notin> set (uncovered_dimensions s (extend_query q t) applied')"
proof -
  have wf: "store_wf s" using assms(1) by (simp add: catalog_rooted_def)
  let ?q = "extend_query q t"
  obtain g where g: "stated (crit_get g q)" "e = coverage_entry_for s q excluded (dim_of g)"
    using entry_dimension [OF assms(2)] by blast
  then have dim: "ce_Dimension e = dim_of g" and t: "t \<in> set (completion_tuples_for s q (dim_of g) (crit_get g q))"
    using assms(3) by (simp_all add: coverage_entry_for_def Let_def)
  obtain ov where ov: "completes s q (dim_of g) (crit_get g q) t ov" using completions_from_overlay [OF wf t] by blast
  then have stored: "map_of (ms_Overlays s) (rm_Name ov) = Some ov" by (simp add: completes_def)
  obtain oc where oc: "rs_Criteria (rm_Spec ov) = Some oc" "crit_get g oc = crit_get g q" using completes_facts(2) [OF ov] by blast
  have g_kept: "crit_get g ?q = crit_get g q"
  proof -
    have "dim_of g \<notin> fst ` set t" using completes_facts(3) [OF ov] g(1) by force
    then show ?thesis by (simp add: crit_get_extend map_of_eq_None_iff [THEN iffD2])
  qed
  obtain spec applied' where m: "merge_overlay_chains s (find_matching_overlays s ?q) (init_base_merged_spec s) = Inr (spec, applied')"
  proof (cases "merge_overlay_chains s (find_matching_overlays s ?q) (init_base_merged_spec s)")
    case (Inl e)
    then obtain cand where cand: "cand \<in> set (find_matching_overlays s ?q)" "\<not> reaches_root s (rm_Name cand)"
      using merge_overlay_chains_cases [OF wf, of "find_matching_overlays s ?q"] by auto
    then have "map_of (ms_Overlays s) (rm_Name cand) = Some cand" using set_find_matching [OF wf] by blast
    then show ?thesis using cand(2) catalog_rooted_lookup [OF assms(1)] by blast
  next
    case (Inr p)
    then show ?thesis using that by (cases p) simp
  qed
  have "rm_Name ov \<in> set applied'"
    using matching_is_applied [OF assms(1) stored completes_facts(1) [OF ov] m] .
  moreover have "carries s g (crit_get g ?q) (rm_Name ov)"
    using catalog_rooted_lookup [OF assms(1) stored] stored oc g_kept by (simp add: carries_def get_recipe_by_name_def)
  ultimately have "dim_of g \<notin> set (uncovered_dimensions s ?q applied')"
    by (auto simp: set_uncovered)
  then show ?thesis using m dim by auto
qed

definition rooted_store :: metadata_store where
  "rooted_store = sample_store \<lparr>ms_Overlays := butlast (ms_Overlays sample_store)\<rparr>"

lemma following_advice_covers_witness:
  "\<exists>spec applied'.
     merge_overlay_chains rooted_store (find_matching_overlays rooted_store (extend_query h100_query [(''service'', ''eks'')]))
       (init_base_merged_spec rooted_store) = Inr (spec, applied') \<and>
     ''accelerator'' \<notin> set (uncovered_dimensions rooted_store (extend_query h100_query [(''service'', ''eks'')]) applied')"
proof -
  have "reaches_root rooted_store ''eks''" "reaches_root rooted_store ''eks-h100''"
    unfolding resolve_ok_iff [symmetric] by code_simp+
  then have rooted: "catalog_rooted rooted_store"
    by (auto simp: catalog_rooted_def store_wf_def rooted_store_def sample_store_def overlay_of_def is_root_def base_recipe_name_def)
  let ?es = "coverage_entries rooted_store h100_query [''base''] []"
  have es: "map ce_Completions ?es = [[[(''service'', ''eks'')]]]" "map ce_Dimension ?es = [''accelerator'']" by code_simp+
  then obtain e where e: "?es = [e]" "ce_Completions e = [[(''service'', ''eks'')]]" "ce_Dimension e = ''accelerator''" by auto
  show ?thesis
    using following_advice_covers [OF rooted, of e h100_query "[''base'']" "[]" "[(''service'', ''eks'')]"] e by simp
qed

end
