(* ===== verification/Alloc_Policy.thy ===== *)
theory Alloc_Policy
  imports Aicr_Errors
begin

section \<open>The GPU allocation policy (pkg/allocpolicy)\<close>

text \<open>
  The descriptor of policy-selecting value paths, the vocabulary of advertisers, the one evaluator of the
  advertiser rules (\<open>CheckCoherence\<close>) and the identity of a set of descriptor entries. A pointer to a
  boolean is an option. The hash of \<open>IdentityFor\<close> is a parameter.
\<close>

definition AdvertiserExternal :: string where "AdvertiserExternal = ''external''"

definition ComponentDRADriver :: string where "ComponentDRADriver = ''nvidia-dra-driver-gpu''"
definition ComponentGPUOperator :: string where "ComponentGPUOperator = ''gpu-operator''"
definition ComponentGPUOperatorOCP :: string where "ComponentGPUOperatorOCP = ''gpu-operator-ocp''"
definition ComponentDRADriverOCP :: string where "ComponentDRADriverOCP = ''nvidia-dra-driver-gpu-ocp''"
definition PathDRAGPUsEnabled :: string where "PathDRAGPUsEnabled = ''resources.gpus.enabled''"
definition PathDRAGPUsEnabledOverride :: string where "PathDRAGPUsEnabledOverride = ''gpuResourcesEnabledOverride''"
definition PathDevicePluginEnabled :: string where "PathDevicePluginEnabled = ''devicePlugin.enabled''"

lemmas policy_names =
  ComponentDRADriver_def ComponentGPUOperator_def ComponentGPUOperatorOCP_def ComponentDRADriverOCP_def
  PathDRAGPUsEnabled_def PathDRAGPUsEnabledOverride_def PathDevicePluginEnabled_def AdvertiserExternal_def

record entry =
  en_Component :: string
  en_SelectorPaths :: "string list"

definition descriptor :: "entry list" where
  "descriptor =
     [\<lparr>en_Component = ComponentGPUOperator, en_SelectorPaths = [PathDevicePluginEnabled]\<rparr>,
      \<lparr>en_Component = ComponentGPUOperatorOCP, en_SelectorPaths = [PathDevicePluginEnabled]\<rparr>,
      \<lparr>en_Component = ComponentDRADriver, en_SelectorPaths = [PathDRAGPUsEnabledOverride, PathDRAGPUsEnabled]\<rparr>,
      \<lparr>en_Component = ComponentDRADriverOCP, en_SelectorPaths = [PathDRAGPUsEnabledOverride, PathDRAGPUsEnabled]\<rparr>]"

definition selector_paths :: "string \<Rightarrow> string list" where
  "selector_paths component =
     (case find (\<lambda>e. en_Component e = component) descriptor of None \<Rightarrow> [] | Some e \<Rightarrow> en_SelectorPaths e)"

definition validate_advertiser :: "string \<Rightarrow> unit res" where
  "validate_advertiser advertiser =
     (if advertiser = [] \<or> advertiser = AdvertiserExternal then Inr ()
      else Inl (err_new ErrCodeInvalidRequest ''unknown advertiser %q; the only supported value is %q''
                  [advertiser, AdvertiserExternal]))"

record observation =
  ob_Advertiser :: string
  ob_DevicePluginEnabled :: "bool option"
  ob_DRAGPUsEnabled :: "bool option"
  ob_DRAGPUsEnabledOverride :: "bool option"
  ob_GPUOperatorComponent :: string

definition check_coherence :: "observation \<Rightarrow> unit res" where
  "check_coherence ob =
     (case validate_advertiser (ob_Advertiser ob) of
        Inl err \<Rightarrow> Inl err
      | Inr _ \<Rightarrow>
          (let device_plugin = (ob_DevicePluginEnabled ob = Some True);
               gpus = (ob_DRAGPUsEnabled ob = Some True);
               waiver = (ob_DRAGPUsEnabledOverride ob = Some True);
               operator_name = (if ob_GPUOperatorComponent ob = [] then ComponentGPUOperator else ob_GPUOperatorComponent ob)
           in if ob_Advertiser ob = AdvertiserExternal then
                (if device_plugin then
                   Inl (err_new ErrCodeInvalidRequest ''advertiser external conflicts with devicePlugin.enabled=true'' [])
                 else if gpus then
                   Inl (err_new ErrCodeInvalidRequest ''advertiser external conflicts with DRA resources.gpus.enabled=true'' [])
                 else if waiver then
                   Inl (err_new ErrCodeInvalidRequest ''invalid GPU allocation configuration: %s %s=true with %s=false is an inert waiver''
                          [ComponentDRADriver, PathDRAGPUsEnabledOverride, PathDRAGPUsEnabled])
                 else Inr ())
              else if gpus then
                (if \<not> waiver then
                   Inl (err_new ErrCodeInvalidRequest ''invalid GPU allocation configuration: %s %s=true requires %s=true''
                          [ComponentDRADriver, PathDRAGPUsEnabled, PathDRAGPUsEnabledOverride])
                 else if device_plugin then
                   Inl (err_new ErrCodeInvalidRequest ''invalid GPU allocation configuration: dual advertisement of %s %s and %s %s''
                          [ComponentDRADriver, PathDRAGPUsEnabled, operator_name, PathDevicePluginEnabled])
                 else Inr ())
              else if \<not> device_plugin then
                Inl (err_new ErrCodeInvalidRequest ''invalid GPU allocation configuration: no whole-GPU advertiser'' [])
              else if waiver then
                Inl (err_new ErrCodeInvalidRequest ''invalid GPU allocation configuration: %s %s=true with %s=false is an inert waiver''
                       [ComponentDRADriver, PathDRAGPUsEnabledOverride, PathDRAGPUsEnabled])
              else Inr ()))"

text \<open>
  The rules accept an observation exactly when the advertiser is one of the vocabulary, exactly one
  of the three mechanisms (external plugin, device plugin, DRA) advertises whole GPUs, and the install
  waiver is set just when DRA does.
\<close>

theorem check_coherence_exactly_one:
  "is_ok (check_coherence ob) \<longleftrightarrow>
     ob_Advertiser ob \<in> {[], AdvertiserExternal} \<and>
     length (filter id [ob_Advertiser ob = AdvertiserExternal, ob_DevicePluginEnabled ob = Some True, ob_DRAGPUsEnabled ob = Some True]) = 1 \<and>
     (ob_DRAGPUsEnabledOverride ob = Some True \<longleftrightarrow> ob_DRAGPUsEnabled ob = Some True)"
  by (auto simp: check_coherence_def validate_advertiser_def Let_def AdvertiserExternal_def)

subsection \<open>Identity of a set of entries\<close>

definition merge_entry_paths :: "(string \<times> string list) list \<Rightarrow> entry \<Rightarrow> (string \<times> string list) list" where
  "merge_entry_paths merged e =
     upsert (en_Component e)
       ((case map_of merged (en_Component e) of None \<Rightarrow> [] | Some ps \<Rightarrow> ps) @ en_SelectorPaths e) merged"

definition canonical_string_for :: "entry list \<Rightarrow> string" where
  "canonical_string_for entries =
     (let merged = foldl merge_entry_paths [] entries in
      concat (map (\<lambda>component.
        concat (map (\<lambda>path. component @ '':'' @ path @ [CHR 0x0A])
          (remdups_adj (sort (case map_of merged component of None \<Rightarrow> [] | Some ps \<Rightarrow> ps)))))
        (sort (map fst merged))))"

definition identity_for :: "(string \<Rightarrow> string) \<Rightarrow> entry list \<Rightarrow> string" where
  "identity_for sha256_hex entries = sha256_hex (canonical_string_for entries)"

definition entry_pairs :: "entry list \<Rightarrow> (string \<times> string) set" where
  "entry_pairs entries = {(en_Component e, p) | e p. e \<in> set entries \<and> p \<in> set (en_SelectorPaths e)}"

lemma merged_facts:
  "distinct (map fst (foldl merge_entry_paths [] entries))"
  "set (case map_of (foldl merge_entry_paths [] entries) c of None \<Rightarrow> [] | Some ps \<Rightarrow> ps) = {p. (c, p) \<in> entry_pairs entries}"
  by (induction entries rule: rev_induct)
    (auto simp: merge_entry_paths_def entry_pairs_def distinct_upsert split: option.splits)

lemma distinct_compact: "sorted xs \<Longrightarrow> distinct (remdups_adj (xs :: 'a::linorder list))"
proof (induction xs rule: remdups_adj.induct)
  case (3 x y xs)
  then show ?case by (cases "x = y") (auto simp: order.antisym)
qed auto

lemma sorted_compact_eq: "set xs = set ys \<Longrightarrow> remdups_adj (sort xs) = remdups_adj (sort (ys :: 'a::linorder list))"
  by (rule sorted_distinct_set_unique) (simp_all add: distinct_compact)

lemma concat_map_filter_Nil: "concat (map f (filter (\<lambda>x. f x \<noteq> []) xs)) = concat (map f xs)"
  by (induction xs) auto

text \<open>
  The identity of a set of descriptor entries depends only on which paths belong to which component:
  two lists of entries with the same pairs, in any order and with any repetition, have the same canonical
  text and so the same identity.
\<close>

theorem identity_depends_on_pairs:
  assumes "entry_pairs entries = entry_pairs entries'"
  shows "identity_for sha256_hex entries = identity_for sha256_hex entries'"
proof -
  define lines where "lines es c = concat (map (\<lambda>path. c @ '':'' @ path @ [CHR 0x0A])
      (remdups_adj (sort (case map_of (foldl merge_entry_paths [] es) c of None \<Rightarrow> [] | Some ps \<Rightarrow> ps))))" for es c
  have same: "lines entries c = lines entries' c" for c
    unfolding lines_def by (intro arg_cong [of _ _ concat] map_cong sorted_compact_eq refl) (simp add: merged_facts assms)
  have nonempty: "lines es c \<noteq> [] \<longleftrightarrow> (\<exists>p. (c, p) \<in> entry_pairs es)" for es c
  proof -
    let ?ps = "case map_of (foldl merge_entry_paths [] es) c of None \<Rightarrow> [] | Some ps \<Rightarrow> ps"
    have "lines es c \<noteq> [] \<longleftrightarrow> remdups_adj (sort ?ps) \<noteq> []"
      unfolding lines_def by (cases "remdups_adj (sort ?ps)") (simp_all del: remdups_adj_Nil_iff)
    also have "\<dots> \<longleftrightarrow> set ?ps \<noteq> {}" by (cases ?ps) (metis remdups_adj_Nil_iff set_empty set_sort)+
    finally have "lines es c \<noteq> [] \<longleftrightarrow> set ?ps \<noteq> {}" .
    then show ?thesis unfolding merged_facts(2) by blast
  qed
  have keys: "{c. \<exists>p. (c, p) \<in> entry_pairs es} \<subseteq> set (map fst (foldl merge_entry_paths [] es))" for es
  proof
    fix c assume "c \<in> {c. \<exists>p. (c, p) \<in> entry_pairs es}"
    then have "map_of (foldl merge_entry_paths [] es) c \<noteq> None" using merged_facts(2) [of es c] by (cases "map_of (foldl merge_entry_paths [] es) c") auto
    then show "c \<in> set (map fst (foldl merge_entry_paths [] es))" by (simp add: map_of_eq_None_iff)
  qed
  let ?cs = "\<lambda>es. filter (\<lambda>c. lines es c \<noteq> []) (sort (map fst (foldl merge_entry_paths [] es)))"
  have "?cs entries = ?cs entries'"
    by (rule sorted_distinct_set_unique)
      (use merged_facts(1) keys [of entries] keys [of entries'] assms in \<open>auto simp: nonempty sorted_filter [of id, simplified]\<close>)
  moreover have "canonical_string_for es = concat (map (lines es) (?cs es))" for es
    unfolding concat_map_filter_Nil canonical_string_for_def Let_def lines_def ..
  moreover have "lines entries = lines entries'" using same by (rule ext)
  ultimately show ?thesis by (simp add: identity_for_def)
qed

lemma identity_depends_on_pairs_witness:
  "identity_for id (descriptor @ rev descriptor) = identity_for id descriptor"
  by (rule identity_depends_on_pairs) (auto simp: entry_pairs_def)

end
