(* ===== verification/Value_Paths.thy ===== *)
theory Value_Paths
  imports Helm_Values Aicr_Errors "HOL-Library.Sublist"
begin

section \<open>Dotted value paths and their ownership (pkg/recipe/profile.go)\<close>

text \<open>
  A dotted path names a place in a map of values. Looking one up has three outcomes: the key is there
  (an explicit null counts), it is absent, or an ancestor is no map and blocks the way. Two paths intersect
  when they are equal or one is an ancestor of the other; configuration owners must not intersect.
  The last section shows why: a merge that touches no path intersecting a path leaves its observation alone.
\<close>

definition dot_split :: "string \<Rightarrow> string list" where
  "dot_split path = split_on (CHR ''.'') path"

datatype path_state = PathPresent | PathAbsent | PathBlocked

fun value_at :: "value_map \<Rightarrow> string list \<Rightarrow> gval \<times> path_state" where
  "value_at current [] = (VNull, PathAbsent)"
| "value_at current (part # parts) =
     (case map_of current part of
        None \<Rightarrow> (VNull, PathAbsent)
      | Some v \<Rightarrow>
          if parts = [] then (v, PathPresent)
          else (case v of VMap nxt \<Rightarrow> value_at nxt parts | _ \<Rightarrow> (VNull, PathBlocked)))"

definition profile_value_at_path :: "value_map \<Rightarrow> string \<Rightarrow> gval \<times> path_state" where
  "profile_value_at_path m path = value_at m (dot_split path)"

text \<open>
  The bytes of a value (pkg/serializer/yaml.go): the nodes of the YAML document with the keys of every mapping sorted, then
  encoded. \<open>emit\<close> stands for the YAML library, which writes a document with its keys in the order given; it fails only for
  Go types that a \<open>gval\<close> does not have.
\<close>

primrec sort_yaml_node :: "gval \<Rightarrow> gval" where
  "sort_yaml_node (VMap m) = VMap (sort_key fst (map (map_prod id sort_yaml_node) m))"
| "sort_yaml_node (VList vs) = VList (map sort_yaml_node vs)"
| "sort_yaml_node VNull = VNull"
| "sort_yaml_node (VBool b) = VBool b"
| "sort_yaml_node (VNum n) = VNum n"
| "sort_yaml_node (VStr s) = VStr s"
| "sort_yaml_node (VOther s) = VOther s"

definition marshal_yaml_deterministic :: "(gval \<Rightarrow> string) \<Rightarrow> gval \<Rightarrow> string" where
  "marshal_yaml_deterministic emit v = emit (sort_yaml_node v)"

definition observe_value_path :: "(gval \<Rightarrow> string) \<Rightarrow> value_map \<Rightarrow> string \<Rightarrow> path_state \<times> string" where
  "observe_value_path emit m path =
     (case profile_value_at_path m path of
        (v, PathPresent) \<Rightarrow> (PathPresent, marshal_yaml_deterministic emit v)
      | (_, st) \<Rightarrow> (st, []))"

lemma observe_state [simp]: "fst (observe_value_path emit m path) = snd (profile_value_at_path m path)"
  by (simp add: observe_value_path_def split: prod.split path_state.split)

text \<open>The order of the keys of a map does not show in the bytes.\<close>

lemma marshal_yaml_order:
  assumes "distinct (map fst m)" "mset m = mset m'"
  shows "marshal_yaml_deterministic emit (VMap m) = marshal_yaml_deterministic emit (VMap m')"
proof -
  let ?f = "map (map_prod id sort_yaml_node)"
  have keys: "map fst (?f xs) = map fst xs" for xs :: value_map by (induction xs) auto
  have d: "distinct (map fst m')" using assms by (metis mset_eq_imp_distinct_iff mset_map)
  have "set (?f m) = set (?f m')" using assms(2) by (metis image_set mset_eq_setD)
  moreover have "inj_on fst (set (?f m))" using assms(1) keys distinct_map by metis
  moreover have "distinct (map fst (sort_key fst (?f m)))" "distinct (map fst (sort_key fst (?f m')))"
    using assms(1) d keys by (metis distinct_map distinct_sort set_sort)+
  ultimately have "sort_key fst (?f m) = sort_key fst (?f m')"
    by (intro map_sorted_distinct_set_unique [of fst]) simp_all
  then show ?thesis by (simp add: marshal_yaml_deterministic_def)
qed

definition paths_intersect :: "string \<Rightarrow> string \<Rightarrow> bool" where
  "paths_intersect a b = list_all (\<lambda>(x, y). x = y) (zip (dot_split a) (dot_split b))"

record ownership_domain =
  od_Name :: string
  od_Paths :: "(string \<times> string list) list"

definition domain_paths :: "ownership_domain \<Rightarrow> string \<Rightarrow> string list" where
  "domain_paths d component = (case map_of (od_Paths d) component of None \<Rightarrow> [] | Some ps \<Rightarrow> ps)"

text \<open>The first conflict met by the loops over the sorted shared components and their sorted paths.\<close>

definition ownership_conflicts :: "ownership_domain \<Rightarrow> ownership_domain \<Rightarrow> (string \<times> string \<times> string) list" where
  "ownership_conflicts first second =
     concat (map (\<lambda>component.
       concat (map (\<lambda>fp.
         map (\<lambda>sp. (component, fp, sp)) (filter (paths_intersect fp) (sort (domain_paths second component))))
         (sort (domain_paths first component))))
       (sort (filter (\<lambda>c. map_of (od_Paths second) c \<noteq> None) (map fst (od_Paths first)))))"

definition validate_ownership_disjoint :: "ownership_domain \<Rightarrow> ownership_domain \<Rightarrow> unit res" where
  "validate_ownership_disjoint first second =
     (case ownership_conflicts first second of
        [] \<Rightarrow> Inr ()
      | (component, fp, sp) # _ \<Rightarrow>
          Inl (err_new ErrCodeInvalidRequest
            ''configuration ownership conflict: %q owns %s.%s, which intersects %q path %s.%s''
            [od_Name first, component, fp, od_Name second, component, sp]))"

subsection \<open>Intersection\<close>

lemma zip_agree_prefix: "list_all (\<lambda>(x, y). x = y) (zip xs ys) \<longleftrightarrow> prefix xs ys \<or> prefix ys xs"
proof (induction xs arbitrary: ys)
  case (Cons x xs)
  then show ?case by (cases ys) auto
qed simp

lemma paths_intersect_iff: "paths_intersect a b \<longleftrightarrow> prefix (dot_split a) (dot_split b) \<or> prefix (dot_split b) (dot_split a)"
  by (simp add: paths_intersect_def zip_agree_prefix)

lemma paths_intersect_sym: "paths_intersect a b = paths_intersect b a"
  by (auto simp: paths_intersect_iff)

lemma dot_split_not_Nil [simp]: "dot_split path \<noteq> []"
  by (simp add: dot_split_def)

lemma domain_paths_key: "p \<in> set (domain_paths d component) \<Longrightarrow> map_of (od_Paths d) component \<noteq> None"
  by (cases "map_of (od_Paths d) component") (simp_all add: domain_paths_def)

lemma set_ownership_conflicts:
  "(c, fp, sp) \<in> set (ownership_conflicts first second) \<longleftrightarrow>
     fp \<in> set (domain_paths first c) \<and> sp \<in> set (domain_paths second c) \<and> paths_intersect fp sp"
proof -
  have "(c, fp, sp) \<in> set (ownership_conflicts first second) \<longleftrightarrow>
     map_of (od_Paths second) c \<noteq> None \<and> map_of (od_Paths first) c \<noteq> None \<and>
     fp \<in> set (domain_paths first c) \<and> sp \<in> set (domain_paths second c) \<and> paths_intersect fp sp"
    unfolding ownership_conflicts_def map_of_eq_None_iff by (simp add: image_iff) blast
  then show ?thesis using domain_paths_key by blast
qed

lemma ownership_disjoint_iff:
  "is_ok (validate_ownership_disjoint first second) \<longleftrightarrow>
     (\<forall>component. \<forall>fp \<in> set (domain_paths first component). \<forall>sp \<in> set (domain_paths second component). \<not> paths_intersect fp sp)"
proof -
  have "is_ok (validate_ownership_disjoint first second) \<longleftrightarrow> ownership_conflicts first second = []"
    by (auto simp: validate_ownership_disjoint_def split: list.split)
  also have "\<dots> \<longleftrightarrow> (\<forall>c fp sp. (c, fp, sp) \<notin> set (ownership_conflicts first second))"
    by (cases "ownership_conflicts first second") auto
  finally show ?thesis unfolding set_ownership_conflicts by blast
qed

text \<open>
  Property C13: the ownership check is exact and symmetric: two domains are accepted exactly when no path of
  one is equal to, above or below a path of the other in the same component, in whatever order they are given.
\<close>

theorem ownership_disjoint_exact:
  "(is_ok (validate_ownership_disjoint first second) \<longleftrightarrow>
     \<not> (\<exists>component. \<exists>fp \<in> set (domain_paths first component). \<exists>sp \<in> set (domain_paths second component).
          prefix (dot_split fp) (dot_split sp) \<or> prefix (dot_split sp) (dot_split fp))) \<and>
   is_ok (validate_ownership_disjoint first second) = is_ok (validate_ownership_disjoint second first)"
  unfolding ownership_disjoint_iff paths_intersect_iff by blast

subsection \<open>Merges leave the paths they do not touch alone\<close>

text \<open>Whether the tree of keys of a map meets a path: some entry lies at, above or below it.\<close>

fun touches :: "value_map \<Rightarrow> string list \<Rightarrow> bool" where
  "touches m [] = True"
| "touches m (k # p) =
     (case map_of m k of
        None \<Rightarrow> False
      | Some v \<Rightarrow> (case v of VMap sub \<Rightarrow> sub = [] \<or> touches sub p | _ \<Rightarrow> True))"

lemma untouched_absent: "\<not> touches m p \<Longrightarrow> value_at m p = (VNull, PathAbsent)"
  by (induction m p rule: touches.induct) (auto split: option.splits gval.splits)

lemma touches_VMap: "map_of m k = Some (VMap sub) \<Longrightarrow> touches m (k # p) = (sub = [] \<or> touches sub p)"
  by simp

lemma value_at_untouched:
  assumes "wf_map src" "\<not> touches src p" "snd (value_at m p) \<noteq> PathBlocked"
  shows "value_at (deep_merge m src) p = value_at m p"
  using assms
proof (induction p arbitrary: m src)
  case (Cons k p)
  have dist: "distinct (map fst src)" using Cons.prems(1) by (simp add: wf_map_def)
  show ?case
  proof (cases "map_of src k")
    case None
    then show ?thesis by (simp add: map_of_deep_merge [OF dist])
  next
    case (Some sv)
    then obtain sub where sub: "sv = VMap sub" "\<not> touches sub p" using Cons.prems(2) by (cases sv) auto
    then have p: "p \<noteq> []" by (cases p) auto
    have wf: "wf_map sub" using wf_map_lookup [OF Cons.prems(1) Some] sub(1) by simp
    have new: "map_of (deep_merge m src) k = Some (merge_entry (map_of m k) (VMap sub))"
      using Some sub(1) by (simp add: map_of_deep_merge [OF dist])
    show ?thesis
    proof (cases "map_of m k")
      case None
      then show ?thesis using new p untouched_absent [OF sub(2)] by (simp add: merge_entry_def)
    next
      case dv: (Some dv)
      then obtain dm where dm: "dv = VMap dm" using Cons.prems(3) p by (cases dv) auto
      have "snd (value_at dm p) \<noteq> PathBlocked" using Cons.prems(3) dv dm p by simp
      from Cons.IH [OF wf sub(2) this] show ?thesis using new dv dm p by (simp add: merge_entry_def)
    qed
  qed
qed simp

end
