(* ===== verification/Dep_Graph.thy ===== *)
theory Dep_Graph
  imports Spec_Merge
begin

section \<open>Dependency validation and deployment order (pkg/recipe/metadata.go)\<close>

text \<open>
  \<open>validate_dependencies\<close> looks for unknown dependencies and then searches for a cycle depth first;
  \<open>topological_sort\<close> and \<open>topological_levels\<close> run Kahn's algorithm on the enabled components.
  The search gets as fuel the number of names and dependency entries, which bounds its depth since
  every call marks a new name; running out of fuel is \<open>None\<close> and is proved impossible.
  The loops of Kahn's algorithm terminate without fuel: each step takes one name off the queue, and a
  name enters it only when its positive in-degree drops to zero.
\<close>

subsection \<open>The graph\<close>

definition component_sets :: "component_ref list \<Rightarrow> string set \<times> string set" where
  "component_sets refs = (set (map cr_Name refs), set (map cr_Name (filter is_enabled refs)))"

definition edge_satisfied_externally :: "string \<Rightarrow> string set \<Rightarrow> string set \<Rightarrow> bool" where
  "edge_satisfied_externally dep declared enabled \<longleftrightarrow> dep \<in> declared \<and> dep \<notin> enabled"

type_synonym degrees = "(string \<times> int) list"
type_synonym adjacency = "(string \<times> string list) list"

definition deg :: "degrees \<Rightarrow> string \<Rightarrow> int" where
  "deg m n = (case map_of m n of None \<Rightarrow> 0 | Some d \<Rightarrow> d)"

definition adj :: "adjacency \<Rightarrow> string \<Rightarrow> string list" where
  "adj m n = (case map_of m n of None \<Rightarrow> [] | Some ds \<Rightarrow> ds)"

definition kept_deps :: "string set \<Rightarrow> string set \<Rightarrow> component_ref \<Rightarrow> string list" where
  "kept_deps declared enabled c =
     filter (\<lambda>dep. \<not> edge_satisfied_externally dep declared enabled) (cr_DependencyRefs c)"

definition add_node ::
  "string set \<Rightarrow> string set \<Rightarrow> degrees \<times> adjacency \<Rightarrow> component_ref \<Rightarrow> degrees \<times> adjacency" where
  "add_node declared enabled g c =
     (if cr_Name c \<notin> enabled then g
      else (let deps = kept_deps declared enabled c in
            (upsert (cr_Name c) (int (length deps)) (fst g),
             foldl (\<lambda>m dep. upsert dep (adj m dep @ [cr_Name c]) m) (snd g) deps)))"

definition build_dependency_graph :: "component_ref list \<Rightarrow> degrees \<times> adjacency \<times> nat" where
  "build_dependency_graph refs =
     (let (declared, enabled) = component_sets refs;
          g = foldl (add_node declared enabled) ([], []) refs
      in (fst g, snd g, card enabled))"

subsection \<open>Kahn's algorithm\<close>

text \<open>The inner loop over the dependents of a processed node.\<close>

fun relax :: "string list \<Rightarrow> degrees \<times> string list \<Rightarrow> degrees \<times> string list" where
  "relax [] (m, q) = (m, q)"
| "relax (d # ds) (m, q) =
     (let v = deg m d - 1 in relax ds (upsert d v m, if v = 0 then q @ [d] else q))"

definition positives :: "degrees \<Rightarrow> nat" where
  "positives m = length (filter (\<lambda>(k, v). v > 0) m)"

lemma positives_upsert:
  "positives (upsert k v m) + (if deg m k > 0 then 1 else 0) = positives m + (if v > 0 then 1 else 0)"
  by (induction m) (auto simp: positives_def deg_def)

lemma deg_upsert [simp]: "deg (upsert k v m) n = (if n = k then v else deg m n)"
  by (simp add: deg_def)

lemma relax_measure:
  "relax ds (m, q) = (m', q') \<Longrightarrow> positives m' + length q' \<le> positives m + length q"
proof (induction ds "(m, q)" arbitrary: m q rule: relax.induct)
  case (2 d ds m q)
  let ?m = "upsert d (deg m d - 1) m" and ?q = "if deg m d - 1 = 0 then q @ [d] else q"
  have "positives m' + length q' \<le> positives ?m + length ?q"
    using 2 by (simp add: Let_def)
  moreover have "positives ?m + length ?q \<le> positives m + length q"
    using positives_upsert [of d "deg m d - 1" m] by (cases "deg m d = 1") (simp_all split: if_splits)
  ultimately show ?case by linarith
qed simp

function kahn :: "adjacency \<Rightarrow> degrees \<Rightarrow> string list \<Rightarrow> string list \<Rightarrow> string list" where
  "kahn dependents m [] result = result"
| "kahn dependents m (node # queue) result =
     (let r = relax (adj dependents node) (m, queue)
      in kahn dependents (fst r) (sort (snd r)) (result @ [node]))"
  by pat_completeness auto
termination
proof (relation "measure (\<lambda>(dependents, m, queue, result). positives m + length queue)")
  fix dependents m node queue result r
  assume "r = relax (adj dependents node) (m, queue)"
  then have "positives (fst r) + length (snd r) \<le> positives m + length queue"
    using relax_measure [of "adj dependents node" m queue "fst r" "snd r"] by simp
  then show "((dependents, fst r, sort (snd r), result @ [node]), (dependents, m, node # queue, result))
      \<in> measure (\<lambda>(dependents, m, queue, result). positives m + length queue)" by simp
qed simp

function kahn_levels :: "adjacency \<Rightarrow> degrees \<Rightarrow> string list \<Rightarrow> string list list \<Rightarrow> string list list" where
  "kahn_levels dependents m current levels =
     (if current = [] then levels
      else (let r = relax (concat (map (adj dependents) current)) (m, [])
            in kahn_levels dependents (fst r) (sort (snd r)) (levels @ [current])))"
  by pat_completeness auto
termination
proof (relation "measure (\<lambda>(dependents, m, current, levels). positives m + length current)")
  fix dependents m current levels r
  assume "current \<noteq> []" "r = relax (concat (map (adj dependents) current)) (m, [])"
  then have "positives (fst r) + length (snd r) \<le> positives m" "current \<noteq> []"
    using relax_measure [of "concat (map (adj dependents) current)" m "[]" "fst r" "snd r"] by simp_all
  then show "((dependents, fst r, sort (snd r), levels @ [current]), (dependents, m, current, levels))
      \<in> measure (\<lambda>(dependents, m, current, levels). positives m + length current)" by (cases current) simp_all
qed simp

declare kahn_levels.simps [simp del]

definition zero_degree :: "degrees \<Rightarrow> string list" where
  "zero_degree m = sort (map fst (filter (\<lambda>(k, v). v = 0) m))"

definition topological_sort :: "component_ref list \<Rightarrow> string list res" where
  "topological_sort refs =
     (let (in_degree, dependents, enabled_count) = build_dependency_graph refs;
          result = kahn dependents in_degree (zero_degree in_degree) []
      in if length result \<noteq> enabled_count
         then Inl (err_new ErrCodeInvalidRequest ''cannot determine deployment order: circular dependencies exist'' [])
         else Inr result)"

definition topological_levels :: "component_ref list \<Rightarrow> string list list res" where
  "topological_levels refs =
     (let (in_degree, dependents, enabled_count) = build_dependency_graph refs;
          levels = kahn_levels dependents in_degree (zero_degree in_degree) []
      in if sum_list (map length levels) \<noteq> enabled_count
         then Inl (err_new ErrCodeInvalidRequest ''cannot determine deployment levels: circular dependencies exist'' [])
         else Inr levels)"

subsection \<open>What the graph holds\<close>

definition enabled_names :: "component_ref list \<Rightarrow> string list" where
  "enabled_names refs = map cr_Name (filter is_enabled refs)"

text \<open>The dependencies of an enabled component that order it.\<close>

definition order_deps :: "component_ref list \<Rightarrow> string \<Rightarrow> string list" where
  "order_deps refs n =
     (case by_key cr_Name refs n of
        None \<Rightarrow> []
      | Some c \<Rightarrow> kept_deps (set (map cr_Name refs)) (set (enabled_names refs)) c)"

lemma adj_upsert [simp]: "adj (upsert k v m) n = (if n = k then v else adj m n)"
  by (simp add: adj_def)

lemma adj_foldl: "adj (foldl (\<lambda>m dep. upsert dep (adj m dep @ [x]) m) m0 deps) d = adj m0 d @ replicate (count_list deps d) x"
proof (induction deps arbitrary: m0)
  case (Cons dep deps)
  then show ?case by (simp add: replicate_app_Cons_same)
qed simp

lemma count_list_replicate: "count_list (replicate k x) y = (if x = y then k else 0)"
  by (induction k) auto

lemma add_node_degree:
  "map_of (fst (add_node D E g c)) n =
     (if cr_Name c \<in> E \<and> n = cr_Name c then Some (int (length (kept_deps D E c))) else map_of (fst g) n)"
  by (simp add: add_node_def Let_def)

lemma add_node_adj:
  "count_list (adj (snd (add_node D E g c)) d) n =
     count_list (adj (snd g) d) n + (if cr_Name c \<in> E \<and> n = cr_Name c then count_list (kept_deps D E c) d else 0)"
  by (simp add: add_node_def Let_def adj_foldl count_list_replicate)

lemma add_node_distinct: "distinct (map fst (fst g)) \<Longrightarrow> distinct (map fst (fst (add_node D E g c)))"
  by (simp add: add_node_def Let_def distinct_upsert)

lemma build_fold:
  assumes "distinct (map cr_Name refs)"
  shows "let g = foldl (add_node D E) ([], []) refs in
     distinct (map fst (fst g)) \<and>
     (\<forall>n. map_of (fst g) n =
        (case by_key cr_Name refs n of
           Some c \<Rightarrow> if n \<in> E then Some (int (length (kept_deps D E c))) else None
         | None \<Rightarrow> None)) \<and>
     (\<forall>d n. count_list (adj (snd g) d) n =
        (case by_key cr_Name refs n of
           Some c \<Rightarrow> if n \<in> E then count_list (kept_deps D E c) d else 0
         | None \<Rightarrow> 0))"
  using assms
proof (induction refs rule: rev_induct)
  case (snoc c refs)
  let ?g = "foldl (add_node D E) ([], []) refs"
  have fresh: "by_key cr_Name refs (cr_Name c) = None" using snoc.prems by (auto simp: by_key_None)
  have IH: "distinct (map fst (fst ?g))"
    "map_of (fst ?g) n = (case by_key cr_Name refs n of
           Some c \<Rightarrow> if n \<in> E then Some (int (length (kept_deps D E c))) else None | None \<Rightarrow> None)"
    "count_list (adj (snd ?g) d) n = (case by_key cr_Name refs n of
           Some c \<Rightarrow> if n \<in> E then count_list (kept_deps D E c) d else 0 | None \<Rightarrow> 0)" for d n
    using snoc.IH snoc.prems by (simp_all add: Let_def)
  have key: "by_key cr_Name (refs @ [c]) n = (if cr_Name c = n then Some c else by_key cr_Name refs n)" for n
    using fresh by (auto simp: by_key_append by_key_Cons split: option.split)
  have "foldl (add_node D E) ([], []) (refs @ [c]) = add_node D E ?g c" by simp
  then show ?case
    unfolding Let_def
    using add_node_distinct [OF IH(1)] fresh by (auto simp: add_node_degree add_node_adj IH(2,3) key split: option.split)
qed (simp add: Let_def adj_def)

lemma enabled_by_key:
  assumes "distinct (map cr_Name refs)"
  shows "n \<in> set (enabled_names refs) \<longleftrightarrow> (\<exists>c. by_key cr_Name refs n = Some c \<and> is_enabled c)"
  using by_key_distinct [OF assms] by_key_Some [of cr_Name refs n] by (force simp: enabled_names_def)

lemma distinct_enabled: "distinct (map cr_Name refs) \<Longrightarrow> distinct (enabled_names refs)"
  by (simp add: enabled_names_def distinct_map_filter)

lemma graph_facts:
  assumes dist: "distinct (map cr_Name refs)" and g: "build_dependency_graph refs = (m, dependents, k)"
  shows "distinct (map fst m)" "k = length (enabled_names refs)"
    "\<And>n. map_of m n = (if n \<in> set (enabled_names refs) then Some (int (length (order_deps refs n))) else None)"
    "\<And>d n. count_list (adj dependents d) n = (if n \<in> set (enabled_names refs) then count_list (order_deps refs n) d else 0)"
proof -
  let ?D = "set (map cr_Name refs)" and ?E = "set (enabled_names refs)"
  have eq: "m = fst (foldl (add_node ?D ?E) ([], []) refs)" "dependents = snd (foldl (add_node ?D ?E) ([], []) refs)"
    "k = card ?E"
    using g by (simp_all add: build_dependency_graph_def component_sets_def Let_def enabled_names_def)
  note b = build_fold [OF dist, of ?D ?E, unfolded Let_def, folded eq(1,2)]
  show "distinct (map fst m)" using b by blast
  show "k = length (enabled_names refs)" using eq(3) distinct_card [OF distinct_enabled [OF dist]] by simp
  show "map_of m n = (if n \<in> ?E then Some (int (length (order_deps refs n))) else None)" for n
    using b enabled_by_key [OF dist, of n] by (auto simp: order_deps_def split: option.splits)
  show "count_list (adj dependents d) n = (if n \<in> ?E then count_list (order_deps refs n) d else 0)" for d n
    using b enabled_by_key [OF dist, of n] by (auto simp: order_deps_def split: option.splits)
qed

subsection \<open>The invariant of Kahn's algorithm\<close>

definition graph_ok :: "string list \<Rightarrow> (string \<Rightarrow> string list) \<Rightarrow> adjacency \<Rightarrow> bool" where
  "graph_ok N ed dependents \<longleftrightarrow>
     distinct N \<and> (\<forall>d n. count_list (adj dependents d) n = (if n \<in> set N then count_list (ed n) d else 0))"

text \<open>The dependencies of a name that are not in \<open>R\<close> yet, with multiplicity.\<close>

definition pending :: "(string \<Rightarrow> string list) \<Rightarrow> string list \<Rightarrow> string \<Rightarrow> nat" where
  "pending ed R n = length (filter (\<lambda>d. d \<notin> set R) (ed n))"

definition kahn_inv :: "string list \<Rightarrow> (string \<Rightarrow> string list) \<Rightarrow> degrees \<Rightarrow> string list \<Rightarrow> string list \<Rightarrow> bool" where
  "kahn_inv N ed m q R \<longleftrightarrow>
     distinct (q @ R) \<and> set (q @ R) \<subseteq> set N \<and>
     (\<forall>n \<in> set N. deg m n = int (pending ed R n)) \<and>
     (\<forall>n \<in> set N. n \<in> set (q @ R) \<longleftrightarrow> pending ed R n = 0)"

definition deps_first :: "(string \<Rightarrow> string list) \<Rightarrow> string list \<Rightarrow> bool" where
  "deps_first ed R \<longleftrightarrow> (\<forall>ys n zs. R = ys @ n # zs \<longrightarrow> set (ed n) \<subseteq> set ys)"

lemma relax_result:
  assumes "\<And>n. n \<in> set ds \<Longrightarrow> int (count_list ds n) \<le> deg m n"
  shows "\<exists>m' new. relax ds (m, q) = (m', q @ new) \<and> distinct new \<and>
    (\<forall>n. deg m' n = deg m n - int (count_list ds n)) \<and>
    set new = {n \<in> set ds. deg m n = int (count_list ds n)}"
  using assms
proof (induction ds "(m, q)" arbitrary: m q rule: relax.induct)
  case (2 d ds m q)
  let ?v = "deg m d - 1"
  have v: "int (count_list ds d) \<le> ?v" using 2(2) [of d] by simp
  have le: "int (count_list ds n) \<le> deg (upsert d ?v m) n" if "n \<in> set ds" for n
    using 2(2) [of n] that v by (auto split: if_splits)
  obtain m' new where r: "relax ds (upsert d ?v m, if ?v = 0 then q @ [d] else q) =
        (m', (if ?v = 0 then q @ [d] else q) @ new)" and new: "distinct new"
      and deg: "\<forall>n. deg m' n = deg (upsert d ?v m) n - int (count_list ds n)"
      and set: "set new = {n \<in> set ds. deg (upsert d ?v m) n = int (count_list ds n)}"
    using 2(1) [OF refl le] by auto
  have deg': "deg m' n = deg m n - int (count_list (d # ds) n)" for n
    using deg by (cases "n = d") simp_all
  show ?case
  proof (cases "?v = 0")
    case True
    then have "d \<notin> set ds" using v by (metis count_list_0_iff of_nat_le_0_iff)
    then have "n \<in> set (d # new) \<longleftrightarrow> n \<in> set (d # ds) \<and> deg m n = int (count_list (d # ds) n)" for n
      using True by (cases "n = d") (auto simp: set)
    then have "set (d # new) = {n \<in> set (d # ds). deg m n = int (count_list (d # ds) n)}" by blast
    moreover have "distinct (d # new)" using new set \<open>d \<notin> set ds\<close> by auto
    ultimately show ?thesis using r deg' True by (intro exI [of _ m'] exI [of _ "d # new"]) simp
  next
    case False
    have "n \<in> set new \<longleftrightarrow> n \<in> set (d # ds) \<and> deg m n = int (count_list (d # ds) n)" for n
    proof (cases "n = d")
      case True
      have "d \<in> set ds \<or> deg m d \<noteq> 1 + int (count_list ds d)" using False by (cases "d \<in> set ds") simp_all
      then show ?thesis using True by (auto simp: set)
    next
      case False
      then show ?thesis by (simp add: set)
    qed
    then have "set new = {n \<in> set (d # ds). deg m n = int (count_list (d # ds) n)}" by blast
    then show ?thesis using r deg' False new by (intro exI [of _ m'] exI [of _ new]) simp
  qed
qed simp

lemma sum_count_Cons:
  "distinct xs \<Longrightarrow>
   sum_list (map (count_list (d # ds)) xs) = (if d \<in> set xs then 1 else 0) + sum_list (map (count_list ds) xs)"
  by (induction xs) auto

lemma count_filter_set:
  "distinct xs \<Longrightarrow> sum_list (map (count_list ds) xs) = length (filter (\<lambda>d. d \<in> set xs) ds)"
proof (induction ds)
  case Nil
  then show ?case by (induction xs) auto
next
  case (Cons d ds)
  then show ?case by (simp only: sum_count_Cons) simp
qed

lemma count_dependents:
  assumes "graph_ok N ed dependents" "distinct xs"
  shows "count_list (concat (map (adj dependents) xs)) n =
    (if n \<in> set N then length (filter (\<lambda>d. d \<in> set xs) (ed n)) else 0)"
proof -
  have "count_list (concat (map (adj dependents) xs)) n = sum_list (map (\<lambda>x. count_list (adj dependents x) n) xs)"
    by (induction xs) simp_all
  also have "\<dots> = (if n \<in> set N then sum_list (map (count_list (ed n)) xs) else 0)"
    using assms(1) by (auto simp: graph_ok_def comp_def)
  finally show ?thesis by (simp add: count_filter_set [OF assms(2)])
qed

lemma filter_split_length:
  "set xs \<inter> set R = {} \<Longrightarrow>
   length (filter (\<lambda>d. d \<notin> set R) ds) =
     length (filter (\<lambda>d. d \<notin> set (R @ xs)) ds) + length (filter (\<lambda>d. d \<in> set xs) ds)"
  by (induction ds) auto

lemma pending_append:
  "set xs \<inter> set R = {} \<Longrightarrow> pending ed R n = pending ed (R @ xs) n + length (filter (\<lambda>d. d \<in> set xs) (ed n))"
  unfolding pending_def by (rule filter_split_length)

lemma pending_0: "pending ed R n = 0 \<longleftrightarrow> set (ed n) \<subseteq> set R"
  by (auto simp: pending_def filter_empty_conv)

lemma deps_first_Nil [simp]: "deps_first ed []"
  by (simp add: deps_first_def)

lemma deps_first_append:
  assumes "deps_first ed R" "\<And>x. x \<in> set xs \<Longrightarrow> set (ed x) \<subseteq> set R"
  shows "deps_first ed (R @ xs)"
  unfolding deps_first_def
proof (intro allI impI)
  fix ys n zs
  assume "R @ xs = ys @ n # zs"
  then consider us where "R = ys @ n # us" | us where "ys = R @ us" "n \<in> set xs"
    by (auto simp: append_eq_append_conv2 Cons_eq_append_conv append_eq_Cons_conv)
  then show "set (ed n) \<subseteq> set ys"
  proof cases
    case 1
    then show ?thesis using assms(1) unfolding deps_first_def by blast
  next
    case 2
    then show ?thesis using assms(2) by auto
  qed
qed

text \<open>
  One step: processing the names \<open>xs\<close> at the head of the queue. The names that enter it have all their
  dependencies processed now, at least one of them in this step.
\<close>

lemma kahn_inv_step:
  assumes ok: "graph_ok N ed dependents" and inv: "kahn_inv N ed m (xs @ rest) R"
    and r: "relax (concat (map (adj dependents) xs)) (m, rest) = (m', q')"
  shows "\<exists>new. q' = rest @ new \<and> kahn_inv N ed m' q' (R @ xs) \<and>
    (\<forall>n \<in> set new. \<not> set (ed n) \<subseteq> set R \<and> set (ed n) \<subseteq> set (R @ xs))"
proof -
  let ?ds = "concat (map (adj dependents) xs)"
  have dist: "distinct xs" "set xs \<inter> set R = {}" "distinct (rest @ R @ xs)" and sub: "set (xs @ rest @ R) \<subseteq> set N"
    and deg: "\<And>n. n \<in> set N \<Longrightarrow> deg m n = int (pending ed R n)"
    and queued: "\<And>n. n \<in> set N \<Longrightarrow> n \<in> set (xs @ rest @ R) \<longleftrightarrow> pending ed R n = 0"
    using inv by (auto simp: kahn_inv_def)
  have count: "count_list ?ds n = (if n \<in> set N then length (filter (\<lambda>d. d \<in> set xs) (ed n)) else 0)" for n
    by (rule count_dependents [OF ok dist(1)])
  have split: "pending ed R n = pending ed (R @ xs) n + count_list ?ds n" if "n \<in> set N" for n
    using pending_append [OF dist(2)] count that by simp
  have in_ds: "n \<in> set ?ds \<longleftrightarrow> count_list ?ds n > 0" for n
    by (metis count_list_0_iff neq0_conv)
  have le: "int (count_list ?ds n) \<le> deg m n" if "n \<in> set ?ds" for n
    using that in_ds [of n] count [of n] split [of n] deg [of n] by (cases "n \<in> set N") simp_all
  obtain m1 new where rel: "relax ?ds (m, rest) = (m1, rest @ new)" and new: "distinct new"
      and deg1: "\<And>n. deg m1 n = deg m n - int (count_list ?ds n)"
      and set: "set new = {n \<in> set ?ds. deg m n = int (count_list ?ds n)}"
    using relax_result [OF le, of rest] by blast
  have in_new: "n \<in> set new \<longleftrightarrow> n \<in> set N \<and> pending ed R n > 0 \<and> pending ed (R @ xs) n = 0" for n
    using set in_ds [of n] count [of n] split [of n] deg [of n] by (cases "n \<in> set N") auto
  have mono: "pending ed R n = 0 \<Longrightarrow> pending ed (R @ xs) n = 0" for n
    by (auto simp: pending_0)
  have fresh: "x \<notin> set new" if "x \<in> set (rest @ R @ xs)" for x
    using that in_new [of x] queued [of x] sub by auto
  have "kahn_inv N ed m1 (rest @ new) (R @ xs)"
    unfolding kahn_inv_def
  proof (intro conjI ballI)
    show "distinct ((rest @ new) @ R @ xs)"
      using dist(3) new fresh by auto
    show "set ((rest @ new) @ R @ xs) \<subseteq> set N" using sub in_new by auto
  next
    fix n
    assume n: "n \<in> set N"
    then show "deg m1 n = int (pending ed (R @ xs) n)" using deg1 deg split by simp
    show "n \<in> set ((rest @ new) @ R @ xs) \<longleftrightarrow> pending ed (R @ xs) n = 0"
      using in_new [of n] queued [OF n] mono [of n] n by auto
  qed
  moreover have "\<forall>n \<in> set new. \<not> set (ed n) \<subseteq> set R \<and> set (ed n) \<subseteq> set (R @ xs)"
    using in_new pending_0 [of ed] by (metis less_irrefl)
  ultimately show ?thesis using r rel by auto
qed

lemma kahn_inv_sort: "kahn_inv N ed m (sort q) R = kahn_inv N ed m q R"
  by (auto simp: kahn_inv_def)

lemma kahn_result:
  assumes "graph_ok N ed dependents" "kahn_inv N ed m q R" "deps_first ed R"
  shows "\<exists>m'. kahn_inv N ed m' [] (kahn dependents m q R) \<and> deps_first ed (kahn dependents m q R)"
  using assms
proof (induction dependents m q R rule: kahn.induct)
  case (2 dependents m node queue result)
  obtain m' q' where r: "relax (adj dependents node) (m, queue) = (m', q')" by force
  obtain new where "kahn_inv N ed m' q' (result @ [node])"
    using kahn_inv_step [OF 2(2), of m "[node]" queue result m' q'] 2(3) r by auto
  moreover have "deps_first ed (result @ [node])"
    using 2(2-4) by (intro deps_first_append) (auto simp: kahn_inv_def pending_0)
  ultimately show ?case
    using 2(1) [OF refl 2(2)] r by (simp add: kahn_inv_sort Let_def)
qed auto

subsection \<open>Complete exactly for acyclic graphs\<close>

definition dep_rel :: "string list \<Rightarrow> (string \<Rightarrow> string list) \<Rightarrow> (string \<times> string) set" where
  "dep_rel N ed = {(d, n). n \<in> set N \<and> d \<in> set (ed n)}"

definition orderable :: "string list \<Rightarrow> (string \<Rightarrow> string list) \<Rightarrow> bool" where
  "orderable N ed \<longleftrightarrow> acyclic (dep_rel N ed) \<and> (\<forall>n \<in> set N. set (ed n) \<subseteq> set N)"

lemma finite_dep_rel: "finite (dep_rel N ed)"
proof (rule finite_subset)
  show "dep_rel N ed \<subseteq> (\<Union>n \<in> set N. set (ed n) \<times> {n})" by (auto simp: dep_rel_def)
qed simp

lemma takeWhile_first: "n \<notin> set ys \<Longrightarrow> takeWhile (\<lambda>x. x \<noteq> n) (ys @ n # zs) = ys"
  by (induction ys) auto

lemma deps_first_orderable:
  assumes "deps_first ed R" "distinct R" "set R = set N"
  shows "orderable N ed"
proof -
  let ?pos = "\<lambda>n. length (takeWhile (\<lambda>x. x \<noteq> n) R)"
  have pos: "d \<in> set N \<and> ?pos d < ?pos n" if asm: "n \<in> set N" "d \<in> set (ed n)" for d n
  proof -
    have "n \<in> set R" using asm(1) assms(3) by simp
    from split_list_first [OF this] obtain ys zs where R: "R = ys @ n # zs" "n \<notin> set ys" by blast
    have d: "d \<in> set ys" using assms(1) asm(2) R(1) unfolding deps_first_def by blast
    from split_list_first [OF this] obtain us vs where ys: "ys = us @ d # vs" "d \<notin> set us" by blast
    have "takeWhile (\<lambda>x. x \<noteq> n) R = ys" using takeWhile_first R by simp
    moreover have "takeWhile (\<lambda>x. x \<noteq> d) R = us" using takeWhile_first [OF ys(2), of "vs @ n # zs"] R(1) ys(1) by simp
    ultimately show ?thesis using ys(1) R(1) assms(3) by auto
  qed
  then have "dep_rel N ed \<subseteq> measure ?pos" by (auto simp: dep_rel_def)
  then have "acyclic (dep_rel N ed)" using wf_acyclic wf_subset wf_measure by blast
  then show ?thesis using pos by (auto simp: orderable_def)
qed

lemma orderable_complete:
  assumes "orderable N ed" "kahn_inv N ed m [] R"
  shows "set R = set N"
proof -
  have wf: "wf (dep_rel N ed)" using assms(1) finite_acyclic_wf [OF finite_dep_rel] by (simp add: orderable_def)
  have "n \<in> set N \<longrightarrow> n \<in> set R" for n
  proof (induction n rule: wf_induct [OF wf])
    case (1 n)
    show ?case
    proof
      assume n: "n \<in> set N"
      then have "set (ed n) \<subseteq> set R" using 1 assms(1) by (auto simp: dep_rel_def orderable_def)
      then show "n \<in> set R" using assms(2) n pending_0 by (auto simp: kahn_inv_def)
    qed
  qed
  then show ?thesis using assms(2) by (auto simp: kahn_inv_def)
qed

lemma kahn_complete_iff:
  assumes "graph_ok N ed dependents" "kahn_inv N ed m q []"
  shows "length (kahn dependents m q []) = length N \<longleftrightarrow> orderable N ed"
proof -
  let ?R = "kahn dependents m q []"
  obtain m' where m': "kahn_inv N ed m' [] ?R" "deps_first ed ?R"
    using kahn_result [OF assms deps_first_Nil] by blast
  then have R: "distinct ?R" "set ?R \<subseteq> set N" by (auto simp: kahn_inv_def)
  have "distinct N" using assms(1) by (simp add: graph_ok_def)
  then have "length ?R = length N \<longleftrightarrow> set ?R = set N"
    using R by (metis List.finite_set card_subset_eq distinct_card)
  then show ?thesis using deps_first_orderable [OF m'(2) R(1)] orderable_complete [OF _ m'(1)] by metis
qed

lemma graph_start:
  assumes dist: "distinct (map cr_Name refs)" and g: "build_dependency_graph refs = (m, dependents, k)"
  shows "graph_ok (enabled_names refs) (order_deps refs) dependents"
    "kahn_inv (enabled_names refs) (order_deps refs) m (zero_degree m) []"
proof -
  note f = graph_facts [OF dist g]
  show "graph_ok (enabled_names refs) (order_deps refs) dependents"
    using f distinct_enabled [OF dist] by (simp add: graph_ok_def)
  have zero: "n \<in> set (zero_degree m) \<longleftrightarrow> map_of m n = Some 0" for n
    using f(1) by (force simp: zero_degree_def)
  have "distinct (zero_degree m)"
    using f(1) by (simp add: zero_degree_def distinct_map_filter)
  then show "kahn_inv (enabled_names refs) (order_deps refs) m (zero_degree m) []"
    by (auto simp: kahn_inv_def zero f(3) deg_def pending_def split: if_splits)
qed

lemma topological_sort_eq:
  assumes "build_dependency_graph refs = (m, dependents, k)"
  shows "topological_sort refs =
    (let result = kahn dependents m (zero_degree m) [] in
     if length result \<noteq> k
     then Inl (err_new ErrCodeInvalidRequest ''cannot determine deployment order: circular dependencies exist'' [])
     else Inr result)"
  by (simp add: topological_sort_def assms)

lemma topological_sort_ok:
  assumes "distinct (map cr_Name refs)"
  shows "is_ok (topological_sort refs) \<longleftrightarrow> orderable (enabled_names refs) (order_deps refs)"
    and "topological_sort refs = Inr order \<Longrightarrow>
      distinct order \<and> set order = set (enabled_names refs) \<and> deps_first (order_deps refs) order"
proof -
  obtain m dependents k where g: "build_dependency_graph refs = (m, dependents, k)" by (metis prod_cases3)
  note start = graph_start [OF assms g] and k = graph_facts(2) [OF assms g]
  let ?R = "kahn dependents m (zero_degree m) []"
  show "is_ok (topological_sort refs) \<longleftrightarrow> orderable (enabled_names refs) (order_deps refs)"
    using kahn_complete_iff [OF start] by (auto simp: topological_sort_eq [OF g] k Let_def)
  assume ok: "topological_sort refs = Inr order"
  then have order: "order = ?R" "length ?R = length (enabled_names refs)"
    by (auto simp: topological_sort_eq [OF g] k Let_def split: if_splits)
  obtain m' where m': "kahn_inv (enabled_names refs) (order_deps refs) m' [] ?R" "deps_first (order_deps refs) ?R"
    using kahn_result [OF start deps_first_Nil] by blast
  have "orderable (enabled_names refs) (order_deps refs)"
    using kahn_complete_iff [OF start] order(2) by simp
  then have "set ?R = set (enabled_names refs)" using orderable_complete m'(1) by blast
  then show "distinct order \<and> set order = set (enabled_names refs) \<and> deps_first (order_deps refs) order"
    using m' order(1) by (simp add: kahn_inv_def)
qed

lemma in_order_deps:
  assumes "distinct (map cr_Name refs)" "c \<in> set refs"
  shows "d \<in> set (order_deps refs (cr_Name c)) \<longleftrightarrow>
    d \<in> set (cr_DependencyRefs c) \<and> (d \<in> set (enabled_names refs) \<or> d \<notin> cr_Name ` set refs)"
  using by_key_distinct [OF assms]
  by (auto simp: order_deps_def kept_deps_def edge_satisfied_externally_def)

text \<open>
  Property C1: a deployment order lists every enabled component exactly once, and each of them only after
  all its dependencies that are enabled; the order exists exactly when the enabled components name
  no undeclared dependency and their dependencies have no cycle. Dependencies on components
  that are declared and disabled count as provided from outside.
\<close>

theorem topological_sort_correct:
  assumes "distinct (map cr_Name refs)"
  shows "case topological_sort refs of
     Inr order \<Rightarrow>
       mset order = mset (enabled_names refs) \<and>
       (\<forall>c \<in> set refs. is_enabled c \<longrightarrow>
          set (cr_DependencyRefs c) \<subseteq> cr_Name ` set refs \<and>
          (\<forall>d \<in> set (cr_DependencyRefs c). d \<in> set (enabled_names refs) \<longrightarrow>
             d \<in> set (takeWhile (\<lambda>n. n \<noteq> cr_Name c) order)))
   | Inl e \<Rightarrow>
       \<not> acyclic (dep_rel (enabled_names refs) (order_deps refs)) \<or>
       (\<exists>c \<in> set refs. is_enabled c \<and> \<not> set (cr_DependencyRefs c) \<subseteq> cr_Name ` set refs)"
proof (cases "topological_sort refs")
  case (Inr order)
  note o = topological_sort_ok(2) [OF assms Inr]
  have closed: "\<forall>n \<in> set (enabled_names refs). set (order_deps refs n) \<subseteq> set (enabled_names refs)"
    using topological_sort_ok(1) [OF assms] Inr by (simp add: orderable_def)
  have "mset order = mset (enabled_names refs)"
    using o distinct_enabled [OF assms] set_eq_iff_mset_eq_distinct by blast
  moreover have "set (cr_DependencyRefs c) \<subseteq> cr_Name ` set refs" if c: "c \<in> set refs" "is_enabled c" for c
  proof
    fix d
    assume d: "d \<in> set (cr_DependencyRefs c)"
    have "cr_Name c \<in> set (enabled_names refs)" using c by (simp add: enabled_names_def)
    then have "set (order_deps refs (cr_Name c)) \<subseteq> set (enabled_names refs)" using closed by blast
    moreover have "set (enabled_names refs) \<subseteq> cr_Name ` set refs" by (auto simp: enabled_names_def)
    ultimately show "d \<in> cr_Name ` set refs" using d in_order_deps [OF assms c(1), of d] by blast
  qed
  moreover have "d \<in> set (takeWhile (\<lambda>n. n \<noteq> cr_Name c) order)"
    if c: "c \<in> set refs" "is_enabled c" "d \<in> set (cr_DependencyRefs c)" "d \<in> set (enabled_names refs)" for c d
  proof -
    have "cr_Name c \<in> set order" using o c by (simp add: enabled_names_def)
    from split_list_first [OF this] obtain ys zs where R: "order = ys @ cr_Name c # zs" "cr_Name c \<notin> set ys" by blast
    have "set (order_deps refs (cr_Name c)) \<subseteq> set ys" using o R(1) unfolding deps_first_def by blast
    then have "d \<in> set ys" using in_order_deps [OF assms c(1), of d] c by auto
    then show ?thesis using takeWhile_first [OF R(2)] R(1) by simp
  qed
  ultimately show ?thesis using Inr by simp
next
  case (Inl e)
  then have "\<not> orderable (enabled_names refs) (order_deps refs)" using topological_sort_ok(1) [OF assms] by simp
  then consider (cycle) "\<not> acyclic (dep_rel (enabled_names refs) (order_deps refs))"
    | (missing) n d where "n \<in> set (enabled_names refs)" "d \<in> set (order_deps refs n)" "d \<notin> set (enabled_names refs)"
    by (auto simp: orderable_def)
  then show ?thesis
  proof cases
    case missing
    then obtain c where c: "c \<in> set refs" "is_enabled c" "cr_Name c = n" by (auto simp: enabled_names_def)
    then have "d \<in> set (cr_DependencyRefs c)" "d \<notin> cr_Name ` set refs"
      using missing in_order_deps [OF assms c(1), of d] by auto
    then show ?thesis using Inl c by auto
  qed (simp add: Inl)
qed

lemma topological_sort_correct_witness:
  "\<exists>order. topological_sort [(empty_ref ''a'') \<lparr>cr_DependencyRefs := [''b'']\<rparr>, empty_ref ''b''] = Inr order \<and>
     mset order = {#''a'', ''b''#} \<and> ''b'' \<in> set (takeWhile (\<lambda>n. n \<noteq> ''a'') order)"
proof -
  let ?refs = "[(empty_ref ''a'') \<lparr>cr_DependencyRefs := [''b'']\<rparr>, empty_ref ''b'']"
  have dist: "distinct (map cr_Name ?refs)" by (simp add: empty_ref_def)
  have "is_ok (topological_sort ?refs)" by code_simp
  then obtain order where order: "topological_sort ?refs = Inr order" by (auto simp: is_ok_iff)
  have "enabled_names ?refs = [''a'', ''b'']" by code_simp
  then show ?thesis
    using topological_sort_correct [OF dist] order by (auto simp: empty_ref_def is_enabled_def gate_allows_def)
qed

subsection \<open>Levels\<close>

definition level_ok :: "(string \<Rightarrow> string list) \<Rightarrow> string list list \<Rightarrow> string \<Rightarrow> bool" where
  "level_ok ed below n \<longleftrightarrow>
     set (ed n) \<subseteq> set (concat below) \<and> (below \<noteq> [] \<longrightarrow> set (ed n) \<inter> set (last below) \<noteq> {})"

definition levels_ok :: "(string \<Rightarrow> string list) \<Rightarrow> string list list \<Rightarrow> bool" where
  "levels_ok ed levels \<longleftrightarrow>
     (\<forall>below L above. levels = below @ L # above \<longrightarrow> L \<noteq> [] \<and> sorted L \<and> (\<forall>n \<in> set L. level_ok ed below n))"

lemma levels_ok_snoc:
  assumes "levels_ok ed levels" "L \<noteq> []" "sorted L" "\<forall>n \<in> set L. level_ok ed levels n"
  shows "levels_ok ed (levels @ [L])"
  unfolding levels_ok_def
proof (intro allI impI)
  fix below M above
  assume eq: "levels @ [L] = below @ M # above"
  show "M \<noteq> [] \<and> sorted M \<and> (\<forall>n \<in> set M. level_ok ed below n)"
  proof (cases above rule: rev_cases)
    case Nil
    then show ?thesis using eq assms by simp
  next
    case (snoc above' K)
    then have "levels = below @ M # above'" using eq by simp
    then show ?thesis using assms(1) unfolding levels_ok_def by blast
  qed
qed

lemma kahn_levels_result:
  assumes "graph_ok N ed dependents" "kahn_inv N ed m current (concat levels)" "levels_ok ed levels"
    "sorted current" "\<forall>n \<in> set current. level_ok ed levels n"
  shows "\<exists>m'. kahn_inv N ed m' [] (concat (kahn_levels dependents m current levels)) \<and>
    levels_ok ed (kahn_levels dependents m current levels)"
  using assms
proof (induction dependents m current levels rule: kahn_levels.induct)
  case (1 dependents m current levels)
  show ?case
  proof (cases "current = []")
    case True
    then show ?thesis using 1(3,4) by (subst kahn_levels.simps; subst kahn_levels.simps) auto
  next
    case False
    obtain m' q' where r: "relax (concat (map (adj dependents) current)) (m, []) = (m', q')" by force
    obtain new where new: "q' = new" "kahn_inv N ed m' q' (concat levels @ current)"
      "\<forall>n \<in> set new. \<not> set (ed n) \<subseteq> set (concat levels) \<and> set (ed n) \<subseteq> set (concat levels @ current)"
      using kahn_inv_step [OF 1(2), of m current "[]" "concat levels" m' q'] 1(3) r by auto
    have "\<forall>n \<in> set (sort q'). level_ok ed (levels @ [current]) n"
      using new(1,3) by (auto simp: level_ok_def)
    moreover have "levels_ok ed (levels @ [current])" using levels_ok_snoc 1(4-6) False by blast
    moreover have "kahn_inv N ed m' (sort q') (concat (levels @ [current]))"
      using new(2) by (simp add: kahn_inv_sort)
    ultimately show ?thesis
      using 1(1) [OF False refl] 1(2) r False by (subst kahn_levels.simps; subst kahn_levels.simps) (simp add: Let_def)
  qed
qed

lemma topological_levels_result:
  assumes "distinct (map cr_Name refs)"
  shows "(is_ok (topological_levels refs) \<longleftrightarrow> is_ok (topological_sort refs)) \<and>
    (\<forall>levels. topological_levels refs = Inr levels \<longrightarrow>
       mset (concat levels) = mset (enabled_names refs) \<and> levels_ok (order_deps refs) levels)"
proof -
  obtain m dependents k where g: "build_dependency_graph refs = (m, dependents, k)" by (metis prod_cases3)
  note start = graph_start [OF assms g] and k = graph_facts(2) [OF assms g]
  let ?N = "enabled_names refs" and ?ed = "order_deps refs"
  let ?L = "kahn_levels dependents m (zero_degree m) []"
  have "\<forall>n \<in> set (zero_degree m). level_ok ?ed [] n"
    using start(2) by (auto simp: kahn_inv_def level_ok_def pending_def)
  then obtain m' where m': "kahn_inv ?N ?ed m' [] (concat ?L)" "levels_ok ?ed ?L"
    using kahn_levels_result [OF start(1), of m "zero_degree m" "[]"] start(2)
    by (auto simp: levels_ok_def zero_degree_def)
  have first: "deps_first ?ed (concat (kahn_levels dependents m (zero_degree m) []))"
  proof -
    have "deps_first ?ed (concat levels)" if "levels_ok ?ed levels" for levels
      using that
    proof (induction levels rule: rev_induct)
      case (snoc L levels)
      have "levels_ok ?ed levels" using snoc.prems unfolding levels_ok_def by (metis append_Cons append_assoc)
      then show ?case
        using snoc.IH snoc.prems deps_first_append [of ?ed "concat levels" L]
        by (auto simp: levels_ok_def level_ok_def)
    qed simp
    then show ?thesis using m'(2) .
  qed
  have len: "length (concat ?L) = length ?N \<longleftrightarrow> set (concat ?L) = set ?N"
    using m'(1) distinct_enabled [OF assms] unfolding kahn_inv_def
    by (metis List.finite_set append_Nil card_subset_eq distinct_card)
  have complete: "set (concat ?L) = set ?N \<longleftrightarrow> orderable ?N ?ed"
    using deps_first_orderable [OF first, of ?N] orderable_complete [OF _ m'(1)] m'(1) by (auto simp: kahn_inv_def)
  have eq: "topological_levels refs =
      (if length (concat ?L) \<noteq> length ?N
       then Inl (err_new ErrCodeInvalidRequest ''cannot determine deployment levels: circular dependencies exist'' [])
       else Inr ?L)"
    by (simp add: topological_levels_def g k length_concat Let_def)
  have mset: "mset (concat ?L) = mset ?N" if "length (concat ?L) = length ?N"
  proof -
    have "distinct (concat ?L)" using m'(1) by (simp add: kahn_inv_def)
    then show ?thesis using len that distinct_enabled [OF assms] set_eq_iff_mset_eq_distinct by blast
  qed
  have "is_ok (topological_levels refs) \<longleftrightarrow> is_ok (topological_sort refs)"
    using len complete topological_sort_ok(1) [OF assms] by (auto simp: eq)
  then show ?thesis using mset m'(2) by (auto simp: eq simp del: mset_concat split: if_splits)
qed

lemma topological_levels_ok:
  "distinct (map cr_Name refs) \<Longrightarrow> is_ok (topological_levels refs) \<longleftrightarrow> is_ok (topological_sort refs)"
  using topological_levels_result by blast

text \<open>
  Property C3: the levels partition the enabled components; a component is in the first level when nothing
  orders it, and otherwise all its ordering dependencies are in lower levels with at least one in the
  level right below, so its level is its depth. Levels exist exactly when a deployment order exists.
\<close>

theorem topological_levels_correct:
  assumes "distinct (map cr_Name refs)"
  shows "(is_ok (topological_levels refs) \<longleftrightarrow> is_ok (topological_sort refs)) \<and>
    (\<forall>levels. topological_levels refs = Inr levels \<longrightarrow>
       mset (concat levels) = mset (enabled_names refs) \<and> levels_ok (order_deps refs) levels)"
  by (rule topological_levels_result [OF assms])

lemma topological_levels_correct_witness:
  "\<exists>levels. topological_levels [(empty_ref ''a'') \<lparr>cr_DependencyRefs := [''b'']\<rparr>, empty_ref ''b''] = Inr levels \<and>
     mset (concat levels) = {#''a'', ''b''#}"
proof -
  let ?refs = "[(empty_ref ''a'') \<lparr>cr_DependencyRefs := [''b'']\<rparr>, empty_ref ''b'']"
  have dist: "distinct (map cr_Name ?refs)" by (simp add: empty_ref_def)
  have "is_ok (topological_sort ?refs)" "enabled_names ?refs = [''a'', ''b'']" by code_simp+
  then show ?thesis
    using topological_levels_correct [OF dist] by (auto simp: is_ok_iff)
qed

subsection \<open>Cycle detection\<close>

record dfs_state =
  df_visited :: "string list"
  df_recStack :: "string list"
  df_path :: "string list"

definition enter :: "string \<Rightarrow> dfs_state \<Rightarrow> dfs_state" where
  "enter node st =
     \<lparr>df_visited = node # df_visited st, df_recStack = node # df_recStack st, df_path = df_path st @ [node]\<rparr>"

definition leave :: "string \<Rightarrow> dfs_state \<Rightarrow> dfs_state" where
  "leave node st =
     st \<lparr>df_path := butlast (df_path st), df_recStack := filter (\<lambda>n. n \<noteq> node) (df_recStack st)\<rparr>"

definition cycle_error :: "string list \<Rightarrow> string \<Rightarrow> go_error" where
  "cycle_error path neighbor =
     err_new ErrCodeInvalidRequest ''circular dependency detected: %v''
       (dropWhile (\<lambda>n. n \<noteq> neighbor) path @ [neighbor])"

text \<open>The loop over the neighbours of the node on top of the path; \<open>None\<close> is out of fuel.\<close>

fun visit :: "nat \<Rightarrow> (string \<Rightarrow> string list) \<Rightarrow> string list \<Rightarrow> dfs_state \<Rightarrow> (go_error + dfs_state) option" where
  "visit fuel deps [] st = Some (Inr st)"
| "visit fuel deps (neighbor # rest) st =
     (if neighbor \<notin> set (df_visited st) then
        (case fuel of
           0 \<Rightarrow> None
         | Suc fuel' \<Rightarrow>
             (case visit fuel' deps (deps neighbor) (enter neighbor st) of
                None \<Rightarrow> None
              | Some (Inl err) \<Rightarrow> Some (Inl err)
              | Some (Inr st') \<Rightarrow> visit fuel deps rest (leave neighbor st')))
      else if neighbor \<in> set (df_recStack st) then Some (Inl (cycle_error (df_path st) neighbor))
      else visit fuel deps rest st)"

fun visit_roots :: "nat \<Rightarrow> (string \<Rightarrow> string list) \<Rightarrow> string list \<Rightarrow> dfs_state \<Rightarrow> (go_error + dfs_state) option" where
  "visit_roots fuel deps [] st = Some (Inr st)"
| "visit_roots fuel deps (c # cs) st =
     (if c \<notin> set (df_visited st) then
        (case visit fuel deps (deps c) (enter c st) of
           None \<Rightarrow> None
         | Some (Inl err) \<Rightarrow> Some (Inl err)
         | Some (Inr st') \<Rightarrow> visit_roots fuel deps cs (leave c st'))
      else visit_roots fuel deps cs st)"

definition all_deps :: "component_ref list \<Rightarrow> string \<Rightarrow> string list" where
  "all_deps refs n = (case map_of (index_by cr_Name refs) n of None \<Rightarrow> [] | Some c \<Rightarrow> cr_DependencyRefs c)"

definition dfs_fuel :: "component_ref list \<Rightarrow> nat" where
  "dfs_fuel refs = length refs + sum_list (map (\<lambda>c. length (cr_DependencyRefs c)) refs)"

definition detect_cycles :: "component_ref list \<Rightarrow> unit res option" where
  "detect_cycles refs =
     (case visit_roots (dfs_fuel refs) (all_deps refs) (map cr_Name refs)
             \<lparr>df_visited = [], df_recStack = [], df_path = []\<rparr> of
        None \<Rightarrow> None
      | Some (Inl err) \<Rightarrow> Some (Inl err)
      | Some (Inr _) \<Rightarrow> Some (Inr ()))"

definition unknown_dependency :: "component_ref list \<Rightarrow> (string \<times> string) option" where
  "unknown_dependency refs =
     find (\<lambda>(n, dep). dep \<notin> cr_Name ` set refs)
       (concat (map (\<lambda>c. map (\<lambda>dep. (cr_Name c, dep)) (cr_DependencyRefs c)) refs))"

definition validate_dependencies :: "component_ref list \<Rightarrow> unit res option" where
  "validate_dependencies refs =
     (case unknown_dependency refs of
        Some (n, dep) \<Rightarrow>
          Some (Inl (err_new ErrCodeInvalidRequest ''component %q references unknown dependency %q'' [n, dep]))
      | None \<Rightarrow>
          map_option (res_wrap (err_wrap ErrCodeInvalidRequest ''dependency validation failed'' [])) (detect_cycles refs))"

subsection \<open>The search finds exactly the cycles\<close>

definition edge_rel :: "(string \<Rightarrow> string list) \<Rightarrow> (string \<times> string) set" where
  "edge_rel deps = {(a, b). b \<in> set (deps a)}"

definition finished :: "dfs_state \<Rightarrow> string set" where
  "finished st = set (df_visited st) - set (df_path st)"

definition chain :: "(string \<Rightarrow> string list) \<Rightarrow> string list \<Rightarrow> bool" where
  "chain deps p \<longleftrightarrow> (\<forall>i. Suc i < length p \<longrightarrow> (p ! i, p ! Suc i) \<in> edge_rel deps)"

text \<open>
  The stack is the path, a chain of edges; what was visited and is not on it is closed under
  dependencies and without cycles.
\<close>

definition dfs_inv :: "(string \<Rightarrow> string list) \<Rightarrow> dfs_state \<Rightarrow> bool" where
  "dfs_inv deps st \<longleftrightarrow>
     set (df_recStack st) = set (df_path st) \<and> distinct (df_path st) \<and> set (df_path st) \<subseteq> set (df_visited st) \<and>
     chain deps (df_path st) \<and>
     (\<forall>n \<in> finished st. set (deps n) \<subseteq> finished st) \<and>
     acyclic (edge_rel deps \<inter> finished st \<times> finished st)"

lemma chain_snoc: "chain deps (p @ [x, y]) \<longleftrightarrow> chain deps (p @ [x]) \<and> y \<in> set (deps x)"
proof -
  have "(\<forall>i. Suc i < Suc (Suc (length p)) \<longrightarrow> P i) \<longleftrightarrow> (\<forall>i. Suc i < Suc (length p) \<longrightarrow> P i) \<and> P (length p)" for P
    by (auto simp: less_Suc_eq)
  then show ?thesis
    by (auto simp: chain_def edge_rel_def nth_append less_Suc_eq)
qed

lemma chain_rtrancl:
  assumes "chain deps p" "j < length p" "i \<le> j"
  shows "(p ! i, p ! j) \<in> (edge_rel deps)\<^sup>*"
  using assms(3,2)
proof (induction j rule: dec_induct)
  case (step j)
  then have "(p ! j, p ! Suc j) \<in> edge_rel deps" using assms(1) by (simp add: chain_def)
  with step show ?case by (meson Suc_lessD rtrancl.rtrancl_into_rtrancl)
qed simp

lemma back_edge_cycle:
  assumes "chain deps (p @ [x])" "y \<in> set (p @ [x])" "y \<in> set (deps x)"
  shows "\<not> acyclic (edge_rel deps)"
proof -
  let ?q = "p @ [x]"
  obtain i where i: "i < length ?q" "?q ! i = y" using assms(2) by (metis in_set_conv_nth)
  then have "(y, x) \<in> (edge_rel deps)\<^sup>*"
    using chain_rtrancl [OF assms(1), of "length p" i] by simp
  moreover have "(x, y) \<in> edge_rel deps" using assms(3) by (simp add: edge_rel_def)
  ultimately show ?thesis unfolding acyclic_def by (meson rtrancl_into_trancl2)
qed

lemma acyclic_extend:
  assumes "acyclic (E \<inter> F \<times> F)" "\<And>a b. a \<in> F \<Longrightarrow> (a, b) \<in> E \<Longrightarrow> b \<in> F" "\<And>b. (x, b) \<in> E \<Longrightarrow> b \<in> F" "x \<notin> F"
  shows "acyclic (E \<inter> insert x F \<times> insert x F)"
proof -
  let ?E = "E \<inter> insert x F \<times> insert x F"
  have stay: "b \<in> F \<and> (a, b) \<in> (E \<inter> F \<times> F)\<^sup>+" if "(a, b) \<in> ?E\<^sup>+" "a \<in> F" for a b
    using that
  proof (induction rule: trancl_induct)
    case (base b)
    then show ?case using assms(2) by blast
  next
    case (step b c)
    then have "b \<in> F" "(a, b) \<in> (E \<inter> F \<times> F)\<^sup>+" "c \<in> F" using assms(2) by blast+
    then show ?case using step.hyps(2) by (auto intro: trancl_into_trancl)
  qed
  show ?thesis
    unfolding acyclic_def
  proof
    fix a
    show "(a, a) \<notin> ?E\<^sup>+"
    proof
      assume cyc: "(a, a) \<in> ?E\<^sup>+"
      then show False
      proof (cases "a \<in> F")
        case True
        then show False using stay [OF cyc] assms(1) by (auto simp: acyclic_def)
      next
        case False
        obtain b where b: "(a, b) \<in> ?E" "b = a \<or> (b, a) \<in> ?E\<^sup>+" using cyc by (meson tranclD rtranclD)
        then have "b \<in> F" using False assms(2,3) by blast
        then show False using b False stay by blast
      qed
    qed
  qed
qed

lemma dfs_enter:
  assumes "dfs_inv deps st" "n \<notin> set (df_visited st)" "chain deps (df_path st @ [n])"
  shows "dfs_inv deps (enter n st)" "finished (enter n st) = finished st"
proof -
  show fin: "finished (enter n st) = finished st"
    using assms(2) by (auto simp: finished_def enter_def)
  show "dfs_inv deps (enter n st)"
    using assms unfolding dfs_inv_def fin by (auto simp: enter_def)
qed

lemma dfs_leave:
  assumes inv: "dfs_inv deps st" and path: "df_path st = p @ [x]" and below: "set (deps x) \<subseteq> finished st"
  shows "dfs_inv deps (leave x st)" "finished (leave x st) = insert x (finished st)" "df_path (leave x st) = p"
    "df_visited (leave x st) = df_visited st"
proof -
  have x: "x \<notin> set p" "x \<notin> finished st" "x \<in> set (df_visited st)"
    using inv path by (auto simp: dfs_inv_def finished_def)
  show fin: "finished (leave x st) = insert x (finished st)"
    using x path by (auto simp: finished_def leave_def)
  show path': "df_path (leave x st) = p" "df_visited (leave x st) = df_visited st"
    by (simp_all add: leave_def path)
  have closed: "\<And>n. n \<in> finished st \<Longrightarrow> set (deps n) \<subseteq> finished st"
    and acyc: "acyclic (edge_rel deps \<inter> finished st \<times> finished st)"
    using inv by (simp_all add: dfs_inv_def)
  have "acyclic (edge_rel deps \<inter> insert x (finished st) \<times> insert x (finished st))"
    by (rule acyclic_extend [OF acyc]) (use closed below x in \<open>auto simp: edge_rel_def\<close>)
  moreover have "\<forall>n \<in> insert x (finished st). set (deps n) \<subseteq> insert x (finished st)"
    using closed below by blast
  moreover have "chain deps p"
    using inv path by (auto simp: dfs_inv_def chain_def nth_append split: if_splits)
  ultimately show "dfs_inv deps (leave x st)"
    using inv path x unfolding dfs_inv_def fin path' by (auto simp: leave_def)
qed

definition visit_post ::
  "(string \<Rightarrow> string list) \<Rightarrow> string set \<Rightarrow> nat \<Rightarrow> string set \<Rightarrow> dfs_state \<Rightarrow> (go_error + dfs_state) option \<Rightarrow> bool" where
  "visit_post deps U fuel goal st r =
     (case r of
        None \<Rightarrow> fuel < card (U - set (df_visited st))
      | Some (Inl _) \<Rightarrow> \<not> acyclic (edge_rel deps)
      | Some (Inr st') \<Rightarrow>
          dfs_inv deps st' \<and> df_path st' = df_path st \<and> set (df_visited st) \<subseteq> set (df_visited st') \<and>
          goal \<subseteq> finished st')"

lemma visit_post_mono:
  assumes "visit_post deps U fuel goal st' r" "df_path st' = df_path st"
    and "set (df_visited st) \<subseteq> set (df_visited st')" "finite U" "extra \<subseteq> finished st'"
  shows "visit_post deps U fuel (extra \<union> goal) st r"
proof -
  have "card (U - set (df_visited st')) \<le> card (U - set (df_visited st))"
    using assms(3,4) by (intro card_mono) auto
  moreover have "finished st' \<subseteq> finished st''"
    if "df_path st'' = df_path st'" "set (df_visited st') \<subseteq> set (df_visited st'')" for st''
    using that by (auto simp: finished_def)
  ultimately show ?thesis
    using assms by (auto simp: visit_post_def split: option.splits sum.splits)
qed

lemma visit_correct:
  assumes "finite U" "\<And>n. set (deps n) \<subseteq> U"
    and "dfs_inv deps st" "df_path st = p @ [x]" "set ns \<subseteq> set (deps x)"
  shows "visit_post deps U fuel (set ns) st (visit fuel deps ns st)"
  using assms(2-5)
proof (induction fuel deps ns st arbitrary: p x rule: visit.induct)
  case (1 fuel deps st)
  then show ?case by (simp add: visit_post_def)
next
  case (2 fuel deps neighbor rest st)
  have edge: "neighbor \<in> set (deps x)" using 2(7) by simp
  have path_eq: "set (df_recStack st) = set (df_path st)" and chain: "chain deps (p @ [x])"
    using 2(5,6) by (simp_all add: dfs_inv_def)
  show ?case
  proof (cases "neighbor \<in> set (df_visited st)")
    case True
    show ?thesis
    proof (cases "neighbor \<in> set (df_recStack st)")
      case rec: True
      then have "\<not> acyclic (edge_rel deps)" using back_edge_cycle [OF chain _ edge] path_eq 2(6) by simp
      then show ?thesis using True rec by (simp add: visit_post_def)
    next
      case False
      then have "{neighbor} \<subseteq> finished st" using True path_eq by (simp add: finished_def)
      moreover have "visit_post deps U fuel (set rest) st (visit fuel deps rest st)"
        using 2(3) [OF _ False 2(4-6)] True 2(7) by simp
      ultimately show ?thesis
        using visit_post_mono [of deps U fuel "set rest" st _ st "{neighbor}"] assms(1) True False by simp
    qed
  next
    case False
    have U: "neighbor \<in> U - set (df_visited st)" using False edge 2(4) [of x] by auto
    show ?thesis
    proof (cases fuel)
      case 0
      then show ?thesis using False U assms(1) by (simp add: visit_post_def card_gt_0_iff) blast
    next
      case (Suc fuel')
      have ent: "dfs_inv deps (enter neighbor st)" "finished (enter neighbor st) = finished st"
        "df_path (enter neighbor st) = (p @ [x]) @ [neighbor]"
        using dfs_enter [OF 2(5) False] chain edge chain_snoc [of deps p x neighbor] 2(6)
        by (simp_all add: enter_def)
      have inner: "visit_post deps U fuel' (set (deps neighbor)) (enter neighbor st)
          (visit fuel' deps (deps neighbor) (enter neighbor st))"
        using 2(1) [OF False Suc 2(4) ent(1,3)] by simp
      show ?thesis
      proof (cases "visit fuel' deps (deps neighbor) (enter neighbor st)")
        case None
        have "card (U - set (df_visited st)) = Suc (card (U - set (df_visited (enter neighbor st))))"
        proof -
          have "U - set (df_visited (enter neighbor st)) = (U - set (df_visited st)) - {neighbor}"
            by (auto simp: enter_def)
          then show ?thesis using card_Suc_Diff1 [OF finite_Diff U] assms(1) by simp
        qed
        then show ?thesis using inner None Suc False by (simp add: visit_post_def)
      next
        case (Some r)
        show ?thesis
        proof (cases r)
          case (Inl e)
          then show ?thesis using inner Some Suc False by (simp add: visit_post_def)
        next
          case (Inr st')
          have st': "dfs_inv deps st'" "df_path st' = (p @ [x]) @ [neighbor]" "set (deps neighbor) \<subseteq> finished st'"
            "set (df_visited st) \<subseteq> set (df_visited st')"
            using inner Some Inr ent(3) by (auto simp: visit_post_def enter_def)
          note lv = dfs_leave [OF st'(1,2,3)]
          have "visit_post deps U fuel (set rest) (leave neighbor st') (visit fuel deps rest (leave neighbor st'))"
            using 2(2) [OF False Suc Some Inr 2(4) lv(1,3)] 2(7) by simp
          from visit_post_mono [OF this, of st "{neighbor}"] show ?thesis
            using lv st'(4) 2(6) assms(1) Suc Some Inr False by simp
        qed
      qed
    qed
  qed
qed

lemma visit_roots_correct:
  assumes "finite U" "\<And>n. set (deps n) \<subseteq> U" "dfs_inv deps st" "df_path st = []" "card U \<le> fuel"
  shows "case visit_roots fuel deps cs st of
      None \<Rightarrow> False
    | Some (Inl _) \<Rightarrow> \<not> acyclic (edge_rel deps)
    | Some (Inr st') \<Rightarrow> dfs_inv deps st' \<and> df_path st' = [] \<and> finished st \<union> set cs \<subseteq> finished st'"
  using assms(3,4)
proof (induction cs arbitrary: st)
  case (Cons c cs)
  show ?case
  proof (cases "c \<in> set (df_visited st)")
    case True
    then have "c \<in> finished st" using Cons.prems(2) by (simp add: finished_def)
    then show ?thesis using Cons.IH [OF Cons.prems] True by (auto split: option.splits sum.splits)
  next
    case False
    have ent: "dfs_inv deps (enter c st)" "df_path (enter c st) = [] @ [c]" "finished (enter c st) = finished st"
      using dfs_enter [OF Cons.prems(1) False] Cons.prems(2) by (simp_all add: enter_def chain_def)
    have post: "visit_post deps U fuel (set (deps c)) (enter c st) (visit fuel deps (deps c) (enter c st))"
      by (rule visit_correct [OF assms(1,2) ent(1,2) subset_refl])
    have "card (U - set (df_visited (enter c st))) \<le> card U" using assms(1) by (intro card_mono) auto
    then have "visit fuel deps (deps c) (enter c st) \<noteq> None"
      using post assms(5) by (cases "visit fuel deps (deps c) (enter c st)") (simp_all add: visit_post_def)
    then obtain r where r: "visit fuel deps (deps c) (enter c st) = Some r" by blast
    show ?thesis
    proof (cases r)
      case (Inl e)
      then show ?thesis using post r False by (simp add: visit_post_def)
    next
      case (Inr st')
      have st': "dfs_inv deps st'" "df_path st' = [] @ [c]" "set (deps c) \<subseteq> finished st'"
        "set (df_visited (enter c st)) \<subseteq> set (df_visited st')"
        using post r Inr ent(2) by (auto simp: visit_post_def)
      note lv = dfs_leave [OF st'(1-3)]
      have "finished st \<subseteq> finished (leave c st')"
        using st'(2,4) lv(2) Cons.prems(2) False by (auto simp: finished_def enter_def)
      then show ?thesis
        using Cons.IH [OF lv(1,3)] lv(2) r Inr False by (auto split: option.splits sum.splits)
    qed
  qed
qed simp

lemma card_universe:
  "card (cr_Name ` set refs \<union> (\<Union>c \<in> set refs. set (cr_DependencyRefs c))) \<le> dfs_fuel refs"
proof -
  let ?l = "map cr_Name refs @ concat (map cr_DependencyRefs refs)"
  have "cr_Name ` set refs \<union> (\<Union>c \<in> set refs. set (cr_DependencyRefs c)) = set ?l" by auto
  moreover have "length ?l = dfs_fuel refs" by (simp add: dfs_fuel_def length_concat comp_def)
  ultimately show ?thesis using card_length [of ?l] by simp
qed

lemma all_deps_source: "d \<in> set (all_deps refs n) \<Longrightarrow> \<exists>c \<in> set refs. cr_Name c = n \<and> d \<in> set (cr_DependencyRefs c)"
proof -
  assume d: "d \<in> set (all_deps refs n)"
  then obtain c where c: "map_of (index_by cr_Name refs) n = Some c" "d \<in> set (cr_DependencyRefs c)"
    by (cases "map_of (index_by cr_Name refs) n") (simp_all add: all_deps_def)
  have "snd ` set (index_by cr_Name refs) \<subseteq> set refs"
  proof (induction refs rule: rev_induct)
    case (snoc x xs)
    have "snd ` set (upsert (cr_Name x) x (index_by cr_Name xs)) \<subseteq> insert x (snd ` set (index_by cr_Name xs))"
      using image_mono [OF set_upsert_subset [of "cr_Name x" x "index_by cr_Name xs"], of snd] by simp
    then show ?case using snoc by (auto simp: index_by_def)
  qed (simp add: index_by_def)
  then have "c \<in> set refs" using map_of_SomeD [OF c(1)] by force
  moreover have "cr_Name c = n"
    using map_of_SomeD [OF c(1)] keyed_index_by [of cr_Name refs] by (auto simp: keyed_def)
  ultimately show ?thesis using c(2) by blast
qed

lemma detect_cycles_iff:
  "detect_cycles refs = Some (Inr ()) \<longleftrightarrow> acyclic (edge_rel (all_deps refs))"
  "detect_cycles refs \<noteq> None"
proof -
  let ?deps = "all_deps refs" and ?st = "\<lparr>df_visited = [], df_recStack = [], df_path = []\<rparr>"
  let ?U = "cr_Name ` set refs \<union> (\<Union>c \<in> set refs. set (cr_DependencyRefs c))"
  let ?r = "visit_roots (dfs_fuel refs) ?deps (map cr_Name refs) ?st"
  have U: "set (?deps n) \<subseteq> ?U" for n using all_deps_source [of _ refs n] by blast
  have inv: "dfs_inv ?deps ?st" by (simp add: dfs_inv_def chain_def finished_def acyclic_def)
  note post = visit_roots_correct [OF _ U inv _ card_universe, of "map cr_Name refs"]
  have acyc: "acyclic (edge_rel ?deps)" if "?r = Some (Inr st')" for st'
  proof -
    have "acyclic (edge_rel ?deps \<inter> finished st' \<times> finished st')" "cr_Name ` set refs \<subseteq> finished st'"
      "\<forall>n \<in> finished st'. set (?deps n) \<subseteq> finished st'"
      using post that by (auto simp: dfs_inv_def)
    moreover have "edge_rel ?deps \<subseteq> finished st' \<times> finished st'"
      using calculation(2,3) all_deps_source [of _ refs] unfolding edge_rel_def by blast
    ultimately show ?thesis by (simp add: Int_absorb2)
  qed
  show "detect_cycles refs \<noteq> None"
    using post by (auto simp: detect_cycles_def split: option.splits sum.splits)
  show "detect_cycles refs = Some (Inr ()) \<longleftrightarrow> acyclic (edge_rel ?deps)"
    using post acyc by (auto simp: detect_cycles_def split: option.splits sum.splits)
qed

lemma unknown_dependency_None:
  "unknown_dependency refs = None \<longleftrightarrow> (\<forall>c \<in> set refs. set (cr_DependencyRefs c) \<subseteq> cr_Name ` set refs)"
proof -
  have "unknown_dependency refs = None \<longleftrightarrow>
      (\<forall>c \<in> set refs. \<forall>dep \<in> set (cr_DependencyRefs c). dep \<in> cr_Name ` set refs)"
    by (simp add: unknown_dependency_def find_None_iff image_iff) fastforce
  then show ?thesis by blast
qed

lemma validate_dependencies_ok:
  "validate_dependencies refs = Some (Inr ()) \<longleftrightarrow>
     (\<forall>c \<in> set refs. set (cr_DependencyRefs c) \<subseteq> cr_Name ` set refs) \<and> acyclic (edge_rel (all_deps refs))"
proof (cases "unknown_dependency refs")
  case None
  obtain r where r: "detect_cycles refs = Some r" using detect_cycles_iff(2) by blast
  then show ?thesis
    using detect_cycles_iff(1) [of refs] None unknown_dependency_None [of refs]
    by (cases r) (auto simp: validate_dependencies_def)
next
  case (Some u)
  then show ?thesis using unknown_dependency_None [of refs] by (auto simp: validate_dependencies_def split: prod.split)
qed

text \<open>
  Property C2: dependency validation always returns, and it succeeds exactly when every dependency of
  every component names a declared component and the declared dependencies have no cycle: the depth-first
  search reports a cycle if and only if there is one.
\<close>

theorem validate_dependencies_exact:
  "\<exists>r. validate_dependencies refs = Some r \<and>
     (is_ok r \<longleftrightarrow> (\<forall>c \<in> set refs. set (cr_DependencyRefs c) \<subseteq> cr_Name ` set refs) \<and>
                  acyclic {(n, d). d \<in> set (all_deps refs n)})"
proof -
  have "validate_dependencies refs \<noteq> None"
    using detect_cycles_iff(2) by (auto simp: validate_dependencies_def split: option.split)
  then obtain r where r: "validate_dependencies refs = Some r" by blast
  then have "is_ok r \<longleftrightarrow> validate_dependencies refs = Some (Inr ())" by (auto simp: is_ok_iff)
  then show ?thesis using r validate_dependencies_ok [of refs] by (auto simp: edge_rel_def)
qed

lemma validate_dependencies_exact_witness:
  "\<exists>r. validate_dependencies [empty_ref ''a''] = Some r \<and> is_ok r"
proof -
  have deps: "all_deps [empty_ref ''a''] n = []" for n
    by (simp add: all_deps_def index_by_def empty_ref_def)
  show ?thesis
    using validate_dependencies_exact [of "[empty_ref ''a'']"]
    by (auto simp: deps acyclic_def) (simp_all add: empty_ref_def)
qed

text \<open>
  Property C4: the two checks agree: when the dependencies of a merged specification validate, a deployment
  order exists, whichever components the overrides disable.
\<close>

theorem validated_dependencies_have_order:
  assumes "distinct (map cr_Name refs)" "validate_dependencies refs = Some (Inr ())"
  shows "is_ok (topological_sort refs) \<and> is_ok (topological_levels refs)"
proof -
  have known: "\<forall>c \<in> set refs. set (cr_DependencyRefs c) \<subseteq> cr_Name ` set refs"
    and acyc: "acyclic (edge_rel (all_deps refs))"
    using assms(2) validate_dependencies_ok by blast+
  have sub: "set (order_deps refs n) \<subseteq> set (all_deps refs n)" for n
    by (auto simp: order_deps_def all_deps_def map_of_index_by [OF assms(1)] kept_deps_def split: option.split)
  then have "dep_rel (enabled_names refs) (order_deps refs) \<subseteq> (edge_rel (all_deps refs))\<inverse>"
    by (auto simp: dep_rel_def edge_rel_def)
  then have "acyclic (dep_rel (enabled_names refs) (order_deps refs))"
    using acyc acyclic_subset acyclic_converse by metis
  moreover have "set (order_deps refs n) \<subseteq> set (enabled_names refs)" if n: "n \<in> set (enabled_names refs)" for n
  proof -
    obtain c where c: "c \<in> set refs" "cr_Name c = n" using n by (auto simp: enabled_names_def)
    then have "set (cr_DependencyRefs c) \<subseteq> cr_Name ` set refs" using known by blast
    then show ?thesis using in_order_deps [OF assms(1) c(1)] c(2) by blast
  qed
  ultimately have "orderable (enabled_names refs) (order_deps refs)" by (auto simp: orderable_def)
  then show ?thesis
    using topological_sort_ok(1) [OF assms(1)] topological_levels_ok [OF assms(1)] by simp
qed

lemma validated_dependencies_have_order_witness:
  "is_ok (topological_sort [empty_ref ''a''])"
proof -
  have "validate_dependencies [empty_ref ''a''] = Some (Inr ())" by code_simp
  then show ?thesis using validated_dependencies_have_order [of "[empty_ref ''a'']"] by simp
qed

end
