(* ===== verification/Recipe_Result.thy ===== *)
theory Recipe_Result
  imports Coverage Alloc_Policy Value_Paths Dep_Graph
begin

section \<open>Resolved recipes and the values of their components (pkg/recipe, pkg/header)\<close>

text \<open>
  The \<open>RecipeResult\<close> record with its accessors, the gate on the artifact kind and version, and the
  hydration of a component's values: base file, values file, inline overrides, where a null removes the key.
  What a file holds is a parameter: reading and parsing it is the work of the data provider and of the YAML
  library (\<open>read_file\<close>); a file that parses holds a mapping. Contexts are not cancelled here. The build's owner,
  its provider and the bundler's view of declared components are not part of the record.
\<close>

subsection \<open>Versions and kinds of artifacts\<close>

definition GroupVersion :: string where "GroupVersion = ''aicr.run/v1alpha2''"
definition RecipeResultGroupVersion :: string where "RecipeResultGroupVersion = ''aicr.run/v1alpha3''"
definition RecipeResultKind :: string where "RecipeResultKind = ''RecipeResult''"
definition KindRecipe :: string where "KindRecipe = ''Recipe''"

lemmas artifact_names = GroupVersion_def RecipeResultGroupVersion_def RecipeResultKind_def KindRecipe_def

definition is_supported_recipe_result_api_version :: "string \<Rightarrow> bool" where
  "is_supported_recipe_result_api_version v \<longleftrightarrow> v \<in> {GroupVersion, RecipeResultGroupVersion}"

subsection \<open>The result record\<close>

record selected_profile =
  sp_Name :: string
  sp_Value :: string
  sp_Advertiser :: string
  sp_OwnedPaths :: "(string \<times> string list) list option"

record recipe_result_metadata =
  rmd_Version :: string
  rmd_AppliedOverlays :: "string list"
  rmd_ExcludedOverlays :: "excluded_overlay list"
  rmd_ConstraintWarnings :: "constraint_warning list"
  rmd_SelectedProfile :: "selected_profile option"

text \<open>\<open>rr_AccountingMode\<close> is the one field of the configuration, behind three pointers that are set together.\<close>

record recipe_result =
  rr_Kind :: string
  rr_APIVersion :: string
  rr_Metadata :: recipe_result_metadata
  rr_Criteria :: "criteria option"
  rr_AccountingMode :: "string option"
  rr_Constraints :: "constraint list"
  rr_ComponentRefs :: "component_ref list"
  rr_DeploymentOrder :: "string list"
  rr_Validation :: "validation_config option"
  rr_ResolvedValues :: "(string \<times> value_map) list"

definition normalize_kind :: "recipe_result \<Rightarrow> recipe_result res" where
  "normalize_kind r =
     (if rr_Kind r \<in> {[], RecipeResultKind, KindRecipe} then Inr (r \<lparr>rr_Kind := RecipeResultKind\<rparr>)
      else Inl (err_new ErrCodeInvalidRequest
                  ''recipe has kind %q, but %q is required; an absent kind and the legacy %q value are accepted and normalized''
                  [rr_Kind r, RecipeResultKind, KindRecipe]))"

definition get_component_ref :: "recipe_result \<Rightarrow> string \<Rightarrow> component_ref option" where
  "get_component_ref r name = find (\<lambda>c. cr_Name c = name) (rr_ComponentRefs r)"

definition enabled_component_ref :: "recipe_result \<Rightarrow> string \<Rightarrow> component_ref option" where
  "enabled_component_ref r name =
     (case get_component_ref r name of
        None \<Rightarrow> None
      | Some ref \<Rightarrow> (if is_enabled ref then Some ref else None))"

lemma get_component_ref_by_key: "get_component_ref r name = by_key cr_Name (rr_ComponentRefs r) name"
  by (simp add: get_component_ref_def by_key_def)

lemma enabled_component_ref_SomeD:
  "enabled_component_ref r name = Some ref \<Longrightarrow> get_component_ref r name = Some ref \<and> is_enabled ref \<and> cr_Name ref = name"
  by (auto simp: enabled_component_ref_def get_component_ref_by_key split: option.splits if_splits dest: by_key_Some)

subsection \<open>Merging values where null deletes\<close>

function merge_values :: "value_map \<Rightarrow> value_map \<Rightarrow> value_map" where
  "merge_values dst [] = dst"
| "merge_values dst ((k, sv) # src) =
     merge_values
       (case sv of
          VNull \<Rightarrow> filter (\<lambda>e. fst e \<noteq> k) dst
        | VMap sv_map \<Rightarrow>
            upsert k
              (case map_of dst k of
                 Some (VMap dv_map) \<Rightarrow> VMap (merge_values dv_map sv_map)
               | _ \<Rightarrow> VMap sv_map) dst
        | _ \<Rightarrow> upsert k sv dst)
       src"
  by pat_completeness auto
termination
  by (relation "measure (\<lambda>(dst, src). map_size src)") (auto simp: map_size_def)

text \<open>What is under a key after one iteration.\<close>

definition value_entry :: "gval option \<Rightarrow> gval \<Rightarrow> gval option" where
  "value_entry dv sv =
     (case sv of
        VNull \<Rightarrow> None
      | VMap sv_map \<Rightarrow> Some (case dv of Some (VMap dv_map) \<Rightarrow> VMap (merge_values dv_map sv_map) | _ \<Rightarrow> VMap sv_map)
      | _ \<Rightarrow> Some sv)"

definition put :: "string \<Rightarrow> gval option \<Rightarrow> value_map \<Rightarrow> value_map" where
  "put k x m = (case x of None \<Rightarrow> filter (\<lambda>e. fst e \<noteq> k) m | Some v \<Rightarrow> upsert k v m)"

lemma put_value_entry:
  "(case sv of
      VNull \<Rightarrow> filter (\<lambda>e. fst e \<noteq> k) dst
    | VMap sv_map \<Rightarrow>
        upsert k
          (case map_of dst k of
             Some (VMap dv_map) \<Rightarrow> VMap (merge_values dv_map sv_map)
           | _ \<Rightarrow> VMap sv_map) dst
    | _ \<Rightarrow> upsert k sv dst) = put k (value_entry (map_of dst k) sv) dst"
  by (cases sv) (auto simp: value_entry_def put_def)

lemma merge_values_Cons: "merge_values dst ((k, sv) # src) = merge_values (put k (value_entry (map_of dst k) sv) dst) src"
  by (simp only: merge_values.simps(2) put_value_entry)

declare merge_values.simps(2) [simp del]

lemma map_of_filter_key: "map_of (filter (\<lambda>e. fst e \<noteq> k) m) k' = (if k' = k then None else map_of m k')"
  by (induction m) auto

lemma map_of_put [simp]: "map_of (put k x m) k' = (if k' = k then x else map_of m k')"
  by (cases x) (simp_all add: put_def map_of_filter_key)

lemma wf_map_put: "wf_map m \<Longrightarrow> (\<And>v. x = Some v \<Longrightarrow> wf_val v) \<Longrightarrow> wf_map (put k x m)"
proof (cases x)
  case None
  assume "wf_map m"
  then show ?thesis unfolding put_def None by (simp add: wf_map_def distinct_map_filter)
qed (simp add: put_def wf_map_upsert)

lemma map_of_merge_values:
  assumes "distinct (map fst src)"
  shows "map_of (merge_values dst src) k =
    (case map_of src k of None \<Rightarrow> map_of dst k | Some sv \<Rightarrow> value_entry (map_of dst k) sv)"
  using assms
proof (induction src arbitrary: dst)
  case (Cons e src)
  obtain k' sv where e: "e = (k', sv)" by (cases e)
  then have "map_of src k' = None" using Cons.prems by (auto simp: map_of_eq_None_iff)
  then show ?case
    using Cons.IH [of "put k' (value_entry (map_of dst k') sv) dst"] Cons.prems
    by (auto simp: e merge_values_Cons split: option.splits)
qed simp

subsection \<open>Hydration\<close>

datatype file_read = ReadFailed | ParseFailed | ParsedValues value_map

definition base_values_file :: "string \<Rightarrow> string" where
  "base_values_file name = ''components/'' @ name @ ''/values.yaml''"

definition file_values :: "(string \<Rightarrow> file_read) \<Rightarrow> component_ref \<Rightarrow> value_map res" where
  "file_values read_file ref =
     (if cr_ValuesFile ref = [] then Inr []
      else if cr_ValuesFile ref \<noteq> base_values_file (cr_Name ref) then
        res_bind
          (case read_file (base_values_file (cr_Name ref)) of
             ReadFailed \<Rightarrow> Inr []
           | ParseFailed \<Rightarrow> Inl (err_new ErrCodeInternal ''failed to parse base values file %q'' [base_values_file (cr_Name ref)])
           | ParsedValues m \<Rightarrow> Inr m)
          (\<lambda>base. case read_file (cr_ValuesFile ref) of
             ReadFailed \<Rightarrow> Inl (err_new ErrCodeInternal ''failed to read overlay values file %q'' [cr_ValuesFile ref])
           | ParseFailed \<Rightarrow> Inl (err_new ErrCodeInternal ''failed to parse overlay values file %q'' [cr_ValuesFile ref])
           | ParsedValues m \<Rightarrow> Inr (merge_values base m))
      else
        (case read_file (cr_ValuesFile ref) of
           ReadFailed \<Rightarrow> Inl (err_new ErrCodeInternal ''failed to read values file %q'' [cr_ValuesFile ref])
         | ParseFailed \<Rightarrow> Inl (err_new ErrCodeInternal ''failed to parse values file %q'' [cr_ValuesFile ref])
         | ParsedValues m \<Rightarrow> Inr m))"

definition overrides_of :: "component_ref \<Rightarrow> value_map" where
  "overrides_of ref = (case cr_Overrides ref of None \<Rightarrow> [] | Some m \<Rightarrow> m)"

definition resolve_component_values :: "(string \<Rightarrow> file_read) \<Rightarrow> component_ref \<Rightarrow> value_map res" where
  "resolve_component_values read_file ref =
     (if cr_ValuesFile ref = [] \<and> length (overrides_of ref) = 0 then Inr []
      else res_bind (file_values read_file ref)
             (\<lambda>values. Inr (if length (overrides_of ref) > 0 then merge_values values (overrides_of ref) else values)))"

definition get_values_for_component :: "(string \<Rightarrow> file_read) \<Rightarrow> recipe_result \<Rightarrow> string \<Rightarrow> value_map res" where
  "get_values_for_component read_file r name =
     (case get_component_ref r name of
        None \<Rightarrow> Inl (err_new ErrCodeNotFound ''component %q not found in recipe'' [name])
      | Some ref \<Rightarrow>
          (case map_of (rr_ResolvedValues r) name of
             Some values \<Rightarrow> Inr values
           | None \<Rightarrow> resolve_component_values read_file ref))"

definition with_resolved_values :: "(string \<times> value_map) list \<Rightarrow> recipe_result \<Rightarrow> recipe_result" where
  "with_resolved_values values r = (if length values = 0 then r else r \<lparr>rr_ResolvedValues := values\<rparr>)"

text \<open>
  Hydration never fails on a file that is not named, and inline overrides win: what they hold at a path that no
  null or missing map precedes is what is observed after hydration.
\<close>

lemma wf_merge_values: "wf_map dst \<Longrightarrow> wf_map src \<Longrightarrow> wf_map (merge_values dst src)"
proof (induction dst src rule: merge_values.induct)
  case (2 dst k sv src)
  have entry: "wf_val v" if v: "value_entry (map_of dst k) sv = Some v" for v
  proof (cases sv)
    case (VMap sm)
    show ?thesis
    proof (cases "\<exists>dm. map_of dst k = Some (VMap dm)")
      case True
      then obtain dm where dm: "map_of dst k = Some (VMap dm)" by blast
      then have "wf_map dm" using 2(3) wf_map_lookup by fastforce
      then show ?thesis
        using 2(1) [OF VMap dm refl] 2(4) v by (auto simp: value_entry_def VMap dm wf_map_Cons)
    next
      case False
      then show ?thesis
        using 2(4) v by (auto simp: value_entry_def VMap wf_map_Cons split: option.splits gval.splits)
    qed
  qed (use v 2(4) in \<open>auto simp: value_entry_def wf_map_Cons\<close>)
  show ?case
    using 2(2) wf_map_put [OF 2(3) entry] 2(4) unfolding merge_values_Cons put_value_entry by (simp add: wf_map_Cons)
qed simp

lemma value_at_Cons:
  "value_at m (k # p) =
     (case map_of m k of
        None \<Rightarrow> (VNull, PathAbsent)
      | Some v \<Rightarrow> (if p = [] then (v, PathPresent) else case v of VMap sub \<Rightarrow> value_at sub p | _ \<Rightarrow> (VNull, PathBlocked)))"
  by simp

text \<open>A value that is no null and no map, held inline, is what hydration gives.\<close>

lemma value_at_merge_values:
  assumes "wf_map src" "value_at src p = (v, PathPresent)" "v \<noteq> VNull" "\<And>m. v \<noteq> VMap m"
  shows "value_at (merge_values dst src) p = (v, PathPresent)"
  using assms(1,2)
proof (induction p arbitrary: dst src)
  case (Cons k p)
  have dist: "distinct (map fst src)" using Cons.prems(1) by (simp add: wf_map_def)
  obtain sv where sv: "map_of src k = Some sv" using Cons.prems(2) by (simp split: option.splits)
  show ?case
  proof (cases "p = []")
    case True
    then have "sv = v" using Cons.prems(2) sv by simp
    then show ?thesis using True assms(3) assms(4) [of "case v of VMap m \<Rightarrow> m"] by (cases v) (simp_all add: map_of_merge_values [OF dist] sv value_entry_def)
  next
    case False
    then obtain sm where sm: "sv = VMap sm" and at: "value_at sm p = (v, PathPresent)"
      using Cons.prems(2) sv by (cases sv) simp_all
    have wf: "wf_map sm" using wf_map_lookup [OF Cons.prems(1) sv] sm by simp
    show ?thesis
      using Cons.IH [OF wf at] at False
      by (auto simp: map_of_merge_values [OF dist] sv sm value_entry_def split: option.split gval.split)
  qed
qed simp

end
