(* ===== verification/Profile_Lock.thy ===== *)
theory Profile_Lock
  imports Recipe_Result
begin

section \<open>The profile lock (pkg/recipe/profile.go)\<close>

text \<open>
  A selected profile owns value paths. The theory has the contract on its metadata, the effective lock set with the
  allocation-policy closure, the hydration gate, the coherence of the advertisers and the lock itself.
  Go maps are association lists; a loop over one reports the first offender of the listing. Values are
  trees, so the code's search for cyclic references finds none and is left out. Scalars that \<open>gval\<close> does not
  tell apart (floats, timestamps) are judged by the parameter \<open>scalar_ok\<close>.
\<close>

definition ProfileEnabledPath :: string where "ProfileEnabledPath = ''enabled''"

subsection \<open>Identifiers and the metadata contract\<close>

definition identifier_char :: "char \<Rightarrow> bool" where
  "identifier_char c \<longleftrightarrow> is_digit c \<or> CHR ''A'' \<le> c \<and> c \<le> CHR ''Z'' \<or> CHR ''a'' \<le> c \<and> c \<le> CHR ''z'' \<or>
     c \<in> {CHR ''.'', CHR ''_'', CHR ''-''}"

definition valid_profile_identifier :: "string \<Rightarrow> bool" where
  "valid_profile_identifier s \<longleftrightarrow> s \<noteq> [] \<and> list_all identifier_char s"

fun has_double_dot :: "string \<Rightarrow> bool" where
  "has_double_dot (a # b # s) = (a = CHR ''.'' \<and> b = CHR ''.'' \<or> has_double_dot (b # s))"
| "has_double_dot _ = False"

definition path_malformed :: "string \<Rightarrow> bool" where
  "path_malformed path \<longleftrightarrow> path = [] \<or> has_prefix path ''.'' \<or> has_prefix (rev path) ''.'' \<or> has_double_dot path"

fun check_owned_paths :: "string \<Rightarrow> string option \<Rightarrow> string list \<Rightarrow> unit res" where
  "check_owned_paths component prev [] = Inr ()"
| "check_owned_paths component prev (path # paths) =
     (if path_malformed path then
        invalid ''metadata.selectedProfile.ownedPaths[%q] contains invalid path %q'' [component, path]
      else if prev = Some path then
        invalid ''metadata.selectedProfile.ownedPaths[%q] repeats path %q'' [component, path]
      else check_owned_paths component (Some path) paths)"

definition check_owned_entry :: "string \<times> string list \<Rightarrow> unit res" where
  "check_owned_entry e =
     (case e of (component, paths) \<Rightarrow>
        if component = [] then invalid ''metadata.selectedProfile.ownedPaths contains an empty component name'' []
        else if \<not> sorted paths then
          invalid ''metadata.selectedProfile.ownedPaths[%q] must be lexicographically sorted'' [component]
        else if ProfileEnabledPath \<notin> set paths then
          invalid ''metadata.selectedProfile.ownedPaths[%q] must include synthetic path %q'' [component, ProfileEnabledPath]
        else check_owned_paths component None paths)"

definition validate_selected_profile :: "selected_profile \<Rightarrow> unit res" where
  "validate_selected_profile sel =
     (if \<not> valid_profile_identifier (sp_Name sel) \<or> \<not> valid_profile_identifier (sp_Value sel) then
        invalid ''metadata.selectedProfile name and value must match [A-Za-z0-9._-]+'' []
      else case validate_advertiser (sp_Advertiser sel) of
        Inl err \<Rightarrow> Inl err
      | Inr _ \<Rightarrow>
          (case sp_OwnedPaths sel of
             None \<Rightarrow> invalid ''metadata.selectedProfile.ownedPaths is required'' []
           | Some owned \<Rightarrow> each check_owned_entry owned))"

text \<open>
  The excluded overlays and the constraint warnings of a versioned artifact. The model's reasons are values of an
  enumeration, so an unsupported or empty one does not occur.
\<close>

definition validate_profile_metadata_items :: "recipe_result \<Rightarrow> unit res" where
  "validate_profile_metadata_items r =
     (case each (\<lambda>x. if xo_Name x = [] then invalid ''metadata.excludedOverlays[].name is required'' [] else Inr ())
             (rmd_ExcludedOverlays (rr_Metadata r)) of
        Inl err \<Rightarrow> Inl err
      | Inr _ \<Rightarrow>
          each (\<lambda>w. if cw_Overlay w = [] then invalid ''metadata.constraintWarnings[].overlay is required'' []
                    else if cw_Constraint w = [] then invalid ''metadata.constraintWarnings[].constraint is required'' []
                    else if cw_Expected w = [] then invalid ''metadata.constraintWarnings[].expected is required'' []
                    else Inr ()) (rmd_ConstraintWarnings (rr_Metadata r)))"

definition selected_profile_of :: "recipe_result \<Rightarrow> selected_profile option" where
  "selected_profile_of r = rmd_SelectedProfile (rr_Metadata r)"

definition validate_profile_contract :: "recipe_result \<Rightarrow> unit res" where
  "validate_profile_contract r =
     (if rr_APIVersion r \<in> {[], GroupVersion} then
        (if selected_profile_of r \<noteq> None then
           invalid ''recipe apiVersion %q cannot carry metadata.selectedProfile'' [rr_APIVersion r]
         else Inr ())
      else if rr_APIVersion r = RecipeResultGroupVersion then
        (case validate_profile_metadata_items r of
           Inl err \<Rightarrow> Inl err
         | Inr _ \<Rightarrow>
             (case selected_profile_of r of
                None \<Rightarrow>
                  if rr_AccountingMode r \<noteq> None then Inr ()
                  else invalid ''recipe apiVersion %q requires metadata.selectedProfile or configuration.slurm.accounting''
                         [RecipeResultGroupVersion]
              | Some sel \<Rightarrow> validate_selected_profile sel))
      else invalid ''recipe has unsupported apiVersion %q; expected %q or %q''
             [rr_APIVersion r, GroupVersion, RecipeResultGroupVersion])"

subsection \<open>The closure and the effective lock set\<close>

definition owns_allocation_policy_selector_path :: "string \<Rightarrow> string \<Rightarrow> bool" where
  "owns_allocation_policy_selector_path component path =
     (path \<noteq> ProfileEnabledPath \<and> list_ex (paths_intersect path) (selector_paths component))"

definition owned_paths :: "selected_profile \<Rightarrow> (string \<times> string list) list" where
  "owned_paths sel = (case sp_OwnedPaths sel of None \<Rightarrow> [] | Some m \<Rightarrow> m)"

definition paths_of :: "(string \<times> string list) list \<Rightarrow> string \<Rightarrow> string list" where
  "paths_of m component = (case map_of m component of None \<Rightarrow> [] | Some ps \<Rightarrow> ps)"

definition profile_closure_triggered :: "recipe_result \<Rightarrow> bool" where
  "profile_closure_triggered r =
     (case selected_profile_of r of
        None \<Rightarrow> False
      | Some sel \<Rightarrow>
          sp_Advertiser sel = AdvertiserExternal \<or>
          list_ex (\<lambda>(component, paths). list_ex (owns_allocation_policy_selector_path component) paths) (owned_paths sel))"

definition closure_descriptor_entries :: "recipe_result \<Rightarrow> entry list" where
  "closure_descriptor_entries r =
     (if \<not> profile_closure_triggered r then []
      else filter (\<lambda>e. enabled_component_ref r (en_Component e) \<noteq> None) descriptor)"

definition lock_entry :: "recipe_result \<Rightarrow> (string \<times> string list) list \<Rightarrow> entry \<Rightarrow> (string \<times> string list) list" where
  "lock_entry r lock e =
     (if enabled_component_ref r (en_Component e) = None then lock
      else upsert (en_Component e)
             (sort (remdups (paths_of lock (en_Component e) @ ProfileEnabledPath # en_SelectorPaths e))) lock)"

definition effective_lock_set :: "recipe_result \<Rightarrow> (string \<times> string list) list" where
  "effective_lock_set r =
     (case selected_profile_of r of
        None \<Rightarrow> []
      | Some sel \<Rightarrow>
          (if \<not> profile_closure_triggered r then owned_paths sel
           else foldl (lock_entry r) (owned_paths sel) descriptor))"

definition owns_profile_path :: "recipe_result \<Rightarrow> string \<Rightarrow> string \<Rightarrow> bool" where
  "owns_profile_path r component path =
     list_ex (\<lambda>owned. paths_intersect owned path) (paths_of (effective_lock_set r) component)"

subsection \<open>Owned values\<close>

definition json_safe_integer_max :: int where
  "json_safe_integer_max = 2 ^ 53 - 1"

text \<open>All problems of a tree of values in the order of the traversal; the check reports the first one.\<close>

function override_problems :: "(string \<Rightarrow> bool) \<Rightarrow> gval \<Rightarrow> string \<Rightarrow> go_error list" where
  "override_problems scalar_ok (VMap m) path =
     concat (map (\<lambda>(k, v). override_problems scalar_ok v (if path \<noteq> [] then path @ ''.'' @ k else k)) m)"
| "override_problems scalar_ok (VList vs) path =
     concat (map (\<lambda>(i, v). override_problems scalar_ok v (path @ ''['' @ show_nat i @ '']'')) (zip [0..<length vs] vs))"
| "override_problems scalar_ok (VNum n) path =
     (if n < - json_safe_integer_max \<or> n > json_safe_integer_max then
        [err_new ErrCodeInvalidRequest ''profile override %q contains integer %v outside the JSON round-trip-safe range''
           [path, show_int n]]
      else [])"
| "override_problems scalar_ok (VOther s) path =
     (if scalar_ok s then []
      else [err_new ErrCodeInvalidRequest ''profile override %q uses an unsupported scalar'' [path]])"
| "override_problems scalar_ok (VBool b) path = []"
| "override_problems scalar_ok (VStr s) path = []"
| "override_problems scalar_ok VNull path = []"
  by pat_completeness auto
termination
  by (relation "measure (\<lambda>(_, v, _). size v)") (auto dest!: set_zip_rightD intro!: less_Suc_eq_le [THEN iffD2]
        intro: size_list_estimation' order_trans)

definition validate_profile_override_map_keys :: "(string \<Rightarrow> bool) \<Rightarrow> gval \<Rightarrow> string \<Rightarrow> unit res" where
  "validate_profile_override_map_keys scalar_ok value path =
     (case override_problems scalar_ok value path of [] \<Rightarrow> Inr () | err # _ \<Rightarrow> Inl err)"

definition owned_leaf_paths :: "string list \<Rightarrow> string list" where
  "owned_leaf_paths paths = filter (\<lambda>path. path \<noteq> ProfileEnabledPath) paths"

definition validate_profile_owned_values :: "(string \<Rightarrow> bool) \<Rightarrow> value_map \<Rightarrow> string \<Rightarrow> string list \<Rightarrow> unit res" where
  "validate_profile_owned_values scalar_ok values component paths =
     each (\<lambda>path. case profile_value_at_path values path of
             (value, PathPresent) \<Rightarrow> validate_profile_override_map_keys scalar_ok value (component @ ''.'' @ path)
           | _ \<Rightarrow> Inr ()) (owned_leaf_paths paths)"

definition validate_profile_inline_ownership :: "value_map \<Rightarrow> string \<Rightarrow> string list \<Rightarrow> unit res" where
  "validate_profile_inline_ownership overrides component paths =
     each (\<lambda>path. case snd (profile_value_at_path overrides path) of
             PathPresent \<Rightarrow> Inr ()
           | PathBlocked \<Rightarrow> invalid ''profile-owned recipe path %s.%s is blocked by a non-map ancestor'' [component, path]
           | PathAbsent \<Rightarrow>
               invalid ''profile-owned path %s.%s is not assigned by the component overrides; an owned path may not be inherited from the baseline values''
                 [component, path]) (owned_leaf_paths paths)"

text \<open>The state that \<open>ObserveValuePath\<close> reports; the bytes it returns beside are not looked at here.\<close>

definition unblocked :: "value_map \<Rightarrow> string \<Rightarrow> string list \<Rightarrow> unit res" where
  "unblocked values component paths =
     each (\<lambda>path. if snd (profile_value_at_path values path) = PathBlocked
                  then invalid ''profile-owned recipe path %s.%s is blocked by a non-map ancestor'' [component, path]
                  else Inr ()) (owned_leaf_paths paths)"

text \<open>One iteration over the lock set: the values of one component, checked.\<close>

definition check_locked_component ::
  "(string \<Rightarrow> file_read) \<Rightarrow> (string \<Rightarrow> bool) \<Rightarrow> recipe_result \<Rightarrow> string \<Rightarrow> value_map res" where
  "check_locked_component read_file scalar_ok r component =
     (let paths = paths_of (effective_lock_set r) component;
          declared = (case selected_profile_of r of None \<Rightarrow> [] | Some sel \<Rightarrow> paths_of (owned_paths sel) component)
      in case enabled_component_ref r component of
           None \<Rightarrow> invalid ''profile-owned component %q is missing or disabled'' [component]
         | Some ref \<Rightarrow>
             if cr_Type ref = ComponentTypeKustomize \<and> list_ex (\<lambda>path. path \<noteq> ProfileEnabledPath) paths then
               invalid ''profile-owned component %q has type %q, which does not consume values overrides''
                 [component, cr_Type ref]
             else
               res_bind (validate_profile_owned_values scalar_ok (overrides_of ref) component paths) (\<lambda>_.
               res_bind (validate_profile_inline_ownership (overrides_of ref) component declared) (\<lambda>_.
               res_bind (res_wrap (propagate_or_wrap ErrCodeInternal ''failed to hydrate profile-owned component'')
                           (get_values_for_component read_file r component)) (\<lambda>values.
               res_bind (validate_profile_owned_values scalar_ok values component paths) (\<lambda>_.
               res_bind (unblocked values component paths) (\<lambda>_. Inr values))))))"

subsection \<open>Coherence of the advertisers\<close>

definition profile_bool_at_path :: "value_map \<Rightarrow> string \<Rightarrow> string \<Rightarrow> bool option res" where
  "profile_bool_at_path values component path =
     (case profile_value_at_path values path of
        (VBool b, PathPresent) \<Rightarrow> Inr (Some b)
      | (_, PathPresent) \<Rightarrow> invalid ''component %q value %s must be a boolean'' [component, path]
      | (_, PathBlocked) \<Rightarrow> invalid ''component %q value %s is blocked by a non-map ancestor'' [component, path]
      | (_, PathAbsent) \<Rightarrow> Inr None)"

definition observe_operator ::
  "bool \<Rightarrow> (string \<times> value_map) list \<Rightarrow> observation \<Rightarrow> string \<Rightarrow> observation res" where
  "observe_operator external hydrated ob component =
     (case map_of hydrated component of
        None \<Rightarrow> Inr ob
      | Some values \<Rightarrow>
          res_bind (profile_bool_at_path values component PathDevicePluginEnabled) (\<lambda>reading.
            let enabled = (case reading of None \<Rightarrow> True | Some b \<Rightarrow> b)
            in if ob_DevicePluginEnabled ob = None
               then Inr (ob \<lparr>ob_DevicePluginEnabled := Some enabled, ob_GPUOperatorComponent := component\<rparr>)
               else if external \<and> enabled then Inr (ob \<lparr>ob_DevicePluginEnabled := Some enabled\<rparr>)
               else Inr ob))"

definition observe_dra :: "(string \<times> value_map) list \<Rightarrow> observation \<Rightarrow> observation res" where
  "observe_dra hydrated ob =
     (case map_of hydrated ComponentDRADriver of
        None \<Rightarrow> Inr ob
      | Some values \<Rightarrow>
          res_bind (profile_bool_at_path values ComponentDRADriver PathDRAGPUsEnabled) (\<lambda>switch.
            case switch of
              None \<Rightarrow> invalid ''component %q is enabled but %q is not set'' [ComponentDRADriver, PathDRAGPUsEnabled]
            | Some enabled \<Rightarrow>
                res_bind (profile_bool_at_path values ComponentDRADriver PathDRAGPUsEnabledOverride) (\<lambda>waiver.
                  Inr (ob \<lparr>ob_DRAGPUsEnabled := Some enabled,
                           ob_DRAGPUsEnabledOverride := Some (case waiver of None \<Rightarrow> False | Some b \<Rightarrow> b)\<rparr>))))"

definition no_observation :: "string \<Rightarrow> observation" where
  "no_observation advertiser =
     \<lparr>ob_Advertiser = advertiser, ob_DevicePluginEnabled = None, ob_DRAGPUsEnabled = None,
      ob_DRAGPUsEnabledOverride = None, ob_GPUOperatorComponent = []\<rparr>"

definition check_advertiser_coherence :: "recipe_result \<Rightarrow> (string \<times> value_map) list \<Rightarrow> unit res" where
  "check_advertiser_coherence r hydrated =
     (case selected_profile_of r of
        None \<Rightarrow> Inr ()
      | Some sel \<Rightarrow>
          if \<not> profile_closure_triggered r then Inr ()
          else
            res_bind (res_fold (observe_operator (sp_Advertiser sel = AdvertiserExternal) hydrated)
                        (no_observation (sp_Advertiser sel)) [ComponentGPUOperator, ComponentGPUOperatorOCP]) (\<lambda>ob.
            res_bind (observe_dra hydrated ob) check_coherence))"

definition validate_profile_values ::
  "(string \<Rightarrow> file_read) \<Rightarrow> (string \<Rightarrow> bool) \<Rightarrow> recipe_result \<Rightarrow> (string \<times> value_map) list res" where
  "validate_profile_values read_file scalar_ok r =
     (if selected_profile_of r = None then Inr []
      else
        res_bind
          (res_fold (\<lambda>hydrated component.
              res_bind (check_locked_component read_file scalar_ok r component)
                (\<lambda>values. Inr (upsert component values hydrated)))
             [] (sort (map fst (effective_lock_set r))))
          (\<lambda>hydrated. res_bind (check_advertiser_coherence r hydrated) (\<lambda>_. Inr hydrated)))"

subsection \<open>The lock\<close>

definition candidate_enabled :: "component_ref list \<Rightarrow> (string \<times> bool) list" where
  "candidate_enabled refs = foldl (\<lambda>m ref. upsert (cr_Name ref) (is_enabled ref) m) [] refs"

definition check_locked_path ::
  "(gval \<Rightarrow> string) \<Rightarrow> recipe_result \<Rightarrow> value_map \<Rightarrow> value_map \<Rightarrow> bool \<times> bool \<Rightarrow> string list \<Rightarrow> string \<Rightarrow> string \<Rightarrow> unit res" where
  "check_locked_path emit r baseline candidate enabled dynamic component locked =
     (case find (paths_intersect locked) dynamic of
        Some d \<Rightarrow> invalid ''install-time path %s.%s intersects profile-owned path %s.%s'' [component, d, component, locked]
      | None \<Rightarrow>
          if locked = ProfileEnabledPath then
            (if fst enabled \<noteq> snd enabled
             then invalid ''profile-owned component presence diverged for %q'' [component] else Inr ())
          else
            (let want = observe_value_path emit baseline locked; got = observe_value_path emit candidate locked
             in if fst want = PathBlocked then invalid ''profile-owned recipe path %s.%s is blocked'' [component, locked]
                else if want \<noteq> got then invalid ''profile-owned path %s.%s diverged from selected profile'' [component, locked]
                else Inr ()))"

definition check_locked_output ::
  "(gval \<Rightarrow> string) \<Rightarrow> recipe_result \<Rightarrow> (string \<times> value_map) list \<Rightarrow> component_ref list \<Rightarrow> (string \<times> value_map) list \<Rightarrow>
   (string \<times> string list) list \<Rightarrow> string \<Rightarrow> unit res" where
  "check_locked_output emit r baselines refs values dynamic component =
     (case get_component_ref r component of
        None \<Rightarrow> invalid ''profile-owned component %q is absent from the recipe'' [component]
      | Some ref \<Rightarrow>
          if map_of (candidate_enabled refs) component \<noteq> Some True then
            invalid ''profile-owned component %q is absent or disabled in the output'' [component]
          else
            (case map_of values component of
               None \<Rightarrow> invalid ''profile-owned component %q has no candidate values'' [component]
             | Some candidate \<Rightarrow>
                 each (check_locked_path emit r (case map_of baselines component of None \<Rightarrow> [] | Some m \<Rightarrow> m) candidate
                         (is_enabled ref, True) (paths_of dynamic component) component)
                   (paths_of (effective_lock_set r) component)))"

definition validate_profile_lock ::
  "(gval \<Rightarrow> string) \<Rightarrow> (string \<Rightarrow> file_read) \<Rightarrow> (string \<Rightarrow> bool) \<Rightarrow> recipe_result \<Rightarrow> component_ref list \<Rightarrow> (string \<times> value_map) list \<Rightarrow>
   (string \<times> string list) list \<Rightarrow> unit res" where
  "validate_profile_lock emit read_file scalar_ok r refs values dynamic =
     (if selected_profile_of r = None then Inr ()
      else
        res_bind (validate_profile_values read_file scalar_ok r) (\<lambda>baselines.
          each (check_locked_output emit r baselines refs values dynamic) (sort (map fst (effective_lock_set r)))))"

subsection \<open>What the gate establishes\<close>

lemma collect_ok:
  "res_fold (\<lambda>h c. res_bind (f c) (\<lambda>v. Inr (upsert c v h))) [] cs = Inr h \<Longrightarrow>
   (\<forall>c \<in> set cs. is_ok (f c)) \<and> (\<forall>c. map_of h c = (if c \<in> set cs then Some (projr (f c)) else None))"
proof (induction cs arbitrary: h rule: rev_induct)
  case (snoc c cs)
  then obtain h' v where "res_fold (\<lambda>h c. res_bind (f c) (\<lambda>v. Inr (upsert c v h))) [] cs = Inr h'"
    "f c = Inr v" "h = upsert c v h'"
    by (auto simp: res_fold_snoc res_bind_Inr)
  then show ?case using snoc.IH [of h'] by auto
qed simp

lemma validate_profile_values_Inr:
  assumes "validate_profile_values read_file scalar_ok r = Inr hydrated" "selected_profile_of r = Some sel"
  shows "\<And>c. c \<in> fst ` set (effective_lock_set r) \<Longrightarrow>
      \<exists>values. check_locked_component read_file scalar_ok r c = Inr values \<and> map_of hydrated c = Some values"
    "\<And>c. c \<notin> fst ` set (effective_lock_set r) \<Longrightarrow> map_of hydrated c = None"
    "is_ok (check_advertiser_coherence r hydrated)"
proof -
  obtain h where h: "res_fold (\<lambda>hydrated component.
              res_bind (check_locked_component read_file scalar_ok r component)
                (\<lambda>values. Inr (upsert component values hydrated)))
             [] (sort (map fst (effective_lock_set r))) = Inr h"
    "is_ok (check_advertiser_coherence r h)" "hydrated = h"
    using assms by (auto simp: validate_profile_values_def res_bind_Inr is_ok_iff)
  note c = collect_ok [OF h(1)]
  show "\<exists>values. check_locked_component read_file scalar_ok r c = Inr values \<and> map_of hydrated c = Some values"
    if "c \<in> fst ` set (effective_lock_set r)" for c
    using c that h(3) by (force simp: is_ok_iff)
  show "map_of hydrated c = None" if "c \<notin> fst ` set (effective_lock_set r)" for c
    using c that h(3) by (force simp: is_ok_iff)
  show "is_ok (check_advertiser_coherence r hydrated)" using h by simp
qed

text \<open>A locked component is enabled, its values are those of the recipe, and no owned path is blocked in them.\<close>

lemma check_locked_component_Inr:
  assumes "check_locked_component read_file scalar_ok r component = Inr values"
  shows "\<exists>ref. enabled_component_ref r component = Some ref"
    "get_values_for_component read_file r component = Inr values"
    "\<And>path. path \<in> set (paths_of (effective_lock_set r) component) \<Longrightarrow> path \<noteq> ProfileEnabledPath \<Longrightarrow>
       snd (profile_value_at_path values path) \<noteq> PathBlocked"
  using assms
  by (auto simp: check_locked_component_def Let_def res_bind_Inr res_wrap_Inr unblocked_def is_ok_unit owned_leaf_paths_def
      split: option.splits if_splits)

lemma foldl_upsert_keys: "fst ` set (foldl (\<lambda>m e. if P e then m else upsert (k e) (v m e) m) m0 es) =
    fst ` set m0 \<union> k ` {e \<in> set es. \<not> P e}"
  by (induction es arbitrary: m0) auto

lemma effective_lock_set_keys:
  assumes "selected_profile_of r = Some sel"
  shows "fst ` set (effective_lock_set r) =
    fst ` set (owned_paths sel) \<union> en_Component ` set (closure_descriptor_entries r)"
  using assms foldl_upsert_keys [of "\<lambda>e. enabled_component_ref r (en_Component e) = None" en_Component
      "\<lambda>m e. sort (remdups (paths_of m (en_Component e) @ ProfileEnabledPath # en_SelectorPaths e))" "owned_paths sel" descriptor]
  by (simp add: effective_lock_set_def closure_descriptor_entries_def lock_entry_def [abs_def])

lemma each_find: "is_ok (each f xs) = list_all (\<lambda>x. is_ok (f x)) xs"
  by (simp add: list_all_iff)

text \<open>
  Property C14: the lock is exact. An output passes for a selected profile exactly when the recipe's own values pass
  the gate and, for every component of the effective lock set, the output contains it enabled, no install-time path
  intersects a locked path, and every locked path is observed in the output as in the recipe - the same bytes of
  YAML with sorted keys, or absent from both.
\<close>

theorem profile_lock_exact:
  assumes "selected_profile_of r = Some sel"
  shows "is_ok (validate_profile_lock emit read_file scalar_ok r refs values dynamic) \<longleftrightarrow>
    (\<exists>hydrated. validate_profile_values read_file scalar_ok r = Inr hydrated \<and>
      (\<forall>component \<in> fst ` set (effective_lock_set r).
         map_of (candidate_enabled refs) component = Some True \<and>
         (\<exists>baseline candidate. map_of hydrated component = Some baseline \<and> map_of values component = Some candidate \<and>
           (\<forall>path \<in> set (paths_of (effective_lock_set r) component).
              (\<forall>d \<in> set (paths_of dynamic component). \<not> paths_intersect path d) \<and>
              (path \<noteq> ProfileEnabledPath \<longrightarrow> observe_value_path emit candidate path = observe_value_path emit baseline path)))))"
proof -
  have step: "is_ok (check_locked_output emit r hydrated refs values dynamic component) \<longleftrightarrow>
      map_of (candidate_enabled refs) component = Some True \<and>
      (\<exists>baseline candidate. map_of hydrated component = Some baseline \<and> map_of values component = Some candidate \<and>
        (\<forall>path \<in> set (paths_of (effective_lock_set r) component).
          (\<forall>d \<in> set (paths_of dynamic component). \<not> paths_intersect path d) \<and>
          (path \<noteq> ProfileEnabledPath \<longrightarrow> observe_value_path emit candidate path = observe_value_path emit baseline path)))"
    if val: "validate_profile_values read_file scalar_ok r = Inr hydrated"
      and comp: "component \<in> fst ` set (effective_lock_set r)" for hydrated component
  proof -
    obtain baseline where b: "check_locked_component read_file scalar_ok r component = Inr baseline" "map_of hydrated component = Some baseline"
      using validate_profile_values_Inr(1) [OF val assms comp] by blast
    obtain ref where ref: "get_component_ref r component = Some ref" "is_enabled ref"
      using check_locked_component_Inr(1) [OF b(1)] enabled_component_ref_SomeD by blast
    have path: "is_ok (check_locked_path emit r baseline candidate (is_enabled ref, True) ds component path) \<longleftrightarrow>
        (\<forall>d \<in> set ds. \<not> paths_intersect path d) \<and>
        (path \<noteq> ProfileEnabledPath \<longrightarrow> observe_value_path emit candidate path = observe_value_path emit baseline path)"
      if "path \<in> set (paths_of (effective_lock_set r) component)" for path ds candidate
      using check_locked_component_Inr(3) [OF b(1) that] ref(2)
      by (auto simp: check_locked_path_def Let_def find_None_iff find_Some_iff split: option.split)
    show ?thesis
      using path by (auto simp: check_locked_output_def ref(1) b(2) split: option.split)
  qed
  show ?thesis
    using assms step by (auto simp: validate_profile_lock_def is_ok_bind)
qed

end
