(* ===== verification/Profile_Declaration.thy ===== *)
theory Profile_Declaration
  imports Profile_Lock Overlay_Store
begin


section \<open>Profile declarations and their application (pkg/recipe/profile.go, profile_resolution.go)\<close>

text \<open>
  A declaration offers named values; each value is a fragment of constraints and component overrides. The validation
  computes the paths the declaration owns: every value must assign the same paths (union totality). A selection or the
  default picks a value, and applying it merges its overrides over the composed recipe.
\<close>

subsection \<open>Selections\<close>

record profile_selection =
  ps_Name :: string
  ps_Value :: string

definition parse_profile_selection :: "string \<Rightarrow> profile_selection option res" where
  "parse_profile_selection raw =
     (if raw = [] then Inr None
      else if trim_space raw \<noteq> raw \<or> length (filter (\<lambda>c. c = CHR ''='') raw) \<noteq> 1 then
        invalid ''profile must use the exact name=value form'' []
      else
        (let name = takeWhile (\<lambda>c. c \<noteq> CHR ''='') raw; value = tl (dropWhile (\<lambda>c. c \<noteq> CHR ''='') raw)
         in if \<not> valid_profile_identifier name \<or> \<not> valid_profile_identifier value then
              invalid ''profile name and value must match [A-Za-z0-9._-]+'' []
            else Inr (Some \<lparr>ps_Name = name, ps_Value = value\<rparr>)))"

definition profile_selection_string :: "profile_selection \<Rightarrow> string" where
  "profile_selection_string sel = ps_Name sel @ ''='' @ ps_Value sel"

subsection \<open>Flattening overrides\<close>

function walk_overrides :: "string list \<Rightarrow> value_map \<Rightarrow> string list res" where
  "walk_overrides pre [] = Inr []"
| "walk_overrides pre ((key, v) # m) =
     (if key = [] \<or> CHR ''.'' \<in> set key then
        invalid ''profile override key %q must be nonempty and may not contain a literal dot'' [key]
      else
        res_bind
          (case v of
             VMap nested \<Rightarrow>
               if length nested = 0 then
                 invalid ''profile override %q assigns an empty map'' [join_with ''.'' (pre @ [key])]
               else walk_overrides (pre @ [key]) nested
           | _ \<Rightarrow> Inr [join_with ''.'' (pre @ [key])])
          (\<lambda>paths. res_bind (walk_overrides pre m) (\<lambda>rest. Inr (paths @ rest))))"
  by pat_completeness auto
termination
  by (relation "measure (\<lambda>(_, m). map_size m)") (auto simp: map_size_def)

definition flatten_profile_overrides :: "(string \<Rightarrow> bool) \<Rightarrow> value_map \<Rightarrow> string list res" where
  "flatten_profile_overrides scalar_ok overrides =
     res_bind (validate_profile_override_map_keys scalar_ok (VMap overrides) []) (\<lambda>_.
     res_bind (walk_overrides [] overrides) (\<lambda>paths. Inr (sort paths)))"

subsection \<open>Validating a declaration\<close>

text \<open>The first pair of names that differ only by case, in the order of the map.\<close>

fun case_clash :: "(string \<times> string) list \<Rightarrow> string list \<Rightarrow> (string \<times> string) option" where
  "case_clash lowered [] = None"
| "case_clash lowered (name # names) =
     (case map_of lowered (to_lower name) of
        Some prev \<Rightarrow> Some (prev, name)
      | None \<Rightarrow> case_clash ((to_lower name, name) # lowered) names)"

definition case_unique_value_names :: "profile_declaration \<Rightarrow> string list res" where
  "case_unique_value_names decl =
     (case case_clash [] (map fst (pd_Values decl)) of
        Some (prev, name) \<Rightarrow> invalid ''profile %q values %q and %q differ only by case'' [pd_Name decl, prev, name]
      | None \<Rightarrow> Inr (sort (map fst (pd_Values decl))))"

fun check_profile_constraints :: "string \<Rightarrow> string \<Rightarrow> string list \<Rightarrow> constraint list \<Rightarrow> unit res" where
  "check_profile_constraints pname vname seen [] = Inr ()"
| "check_profile_constraints pname vname seen (c # cs) =
     (if co_Name c = [] then invalid ''profile %q value %q declares a constraint with no name'' [pname, vname]
      else if co_Value c = [] then invalid ''profile %q value %q constraint %q has no value'' [pname, vname, co_Name c]
      else if co_Name c \<in> set seen then invalid ''profile %q value %q repeats constraint %q'' [pname, vname, co_Name c]
      else check_profile_constraints pname vname (co_Name c # seen) cs)"

definition profile_overrides :: "profile_component_ref \<Rightarrow> value_map" where
  "profile_overrides ref = (case pc_Overrides ref of None \<Rightarrow> [] | Some m \<Rightarrow> m)"

type_synonym path_sets = "(string \<times> string list) list"

definition own :: "string \<Rightarrow> string list \<Rightarrow> path_sets \<Rightarrow> path_sets" where
  "own component paths owned =
     upsert component (append_new (paths_of owned component) (paths @ [ProfileEnabledPath])) owned"

text \<open>One value: its component references in order, with the names seen, the paths assigned and the paths owned so far.\<close>

fun collect_profile_refs ::
  "(string \<Rightarrow> bool) \<Rightarrow> string \<Rightarrow> string \<Rightarrow> string list \<Rightarrow> string list \<times> path_sets \<Rightarrow> profile_component_ref list \<Rightarrow>
   (string list \<times> path_sets) res" where
  "collect_profile_refs ok pname vname seen st [] = Inr st"
| "collect_profile_refs ok pname vname seen (value_paths, owned) (ref # refs) =
     (if pc_Name ref = [] then invalid ''profile %q value %q has a componentRef with an empty name'' [pname, vname]
      else if pc_Name ref \<in> set seen then
        invalid ''profile %q value %q repeats componentRef %q'' [pname, vname, pc_Name ref]
      else if map_of (profile_overrides ref) ProfileEnabledPath \<noteq> None then
        invalid ''profile %q value %q component %q may not assign overrides.enabled'' [pname, vname, pc_Name ref]
      else
        res_bind (res_wrap (err_wrap ErrCodeInvalidRequest ''invalid profile overrides'' [])
                    (flatten_profile_overrides ok (profile_overrides ref))) (\<lambda>paths.
          collect_profile_refs ok pname vname (pc_Name ref # seen)
            (value_paths @ map (\<lambda>path. pc_Name ref @ '':'' @ path) paths, own (pc_Name ref) paths owned) refs))"

definition validate_profile_value ::
  "(string \<Rightarrow> bool) \<Rightarrow> profile_declaration \<Rightarrow> string list option \<times> path_sets \<Rightarrow> string \<Rightarrow> (string list option \<times> path_sets) res" where
  "validate_profile_value ok decl st vname =
     (case st of (expected, owned) \<Rightarrow>
        if \<not> valid_profile_identifier vname then invalid ''profile value %q must match [A-Za-z0-9._-]+'' [vname]
        else
          (case map_of (pd_Values decl) vname of
             None \<Rightarrow> Inr st
           | Some value \<Rightarrow>
               res_bind (validate_advertiser (pv_Advertiser value)) (\<lambda>_.
               res_bind (check_profile_constraints (pd_Name decl) vname [] (pv_Constraints value)) (\<lambda>_.
               res_bind (collect_profile_refs ok (pd_Name decl) vname [] ([], owned) (pv_ComponentRefs value)) (\<lambda>(paths, owned').
                 case expected of
                   None \<Rightarrow> Inr (Some (sort paths), owned')
                 | Some e \<Rightarrow>
                     if sort paths \<noteq> e then
                       invalid ''profile %q violates union totality: value %q assigns other paths'' [pd_Name decl, vname]
                     else Inr (Some e, owned'))))))"

definition validate_profile_declaration :: "(string \<Rightarrow> bool) \<Rightarrow> profile_declaration option \<Rightarrow> path_sets res" where
  "validate_profile_declaration ok declaration =
     (case declaration of
        None \<Rightarrow> invalid ''profile declaration is required'' []
      | Some decl \<Rightarrow>
          if \<not> valid_profile_identifier (pd_Name decl) then invalid ''profile name must match [A-Za-z0-9._-]+'' []
          else if \<not> valid_profile_identifier (pd_Default decl) then invalid ''profile default must match [A-Za-z0-9._-]+'' []
          else if length (pd_Values decl) = 0 then invalid ''profile %q must declare at least one value'' [pd_Name decl]
          else if map_of (pd_Values decl) (pd_Default decl) = None then
            invalid ''profile %q default %q is not a declared value'' [pd_Name decl, pd_Default decl]
          else
            res_bind (case_unique_value_names decl) (\<lambda>names.
            res_bind (res_fold (validate_profile_value ok decl) (None, []) names) (\<lambda>(_, owned).
              Inr (map (\<lambda>(component, paths). (component, sort paths)) owned))))"

definition validate_recipe_metadata_profile :: "(string \<Rightarrow> bool) \<Rightarrow> recipe_metadata \<Rightarrow> unit res" where
  "validate_recipe_metadata_profile ok m =
     (let profile = rs_Profile (rm_Spec m)
      in if rm_APIVersion m = RecipeResultGroupVersion \<and> profile = None then
           invalid ''RecipeMetadata uses apiVersion %q but has no spec.profile declaration'' [RecipeResultGroupVersion]
         else if profile \<noteq> None \<and> rm_APIVersion m \<noteq> RecipeResultGroupVersion then
           invalid ''RecipeMetadata declares spec.profile but uses apiVersion %q; expected %q''
             [rm_APIVersion m, RecipeResultGroupVersion]
         else if profile \<noteq> None then res_bind (validate_profile_declaration ok profile) (\<lambda>_. Inr ())
         else Inr ())"

record profile_summary =
  pm_Name :: string
  pm_Description :: string
  pm_Default :: string
  pm_Values :: "string list"

definition profile_summary_of :: "profile_declaration \<Rightarrow> profile_summary" where
  "profile_summary_of decl =
     \<lparr>pm_Name = pd_Name decl, pm_Description = pd_Description decl, pm_Default = pd_Default decl,
      pm_Values = sort (map fst (pd_Values decl))\<rparr>"

subsection \<open>The flattened paths are the leaves\<close>

fun leaf_paths :: "value_map \<Rightarrow> string list list" where
  "leaf_paths m = concat (map (\<lambda>(k, v). case v of VMap nested \<Rightarrow> map ((#) k) (leaf_paths nested) | _ \<Rightarrow> [[k]]) m)"

declare leaf_paths.simps [simp del]

lemma leaf_paths_Nil [simp]: "leaf_paths [] = []"
  by (subst leaf_paths.simps) simp

lemma leaf_paths_Cons:
  "leaf_paths ((k, v) # m) = (case v of VMap nested \<Rightarrow> map ((#) k) (leaf_paths nested) | _ \<Rightarrow> [[k]]) @ leaf_paths m"
  by (subst (1 3) leaf_paths.simps) simp

definition plain_key :: "string \<Rightarrow> bool" where
  "plain_key k \<longleftrightarrow> k \<noteq> [] \<and> CHR ''.'' \<notin> set k"

lemma walk_overrides_Inr:
  "walk_overrides pre m = Inr ps \<Longrightarrow>
   ps = map (\<lambda>p. join_with ''.'' (pre @ p)) (leaf_paths m) \<and> (\<forall>p \<in> set (leaf_paths m). p \<noteq> [] \<and> list_all plain_key p)"
proof (induction pre m arbitrary: ps rule: walk_overrides.induct)
  case (2 pre key v m)
  then have key: "plain_key key" by (auto simp: plain_key_def split: if_splits)
  then have nk: "\<not> (key = [] \<or> CHR ''.'' \<in> set key)" by (simp add: plain_key_def)
  obtain here rest where h: "(case v of
             VMap nested \<Rightarrow>
               if length nested = 0 then
                 invalid ''profile override %q assigns an empty map'' [join_with ''.'' (pre @ [key])]
               else walk_overrides (pre @ [key]) nested
           | _ \<Rightarrow> Inr [join_with ''.'' (pre @ [key])]) = Inr here"
    and r: "walk_overrides pre m = Inr rest" and ps: "ps = here @ rest"
    using 2(3) nk by (auto simp: res_bind_Inr)
  note IH = 2(2) [OF nk r]
  show ?case
  proof (cases v)
    case (VMap nested)
    then have "length nested \<noteq> 0" "walk_overrides (pre @ [key]) nested = Inr here" using h by (auto split: if_splits)
    from 2(1) [OF nk VMap this] have "here = map (\<lambda>p. join_with ''.'' (pre @ key # p)) (leaf_paths nested)"
      and "\<forall>p \<in> set (leaf_paths nested). p \<noteq> [] \<and> list_all plain_key p" by simp_all
    then show ?thesis using IH key unfolding ps by (auto simp: leaf_paths_Cons VMap comp_def)
  qed (use h IH key ps in \<open>simp_all add: leaf_paths_Cons\<close>)
qed simp

lemma set_leaf_paths: "wf_map m \<Longrightarrow> p \<in> set (leaf_paths m) \<longleftrightarrow> leaf_at m p \<noteq> None"
proof (induction m arbitrary: p rule: leaf_paths.induct)
  case (1 m)
  have "p \<in> set (leaf_paths m) \<longleftrightarrow>
      (\<exists>k v. (k, v) \<in> set m \<and> (case v of VMap nested \<Rightarrow> p \<in> (#) k ` set (leaf_paths nested) | _ \<Rightarrow> p = [k]))"
    proof -
      have "set (leaf_paths m) = (\<Union>(k, v) \<in> set m. set (case v of VMap nested \<Rightarrow> map ((#) k) (leaf_paths nested) | _ \<Rightarrow> [[k]]))"
        by (subst leaf_paths.simps) auto
      moreover have "p \<in> set (case v of VMap nested \<Rightarrow> map ((#) k) (leaf_paths nested) | _ \<Rightarrow> [[k]]) \<longleftrightarrow>
          (case v of VMap nested \<Rightarrow> p \<in> (#) k ` set (leaf_paths nested) | _ \<Rightarrow> p = [k])" for k v
        by (cases v) simp_all
      ultimately show ?thesis by (simp add: Bex_def split_paired_Ex)
    qed
  also have "\<dots> \<longleftrightarrow> leaf_at m p \<noteq> None"
  proof (cases p)
    case Nil
    then show ?thesis by (auto split: gval.splits)
  next
    case (Cons k p')
    have dist: "distinct (map fst m)" using 1(2) by (simp add: wf_map_def)
    have nested: "p' \<in> set (leaf_paths nested) \<longleftrightarrow> leaf_at nested p' \<noteq> None" if "(k, VMap nested) \<in> set m" for nested
    proof (rule 1(1) [OF that refl refl])
      show "wf_map nested" using 1(2) that by (force simp: wf_map_def)
    qed
    show ?thesis
    proof (cases "map_of m k")
      case None
      then have "\<forall>v. (k, v) \<notin> set m" by (auto simp: map_of_eq_None_iff image_iff)
      then show ?thesis using None by (auto simp: Cons split: gval.splits)
    next
      case (Some v)
      have only: "(k, v') \<in> set m \<longleftrightarrow> v' = v" for v' using Some map_of_eq_Some_iff [OF dist, of k v'] by auto
      have "(\<exists>k' v'. (k', v') \<in> set m \<and> (case v' of VMap nested \<Rightarrow> p \<in> (#) k' ` set (leaf_paths nested) | _ \<Rightarrow> p = [k'])) \<longleftrightarrow>
          (case v of VMap nested \<Rightarrow> p' \<in> set (leaf_paths nested) | _ \<Rightarrow> p' = [])"
      proof -
        have inner: "(case v' of VMap nested \<Rightarrow> p \<in> (#) k' ` set (leaf_paths nested) | _ \<Rightarrow> p = [k']) \<longleftrightarrow>
            k' = k \<and> (case v' of VMap nested \<Rightarrow> p' \<in> set (leaf_paths nested) | _ \<Rightarrow> p' = [])" for k' v'
          by (cases v') (auto simp: Cons)
        show ?thesis unfolding inner by (simp add: only)
      qed
      then show ?thesis using Some nested only by (cases v) (simp_all add: Cons)
    qed
  qed
  finally show ?case .
qed

lemma dot_split_join: "ps \<noteq> [] \<Longrightarrow> list_all plain_key ps \<Longrightarrow> dot_split (join_with ''.'' ps) = ps"
proof (induction ps)
  case (Cons p ps)
  then have p: "CHR ''.'' \<notin> set p" by (simp add: plain_key_def)
  show ?case
  proof (cases ps)
    case Nil
    then show ?thesis using p by (simp add: dot_split_def split_on_free)
  next
    case (Cons q qs)
    then show ?thesis using Cons.IH Cons.prems p split_on_append [OF p] by (simp add: dot_split_def)
  qed
qed simp

lemma join_dot_split: "join_with ''.'' (dot_split path) = path"
  by (simp add: dot_split_def join_split)

lemma flatten_Inr:
  assumes "flatten_profile_overrides ok m = Inr paths" "wf_map m"
  shows "set paths = {path. leaf_at m (dot_split path) \<noteq> None}" "\<And>path. path \<in> set paths \<Longrightarrow> list_all plain_key (dot_split path)"
proof -
  obtain ps where ps: "walk_overrides [] m = Inr ps" "paths = sort ps"
    using assms(1) by (auto simp: flatten_profile_overrides_def res_bind_Inr)
  note w = walk_overrides_Inr [OF ps(1)]
  have path: "path \<in> set paths \<longleftrightarrow> dot_split path \<in> set (leaf_paths m)" for path
  proof
    assume "path \<in> set paths"
    then obtain p where p: "p \<in> set (leaf_paths m)" "path = join_with ''.'' p" using w ps(2) by auto
    then have "dot_split path = p" using w dot_split_join [of p] by auto
    then show "dot_split path \<in> set (leaf_paths m)" using p(1) by simp
  next
    assume "dot_split path \<in> set (leaf_paths m)"
    then show "path \<in> set paths" using w ps(2) join_dot_split [of path] by (force simp: image_iff)
  qed
  show "set paths = {path. leaf_at m (dot_split path) \<noteq> None}" using path set_leaf_paths [OF assms(2)] by blast
  show "list_all plain_key (dot_split path)" if "path \<in> set paths" for path using w path that by auto
qed


subsection \<open>What a valid declaration owns\<close>

text \<open>The paths the references of a value assign, and all pairs of an ownership record.\<close>

definition assigned :: "profile_component_ref list \<Rightarrow> (string \<times> string) set" where
  "assigned refs = {(pc_Name ref, path) | ref path. ref \<in> set refs \<and> leaf_at (profile_overrides ref) (dot_split path) \<noteq> None}"

definition pairs :: "path_sets \<Rightarrow> (string \<times> string) set" where
  "pairs owned = {(component, path). path \<in> set (paths_of owned component)}"

definition colon_path :: "string \<times> string \<Rightarrow> string" where
  "colon_path e = fst e @ '':'' @ snd e"

lemma assigned_simps [simp]:
  "assigned [] = {}"
  "assigned (ref # refs) = {pc_Name ref} \<times> {path. leaf_at (profile_overrides ref) (dot_split path) \<noteq> None} \<union> assigned refs"
  by (auto simp: assigned_def)

lemma paths_of_own: "paths_of (own c ps owned) c' = (if c' = c then append_new (paths_of owned c) (ps @ [ProfileEnabledPath]) else paths_of owned c')"
  by (simp add: own_def paths_of_def)

lemma pairs_own: "pairs (own c ps owned) = pairs owned \<union> {c} \<times> set ps \<union> {(c, ProfileEnabledPath)}"
  by (auto simp: pairs_def paths_of_own split: if_splits)

lemma paths_of_keys: "path \<in> set (paths_of owned c) \<Longrightarrow> c \<in> fst ` set owned"
  by (cases "map_of owned c") (auto simp: paths_of_def dest: map_of_SomeD intro: rev_image_eqI)

text \<open>The invariant of an ownership record: one entry per component, distinct well-formed paths, the presence path.\<close>

definition record_ok :: "path_sets \<Rightarrow> bool" where
  "record_ok owned \<longleftrightarrow> distinct (map fst owned) \<and> (\<forall>c. distinct (paths_of owned c)) \<and>
     (\<forall>c path. (c, path) \<in> pairs owned \<longrightarrow> c \<noteq> [] \<and> [] \<notin> set (dot_split path)) \<and>
     (\<forall>c \<in> fst ` set owned. ProfileEnabledPath \<in> set (paths_of owned c))"

lemma dot_split_enabled [simp]: "dot_split ProfileEnabledPath = [ProfileEnabledPath]"
  by (simp add: dot_split_def ProfileEnabledPath_def)

lemma record_ok_own:
  assumes "record_ok owned" "c \<noteq> []" "\<And>path. path \<in> set ps \<Longrightarrow> [] \<notin> set (dot_split path)"
  shows "record_ok (own c ps owned)"
proof -
  have "distinct (map fst (own c ps owned))" using assms(1) by (simp add: own_def record_ok_def distinct_upsert)
  moreover have "\<forall>c' path. (c', path) \<in> pairs (own c ps owned) \<longrightarrow> c' \<noteq> [] \<and> [] \<notin> set (dot_split path)"
  proof -
    have "[] \<notin> set (dot_split ProfileEnabledPath)" by (simp add: dot_split_enabled) (simp add: ProfileEnabledPath_def)
    then show ?thesis using assms unfolding record_ok_def pairs_own by blast
  qed
  moreover have "\<forall>c' \<in> fst ` set (own c ps owned). ProfileEnabledPath \<in> set (paths_of (own c ps owned) c')"
    using assms(1) by (auto simp: own_def paths_of_own [unfolded own_def] record_ok_def)
  ultimately show ?thesis using assms(1) by (auto simp: record_ok_def paths_of_own)
qed

definition refs_wf :: "profile_component_ref list \<Rightarrow> bool" where
  "refs_wf refs \<longleftrightarrow> (\<forall>ref \<in> set refs. wf_map (profile_overrides ref))"

lemma collect_profile_refs_Inr:
  "collect_profile_refs ok pname vname seen (vp, owned) refs = Inr (vp', owned') \<Longrightarrow> refs_wf refs \<Longrightarrow> record_ok owned \<Longrightarrow>
   record_ok owned' \<and> fst ` set owned' = fst ` set owned \<union> pc_Name ` set refs \<and>
   pairs owned' = pairs owned \<union> assigned refs \<union> (pc_Name ` set refs) \<times> {ProfileEnabledPath} \<and>
   set vp' = set vp \<union> colon_path ` assigned refs \<and> snd ` assigned refs \<inter> {ProfileEnabledPath} = {}"
proof (induction refs arbitrary: seen vp owned)
  case (Cons ref refs)
  let ?m = "profile_overrides ref"
  obtain paths where name: "pc_Name ref \<noteq> []" and enabled: "map_of ?m ProfileEnabledPath = None"
    and paths: "flatten_profile_overrides ok ?m = Inr paths"
    and rest: "collect_profile_refs ok pname vname (pc_Name ref # seen)
        (vp @ map (\<lambda>path. pc_Name ref @ '':'' @ path) paths, own (pc_Name ref) paths owned) refs = Inr (vp', owned')"
    using Cons.prems(1) by (auto simp: res_bind_Inr res_wrap_Inr split: if_splits)
  have wf: "wf_map ?m" "refs_wf refs" using Cons.prems(2) by (simp_all add: refs_wf_def)
  note flat = flatten_Inr [OF paths wf(1)]
  have ok: "record_ok (own (pc_Name ref) paths owned)"
  proof (rule record_ok_own [OF Cons.prems(3) name])
    show "[] \<notin> set (dot_split path)" if "path \<in> set paths" for path
      using flat(2) [OF that] by (auto simp: list_all_iff plain_key_def)
  qed
  note IH = Cons.IH [OF rest wf(2) ok]
  have keys: "fst ` set (own (pc_Name ref) paths owned) = insert (pc_Name ref) (fst ` set owned)" by (simp add: own_def)
  have "(\<lambda>path. pc_Name ref @ '':'' @ path) ` set paths = colon_path ` ({pc_Name ref} \<times> set paths)"
    by (auto simp: colon_path_def image_iff)
  moreover have "ProfileEnabledPath \<notin> set paths" using flat(1) enabled by simp
  ultimately show ?case
    using IH keys pairs_own [of "pc_Name ref" paths owned] flat(1) by (auto simp: image_Un)
qed (simp add: pairs_def)


definition value_refs :: "profile_declaration \<Rightarrow> string \<Rightarrow> profile_component_ref list" where
  "value_refs decl vname = (case map_of (pd_Values decl) vname of None \<Rightarrow> [] | Some v \<Rightarrow> pv_ComponentRefs v)"

definition declaration_inv :: "profile_declaration \<Rightarrow> string list \<Rightarrow> string list option \<times> path_sets \<Rightarrow> bool" where
  "declaration_inv decl visited st \<longleftrightarrow>
     (case st of (expected, owned) \<Rightarrow>
        record_ok owned \<and> fst ` set owned = (\<Union>v \<in> set visited. pc_Name ` set (value_refs decl v)) \<and>
        pairs owned = (\<Union>v \<in> set visited. assigned (value_refs decl v)) \<union> (fst ` set owned) \<times> {ProfileEnabledPath} \<and>
        (expected = None \<longleftrightarrow> visited = []) \<and>
        (\<forall>e v. expected = Some e \<longrightarrow> v \<in> set visited \<longrightarrow> set e = colon_path ` assigned (value_refs decl v)) \<and>
        (\<forall>v \<in> set visited. ProfileEnabledPath \<notin> snd ` assigned (value_refs decl v)))"

lemma declaration_invD:
  assumes "declaration_inv decl visited (expected, owned)"
  shows "record_ok owned" "fst ` set owned = (\<Union>v \<in> set visited. pc_Name ` set (value_refs decl v))"
    "pairs owned = (\<Union>v \<in> set visited. assigned (value_refs decl v)) \<union> (fst ` set owned) \<times> {ProfileEnabledPath}"
    "expected = None \<longleftrightarrow> visited = []"
    "\<And>e v. expected = Some e \<Longrightarrow> v \<in> set visited \<Longrightarrow> set e = colon_path ` assigned (value_refs decl v)"
    "\<And>v. v \<in> set visited \<Longrightarrow> ProfileEnabledPath \<notin> snd ` assigned (value_refs decl v)"
  using assms unfolding declaration_inv_def prod.case by (elim conjE; simp)+

lemma validate_profile_value_step:
  assumes step: "validate_profile_value ok decl (expected, owned) v = Inr (expected', owned')"
    and known: "map_of (pd_Values decl) v \<noteq> None" and wf: "refs_wf (value_refs decl v)"
    and inv: "declaration_inv decl visited (expected, owned)"
  shows "declaration_inv decl (visited @ [v]) (expected', owned')"
proof -
  obtain vl where val: "map_of (pd_Values decl) v = Some vl" using known by blast
  then have refs: "pv_ComponentRefs vl = value_refs decl v" by (simp add: value_refs_def)
  obtain paths owned2 where coll2: "collect_profile_refs ok (pd_Name decl) v [] ([], owned) (value_refs decl v) = Inr (paths, owned2)"
    and tail: "(case expected of
                 None \<Rightarrow> Inr (Some (sort paths), owned2)
               | Some e \<Rightarrow>
                   if sort paths \<noteq> e then
                     invalid ''profile %q violates union totality: value %q assigns other paths'' [pd_Name decl, v]
                   else Inr (Some e, owned2)) = Inr (expected', owned')"
    using step val refs by (auto simp: validate_profile_value_def res_bind_Inr split: if_splits)
  have e: "expected' = Some (sort paths)" "\<And>e. expected = Some e \<Longrightarrow> e = sort paths" "owned2 = owned'"
    using tail by (cases expected; simp split: if_splits)+
  note coll = coll2 [unfolded e(3)]
  have rec: "record_ok owned" and keys: "fst ` set owned = (\<Union>v \<in> set visited. pc_Name ` set (value_refs decl v))"
    and prs: "pairs owned = (\<Union>v \<in> set visited. assigned (value_refs decl v)) \<union> (fst ` set owned) \<times> {ProfileEnabledPath}"
    and exp: "expected = None \<longleftrightarrow> visited = []"
      "\<And>e v. expected = Some e \<Longrightarrow> v \<in> set visited \<Longrightarrow> set e = colon_path ` assigned (value_refs decl v)"
    and en: "\<And>v. v \<in> set visited \<Longrightarrow> ProfileEnabledPath \<notin> snd ` assigned (value_refs decl v)"
    by (rule declaration_invD [OF inv]; assumption)+
  note c = collect_profile_refs_Inr [OF coll wf rec]
  have "set (sort paths) = colon_path ` assigned (value_refs decl w)" if asm: "w \<in> set (visited @ [v])" for w
  proof (cases "w = v")
    case False
    then obtain x where "expected = Some x" using asm exp(1) by (cases expected) auto
    then show ?thesis using e(2) exp(2) [of x w] asm False by auto
  qed (use c in simp)
  moreover have "fst ` set owned' = (\<Union>v \<in> set (visited @ [v]). pc_Name ` set (value_refs decl v))"
    using c keys by auto
  moreover have "pairs owned' = (\<Union>v \<in> set (visited @ [v]). assigned (value_refs decl v)) \<union> (fst ` set owned') \<times> {ProfileEnabledPath}"
    using c prs by auto
  moreover have "ProfileEnabledPath \<notin> snd ` assigned (value_refs decl w)" if "w \<in> set (visited @ [v])" for w
    using that en c by auto
  ultimately show ?thesis using c e(1) unfolding declaration_inv_def by simp
qed

definition declaration_wf :: "profile_declaration \<Rightarrow> bool" where
  "declaration_wf decl \<longleftrightarrow> distinct (map fst (pd_Values decl)) \<and>
     (\<forall>(v, value) \<in> set (pd_Values decl). refs_wf (pv_ComponentRefs value))"

lemma declaration_wf_refs: "declaration_wf decl \<Longrightarrow> refs_wf (value_refs decl v)"
  by (cases "map_of (pd_Values decl) v") (auto simp: declaration_wf_def value_refs_def refs_wf_def dest: map_of_SomeD)

lemma validate_values_inv:
  assumes "res_fold (validate_profile_value ok decl) (None, []) names = Inr st" "declaration_wf decl"
    and "set names \<subseteq> fst ` set (pd_Values decl)"
  shows "declaration_inv decl names st"
  using assms(1,3)
proof (induction names arbitrary: st rule: rev_induct)
  case Nil
  then have "st = (None, [])" by simp
  then show ?case by (simp add: declaration_inv_def record_ok_def pairs_def paths_of_def)
next
  case (snoc v names)
  then obtain expected owned where u: "res_fold (validate_profile_value ok decl) (None, []) names = Inr (expected, owned)"
    and s: "validate_profile_value ok decl (expected, owned) v = Inr st"
    by (auto simp: res_fold_snoc)
  obtain expected' owned' where st: "st = (expected', owned')" by (cases st)
  have "map_of (pd_Values decl) v \<noteq> None" using snoc.prems(2) by (simp add: map_of_eq_None_iff)
  then show ?case
    using validate_profile_value_step [OF s [unfolded st] _ declaration_wf_refs [OF assms(2)]] snoc.IH [OF u] snoc.prems(2) st by simp
qed

lemma validate_profile_declaration_inv:
  assumes "validate_profile_declaration ok (Some decl) = Inr owned" "declaration_wf decl"
  shows "\<exists>expected raw. declaration_inv decl (sort (map fst (pd_Values decl))) (expected, raw) \<and>
      owned = map (\<lambda>(component, paths). (component, sort paths)) raw"
    "map_of (pd_Values decl) (pd_Default decl) \<noteq> None" "valid_profile_identifier (pd_Name decl)"
    "\<And>v. v \<in> fst ` set (pd_Values decl) \<Longrightarrow> valid_profile_identifier v \<and>
       (\<exists>value. map_of (pd_Values decl) v = Some value \<and> is_ok (validate_advertiser (pv_Advertiser value)))"
proof -
  obtain expected raw where f: "res_fold (validate_profile_value ok decl) (None, []) (sort (map fst (pd_Values decl))) = Inr (expected, raw)"
    and o: "owned = map (\<lambda>(component, paths). (component, sort paths)) raw"
    using assms(1) by (auto simp: validate_profile_declaration_def case_unique_value_names_def res_bind_Inr split: if_splits option.splits)
  show "\<exists>expected raw. declaration_inv decl (sort (map fst (pd_Values decl))) (expected, raw) \<and>
      owned = map (\<lambda>(component, paths). (component, sort paths)) raw"
    using validate_values_inv [OF f assms(2)] o by auto
  show "map_of (pd_Values decl) (pd_Default decl) \<noteq> None" "valid_profile_identifier (pd_Name decl)"
    using assms(1) by (auto simp: validate_profile_declaration_def split: if_splits)
  have "\<forall>v \<in> set names. valid_profile_identifier v \<and>
       (\<forall>value. map_of (pd_Values decl) v = Some value \<longrightarrow> is_ok (validate_advertiser (pv_Advertiser value)))"
    if "res_fold (validate_profile_value ok decl) s names = Inr t" for names s t
    using that
    by (induction names arbitrary: s)
      (auto simp: validate_profile_value_def res_bind_Inr is_ok_iff split: sum.splits if_splits prod.splits option.splits)
  from this [OF f] show "valid_profile_identifier v \<and>
       (\<exists>value. map_of (pd_Values decl) v = Some value \<and> is_ok (validate_advertiser (pv_Advertiser value)))"
    if "v \<in> fst ` set (pd_Values decl)" for v
    using that by (cases "map_of (pd_Values decl) v") (auto simp: map_of_eq_None_iff)
qed


subsection \<open>Union totality\<close>

lemma split_on_join: "split_on d (p @ d # s) = split_on d p @ split_on d s"
proof (induction p)
  case (Cons c p)
  then show ?case by (cases "split_on d p") (auto split: list.splits)
qed simp

lemma has_double_dot_split: "has_double_dot path \<Longrightarrow> \<exists>p s. path = p @ ''..'' @ s"
proof (induction path rule: has_double_dot.induct)
  case (1 a b s)
  show ?case
  proof (cases "a = CHR ''.'' \<and> b = CHR ''.''")
    case True
    then have "a # b # s = [] @ ''..'' @ s" by simp
    then show ?thesis by blast
  next
    case False
    then obtain p t where "b # s = p @ ''..'' @ t" using 1 by auto
    then have "a # b # s = (a # p) @ ''..'' @ t" by simp
    then show ?thesis by blast
  qed
qed simp_all

lemma has_prefixD: "has_prefix s p \<Longrightarrow> \<exists>t. s = p @ t"
  by (metis append_take_drop_id has_prefix_def)

lemma path_malformed_split:
  assumes "path_malformed path"
  shows "[] \<in> set (dot_split path)"
proof -
  consider "path = []" | s where "path = [] @ CHR ''.'' # s" | p where "path = p @ CHR ''.'' # []"
    | p s where "path = p @ CHR ''.'' # ([] @ CHR ''.'' # s)"
  proof -
    assume 1: "path = [] \<Longrightarrow> thesis" and 2: "\<And>s. path = [] @ CHR ''.'' # s \<Longrightarrow> thesis"
      and 3: "\<And>p. path = p @ CHR ''.'' # [] \<Longrightarrow> thesis" and 4: "\<And>p s. path = p @ CHR ''.'' # ([] @ CHR ''.'' # s) \<Longrightarrow> thesis"
    from assms consider "path = []" | "has_prefix path ''.''" | "has_prefix (rev path) ''.''" | "has_double_dot path"
      unfolding path_malformed_def by blast
    then show thesis
    proof cases
      case 2
      then obtain s where "path = ''.'' @ s" using has_prefixD by blast
      then show ?thesis by (intro \<open>\<And>s. path = [] @ CHR ''.'' # s \<Longrightarrow> thesis\<close> [of s]) simp
    next
      case 3
      then obtain t where "rev path = ''.'' @ t" using has_prefixD by blast
      then have "path = rev t @ CHR ''.'' # []" by (metis append_Cons append_Nil rev_append rev_rev_ident rev_singleton_conv)
      then show ?thesis by (rule \<open>\<And>p. path = p @ CHR ''.'' # [] \<Longrightarrow> thesis\<close>)
    next
      case 4
      then obtain p s where "path = p @ ''..'' @ s" using has_double_dot_split by blast
      then show ?thesis by (intro \<open>\<And>p s. path = p @ CHR ''.'' # ([] @ CHR ''.'' # s) \<Longrightarrow> thesis\<close> [of p s]) simp
    qed (rule \<open>path = [] \<Longrightarrow> thesis\<close>)
  qed
  then show ?thesis unfolding dot_split_def by cases (simp_all only: split_on_join, simp_all)
qed

lemma check_owned_paths_ok:
  "\<forall>p \<in> set ps. [] \<notin> set (dot_split p) \<Longrightarrow> distinct ps \<Longrightarrow> (\<forall>q. prev = Some q \<longrightarrow> q \<notin> set ps) \<Longrightarrow>
   is_ok (check_owned_paths c prev ps)"
  by (induction c prev ps rule: check_owned_paths.induct) (auto dest: path_malformed_split)

lemma paths_of_map_sort: "paths_of (map (\<lambda>(c, ps). (c, sort ps)) owned) c = sort (paths_of owned c)"
  by (induction owned) (auto simp: paths_of_def)

lemma record_ok_contract: "record_ok owned \<Longrightarrow> is_ok (each check_owned_entry (map (\<lambda>(c, ps). (c, sort ps)) owned))"
proof -
  assume ok: "record_ok owned"
  have "is_ok (check_owned_entry (c, sort ps))" if "(c, ps) \<in> set owned" for c ps
  proof -
    have ps: "paths_of owned c = ps" using that ok by (simp add: paths_of_def record_ok_def)
    have "ProfileEnabledPath \<in> set ps" using ok that ps unfolding record_ok_def by force
    moreover from this have "c \<noteq> []" using ok ps unfolding record_ok_def pairs_def by blast
    moreover have "\<forall>p \<in> set ps. [] \<notin> set (dot_split p)" using ok ps unfolding record_ok_def pairs_def by blast
    moreover have "distinct ps" using ok ps unfolding record_ok_def by metis
    ultimately show ?thesis using check_owned_paths_ok [of "sort ps" None c] by (simp add: check_owned_entry_def)
  qed
  then show ?thesis by auto
qed

lemma colon_path_inject:
  assumes "CHR '':'' \<notin> set (fst e)" "CHR '':'' \<notin> set (fst e')" "colon_path e = colon_path e'"
  shows "e = e'"
proof -
  have cut: "takeWhile (\<lambda>c. c \<noteq> CHR '':'') (n @ '':'' @ p) = n" if "CHR '':'' \<notin> set n" for n p
    using that by (induction n) auto
  have "fst e = fst e'" using cut [OF assms(1), of "snd e"] cut [OF assms(2), of "snd e'"] assms(3) by (simp add: colon_path_def)
  then show ?thesis using assms(3) by (simp add: colon_path_def prod_eq_iff)
qed

definition colon_free :: "profile_declaration \<Rightarrow> bool" where
  "colon_free decl \<longleftrightarrow> (\<forall>(v, vl) \<in> set (pd_Values decl). \<forall>ref \<in> set (pv_ComponentRefs vl). CHR '':'' \<notin> set (pc_Name ref))"

lemma declaration_total:
  assumes inv: "declaration_inv decl names (expected, owned)" and v: "v \<in> set names" and w: "w \<in> set names"
    and colon: "\<And>x ref. x \<in> set names \<Longrightarrow> ref \<in> set (value_refs decl x) \<Longrightarrow> CHR '':'' \<notin> set (pc_Name ref)"
  shows "assigned (value_refs decl v) = assigned (value_refs decl w)"
proof -
  obtain e where e: "expected = Some e" using declaration_invD(4) [OF inv] v by (cases expected) auto
  have img: "colon_path ` assigned (value_refs decl v) = colon_path ` assigned (value_refs decl w)"
    using declaration_invD(5) [OF inv e v] declaration_invD(5) [OF inv e w] by simp
  have "inj_on colon_path (assigned (value_refs decl v) \<union> assigned (value_refs decl w))"
  proof (rule inj_onI)
    fix a b
    assume "a \<in> assigned (value_refs decl v) \<union> assigned (value_refs decl w)"
      "b \<in> assigned (value_refs decl v) \<union> assigned (value_refs decl w)" "colon_path a = colon_path b"
    then show "a = b" using colon [OF v] colon [OF w] by (intro colon_path_inject) (auto simp: assigned_def)
  qed
  then show ?thesis using img by (simp add: inj_on_image_eq_iff)
qed

lemma value_refs_eq: "declaration_wf decl \<Longrightarrow> (v, vl) \<in> set (pd_Values decl) \<Longrightarrow> value_refs decl v = pv_ComponentRefs vl"
  by (simp add: declaration_wf_def value_refs_def)

lemma declaration_owns:
  assumes "validate_profile_declaration ok (Some decl) = Inr owned" "declaration_wf decl" "colon_free decl"
    and "(v, vl) \<in> set (pd_Values decl)"
  shows "is_ok (each check_owned_entry owned) \<and>
    (\<forall>component path. path \<noteq> ProfileEnabledPath \<longrightarrow>
       (path \<in> set (paths_of owned component) \<longleftrightarrow> (component, path) \<in> assigned (pv_ComponentRefs vl)))"
proof -
  let ?names = "sort (map fst (pd_Values decl))"
  obtain expected raw where inv: "declaration_inv decl ?names (expected, raw)"
    and owned: "owned = map (\<lambda>(c, ps). (c, sort ps)) raw"
    using validate_profile_declaration_inv(1) [OF assms(1,2)] by blast
  have v: "v \<in> set ?names" using assms(4) by force
  have colon: "CHR '':'' \<notin> set (pc_Name ref)" if asm: "x \<in> set ?names" "ref \<in> set (value_refs decl x)" for x ref
  proof -
    obtain xl where xl: "(x, xl) \<in> set (pd_Values decl)" using asm(1) by auto
    then have "ref \<in> set (pv_ComponentRefs xl)" using asm(2) value_refs_eq [OF assms(2) xl] by simp
    then show ?thesis using assms(3) xl unfolding colon_free_def by blast
  qed
  have "(\<Union>w \<in> set ?names. assigned (value_refs decl w)) = assigned (value_refs decl v)"
  proof -
    have "assigned (value_refs decl w) = assigned (value_refs decl v)" if asm: "w \<in> set ?names" for w
      by (rule declaration_total [OF inv asm v]) (rule colon)
    then show ?thesis using v by blast
  qed
  then have prs: "pairs raw = assigned (value_refs decl v) \<union> (fst ` set raw) \<times> {ProfileEnabledPath}"
    using declaration_invD(3) [OF inv] by simp
  have "path \<in> set (paths_of owned component) \<longleftrightarrow> (component, path) \<in> pairs raw" for component path
    by (simp add: owned paths_of_map_sort pairs_def)
  then have "path \<in> set (paths_of owned component) \<longleftrightarrow> (component, path) \<in> assigned (pv_ComponentRefs vl)"
    if "path \<noteq> ProfileEnabledPath" for component path
    using that unfolding prs value_refs_eq [OF assms(2,4)] by simp
  then show ?thesis
    using record_ok_contract [OF declaration_invD(1) [OF inv]] unfolding owned by blast
qed

text \<open>
  Property C16: a declaration that validates is union-total, provided its maps are well formed (Go maps: no key twice) and no
  component name in it contains a colon. Whatever value is picked, its overrides assign exactly the paths the declaration
  owns - apart from the synthetic presence path - and the record of owned paths meets the contract the artifact gate
  checks. The condition on colons is needed: the code compares texts of the form component, colon, path, and with colons in
  names a declaration validates that is not union-total (\<open>colon_names_defeat_totality\<close> in theory \<open>Profile_Resolution\<close>).
\<close>

theorem declaration_union_total:
  assumes "validate_profile_declaration ok (Some decl) = Inr owned" "declaration_wf decl" "colon_free decl"
    and "(v, vl) \<in> set (pd_Values decl)"
  shows "is_ok (each check_owned_entry owned) \<and>
    (\<forall>component path. path \<noteq> ProfileEnabledPath \<longrightarrow>
       (path \<in> set (paths_of owned component) \<longleftrightarrow> (component, path) \<in> assigned (pv_ComponentRefs vl)))"
  by (rule declaration_owns [OF assms])

end
