(* ===== verification/Corroborate.thy ===== *)
theory Corroborate
  imports Consensus Coordinate Go_Slices Measurement Profile_Declaration
begin


section \<open>The corroboration dashboard (pkg/corroborate: meta.go, coordinate.go, generate.go)\<close>

text \<open>
  From the evidence runs of an input tree to the grids, histories and catalog of the dashboard. Reading and
  decoding files is outside: a run is loaded from what reading its \<open>meta.json\<close> and its reports gives.
  An instant is the number of nanoseconds since Go's zero time; \<open>clock\<close> holds the functions of
  package \<open>time\<close> in use, \<open>sha\<close> is \<open>sha256.Sum256\<close>, \<open>vcmp\<close> is \<open>semver.Compare\<close>. A map of maps is a list with
  distinct keys, a loop over it goes in the order of the list.
\<close>

subsection \<open>Runs\<close>

record clock =
  ck_parse :: "string \<Rightarrow> int option"
  ck_minute :: "int \<Rightarrow> string"
  ck_day :: "int \<Rightarrow> string"

record run_meta_signer =
  ms_IDHash :: string
  ms_Identity :: string
  ms_Issuer :: string
  ms_Class :: string
  ms_Allowlisted :: bool

record run_meta =
  rm_SchemaVersion :: string
  rm_Coordinate :: coordinate
  rm_Recipe :: string
  rm_Profile :: string
  rm_ProfileSelection :: string
  rm_Signer :: run_meta_signer
  rm_RunID :: string
  rm_AICRVersion :: string
  rm_K8sVersion :: string
  rm_K8sConstraint :: string
  rm_BundleDigest :: string
  rm_EvidenceRef :: string
  rm_RekorLogIndex :: "int option"
  rm_AttestedAt :: string

type_synonym phase_statuses = "(string \<times> (string \<times> string) list) list"

record signer_run =
  sn_meta :: run_meta
  sn_attestedAt :: int
  sn_class :: string
  sn_allowlisted :: bool
  sn_label :: string
  sn_statuses :: phase_statuses

definition phase_names :: "string list" where
  "phase_names = [''deployment'', ''conformance'', ''performance'']"

definition run_meta_schema_version :: string where
  "run_meta_schema_version = ''aicr-corroboration-meta/v1''"

definition schema_major :: "string \<Rightarrow> string" where
  "schema_major v = takeWhile (\<lambda>c. c \<noteq> CHR ''.'') v"

definition compatible_meta_schema :: "string \<Rightarrow> bool" where
  "compatible_meta_schema got \<longleftrightarrow> got = [] \<or> schema_major got = schema_major run_meta_schema_version"

definition classify_signer ::
  "(string \<Rightarrow> string) \<Rightarrow> (string \<Rightarrow> go_error + matcher) \<Rightarrow> allowlist \<Rightarrow> string \<Rightarrow> string \<Rightarrow> string \<times> bool" where
  "classify_signer sha compile a issuer identity =
     (case allowlist_classify sha compile a issuer identity of
        None \<Rightarrow> (class_text ClassCommunity, False)
      | Some (c, _) \<Rightarrow> (class_text c, True))"

definition is_code_host :: "string \<Rightarrow> bool" where
  "is_code_host host \<longleftrightarrow> host = ''github.com'' \<or> host = ''gitlab.com''"

definition label_for :: "run_meta \<Rightarrow> string \<Rightarrow> string" where
  "label_for m c =
     (if c = class_text ClassFirstParty then ''NVIDIA UAT''
      else
        (let identity = ms_Identity (rm_Signer m);
             rest = (case sub_index identity ''://'' of None \<Rightarrow> identity | Some i \<Rightarrow> drop (i + 3) identity);
             segs = filter (\<lambda>p. p \<noteq> []) (split_on (CHR ''/'') rest)
         in if length segs \<ge> 3 \<and> is_code_host (segs ! 0) then segs ! 1 @ ''/'' @ segs ! 2
            else if length segs \<ge> 1 then segs ! 0
            else ms_IDHash (rm_Signer m)))"

definition signer_identity_key :: "run_meta_signer \<Rightarrow> string" where
  "signer_identity_key s = ms_Issuer s @ CHR 10 # ms_Identity s"

definition canonical_source_id :: "(string \<Rightarrow> string) \<Rightarrow> run_meta_signer \<Rightarrow> string" where
  "canonical_source_id sha s = hex_encode (sha (signer_identity_key s))"

definition format_when :: "clock \<Rightarrow> string \<Rightarrow> string" where
  "format_when ck attested = (case ck_parse ck attested of None \<Rightarrow> attested | Some t \<Rightarrow> ck_minute ck t)"

definition format_when_date :: "clock \<Rightarrow> string \<Rightarrow> string" where
  "format_when_date ck attested = (case ck_parse ck attested of None \<Rightarrow> attested | Some t \<Rightarrow> ck_day ck t)"

text \<open>
  \<open>read_phase\<close> is what \<open>os.Stat\<close> and \<open>readCTRF\<close> give for the report of a phase: nothing when the file is
  absent, else an error or the tests with their statuses. A skipped run is \<open>Inr None\<close>.
\<close>

definition phase_step ::
  "(string \<Rightarrow> (go_error + (string \<times> string) list) option) \<Rightarrow> phase_statuses \<Rightarrow> string \<Rightarrow> phase_statuses res" where
  "phase_step read_phase statuses phase =
     (case read_phase phase of
        None \<Rightarrow> Inr statuses
      | Some (Inl err) \<Rightarrow> Inl err
      | Some (Inr tests) \<Rightarrow>
          Inr (upsert phase (foldl (\<lambda>m (name, status). upsert name status m) [] tests) statuses))"

definition load_run ::
  "clock \<Rightarrow> (string \<Rightarrow> string) \<Rightarrow> (string \<Rightarrow> go_error + matcher) \<Rightarrow> allowlist option \<Rightarrow> go_error + run_meta \<Rightarrow>
   (string \<Rightarrow> (go_error + (string \<times> string) list) option) \<Rightarrow> signer_run option res" where
  "load_run ck sha compile allow meta read_phase =
     res_bind meta (\<lambda>m.
       if \<not> compatible_meta_schema (rm_SchemaVersion m) then Inr None
       else
         (let (c, listed) =
            (case allow of
               None \<Rightarrow> (ms_Class (rm_Signer m), ms_Allowlisted (rm_Signer m))
             | Some a \<Rightarrow> classify_signer sha compile a (ms_Issuer (rm_Signer m)) (ms_Identity (rm_Signer m)))
          in res_bind (res_fold (phase_step read_phase) [] phase_names) (\<lambda>statuses.
               (case ck_parse ck (rm_AttestedAt m) of
                  None \<Rightarrow> Inr None
                | Some at \<Rightarrow>
                    Inr (Some \<lparr> sn_meta = m, sn_attestedAt = at, sn_class = c, sn_allowlisted = listed,
                                sn_label = label_for m c, sn_statuses = statuses \<rparr>)))))"

text \<open>The paths of the tree in lexical order; \<open>ctx\<close> is \<open>ctx.Err()\<close> at the check before each.\<close>

fun collect_loaded :: "(nat \<Rightarrow> go_error option) \<Rightarrow> (string \<Rightarrow> signer_run option res) \<Rightarrow> nat \<Rightarrow> string list \<Rightarrow> signer_run list res" where
  "collect_loaded ctx load n [] = Inr []"
| "collect_loaded ctx load n (p # ps) =
     (case ctx n of
        Some err \<Rightarrow> Inl (err_wrap ErrCodeTimeout ''collect runs canceled'' [] err)
      | None \<Rightarrow>
          res_bind (load p) (\<lambda>run.
            res_bind (collect_loaded ctx load (n + 1) ps) (\<lambda>rest.
              Inr (case run of None \<Rightarrow> rest | Some r \<Rightarrow> r # rest))))"

definition collect_runs :: "(nat \<Rightarrow> go_error option) \<Rightarrow> (string \<Rightarrow> signer_run option res) \<Rightarrow> string list \<Rightarrow> signer_run list res" where
  "collect_runs ctx load paths = collect_loaded ctx load 0 (sort paths)"

text \<open>\<open>flatten\<close>: the outcome of a test name, the phases in their order, a later one replacing.\<close>

definition flatten_run :: "signer_run \<Rightarrow> (string \<times> run_result) list" where
  "flatten_run r =
     foldl (\<lambda>out ph. foldl (\<lambda>out (name, status). upsert name (bucket_status status) out) out
         (case map_of (sn_statuses r) ph of None \<Rightarrow> [] | Some byName \<Rightarrow> byName)) [] phase_names"

subsection \<open>Aggregating runs by coordinate\<close>

record recipe_agg =
  ra_coord :: coordinate
  ra_criteria :: criteria
  ra_profile :: string
  ra_profileSelection :: string
  ra_conflicted :: bool
  ra_name :: string
  ra_bySigner :: "(string \<times> signer_run list) list"

definition safe_recipe_slug :: "string \<Rightarrow> bool" where
  "safe_recipe_slug name \<longleftrightarrow>
     name \<noteq> [] \<and> name \<noteq> ''.'' \<and> filepath_is_local name \<and> \<not> (CHR ''/'' \<in> set name \<or> CHR 92 \<in> set name)"

definition profile_segment :: "profile_selection option \<Rightarrow> string res" where
  "profile_segment sp =
     (case sp of
        None \<Rightarrow> Inr []
      | Some s \<Rightarrow>
          res_bind
            (res_wrap (propagate_or_wrap ErrCodeInvalidRequest ''selected profile does not form a valid path segment'')
              (parse_profile_selection (ps_Name s @ ''='' @ ps_Value s)))
            (\<lambda>_. Inr (to_lower (ps_Name s) @ ''-'' @ to_lower (ps_Value s))))"

definition parse_pointer_profile :: "string \<Rightarrow> string res" where
  "parse_pointer_profile selection =
     res_bind (parse_profile_selection selection) (\<lambda>sel.
       case sel of
         None \<Rightarrow> invalid ''profile selection is empty'' []
       | Some s \<Rightarrow> profile_segment (Some s))"

text \<open>
  The coordinate without its profile segment, where the run is consistent about it: the tab ends in the
  segment and the exact selection derives it.
\<close>

definition criteria_coordinate :: "run_meta \<Rightarrow> coordinate option" where
  "criteria_coordinate m =
     (let co = rm_Coordinate m; p = rm_Profile m
      in if p = [] then Some co
         else if \<not> has_suffix (co_Tab co) (CHR ''-'' # p) then None
         else if parse_pointer_profile (rm_ProfileSelection m) \<noteq> Inr p then None
         else Some (co\<lparr>co_Tab := trim_suffix (co_Tab co) (CHR ''-'' # p)\<rparr>))"

type_synonym agg_state = "(string \<times> recipe_agg) list \<times> (string \<times> string) list"

definition aggregate_step :: "(string \<Rightarrow> string) \<Rightarrow> agg_state \<Rightarrow> signer_run \<Rightarrow> agg_state" where
  "aggregate_step sha = (\<lambda>(recipes, nameToCoord) run.
     (let m = sn_meta run; co = rm_Coordinate m
      in case criteria_coordinate m of
           None \<Rightarrow> (recipes, nameToCoord)
         | Some critCo \<Rightarrow>
             (let key = coordinate_path co; signerID = canonical_source_id sha (rm_Signer m)
              in case map_of recipes key of
                   Some agg \<Rightarrow>
                     (if ra_profileSelection agg \<noteq> rm_ProfileSelection m
                      then (upsert key (agg\<lparr>ra_conflicted := True\<rparr>) recipes, nameToCoord)
                      else (upsert key (agg\<lparr>ra_bySigner := append_at signerID run (ra_bySigner agg)\<rparr>) recipes, nameToCoord))
                 | None \<Rightarrow>
                     (let name = rm_Recipe m
                      in if \<not> safe_recipe_slug name then (recipes, nameToCoord)
                         else
                           (case criteria_from_coordinate critCo of
                              Inl _ \<Rightarrow> (recipes, nameToCoord)
                            | Inr crit \<Rightarrow>
                                (if map_of nameToCoord name \<noteq> None \<and> map_of nameToCoord name \<noteq> Some key
                                 then (recipes, nameToCoord)
                                 else
                                   (upsert key
                                      \<lparr> ra_coord = co, ra_criteria = crit, ra_profile = rm_Profile m,
                                        ra_profileSelection = rm_ProfileSelection m, ra_conflicted = False, ra_name = name,
                                        ra_bySigner = append_at signerID run [] \<rparr> recipes,
                                    upsert name key nameToCoord)))))))"

definition aggregate_runs :: "(string \<Rightarrow> string) \<Rightarrow> signer_run list \<Rightarrow> (string \<times> recipe_agg) list" where
  "aggregate_runs sha runs = filter (\<lambda>(_, agg). \<not> ra_conflicted agg) (fst (foldl (aggregate_step sha) ([], []) runs))"


subsection \<open>The grid of one recipe\<close>

definition run_newer :: "signer_run \<Rightarrow> signer_run \<Rightarrow> bool" where
  "run_newer a b =
     (if sn_attestedAt a \<noteq> sn_attestedAt b then sn_attestedAt a > sn_attestedAt b
      else rm_RunID (sn_meta a) > rm_RunID (sn_meta b))"

definition run_identity :: "signer_run \<Rightarrow> string" where
  "run_identity r = signer_identity_key (rm_Signer (sn_meta r))"

definition run_version :: "signer_run \<Rightarrow> string" where
  "run_version r = rm_AICRVersion (sn_meta r)"

definition agg_runs :: "recipe_agg \<Rightarrow> signer_run list" where
  "agg_runs agg = concat (map snd (ra_bySigner agg))"

definition runs_by_id :: "(string \<Rightarrow> string) \<Rightarrow> recipe_agg \<Rightarrow> (string \<times> signer_run list) list" where
  "runs_by_id sha agg =
     foldl (\<lambda>m (_, rs).
       (let sorted_rs = sort_slice run_newer rs
        in upsert (canonical_source_id sha (rm_Signer (sn_meta (hd sorted_rs)))) sorted_rs m))
       [] (group_by run_identity (agg_runs agg))"

record source =
  so_Label :: string
  so_Class :: string
  so_Allowlisted :: bool
  so_SignerID :: string

definition register_source :: "(string \<Rightarrow> string) \<Rightarrow> (string \<times> source) list \<Rightarrow> signer_run \<Rightarrow> (string \<times> source) list" where
  "register_source sha sources run =
     (let i = canonical_source_id sha (rm_Signer (sn_meta run))
      in if map_of sources i \<noteq> None then sources
         else upsert i \<lparr> so_Label = sn_label run, so_Class = sn_class run, so_Allowlisted = sn_allowlisted run,
                         so_SignerID = ms_Identity (rm_Signer (sn_meta run)) \<rparr> sources)"

text \<open>A missing key of a Go map reads as the zero value.\<close>

definition get_or :: "'v \<Rightarrow> ('k \<times> 'v) list \<Rightarrow> 'k \<Rightarrow> 'v" where
  "get_or d m k = (case map_of m k of None \<Rightarrow> d | Some v \<Rightarrow> v)"

type_synonym version_buckets = "(string \<times> (string \<times> signer_run) list) list \<times> (string \<times> int) list"

definition bucket_run :: "string \<Rightarrow> string list \<times> version_buckets \<Rightarrow> signer_run \<Rightarrow> string list \<times> version_buckets" where
  "bucket_run i = (\<lambda>(seen, latest, newest) r.
     (let v = run_version r;
          (seen', latest') = (if v \<in> set seen then (seen, latest)
                              else (seen @ [v], upsert v (upsert i r (get_or [] latest v)) latest));
          newest' = (if sn_attestedAt r > get_or 0 newest v then upsert v (sn_attestedAt r) newest else newest)
      in (seen', latest', newest')))"

definition bucket_signer :: "version_buckets \<Rightarrow> string \<times> signer_run list \<Rightarrow> version_buckets" where
  "bucket_signer = (\<lambda>b (i, rs). snd (foldl (bucket_run i) ([], b) rs))"

definition bucket_versions :: "(string \<times> signer_run list) list \<Rightarrow> version_buckets" where
  "bucket_versions m = foldl bucket_signer ([], []) m"

definition version_before :: "(string \<Rightarrow> string \<Rightarrow> int) \<Rightarrow> (string \<times> int) list \<Rightarrow> string \<Rightarrow> string \<Rightarrow> bool" where
  "version_before vcmp newest vi vj =
     (if vcmp vi vj \<noteq> 0 then vcmp vi vj > 0
      else if get_or 0 newest vi \<noteq> get_or 0 newest vj then get_or 0 newest vi > get_or 0 newest vj
      else vi > vj)"

type_synonym row_key = "string \<times> string"

definition order_index :: "string list \<Rightarrow> (string \<times> nat) list" where
  "order_index values = foldl (\<lambda>m (i, v). upsert v i m) [] (List.enumerate 0 values)"

definition idx :: "(string \<times> nat) list \<Rightarrow> string \<Rightarrow> nat" where
  "idx order v = (case map_of order v of Some i \<Rightarrow> i | None \<Rightarrow> length order + 1)"

definition row_before :: "row_key \<Rightarrow> row_key \<Rightarrow> bool" where
  "row_before a b =
     (let pi = get_or 0 (order_index phase_names) (fst a); pj = get_or 0 (order_index phase_names) (fst b)
      in if pi \<noteq> pj then pi < pj else snd a < snd b)"

definition run_rows :: "signer_run \<Rightarrow> row_key list" where
  "run_rows run = concat (map (\<lambda>(phase, byName). map (\<lambda>(name, _). (phase, name)) byName) (sn_statuses run))"

definition add_run_rows :: "row_key list \<Rightarrow> signer_run \<Rightarrow> row_key list" where
  "add_run_rows seen run = append_new seen (run_rows run)"

definition sorted_row_keys :: "row_key list \<Rightarrow> row_key list" where
  "sorted_row_keys seen = sort_slice row_before seen"

definition union_rows :: "(string \<times> signer_run) list \<Rightarrow> row_key list" where
  "union_rows latest = sorted_row_keys (foldl (\<lambda>seen (_, run). add_run_rows seen run) [] latest)"

definition union_rows_all_builds :: "(string \<times> signer_run list) list \<Rightarrow> row_key list" where
  "union_rows_all_builds m = sorted_row_keys (foldl (\<lambda>seen (_, rs). foldl add_run_rows seen rs) [] m)"

record latest_cell =
  lc_Src :: string
  lc_Result :: string
  lc_AICRVer :: string
  lc_K8sVer :: string
  lc_When :: string
  lc_Build :: string
  lc_EvidenceRef :: string

record row =
  rw_Phase :: string
  rw_Name :: string
  rw_Consensus :: string
  rw_Reported :: nat
  rw_Signers :: "latest_cell list"

definition cell_result :: "signer_run \<Rightarrow> row_key \<Rightarrow> run_result" where
  "cell_result run rk =
     (case map_of (get_or [] (sn_statuses run) (fst rk)) (snd rk) of
        None \<Rightarrow> ResultNotRun
      | Some status \<Rightarrow> bucket_status status)"

definition did_run :: "run_result \<Rightarrow> bool" where
  "did_run r \<longleftrightarrow> r = ResultPass \<or> r = ResultFail"

text \<open>\<open>latest[id]\<close> for the signers of the grid; each of them is a key of the map.\<close>

definition grid_runs :: "string list \<Rightarrow> (string \<times> signer_run) list \<Rightarrow> (string \<times> signer_run) list" where
  "grid_runs ids latest = List.map_filter (\<lambda>i. map_option (Pair i) (map_of latest i)) ids"

definition ballot_of :: "row_key \<Rightarrow> signer_run \<Rightarrow> signer_result" where
  "ballot_of rk run =
     \<lparr> sr_SignerID = run_identity run, sr_Allowlisted = sn_allowlisted run, sr_Result = cell_result run rk \<rparr>"

definition cell_of :: "clock \<Rightarrow> row_key \<Rightarrow> string \<times> signer_run \<Rightarrow> latest_cell" where
  "cell_of ck rk = (\<lambda>(i, run).
     \<lparr> lc_Src = i, lc_Result = result_text (cell_result run rk), lc_AICRVer = rm_AICRVersion (sn_meta run),
       lc_K8sVer = rm_K8sVersion (sn_meta run), lc_When = format_when ck (rm_AttestedAt (sn_meta run)),
       lc_Build = rm_RunID (sn_meta run), lc_EvidenceRef = rm_EvidenceRef (sn_meta run) \<rparr>)"

definition grid_row :: "clock \<Rightarrow> (string \<times> signer_run) list \<Rightarrow> row_key \<Rightarrow> row \<times> cell_state" where
  "grid_row ck runs rk =
     (let c = compute_consensus (map (ballot_of rk \<circ> snd) runs)
      in (\<lparr> rw_Phase = fst rk, rw_Name = snd rk, rw_Consensus = state_text (cs_State c), rw_Reported = cs_Reported c,
            rw_Signers = map (cell_of ck rk) (filter (\<lambda>(_, run). did_run (cell_result run rk)) runs) \<rparr>, cs_State c))"

type_synonym grid_acc = "row list \<times> (string \<times> cell_state list) list \<times> string list"

definition grid_step :: "clock \<Rightarrow> (string \<times> signer_run) list \<Rightarrow> grid_acc \<Rightarrow> row_key \<Rightarrow> grid_acc" where
  "grid_step ck runs = (\<lambda>(rows, states, signers) rk.
     (let (r, st) = grid_row ck runs rk
      in (rows @ [r], append_at (fst rk) st states,
          append_new signers (map fst (filter (\<lambda>(_, run). did_run (cell_result run rk)) runs)))))"

definition compute_grid :: "clock \<Rightarrow> row_key list \<Rightarrow> string list \<Rightarrow> (string \<times> signer_run) list \<Rightarrow> string list \<Rightarrow> grid_acc" where
  "compute_grid ck row_keys ids latest gridSigners =
     foldl (grid_step ck (grid_runs ids latest)) ([], [], gridSigners) row_keys"

definition phase_rollup :: "(string \<times> cell_state list) list \<Rightarrow> (string \<times> string) list" where
  "phase_rollup states = map (\<lambda>ph. (ph, state_text (rollup_phase (get_or [] states ph)))) phase_names"

record tab_version =
  tv_AICRVer :: string
  tv_PhaseRollup :: "(string \<times> string) list"
  tv_Tests :: "row list"

definition version_grid_step ::
  "clock \<Rightarrow> (string \<times> (string \<times> signer_run) list) list \<Rightarrow> tab_version list \<times> string list \<Rightarrow> string \<Rightarrow> tab_version list \<times> string list" where
  "version_grid_step ck verLatest = (\<lambda>(tabs, signers) v.
     (let latest = get_or [] verLatest v;
          (rows, states, signers') = compute_grid ck (union_rows latest) (sort (map fst latest)) latest signers
      in (tabs @ [\<lparr> tv_AICRVer = v, tv_PhaseRollup = phase_rollup states, tv_Tests = rows \<rparr>], signers')))"

subsection \<open>The history of one recipe\<close>

record series_build =
  sb_ID :: string
  sb_AICRVer :: string
  sb_K8sVer :: string
  sb_When :: string
  sb_Newest :: bool
  sb_EvidenceRef :: string
  sb_Results :: "(string \<times> string) list"

record series_health =
  sh_FlakePct :: nat
  sh_LastPassBuild :: string
  sh_Builds :: nat

record series =
  se_Recipe :: string
  se_Rows :: "row_key list"
  se_Builds :: "(string \<times> series_build list) list"
  se_Health :: "(string \<times> series_health) list"

text \<open>A result of a build; a missing name reads as the empty string.\<close>

definition build_result :: "series_build \<Rightarrow> string \<Rightarrow> string" where
  "build_result c name = get_or [] (sb_Results c) name"

definition text_ran :: "string \<Rightarrow> bool" where
  "text_ran r \<longleftrightarrow> r = result_text ResultPass \<or> r = result_text ResultFail"

definition passed_build :: "string list \<Rightarrow> series_build \<Rightarrow> bool" where
  "passed_build names c \<longleftrightarrow>
     list_ex (\<lambda>n. text_ran (build_result c n)) names \<and> \<not> list_ex (\<lambda>n. build_result c n = result_text ResultFail) names"

definition adjacent_ran :: "series_build list \<Rightarrow> string list \<Rightarrow> (string \<times> string) list" where
  "adjacent_ran cols names =
     concat (map (\<lambda>n. filter (\<lambda>(a, b). text_ran a \<and> text_ran b)
       (zip (map (\<lambda>c. build_result c n) cols) (tl (map (\<lambda>c. build_result c n) cols)))) names)"

definition compute_health :: "series_build list \<Rightarrow> string list \<Rightarrow> series_health" where
  "compute_health cols names =
     (let pairs = length (adjacent_ran cols names);
          flips = length (filter (\<lambda>(a, b). a \<noteq> b) (adjacent_ran cols names))
      in \<lparr> sh_FlakePct = (if pairs > 0 then (flips * 100 + pairs div 2) div pairs else 0),
           sh_LastPassBuild = (case find (passed_build names) cols of None \<Rightarrow> [] | Some c \<Rightarrow> sb_ID c),
           sh_Builds = length cols \<rparr>)"

definition build_results :: "string list \<Rightarrow> signer_run \<Rightarrow> (string \<times> string) list" where
  "build_results names run =
     (let flat = flatten_run run
      in foldl (\<lambda>m n. upsert n
           (case map_of flat n of
              None \<Rightarrow> result_text ResultNotRun
            | Some r \<Rightarrow> if did_run r then result_text r else result_text ResultNotRun) m) [] names)"

definition series_column :: "clock \<Rightarrow> string list \<Rightarrow> nat \<times> signer_run \<Rightarrow> series_build" where
  "series_column ck names = (\<lambda>(i, run).
     \<lparr> sb_ID = rm_RunID (sn_meta run), sb_AICRVer = rm_AICRVersion (sn_meta run), sb_K8sVer = rm_K8sVersion (sn_meta run),
       sb_When = format_when_date ck (rm_AttestedAt (sn_meta run)), sb_Newest = (i = 0),
       sb_EvidenceRef = rm_EvidenceRef (sn_meta run), sb_Results = build_results names run \<rparr>)"

fun first_by_name :: "string list \<Rightarrow> row_key list \<Rightarrow> row_key list" where
  "first_by_name seen [] = []"
| "first_by_name seen (rk # rks) =
     (if snd rk \<in> set seen then first_by_name seen rks else rk # first_by_name (seen @ [snd rk]) rks)"

definition build_series :: "clock \<Rightarrow> recipe_agg \<Rightarrow> string list \<Rightarrow> row_key list \<Rightarrow> (string \<times> signer_run list) list \<Rightarrow> series" where
  "build_series ck agg gridSigners rowKeys runsByID =
     (let rows = first_by_name [] rowKeys; names = map snd rows;
          columns = (\<lambda>i. map (series_column ck names) (List.enumerate 0 (get_or [] runsByID i)))
      in \<lparr> se_Recipe = ra_name agg, se_Rows = rows,
           se_Builds = map (\<lambda>i. (i, columns i)) gridSigners,
           se_Health = map (\<lambda>i. (i, compute_health (columns i) names)) gridSigners \<rparr>)"

subsection \<open>A recipe's tab\<close>

record tab =
  tb_Recipe :: string
  tb_Coord :: "(string \<times> string) list"
  tb_Profile :: string
  tb_ProfileSelection :: string
  tb_Versions :: "tab_version list"
  tb_Combined :: tab_version

definition coord_map :: "criteria \<Rightarrow> (string \<times> string) list" where
  "coord_map c =
     [(''service'', c_Service c), (''accelerator'', c_Accelerator c), (''os'', c_OS c), (''intent'', c_Intent c),
      (''platform'', c_Platform c)]"

text \<open>The result is the tab, its history, the number of runs, and the sources with those of this recipe.\<close>

definition build_recipe ::
  "clock \<Rightarrow> (string \<Rightarrow> string) \<Rightarrow> (string \<Rightarrow> string \<Rightarrow> int) \<Rightarrow> recipe_agg \<Rightarrow> (string \<times> source) list \<Rightarrow>
   tab \<times> series \<times> nat \<times> (string \<times> source) list" where
  "build_recipe ck sha vcmp agg sources =
     (let runsByID = runs_by_id sha agg;
          runCount = sum_list (map (length \<circ> snd) (group_by run_identity (agg_runs agg)));
          latestAny = map (\<lambda>(i, rs). (i, hd rs)) runsByID;
          signerIDs = sort (map fst runsByID);
          sources' = foldl (register_source sha) sources (map snd (grid_runs signerIDs latestAny));
          (verLatest, verNewest) = bucket_versions runsByID;
          versions = sort_slice (version_before vcmp verNewest) (map fst verLatest);
          (tabVersions, gridSigners) = foldl (version_grid_step ck verLatest) ([], []) versions;
          (combinedRows, combinedStates, _) = compute_grid ck (union_rows latestAny) signerIDs latestAny [];
          combined = \<lparr> tv_AICRVer = [], tv_PhaseRollup = phase_rollup combinedStates, tv_Tests = combinedRows \<rparr>
      in (\<lparr> tb_Recipe = ra_name agg, tb_Coord = coord_map (ra_criteria agg), tb_Profile = ra_profile agg,
            tb_ProfileSelection = ra_profileSelection agg, tb_Versions = tabVersions, tb_Combined = combined \<rparr>,
          build_series ck agg gridSigners (union_rows_all_builds runsByID) runsByID, runCount, sources'))"

subsection \<open>The catalog\<close>

record dashboard =
  db_Accelerator :: string
  db_OS :: string
  db_Tabs :: "tab list"

record dash_group =
  gr_Service :: string
  gr_Dashboards :: "dashboard list"

type_synonym group_map = "(string \<times> (string \<times> dashboard) list) list"

definition group_tab :: "group_map \<Rightarrow> coordinate \<times> tab \<Rightarrow> group_map" where
  "group_tab m = (\<lambda>(co, t).
     (let dashes = get_or [] m (co_Group co);
          da = get_or \<lparr> db_Accelerator = get_or [] (tb_Coord t) ''accelerator'', db_OS = get_or [] (tb_Coord t) ''os'',
                        db_Tabs = [] \<rparr> dashes (co_Dashboard co)
      in upsert (co_Group co) (upsert (co_Dashboard co) (da\<lparr>db_Tabs := db_Tabs da @ [t]\<rparr>) dashes) m))"

definition key_before :: "(string \<times> nat) list \<Rightarrow> string \<Rightarrow> string \<Rightarrow> bool" where
  "key_before order a b = (if idx order a \<noteq> idx order b then idx order a < idx order b else a < b)"

definition sorted_by_order_then_alpha :: "(string \<times> nat) list \<Rightarrow> string list \<Rightarrow> string list" where
  "sorted_by_order_then_alpha order keys = sort_slice (key_before order) keys"

definition dash_before :: "(string \<times> nat) list \<Rightarrow> (string \<times> nat) list \<Rightarrow> string \<times> dashboard \<Rightarrow> string \<times> dashboard \<Rightarrow> bool" where
  "dash_before accOrder osOrder a b =
     (if idx accOrder (db_Accelerator (snd a)) \<noteq> idx accOrder (db_Accelerator (snd b))
      then idx accOrder (db_Accelerator (snd a)) < idx accOrder (db_Accelerator (snd b))
      else if idx osOrder (db_OS (snd a)) \<noteq> idx osOrder (db_OS (snd b))
      then idx osOrder (db_OS (snd a)) < idx osOrder (db_OS (snd b))
      else fst a < fst b)"

definition tab_text :: "tab \<Rightarrow> string" where
  "tab_text t = get_or [] (tb_Coord t) ''intent'' @ ''-'' @ get_or [] (tb_Coord t) ''platform''"

definition assemble_groups :: "(coordinate \<times> tab) list \<Rightarrow> dash_group list" where
  "assemble_groups builts =
     (let m = foldl group_tab [] builts;
          accOrder = order_index (static_types FieldAccelerator); osOrder = order_index (static_types FieldOS);
          svcKeys = sorted_by_order_then_alpha (order_index (static_types FieldService)) (map fst m)
      in map (\<lambda>svc. \<lparr> gr_Service = svc,
           gr_Dashboards = map (\<lambda>(_, da). da\<lparr>db_Tabs := sort_slice (\<lambda>a b. tab_text a < tab_text b) (db_Tabs da)\<rparr>)
             (sort_slice (dash_before accOrder osOrder) (get_or [] m svc)) \<rparr>) svcKeys)"

definition platform_none :: string where
  "platform_none = ''(none)''"

definition record_present :: "(string \<times> string list) list \<Rightarrow> criteria \<Rightarrow> (string \<times> string list) list" where
  "record_present present c =
     map (\<lambda>(axis, seen).
       (axis, append_new seen
          [if axis = ''platform'' \<and> c_Platform c = [] then platform_none else get_or [] (coord_map c) axis])) present"

definition criteria_axes :: "string list" where
  "criteria_axes = [''service'', ''accelerator'', ''os'', ''intent'', ''platform'']"

definition canonical_values :: "string \<Rightarrow> string list" where
  "canonical_values axis =
     (if axis = ''service'' then static_types FieldService
      else if axis = ''accelerator'' then static_types FieldAccelerator
      else if axis = ''os'' then static_types FieldOS
      else if axis = ''intent'' then static_types FieldIntent
      else if axis = ''platform'' then static_types FieldPlatform @ [platform_none]
      else [])"

definition criteria_values :: "(string \<times> string list) list \<Rightarrow> (string \<times> string list) list" where
  "criteria_values present =
     map (\<lambda>axis.
       (let seen = get_or [] present axis;
            ordered = filter (\<lambda>v. v \<in> set seen) (canonical_values axis)
        in (axis, ordered @ sort (filter (\<lambda>v. v \<notin> set ordered) seen)))) criteria_axes"

record dash_index =
  ix_Criteria :: "(string \<times> string list) list"
  ix_Sources :: "(string \<times> source) list"
  ix_Groups :: "dash_group list"
  ix_Recipes :: nat
  ix_GeneratedAt :: string

record build_acc =
  ba_sources :: "(string \<times> source) list"
  ba_series :: "(string \<times> series) list"
  ba_present :: "(string \<times> string list) list"
  ba_builts :: "(coordinate \<times> tab) list"
  ba_runs :: nat

definition build_step ::
  "clock \<Rightarrow> (string \<Rightarrow> string) \<Rightarrow> (string \<Rightarrow> string \<Rightarrow> int) \<Rightarrow> build_acc \<Rightarrow> recipe_agg \<Rightarrow> build_acc" where
  "build_step ck sha vcmp b agg =
     (let (t, ser, n, sources) = build_recipe ck sha vcmp agg (ba_sources b)
      in \<lparr> ba_sources = sources, ba_series = upsert (ra_name agg) ser (ba_series b),
           ba_present = record_present (ba_present b) (ra_criteria agg),
           ba_builts = ba_builts b @ [(ra_coord agg, t)], ba_runs = ba_runs b + n \<rparr>)"

definition newest_attested :: "(string \<times> recipe_agg) list \<Rightarrow> int" where
  "newest_attested recipes =
     foldl (\<lambda>newest (_, agg). foldl (\<lambda>newest r. if sn_attestedAt r > newest then sn_attestedAt r else newest)
       newest (agg_runs agg)) 0 recipes"

definition build_index ::
  "clock \<Rightarrow> (string \<Rightarrow> string) \<Rightarrow> (string \<Rightarrow> string \<Rightarrow> int) \<Rightarrow> (string \<times> recipe_agg) list \<Rightarrow>
   dash_index \<times> (string \<times> series) list \<times> nat" where
  "build_index ck sha vcmp recipes =
     (let b = foldl (build_step ck sha vcmp)
            \<lparr> ba_sources = [], ba_series = [], ba_present = map (\<lambda>a. (a, [])) criteria_axes, ba_builts = [], ba_runs = 0 \<rparr>
            (map snd (sort_key fst recipes));
          newest = newest_attested recipes
      in (\<lparr> ix_Criteria = criteria_values (ba_present b), ix_Sources = ba_sources b,
            ix_Groups = assemble_groups (ba_builts b), ix_Recipes = length (ba_builts b),
            ix_GeneratedAt = (if newest \<noteq> 0 then ck_minute ck newest else []) \<rparr>,
          ba_series b, ba_runs b))"

subsection \<open>The health of a signer's history\<close>

text \<open>The places where a test ran in two neighbouring builds, and those where it flipped.\<close>

definition transitions :: "series_build list \<Rightarrow> string list \<Rightarrow> (string \<times> nat) list" where
  "transitions cols names =
     concat (map (\<lambda>n. map (Pair n)
       (filter (\<lambda>i. text_ran (build_result (cols ! i) n) \<and> text_ran (build_result (cols ! (i + 1)) n)) [0..<length cols - 1]))
       names)"

definition flipped :: "series_build list \<Rightarrow> string \<times> nat \<Rightarrow> bool" where
  "flipped cols = (\<lambda>(n, i). build_result (cols ! i) n \<noteq> build_result (cols ! (i + 1)) n)"

lemma zip_tl_nth: "zip xs (tl xs) = map (\<lambda>i. (xs ! i, xs ! (i + 1))) [0..<length xs - 1]"
  by (rule nth_equalityI) (simp_all add: nth_tl)

lemma adjacent_ran_eq:
  "adjacent_ran cols names = map (\<lambda>(n, i). (build_result (cols ! i) n, build_result (cols ! (i + 1)) n)) (transitions cols names)"
proof -
  have row: "zip (map (\<lambda>c. build_result c n) cols) (tl (map (\<lambda>c. build_result c n) cols)) =
      map (\<lambda>i. (build_result (cols ! i) n, build_result (cols ! (i + 1)) n)) [0..<length cols - 1]" for n
    unfolding zip_tl_nth by (rule map_cong) auto
  show ?thesis
    unfolding adjacent_ran_def transitions_def row
    by (induction names) (simp_all add: filter_map comp_def)
qed

lemma length_transitions: "length (transitions cols names) \<le> length names * (length cols - 1)"
proof (induction names)
  case (Cons n names)
  have "length (filter P [0..<k]) \<le> k" for P and k :: nat
    by (metis diff_zero length_filter_le length_upt)
  with Cons show ?case by (simp add: transitions_def add_mono)
qed (simp add: transitions_def)

lemma nearest_of_remainder:
  fixes f m x r p :: int
  assumes "f * 100 + m = x + r" "0 \<le> r" "r < p" "2 * m \<le> p" "p \<le> 2 * m + 1"
  shows "2 * \<bar>x - 100 * f\<bar> \<le> p"
  using assms by (simp add: abs_if)

lemma rounded_percent:
  fixes f p :: nat
  assumes "0 < p" "f \<le> p"
  shows "(f * 100 + p div 2) div p \<le> 100" "2 * \<bar>int p * int ((f * 100 + p div 2) div p) - 100 * int f\<bar> \<le> int p"
proof -
  have "f * 100 + p div 2 < 101 * p" using assms by linarith
  then have "(f * 100 + p div 2) div p < 101" by (simp add: div_less_iff_less_mult assms(1) mult.commute)
  then show "(f * 100 + p div 2) div p \<le> 100" by simp
  let ?q = "(f * 100 + p div 2) div p" and ?r = "(f * 100 + p div 2) mod p"
  have "f * 100 + p div 2 = p * ?q + ?r" by simp
  then have "int (f * 100 + p div 2) = int (p * ?q + ?r)" by (rule arg_cong)
  then have "int f * 100 + int (p div 2) = int p * int ?q + int ?r" by (simp only: of_nat_add of_nat_mult of_nat_numeral)
  moreover have "0 \<le> int ?r" "int ?r < int p" using assms(1) by simp_all
  moreover have "2 * int (p div 2) \<le> int p" "int p \<le> 2 * int (p div 2) + 1" by linarith+
  ultimately show "2 * \<bar>int p * int ?q - 100 * int f\<bar> \<le> int p" by (intro nearest_of_remainder)
qed

text \<open>The flake percentage of a signer's history is the share of flipped transitions rounded to the
  nearest hundredth, so it never exceeds a hundred and is zero for a single build, and there are at most
  as many transitions as tests times neighbouring builds. The last passing
  build is the newest in which some test ran and none failed.\<close>

theorem health_bounds:
  assumes "h = compute_health cols names" and "p = length (transitions cols names)"
    and "f = length (filter (flipped cols) (transitions cols names))"
  shows "sh_FlakePct h \<le> 100 \<and> 2 * \<bar>int p * int (sh_FlakePct h) - 100 * int f\<bar> \<le> int p \<and>
    p \<le> length names * (length cols - 1) \<and> (p = 0 \<longrightarrow> sh_FlakePct h = 0) \<and> sh_Builds h = length cols \<and>
    (case find (passed_build names) cols of
       None \<Rightarrow> sh_LastPassBuild h = [] \<and> (\<forall>c \<in> set cols. \<not> passed_build names c)
     | Some c \<Rightarrow> sh_LastPassBuild h = sb_ID c \<and> passed_build names c)"
proof -
  have len: "length (adjacent_ran cols names) = p" by (simp add: adjacent_ran_eq assms(2))
  have flips: "length (filter (\<lambda>(a, b). a \<noteq> b) (adjacent_ran cols names)) = f"
    unfolding adjacent_ran_eq assms(3) filter_map length_map
    by (rule arg_cong [where f = length], rule filter_cong) (auto simp: flipped_def)
  have fp: "f \<le> p" by (simp add: assms(2,3))
  have h: "sh_FlakePct h = (if p > 0 then (f * 100 + p div 2) div p else 0)" "sh_Builds h = length cols"
    "sh_LastPassBuild h = (case find (passed_build names) cols of None \<Rightarrow> [] | Some c \<Rightarrow> sb_ID c)"
    unfolding assms(1) compute_health_def Let_def len flips by simp_all
  have pct: "sh_FlakePct h \<le> 100 \<and> 2 * \<bar>int p * int (sh_FlakePct h) - 100 * int f\<bar> \<le> int p"
    using rounded_percent [of p f] fp by (cases "p > 0") (simp_all add: h(1))
  moreover have "p \<le> length names * (length cols - 1)" unfolding assms(2) by (rule length_transitions)
  moreover have "case find (passed_build names) cols of
       None \<Rightarrow> sh_LastPassBuild h = [] \<and> (\<forall>c \<in> set cols. \<not> passed_build names c)
     | Some c \<Rightarrow> sh_LastPassBuild h = sb_ID c \<and> passed_build names c"
  proof (cases "find (passed_build names) cols")
    case None
    then have "\<forall>c \<in> set cols. \<not> passed_build names c" using find_None_iff by metis
    with None show ?thesis by (simp add: h(3))
  next
    case (Some c)
    then have "passed_build names c" using find_Some_iff [of "passed_build names" cols c] by blast
    with Some show ?thesis by (simp add: h(3))
  qed
  ultimately show ?thesis using h(1,2) by simp
qed

definition example_column :: "string \<Rightarrow> string \<Rightarrow> series_build" where
  "example_column build result = \<lparr> sb_ID = build, sb_AICRVer = [], sb_K8sVer = [], sb_When = [], sb_Newest = False,
     sb_EvidenceRef = [], sb_Results = [(''t'', result)] \<rparr>"

theorem health_bounds_witness:
  "sh_FlakePct (compute_health [example_column ''3'' ''fail'', example_column ''2'' ''pass'', example_column ''1'' ''pass''] [''t'']) = 50"
proof -
  let ?cols = "[example_column ''3'' ''fail'', example_column ''2'' ''pass'', example_column ''1'' ''pass'']"
  have "length (transitions ?cols [''t'']) = 2" "length (filter (flipped ?cols) (transitions ?cols [''t''])) = 1" by code_simp+
  with health_bounds [OF refl refl refl, of ?cols "[''t'']"]
  have "\<bar>2 * int (sh_FlakePct (compute_health ?cols [''t''])) - 100\<bar> \<le> 1" by simp
  then show ?thesis by presburger
qed

end
