(* ===== verification/Corroborate_Sound.thy ===== *)
theory Corroborate_Sound
  imports Corroborate
begin

section \<open>What the dashboard vouches for\<close>

text \<open>
  The aggregate of the runs is an invariant of its loop; a cell of a grid is a function of the verified
  identities, of which each has one ballot, its newest run.
\<close>

subsection \<open>Aggregation\<close>

definition run_path :: "signer_run \<Rightarrow> string" where
  "run_path r = coordinate_path (rm_Coordinate (sn_meta r))"

text \<open>What holds of each recipe: its coordinate, its name, its criteria and its runs.\<close>

definition agg_ok :: "(string \<Rightarrow> string) \<Rightarrow> signer_run set \<Rightarrow> string \<Rightarrow> recipe_agg \<Rightarrow> bool" where
  "agg_ok sha input key agg \<longleftrightarrow>
     key = coordinate_path (ra_coord agg) \<and> safe_recipe_slug (ra_name agg) \<and>
     (\<exists>m. rm_Coordinate m = ra_coord agg \<and> (\<exists>co. criteria_coordinate m = Some co \<and> criteria_from_coordinate co = Inr (ra_criteria agg))) \<and>
     distinct (map fst (ra_bySigner agg)) \<and>
     (\<forall>(sid, rs) \<in> set (ra_bySigner agg). rs \<noteq> [] \<and>
        (\<forall>r \<in> set rs. r \<in> input \<and> run_path r = key \<and> criteria_coordinate (sn_meta r) \<noteq> None \<and>
           rm_ProfileSelection (sn_meta r) = ra_profileSelection agg \<and> canonical_source_id sha (rm_Signer (sn_meta r)) = sid))"

definition aggs_ok :: "(string \<Rightarrow> string) \<Rightarrow> signer_run set \<Rightarrow> agg_state \<Rightarrow> bool" where
  "aggs_ok sha input = (\<lambda>(recipes, names).
     distinct (map fst recipes) \<and>
     (\<forall>(key, agg) \<in> set recipes. agg_ok sha input key agg \<and> map_of names (ra_name agg) = Some key))"

lemma agg_ok_conflicted: "agg_ok sha input key (agg\<lparr>ra_conflicted := b\<rparr>) = agg_ok sha input key agg"
  by (simp add: agg_ok_def)

lemma aggs_okD:
  "aggs_ok sha input (recipes, names) \<Longrightarrow> map_of recipes key = Some agg \<Longrightarrow>
     agg_ok sha input key agg \<and> map_of names (ra_name agg) = Some key"
  unfolding aggs_ok_def by (auto dest: map_of_SomeD)

lemma aggs_ok_upsert:
  assumes "aggs_ok sha input (recipes, names)" "agg_ok sha input key agg" "map_of names' (ra_name agg) = Some key"
    and "\<And>n k. map_of names n = Some k \<Longrightarrow> map_of names' n = Some k"
  shows "aggs_ok sha input (upsert key agg recipes, names')"
proof -
  have "agg_ok sha input k a \<and> map_of names' (ra_name a) = Some k" if "(k, a) \<in> set (upsert key agg recipes)" for k a
  proof (cases "(k, a) \<in> set recipes")
    case True
    with assms(1) have "agg_ok sha input k a" "map_of names (ra_name a) = Some k" by (auto simp: aggs_ok_def)
    with assms(4) show ?thesis by blast
  next
    case False
    with that set_upsert_subset [of key agg recipes] have "k = key" "a = agg" by auto
    with assms(2,3) show ?thesis by simp
  qed
  with assms(1) show ?thesis by (auto simp: aggs_ok_def distinct_upsert)
qed

lemma append_at_entry:
  "(k, xs) \<in> set (append_at i x m) \<Longrightarrow>
     (k, xs) \<in> set m \<or> k = i \<and> (xs = [x] \<or> (\<exists>ys. (i, ys) \<in> set m \<and> xs = ys @ [x]))"
  using set_upsert_subset [of i "(case map_of m i of None \<Rightarrow> [] | Some xs \<Rightarrow> xs) @ [x]" m]
  by (auto simp: append_at_def split: option.splits dest: map_of_SomeD)

lemma agg_ok_append:
  assumes "agg_ok sha input key agg" and "r \<in> input" "run_path r = key" "criteria_coordinate (sn_meta r) \<noteq> None"
    and "rm_ProfileSelection (sn_meta r) = ra_profileSelection agg" and "sid = canonical_source_id sha (rm_Signer (sn_meta r))"
  shows "agg_ok sha input key (agg\<lparr>ra_bySigner := append_at sid r (ra_bySigner agg)\<rparr>)"
proof -
  let ?good = "\<lambda>sid rs. rs \<noteq> [] \<and> (\<forall>r \<in> set rs. r \<in> input \<and> run_path r = key \<and> criteria_coordinate (sn_meta r) \<noteq> None \<and>
           rm_ProfileSelection (sn_meta r) = ra_profileSelection agg \<and> canonical_source_id sha (rm_Signer (sn_meta r)) = sid)"
  have old: "\<And>i rs. (i, rs) \<in> set (ra_bySigner agg) \<Longrightarrow> ?good i rs"
    using assms(1) unfolding agg_ok_def by blast
  have new: "?good i rs" if "(i, rs) \<in> set (append_at sid r (ra_bySigner agg))" for i rs
    using append_at_entry [OF that]
  proof (elim disjE conjE exE)
    fix ys assume "i = sid" "(sid, ys) \<in> set (ra_bySigner agg)" "rs = ys @ [r]"
    with old [of sid ys] assms(2-6) show ?thesis by simp
  qed (use old assms(2-6) in simp_all)
  have "distinct (map fst (append_at sid r (ra_bySigner agg)))"
    using assms(1) unfolding agg_ok_def append_at_def by (blast intro: distinct_upsert)
  with assms(1) new show ?thesis unfolding agg_ok_def by auto
qed

lemma aggregate_step_ok:
  assumes "aggs_ok sha input (recipes, names)" "r \<in> input"
  shows "aggs_ok sha input (aggregate_step sha (recipes, names) r)"
proof (cases "criteria_coordinate (sn_meta r)")
  case None
  with assms show ?thesis by (simp add: aggregate_step_def Let_def)
next
  case (Some co)
  let ?key = "coordinate_path (rm_Coordinate (sn_meta r))"
  show ?thesis
  proof (cases "map_of recipes ?key")
    case (Some agg)
    note ok = aggs_okD [OF assms(1) Some]
    show ?thesis
    proof (cases "ra_profileSelection agg = rm_ProfileSelection (sn_meta r)")
      case True
      have "agg_ok sha input ?key (agg\<lparr>ra_bySigner := append_at (canonical_source_id sha (rm_Signer (sn_meta r))) r (ra_bySigner agg)\<rparr>)"
        using ok assms(2) True \<open>criteria_coordinate (sn_meta r) = Some co\<close>
        by (intro agg_ok_append) (simp_all add: run_path_def)
      from aggs_ok_upsert [OF assms(1) this, of names] ok Some True \<open>criteria_coordinate (sn_meta r) = Some co\<close>
      show ?thesis by (simp add: aggregate_step_def Let_def)
    next
      case False
      have "agg_ok sha input ?key (agg\<lparr>ra_conflicted := True\<rparr>)" using ok by (simp add: agg_ok_conflicted)
      from aggs_ok_upsert [OF assms(1) this, of names] ok Some False \<open>criteria_coordinate (sn_meta r) = Some co\<close>
      show ?thesis by (simp add: aggregate_step_def Let_def)
    qed
  next
    case None
    let ?name = "rm_Recipe (sn_meta r)"
    show ?thesis
    proof (cases "criteria_from_coordinate co")
      case (Inl e)
      with assms(1) None \<open>criteria_coordinate (sn_meta r) = Some co\<close> show ?thesis by (simp add: aggregate_step_def Let_def)
    next
      case (Inr crit)
      show ?thesis
      proof (cases "safe_recipe_slug ?name \<and> (map_of names ?name = None \<or> map_of names ?name = Some ?key)")
        case True
        let ?agg = "\<lparr> ra_coord = rm_Coordinate (sn_meta r), ra_criteria = crit, ra_profile = rm_Profile (sn_meta r),
          ra_profileSelection = rm_ProfileSelection (sn_meta r), ra_conflicted = False, ra_name = ?name,
          ra_bySigner = append_at (canonical_source_id sha (rm_Signer (sn_meta r))) r [] \<rparr>"
        have "agg_ok sha input ?key ?agg"
          using True Inr assms(2) \<open>criteria_coordinate (sn_meta r) = Some co\<close>
          by (auto simp: agg_ok_def append_at_def run_path_def)
        then have "aggs_ok sha input (upsert ?key ?agg recipes, upsert ?name ?key names)"
          by (rule aggs_ok_upsert [OF assms(1)]) (use True in auto)
        moreover have "aggregate_step sha (recipes, names) r = (upsert ?key ?agg recipes, upsert ?name ?key names)"
          using True None Inr \<open>criteria_coordinate (sn_meta r) = Some co\<close> by (auto simp: aggregate_step_def Let_def)
        ultimately show ?thesis by (simp only:)
      next
        case False
        with assms(1) None Inr \<open>criteria_coordinate (sn_meta r) = Some co\<close> show ?thesis
          by (auto simp: aggregate_step_def Let_def)
      qed
    qed
  qed
qed

lemma aggregate_ok: "aggs_ok sha (set runs) (foldl (aggregate_step sha) ([], []) runs)"
proof -
  have "aggs_ok sha input (foldl (aggregate_step sha) st rs)" if "aggs_ok sha input st" "set rs \<subseteq> input" for input st rs
    using that
  proof (induction rs arbitrary: st)
    case (Cons r rs)
    obtain recipes names where "st = (recipes, names)" by (cases st)
    with Cons aggregate_step_ok [of sha input recipes names r] show ?case by simp
  qed simp
  then show ?thesis by (simp add: aggs_ok_def)
qed

text \<open>Property C34:
  Every recipe of the dashboard has a coordinate of its own and a name of its own, which is a flat
  local file name, so no series file overwrites another or leaves the output directory. Its
  runs come from the input, were attested for exactly this coordinate and this exact profile selection, and
  stand under the source their verified signer hashes to.\<close>

theorem aggregate_sound:
  assumes "recipes = aggregate_runs sha runs"
  shows "distinct (map fst recipes) \<and> distinct (map (ra_name \<circ> snd) recipes) \<and>
    (\<forall>(key, agg) \<in> set recipes. agg_ok sha (set runs) key agg \<and> \<not> ra_conflicted agg)"
proof -
  obtain rs names where st: "foldl (aggregate_step sha) ([], []) runs = (rs, names)" by fastforce
  with aggregate_ok [of sha runs] have ok: "aggs_ok sha (set runs) (rs, names)" by simp
  have eq: "recipes = filter (\<lambda>(_, agg). \<not> ra_conflicted agg) rs" by (simp add: assms aggregate_runs_def st)
  from ok have d: "distinct (map fst recipes)"
    unfolding eq aggs_ok_def by (simp add: distinct_map_filter)
  have named: "map_of names (ra_name agg) = Some key" "agg_ok sha (set runs) key agg" if "(key, agg) \<in> set recipes" for key agg
    using that ok unfolding eq aggs_ok_def by auto
  have "inj_on (ra_name \<circ> snd) (set recipes)"
  proof (rule inj_onI)
    fix x y assume xy: "x \<in> set recipes" "y \<in> set recipes" "(ra_name \<circ> snd) x = (ra_name \<circ> snd) y"
    then have "map_of names (ra_name (snd x)) = Some (fst x)" "map_of names (ra_name (snd y)) = Some (fst y)"
      using named(1) by (metis prod.collapse)+
    with xy(3) have "fst x = fst y" by simp
    with d xy(1,2) show "x = y" by (metis eq_key_imp_eq_value prod.collapse)
  qed
  with d have "distinct (map (ra_name \<circ> snd) recipes)" by (simp add: distinct_map)
  with d named(2) show ?thesis by (auto simp: eq)
qed

subsection \<open>One ballot for each verified identity\<close>

lemma of_char_hex_digit: "d < 16 \<Longrightarrow> (of_char (hex_digit d) :: nat) = (if d < 10 then 48 + d else 87 + d)"
  by (simp add: hex_digit_def)

lemma hex_digit_inject: "a < 16 \<Longrightarrow> b < 16 \<Longrightarrow> hex_digit a = hex_digit b \<longleftrightarrow> a = b"
proof
  assume lt: "a < 16" "b < 16" and "hex_digit a = hex_digit b"
  then have "(if a < 10 then 48 + a else 87 + a) = (if b < 10 then 48 + b else 87 + b)"
    using of_char_hex_digit by metis
  with lt show "a = b" by (simp split: if_splits)
qed simp

lemma hex_encode_inject: "hex_encode xs = hex_encode ys \<longleftrightarrow> xs = ys"
proof (induction xs arbitrary: ys)
  case Nil
  show ?case by (cases ys) (simp_all add: hex_encode_def)
next
  case (Cons x xs)
  have byte: "hex_digit (of_char x div 16) = hex_digit (of_char y div 16) \<Longrightarrow>
      hex_digit (of_char x mod 16) = hex_digit (of_char y mod 16) \<Longrightarrow> x = y" for y :: char
  proof -
    assume h: "hex_digit (of_char x div 16) = hex_digit (of_char y div 16)"
      "hex_digit (of_char x mod 16) = hex_digit (of_char y mod 16)"
    have lt: "(of_char c :: nat) div 16 < 16" for c :: char
    proof -
      have "(of_char c :: nat) < 256" by (rule nat_of_char_less_256)
      then show ?thesis by (simp add: div_less_iff_less_mult)
    qed
    from h lt have "(of_char x :: nat) div 16 = of_char y div 16" "(of_char x :: nat) mod 16 = of_char y mod 16"
      by (simp_all add: hex_digit_inject)
    then have "(of_char x :: nat) = of_char y" by (metis div_mult_mod_eq)
    then show "x = y" by simp
  qed
  show ?case
  proof (cases ys)
    case (Cons y zs)
    with Cons.IH [of zs] byte [of y] show ?thesis by (auto simp: hex_encode_def)
  qed (simp add: hex_encode_def)
qed

text \<open>The identity key hashed: what \<open>canonicalSourceID\<close> computes from the key.\<close>

definition key_id :: "(string \<Rightarrow> string) \<Rightarrow> string \<Rightarrow> string" where
  "key_id sha k = hex_encode (sha k)"

definition signer_runs :: "recipe_agg \<Rightarrow> string \<Rightarrow> signer_run list" where
  "signer_runs agg k = sort_slice run_newer (filter (\<lambda>r. run_identity r = k) (agg_runs agg))"

definition identities :: "recipe_agg \<Rightarrow> string set" where
  "identities agg = run_identity ` set (agg_runs agg)"

lemma group_entry:
  "(k, rs) \<in> set (group_by run_identity (agg_runs agg)) \<Longrightarrow>
     k \<in> identities agg \<and> sort_slice run_newer rs = signer_runs agg k \<and> run_identity (hd (signer_runs agg k)) = k"
proof -
  assume "(k, rs) \<in> set (group_by run_identity (agg_runs agg))"
  then have rs: "rs \<noteq> []" "rs = filter (\<lambda>r. run_identity r = k) (agg_runs agg)"
    unfolding set_group_by by blast+
  then obtain r where "r \<in> set (agg_runs agg)" "run_identity r = k" by (metis (mono_tags) filter_empty_conv)
  moreover have "signer_runs agg k \<noteq> []" using rs unfolding signer_runs_def by (metis sort_slice_Nil_iff)
  then have "hd (signer_runs agg k) \<in> set rs" using rs(2) by (metis hd_in_set set_sort_slice signer_runs_def)
  ultimately show ?thesis using rs(2) by (auto simp: identities_def signer_runs_def)
qed

lemma runs_by_id_eq:
  assumes "inj_on sha (identities agg)"
  shows "runs_by_id sha agg = map (\<lambda>(k, rs). (key_id sha k, signer_runs agg k)) (group_by run_identity (agg_runs agg))"
proof -
  let ?g = "group_by run_identity (agg_runs agg)"
  have "runs_by_id sha agg = foldl (\<lambda>m x. upsert (key_id sha (fst x)) (signer_runs agg (fst x)) m) [] ?g"
    unfolding runs_by_id_def
    by (rule foldl_cong_set)
      (auto simp: Let_def canonical_source_id_def key_id_def run_identity_def [symmetric] dest: group_entry)
  also have "\<dots> = map (\<lambda>x. (key_id sha (fst x), signer_runs agg (fst x))) ?g"
  proof -
    have "inj_on (key_id sha) (fst ` set ?g)"
      using assms group_entry [of _ _ agg] by (force simp: inj_on_def key_id_def hex_encode_inject)
    then have "distinct (map (\<lambda>x. key_id sha (fst x)) ?g)"
      using distinct_group_by [of run_identity "agg_runs agg"] by (simp add: distinct_map comp_inj_on [unfolded comp_def])
    from foldl_upsert_distinct [OF this, of "[]" "\<lambda>x. signer_runs agg (fst x)"] show ?thesis by simp
  qed
  finally show ?thesis by (simp add: case_prod_unfold)
qed

lemma runs_by_id_facts:
  assumes "inj_on sha (identities agg)"
  shows "distinct (map fst (runs_by_id sha agg))"
    and "(i, rs) \<in> set (runs_by_id sha agg) \<longleftrightarrow> (\<exists>k \<in> identities agg. i = key_id sha k \<and> rs = signer_runs agg k)"
proof -
  let ?g = "group_by run_identity (agg_runs agg)"
  have inj: "inj_on (key_id sha) (fst ` set ?g)"
    using assms group_entry [of _ _ agg] by (force simp: inj_on_def key_id_def hex_encode_inject)
  show "distinct (map fst (runs_by_id sha agg))"
    unfolding runs_by_id_eq [OF assms]
    using distinct_group_by [of run_identity "agg_runs agg"] inj
    by (simp add: distinct_map comp_inj_on comp_def case_prod_unfold inj_on_def)
  have "k \<in> identities agg \<longleftrightarrow> (\<exists>rs. (k, rs) \<in> set ?g)" for k
    by (auto simp: identities_def set_group_by filter_empty_conv)
  then show "(i, rs) \<in> set (runs_by_id sha agg) \<longleftrightarrow> (\<exists>k \<in> identities agg. i = key_id sha k \<and> rs = signer_runs agg k)"
    unfolding runs_by_id_eq [OF assms] by force
qed

subsection \<open>The newest run at each version\<close>

lemma get_or_upsert: "get_or d (upsert k v m) k' = (if k' = k then v else get_or d m k')"
  by (simp add: get_or_def)

definition buckets_ok :: "version_buckets \<Rightarrow> bool" where
  "buckets_ok b \<longleftrightarrow> distinct (map fst (fst b)) \<and> (\<forall>(v, l) \<in> set (fst b). distinct (map fst l))"

lemma distinct_get_or: "buckets_ok b \<Longrightarrow> distinct (map fst (get_or [] (fst b) v))"
  unfolding buckets_ok_def get_or_def by (auto split: option.splits dest: map_of_SomeD)

lemma bucket_run_ok:
  assumes "buckets_ok b"
  shows "buckets_ok (snd (bucket_run i (seen, b) r))"
proof -
  obtain latest newest where b: "b = (latest, newest)" by (cases b)
  have "distinct (map fst (upsert i r (get_or [] latest (run_version r))))"
    using distinct_get_or [OF assms] by (simp add: b distinct_upsert)
  then show ?thesis
    using assms set_upsert_subset [of "run_version r" "upsert i r (get_or [] latest (run_version r))" latest]
    by (auto simp: b buckets_ok_def bucket_run_def Let_def distinct_upsert)
qed

lemma bucket_runs_spec:
  assumes "foldl (bucket_run i) (seen, b) rs = (seen', b')"
  shows "(buckets_ok b \<longrightarrow> buckets_ok b') \<and>
    fst ` set (fst b') = fst ` set (fst b) \<union> (run_version ` set rs - set seen) \<and>
    (\<forall>v j. map_of (get_or [] (fst b') v) j =
       (if j = i \<and> v \<notin> set seen \<and> find (\<lambda>r. run_version r = v) rs \<noteq> None
        then find (\<lambda>r. run_version r = v) rs else map_of (get_or [] (fst b) v) j))"
  using assms
proof (induction rs arbitrary: seen b)
  case (Cons r rs)
  obtain latest newest where b: "b = (latest, newest)" by (cases b)
  obtain seen1 b1 where st: "bucket_run i (seen, b) r = (seen1, b1)" by (cases "bucket_run i (seen, b) r")
  from Cons.prems st have "foldl (bucket_run i) (seen1, b1) rs = (seen', b')" by simp
  note IH = Cons.IH [OF this]
  have ok: "buckets_ok b \<longrightarrow> buckets_ok b1" using bucket_run_ok [of b i seen r] st by simp
  show ?case
  proof (cases "run_version r \<in> set seen")
    case True
    with st have b1: "seen1 = seen" "fst b1 = latest" by (auto simp: bucket_run_def b Let_def)
    have f: "v \<notin> set seen \<Longrightarrow> find (\<lambda>r. run_version r = v) (r # rs) = find (\<lambda>r. run_version r = v) rs" for v
      using True by auto
    have "run_version ` set (r # rs) - set seen = run_version ` set rs - set seen" using True by auto
    moreover have "map_of (get_or [] (fst b') v) j =
        (if j = i \<and> v \<notin> set seen \<and> find (\<lambda>r. run_version r = v) (r # rs) \<noteq> None
         then find (\<lambda>r. run_version r = v) (r # rs) else map_of (get_or [] (fst b) v) j)" for v j
      using IH f [of v] unfolding b1 by (cases "v \<in> set seen") (simp_all only: b fst_conv simp_thms if_False)
    ultimately show ?thesis using IH ok unfolding b1 by (simp add: b)
  next
    case False
    with st have b1: "seen1 = seen @ [run_version r]"
      "fst b1 = upsert (run_version r) (upsert i r (get_or [] latest (run_version r))) latest"
      by (auto simp: bucket_run_def b Let_def)
    have "map_of (get_or [] (fst b1) v) j = (if v = run_version r \<and> j = i then Some r else map_of (get_or [] latest v) j)" for v j
      by (simp add: b1 get_or_upsert)
    with IH False have "map_of (get_or [] (fst b') v) j =
        (if j = i \<and> v \<notin> set seen \<and> find (\<lambda>r. run_version r = v) (r # rs) \<noteq> None
         then find (\<lambda>r. run_version r = v) (r # rs) else map_of (get_or [] (fst b) v) j)" for v j
      by (auto simp: b b1)
    moreover have "fst ` set (fst b') = fst ` set (fst b) \<union> (run_version ` set (r # rs) - set seen)"
      using IH False unfolding b1 by (auto simp: b)
    ultimately show ?thesis using IH ok by simp
  qed
qed simp

lemma bucket_versions_spec:
  assumes "distinct (map fst m)"
  shows "buckets_ok (bucket_versions m) \<and>
    fst ` set (fst (bucket_versions m)) = {v. \<exists>(i, rs) \<in> set m. v \<in> run_version ` set rs} \<and>
    (\<forall>v i. map_of (get_or [] (fst (bucket_versions m)) v) i =
       (case map_of m i of None \<Rightarrow> None | Some rs \<Rightarrow> find (\<lambda>r. run_version r = v) rs))"
  using assms
proof (induction m rule: rev_induct)
  case Nil
  show ?case by (simp add: bucket_versions_def buckets_ok_def get_or_def)
next
  case (snoc x m)
  obtain i rs where x: "x = (i, rs)" by (cases x)
  from snoc.prems have d: "distinct (map fst m)" "i \<notin> fst ` set m" by (simp_all add: x)
  then have new: "map_of m i = None" by (simp add: map_of_eq_None_iff)
  obtain seen' b' where st: "foldl (bucket_run i) ([], bucket_versions m) rs = (seen', b')"
    by (cases "foldl (bucket_run i) ([], bucket_versions m) rs")
  have bv: "bucket_versions (m @ [x]) = b'" using st by (simp add: bucket_versions_def bucket_signer_def x)
  note IH = snoc.IH [OF d(1)] and spec = bucket_runs_spec [OF st]
  have "map_of (get_or [] (fst b') v) j =
      (case map_of (m @ [x]) j of None \<Rightarrow> None | Some rs \<Rightarrow> find (\<lambda>r. run_version r = v) rs)" for v j
    using IH spec new by (auto simp: x map_add_def split: option.splits)
  moreover have "fst ` set (fst b') = {v. \<exists>(i, rs) \<in> set (m @ [x]). v \<in> run_version ` set rs}"
    using IH spec by (auto simp: x)
  ultimately show ?case using IH spec unfolding bv by simp
qed

subsection \<open>A cell of a grid\<close>

lemma map_filter_some: "(\<And>x. x \<in> set xs \<Longrightarrow> f x = Some (g x)) \<Longrightarrow> List.map_filter f xs = map g xs"
  by (induction xs) (auto simp: List.map_filter_simps)

lemma grid_runs_facts:
  assumes "distinct (map fst latest)"
  shows "distinct (map fst (grid_runs (sort (map fst latest)) latest))" "set (grid_runs (sort (map fst latest)) latest) = set latest"
proof -
  have at: "i \<in> set (map fst latest) \<Longrightarrow> map_of latest i = Some (the (map_of latest i))" for i
    by (metis map_of_eq_None_iff option.collapse set_map)
  have eq: "grid_runs (sort (map fst latest)) latest = map (\<lambda>i. (i, the (map_of latest i))) (sort (map fst latest))"
    unfolding grid_runs_def
    by (rule map_filter_some) (use at in \<open>force simp: image_iff\<close>)
  show "distinct (map fst (grid_runs (sort (map fst latest)) latest))"
    unfolding eq using assms by (simp add: comp_def)
  show "set (grid_runs (sort (map fst latest)) latest) = set latest"
    unfolding eq using assms by (force simp: image_iff)
qed

lemma grid_steps:
  "fst (foldl (grid_step ck runs) (rows, states, signers) rks) = rows @ map (fst \<circ> grid_row ck runs) rks"
proof (induction rks arbitrary: rows states signers)
  case (Cons rk rks)
  then show ?case by (simp add: grid_step_def split: prod.splits)
qed simp

lemma compute_grid_rows:
  "fst (compute_grid ck rks ids latest signers) = map (fst \<circ> grid_row ck (grid_runs ids latest)) rks"
  by (simp add: compute_grid_def grid_steps)

text \<open>The state two sets of signers justify: those that passed a test and those that failed it.\<close>

definition verdict :: "string set \<Rightarrow> string set \<Rightarrow> cell_state" where
  "verdict passed failed =
     (if passed = {} \<and> failed = {} then StateUntested
      else if passed \<noteq> {} \<and> failed \<noteq> {} then StateContested
      else if failed \<noteq> {} then StateFailing
      else if card passed \<ge> 2 then StateConfirmed else StateSingle)"

lemma consensus_verdict: "cs_State (compute_consensus ss) = verdict (voters ss True ResultPass) (voters ss True ResultFail)"
proof -
  let ?p = "voters ss True ResultPass" and ?f = "voters ss True ResultFail"
  have t: "tally_ok ss (foldl count_signer tally_start ss)" by (rule tally_all)
  have e: "?p = {} \<longleftrightarrow> card ?p = 0" "?f = {} \<longleftrightarrow> card ?f = 0" by simp_all
  obtain p f where pf: "card ?p = p" "card ?f = f" by blast
  from t show ?thesis
    unfolding compute_consensus_def Let_def state_of_tally_def tally_ok_def verdict_def e pf by auto
qed

lemma voters_of_runs:
  assumes "distinct (map run_identity runs)"
  shows "voters (map (ballot_of rk) runs) True res =
    {k. \<exists>r \<in> set runs. run_identity r = k \<and> sn_allowlisted r \<and> cell_result r rk = res}"
proof -
  have eq: "map (\<lambda>s. (sr_SignerID s, s)) (map (ballot_of rk) runs) = map (\<lambda>r. (run_identity r, ballot_of rk r)) runs"
    by (simp add: comp_def ballot_of_def)
  have "distinct (map fst (map (\<lambda>r. (run_identity r, ballot_of rk r)) runs))" using assms by (simp add: comp_def)
  then have "ballots (map (ballot_of rk) runs) k = Some b \<longleftrightarrow> (\<exists>r \<in> set runs. k = run_identity r \<and> b = ballot_of rk r)" for k b
    unfolding ballots_def eq by (subst map_of_eq_Some_iff) auto
  moreover have "k \<in> voters ss True res \<longleftrightarrow> (\<exists>b. ballots ss k = Some b \<and> sr_Allowlisted b \<and> sr_Result b = res)" for k ss
    by (cases "ballots ss k") (simp_all add: voters_def)
  ultimately have "k \<in> voters (map (ballot_of rk) runs) True res \<longleftrightarrow>
      (\<exists>r \<in> set runs. k = run_identity r \<and> sn_allowlisted r \<and> cell_result r rk = res)" for k
    by (auto simp: ballot_of_def)
  then show ?thesis by (intro set_eqI) (auto simp: eq_commute)
qed

lemma distinct_identities:
  assumes "distinct (map fst runs)" "\<And>i r. (i, r) \<in> set runs \<Longrightarrow> i = key_id sha (run_identity r)"
  shows "distinct (map run_identity (map snd runs))"
proof -
  have "map fst runs = map (key_id sha) (map run_identity (map snd runs))"
    using assms(2) by (auto intro!: map_cong)
  with assms(1) show ?thesis by (metis distinct_map)
qed

text \<open>
  The row of a test, in a grid whose map holds at most one run for each verified identity, under the
  hash of that identity.
\<close>

lemma grid_row_verdict:
  assumes "distinct (map fst latest)" "\<And>i r. (i, r) \<in> set latest \<Longrightarrow> i = key_id sha (run_identity r)"
    and "rw \<in> set (fst (compute_grid ck rks (sort (map fst latest)) latest signers))"
  shows "(rw_Phase rw, rw_Name rw) \<in> set rks \<and> rw_Consensus rw = state_text (verdict
    {k. \<exists>r \<in> snd ` set latest. run_identity r = k \<and> sn_allowlisted r \<and> cell_result r (rw_Phase rw, rw_Name rw) = ResultPass}
    {k. \<exists>r \<in> snd ` set latest. run_identity r = k \<and> sn_allowlisted r \<and> cell_result r (rw_Phase rw, rw_Name rw) = ResultFail})"
proof -
  let ?runs = "grid_runs (sort (map fst latest)) latest"
  from assms(3) obtain rk where rk: "rk \<in> set rks" "rw = fst (grid_row ck ?runs rk)"
    by (auto simp: compute_grid_rows)
  have d: "distinct (map run_identity (map snd ?runs))"
    by (rule distinct_identities [of _ sha]) (use grid_runs_facts [OF assms(1)] assms(2) in simp_all)
  have "rw_Consensus rw = state_text (cs_State (compute_consensus (map (ballot_of rk) (map snd ?runs))))"
    by (simp add: rk(2) grid_row_def Let_def)
  moreover have "(rw_Phase rw, rw_Name rw) = rk" by (simp add: rk(2) grid_row_def Let_def)
  moreover have "set (map snd ?runs) = snd ` set latest" using grid_runs_facts(2) [OF assms(1)] by simp
  ultimately show ?thesis
    using rk(1) by (simp only: consensus_verdict voters_of_runs [OF d] simp_thms)
qed

subsection \<open>The strict and the combined grid\<close>

interpretation newest: slice_order run_newer
  by unfold_locales (auto simp: run_newer_def split: if_splits)

text \<open>A signer's newest run, among those that \<open>Q\<close> admits.\<close>

definition newest_run :: "recipe_agg \<Rightarrow> (signer_run \<Rightarrow> bool) \<Rightarrow> string \<Rightarrow> signer_run \<Rightarrow> bool" where
  "newest_run agg Q k r \<longleftrightarrow>
     r \<in> set (agg_runs agg) \<and> Q r \<and> run_identity r = k \<and>
     (\<forall>r' \<in> set (agg_runs agg). Q r' \<and> run_identity r' = k \<longrightarrow> r' = r \<or> \<not> run_newer r' r)"

text \<open>No signer has two different runs with one time and one identifier.\<close>

definition runs_told_apart :: "recipe_agg \<Rightarrow> bool" where
  "runs_told_apart agg \<longleftrightarrow>
     (\<forall>r \<in> set (agg_runs agg). \<forall>r' \<in> set (agg_runs agg).
        run_identity r = run_identity r' \<and> sn_attestedAt r = sn_attestedAt r' \<and> rm_RunID (sn_meta r) = rm_RunID (sn_meta r') \<longrightarrow> r = r')"

lemma newest_run_unique:
  assumes "runs_told_apart agg" "newest_run agg Q k r" "newest_run agg Q k r'"
  shows "r = r'"
proof (rule ccontr)
  assume "r \<noteq> r'"
  with assms(2,3) have "\<not> run_newer r r'" "\<not> run_newer r' r" by (auto simp: newest_run_def)
  then have "sn_attestedAt r = sn_attestedAt r' \<and> rm_RunID (sn_meta r) = rm_RunID (sn_meta r')"
    by (auto simp: run_newer_def split: if_splits)
  moreover from assms(2,3) have "r \<in> set (agg_runs agg)" "r' \<in> set (agg_runs agg)" "run_identity r = run_identity r'"
    by (simp_all add: newest_run_def)
  ultimately have "r = r'" using assms(1) unfolding runs_told_apart_def by metis
  with \<open>r \<noteq> r'\<close> show False by simp
qed

lemma find_signer_runs:
  assumes "runs_told_apart agg"
  shows "find Q (signer_runs agg k) = Some r \<longleftrightarrow> newest_run agg Q k r"
proof -
  have sound: "newest_run agg Q k r" if "find Q (signer_runs agg k) = Some r" for r
    using newest.find_sorted_first [OF that [unfolded signer_runs_def]] by (auto simp: newest_run_def)
  show ?thesis
  proof
    assume new: "newest_run agg Q k r"
    then have "r \<in> set (signer_runs agg k)" "Q r" by (auto simp: newest_run_def signer_runs_def)
    then obtain r' where r': "find Q (signer_runs agg k) = Some r'" by (metis find_None_iff option.exhaust)
    with newest_run_unique [OF assms new sound [OF r']] show "find Q (signer_runs agg k) = Some r" by simp
  qed (rule sound)
qed

definition passing :: "recipe_agg \<Rightarrow> (signer_run \<Rightarrow> bool) \<Rightarrow> row_key \<Rightarrow> run_result \<Rightarrow> string set" where
  "passing agg Q rk res = {k. \<exists>r. newest_run agg Q k r \<and> sn_allowlisted r \<and> cell_result r rk = res}"

lemma passing_eq:
  assumes "\<And>i r. (i, r) \<in> set l \<longleftrightarrow> i = f (run_identity r) \<and> newest_run agg Q (run_identity r) r"
  shows "{k. \<exists>r \<in> snd ` set l. run_identity r = k \<and> sn_allowlisted r \<and> cell_result r rk = res} = passing agg Q rk res"
proof -
  have "r \<in> snd ` set l \<longleftrightarrow> newest_run agg Q (run_identity r) r" for r
    unfolding image_iff using assms by (metis prod.collapse snd_conv)
  moreover have "newest_run agg Q k r \<longleftrightarrow> run_identity r = k \<and> newest_run agg Q (run_identity r) r" for k r
    by (auto simp: newest_run_def)
  ultimately show ?thesis unfolding passing_def by blast
qed

lemma version_bucket:
  assumes "inj_on sha (identities agg)" "runs_told_apart agg"
  defines "b \<equiv> bucket_versions (runs_by_id sha agg)"
  shows "distinct (map fst (get_or [] (fst b) v))" "distinct (map fst (fst b))"
    and "(i, r) \<in> set (get_or [] (fst b) v) \<longleftrightarrow> i = key_id sha (run_identity r) \<and> newest_run agg (\<lambda>r. run_version r = v) (run_identity r) r"
    and "fst ` set (fst b) = run_version ` set (agg_runs agg)"
proof -
  note facts = runs_by_id_facts [OF assms(1)]
  have spec: "buckets_ok b" "fst ` set (fst b) = {v. \<exists>(i, rs) \<in> set (runs_by_id sha agg). v \<in> run_version ` set rs}"
    "map_of (get_or [] (fst b) v) i = (case map_of (runs_by_id sha agg) i of None \<Rightarrow> None | Some rs \<Rightarrow> find (\<lambda>r. run_version r = v) rs)"
    for v i
    using bucket_versions_spec [OF facts(1)] unfolding b_def by blast+
  show d: "distinct (map fst (get_or [] (fst b) v))" by (rule distinct_get_or [OF spec(1)])
  show "distinct (map fst (fst b))" using spec(1) by (simp add: buckets_ok_def)
  have "(i, r) \<in> set (get_or [] (fst b) v) \<longleftrightarrow> map_of (get_or [] (fst b) v) i = Some r" using d by (metis map_of_eq_Some_iff)
  also have "\<dots> \<longleftrightarrow> (\<exists>rs. (i, rs) \<in> set (runs_by_id sha agg) \<and> find (\<lambda>r. run_version r = v) rs = Some r)"
    unfolding spec(3) map_of_eq_Some_iff [OF facts(1), symmetric] by (cases "map_of (runs_by_id sha agg) i") simp_all
  also have "\<dots> \<longleftrightarrow> (\<exists>k \<in> identities agg. i = key_id sha k \<and> newest_run agg (\<lambda>r. run_version r = v) k r)"
    unfolding facts(2) find_signer_runs [OF assms(2), symmetric] by blast
  also have "\<dots> \<longleftrightarrow> i = key_id sha (run_identity r) \<and> newest_run agg (\<lambda>r. run_version r = v) (run_identity r) r"
    by (auto simp: newest_run_def identities_def)
  finally show "(i, r) \<in> set (get_or [] (fst b) v) \<longleftrightarrow>
      i = key_id sha (run_identity r) \<and> newest_run agg (\<lambda>r. run_version r = v) (run_identity r) r" .
  have "(\<exists>(i, rs) \<in> set (runs_by_id sha agg). v \<in> run_version ` set rs) \<longleftrightarrow> v \<in> run_version ` set (agg_runs agg)" for v
  proof -
    have "(\<exists>(i, rs) \<in> set (runs_by_id sha agg). v \<in> run_version ` set rs) \<longleftrightarrow>
        (\<exists>i rs. (i, rs) \<in> set (runs_by_id sha agg) \<and> v \<in> run_version ` set rs)" by auto
    also have "\<dots> \<longleftrightarrow> (\<exists>k \<in> identities agg. v \<in> run_version ` set (signer_runs agg k))"
      unfolding facts(2) by blast
    also have "\<dots> \<longleftrightarrow> v \<in> run_version ` set (agg_runs agg)"
      by (auto simp: signer_runs_def identities_def)
    finally show ?thesis .
  qed
  then show "fst ` set (fst b) = run_version ` set (agg_runs agg)" unfolding spec(2) by simp
qed

lemma version_grids:
  "fst (foldl (version_grid_step ck latest) (tabs, signers) vs) = tabs' \<Longrightarrow> tv \<in> set tabs' \<Longrightarrow> tv \<notin> set tabs \<Longrightarrow>
     tv_AICRVer tv \<in> set vs \<and> (\<exists>signers. tv_Tests tv =
       fst (compute_grid ck (union_rows (get_or [] latest (tv_AICRVer tv))) (sort (map fst (get_or [] latest (tv_AICRVer tv))))
         (get_or [] latest (tv_AICRVer tv)) signers))"
proof (induction vs arbitrary: tabs signers)
  case (Cons v vs)
  obtain rows states signers' where g: "compute_grid ck (union_rows (get_or [] latest v)) (sort (map fst (get_or [] latest v)))
      (get_or [] latest v) signers = (rows, states, signers')" by (metis prod_cases3)
  let ?t = "\<lparr> tv_AICRVer = v, tv_PhaseRollup = phase_rollup states, tv_Tests = rows \<rparr>"
  have step: "version_grid_step ck latest (tabs, signers) v = (tabs @ [?t], signers')"
    by (simp add: version_grid_step_def Let_def g)
  show ?case
  proof (cases "tv = ?t")
    case True
    with g show ?thesis by (metis fst_conv list.set_intros(1) tab_version.select_convs(1,3))
  next
    case False
    with Cons.IH [of "tabs @ [?t]" signers'] Cons.prems step show ?thesis by simp
  qed
qed simp

lemma build_recipe_versions:
  "tb_Versions (fst (build_recipe ck sha vcmp agg sources)) =
     fst (foldl (version_grid_step ck (fst (bucket_versions (runs_by_id sha agg)))) ([], [])
       (sort_slice (version_before vcmp (snd (bucket_versions (runs_by_id sha agg)))) (map fst (fst (bucket_versions (runs_by_id sha agg))))))"
  by (simp add: build_recipe_def Let_def split: prod.splits)

lemma build_recipe_combined:
  "tv_Tests (tb_Combined (fst (build_recipe ck sha vcmp agg sources))) =
     (let latest = map (\<lambda>(i, rs). (i, hd rs)) (runs_by_id sha agg)
      in fst (compute_grid ck (union_rows latest) (sort (map fst latest)) latest []))"
  by (simp add: build_recipe_def Let_def comp_def case_prod_unfold split: prod.splits)

text \<open>Property C33:
  A cell of a version's grid is the verdict of the verified identities alone: of each identity
  that is on the allowlist, its newest run at that version counts once, as a pass or a fail
  of the test, whatever display hashes, signers off the list or older runs there are. So a
  cell is confirmed exactly when two distinct listed identities last passed it and none last failed
  it. The combined grid is the same with each identity's newest run at any version.\<close>

theorem grid_cells_exact:
  assumes sha: "inj_on sha (identities agg)" and apart: "runs_told_apart agg"
  shows "(\<forall>tv \<in> set (tb_Versions (fst (build_recipe ck sha vcmp agg sources))). \<forall>rw \<in> set (tv_Tests tv).
      rw_Consensus rw = state_text (verdict
        (passing agg (\<lambda>r. run_version r = tv_AICRVer tv) (rw_Phase rw, rw_Name rw) ResultPass)
        (passing agg (\<lambda>r. run_version r = tv_AICRVer tv) (rw_Phase rw, rw_Name rw) ResultFail))) \<and>
    (\<forall>rw \<in> set (tv_Tests (tb_Combined (fst (build_recipe ck sha vcmp agg sources)))).
      rw_Consensus rw = state_text (verdict
        (passing agg (\<lambda>_. True) (rw_Phase rw, rw_Name rw) ResultPass)
        (passing agg (\<lambda>_. True) (rw_Phase rw, rw_Name rw) ResultFail)))"
proof (intro conjI ballI)
  fix tv rw assume tv: "tv \<in> set (tb_Versions (fst (build_recipe ck sha vcmp agg sources)))" and rw: "rw \<in> set (tv_Tests tv)"
  let ?l = "get_or [] (fst (bucket_versions (runs_by_id sha agg))) (tv_AICRVer tv)"
  note vb = version_bucket [OF sha apart]
  from version_grids [OF build_recipe_versions [symmetric] tv] obtain signers
    where "tv_Tests tv = fst (compute_grid ck (union_rows ?l) (sort (map fst ?l)) ?l signers)" by auto
  with rw have "rw \<in> set (fst (compute_grid ck (union_rows ?l) (sort (map fst ?l)) ?l signers))" by simp
  from grid_row_verdict [OF vb(1) _ this, of sha] vb(3) [of _ _ "tv_AICRVer tv"]
  have "rw_Consensus rw = state_text (verdict
    {k. \<exists>r \<in> snd ` set ?l. run_identity r = k \<and> sn_allowlisted r \<and> cell_result r (rw_Phase rw, rw_Name rw) = ResultPass}
    {k. \<exists>r \<in> snd ` set ?l. run_identity r = k \<and> sn_allowlisted r \<and> cell_result r (rw_Phase rw, rw_Name rw) = ResultFail})"
    by simp
  then show "rw_Consensus rw = state_text (verdict
        (passing agg (\<lambda>r. run_version r = tv_AICRVer tv) (rw_Phase rw, rw_Name rw) ResultPass)
        (passing agg (\<lambda>r. run_version r = tv_AICRVer tv) (rw_Phase rw, rw_Name rw) ResultFail))"
    unfolding passing_eq [where l = ?l and f = "key_id sha", OF vb(3)] .
next
  fix rw assume rw: "rw \<in> set (tv_Tests (tb_Combined (fst (build_recipe ck sha vcmp agg sources))))"
  let ?l = "map (\<lambda>(i, rs). (i, hd rs)) (runs_by_id sha agg)"
  note facts = runs_by_id_facts [OF sha]
  have d: "distinct (map fst ?l)" using facts(1) by (simp add: comp_def case_prod_unfold)
  have first: "signer_runs agg k \<noteq> [] \<Longrightarrow> newest_run agg (\<lambda>_. True) k r \<longleftrightarrow> r = hd (signer_runs agg k)" for k r
    unfolding find_signer_runs [OF apart, symmetric] by (cases "signer_runs agg k") auto
  have nonempty: "signer_runs agg k \<noteq> [] \<longleftrightarrow> k \<in> identities agg" for k
    unfolding signer_runs_def sort_slice_Nil_iff by (auto simp: identities_def filter_empty_conv)
  have l: "(i, r) \<in> set ?l \<longleftrightarrow> i = key_id sha (run_identity r) \<and> newest_run agg (\<lambda>_. True) (run_identity r) r" for i r
  proof -
    have "(i, r) \<in> set ?l \<longleftrightarrow> (\<exists>rs. (i, rs) \<in> set (runs_by_id sha agg) \<and> r = hd rs)" by force
    also have "\<dots> \<longleftrightarrow> (\<exists>k \<in> identities agg. i = key_id sha k \<and> newest_run agg (\<lambda>_. True) k r)"
      unfolding facts(2) using first nonempty by blast
    also have "\<dots> \<longleftrightarrow> i = key_id sha (run_identity r) \<and> newest_run agg (\<lambda>_. True) (run_identity r) r"
      by (auto simp: newest_run_def identities_def)
    finally show ?thesis .
  qed
  from rw have "rw \<in> set (fst (compute_grid ck (union_rows ?l) (sort (map fst ?l)) ?l []))"
    by (simp only: build_recipe_combined Let_def)
  from grid_row_verdict [OF d _ this, of sha] l
  have "rw_Consensus rw = state_text (verdict
    {k. \<exists>r \<in> snd ` set ?l. run_identity r = k \<and> sn_allowlisted r \<and> cell_result r (rw_Phase rw, rw_Name rw) = ResultPass}
    {k. \<exists>r \<in> snd ` set ?l. run_identity r = k \<and> sn_allowlisted r \<and> cell_result r (rw_Phase rw, rw_Name rw) = ResultFail})"
    by blast
  then show "rw_Consensus rw = state_text (verdict
        (passing agg (\<lambda>_. True) (rw_Phase rw, rw_Name rw) ResultPass)
        (passing agg (\<lambda>_. True) (rw_Phase rw, rw_Name rw) ResultFail))"
    unfolding passing_eq [where l = ?l and f = "key_id sha", OF l] .
qed

subsection \<open>Instances\<close>

definition example_run :: "string \<Rightarrow> int \<Rightarrow> string \<Rightarrow> string \<Rightarrow> signer_run" where
  "example_run signer at version status =
     \<lparr> sn_meta = \<lparr> rm_SchemaVersion = run_meta_schema_version,
         rm_Coordinate = \<lparr> co_Group = ''eks'', co_Dashboard = ''h100-ubuntu'', co_Tab = ''training'' \<rparr>,
         rm_Recipe = ''h100-eks'', rm_Profile = [], rm_ProfileSelection = [],
         rm_Signer = \<lparr> ms_IDHash = [], ms_Identity = signer, ms_Issuer = ''iss'', ms_Class = ''community'', ms_Allowlisted = True \<rparr>,
         rm_RunID = ''1'', rm_AICRVersion = version, rm_K8sVersion = ''1.33'', rm_K8sConstraint = [], rm_BundleDigest = [],
         rm_EvidenceRef = [], rm_RekorLogIndex = None, rm_AttestedAt = [] \<rparr>,
       sn_attestedAt = at, sn_class = ''community'', sn_allowlisted = True, sn_label = signer,
       sn_statuses = [(''deployment'', [(''t'', status)])] \<rparr>"

definition example_runs :: "signer_run list" where
  "example_runs = [example_run ''a'' 1 ''v1'' ''failed'', example_run ''a'' 2 ''v1'' ''passed'', example_run ''b'' 1 ''v1'' ''passed'']"

definition example_agg :: recipe_agg where
  "example_agg = \<lparr> ra_coord = \<lparr> co_Group = ''eks'', co_Dashboard = ''h100-ubuntu'', co_Tab = ''training'' \<rparr>,
     ra_criteria = \<lparr> c_Service = ''eks'', c_Accelerator = ''h100'', c_Intent = ''training'', c_OS = ''ubuntu'', c_Platform = [], c_Nodes = 0 \<rparr>,
     ra_profile = [], ra_profileSelection = [], ra_conflicted = False, ra_name = ''h100-eks'',
     ra_bySigner = [(canonical_source_id (\<lambda>s. s) (rm_Signer (sn_meta (example_runs ! 0))), [example_runs ! 0, example_runs ! 1]),
       (canonical_source_id (\<lambda>s. s) (rm_Signer (sn_meta (example_runs ! 2))), [example_runs ! 2])] \<rparr>"

definition example_clock :: clock where
  "example_clock = \<lparr> ck_parse = (\<lambda>_. None), ck_minute = (\<lambda>_. []), ck_day = (\<lambda>_. []) \<rparr>"

lemma example_aggregate: "map fst (aggregate_runs (\<lambda>s. s) example_runs) = [''eks/h100-ubuntu/training'']"
  by code_simp

theorem aggregate_sound_witness:
  "\<exists>agg. aggregate_runs (\<lambda>s. s) example_runs = [(''eks/h100-ubuntu/training'', agg)] \<and>
     agg_ok (\<lambda>s. s) (set example_runs) ''eks/h100-ubuntu/training'' agg"
proof -
  obtain agg where agg: "aggregate_runs (\<lambda>s. s) example_runs = [(''eks/h100-ubuntu/training'', agg)]"
    using example_aggregate by (cases "aggregate_runs (\<lambda>s. s) example_runs") auto
  with aggregate_sound [OF refl, of "\<lambda>s. s" example_runs] show ?thesis by simp
qed

theorem grid_cells_exact_witness:
  "card (passing example_agg (\<lambda>r. run_version r = ''v1'') (''deployment'', ''t'') ResultPass) \<ge> 2 \<and>
   passing example_agg (\<lambda>r. run_version r = ''v1'') (''deployment'', ''t'') ResultFail = {}"
proof -
  let ?tabs = "tb_Versions (fst (build_recipe example_clock (\<lambda>s. s) (\<lambda>_ _. 0) example_agg []))"
  have apart: "runs_told_apart example_agg" by code_simp
  have inj: "inj_on (\<lambda>s. s) (identities example_agg)" by simp
  have "map (\<lambda>tv. (tv_AICRVer tv, map (\<lambda>rw. (rw_Phase rw, rw_Name rw, rw_Consensus rw)) (tv_Tests tv))) ?tabs =
      [(''v1'', [(''deployment'', ''t'', ''CONFIRMED'')])]" by code_simp
  then obtain tv rw where "?tabs = [tv]" "tv_Tests tv = [rw]" "tv_AICRVer tv = ''v1''" "rw_Phase rw = ''deployment''"
    "rw_Name rw = ''t''" "rw_Consensus rw = ''CONFIRMED''" by (auto simp: map_eq_Cons_conv)
  with grid_cells_exact [OF inj apart, of example_clock "\<lambda>_ _. 0" "[]"]
  have "state_text (verdict (passing example_agg (\<lambda>r. run_version r = ''v1'') (''deployment'', ''t'') ResultPass)
      (passing example_agg (\<lambda>r. run_version r = ''v1'') (''deployment'', ''t'') ResultFail)) = ''CONFIRMED''" by simp
  then show ?thesis by (auto simp: verdict_def split: if_splits)
qed

text \<open>A newline in an issuer or an identity lets two signers share one key, and so one source.\<close>

lemma identity_keys_collide:
  "signer_identity_key \<lparr> ms_IDHash = [], ms_Identity = ''c'', ms_Issuer = ''a'' @ CHR 10 # ''b'', ms_Class = [], ms_Allowlisted = True \<rparr> =
   signer_identity_key \<lparr> ms_IDHash = [], ms_Identity = ''b'' @ CHR 10 # ''c'', ms_Issuer = ''a'', ms_Class = [], ms_Allowlisted = True \<rparr>"
  by (simp add: signer_identity_key_def)

end
