(* ===== verification/UAT_Broker.thy ===== *)
theory UAT_Broker
  imports Go_Slices Aicr_Errors
begin

section \<open>Reservations and the nightly schedule (pkg/uatbroker)\<close>

text \<open>
  The registry of GPU reservations that the nightly and daytime workflows lease, its validation, and the
  expansion of the release tags into the cells of the version matrix. Versions are those of
  Masterminds/semver, given by the record \<open>semver\<close>; the YAML decoder is an argument. A nil slice is \<open>None\<close>: an absent
  list of intents is not an empty one. A map is a list with distinct keys, in the order in
  which one run iterates over it.
\<close>

subsection \<open>Model\<close>

definition CloudAWS :: string where "CloudAWS = ''aws''"
definition CloudGCP :: string where "CloudGCP = ''gcp''"
definition CloudAzure :: string where "CloudAzure = ''azure''"
definition CloudKind :: string where "CloudKind = ''kind''"

definition valid_clouds :: "string set" where
  "valid_clouds = {CloudAWS, CloudGCP, CloudAzure, CloudKind}"

definition IntentTraining :: string where "IntentTraining = ''training''"
definition IntentInference :: string where "IntentInference = ''inference''"

definition valid_intents :: "string set" where
  "valid_intents = {IntentTraining, IntentInference}"

record reservation =
  rv_Name :: string
  rv_Slug :: string
  rv_Cloud :: string
  rv_ReservationID :: string
  rv_Accelerator :: string
  rv_GPUCount :: int
  rv_ClusterConfigPath :: string
  rv_TestConfigDir :: string
  rv_NightlyIntents :: "string list option"
  rv_MinVersions :: "(string \<times> string) list"
  rv_DaytimeIntent :: string

record cell =
  ce_Reservation :: string
  ce_AICRVersion :: string
  ce_IsMain :: bool
  ce_Intents :: "string list"

definition nightly_intents_or_default :: "reservation \<Rightarrow> string list" where
  "nightly_intents_or_default r = (case rv_NightlyIntents r of None \<Rightarrow> [IntentTraining] | Some is \<Rightarrow> is)"

text \<open>What the code uses of a parsed version; \<open>sv_lt\<close> is \<open>LessThan\<close>.\<close>

record 'v semver =
  sv_parse :: "string \<Rightarrow> 'v option"
  sv_prerelease :: "'v \<Rightarrow> string"
  sv_string :: "'v \<Rightarrow> string"
  sv_lt :: "'v \<Rightarrow> 'v \<Rightarrow> bool"
  sv_original :: "'v \<Rightarrow> string"

subsection \<open>The two patterns\<close>

definition lower_letter :: "char \<Rightarrow> bool" where
  "lower_letter c \<longleftrightarrow> 97 \<le> (of_char c :: nat) \<and> (of_char c :: nat) \<le> 122"

definition lower_alnum :: "char \<Rightarrow> bool" where
  "lower_alnum c \<longleftrightarrow> lower_letter c \<or> is_digit c"

text \<open>\<open>^[a-z][a-z0-9]{1,3}$\<close> and \<open>^[a-z]([a-z0-9-]*[a-z0-9])?$\<close>.\<close>

definition slug_pattern :: "string \<Rightarrow> bool" where
  "slug_pattern s \<longleftrightarrow> 2 \<le> length s \<and> length s \<le> 4 \<and> lower_letter (hd s) \<and> list_all lower_alnum (tl s)"

definition name_pattern :: "string \<Rightarrow> bool" where
  "name_pattern s \<longleftrightarrow>
     s \<noteq> [] \<and> lower_letter (hd s) \<and>
     (tl s = [] \<or> list_all (\<lambda>c. lower_alnum c \<or> c = CHR ''-'') (butlast (tl s)) \<and> lower_alnum (last s))"

subsection \<open>Validation\<close>

record seen_reservations =
  sn_names :: "string list"
  sn_slugs :: "(string \<times> string) list"
  sn_daytime :: "(string \<times> string) list"

definition required_field :: "reservation \<Rightarrow> string \<times> string \<Rightarrow> unit res" where
  "required_field r = (\<lambda>(key, v).
     if trim_space v = [] then invalid ''reservation %s has an empty %s'' [rv_Name r, key] else Inr ())"

definition intent_step :: "reservation \<Rightarrow> string list \<Rightarrow> string \<Rightarrow> string list res" where
  "intent_step r seen intent =
     (if intent \<notin> valid_intents
      then invalid ''reservation %s has unknown nightly-intent %q (want %s or %s)'' [rv_Name r, intent, IntentTraining, IntentInference]
      else if intent \<in> set seen then invalid ''reservation %s lists duplicate nightly-intent %q'' [rv_Name r, intent]
      else Inr (seen @ [intent]))"

definition min_version_check :: "'v semver \<Rightarrow> reservation \<Rightarrow> string \<times> string \<Rightarrow> unit res" where
  "min_version_check sv r = (\<lambda>(intent, minVer).
     if intent \<notin> valid_intents
     then invalid ''reservation %s has a nightly-intent-min-version for unknown intent %q (want %s or %s)''
       [rv_Name r, intent, IntentTraining, IntentInference]
     else if intent \<notin> set (nightly_intents_or_default r)
     then invalid ''reservation %s gates intent %q via nightly-intent-min-versions but does not run it nightly'' [rv_Name r, intent]
     else if sv_parse sv minVer = None
     then invalid ''reservation %s has an invalid nightly-intent-min-version %q for intent %q'' [rv_Name r, minVer, intent]
     else Inr ())"

definition daytime_check :: "seen_reservations \<Rightarrow> reservation \<Rightarrow> seen_reservations res" where
  "daytime_check s r =
     (if rv_DaytimeIntent r \<noteq> [] \<and> rv_DaytimeIntent r \<notin> valid_intents
      then invalid ''reservation %s has unknown daytime-intent %q (want %s or %s, or empty to opt out)''
        [rv_Name r, rv_DaytimeIntent r, IntentTraining, IntentInference]
      else if rv_DaytimeIntent r = [] then Inr s
      else
        (case map_of (sn_daytime s) (rv_Cloud r) of
           Some prev \<Rightarrow>
             invalid ''cloud %s has more than one daytime-intent reservation (%s and %s); at most one is allowed''
               [rv_Cloud r, prev, rv_Name r]
         | None \<Rightarrow> Inr (s\<lparr>sn_daytime := upsert (rv_Cloud r) (rv_Name r) (sn_daytime s)\<rparr>)))"

definition identity_check :: "seen_reservations \<Rightarrow> nat \<Rightarrow> reservation \<Rightarrow> seen_reservations res" where
  "identity_check s i r =
     (if trim_space (rv_Name r) = [] then invalid ''reservation[%d] has an empty name'' [show_nat i]
      else if \<not> name_pattern (rv_Name r) then invalid ''reservation %s has an invalid name'' [rv_Name r]
      else if rv_Name r \<in> set (sn_names s) then invalid ''duplicate reservation name %s'' [rv_Name r]
      else if trim_space (rv_Slug r) = [] then invalid ''reservation %s has an empty slug'' [rv_Name r]
      else if \<not> slug_pattern (rv_Slug r) then invalid ''reservation %s has an invalid slug %q'' [rv_Name r, rv_Slug r]
      else
        (case map_of (sn_slugs s) (rv_Slug r) of
           Some prev \<Rightarrow> invalid ''duplicate reservation slug %q (%s and %s)'' [rv_Slug r, prev, rv_Name r]
         | None \<Rightarrow> Inr (s\<lparr>sn_names := sn_names s @ [rv_Name r], sn_slugs := upsert (rv_Slug r) (rv_Name r) (sn_slugs s)\<rparr>)))"

definition validate_reservation :: "'v semver \<Rightarrow> seen_reservations \<Rightarrow> nat \<times> reservation \<Rightarrow> seen_reservations res" where
  "validate_reservation sv s = (\<lambda>(i, r).
     res_bind (identity_check s i r) (\<lambda>s.
     if rv_Cloud r \<notin> valid_clouds
     then invalid ''reservation %s has unknown cloud %q (want %s, %s, %s, or %s)''
       [rv_Name r, rv_Cloud r, CloudAWS, CloudGCP, CloudAzure, CloudKind]
     else
       res_bind (each (required_field r)
         [(''accelerator'', rv_Accelerator r), (''cluster-config-path'', rv_ClusterConfigPath r), (''test-config-dir'', rv_TestConfigDir r)]) (\<lambda>_.
       if rv_GPUCount r \<le> 0 then invalid ''reservation %s has a non-positive gpu-count (%d)'' [rv_Name r, show_int (rv_GPUCount r)]
       else
         res_bind (res_fold (intent_step r) [] (case rv_NightlyIntents r of None \<Rightarrow> [] | Some is \<Rightarrow> is)) (\<lambda>_.
         res_bind (each (min_version_check sv r) (rv_MinVersions r)) (\<lambda>_.
         daytime_check s r)))))"

definition validate_reservations :: "'v semver \<Rightarrow> reservation list \<Rightarrow> unit res" where
  "validate_reservations sv rs =
     (if length rs = 0 then invalid ''reservation registry has no reservations'' []
      else
        res_bind (res_fold (validate_reservation sv) \<lparr> sn_names = [], sn_slugs = [], sn_daytime = [] \<rparr> (List.enumerate 0 rs)) (\<lambda>_.
          Inr ()))"

text \<open>\<open>decode\<close> is the strict YAML decoder; an empty document (\<open>io.EOF\<close>) is \<open>Inr None\<close>.\<close>

definition parse_registry :: "'v semver \<Rightarrow> (string \<Rightarrow> go_error + reservation list option) \<Rightarrow> string \<Rightarrow> reservation list res" where
  "parse_registry sv decode data =
     (case decode data of
        Inl err \<Rightarrow> Inl (err_wrap ErrCodeInvalidRequest ''parse reservation registry'' [] err)
      | Inr None \<Rightarrow> res_bind (validate_reservations sv []) (\<lambda>_. Inr [])
      | Inr (Some rs) \<Rightarrow> res_bind (validate_reservations sv rs) (\<lambda>_. Inr rs))"

definition max_registry_bytes :: nat where
  "max_registry_bytes = 1048576"

definition load_registry_file ::
  "'v semver \<Rightarrow> (string \<Rightarrow> go_error + reservation list option) \<Rightarrow> string \<Rightarrow> (go_error + (go_error + string)) \<Rightarrow> reservation list res" where
  "load_registry_file sv decode path file =
     (case file of
        Inl err \<Rightarrow> Inl (err_wrap ErrCodeInvalidRequest ''open reservation registry %s'' [path] err)
      | Inr (Inl err) \<Rightarrow> Inl (err_wrap ErrCodeInternal ''read reservation registry %s'' [path] err)
      | Inr (Inr contents) \<Rightarrow>
          (let data = take (max_registry_bytes + 1) contents
           in if length data > max_registry_bytes then invalid ''reservation registry %s exceeds size limit'' [path]
              else parse_registry sv decode data))"

subsection \<open>Reading the registry\<close>

definition daytime_assignments :: "reservation list \<Rightarrow> (string \<times> string) list" where
  "daytime_assignments rs = map (\<lambda>r. (rv_Name r, rv_DaytimeIntent r)) (filter (\<lambda>r. rv_DaytimeIntent r \<noteq> []) rs)"

definition lookup_reservation :: "reservation list \<Rightarrow> string \<Rightarrow> reservation res" where
  "lookup_reservation rs name =
     (case find (\<lambda>r. rv_Name r = name) rs of
        Some r \<Rightarrow> Inr r
      | None \<Rightarrow> Inl (err_new ErrCodeNotFound ''reservation %s not found in registry'' [name]))"

definition reservation_names :: "reservation list \<Rightarrow> string list" where
  "reservation_names rs = map rv_Name rs"

subsection \<open>The schedule\<close>

definition eligible_nightly_intents :: "'v semver \<Rightarrow> reservation \<Rightarrow> string \<Rightarrow> bool \<Rightarrow> string list" where
  "eligible_nightly_intents sv r version isMain =
     (let intents = nightly_intents_or_default r
      in if isMain \<or> length (rv_MinVersions r) = 0 then intents
         else
           (case sv_parse sv version of
              None \<Rightarrow> intents
            | Some cellV \<Rightarrow>
                filter (\<lambda>intent.
                  case map_of (rv_MinVersions r) intent of
                    None \<Rightarrow> True
                  | Some minStr \<Rightarrow>
                      (case sv_parse sv minStr of
                         None \<Rightarrow> True
                       | Some minV \<Rightarrow> \<not> sv_lt sv cellV minV)) intents))"

definition stable_step :: "'v semver \<Rightarrow> 'v list \<times> string list \<Rightarrow> string \<Rightarrow> 'v list \<times> string list" where
  "stable_step sv = (\<lambda>(versions, seen) t.
     (let t = trim_space t
      in if t = [] then (versions, seen)
         else
           (case sv_parse sv t of
              None \<Rightarrow> (versions, seen)
            | Some v \<Rightarrow>
                (if sv_prerelease sv v \<noteq> [] then (versions, seen)
                 else if sv_string sv v \<in> set seen then (versions, seen)
                 else (versions @ [v], seen @ [sv_string sv v])))))"

definition sorted_stable_descending :: "'v semver \<Rightarrow> string list \<Rightarrow> string list" where
  "sorted_stable_descending sv rawTags =
     map (sv_original sv) (sort_slice (\<lambda>a b. sv_lt sv b a) (fst (foldl (stable_step sv) ([], []) rawTags)))"

definition schedule_cells :: "'v semver \<Rightarrow> string list \<Rightarrow> bool \<Rightarrow> reservation \<Rightarrow> cell list" where
  "schedule_cells sv stable_tags includeMain r =
     (if includeMain
      then [\<lparr> ce_Reservation = rv_Name r, ce_AICRVersion = [], ce_IsMain = True, ce_Intents = eligible_nightly_intents sv r [] True \<rparr>]
      else []) @
     map (\<lambda>tag. \<lparr> ce_Reservation = rv_Name r, ce_AICRVersion = tag, ce_IsMain = False,
                  ce_Intents = eligible_nightly_intents sv r tag False \<rparr>) stable_tags"

definition expand_schedule :: "'v semver \<Rightarrow> reservation list \<Rightarrow> string list \<Rightarrow> bool \<Rightarrow> int \<Rightarrow> (string \<times> cell list) list" where
  "expand_schedule sv reservations rawTags includeMain previousN =
     (let n = (if previousN < 0 then 0 else previousN);
          sorted_tags = sorted_stable_descending sv rawTags;
          stable_tags = (if n < int (length sorted_tags) then take (nat n) sorted_tags else sorted_tags)
      in foldl (\<lambda>out r. upsert (rv_Name r) (schedule_cells sv stable_tags includeMain r) out) [] reservations)"

subsection \<open>A valid registry\<close>

definition reservation_wf :: "'v semver \<Rightarrow> reservation \<Rightarrow> bool" where
  "reservation_wf sv r \<longleftrightarrow>
     name_pattern (rv_Name r) \<and> slug_pattern (rv_Slug r) \<and> rv_Cloud r \<in> valid_clouds \<and>
     trim_space (rv_Accelerator r) \<noteq> [] \<and> trim_space (rv_ClusterConfigPath r) \<noteq> [] \<and> trim_space (rv_TestConfigDir r) \<noteq> [] \<and>
     0 < rv_GPUCount r \<and>
     set (nightly_intents_or_default r) \<subseteq> valid_intents \<and> distinct (nightly_intents_or_default r) \<and>
     (\<forall>(intent, v) \<in> set (rv_MinVersions r). intent \<in> set (nightly_intents_or_default r) \<and> sv_parse sv v \<noteq> None) \<and>
     (rv_DaytimeIntent r = [] \<or> rv_DaytimeIntent r \<in> valid_intents)"

definition daytime_clouds :: "reservation list \<Rightarrow> string list" where
  "daytime_clouds rs = map rv_Cloud (filter (\<lambda>r. rv_DaytimeIntent r \<noteq> []) rs)"

definition registry_wf :: "'v semver \<Rightarrow> reservation list \<Rightarrow> bool" where
  "registry_wf sv rs \<longleftrightarrow>
     (\<forall>r \<in> set rs. reservation_wf sv r) \<and> distinct (map rv_Name rs) \<and> distinct (map rv_Slug rs) \<and> distinct (daytime_clouds rs)"

lemma trim_space_Nil: "trim_space s = [] \<longleftrightarrow> (\<forall>c \<in> set s. is_space c)"
proof
  assume "trim_space s = []"
  then have "\<forall>c \<in> set (dropWhile is_space s). is_space c" by (simp add: trim_space_def dropWhile_eq_Nil_conv)
  then have "dropWhile is_space s = []" by (metis hd_dropWhile hd_in_set)
  then show "\<forall>c \<in> set s. is_space c" by (simp add: dropWhile_eq_Nil_conv)
next
  assume "\<forall>c \<in> set s. is_space c"
  then have "dropWhile is_space s = []" by (simp add: dropWhile_eq_Nil_conv)
  then show "trim_space s = []" unfolding trim_space_def by (simp only: rev.simps dropWhile.simps)
qed

lemma lower_letter_not_space: "lower_letter c \<Longrightarrow> \<not> is_space c"
  by (auto simp: lower_letter_def is_space_def)

lemma pattern_not_blank: "name_pattern s \<Longrightarrow> trim_space s \<noteq> []" "slug_pattern s \<Longrightarrow> trim_space s \<noteq> []"
proof -
  have "trim_space s \<noteq> []" if "s \<noteq> []" "lower_letter (hd s)"
    using that lower_letter_not_space [of "hd s"] hd_in_set [of s] unfolding trim_space_Nil by blast
  moreover have "slug_pattern s \<Longrightarrow> s \<noteq> []" by (auto simp: slug_pattern_def)
  ultimately show "name_pattern s \<Longrightarrow> trim_space s \<noteq> []" "slug_pattern s \<Longrightarrow> trim_space s \<noteq> []"
    unfolding name_pattern_def slug_pattern_def by blast+
qed

lemma identity_check_Inr:
  "identity_check s i r = Inr t \<longleftrightarrow>
     name_pattern (rv_Name r) \<and> slug_pattern (rv_Slug r) \<and> rv_Name r \<notin> set (sn_names s) \<and> map_of (sn_slugs s) (rv_Slug r) = None \<and>
     t = s\<lparr>sn_names := sn_names s @ [rv_Name r], sn_slugs := upsert (rv_Slug r) (rv_Name r) (sn_slugs s)\<rparr>"
  using pattern_not_blank by (auto simp: identity_check_def split: option.splits)

lemma daytime_check_Inr:
  "daytime_check s r = Inr t \<longleftrightarrow>
     (rv_DaytimeIntent r = [] \<and> t = s \<or>
      rv_DaytimeIntent r \<noteq> [] \<and> rv_DaytimeIntent r \<in> valid_intents \<and> map_of (sn_daytime s) (rv_Cloud r) = None \<and>
      t = s\<lparr>sn_daytime := upsert (rv_Cloud r) (rv_Name r) (sn_daytime s)\<rparr>)"
  by (auto simp: daytime_check_def split: option.splits)

lemma intent_fold:
  "(\<exists>t. res_fold (intent_step r) seen is = Inr t) \<longleftrightarrow> set is \<subseteq> valid_intents \<and> distinct is \<and> set is \<inter> set seen = {}"
proof (induction "is" arbitrary: seen)
  case (Cons i "is")
  show ?case
  proof (cases "i \<in> valid_intents \<and> i \<notin> set seen")
    case True
    then have "intent_step r seen i = Inr (seen @ [i])" by (simp add: intent_step_def)
    with True show ?thesis by (auto simp: Cons.IH)
  next
    case False
    then have "\<exists>e. intent_step r seen i = Inl e" by (auto simp: intent_step_def invalid_def)
    with False show ?thesis by auto
  qed
qed simp

lemma intents_ok:
  "(\<exists>t. res_fold (intent_step r) [] (case rv_NightlyIntents r of None \<Rightarrow> [] | Some is \<Rightarrow> is) = Inr t) \<longleftrightarrow>
     set (nightly_intents_or_default r) \<subseteq> valid_intents \<and> distinct (nightly_intents_or_default r)"
  by (cases "rv_NightlyIntents r")
    (simp_all add: intent_fold nightly_intents_or_default_def valid_intents_def)

lemma min_version_check_ok:
  "set (nightly_intents_or_default r) \<subseteq> valid_intents \<Longrightarrow>
     is_ok (min_version_check sv r (intent, v)) \<longleftrightarrow> intent \<in> set (nightly_intents_or_default r) \<and> sv_parse sv v \<noteq> None"
  by (auto simp: min_version_check_def)

definition daytime_free :: "seen_reservations \<Rightarrow> reservation \<Rightarrow> bool" where
  "daytime_free s r \<longleftrightarrow> rv_DaytimeIntent r = [] \<or> map_of (sn_daytime s) (rv_Cloud r) = None"

lemma validate_reservation_Inr:
  "validate_reservation sv s (i, r) = Inr t \<longleftrightarrow>
     reservation_wf sv r \<and> rv_Name r \<notin> set (sn_names s) \<and> map_of (sn_slugs s) (rv_Slug r) = None \<and> daytime_free s r \<and>
     t = s\<lparr>sn_names := sn_names s @ [rv_Name r], sn_slugs := upsert (rv_Slug r) (rv_Name r) (sn_slugs s),
       sn_daytime := (if rv_DaytimeIntent r = [] then sn_daytime s else upsert (rv_Cloud r) (rv_Name r) (sn_daytime s))\<rparr>"
  (is "?l \<longleftrightarrow> ?r")
proof -
  let ?s = "s\<lparr>sn_names := sn_names s @ [rv_Name r], sn_slugs := upsert (rv_Slug r) (rv_Name r) (sn_slugs s)\<rparr>"
  let ?identity = "name_pattern (rv_Name r) \<and> slug_pattern (rv_Slug r) \<and> rv_Name r \<notin> set (sn_names s) \<and> map_of (sn_slugs s) (rv_Slug r) = None"
  let ?fields = "trim_space (rv_Accelerator r) \<noteq> [] \<and> trim_space (rv_ClusterConfigPath r) \<noteq> [] \<and> trim_space (rv_TestConfigDir r) \<noteq> []"
  let ?intents = "set (nightly_intents_or_default r) \<subseteq> valid_intents \<and> distinct (nightly_intents_or_default r)"
  have fields: "is_ok (each (required_field r) [(''accelerator'', rv_Accelerator r), (''cluster-config-path'', rv_ClusterConfigPath r),
      (''test-config-dir'', rv_TestConfigDir r)]) \<longleftrightarrow> ?fields"
    unfolding is_ok_each by (simp add: required_field_def)
  have "?l \<longleftrightarrow> ?identity \<and> rv_Cloud r \<in> valid_clouds \<and> ?fields \<and> 0 < rv_GPUCount r \<and> ?intents \<and>
      is_ok (each (min_version_check sv r) (rv_MinVersions r)) \<and> daytime_check ?s r = Inr t"
    unfolding validate_reservation_def prod.case fields [symmetric] intents_ok [symmetric] is_ok_unit [symmetric]
    by (auto simp: res_simps identity_check_Inr split: if_splits)
  also have "\<dots> \<longleftrightarrow> ?r"
    using min_version_check_ok [of r sv]
    by (auto simp: daytime_check_Inr reservation_wf_def daytime_free_def)
  finally show ?thesis .
qed

definition seen_ok :: "reservation list \<Rightarrow> seen_reservations \<Rightarrow> bool" where
  "seen_ok rs s \<longleftrightarrow>
     set (sn_names s) = rv_Name ` set rs \<and> fst ` set (sn_slugs s) = rv_Slug ` set rs \<and>
     fst ` set (sn_daytime s) = set (daytime_clouds rs)"

lemma validate_fold:
  "(\<forall>s. res_fold (validate_reservation sv) \<lparr> sn_names = [], sn_slugs = [], sn_daytime = [] \<rparr> (List.enumerate 0 rs) = Inr s \<longrightarrow> seen_ok rs s) \<and>
   ((\<exists>s. res_fold (validate_reservation sv) \<lparr> sn_names = [], sn_slugs = [], sn_daytime = [] \<rparr> (List.enumerate 0 rs) = Inr s) \<longleftrightarrow>
      registry_wf sv rs)"
  (is "(\<forall>s. ?fold rs = Inr s \<longrightarrow> _) \<and> _")
proof (induction rs rule: rev_induct)
  case Nil
  show ?case by (simp add: seen_ok_def registry_wf_def daytime_clouds_def)
next
  case (snoc r rs)
  have step: "?fold (rs @ [r]) = Inr t \<longleftrightarrow> (\<exists>s. ?fold rs = Inr s \<and> validate_reservation sv s (length rs, r) = Inr t)" for t
    by (simp add: enumerate_append_eq res_fold_snoc)
  have wf: "registry_wf sv (rs @ [r]) \<longleftrightarrow> registry_wf sv rs \<and> reservation_wf sv r \<and> rv_Name r \<notin> rv_Name ` set rs \<and>
      rv_Slug r \<notin> rv_Slug ` set rs \<and> (rv_DaytimeIntent r = [] \<or> rv_Cloud r \<notin> set (daytime_clouds rs))"
    by (auto simp: registry_wf_def daytime_clouds_def)
  have ok: "seen_ok rs s \<Longrightarrow> validate_reservation sv s (length rs, r) = Inr t \<Longrightarrow> seen_ok (rs @ [r]) t" for s t
    unfolding validate_reservation_Inr seen_ok_def by (auto simp: daytime_clouds_def)
  have can: "seen_ok rs s \<Longrightarrow> (\<exists>t. validate_reservation sv s (length rs, r) = Inr t) \<longleftrightarrow>
      reservation_wf sv r \<and> rv_Name r \<notin> rv_Name ` set rs \<and> rv_Slug r \<notin> rv_Slug ` set rs \<and>
      (rv_DaytimeIntent r = [] \<or> rv_Cloud r \<notin> set (daytime_clouds rs))" for s
    unfolding validate_reservation_Inr seen_ok_def daytime_free_def map_of_eq_None_iff by auto
  show ?case
  proof
    show "\<forall>s. ?fold (rs @ [r]) = Inr s \<longrightarrow> seen_ok (rs @ [r]) s" using snoc.IH ok unfolding step by metis
    show "(\<exists>s. ?fold (rs @ [r]) = Inr s) \<longleftrightarrow> registry_wf sv (rs @ [r])"
      unfolding step wf using snoc.IH can by metis
  qed
qed

text \<open>Property C35:
  Validation accepts exactly the well-formed registries: each reservation has a name and a
  slug of the safe alphabets, a known cloud, its files and GPUs, distinct known nightly intents, gates only on
  intents it runs with versions that parse; and across the registry names and slugs are distinct and
  no cloud has two daytime reservations, whatever the order of the rows and of the gates.\<close>

theorem validate_reservations_exact:
  "validate_reservations sv rs = Inr () \<longleftrightarrow> rs \<noteq> [] \<and> registry_wf sv rs"
  using validate_fold [of sv rs]
  by (auto simp: validate_reservations_def res_simps)

subsection \<open>The cells of the matrix\<close>

text \<open>
  What the code relies on in Masterminds/semver: \<open>LessThan\<close> is a strict weak order on versions, and
  \<open>Original\<close> gives the text that was parsed.
\<close>

definition semver_laws :: "'v semver \<Rightarrow> bool" where
  "semver_laws sv \<longleftrightarrow> slice_order (\<lambda>a b. sv_lt sv b a) \<and> (\<forall>t v. sv_parse sv t = Some v \<longrightarrow> sv_original sv v = t)"

text \<open>The releases among the tags: versions that parse and are no pre-release, trimmed.\<close>

definition release_tag :: "'v semver \<Rightarrow> string list \<Rightarrow> string \<Rightarrow> 'v \<Rightarrow> bool" where
  "release_tag sv tags t v \<longleftrightarrow>
     t \<in> trim_space ` set tags \<and> t \<noteq> [] \<and> sv_parse sv t = Some v \<and> sv_prerelease sv v = []"

lemma stable_fold:
  "(vs, seen) = foldl (stable_step sv) ([], []) tags \<Longrightarrow>
     seen = map (sv_string sv) vs \<and> distinct seen \<and>
     (\<forall>v \<in> set vs. \<exists>t. release_tag sv tags t v) \<and> (\<forall>t v. release_tag sv tags t v \<longrightarrow> sv_string sv v \<in> set seen)"
proof (induction tags arbitrary: vs seen rule: rev_induct)
  case Nil
  then show ?case by (simp add: release_tag_def)
next
  case (snoc x tags)
  obtain ws sn where st: "(ws, sn) = foldl (stable_step sv) ([], []) tags" by (metis surj_pair)
  note IH = snoc.IH [OF st]
  let ?t = "trim_space x"
  have step: "(vs, seen) = stable_step sv (ws, sn) x" using snoc.prems by (simp add: st [symmetric])
  have grow: "release_tag sv tags t v \<Longrightarrow> release_tag sv (tags @ [x]) t v" for t v by (auto simp: release_tag_def)
  have new: "release_tag sv (tags @ [x]) t v \<longleftrightarrow> release_tag sv tags t v \<or> t = ?t \<and> t \<noteq> [] \<and> sv_parse sv t = Some v \<and> sv_prerelease sv v = []"
    for t v by (auto simp: release_tag_def)
  show ?case
  proof (cases "sv_parse sv ?t")
    case None
    with step have "vs = ws" "seen = sn" by (simp_all add: stable_step_def Let_def split: if_splits)
    with IH None grow new show ?thesis by fastforce
  next
    case (Some v)
    show ?thesis
    proof (cases "?t \<noteq> [] \<and> sv_prerelease sv v = [] \<and> sv_string sv v \<notin> set sn")
      case True
      with step Some have "vs = ws @ [v]" "seen = sn @ [sv_string sv v]" by (simp_all add: stable_step_def Let_def)
      with IH True Some grow new show ?thesis by fastforce
    next
      case False
      with step Some have "vs = ws" "seen = sn" by (auto simp: stable_step_def Let_def split: if_splits)
      with IH False Some grow new show ?thesis by fastforce
    qed
  qed
qed

lemma schedule_of:
  "distinct (map rv_Name rs) \<Longrightarrow> foldl (\<lambda>out r. upsert (rv_Name r) (f r) out) [] rs = map (\<lambda>r. (rv_Name r, f r)) rs"
  using foldl_upsert_distinct [of rv_Name rs "[]" f] by simp

definition release_versions :: "'v semver \<Rightarrow> string list \<Rightarrow> 'v list" where
  "release_versions sv tags = sort_slice (\<lambda>a b. sv_lt sv b a) (fst (foldl (stable_step sv) ([], []) tags))"

lemma release_versions_facts:
  assumes "semver_laws sv"
  shows "sorted_stable_descending sv tags = map (sv_original sv) (release_versions sv tags)"
    and "sorted_wrt (\<lambda>a b. \<not> sv_lt sv a b) (release_versions sv tags)"
    and "distinct (map (sv_string sv) (release_versions sv tags))"
    and "v \<in> set (release_versions sv tags) \<Longrightarrow> release_tag sv tags (sv_original sv v) v"
    and "release_tag sv tags t v \<Longrightarrow> sv_string sv v \<in> sv_string sv ` set (release_versions sv tags)"
proof -
  obtain vs seen where st: "(vs, seen) = foldl (stable_step sv) ([], []) tags" by (metis surj_pair)
  have vs: "release_versions sv tags = sort_slice (\<lambda>a b. sv_lt sv b a) vs" by (simp add: release_versions_def st [symmetric])
  note facts = stable_fold [OF st]
  show "sorted_stable_descending sv tags = map (sv_original sv) (release_versions sv tags)"
    by (simp add: sorted_stable_descending_def release_versions_def)
  show "sorted_wrt (\<lambda>a b. \<not> sv_lt sv a b) (release_versions sv tags)"
    unfolding vs using slice_order.sort_sorted assms unfolding semver_laws_def by blast
  have "mset (map (sv_string sv) (release_versions sv tags)) = mset (map (sv_string sv) vs)"
    by (simp add: vs)
  with facts show "distinct (map (sv_string sv) (release_versions sv tags))" by (metis mset_eq_imp_distinct_iff)
  show "v \<in> set (release_versions sv tags) \<Longrightarrow> release_tag sv tags (sv_original sv v) v"
    using facts assms unfolding vs semver_laws_def by (auto simp: release_tag_def)
  show "release_tag sv tags t v \<Longrightarrow> sv_string sv v \<in> sv_string sv ` set (release_versions sv tags)"
    using facts unfolding vs set_sort_slice by (metis list.set_map)
qed

lemma sorted_wrt_take_drop:
  "sorted_wrt P xs \<Longrightarrow> x \<in> set (take n xs) \<Longrightarrow> y \<in> set (drop n xs) \<Longrightarrow> P x y"
  by (metis append_take_drop_id sorted_wrt_append)

text \<open>Property C36:
  The nightly matrix of a reservation has at most the requested number of release cells, after the cell of the
  tip when it is asked for. Every release cell is a release among the tags, none twice, the newest first, and a
  release that got no cell is not newer than one that did; fewer cells than requested mean that
  every release has one.\<close>

theorem schedule_bounds:
  assumes laws: "semver_laws sv" and names: "distinct (map rv_Name rs)" and r: "r \<in> set rs"
    and cells: "map_of (expand_schedule sv rs tags includeMain n) (rv_Name r) = Some cells"
  defines "releases \<equiv> filter (\<lambda>c. \<not> ce_IsMain c) cells"
  shows "cells = (if includeMain
        then \<lparr> ce_Reservation = rv_Name r, ce_AICRVersion = [], ce_IsMain = True, ce_Intents = nightly_intents_or_default r \<rparr> # releases
        else releases) \<and>
    int (length releases) \<le> max 0 n \<and>
    (\<exists>vs. map ce_AICRVersion releases = map (sv_original sv) vs \<and> distinct (map (sv_string sv) vs) \<and>
       sorted_wrt (\<lambda>a b. \<not> sv_lt sv a b) vs \<and> (\<forall>v \<in> set vs. release_tag sv tags (sv_original sv v) v) \<and>
       (\<forall>t v. release_tag sv tags t v \<longrightarrow> sv_string sv v \<in> sv_string sv ` set vs \<or>
          int (length releases) = max 0 n \<and> (\<exists>w. sv_string sv w = sv_string sv v \<and> (\<forall>u \<in> set vs. \<not> sv_lt sv u w))))"
proof -
  note facts = release_versions_facts [OF laws]
  let ?all = "release_versions sv tags"
  define vs where "vs = (if max 0 n < int (length ?all) then take (nat (max 0 n)) ?all else ?all)"
  have stable: "(if (if n < 0 then 0 else n) < int (length (sorted_stable_descending sv tags))
        then take (nat (if n < 0 then 0 else n)) (sorted_stable_descending sv tags) else sorted_stable_descending sv tags) =
      map (sv_original sv) vs"
    unfolding facts(1) vs_def by (auto simp: take_map max_def)
  have "map_of (expand_schedule sv rs tags includeMain n) (rv_Name r) = Some (schedule_cells sv (map (sv_original sv) vs) includeMain r)"
    unfolding expand_schedule_def Let_def stable schedule_of [OF names]
    by (rule map_of_is_SomeI) (use names r in \<open>simp_all add: comp_def\<close>)
  with cells have c: "cells = schedule_cells sv (map (sv_original sv) vs) includeMain r" by simp
  then have rel: "releases = map (\<lambda>tag. \<lparr> ce_Reservation = rv_Name r, ce_AICRVersion = tag, ce_IsMain = False,
      ce_Intents = eligible_nightly_intents sv r tag False \<rparr>) (map (sv_original sv) vs)"
    by (simp add: releases_def schedule_cells_def filter_map comp_def)
  have main: "cells = (if includeMain
        then \<lparr> ce_Reservation = rv_Name r, ce_AICRVersion = [], ce_IsMain = True, ce_Intents = nightly_intents_or_default r \<rparr> # releases
        else releases)"
    unfolding rel unfolding c by (simp add: schedule_cells_def eligible_nightly_intents_def)
  have prefix: "\<exists>k. vs = take k ?all" unfolding vs_def by (metis order_refl take_all)
  have "length (take (nat (max 0 n)) ?all) \<le> nat (max 0 n)" by simp
  then have len: "int (length vs) \<le> max 0 n" unfolding vs_def by (auto simp del: length_take)
  have sorted: "sorted_wrt (\<lambda>a b. \<not> sv_lt sv a b) vs" "distinct (map (sv_string sv) vs)"
    using prefix facts(2,3) by (auto simp: sorted_wrt_take take_map [symmetric])
  have tags: "\<forall>v \<in> set vs. release_tag sv tags (sv_original sv v) v"
    using prefix facts(4) by (auto dest: in_set_takeD)
  have rest: "sv_string sv v \<in> sv_string sv ` set vs \<or>
      int (length releases) = max 0 n \<and> (\<exists>w. sv_string sv w = sv_string sv v \<and> (\<forall>u \<in> set vs. \<not> sv_lt sv u w))"
    if t: "release_tag sv tags t v" for t v
  proof -
    from facts(5) [OF t] obtain w where w: "w \<in> set ?all" "sv_string sv w = sv_string sv v" by (metis imageE)
    show ?thesis
    proof (cases "w \<in> set vs")
      case True
      with w(2) show ?thesis by (metis imageI)
    next
      case False
      with w(1) have cut: "max 0 n < int (length ?all)" "vs = take (nat (max 0 n)) ?all" by (auto simp: vs_def split: if_splits)
      with False w(1) have "w \<in> set (drop (nat (max 0 n)) ?all)" by (metis Un_iff append_take_drop_id set_append)
      with sorted_wrt_take_drop [OF facts(2)] have "\<forall>u \<in> set vs. \<not> sv_lt sv u w" unfolding cut(2) by blast
      moreover have "nat (max 0 n) \<le> length ?all" using cut(1) unfolding nat_le_iff by linarith
      then have "int (length releases) = max 0 n" by (simp add: rel cut(2) min_absorb2)
      ultimately show ?thesis using w(2) by blast
    qed
  qed
  have "map ce_AICRVersion releases = map (sv_original sv) vs" by (simp add: rel comp_def)
  moreover have "int (length releases) \<le> max 0 n" using len by (simp add: rel)
  ultimately show ?thesis using main sorted tags rest by blast
qed

lemma eligible_iff:
  assumes "sv_parse sv tag = Some v"
  shows "intent \<in> set (eligible_nightly_intents sv r tag False) \<longleftrightarrow>
    intent \<in> set (nightly_intents_or_default r) \<and>
    (\<forall>m w. map_of (rv_MinVersions r) intent = Some m \<and> sv_parse sv m = Some w \<longrightarrow> \<not> sv_lt sv v w)"
  using assms by (auto simp: eligible_nightly_intents_def Let_def split: option.splits)

text \<open>A release runs an intent exactly when the reservation lists it and no gate asks for a newer
  version, so a version that is at least as new as one that runs it runs it too, and the tip
  runs every listed intent.\<close>

theorem gates_upward_closed:
  assumes laws: "semver_laws sv" and old: "sv_parse sv old_tag = Some v" and new: "sv_parse sv new_tag = Some w" and le: "\<not> sv_lt sv w v"
    and runs: "intent \<in> set (eligible_nightly_intents sv r old_tag False)"
  shows "intent \<in> set (eligible_nightly_intents sv r new_tag False) \<and> intent \<in> set (eligible_nightly_intents sv r any_tag True)"
proof -
  have "\<not> sv_lt sv w m" if "\<not> sv_lt sv v m" for m
    using laws le that unfolding semver_laws_def slice_order_def by blast
  with runs show ?thesis
    unfolding eligible_iff [OF old] eligible_iff [OF new] by (auto simp: eligible_nightly_intents_def)
qed

definition example_semver :: "string semver" where
  "example_semver = \<lparr> sv_parse = (\<lambda>s. if s = [] then None else Some s), sv_prerelease = (\<lambda>_. []), sv_string = (\<lambda>v. v),
     sv_lt = (<), sv_original = (\<lambda>v. v) \<rparr>"

definition example_reservation :: reservation where
  "example_reservation = \<lparr> rv_Name = ''aws-h100'', rv_Slug = ''ah1'', rv_Cloud = ''aws'', rv_ReservationID = [], rv_Accelerator = ''h100'',
     rv_GPUCount = 8, rv_ClusterConfigPath = ''c'', rv_TestConfigDir = ''t'', rv_NightlyIntents = None,
     rv_MinVersions = [(''training'', ''v2'')], rv_DaytimeIntent = ''training'' \<rparr>"

lemma example_laws: "semver_laws example_semver"
  unfolding semver_laws_def by (auto simp: example_semver_def slice_order_def split: if_splits)

theorem schedule_bounds_witness:
  "map ce_AICRVersion (filter (\<lambda>c. \<not> ce_IsMain c)
     (the (map_of (expand_schedule example_semver [example_reservation] [''v1'', '' v3'', ''v2'', ''v3''] True 2) ''aws-h100''))) = [''v3'', ''v2''] \<and>
   int (length (filter (\<lambda>c. \<not> ce_IsMain c)
     (the (map_of (expand_schedule example_semver [example_reservation] [''v1'', '' v3'', ''v2'', ''v3''] True 2) ''aws-h100'')))) \<le> max 0 2"
proof -
  let ?s = "expand_schedule example_semver [example_reservation] [''v1'', '' v3'', ''v2'', ''v3''] True 2"
  have v: "map_option (\<lambda>cells. map ce_AICRVersion (filter (\<lambda>c. \<not> ce_IsMain c) cells)) (map_of ?s ''aws-h100'') = Some [''v3'', ''v2'']"
    by code_simp
  then obtain cells where cells: "map_of ?s ''aws-h100'' = Some cells" "map ce_AICRVersion (filter (\<lambda>c. \<not> ce_IsMain c) cells) = [''v3'', ''v2'']"
    by auto
  have "map_of ?s (rv_Name example_reservation) = Some cells" using cells(1) by (simp add: example_reservation_def)
  from schedule_bounds [OF example_laws _ _ this] cells show ?thesis by simp
qed

theorem gates_upward_closed_witness:
  "''training'' \<in> set (eligible_nightly_intents example_semver example_reservation ''v3'' False) \<and>
   ''training'' \<in> set (eligible_nightly_intents example_semver example_reservation [] True)"
proof (rule gates_upward_closed [OF example_laws])
  show "sv_parse example_semver ''v2'' = Some ''v2''" "sv_parse example_semver ''v3'' = Some ''v3''" "\<not> sv_lt example_semver ''v3'' ''v2''"
    "''training'' \<in> set (eligible_nightly_intents example_semver example_reservation ''v2'' False)" by code_simp+
qed

end
