(* ===== verification/Evidence_Inventory.thy ===== *)
theory Evidence_Inventory
  imports Aicr_Errors
begin

section \<open>The files of an evidence bundle (pkg/evidence/verifier/inventory.go)\<close>

text \<open>
  A bundle is a directory. Its predicate has the digest of the manifest, the manifest the digest of every file, and the
  inventory check follows the chain. A file system answers for paths relative to the bundle directory; the answers to
  the \<open>k\<close>-th entry of the manifest may differ from those to the next, since the directory belongs to the caller. Parameters:
  \<open>sha256\<close> (the lowercase hexadecimal digest of bytes), the JSON decoder of the manifest, the reads of package \<open>boundedio\<close>
  with their errors, and what \<open>ctx.Err()\<close> answers: \<open>ctx k\<close> before entry \<open>k\<close> and \<open>late k\<close> after a failure at it.
\<close>

record manifest_file =
  mf_Path :: string
  mf_Size :: int
  mf_SHA256 :: string

record manifest =
  mn_SchemaVersion :: string
  mn_Files :: "manifest_file list"

definition ManifestFilename :: string where "ManifestFilename = ''manifest.json''"
definition AttestationFilename :: string where "AttestationFilename = ''attestation.intoto.jsonl''"
definition StatementFilename :: string where "StatementFilename = ''statement.intoto.json''"
definition RecipeFilename :: string where "RecipeFilename = ''recipe.yaml''"

lemmas bundle_file_names = ManifestFilename_def AttestationFilename_def StatementFilename_def RecipeFilename_def

datatype stat_answer = StatBoundary go_error | StatMissing go_error | StatFault go_error | StatInfo bool int

datatype walk_answer = WalkBoundary go_error | WalkFailed go_error | WalkEntries "(string \<times> bool) list"

text \<open>\<open>bf_Read k p\<close> is the bounded read of the path, \<open>bf_Stat\<close> and \<open>bf_Hash\<close> what \<open>os.Stat\<close> and the streaming digest
  say of it, and \<open>bf_Walk\<close> the entries of \<open>filepath.WalkDir\<close>, each with the answer of
  \<open>d.IsDir()\<close>, or the error of the boundary or of the walk.\<close>

record bundle_fs =
  bf_ReadManifest :: "string res"
  bf_Read :: "nat \<Rightarrow> string \<Rightarrow> string res"
  bf_Stat :: "nat \<Rightarrow> string \<Rightarrow> stat_answer"
  bf_Hash :: "nat \<Rightarrow> string \<Rightarrow> string res"
  bf_Walk :: walk_answer

text \<open>A row of the report: the key, and a text or the error whose text is printed.\<close>

datatype row_value = RowText string "string list" | RowError go_error

type_synonym report_row = "string \<times> row_value"

subsection \<open>Errors that are no verdict\<close>

definition is_canceled :: "go_error \<Rightarrow> bool" where
  "is_canceled e \<longleftrightarrow> err_is ErrCodeCanceled e"

definition abort_error :: "go_error \<Rightarrow> string \<Rightarrow> go_error" where
  "abort_error cause what =
     (if err_chain_has CtxCanceled cause then err_wrap ErrCodeCanceled (what @ '' canceled'') [] cause
      else err_wrap ErrCodeUnavailable (what @ '' timed out'') [] cause)"

definition is_inventory_abort_error :: "go_error \<Rightarrow> bool" where
  "is_inventory_abort_error e \<longleftrightarrow> err_is ErrCodeTimeout e \<or> err_is ErrCodeUnavailable e \<or> is_canceled e"

definition normalize_inventory_hash_error :: "go_error option \<Rightarrow> go_error \<Rightarrow> go_error" where
  "normalize_inventory_hash_error late e = (case late of Some c \<Rightarrow> abort_error c ''inventory check'' | None \<Rightarrow> e)"

subsection \<open>One file\<close>

definition not_local :: "string \<Rightarrow> 'a res" where
  "not_local rel = invalid ''manifest entry %s is not a local path (rejecting potential traversal)'' [rel]"

definition hash_file :: "bundle_fs \<Rightarrow> nat \<Rightarrow> string \<Rightarrow> int \<Rightarrow> string res" where
  "hash_file fs k rel expected =
     (if \<not> filepath_is_local rel then not_local rel
      else (case bf_Stat fs k rel of
              StatBoundary e \<Rightarrow> Inl e
            | StatFault e \<Rightarrow> Inl (err_wrap ErrCodeUnavailable ''could not read bundle file (storage fault): %s'' [rel] e)
            | StatMissing e \<Rightarrow> Inl (err_wrap ErrCodeNotFound ''file missing from bundle: %s'' [rel] e)
            | StatInfo is_dir n \<Rightarrow>
                if is_dir then invalid ''manifest entry %s is a directory'' [rel]
                else if expected > 0 \<and> n \<noteq> expected then
                  invalid ''size mismatch for %s (got %s, want %s)'' [rel, show_int n, show_int expected]
                else (case bf_Hash fs k rel of
                        Inl e \<Rightarrow> Inl (propagate_or_wrap ErrCodeInternal (''failed to hash bundle file: '' @ rel) e)
                      | Inr got \<Rightarrow> Inr got)))"

definition hash_and_capture_file ::
  "(string \<Rightarrow> string) \<Rightarrow> bundle_fs \<Rightarrow> nat \<Rightarrow> string \<Rightarrow> int \<Rightarrow> (string \<times> string) res" where
  "hash_and_capture_file sha256 fs k rel expected =
     (if \<not> filepath_is_local rel then not_local rel
      else (case bf_Read fs k rel of
              Inl e \<Rightarrow> Inl e
            | Inr data \<Rightarrow>
                if expected > 0 \<and> int (length data) \<noteq> expected then
                  invalid ''size mismatch for %s (got %s, want %s)'' [rel, show_int (int (length data)), show_int expected]
                else Inr (data, sha256 data)))"

text \<open>The step of the loop for one entry: the recipe is captured by the read that is hashed, any other file is hashed in
  place.\<close>

definition hash_entry :: "(string \<Rightarrow> string) \<Rightarrow> bundle_fs \<Rightarrow> nat \<Rightarrow> manifest_file \<Rightarrow> (string option \<times> string) res" where
  "hash_entry sha256 fs k e =
     (if mf_Path e = RecipeFilename
      then res_bind (hash_and_capture_file sha256 fs k (mf_Path e) (mf_Size e)) (\<lambda>(data, got). Inr (Some data, got))
      else res_bind (hash_file fs k (mf_Path e) (mf_Size e)) (\<lambda>got. Inr (None, got)))"

fun check_files ::
  "(string \<Rightarrow> string) \<Rightarrow> (nat \<Rightarrow> go_error option) \<Rightarrow> (nat \<Rightarrow> go_error option) \<Rightarrow> bundle_fs \<Rightarrow>
   nat \<Rightarrow> manifest_file list \<Rightarrow> string option \<Rightarrow> report_row list \<Rightarrow> (report_row list \<times> go_error) + (string option \<times> report_row list)" where
  "check_files sha256 ctx late fs k [] recipe rows = Inr (recipe, rows)"
| "check_files sha256 ctx late fs k (e # es) recipe rows =
     (case ctx k of
        Some c \<Rightarrow> Inl (rows, abort_error c ''inventory check'')
      | None \<Rightarrow>
          (case hash_entry sha256 fs k e of
             Inl err \<Rightarrow>
               (let err' = normalize_inventory_hash_error (late k) err in
                if is_inventory_abort_error err' then Inl (rows, err')
                else check_files sha256 ctx late fs (Suc k) es recipe (rows @ [(mf_Path e, RowError err')]))
           | Inr (captured, got) \<Rightarrow>
               (let want = trim_prefix (mf_SHA256 e) ''sha256:'' in
                if got \<noteq> want then
                  check_files sha256 ctx late fs (Suc k) es recipe
                    (rows @ [(mf_Path e, RowText ''sha256 mismatch (got %s, want %s)'' [got, want])])
                else check_files sha256 ctx late fs (Suc k) es (if captured \<noteq> None then captured else recipe) rows)))"

definition is_exempt :: "string \<Rightarrow> bool" where
  "is_exempt rel \<longleftrightarrow> rel \<in> {ManifestFilename, AttestationFilename, StatementFilename}"

definition find_extras :: "bundle_fs \<Rightarrow> manifest_file list \<Rightarrow> string list res" where
  "find_extras fs files =
     (case bf_Walk fs of
        WalkBoundary e \<Rightarrow> Inl e
      | WalkFailed e \<Rightarrow>
          (if err_chain_has CtxCanceled e \<or> err_chain_has CtxDeadlineExceeded e then Inl (abort_error e ''bundle walk'')
           else Inl (err_wrap ErrCodeInternal ''failed to walk bundle dir'' [] e))
      | WalkEntries entries \<Rightarrow>
          Inr (map fst (filter (\<lambda>(rel, is_dir). \<not> is_dir \<and> rel \<notin> mf_Path ` set files \<and> \<not> is_exempt rel) entries)))"

definition is_supported_manifest_schema :: "string \<Rightarrow> bool" where
  "is_supported_manifest_schema v \<longleftrightarrow> has_prefix v ''1.0.'' \<or> v = ''1.0''"

definition unsigned_rows :: "string list \<Rightarrow> report_row list" where
  "unsigned_rows extras = map (\<lambda>p. (p, RowText ''file not in manifest.json (unsigned)'' [])) extras"

text \<open>\<open>checkInventoryCaptureRecipe\<close> on a materialized bundle: the rows with an error, or the captured recipe.\<close>

definition check_inventory_capture_recipe ::
  "(string \<Rightarrow> string) \<Rightarrow> (string \<Rightarrow> manifest res) \<Rightarrow> (nat \<Rightarrow> go_error option) \<Rightarrow> (nat \<Rightarrow> go_error option) \<Rightarrow>
   bundle_fs \<Rightarrow> string \<Rightarrow> (report_row list \<times> go_error) + string option" where
  "check_inventory_capture_recipe sha256 parse ctx late fs expected =
     (if expected = [] then
        Inl ([], err_new ErrCodeInvalidRequest ''expected manifest digest is required (from predicate.manifest.digest)'' [])
      else (case bf_ReadManifest fs of
        Inl e \<Rightarrow> Inl ([], e)
      | Inr body \<Rightarrow>
          (let got = ''sha256:'' @ sha256 body in
           if got \<noteq> expected then
             Inl ([(ManifestFilename, RowText ''sha256 mismatch (got %s, want %s)'' [got, expected])],
                  err_new ErrCodeInvalidRequest ''manifest.json digest does not match predicate.manifest.digest'' [])
           else (case parse body of
             Inl e \<Rightarrow> Inl ([], err_wrap ErrCodeInvalidRequest ''manifest.json is not valid JSON'' [] e)
           | Inr m \<Rightarrow>
               (if \<not> is_supported_manifest_schema (mn_SchemaVersion m) then
                  Inl ([], err_new ErrCodeInvalidRequest ''unsupported manifest schemaVersion %s (verifier supports 1.0.x)''
                             [mn_SchemaVersion m])
                else if mn_Files m = [] then Inl ([], err_new ErrCodeInvalidRequest ''manifest.json has no files'' [])
                else (case check_files sha256 ctx late fs 0 (mn_Files m) None [] of
                  Inl abort \<Rightarrow> Inl abort
                | Inr (recipe, rows) \<Rightarrow>
                    (case find_extras fs (mn_Files m) of
                       Inl e \<Rightarrow>
                         (if is_inventory_abort_error e then Inl (rows, e)
                          else (let rows' = rows @ [(''walk'', RowError e)] in
                                Inl (rows', err_new ErrCodeInvalidRequest ''manifest inventory check failed for %s file(s)''
                                              [show_nat (length rows')])))
                     | Inr extras \<Rightarrow>
                         (let rows' = rows @ unsigned_rows extras in
                          if length rows' > 0 then
                            Inl (rows', err_new ErrCodeInvalidRequest ''manifest inventory check failed for %s file(s)''
                                          [show_nat (length rows')])
                          else Inr recipe))))))))"

definition check_inventory ::
  "(string \<Rightarrow> string) \<Rightarrow> (string \<Rightarrow> manifest res) \<Rightarrow> (nat \<Rightarrow> go_error option) \<Rightarrow> (nat \<Rightarrow> go_error option) \<Rightarrow>
   bundle_fs \<Rightarrow> string \<Rightarrow> (report_row list \<times> go_error) + unit" where
  "check_inventory sha256 parse ctx late fs expected =
     (case check_inventory_capture_recipe sha256 parse ctx late fs expected of Inl e \<Rightarrow> Inl e | Inr _ \<Rightarrow> Inr ())"


subsection \<open>What a passed check means\<close>

definition entry_verified :: "(string \<Rightarrow> string) \<Rightarrow> bundle_fs \<Rightarrow> nat \<Rightarrow> manifest_file \<Rightarrow> bool" where
  "entry_verified sha256 fs k e \<longleftrightarrow>
     (\<exists>captured. hash_entry sha256 fs k e = Inr (captured, trim_prefix (mf_SHA256 e) ''sha256:''))"

lemma check_files_rows:
  "check_files sha256 ctx late fs k es recipe rows = Inr (recipe', rows') \<Longrightarrow> \<exists>more. rows' = rows @ more"
proof (induction es arbitrary: k recipe rows)
  case (Cons e es)
  then show ?case
    by (simp add: Let_def split: option.splits sum.splits prod.splits if_splits) (metis append_assoc)+
qed simp

text \<open>The loop ends without a row exactly when every entry is verified; it captures what it hashed.\<close>

lemma check_files_verified:
  assumes "check_files sha256 ctx late fs k es recipe [] = Inr (recipe', [])"
  shows "(\<forall>i < length es. ctx (k + i) = None \<and> entry_verified sha256 fs (k + i) (es ! i)) \<and>
    (if RecipeFilename \<in> mf_Path ` set es
     then \<exists>i < length es. \<exists>b. mf_Path (es ! i) = RecipeFilename \<and> recipe' = Some b \<and>
            bf_Read fs (k + i) RecipeFilename = Inr b \<and> sha256 b = trim_prefix (mf_SHA256 (es ! i)) ''sha256:''
     else recipe' = recipe)"
  using assms
proof (induction es arbitrary: k recipe)
  case (Cons e es)
  have no_row: "check_files sha256 ctx late fs (Suc k) es r [row] \<noteq> Inr (recipe', [])" for r row
    using check_files_rows [of sha256 ctx late fs "Suc k" es r "[row]"] by fastforce
  obtain captured where step: "ctx k = None" "hash_entry sha256 fs k e = Inr (captured, trim_prefix (mf_SHA256 e) ''sha256:'')"
      "check_files sha256 ctx late fs (Suc k) es (if captured \<noteq> None then captured else recipe) [] = Inr (recipe', [])"
    using Cons.prems no_row by (auto simp: Let_def split: option.splits sum.splits prod.splits if_splits)
  note IH = Cons.IH [OF step(3)]
  have each: "\<forall>i < length (e # es). ctx (k + i) = None \<and> entry_verified sha256 fs (k + i) ((e # es) ! i)"
    using IH step(1,2) by (auto simp: entry_verified_def nth_Cons split: nat.split)
  have here: "\<exists>b. captured = Some b \<and> bf_Read fs k RecipeFilename = Inr b \<and> sha256 b = trim_prefix (mf_SHA256 e) ''sha256:''"
    if "mf_Path e = RecipeFilename"
    using step(2) that
    by (auto simp: hash_entry_def hash_and_capture_file_def not_local_def res_simps split: if_splits sum.splits)
  have none: "captured = None" if "mf_Path e \<noteq> RecipeFilename"
    using step(2) that by (auto simp: hash_entry_def res_simps)
  show ?case
  proof (cases "RecipeFilename \<in> mf_Path ` set es")
    case True
    with IH obtain i b where "i < length es" "mf_Path (es ! i) = RecipeFilename" "recipe' = Some b"
      "bf_Read fs (Suc k + i) RecipeFilename = Inr b" "sha256 b = trim_prefix (mf_SHA256 (es ! i)) ''sha256:''" by auto
    then have "\<exists>i < length (e # es). \<exists>b. mf_Path ((e # es) ! i) = RecipeFilename \<and> recipe' = Some b \<and>
        bf_Read fs (k + i) RecipeFilename = Inr b \<and> sha256 b = trim_prefix (mf_SHA256 ((e # es) ! i)) ''sha256:''"
      by (intro exI [of _ "Suc i"]) simp
    with each True show ?thesis by simp
  next
    case False
    with IH have r: "recipe' = (if captured \<noteq> None then captured else recipe)" by simp
    show ?thesis
    proof (cases "mf_Path e = RecipeFilename")
      case True
      with here r obtain b where "recipe' = Some b" "bf_Read fs k RecipeFilename = Inr b"
        "sha256 b = trim_prefix (mf_SHA256 e) ''sha256:''" by auto
      then have "\<exists>i < length (e # es). \<exists>b. mf_Path ((e # es) ! i) = RecipeFilename \<and> recipe' = Some b \<and>
          bf_Read fs (k + i) RecipeFilename = Inr b \<and> sha256 b = trim_prefix (mf_SHA256 ((e # es) ! i)) ''sha256:''"
        using True by (intro exI [of _ 0]) simp
      with each True show ?thesis by simp
    next
      case False
      with each none r \<open>RecipeFilename \<notin> mf_Path ` set es\<close> show ?thesis by auto
    qed
  qed
qed simp

lemma inventory_passed:
  assumes "check_inventory_capture_recipe sha256 parse ctx late fs expected = Inr recipe"
  obtains body m where "bf_ReadManifest fs = Inr body" "expected = ''sha256:'' @ sha256 body" "parse body = Inr m"
    "check_files sha256 ctx late fs 0 (mn_Files m) None [] = Inr (recipe, [])" "find_extras fs (mn_Files m) = Inr []"
proof -
  obtain body where body: "bf_ReadManifest fs = Inr body" "''sha256:'' @ sha256 body = expected"
    using assms by (auto simp: check_inventory_capture_recipe_def Let_def split: if_splits sum.splits)
  obtain m where m: "parse body = Inr m"
    using assms body by (auto simp: check_inventory_capture_recipe_def Let_def split: if_splits sum.splits)
  obtain r rows where run: "check_files sha256 ctx late fs 0 (mn_Files m) None [] = Inr (r, rows)"
    using assms body m by (auto simp: check_inventory_capture_recipe_def Let_def split: if_splits sum.splits)
  obtain extras where ex: "find_extras fs (mn_Files m) = Inr extras"
    using assms body m run by (auto simp: check_inventory_capture_recipe_def Let_def split: if_splits sum.splits)
  have "rows = []" "extras = []" "r = recipe"
    using assms body m run ex
    by (auto simp: check_inventory_capture_recipe_def unsigned_rows_def Let_def split: if_splits)
  with that body m run ex show thesis by blast
qed

text \<open>A directory without symbolic links whose files do not change: what the answers say of the bytes that it holds.
  A walked path has no empty component, no \<open>.\<close> and no \<open>..\<close>.\<close>

definition walked_path :: "string \<Rightarrow> bool" where
  "walked_path p \<longleftrightarrow> list_all (\<lambda>c. c \<noteq> [] \<and> c \<noteq> ''.'' \<and> c \<noteq> ''..'') (split_on CHR ''/'' p)"

definition directory_of :: "(string \<Rightarrow> string) \<Rightarrow> (string \<times> string) list \<Rightarrow> bundle_fs \<Rightarrow> bool" where
  "directory_of sha256 dir fs \<longleftrightarrow>
     distinct (map fst dir) \<and> (\<forall>p \<in> fst ` set dir. walked_path p) \<and>
     (\<forall>b. bf_ReadManifest fs = Inr b \<longrightarrow> map_of dir ManifestFilename = Some b) \<and>
     (\<forall>k p b. walked_path p \<longrightarrow> bf_Read fs k p = Inr b \<longrightarrow> map_of dir p = Some b) \<and>
     (\<forall>k p h. walked_path p \<longrightarrow> bf_Hash fs k p = Inr h \<longrightarrow> (\<exists>b. map_of dir p = Some b \<and> h = sha256 b)) \<and>
     (\<forall>entries. bf_Walk fs = WalkEntries entries \<longrightarrow> (\<lambda>p. (p, False)) ` fst ` set dir \<subseteq> set entries)"

lemma directory_ofD:
  assumes "directory_of sha256 dir fs"
  shows "bf_ReadManifest fs = Inr b \<Longrightarrow> map_of dir ManifestFilename = Some b"
    and "walked_path p \<Longrightarrow> bf_Read fs k p = Inr b \<Longrightarrow> map_of dir p = Some b"
    and "walked_path p \<Longrightarrow> bf_Hash fs k p = Inr h \<Longrightarrow> \<exists>b. map_of dir p = Some b \<and> h = sha256 b"
    and "map_of dir p = Some b \<Longrightarrow> walked_path p"
    and "bf_Walk fs = WalkEntries entries \<Longrightarrow> map_of dir p = Some b \<Longrightarrow> (p, False) \<in> set entries"
proof -
  note c = assms [unfolded directory_of_def, THEN conjunct2]
  note d = c [THEN conjunct1] c [THEN conjunct2, THEN conjunct1] c [THEN conjunct2, THEN conjunct2, THEN conjunct1]
    c [THEN conjunct2, THEN conjunct2, THEN conjunct2, THEN conjunct1]
    c [THEN conjunct2, THEN conjunct2, THEN conjunct2, THEN conjunct2]
  have in_dir: "map_of dir p = Some b \<Longrightarrow> p \<in> fst ` set dir" by (drule map_of_SomeD) force
  show "bf_ReadManifest fs = Inr b \<Longrightarrow> map_of dir ManifestFilename = Some b" using d(2) by simp
  show "walked_path p \<Longrightarrow> bf_Read fs k p = Inr b \<Longrightarrow> map_of dir p = Some b" using d(3) by simp
  show "walked_path p \<Longrightarrow> bf_Hash fs k p = Inr h \<Longrightarrow> \<exists>b. map_of dir p = Some b \<and> h = sha256 b" using d(4) by simp
  show "map_of dir p = Some b \<Longrightarrow> walked_path p" using d(1) in_dir by blast
  assume w: "bf_Walk fs = WalkEntries entries" and p: "map_of dir p = Some b"
  from d(5) w have "(\<lambda>p. (p, False)) ` fst ` set dir \<subseteq> set entries" by simp
  with in_dir [OF p] show "(p, False) \<in> set entries" by blast
qed

lemma verified_content:
  assumes "directory_of sha256 dir fs" "walked_path (mf_Path e)" "entry_verified sha256 fs k e"
  shows "\<exists>b. map_of dir (mf_Path e) = Some b \<and> sha256 b = trim_prefix (mf_SHA256 e) ''sha256:''"
proof -
  obtain captured where h: "hash_entry sha256 fs k e = Inr (captured, trim_prefix (mf_SHA256 e) ''sha256:'')"
    using assms(3) by (auto simp: entry_verified_def)
  show ?thesis
  proof (cases "mf_Path e = RecipeFilename")
    case True
    with h obtain b where "bf_Read fs k (mf_Path e) = Inr b" "sha256 b = trim_prefix (mf_SHA256 e) ''sha256:''"
      by (auto simp: hash_entry_def hash_and_capture_file_def not_local_def res_simps split: if_splits sum.splits)
    then show ?thesis using directory_ofD(2) [OF assms(1,2)] by blast
  next
    case False
    with h have "bf_Hash fs k (mf_Path e) = Inr (trim_prefix (mf_SHA256 e) ''sha256:'')"
      by (auto simp: hash_entry_def hash_file_def not_local_def res_simps split: if_splits sum.splits stat_answer.splits)
    then show ?thesis using directory_ofD(3) [OF assms(1,2)] by metis
  qed
qed

lemma listed_file:
  assumes "directory_of sha256 dir fs" "find_extras fs files = Inr []" "map_of dir p = Some b" "\<not> is_exempt p"
  shows "p \<in> mf_Path ` set files \<and> walked_path p"
proof -
  obtain entries where w: "bf_Walk fs = WalkEntries entries"
    using assms(2) by (auto simp: find_extras_def split: walk_answer.splits if_splits)
  have "(p, False) \<in> set entries" "walked_path p"
    using directory_ofD(5) [OF assms(1) w assms(3)] directory_ofD(4) [OF assms(1,3)] .
  with assms(2,4) w show ?thesis by (fastforce simp: find_extras_def filter_empty_conv)
qed

text \<open>Property C40: the inventory check makes a bundle tamper-evident. Take two bundle directories that pass for the manifest
  digest of the same predicate, and a digest that separates the bytes in them. Then they hold the same files with the
  same bytes, but for the manifest itself (which is the same too) and the two statement files: nothing can be changed,
  removed or added. And the recipe that the check hands on is the one in the directory.\<close>

theorem inventory_tamper_evident:
  assumes passed: "check_inventory_capture_recipe sha256 parse ctx late fs expected = Inr recipe"
    and passed': "check_inventory_capture_recipe sha256 parse ctx' late' fs' expected = Inr recipe'"
    and dir: "directory_of sha256 dir fs" and dir': "directory_of sha256 dir' fs'"
    and separates: "inj_on sha256 (snd ` set dir \<union> snd ` set dir')"
  shows "map_of dir ManifestFilename = map_of dir' ManifestFilename \<and>
    (\<forall>p. \<not> is_exempt p \<longrightarrow> map_of dir p = map_of dir' p) \<and>
    recipe = map_of dir RecipeFilename \<and> recipe' = recipe"
proof -
  obtain body m where b: "bf_ReadManifest fs = Inr body" "expected = ''sha256:'' @ sha256 body" "parse body = Inr m"
      "check_files sha256 ctx late fs 0 (mn_Files m) None [] = Inr (recipe, [])" "find_extras fs (mn_Files m) = Inr []"
    using passed by (rule inventory_passed)
  obtain body' m' where b': "bf_ReadManifest fs' = Inr body'" "expected = ''sha256:'' @ sha256 body'" "parse body' = Inr m'"
      "check_files sha256 ctx' late' fs' 0 (mn_Files m') None [] = Inr (recipe', [])" "find_extras fs' (mn_Files m') = Inr []"
    using passed' by (rule inventory_passed)
  have man: "map_of dir ManifestFilename = Some body" "map_of dir' ManifestFilename = Some body'"
    using directory_ofD(1) [OF dir b(1)] directory_ofD(1) [OF dir' b'(1)] .
  have inj: "x = y" if "map_of dir p = Some x \<or> map_of dir' p = Some x" "map_of dir q = Some y \<or> map_of dir' q = Some y"
      "sha256 x = sha256 y" for p q x y
  proof -
    have "z \<in> snd ` set dir \<union> snd ` set dir'" if "map_of dir r = Some z \<or> map_of dir' r = Some z" for r z
      using that map_of_SomeD by force
    with that separates show ?thesis by (meson inj_onD)
  qed
  have "sha256 body = sha256 body'" using b(2) b'(2) by simp
  then have "body = body'" using inj man by blast
  then have m: "m' = m" using b(3) b'(3) by simp
  have each: "entry_verified sha256 fs i (mn_Files m ! i)" "entry_verified sha256 fs' i (mn_Files m ! i)"
    if "i < length (mn_Files m)" for i
    using check_files_verified [OF b(4)] check_files_verified [OF b'(4)] that by (simp_all add: m)
  have same: "map_of dir p = map_of dir' p" if p: "walked_path p" "p \<in> mf_Path ` set (mn_Files m)" for p
  proof -
    obtain i where i: "i < length (mn_Files m)" "mf_Path (mn_Files m ! i) = p" using p(2) by (auto simp: in_set_conv_nth)
    obtain x y where "map_of dir p = Some x" "map_of dir' p = Some y" "sha256 x = sha256 y"
      using verified_content [OF dir _ each(1) [OF i(1)]] verified_content [OF dir' _ each(2) [OF i(1)]] i(2) p(1) by auto
    then show ?thesis using inj by metis
  qed
  have all: "map_of dir p = map_of dir' p" if "\<not> is_exempt p" for p
  proof (cases "map_of dir p = None \<and> map_of dir' p = None")
    case False
    then have "walked_path p \<and> p \<in> mf_Path ` set (mn_Files m)"
      using listed_file [OF dir b(5), of p] listed_file [OF dir' b'(5), of p] that by (auto simp: m)
    then show ?thesis using same by blast
  qed simp
  have wp: "walked_path RecipeFilename" "\<not> is_exempt RecipeFilename" by code_simp+
  have cap: "r = map_of d RecipeFilename"
    if "check_files sha256 c l f 0 (mn_Files m) None [] = Inr (r, [])" "find_extras f (mn_Files m) = Inr []"
      "directory_of sha256 d f" for c l f r d
  proof (cases "RecipeFilename \<in> mf_Path ` set (mn_Files m)")
    case True
    with check_files_verified [OF that(1)] obtain k x where "r = Some x" "bf_Read f k RecipeFilename = Inr x" by auto
    with directory_ofD(2) [OF that(3) wp(1)] show ?thesis by metis
  next
    case False
    with check_files_verified [OF that(1)] have "r = None" by simp
    moreover have "map_of d RecipeFilename = None" using listed_file [OF that(3,2) _ wp(2)] False by fastforce
    ultimately show ?thesis by simp
  qed
  show ?thesis
    using man \<open>body = body'\<close> all cap [OF b(4,5) dir] cap [OF b'(4,5) [unfolded m] dir'] wp(2) by auto
qed

text \<open>The recipe that is handed on is the very read that was hashed against its entry, also while the directory changes
  under the check.\<close>

lemma captured_recipe_is_hashed:
  assumes "check_inventory_capture_recipe sha256 parse ctx late fs expected = Inr (Some b)"
  shows "\<exists>body m k. expected = ''sha256:'' @ sha256 body \<and> parse body = Inr m \<and> k < length (mn_Files m) \<and>
    mf_Path (mn_Files m ! k) = RecipeFilename \<and> bf_Read fs k RecipeFilename = Inr b \<and>
    sha256 b = trim_prefix (mf_SHA256 (mn_Files m ! k)) ''sha256:''"
proof -
  obtain body m where r: "expected = ''sha256:'' @ sha256 body" "parse body = Inr m"
      "check_files sha256 ctx late fs 0 (mn_Files m) None [] = Inr (Some b, [])"
    using assms by (rule inventory_passed)
  from check_files_verified [OF r(3)] r(1,2) show ?thesis by (fastforce split: if_splits)
qed

text \<open>A directory that answers from its list of files, and a bundle of three with its manifest. The digest is the identity.\<close>

definition served :: "(string \<Rightarrow> string) \<Rightarrow> (string \<times> string) list \<Rightarrow> bundle_fs" where
  "served sha256 dir =
     (let get = (\<lambda>p. case map_of dir p of Some b \<Rightarrow> Inr b | None \<Rightarrow> Inl (PlainError ''no such file''))
      in \<lparr>bf_ReadManifest = get ManifestFilename, bf_Read = (\<lambda>_. get),
          bf_Stat = (\<lambda>_ p. case map_of dir p of
             Some b \<Rightarrow> StatInfo False (int (length b)) | None \<Rightarrow> StatMissing (PlainError ''no such file'')),
          bf_Hash = (\<lambda>_ p. res_bind (get p) (\<lambda>b. Inr (sha256 b))),
          bf_Walk = WalkEntries (map (\<lambda>x. (fst x, False)) dir)\<rparr>)"

lemma served_directory:
  assumes "distinct (map fst dir)" "\<forall>p \<in> fst ` set dir. walked_path p"
  shows "directory_of sha256 dir (served sha256 dir)"
  using assms by (auto simp: directory_of_def served_def Let_def res_simps split: option.splits)

definition plain_digest :: "string \<Rightarrow> string" where
  "plain_digest s = s"

definition small_bundle :: "string \<Rightarrow> (string \<times> string) list" where
  "small_bundle report =
     [(''manifest.json'', ''M''), (''recipe.yaml'', ''kind: RecipeResult''), (''ctrf/deployment.json'', report)]"

definition small_manifest :: manifest where
  "small_manifest =
     \<lparr>mn_SchemaVersion = ''1.0.0'',
      mn_Files =
        [\<lparr>mf_Path = ''recipe.yaml'', mf_Size = 18, mf_SHA256 = ''sha256:kind: RecipeResult''\<rparr>,
         \<lparr>mf_Path = ''ctrf/deployment.json'', mf_Size = 0, mf_SHA256 = ''sha256:passed''\<rparr>]\<rparr>"

definition small_check :: "string \<Rightarrow> (report_row list \<times> go_error) + string option" where
  "small_check report =
     check_inventory_capture_recipe plain_digest (\<lambda>_. Inr small_manifest) (\<lambda>_. None) (\<lambda>_. None)
       (served plain_digest (small_bundle report)) ''sha256:M''"

theorem inventory_tamper_evident_witness:
  "small_check ''passed'' = Inr (Some ''kind: RecipeResult'') \<and> small_check ''forged'' \<noteq> Inr (Some ''kind: RecipeResult'')"
proof
  show ok: "small_check ''passed'' = Inr (Some ''kind: RecipeResult'')" by code_simp
  have dir: "directory_of plain_digest (small_bundle r) (served plain_digest (small_bundle r))" for r
  proof (rule served_directory)
    show "distinct (map fst (small_bundle r))" by (simp add: small_bundle_def)
    have "walked_path ''manifest.json''" "walked_path ''recipe.yaml''" "walked_path ''ctrf/deployment.json''" by code_simp+
    then show "\<forall>p \<in> fst ` set (small_bundle r). walked_path p" by (simp add: small_bundle_def)
  qed
  show "small_check ''forged'' \<noteq> Inr (Some ''kind: RecipeResult'')"
  proof
    assume forged: "small_check ''forged'' = Inr (Some ''kind: RecipeResult'')"
    have "inj_on plain_digest A" for A by (simp add: inj_on_def plain_digest_def)
    from inventory_tamper_evident [OF ok [unfolded small_check_def] forged [unfolded small_check_def] dir dir this]
    have same: "\<not> is_exempt p \<Longrightarrow> map_of (small_bundle ''passed'') p = map_of (small_bundle ''forged'') p" for p by blast
    have "\<not> is_exempt ''ctrf/deployment.json''" by code_simp
    from same [OF this] show False by (simp add: small_bundle_def)
  qed
qed

end
