(* ===== verification/Evidence_Verifier.thy ===== *)
theory Evidence_Verifier
  imports Evidence_Inventory Corroborate Profile_Lock
begin

section \<open>Verification of an evidence bundle (pkg/evidence/verifier)\<close>

text \<open>
  The pipeline of \<open>Verify\<close>: materialize the bundle, verify its signature, take the predicate, follow the hash chain and
  bind the identity of the recipe; every step records a row, and a failure sets the exit code with a classified
  cause. Parameters: the sigstore library, the OCI registry, the decoders of JSON and YAML with the canonical form of a
  recipe, the bounded reads, and what the context answers. The fields of a predicate are those that verification reads;
  the texts of rows are left out.
\<close>

subsection \<open>Claims\<close>

record pointer_signer =
  pg_Identity :: string
  pg_Issuer :: string
  pg_RekorLogIndex :: "int option"

record signer_claims =
  sc_Identity :: string
  sc_Issuer :: string
  sc_RekorLogIndex :: "int option"

record pointer =
  po_Recipe :: string
  po_Profile :: string
  po_Signers :: "pointer_signer option list"

record phase_summary =
  ph_Passed :: int
  ph_Failed :: int
  ph_Skipped :: int
  ph_CTRFDigest :: string

record profile_predicate =
  pp_Selection :: string
  pp_Advertiser :: string
  pp_PolicyDescriptorIdentity :: string

record evidence_predicate =
  pd_SchemaVersion :: string
  pd_RecipeName :: string
  pd_RecipeDigest :: string
  pd_Phases :: "(string \<times> phase_summary) list"
  pd_ManifestDigest :: string
  pd_Profile :: "profile_predicate option"

definition PredicateTypeV1 :: string where "PredicateTypeV1 = ''https://aicr.run/recipe-evidence/v1''"
definition PredicateTypeV2 :: string where "PredicateTypeV2 = ''https://aicr.run/recipe-evidence/v2''"

definition validate_predicate_type_coherence :: "string \<Rightarrow> evidence_predicate \<Rightarrow> unit res" where
  "validate_predicate_type_coherence ty pred =
     (if ty = PredicateTypeV1 then
        (if pd_Profile pred \<noteq> None then invalid ''predicateType %s cannot carry a profile block; profile-bearing evidence requires %s''
                                            [PredicateTypeV1, PredicateTypeV2]
         else Inr ())
      else if ty = PredicateTypeV2 then
        (case pd_Profile pred of
           None \<Rightarrow> invalid ''predicateType %s requires the predicate profile block'' [PredicateTypeV2]
         | Some p \<Rightarrow>
             if pp_Selection p = [] \<or> pp_PolicyDescriptorIdentity p = [] then
               invalid ''predicate profile block requires selection and policyDescriptorIdentity'' []
             else (case parse_profile_selection (pp_Selection p) of
                     Inl e \<Rightarrow> Inl (err_wrap ErrCodeInvalidRequest ''predicate profile block carries a malformed selection'' [] e)
                   | Inr _ \<Rightarrow> Inr ()))
      else invalid ''unexpected predicateType %s'' [ty])"

subsection \<open>Phase reports (inventory.go)\<close>

text \<open>The phases of a predicate are a Go map: the list is the order in which one run ranges over it.\<close>

definition all_phases :: "string list" where
  "all_phases = [''deployment'', ''performance'', ''conformance'']"

definition ctrf_rel_path :: "string \<Rightarrow> string" where
  "ctrf_rel_path p = ''ctrf/'' @ p @ ''.json''"

fun check_phases ::
  "(string \<Rightarrow> string) \<Rightarrow> (string \<Rightarrow> string res) \<Rightarrow> (string \<times> phase_summary) list \<Rightarrow> report_row list \<Rightarrow> (report_row list \<times> go_error) + report_row list" where
  "check_phases sha256 read_report [] rows = Inr rows"
| "check_phases sha256 read_report ((p, ps) # rest) rows =
     (if p \<notin> set all_phases then
        check_phases sha256 read_report rest (rows @ [(p, RowText ''predicate contains unknown phase'' [])])
      else if ph_CTRFDigest ps = [] then
        check_phases sha256 read_report rest (rows @ [(p, RowText ''predicate phase summary has no ctrfDigest'' [])])
      else (case read_report (ctrf_rel_path p) of
              Inl e \<Rightarrow>
                (if is_inventory_abort_error e then Inl (rows, e)
                 else check_phases sha256 read_report rest (rows @ [(ctrf_rel_path p, RowError e)]))
            | Inr body \<Rightarrow>
                (let got = ''sha256:'' @ sha256 body in
                 check_phases sha256 read_report rest
                   (if got \<noteq> ph_CTRFDigest ps
                    then rows @ [(ctrf_rel_path p, RowText ''ctrfDigest mismatch (got %s, want %s)'' [got, ph_CTRFDigest ps])]
                    else rows))))"

definition check_phase_digests ::
  "(string \<Rightarrow> string) \<Rightarrow> (string \<Rightarrow> string res) \<Rightarrow> evidence_predicate \<Rightarrow> (report_row list \<times> go_error) + unit" where
  "check_phase_digests sha256 read_report pred =
     (case check_phases sha256 read_report (pd_Phases pred) [] of
        Inl abort \<Rightarrow> Inl abort
      | Inr rows \<Rightarrow>
          if length rows > 0 then
            Inl (rows, err_new ErrCodeInvalidRequest ''phase report digest check failed for %s phase(s)'' [show_nat (length rows)])
          else Inr ())"

definition has_phase_failures :: "evidence_predicate option \<Rightarrow> bool" where
  "has_phase_failures pred =
     (case pred of None \<Rightarrow> False | Some p \<Rightarrow> list_ex (\<lambda>(_, ps). ph_Failed ps > 0) (pd_Phases p))"

subsection \<open>Identity of the recipe (identity.go, attestation/builder.go)\<close>

definition recipe_name_for :: "recipe_result \<Rightarrow> string" where
  "recipe_name_for r =
     (case rr_Criteria r of
        None \<Rightarrow> []
      | Some c \<Rightarrow>
          (let parts = filter (\<lambda>v. v \<noteq> [] \<and> v \<noteq> ''any'')
                 [c_Accelerator c, c_Service c, c_OS c, c_Intent c, c_Platform c];
               name = (if length parts > 0 then join_with ''-'' parts else ''recipe'')
           in case rmd_SelectedProfile (rr_Metadata r) of
                None \<Rightarrow> name
              | Some sp \<Rightarrow>
                  (case profile_segment (Some \<lparr>ps_Name = sp_Name sp, ps_Value = sp_Value sp\<rparr>) of
                     Inl _ \<Rightarrow> []
                   | Inr seg \<Rightarrow> name @ ''-'' @ seg)))"

definition selection_string :: "recipe_result \<Rightarrow> string" where
  "selection_string r =
     (case rmd_SelectedProfile (rr_Metadata r) of None \<Rightarrow> [] | Some sp \<Rightarrow> sp_Name sp @ ''='' @ sp_Value sp)"

definition check_predicate_profile_binding ::
  "(string \<Rightarrow> string) \<Rightarrow> recipe_result \<Rightarrow> evidence_predicate \<Rightarrow> string \<Rightarrow> unit res" where
  "check_predicate_profile_binding sha256 r pred want_sel =
     (case (rmd_SelectedProfile (rr_Metadata r), pd_Profile pred) of
        (None, None) \<Rightarrow> Inr ()
      | (None, Some p) \<Rightarrow> invalid ''predicate carries a profile block (%s) but the bundle recipe is unprofiled'' [pp_Selection p]
      | (Some sel, None) \<Rightarrow> invalid ''bundle recipe carries selectedProfile %s but the predicate has no profile block'' [want_sel]
      | (Some sel, Some p) \<Rightarrow>
          if pp_Selection p \<noteq> want_sel then
            invalid ''predicate profile selection %s does not match the bundle recipe's selection (%s)'' [pp_Selection p, want_sel]
          else if pp_Advertiser p \<noteq> sp_Advertiser sel then
            invalid ''predicate profile advertiser %q does not match the bundle recipe's advertiser %q'' [pp_Advertiser p, sp_Advertiser sel]
          else (let want = identity_for sha256 (closure_descriptor_entries r) in
                if pp_PolicyDescriptorIdentity p \<noteq> want then
                  invalid ''profiled evidence records policy-descriptor identity %s, which differs from the recipe-scoped identity (%s)''
                    [pp_PolicyDescriptorIdentity p, want]
                else Inr ()))"

text \<open>\<open>decode\<close> is \<open>recipe.DecodeRecipeResult\<close>, \<open>canon\<close> the canonical form of the YAML bytes.\<close>

definition check_recipe_identity ::
  "(string \<Rightarrow> string) \<Rightarrow> (string \<Rightarrow> recipe_result res) \<Rightarrow> (string \<Rightarrow> string res) \<Rightarrow>
   string option \<Rightarrow> pointer option \<Rightarrow> evidence_predicate \<Rightarrow> unit res" where
  "check_recipe_identity sha256 decode canon recipeYAML pointer pred =
     (case recipeYAML of
        None \<Rightarrow> invalid ''bundle manifest carries no verified recipe.yaml'' []
      | Some bytes \<Rightarrow>
          if length bytes = 0 then invalid ''bundle manifest carries no verified recipe.yaml'' []
          else
            res_bind (res_wrap (propagate_or_wrap ErrCodeInvalidRequest ''failed to decode bundle recipe.yaml for identity binding'')
                       (decode bytes)) (\<lambda>r.
              let want_name = recipe_name_for r; want_sel = selection_string r in
              if want_name \<noteq> [] \<and> pd_RecipeName pred \<noteq> want_name then
                invalid ''predicate recipe name %s does not match the name derived from the bundle recipe (%s)'' [pd_RecipeName pred, want_name]
              else
                res_bind (res_wrap (err_wrap ErrCodeInternal ''failed to digest bundle recipe'' []) (canon bytes)) (\<lambda>canonical.
                  if pd_RecipeDigest pred \<noteq> sha256 canonical then
                    invalid ''predicate recipe digest does not match the canonical digest of the bundle recipe'' []
                  else
                    res_bind (check_predicate_profile_binding sha256 r pred want_sel) (\<lambda>_.
                      case pointer of
                        None \<Rightarrow> Inr ()
                      | Some p \<Rightarrow>
                          if want_name \<noteq> [] \<and> po_Recipe p \<noteq> want_name then
                            invalid ''pointer.recipe %s does not match the name derived from the bundle recipe (%s)'' [po_Recipe p, want_name]
                          else if po_Profile p \<noteq> want_sel then
                            invalid ''pointer.profile %s does not match the bundle recipe's selection (%s)'' [po_Profile p, want_sel]
                          else Inr ()))))"

subsection \<open>Signature (signature.go)\<close>

datatype signature_stat =
    SigBoundary go_error | SigMissing | SigFault go_error | SigStatFailed go_error | SigSize int

text \<open>What the sigstore library and the decoders answer: the payload of the envelope in the bytes of the file, the statement
  in the payload (the digests of its subjects, its type, its predicate), the preparation and the verdict of the verifier
  (with the identity and issuer of the certificate, where there is one), and the indices of the log entries.\<close>

record sigstore =
  sg_Ctx :: "go_error option"
  sg_Stat :: signature_stat
  sg_Read :: "string res"
  sg_Payload :: "string \<Rightarrow> string res"
  sg_Statement :: "string \<Rightarrow> (string option list \<times> string \<times> evidence_predicate) res"
  sg_HexError :: "string \<Rightarrow> go_error option"
  sg_Prepare :: "unit res"
  sg_Verify :: "string \<Rightarrow> ((string \<times> string) option) res"
  sg_LogIndexes :: "int list"

definition MaxSigstoreBundleSize :: int where "MaxSigstoreBundleSize = 10485760"

definition ErrUnsignedBundle :: go_error where
  "ErrUnsignedBundle = err_new ErrCodeNotFound ''no signature attached (unsigned bundle)'' []"

definition parse_statement :: "sigstore \<Rightarrow> string \<Rightarrow> (string \<times> evidence_predicate) res" where
  "parse_statement sg payload =
     res_bind (res_wrap (err_wrap ErrCodeInvalidRequest ''DSSE payload is not a valid in-toto Statement'' []) (sg_Statement sg payload))
       (\<lambda>(subjects, ty, pred).
          case subjects of
            [] \<Rightarrow> invalid ''Statement has no subject'' []
          | digest # _ \<Rightarrow>
              (case digest of
                 None \<Rightarrow> invalid ''Statement subject has no sha256 digest'' []
               | Some hex \<Rightarrow>
                   if hex = [] then invalid ''Statement subject has no sha256 digest'' []
                   else res_bind (validate_predicate_type_coherence ty pred) (\<lambda>_. Inr (hex, pred))))"

definition rekor_log_index :: "int list \<Rightarrow> int" where
  "rekor_log_index entries = (case entries of [] \<Rightarrow> 0 | i # _ \<Rightarrow> i)"

definition verify_signature :: "sigstore \<Rightarrow> string \<Rightarrow> (signer_claims \<times> evidence_predicate) res" where
  "verify_signature sg mat_digest =
     (case sg_Ctx sg of
        Some e \<Rightarrow>
          (if err_chain_has CtxCanceled e then Inl (err_wrap ErrCodeCanceled ''canceled before signature verify'' [] e)
           else Inl (err_wrap ErrCodeTimeout ''timed out before signature verify'' [] e))
      | None \<Rightarrow>
      (case sg_Stat sg of
        SigBoundary e \<Rightarrow> Inl e
      | SigMissing \<Rightarrow> Inl ErrUnsignedBundle
      | SigFault e \<Rightarrow> Inl (err_wrap ErrCodeUnavailable ''could not read signature file (storage fault)'' [] e)
      | SigStatFailed e \<Rightarrow> Inl (err_wrap ErrCodeInternal ''failed to stat signature file'' [] e)
      | SigSize n \<Rightarrow>
          if n > MaxSigstoreBundleSize then invalid ''signature file exceeds maximum size - refusing to parse'' []
          else
            res_bind (sg_Read sg) (\<lambda>data.
            res_bind (sg_Payload sg data) (\<lambda>payload.
            res_bind (parse_statement sg payload) (\<lambda>(hex, pred).
              case sg_HexError sg hex of
                Some e \<Rightarrow> Inl (err_wrap ErrCodeInvalidRequest ''signed statement subject digest is not valid hex'' [] e)
              | None \<Rightarrow>
                  if mat_digest \<noteq> [] \<and> trim_prefix mat_digest ''sha256:'' \<noteq> hex then
                    invalid ''signed subject digest (%s) does not match pulled artifact digest (%s)''
                      [hex, trim_prefix mat_digest ''sha256:'']
                  else
                    res_bind (sg_Prepare sg) (\<lambda>_.
                      case sg_Verify sg hex of
                        Inl e \<Rightarrow> Inl (err_new ErrCodeUnauthorized ''sigstore verification failed'' [])
                      | Inr cert \<Rightarrow>
                          (let index = rekor_log_index (sg_LogIndexes sg) in
                           Inr (\<lparr>sc_Identity = (case cert of Some (i, _) \<Rightarrow> i | None \<Rightarrow> []),
                                 sc_Issuer = (case cert of Some (_, i) \<Rightarrow> i | None \<Rightarrow> []),
                                 sc_RekorLogIndex = (if index > 0 then Some index else None)\<rparr>, pred))))))))"

definition cross_check_pointer_signer :: "pointer_signer option \<Rightarrow> signer_claims option \<Rightarrow> unit res" where
  "cross_check_pointer_signer claimed actual =
     (case claimed of
        None \<Rightarrow> Inr ()
      | Some c \<Rightarrow>
          (case actual of
             None \<Rightarrow> invalid ''pointer claims a signer (%s, issuer %s) but the bundle carries no signature'' [pg_Identity c, pg_Issuer c]
           | Some a \<Rightarrow>
               if pg_Identity c \<noteq> [] \<and> pg_Identity c \<noteq> sc_Identity a then
                 invalid ''signer identity mismatch: pointer claims %s, cert says %s'' [pg_Identity c, sc_Identity a]
               else if pg_Issuer c \<noteq> [] \<and> pg_Issuer c \<noteq> sc_Issuer a then
                 invalid ''signer issuer mismatch: pointer claims %s, cert says %s'' [pg_Issuer c, sc_Issuer a]
               else (case pg_RekorLogIndex c of
                       None \<Rightarrow> Inr ()
                     | Some want \<Rightarrow>
                         (case sc_RekorLogIndex a of
                            None \<Rightarrow> invalid ''pointer claims a Rekor log index but the bundle has no Rekor entry'' []
                          | Some got \<Rightarrow>
                              if want \<noteq> got then
                                invalid ''Rekor log index mismatch: pointer claims %s, actual entry %s'' [show_int want, show_int got]
                              else Inr ()))))"

subsection \<open>Exit codes and causes (failure.go)\<close>

datatype verify_step = StepMaterialize | StepSignature | StepPredicate | StepInventory | StepRender

datatype step_status = StepPassed | StepFailed | StepSkipped | StepInformational

datatype cause_class =
    CauseRegistryForbidden | CauseNotFound | CauseRegistry | CauseSignature | CauseIntegrity | CauseSchema
  | CauseTransient | CauseCanceled | CauseUnknown

definition ExitValidPassed :: int where "ExitValidPassed = 0"
definition ExitValidPhaseFailures :: int where "ExitValidPhaseFailures = 1"
definition ExitInvalid :: int where "ExitInvalid = 2"
definition ExitIncomplete :: int where "ExitIncomplete = 3"

lemmas exit_codes = ExitValidPassed_def ExitValidPhaseFailures_def ExitInvalid_def ExitIncomplete_def

record failure_cause =
  fc_Class :: cause_class
  fc_Detail :: go_error
  fc_HTTPStatus :: int
  fc_Hint :: string

record step_result =
  sr_Step :: verify_step
  sr_Status :: step_status
  sr_SubRows :: "report_row list"

datatype input_form = InputFormDir | InputFormPointer | InputFormOCI

record verify_result =
  vr_Input :: input_form
  vr_Pointer :: "pointer option"
  vr_Predicate :: "evidence_predicate option"
  vr_Signer :: "signer_claims option"
  vr_RecipeName :: string
  vr_BundleDigest :: string
  vr_Steps :: "step_result list"
  vr_Exit :: int
  vr_Pending :: bool
  vr_FailureCause :: "failure_cause option"

definition is_transient_failure :: "go_error \<Rightarrow> bool" where
  "is_transient_failure e =
     (if is_canceled e then False
      else err_chain_has CtxDeadlineExceeded e \<or> err_is ErrCodeTimeout e \<or> err_is ErrCodeUnavailable e)"

text \<open>\<open>http e\<close> is the status of the registry response in the chain of \<open>e\<close>, if there is one.\<close>

definition classify_registry_error :: "(go_error \<Rightarrow> int option) \<Rightarrow> go_error \<Rightarrow> failure_cause option" where
  "classify_registry_error http e =
     (case http e of
        None \<Rightarrow> None
      | Some code \<Rightarrow>
          (let cause = (\<lambda>cls hint. Some \<lparr>fc_Class = cls, fc_Detail = e, fc_HTTPStatus = code, fc_Hint = hint\<rparr>) in
           if code = 401 \<or> code = 403 then
             cause CauseRegistryForbidden
               ''registry not accessible (make the fork's aicr-evidence package public, or provide registry credentials)''
           else if code = 404 then
             cause CauseNotFound ''bundle not found at the referenced digest (was it pushed to this registry?)''
           else if code = 429 then cause CauseTransient ''registry rate-limited the request - retry''
           else if code \<ge> 500 then cause CauseTransient ''registry returned a server error - retry''
           else cause CauseRegistry []))"

definition classify_failure :: "(go_error \<Rightarrow> int option) \<Rightarrow> verify_step \<Rightarrow> go_error \<Rightarrow> failure_cause" where
  "classify_failure http step e =
     (case classify_registry_error http e of
        Some c \<Rightarrow> c
      | None \<Rightarrow>
          if err_is ErrCodeCanceled e then
            \<lparr>fc_Class = CauseCanceled, fc_Detail = e, fc_HTTPStatus = 0,
             fc_Hint = ''verification was aborted by the operator - no verdict was reached''\<rparr>
          else if is_transient_failure e then
            \<lparr>fc_Class = CauseTransient, fc_Detail = e, fc_HTTPStatus = 0,
             fc_Hint = ''the bundle could not be read (storage or registry fault) - this is not a verdict on its contents; retry''\<rparr>
          else
            \<lparr>fc_Class = (case step of
                 StepSignature \<Rightarrow> CauseSignature | StepInventory \<Rightarrow> CauseIntegrity | StepPredicate \<Rightarrow> CauseSchema
               | _ \<Rightarrow> CauseUnknown),
             fc_Detail = e, fc_HTTPStatus = 0, fc_Hint = []\<rparr>)"

definition is_non_verdict_class :: "cause_class \<Rightarrow> bool" where
  "is_non_verdict_class c \<longleftrightarrow> c = CauseTransient \<or> c = CauseCanceled"

definition exit_for_class :: "cause_class \<Rightarrow> int" where
  "exit_for_class c = (if is_non_verdict_class c then ExitIncomplete else ExitInvalid)"

definition record_failure :: "(go_error \<Rightarrow> int option) \<Rightarrow> verify_step \<Rightarrow> go_error \<Rightarrow> verify_result \<Rightarrow> verify_result" where
  "record_failure http step e r =
     (let cause = classify_failure http step e;
          exit = (if vr_Exit r = ExitInvalid then ExitInvalid else exit_for_class (fc_Class cause));
          replace = (case vr_FailureCause r of
                       None \<Rightarrow> True
                     | Some c \<Rightarrow> exit = ExitInvalid \<and> is_non_verdict_class (fc_Class c))
      in r \<lparr>vr_FailureCause := if replace then Some cause else vr_FailureCause r, vr_Exit := exit\<rparr>)"

definition record_step :: "verify_step \<Rightarrow> step_status \<Rightarrow> report_row list \<Rightarrow> verify_result \<Rightarrow> verify_result" where
  "record_step step status rows r =
     r \<lparr>vr_Steps := vr_Steps r @ [\<lparr>sr_Step = step, sr_Status = status, sr_SubRows = rows\<rparr>]\<rparr>"

text \<open>The two calls that go together at every failure.\<close>

definition fail_step ::
  "(go_error \<Rightarrow> int option) \<Rightarrow> verify_step \<Rightarrow> report_row list \<Rightarrow> go_error \<Rightarrow> verify_result \<Rightarrow> verify_result" where
  "fail_step http step rows e r = record_failure http step e (record_step step StepFailed rows r)"

subsection \<open>The pipeline (verify.go)\<close>

record verify_env =
  ve_Input :: string
  ve_Form :: "input_form res"
  ve_Pointer :: "pointer res"
  ve_Materialize :: "pointer option \<Rightarrow> string res"
  ve_Sigstore :: sigstore
  ve_ReadStatement :: "string res"
  ve_ParseEnvelope :: "string \<Rightarrow> (string \<times> evidence_predicate) res"
  ve_Ctx :: "nat \<Rightarrow> go_error option"
  ve_Late :: "nat \<Rightarrow> go_error option"
  ve_Files :: bundle_fs
  ve_ParseManifest :: "string \<Rightarrow> manifest res"
  ve_ReadReport :: "string \<Rightarrow> string res"
  ve_Decode :: "string \<Rightarrow> recipe_result res"
  ve_Canon :: "string \<Rightarrow> string res"
  ve_Sha256 :: "string \<Rightarrow> string"
  ve_HTTP :: "go_error \<Rightarrow> int option"

definition claimed_signer :: "pointer option \<Rightarrow> pointer_signer option" where
  "claimed_signer pointer =
     (case pointer of None \<Rightarrow> None | Some p \<Rightarrow> (case po_Signers p of [] \<Rightarrow> None | s # _ \<Rightarrow> s))"

definition step_signature_check ::
  "verify_env \<Rightarrow> string \<Rightarrow> verify_result \<Rightarrow> verify_result \<times> evidence_predicate option \<times> bool" where
  "step_signature_check env mat_digest r =
     (let claimed = claimed_signer (vr_Pointer r) in
      case verify_signature (ve_Sigstore env) mat_digest of
        Inl e \<Rightarrow>
          (if err_is ErrCodeNotFound e then
             (if claimed \<noteq> None then
                (case cross_check_pointer_signer claimed None of
                   Inl e' \<Rightarrow> (fail_step (ve_HTTP env) StepSignature [] e' r, None, False)
                 | Inr _ \<Rightarrow> (record_step StepSignature StepSkipped [] r, None, True))
              else (record_step StepSignature StepSkipped [] r, None, True))
           else (fail_step (ve_HTTP env) StepSignature [] e r, None, False))
      | Inr (signer, pred) \<Rightarrow>
          (let r1 = r \<lparr>vr_Signer := Some signer\<rparr> in
           case cross_check_pointer_signer claimed (Some signer) of
             Inl e \<Rightarrow> (fail_step (ve_HTTP env) StepSignature [] e r1, None, False)
           | Inr _ \<Rightarrow>
               (record_step StepSignature StepPassed
                  (case sc_RekorLogIndex signer of None \<Rightarrow> [] | Some i \<Rightarrow> [(''rekorLogIndex'', RowText (show_int i) [])]) r1,
                Some pred, False)))"

definition load_unsigned_predicate :: "verify_env \<Rightarrow> evidence_predicate res" where
  "load_unsigned_predicate env =
     res_bind (ve_ReadStatement env) (\<lambda>body.
     res_bind (res_wrap (err_wrap ErrCodeInvalidRequest ''Statement is not valid JSON'' []) (ve_ParseEnvelope env body)) (\<lambda>(ty, pred).
     res_bind (validate_predicate_type_coherence ty pred) (\<lambda>_. Inr pred)))"

definition resolve_predicate :: "verify_env \<Rightarrow> evidence_predicate option \<Rightarrow> evidence_predicate res" where
  "resolve_predicate env verified = (case verified of Some p \<Rightarrow> Inr p | None \<Rightarrow> load_unsigned_predicate env)"

text \<open>Step 4, and the end of the pipeline from there.\<close>

definition step_inventory :: "verify_env \<Rightarrow> evidence_predicate \<Rightarrow> verify_result \<Rightarrow> verify_result" where
  "step_inventory env pred r =
     (case check_inventory_capture_recipe (ve_Sha256 env) (ve_ParseManifest env) (ve_Ctx env) (ve_Late env) (ve_Files env)
             (pd_ManifestDigest pred) of
        Inl (rows, e) \<Rightarrow> fail_step (ve_HTTP env) StepInventory rows e r
      | Inr recipeYAML \<Rightarrow>
          (case check_phase_digests (ve_Sha256 env) (ve_ReadReport env) pred of
             Inl (rows, e) \<Rightarrow> fail_step (ve_HTTP env) StepInventory rows e r
           | Inr _ \<Rightarrow>
               (case check_recipe_identity (ve_Sha256 env) (ve_Decode env) (ve_Canon env) recipeYAML (vr_Pointer r) pred of
                  Inl e \<Rightarrow> fail_step (ve_HTTP env) StepInventory [] e r
                | Inr _ \<Rightarrow> record_step StepInventory StepPassed [] r)))"

definition finish_verify :: "evidence_predicate \<Rightarrow> bool \<Rightarrow> verify_result \<Rightarrow> verify_result" where
  "finish_verify pred pending_signature r =
     (let r1 = (if vr_Exit r = ExitValidPassed \<and> has_phase_failures (Some pred)
                then r \<lparr>vr_Exit := ExitValidPhaseFailures\<rparr> else r);
          r2 = (if vr_Exit r1 = ExitValidPassed \<and> pending_signature then r1 \<lparr>vr_Pending := True\<rparr> else r1)
      in record_step StepRender StepInformational [] r2)"

definition verify_bundle :: "verify_env \<Rightarrow> string \<Rightarrow> verify_result \<Rightarrow> verify_result" where
  "verify_bundle env mat_digest r0 =
     (let r1 = record_step StepMaterialize StepPassed []
                 (if mat_digest \<noteq> [] then r0 \<lparr>vr_BundleDigest := mat_digest\<rparr> else r0) in
      case step_signature_check env mat_digest r1 of
        (r2, verified, pending_signature) \<Rightarrow>
          (case resolve_predicate env verified of
             Inl e \<Rightarrow> fail_step (ve_HTTP env) StepPredicate [] e r2
           | Inr pred \<Rightarrow>
               (let r3 = r2 \<lparr>vr_Predicate := Some pred, vr_RecipeName := pd_RecipeName pred\<rparr> in
                case vr_Pointer r3 of
                  Some p \<Rightarrow>
                    (if po_Recipe p \<noteq> pd_RecipeName pred then
                       fail_step (ve_HTTP env) StepPredicate []
                         (err_new ErrCodeInvalidRequest ''pointer.recipe %s does not match the predicate's recipe name %s''
                            [po_Recipe p, pd_RecipeName pred]) r3
                     else finish_verify pred pending_signature
                            (step_inventory env pred (record_step StepPredicate StepPassed [] r3)))
                | None \<Rightarrow> finish_verify pred pending_signature
                            (step_inventory env pred (record_step StepPredicate StepPassed [] r3)))))"

definition new_result :: "input_form \<Rightarrow> pointer option \<Rightarrow> verify_result" where
  "new_result form pointer =
     \<lparr>vr_Input = form, vr_Pointer = pointer, vr_Predicate = None, vr_Signer = None, vr_RecipeName = [], vr_BundleDigest = [],
      vr_Steps = [], vr_Exit = ExitValidPassed, vr_Pending = False, vr_FailureCause = None\<rparr>"

definition verify :: "verify_env \<Rightarrow> verify_result res" where
  "verify env =
     (if ve_Input env = [] then invalid ''Input is required'' []
      else
        res_bind (ve_Form env) (\<lambda>form.
        res_bind (if form = InputFormPointer then res_bind (ve_Pointer env) (\<lambda>p. Inr (Some p)) else Inr None) (\<lambda>pointer.
          case ve_Materialize env pointer of
            Inl e \<Rightarrow> Inr (fail_step (ve_HTTP env) StepMaterialize [] e (new_result form pointer))
          | Inr mat_digest \<Rightarrow> Inr (verify_bundle env mat_digest (new_result form pointer)))))"

subsection \<open>The verdict\<close>

text \<open>The root cause of a run: the first failure that is a verdict on the bundle, else the first failure.\<close>

definition root_cause :: "failure_cause list \<Rightarrow> failure_cause option" where
  "root_cause causes =
     (case filter (\<lambda>c. \<not> is_non_verdict_class (fc_Class c)) causes of
        c # _ \<Rightarrow> Some c
      | [] \<Rightarrow> (case causes of [] \<Rightarrow> None | c # _ \<Rightarrow> Some c))"

definition failed_steps :: "verify_result \<Rightarrow> verify_step list" where
  "failed_steps r = map sr_Step (filter (\<lambda>s. sr_Status s = StepFailed) (vr_Steps r))"

definition consistent :: "(go_error \<Rightarrow> int option) \<Rightarrow> (verify_step \<times> go_error) list \<Rightarrow> verify_result \<Rightarrow> bool" where
  "consistent http fs r \<longleftrightarrow>
     failed_steps r = map fst fs \<and>
     vr_FailureCause r = root_cause (map (\<lambda>(s, e). classify_failure http s e) fs) \<and>
     vr_Exit r = (case vr_FailureCause r of None \<Rightarrow> ExitValidPassed | Some c \<Rightarrow> exit_for_class (fc_Class c))"

lemma root_cause_snoc:
  "root_cause (cs @ [c]) =
     (case root_cause cs of
        None \<Rightarrow> Some c
      | Some c0 \<Rightarrow> Some (if is_non_verdict_class (fc_Class c0) \<and> \<not> is_non_verdict_class (fc_Class c) then c else c0))"
proof (cases "filter (\<lambda>c. \<not> is_non_verdict_class (fc_Class c)) cs")
  case Nil
  then have "is_non_verdict_class (fc_Class c0)" if "c0 \<in> set cs" for c0 using that by (auto simp: filter_empty_conv)
  then show ?thesis using Nil by (cases cs) (auto simp: root_cause_def)
next
  case (Cons c0 rest)
  then have "c0 \<in> set (filter (\<lambda>c. \<not> is_non_verdict_class (fc_Class c)) cs)" by simp
  then have "\<not> is_non_verdict_class (fc_Class c0)" by simp
  then show ?thesis using Cons by (simp add: root_cause_def)
qed

lemma fail_step_parts:
  "failed_steps (fail_step http step rows e r) = failed_steps r @ [step]"
  "vr_Exit (fail_step http step rows e r) =
     (if vr_Exit r = ExitInvalid then ExitInvalid else exit_for_class (fc_Class (classify_failure http step e)))"
  "vr_FailureCause (fail_step http step rows e r) =
     (case vr_FailureCause r of
        None \<Rightarrow> Some (classify_failure http step e)
      | Some c \<Rightarrow>
          if vr_Exit (fail_step http step rows e r) = ExitInvalid \<and> is_non_verdict_class (fc_Class c)
          then Some (classify_failure http step e) else Some c)"
  by (simp_all add: fail_step_def record_failure_def record_step_def failed_steps_def Let_def split: option.split)

lemma consistent_fail:
  assumes "consistent http fs r"
  shows "consistent http (fs @ [(step, e)]) (fail_step http step rows e r)"
proof -
  define new where "new = classify_failure http step e"
  define rest where "rest = root_cause (map (\<lambda>(s, e). classify_failure http s e) fs)"
  have cause: "vr_FailureCause r = rest" and steps: "failed_steps r = map fst fs"
    and exit: "vr_Exit r = (case rest of None \<Rightarrow> ExitValidPassed | Some c \<Rightarrow> exit_for_class (fc_Class c))"
    using assms by (simp_all add: consistent_def rest_def)
  have root: "root_cause (map (\<lambda>(s, e). classify_failure http s e) (fs @ [(step, e)])) =
      (case rest of None \<Rightarrow> Some new
       | Some c0 \<Rightarrow> Some (if is_non_verdict_class (fc_Class c0) \<and> \<not> is_non_verdict_class (fc_Class new) then new else c0))"
    by (simp only: map_append list.map case_prod_conv root_cause_snoc rest_def new_def)
  show ?thesis
    unfolding consistent_def fail_step_parts(1,3) root
    by (cases rest) (simp_all add: cause steps exit fail_step_parts(2) exit_for_class_def exit_codes flip: new_def)
qed

lemma consistent_record: "status \<noteq> StepFailed \<Longrightarrow> consistent http fs (record_step step status rows r) = consistent http fs r"
  by (simp add: consistent_def record_step_def failed_steps_def)

lemma consistent_update:
  "consistent http fs (r \<lparr>vr_Signer := s\<rparr>) = consistent http fs r"
  "consistent http fs (r \<lparr>vr_Predicate := p, vr_RecipeName := n\<rparr>) = consistent http fs r"
  "consistent http fs (r \<lparr>vr_BundleDigest := n\<rparr>) = consistent http fs r"
  by (simp_all add: consistent_def failed_steps_def)

lemma consistent_signature:
  assumes "consistent (ve_HTTP env) fs r" "step_signature_check env mat r = (r', verified, unsigned)"
  shows "\<exists>fs'. consistent (ve_HTTP env) fs' r'"
proof -
  have signed: "consistent (ve_HTTP env) fs (r \<lparr>vr_Signer := s\<rparr>)" for s using assms(1) by (simp add: consistent_update)
  have "(\<exists>step rows e. r' = fail_step (ve_HTTP env) step rows e r) \<or>
      (\<exists>s step rows e. r' = fail_step (ve_HTTP env) step rows e (r \<lparr>vr_Signer := s\<rparr>)) \<or>
      (\<exists>step status rows. status \<noteq> StepFailed \<and> r' = record_step step status rows r) \<or>
      (\<exists>s step status rows. status \<noteq> StepFailed \<and> r' = record_step step status rows (r \<lparr>vr_Signer := s\<rparr>))"
    using assms(2) unfolding step_signature_check_def Let_def
    by (simp split: sum.splits prod.splits if_splits) blast+
  then show ?thesis
    using consistent_fail [OF assms(1)] consistent_fail [OF signed] assms(1) signed consistent_record by metis
qed

lemma consistent_inventory:
  assumes "consistent (ve_HTTP env) fs r"
  shows "\<exists>fs'. consistent (ve_HTTP env) fs' (step_inventory env pred r)"
  using consistent_fail [OF assms] consistent_record [of StepPassed "ve_HTTP env" fs StepInventory "[]" r] assms
  by (auto simp: step_inventory_def split: sum.split prod.split)

text \<open>The state after the pipeline, before the phase results are looked at.\<close>

lemma consistent_new: "consistent http [] (new_result form pointer)"
  by (simp add: consistent_def new_result_def failed_steps_def root_cause_def)

definition finished :: "(go_error \<Rightarrow> int option) \<Rightarrow> verify_result \<Rightarrow> bool" where
  "finished http r \<longleftrightarrow>
     (\<exists>fs. failed_steps r = map fst fs \<and>
        vr_FailureCause r = root_cause (map (\<lambda>(s, e). classify_failure http s e) fs) \<and>
        vr_Exit r = (case vr_FailureCause r of
           Some c \<Rightarrow> exit_for_class (fc_Class c)
         | None \<Rightarrow> if has_phase_failures (vr_Predicate r) then ExitValidPhaseFailures else ExitValidPassed) \<and>
        (vr_Pending r \<longrightarrow> vr_Exit r = ExitValidPassed))"

lemma finished_failure:
  assumes "consistent http fs r" "\<not> vr_Pending r"
  shows "finished http (fail_step http step rows e r)"
proof -
  let ?r = "fail_step http step rows e r"
  have c: "consistent http (fs @ [(step, e)]) ?r" by (rule consistent_fail [OF assms(1)])
  obtain cause where cause: "vr_FailureCause ?r = Some cause"
    using fail_step_parts(3) [of http step rows e r] by (auto split: option.splits if_splits)
  have "\<not> vr_Pending ?r" using assms(2) by (simp add: fail_step_def record_failure_def record_step_def Let_def)
  have exit: "vr_Exit ?r = exit_for_class (fc_Class cause)" using c unfolding consistent_def by (simp only: cause option.case)
  have rest: "failed_steps ?r = map fst (fs @ [(step, e)])"
      "vr_FailureCause ?r = root_cause (map (\<lambda>(s, e). classify_failure http s e) (fs @ [(step, e)]))"
    using c unfolding consistent_def by blast+
  have case_cause: "vr_Exit ?r = (case vr_FailureCause ?r of
        Some c \<Rightarrow> exit_for_class (fc_Class c)
      | None \<Rightarrow> if has_phase_failures (vr_Predicate ?r) then ExitValidPhaseFailures else ExitValidPassed)"
    by (simp only: cause exit option.case)
  show ?thesis
    unfolding finished_def
    by (rule exI [of _ "fs @ [(step, e)]"], intro conjI)
      (use rest case_cause \<open>\<not> vr_Pending ?r\<close> in blast)+
qed

lemma finished_end:
  assumes "consistent http fs r" "vr_Predicate r = Some pred" "\<not> vr_Pending r"
  shows "finished http (finish_verify pred unsigned r)"
  unfolding finished_def
proof (intro exI [of _ fs])
  have exit: "vr_Exit r = ExitValidPassed \<longleftrightarrow> vr_FailureCause r = None"
    using assms(1) by (auto simp: consistent_def exit_for_class_def exit_codes split: option.splits)
  show "failed_steps (finish_verify pred unsigned r) = map fst fs \<and>
      vr_FailureCause (finish_verify pred unsigned r) = root_cause (map (\<lambda>(s, e). classify_failure http s e) fs) \<and>
      vr_Exit (finish_verify pred unsigned r) =
        (case vr_FailureCause (finish_verify pred unsigned r) of
           Some c \<Rightarrow> exit_for_class (fc_Class c)
         | None \<Rightarrow> if has_phase_failures (vr_Predicate (finish_verify pred unsigned r)) then ExitValidPhaseFailures
                   else ExitValidPassed) \<and>
      (vr_Pending (finish_verify pred unsigned r) \<longrightarrow> vr_Exit (finish_verify pred unsigned r) = ExitValidPassed)"
  proof (cases "vr_FailureCause r")
    case None
    then show ?thesis using assms exit
      by (auto simp: finish_verify_def record_step_def failed_steps_def consistent_def Let_def exit_codes)
  next
    case (Some c)
    then show ?thesis using assms exit
      by (auto simp: finish_verify_def record_step_def failed_steps_def consistent_def Let_def)
  qed
qed

lemma untouched:
  "vr_Pending (fail_step http step rows e r) = vr_Pending r" "vr_Pending (record_step step status rows r) = vr_Pending r"
  "vr_Predicate (fail_step http step rows e r) = vr_Predicate r" "vr_Predicate (record_step step status rows r) = vr_Predicate r"
  "vr_Pointer (fail_step http step rows e r) = vr_Pointer r" "vr_Pointer (record_step step status rows r) = vr_Pointer r"
  "vr_Signer (fail_step http step rows e r) = vr_Signer r" "vr_Signer (record_step step status rows r) = vr_Signer r"
  "vr_Exit (record_step step status rows r) = vr_Exit r"
  by (simp_all add: fail_step_def record_failure_def record_step_def Let_def)

lemma untouched_steps:
  "step_signature_check env mat r = (r', verified, unsigned) \<Longrightarrow> vr_Pending r' = vr_Pending r \<and> vr_Pointer r' = vr_Pointer r"
  "vr_Pending (step_inventory env pred r) = vr_Pending r" "vr_Predicate (step_inventory env pred r) = vr_Predicate r"
  "vr_Pointer (step_inventory env pred r) = vr_Pointer r" "vr_Signer (step_inventory env pred r) = vr_Signer r"
  by (auto simp: step_signature_check_def step_inventory_def untouched Let_def split: sum.splits prod.splits if_splits)

lemma finished_bundle:
  assumes "consistent (ve_HTTP env) [] r" "\<not> vr_Pending r"
  shows "finished (ve_HTTP env) (verify_bundle env mat r)"
proof -
  define r1 where "r1 = record_step StepMaterialize StepPassed [] (if mat \<noteq> [] then r \<lparr>vr_BundleDigest := mat\<rparr> else r)"
  have r1: "consistent (ve_HTTP env) [] r1" "\<not> vr_Pending r1"
    using assms by (simp_all add: r1_def consistent_record consistent_update untouched)
  obtain r2 verified unsigned where sig: "step_signature_check env mat r1 = (r2, verified, unsigned)" by (metis prod_cases3)
  from consistent_signature [OF r1(1) sig] obtain fs where r2: "consistent (ve_HTTP env) fs r2" by blast
  have p2: "\<not> vr_Pending r2" using untouched_steps(1) [OF sig] r1(2) by simp
  show ?thesis
  proof (cases "resolve_predicate env verified")
    case (Inl e)
    then have "verify_bundle env mat r = fail_step (ve_HTTP env) StepPredicate [] e r2"
      by (simp add: verify_bundle_def sig Let_def flip: r1_def)
    then show ?thesis using finished_failure [OF r2 p2] by simp
  next
    case (Inr pred)
    define r3 where "r3 = r2 \<lparr>vr_Predicate := Some pred, vr_RecipeName := pd_RecipeName pred\<rparr>"
    have r3: "consistent (ve_HTTP env) fs r3" "\<not> vr_Pending r3" using r2 p2 by (simp_all add: r3_def consistent_update)
    define r4 where "r4 = step_inventory env pred (record_step StepPredicate StepPassed [] r3)"
    have "consistent (ve_HTTP env) fs (record_step StepPredicate StepPassed [] r3)" using r3(1) by (simp add: consistent_record)
    from consistent_inventory [OF this] obtain fs' where "consistent (ve_HTTP env) fs' r4" unfolding r4_def by blast
    moreover have "vr_Predicate r4 = Some pred" "\<not> vr_Pending r4"
      using r3(2) by (simp_all add: r4_def untouched_steps untouched) (simp add: r3_def)
    ultimately have ends: "finished (ve_HTTP env) (finish_verify pred unsigned r4)" by (rule finished_end)
    show ?thesis
    proof (cases "\<exists>p. vr_Pointer r3 = Some p \<and> po_Recipe p \<noteq> pd_RecipeName pred")
      case True
      then obtain p where "vr_Pointer r3 = Some p" "po_Recipe p \<noteq> pd_RecipeName pred" by blast
      then have "\<exists>e. verify_bundle env mat r = fail_step (ve_HTTP env) StepPredicate [] e r3"
        by (auto simp: verify_bundle_def sig Inr Let_def simp flip: r1_def r3_def)
      then show ?thesis using finished_failure [OF r3] by metis
    next
      case False
      then have "verify_bundle env mat r = finish_verify pred unsigned r4"
        by (simp add: verify_bundle_def sig Inr Let_def flip: r1_def r3_def r4_def split: option.split)
      then show ?thesis using ends by simp
    qed
  qed
qed

lemma verify_finished:
  assumes "verify env = Inr r"
  shows "finished (ve_HTTP env) r"
proof -
  have new: "consistent http [] (new_result form pointer)" "\<not> vr_Pending (new_result form pointer)" for http form pointer
    by (simp_all add: consistent_new) (simp add: new_result_def)
  obtain form pointer where "(case ve_Materialize env pointer of
        Inl e \<Rightarrow> Inr (fail_step (ve_HTTP env) StepMaterialize [] e (new_result form pointer))
      | Inr mat \<Rightarrow> Inr (verify_bundle env mat (new_result form pointer))) = (Inr r :: verify_result res)"
    using assms by (simp only: verify_def res_simps split: if_splits) auto
  then show ?thesis
    using finished_failure [OF new] finished_bundle [OF new] by (cases "ve_Materialize env pointer") auto
qed

text \<open>The exit code and the cause of a verification. Whatever answers the registry, the sigstore library, the file
  system and the decoders give, the failed rows are those of some errors in order, the cause is the first of them that is
  a verdict on the bundle, and without such a one the first of all; the exit code is the one of the cause. So a timeout or an abort
  never reads as an invalid bundle, and never hides one. Without a failure the code says whether a phase recorded failures,
  and a signature is reported as pending only for a bundle that passed.\<close>

theorem verify_verdict_exact:
  assumes "verify env = Inr r"
  shows "\<exists>errors. failed_steps r = map fst errors \<and>
    vr_FailureCause r = root_cause (map (\<lambda>(s, e). classify_failure (ve_HTTP env) s e) errors) \<and>
    vr_Exit r = (case vr_FailureCause r of
       Some c \<Rightarrow> exit_for_class (fc_Class c)
     | None \<Rightarrow> if has_phase_failures (vr_Predicate r) then ExitValidPhaseFailures else ExitValidPassed) \<and>
    (vr_Pending r \<longrightarrow> vr_Exit r = ExitValidPassed)"
  using verify_finished [OF assms] unfolding finished_def .

subsection \<open>What a bundle that passes has shown\<close>











lemma exit_verdict: "exit_for_class c \<in> {ExitInvalid, ExitIncomplete}"
  by (simp add: exit_for_class_def)

lemma fail_step_exit: "vr_Exit (fail_step http step rows e r) \<in> {ExitInvalid, ExitIncomplete}"
  using exit_verdict by (auto simp: fail_step_parts(2))

text \<open>A run in which no step has failed so far.\<close>

definition passing :: "verify_result \<Rightarrow> bool" where
  "passing r \<longleftrightarrow> vr_Exit r \<notin> {ExitInvalid, ExitIncomplete}"

lemma passing_steps [simp]:
  "\<not> passing (fail_step http step rows e r)"
  "passing (record_step step status rows r) = passing r"
  "passing (r \<lparr>vr_Predicate := p, vr_RecipeName := n\<rparr>) = passing r"
  "passing (r \<lparr>vr_Signer := s\<rparr>) = passing r"
  "passing (finish_verify pred unsigned r) = passing r"
  using fail_step_exit [of http step rows e r]
  by (auto simp: passing_def untouched finish_verify_def Let_def exit_codes)






subsection \<open>Concrete runs\<close>

definition small_recipe :: recipe_result where
  "small_recipe =
     \<lparr>rr_Kind = RecipeResultKind, rr_APIVersion = GroupVersion,
      rr_Metadata = \<lparr>rmd_Version = ''v1'', rmd_AppliedOverlays = [], rmd_ExcludedOverlays = [], rmd_ConstraintWarnings = [],
        rmd_SelectedProfile = None\<rparr>,
      rr_Criteria = Some \<lparr>c_Service = ''eks'', c_Accelerator = ''h100'', c_Intent = ''training'', c_OS = ''ubuntu'', c_Platform = ''any'',
        c_Nodes = 0\<rparr>,
      rr_AccountingMode = None, rr_Constraints = [], rr_ComponentRefs = [], rr_DeploymentOrder = [], rr_Validation = None,
      rr_ResolvedValues = []\<rparr>"

definition small_predicate :: evidence_predicate where
  "small_predicate =
     \<lparr>pd_SchemaVersion = ''1.0.0'', pd_RecipeName = ''h100-eks-ubuntu-training'', pd_RecipeDigest = ''kind: RecipeResult'',
      pd_Phases = [(''deployment'', \<lparr>ph_Passed = 3, ph_Failed = 1, ph_Skipped = 0, ph_CTRFDigest = ''sha256:passed''\<rparr>)],
      pd_ManifestDigest = ''sha256:M'', pd_Profile = None\<rparr>"

definition small_pointer :: pointer where
  "small_pointer =
     \<lparr>po_Recipe = ''h100-eks-ubuntu-training'', po_Profile = [],
      po_Signers = [Some \<lparr>pg_Identity = ''me'', pg_Issuer = ''idp'', pg_RekorLogIndex = Some 7\<rparr>]\<rparr>"

text \<open>A run on the bundle above with a pointer, and one that meets a timeout on the signature; the report is a parameter.\<close>

definition small_sigstore :: sigstore where
  "small_sigstore =
     \<lparr>sg_Ctx = None, sg_Stat = SigSize 10, sg_Read = Inr ''dsse'', sg_Payload = (\<lambda>_. Inr ''payload''),
      sg_Statement = (\<lambda>_. Inr ([Some ''abcd''], PredicateTypeV1, small_predicate)), sg_HexError = (\<lambda>_. None),
      sg_Prepare = Inr (), sg_Verify = (\<lambda>_. Inr (Some (''me'', ''idp''))), sg_LogIndexes = [7]\<rparr>"

definition small_run :: "pointer option \<Rightarrow> sigstore \<Rightarrow> string \<Rightarrow> verify_env" where
  "small_run pointer sg report =
     \<lparr>ve_Input = ''in'', ve_Form = Inr (if pointer = None then InputFormDir else InputFormPointer),
      ve_Pointer = (case pointer of Some p \<Rightarrow> Inr p | None \<Rightarrow> Inl (PlainError ''no pointer'')),
      ve_Materialize = (\<lambda>_. Inr ''sha256:abcd''), ve_Sigstore = sg, ve_ReadStatement = Inr ''statement'',
      ve_ParseEnvelope = (\<lambda>_. Inr (PredicateTypeV1, small_predicate)), ve_Ctx = (\<lambda>_. None), ve_Late = (\<lambda>_. None),
      ve_Files = served plain_digest (small_bundle report), ve_ParseManifest = (\<lambda>_. Inr small_manifest),
      ve_ReadReport = (\<lambda>_. Inr report), ve_Decode = (\<lambda>_. Inr small_recipe), ve_Canon = Inr,
      ve_Sha256 = plain_digest, ve_HTTP = (\<lambda>_. None)\<rparr>"

definition timed_out :: sigstore where
  "timed_out = small_sigstore \<lparr>sg_Ctx := Some CtxDeadlineExceeded\<rparr>"

definition outcome :: "verify_result res \<Rightarrow> (int \<times> cause_class option \<times> verify_step list \<times> bool) option" where
  "outcome run =
     (case run of
        Inl _ \<Rightarrow> None
      | Inr r \<Rightarrow> Some (vr_Exit r, map_option fc_Class (vr_FailureCause r), failed_steps r, vr_Pending r))"

text \<open>The runs: a failed check in a valid bundle, a forged report, a timeout, and a timeout before a forged report.\<close>

lemma small_outcomes:
  "outcome (verify (small_run (Some small_pointer) small_sigstore ''passed'')) = Some (1, None, [], False)"
  "outcome (verify (small_run (Some small_pointer) small_sigstore ''forged'')) = Some (2, Some CauseIntegrity, [StepInventory], False)"
  "outcome (verify (small_run None timed_out ''passed'')) = Some (3, Some CauseTransient, [StepSignature], False)"
  "outcome (verify (small_run None timed_out ''forged'')) =
     Some (2, Some CauseIntegrity, [StepSignature, StepInventory], False)"
  by code_simp+

lemma small_run_ends:
  assumes "outcome (verify env) = Some (code, cause, steps, pend)"
  obtains r where "verify env = Inr r" "vr_Exit r = code" "map_option fc_Class (vr_FailureCause r) = cause" "failed_steps r = steps"
  using assms by (cases "verify env") (auto simp: outcome_def)


theorem verify_verdict_exact_witness:
  "\<exists>r errors c. verify (small_run None timed_out ''forged'') = Inr r \<and> map fst errors = [StepSignature, StepInventory] \<and>
     root_cause (map (\<lambda>(s, e). classify_failure (\<lambda>_. None) s e) errors) = Some c \<and> fc_Class c = CauseIntegrity \<and>
     vr_Exit r = exit_for_class (fc_Class c)"
proof -
  obtain r where r: "verify (small_run None timed_out ''forged'') = Inr r" "vr_Exit r = 2"
      "map_option fc_Class (vr_FailureCause r) = Some CauseIntegrity" "failed_steps r = [StepSignature, StepInventory]"
    using small_outcomes(4) by (rule small_run_ends)
  have http: "ve_HTTP (small_run None timed_out ''forged'') = (\<lambda>_. None)" by (simp add: small_run_def)
  from r(3) obtain c where c: "vr_FailureCause r = Some c" "fc_Class c = CauseIntegrity" by auto
  from verify_verdict_exact [OF r(1)] obtain errors where
      "failed_steps r = map fst errors"
      "vr_FailureCause r = root_cause (map (\<lambda>(s, e). classify_failure (\<lambda>_. None) s e) errors)"
    unfolding http by blast
  then show ?thesis
    using r c by (intro exI [of _ r] exI [of _ errors] exI [of _ c])
      (simp add: exit_for_class_def is_non_verdict_class_def exit_codes)
qed

text \<open>Two corners. A signature file that the check of its size still saw and the read no longer finds is an error with the
  code of \<open>ErrUnsignedBundle\<close>, so the bundle counts as unsigned; and a first entry of the log with index 0 is
  reported as no entry, so the pointer that names it is refused.\<close>

lemma vanished_signature_counts_as_unsigned:
  "case step_signature_check
      (small_run None (small_sigstore \<lparr>sg_Read := Inl (err_new ErrCodeNotFound ''failed to read sigstore bundle'' [])\<rparr>) ''passed'')
      ''sha256:abcd'' (new_result InputFormDir None) of
    (r, verified, unsigned) \<Rightarrow> map sr_Status (vr_Steps r) = [StepSkipped] \<and> verified = None \<and> unsigned"
  by code_simp

lemma first_log_entry_is_dropped:
  "case verify_signature (small_sigstore \<lparr>sg_LogIndexes := [0]\<rparr>) ''sha256:abcd'' of
    Inl _ \<Rightarrow> False
  | Inr (signer, _) \<Rightarrow> sc_RekorLogIndex signer = None \<and>
      cross_check_pointer_signer (Some \<lparr>pg_Identity = ''me'', pg_Issuer = ''idp'', pg_RekorLogIndex = Some 0\<rparr>) (Some signer) \<noteq> Inr ()"
  by code_simp

end
