(* ===== verification/Profile_Resolution.thy ===== *)
theory Profile_Resolution
  imports Profile_Declaration Snapshot_Filter
begin


section \<open>Resolving and applying the effective profile (pkg/recipe/profile_resolution.go)\<close>

record effective_profile =
  ef_Source :: string
  ef_Declaration :: profile_declaration

type_synonym found_profiles = "(string \<times> profile_declaration) list"

definition add_profile :: "(string \<Rightarrow> bool) \<Rightarrow> string \<Rightarrow> recipe_metadata \<Rightarrow> found_profiles \<Rightarrow> found_profiles res" where
  "add_profile ok source m found =
     res_bind (res_wrap (propagate_or_wrap ErrCodeInvalidRequest ''invalid profile contract in overlay'')
                 (validate_recipe_metadata_profile ok m)) (\<lambda>_.
       Inr (case rs_Profile (rm_Spec m) of None \<Rightarrow> found | Some decl \<Rightarrow> upsert source decl found))"

definition profile_source :: "metadata_store \<Rightarrow> recipe_metadata \<Rightarrow> string" where
  "profile_source s m = (if m = ms_Base s \<or> rm_Name m = [] then base_recipe_name else rm_Name m)"

definition add_chain_profiles :: "(string \<Rightarrow> bool) \<Rightarrow> metadata_store \<Rightarrow> found_profiles \<Rightarrow> recipe_metadata \<Rightarrow> found_profiles res" where
  "add_chain_profiles ok s found ov =
     res_bind (res_wrap (propagate_or_wrap ErrCodeInvalidRequest ''failed to resolve profile declaration for overlay'')
                 (resolve_inheritance_chain s (rm_Name ov)))
       (res_fold (\<lambda>found m. add_profile ok (profile_source s m) m found) found)"

definition resolve_profile_declaration ::
  "(string \<Rightarrow> bool) \<Rightarrow> metadata_store \<Rightarrow> recipe_metadata list \<Rightarrow> effective_profile option res" where
  "resolve_profile_declaration ok s overlays =
     res_bind (add_profile ok base_recipe_name (ms_Base s) []) (\<lambda>found0.
     res_bind (res_fold (add_chain_profiles ok s) found0 overlays) (\<lambda>found.
       case found of
         [] \<Rightarrow> Inr None
       | [(source, decl)] \<Rightarrow> Inr (Some \<lparr>ef_Source = source, ef_Declaration = decl\<rparr>)
       | _ \<Rightarrow> invalid ''resolved composition has multiple profile declarations from %v'' (sort (map fst found))))"

definition ensure_profile_declaration_survived ::
  "effective_profile option \<Rightarrow> effective_profile option \<Rightarrow> unit res" where
  "ensure_profile_declaration_survived before after =
     (case before of
        None \<Rightarrow> Inr ()
      | Some b \<Rightarrow>
          (if (case after of None \<Rightarrow> False | Some a \<Rightarrow> ef_Source a = ef_Source b) then Inr ()
           else invalid ''profile declaration from overlay %q was removed by snapshot constraint filtering'' [ef_Source b]))"

definition resolve_applied_profile_declaration ::
  "(string \<Rightarrow> bool) \<Rightarrow> metadata_store \<Rightarrow> string list \<Rightarrow> effective_profile option res" where
  "resolve_applied_profile_declaration ok s applied =
     resolve_profile_declaration ok s
       (concat (map (\<lambda>name. if name = base_recipe_name then []
                            else case map_of (ms_Overlays s) name of None \<Rightarrow> [] | Some ov \<Rightarrow> [ov]) applied))"

definition component_index :: "component_ref list \<Rightarrow> (string \<times> nat) list" where
  "component_index refs = foldl (\<lambda>m (i, ref). upsert (cr_Name ref) i m) [] (zip [0..<length refs] refs)"

definition check_profile_component :: "string \<Rightarrow> component_ref list \<Rightarrow> string \<Rightarrow> unit res" where
  "check_profile_component pname refs component =
     (if (case map_of (component_index refs) component of None \<Rightarrow> True | Some i \<Rightarrow> \<not> is_enabled (refs ! i)) then
        invalid ''profile %q references component %q, which is not enabled in the surviving composition'' [pname, component]
      else Inr ())"

text \<open>The constraints of the chosen value: no collision, and each evaluated when there is a snapshot.\<close>

fun append_profile_constraints ::
  "string \<Rightarrow> string \<Rightarrow> evaluator option \<Rightarrow> constraint list \<Rightarrow> constraint list \<Rightarrow> constraint list res" where
  "append_profile_constraints pname vname evaluator acc [] = Inr acc"
| "append_profile_constraints pname vname evaluator acc (c # cs) =
     (if co_Name c \<in> co_Name ` set acc then
        invalid ''profile %q value %q constraint %q collides with the composed recipe'' [pname, vname, co_Name c]
      else
        (case evaluator of
           None \<Rightarrow> append_profile_constraints pname vname evaluator (acc @ [c]) cs
         | Some eval \<Rightarrow>
             (case ev_Error (eval c) of
                Some err \<Rightarrow>
                  if is_not_found_eval_error err then
                    invalid ''profile %s=%s cannot be validated because reading %q is unavailable'' [pname, vname, co_Name c]
                  else Inl (propagate_or_wrap ErrCodeInternal ''failed to evaluate profile constraint'' err)
              | None \<Rightarrow>
                  if \<not> ev_Passed (eval c) then
                    invalid ''profile %s=%s constraint %q failed'' [pname, vname, co_Name c]
                  else append_profile_constraints pname vname evaluator (acc @ [c]) cs)))"

definition merge_profile_overrides :: "component_ref \<Rightarrow> profile_component_ref \<Rightarrow> component_ref" where
  "merge_profile_overrides ref pref =
     ref \<lparr>cr_Overrides := Some (deep_merge (overrides_of ref) (profile_overrides pref))\<rparr>"

definition apply_profile_ref :: "(string \<times> nat) list \<Rightarrow> component_ref list \<Rightarrow> profile_component_ref \<Rightarrow> component_ref list" where
  "apply_profile_ref index refs pref =
     (let i = (case map_of index (pc_Name pref) of None \<Rightarrow> 0 | Some i \<Rightarrow> i)
      in refs[i := merge_profile_overrides (refs ! i) pref])"

definition choose_profile_value :: "profile_declaration \<Rightarrow> profile_selection option \<Rightarrow> (string \<times> profile_value) res" where
  "choose_profile_value decl selection =
     res_bind
       (case selection of
          None \<Rightarrow> Inr (pd_Default decl)
        | Some sel \<Rightarrow>
            if ps_Name sel \<noteq> pd_Name decl then
              invalid ''resolved composition declares profile %q, not %q'' [pd_Name decl, ps_Name sel]
            else Inr (ps_Value sel))
       (\<lambda>vname. case map_of (pd_Values decl) vname of
          None \<Rightarrow> invalid ''profile %q has no value %q; valid values: %v'' (pd_Name decl # vname # sort (map fst (pd_Values decl)))
        | Some vl \<Rightarrow> Inr (vname, vl))"

definition apply_profile_value ::
  "profile_declaration \<Rightarrow> path_sets \<Rightarrow> string \<Rightarrow> profile_value \<Rightarrow> evaluator option \<Rightarrow> recipe_metadata_spec \<Rightarrow>
   (recipe_metadata_spec \<times> selected_profile option) res" where
  "apply_profile_value decl owned vname vl evaluator spec =
     res_bind (each (check_profile_component (pd_Name decl) (rs_ComponentRefs spec)) (sort (map fst owned))) (\<lambda>_.
     res_bind (append_profile_constraints (pd_Name decl) vname evaluator (rs_Constraints spec) (pv_Constraints vl)) (\<lambda>cs.
       Inr (spec \<lparr>rs_Constraints := sort_key co_Name cs,
                  rs_ComponentRefs := foldl (apply_profile_ref (component_index (rs_ComponentRefs spec)))
                                        (rs_ComponentRefs spec) (pv_ComponentRefs vl)\<rparr>,
            Some \<lparr>sp_Name = pd_Name decl, sp_Value = vname, sp_Advertiser = pv_Advertiser vl, sp_OwnedPaths = Some owned\<rparr>)))"

definition apply_effective_profile ::
  "(string \<Rightarrow> bool) \<Rightarrow> recipe_metadata_spec \<Rightarrow> effective_profile option \<Rightarrow> string \<Rightarrow> evaluator option \<Rightarrow>
   (recipe_metadata_spec \<times> selected_profile option) res" where
  "apply_effective_profile ok spec effective raw evaluator =
     res_bind (parse_profile_selection raw) (\<lambda>selection.
       case effective of
         None \<Rightarrow>
           (case selection of
              Some sel \<Rightarrow> invalid ''profile %q was selected, but the resolved composition declares no profile'' [ps_Name sel]
            | None \<Rightarrow> Inr (spec, None))
       | Some eff \<Rightarrow>
           (let decl = ef_Declaration eff
            in res_bind (validate_profile_declaration ok (Some decl)) (\<lambda>owned.
               res_bind (choose_profile_value decl selection) (\<lambda>(vname, vl).
                 apply_profile_value decl owned vname vl evaluator spec))))"


subsection \<open>What applying a profile does\<close>

lemma component_index_nth:
  "distinct (map cr_Name refs) \<Longrightarrow> i < length refs \<Longrightarrow> map_of (component_index refs) (cr_Name (refs ! i)) = Some i"
proof (induction refs arbitrary: i rule: rev_induct)
  case (snoc r refs)
  have idx: "component_index (refs @ [r]) = upsert (cr_Name r) (length refs) (component_index refs)"
    by (simp add: component_index_def)
  show ?case
  proof (cases "i < length refs")
    case True
    then have "refs ! i \<in> set refs" by simp
    moreover have "cr_Name r \<notin> cr_Name ` set refs" using snoc.prems(1) by simp
    ultimately have "cr_Name (refs ! i) \<noteq> cr_Name r" by (metis image_eqI)
    then show ?thesis using snoc True by (simp add: idx nth_append)
  next
    case False
    then show ?thesis using snoc.prems(2) by (simp add: idx nth_append)
  qed
qed simp

lemma component_index_Some: "map_of (component_index refs) name = Some i \<Longrightarrow> i < length refs \<and> cr_Name (refs ! i) = name"
proof (induction refs arbitrary: i rule: rev_induct)
  case (snoc r refs)
  have idx: "component_index (refs @ [r]) = upsert (cr_Name r) (length refs) (component_index refs)"
    by (simp add: component_index_def)
  show ?case using snoc by (auto simp: idx nth_append split: if_splits)
qed (simp add: component_index_def)

definition apply_fragments :: "profile_component_ref list \<Rightarrow> component_ref \<Rightarrow> component_ref" where
  "apply_fragments prefs ref =
     (case by_key pc_Name prefs (cr_Name ref) of None \<Rightarrow> ref | Some pref \<Rightarrow> merge_profile_overrides ref pref)"

lemma cr_Name_merge_profile [simp]: "cr_Name (merge_profile_overrides ref pref) = cr_Name ref"
  by (simp add: merge_profile_overrides_def)

lemma cr_Name_apply_fragments [simp]: "cr_Name (apply_fragments prefs ref) = cr_Name ref"
  by (simp add: apply_fragments_def split: option.split)

lemma apply_profile_refs:
  assumes "distinct (map cr_Name refs)" "distinct (map pc_Name prefs)" "pc_Name ` set prefs \<subseteq> cr_Name ` set refs"
  shows "foldl (apply_profile_ref (component_index refs)) refs prefs = map (apply_fragments prefs) refs"
  using assms(2,3)
proof (induction prefs rule: rev_induct)
  case (snoc p prefs)
  then obtain i where i: "i < length refs" "cr_Name (refs ! i) = pc_Name p" by (auto simp: in_set_conv_nth)
  have idx: "map_of (component_index refs) (pc_Name p) = Some i" using component_index_nth [OF assms(1) i(1)] i(2) by simp
  have new: "by_key pc_Name prefs (pc_Name p) = None" using snoc.prems(1) by (simp add: by_key_None)
  have here: "apply_fragments prefs (refs ! i) = refs ! i" "apply_fragments (prefs @ [p]) (refs ! i) = merge_profile_overrides (refs ! i) p"
    using new i(2) by (simp_all add: apply_fragments_def by_key_append by_key_Cons)
  have other: "apply_fragments (prefs @ [p]) (refs ! j) = apply_fragments prefs (refs ! j)" if "j < length refs" "j \<noteq> i" for j
  proof -
    have "cr_Name (refs ! j) \<noteq> pc_Name p" using that i assms(1) nth_eq_iff_index_eq [OF assms(1), of i j] by simp
    then show ?thesis by (simp add: apply_fragments_def by_key_append by_key_Cons split: option.split)
  qed
  have "foldl (apply_profile_ref (component_index refs)) refs (prefs @ [p]) =
      (map (apply_fragments prefs) refs)[i := merge_profile_overrides (refs ! i) p]"
  proof -
    have "foldl (apply_profile_ref (component_index refs)) refs prefs = map (apply_fragments prefs) refs"
      using snoc by simp
    then show ?thesis using idx here(1) i(1) by (simp add: apply_profile_ref_def)
  qed
  also have "\<dots> = map (apply_fragments (prefs @ [p])) refs"
    by (rule nth_equalityI) (use here other i(1) in \<open>auto simp: nth_list_update\<close>)
  finally show ?case .
qed (simp add: apply_fragments_def [abs_def])

lemma append_profile_constraints_Inr:
  "append_profile_constraints pname vname evaluator acc cs = Inr acc' \<Longrightarrow>
   acc' = acc @ cs \<and> (\<forall>c \<in> set cs. co_Name c \<notin> co_Name ` set acc) \<and>
   (\<forall>c \<in> set cs. \<forall>eval. evaluator = Some eval \<longrightarrow> ev_Error (eval c) = None \<and> ev_Passed (eval c))"
proof (induction cs arbitrary: acc)
  case (Cons c cs)
  have nc: "co_Name c \<notin> co_Name ` set acc" using Cons.prems by (simp split: if_splits)
  have rest: "append_profile_constraints pname vname evaluator (acc @ [c]) cs = Inr acc'"
    using Cons.prems nc by (simp split: if_splits option.splits)
  have "\<forall>eval. evaluator = Some eval \<longrightarrow> ev_Error (eval c) = None \<and> ev_Passed (eval c)"
    using Cons.prems nc by (simp split: if_splits option.splits)
  then show ?case using Cons.IH [OF rest] nc by auto
qed simp

lemma collect_distinct:
  "collect_profile_refs ok pname vname seen st refs = Inr st' \<Longrightarrow> distinct (map pc_Name refs) \<and> set seen \<inter> pc_Name ` set refs = {}"
proof (induction refs arbitrary: seen st)
  case (Cons ref refs)
  obtain vp owned where st: "st = (vp, owned)" by (cases st)
  note Cons.prems [unfolded st]
  then obtain paths where p: "flatten_profile_overrides ok (profile_overrides ref) = Inr paths" and seen: "pc_Name ref \<notin> set seen"
    and rest: "collect_profile_refs ok pname vname (pc_Name ref # seen)
        (vp @ map (\<lambda>path. pc_Name ref @ '':'' @ path) paths, own (pc_Name ref) paths owned) refs = Inr st'"
    by (auto simp: res_bind_Inr res_wrap_Inr split: if_splits)
  have "distinct (map pc_Name refs) \<and> set (pc_Name ref # seen) \<inter> pc_Name ` set refs = {}"
    by (rule Cons.IH [OF rest])
  then show ?case using seen by auto
qed simp

lemma value_at_leaf: "leaf_at m p = Some v \<Longrightarrow> value_at m p = (v, PathPresent)"
proof (induction m p rule: leaf_at.induct)
  case (2 m k p)
  then show ?case by (cases p) (auto split: option.splits gval.splits if_splits)
qed simp

text \<open>A path a fragment assigns is observed in the merged overrides.\<close>

lemma inline_after_merge:
  assumes "wf_map old" "wf_map new" "leaf_at new p \<noteq> None"
  shows "snd (value_at (deep_merge old new) p) = PathPresent"
  using leaf_at_deep_merge [OF assms(1,2), of p] assms(3) leaf_at_covers value_at_leaf by fastforce


lemma validate_profile_declaration_distinct:
  assumes "validate_profile_declaration ok (Some decl) = Inr owned" "(v, vl) \<in> set (pd_Values decl)" "declaration_wf decl"
  shows "distinct (map pc_Name (pv_ComponentRefs vl))" "pc_Name ` set (pv_ComponentRefs vl) \<subseteq> fst ` set owned"
proof -
  have vl: "map_of (pd_Values decl) v = Some vl" using assms(2,3) by (simp add: declaration_wf_def)
  have v: "v \<in> set (sort (map fst (pd_Values decl)))" using assms(2) by force
  have distinct: "v \<in> set names \<Longrightarrow> distinct (map pc_Name (pv_ComponentRefs vl))"
    if "res_fold (validate_profile_value ok decl) s names = Inr t" for names s t
    using that
  proof (induction names arbitrary: s)
    case (Cons n names)
    then obtain u where u: "validate_profile_value ok decl s n = Inr u" "res_fold (validate_profile_value ok decl) u names = Inr t"
      by (auto split: sum.splits)
    show ?case
    proof (cases "n = v")
      case True
      obtain expected o1 where s: "s = (expected, o1)" by (cases s)
      from u(1) obtain st where "collect_profile_refs ok (pd_Name decl) v [] ([], o1) (pv_ComponentRefs vl) = Inr st"
        using True vl by (auto simp: validate_profile_value_def s res_bind_Inr split: if_splits)
      then show ?thesis using collect_distinct by blast
    next
      case False
      then show ?thesis using Cons.IH [OF _ u(2)] Cons.prems(1) by simp
    qed
  qed simp
  obtain st where "res_fold (validate_profile_value ok decl) (None, []) (sort (map fst (pd_Values decl))) = Inr st"
    using assms(1)
    by (auto simp: validate_profile_declaration_def case_unique_value_names_def res_bind_Inr split: if_splits option.splits)
  then show "distinct (map pc_Name (pv_ComponentRefs vl))" by (rule distinct) (rule v)
  obtain expected raw0 where inv: "declaration_inv decl (sort (map fst (pd_Values decl))) (expected, raw0)"
    and owned: "owned = map (\<lambda>(component, paths). (component, sort paths)) raw0"
    using validate_profile_declaration_inv(1) [OF assms(1,3)] by blast
  have "fst ` set owned = fst ` set raw0" by (force simp: owned image_iff)
  then show "pc_Name ` set (pv_ComponentRefs vl) \<subseteq> fst ` set owned"
    using UN_upper [OF v, of "\<lambda>w. pc_Name ` set (value_refs decl w)"] declaration_invD(2) [OF inv] value_refs_eq [OF assms(3,2)]
    by simp
qed

lemma apply_fragments_owned:
  assumes total: "\<forall>component path. path \<noteq> ProfileEnabledPath \<longrightarrow>
       (path \<in> set (paths_of owned component) \<longleftrightarrow> (component, path) \<in> assigned prefs)"
    and prefs: "distinct (map pc_Name prefs)" "refs_wf prefs" and wf: "wf_map (overrides_of ref)"
  shows "is_ok (validate_profile_inline_ownership (overrides_of (apply_fragments prefs ref)) (cr_Name ref) (paths_of owned (cr_Name ref)))"
proof -
  have "snd (profile_value_at_path (overrides_of (apply_fragments prefs ref)) path) = PathPresent"
    if path: "path \<in> set (owned_leaf_paths (paths_of owned (cr_Name ref)))" for path
  proof -
    have "(cr_Name ref, path) \<in> assigned prefs" using total path by (auto simp: owned_leaf_paths_def)
    then obtain pref where pref: "pref \<in> set prefs" "pc_Name pref = cr_Name ref"
      and leaf: "leaf_at (profile_overrides pref) (dot_split path) \<noteq> None"
      by (auto simp: assigned_def)
    have "by_key pc_Name prefs (cr_Name ref) = Some pref" using by_key_distinct [OF prefs(1) pref(1)] pref(2) by simp
    then have "overrides_of (apply_fragments prefs ref) = deep_merge (overrides_of ref) (profile_overrides pref)"
      by (simp add: apply_fragments_def merge_profile_overrides_def overrides_of_def)
    then show ?thesis
      using inline_after_merge [OF wf _ leaf] prefs(2) pref(1) by (simp add: profile_value_at_path_def refs_wf_def)
  qed
  then show ?thesis by (auto simp: validate_profile_inline_ownership_def)
qed

text \<open>A successful application, step by step.\<close>

lemma apply_effective_profile_Inr:
  assumes applied: "apply_effective_profile ok spec (Some eff) selection evaluator = Inr (spec', Some sel)"
    and decl: "declaration_wf (ef_Declaration eff)" "colon_free (ef_Declaration eff)"
  obtains owned v vl cs where
    "validate_profile_declaration ok (Some (ef_Declaration eff)) = Inr owned" "(v, vl) \<in> set (pd_Values (ef_Declaration eff))"
    "fst ` set owned \<subseteq> cr_Name ` set (rs_ComponentRefs spec)"
    "append_profile_constraints (pd_Name (ef_Declaration eff)) v evaluator (rs_Constraints spec) (pv_Constraints vl) = Inr cs"
    "rs_Constraints spec' = sort_key co_Name cs"
    "rs_ComponentRefs spec' = foldl (apply_profile_ref (component_index (rs_ComponentRefs spec))) (rs_ComponentRefs spec) (pv_ComponentRefs vl)"
    "sel = \<lparr>sp_Name = pd_Name (ef_Declaration eff), sp_Value = v, sp_Advertiser = pv_Advertiser vl, sp_OwnedPaths = Some owned\<rparr>"
    "is_ok (validate_selected_profile sel)"
proof -
  let ?decl = "ef_Declaration eff"
  obtain choice owned v vl where owned: "validate_profile_declaration ok (Some ?decl) = Inr owned"
    and chosen: "choose_profile_value ?decl choice = Inr (v, vl)"
    and appl: "apply_profile_value ?decl owned v vl evaluator spec = Inr (spec', Some sel)"
    using applied by (auto simp: apply_effective_profile_def Let_def res_bind_Inr)
  have look: "map_of (pd_Values ?decl) v = Some vl" using chosen by (auto simp: choose_profile_value_def res_bind_Inr split: option.splits)
  have vl: "(v, vl) \<in> set (pd_Values ?decl)" using map_of_SomeD [OF look] .
  note own = declaration_owns [OF owned decl vl]
  obtain cs where comps: "is_ok (each (check_profile_component (pd_Name ?decl) (rs_ComponentRefs spec)) (sort (map fst owned)))"
    and cs: "append_profile_constraints (pd_Name ?decl) v evaluator (rs_Constraints spec) (pv_Constraints vl) = Inr cs"
    and spec': "rs_Constraints spec' = sort_key co_Name cs"
      "rs_ComponentRefs spec' = foldl (apply_profile_ref (component_index (rs_ComponentRefs spec))) (rs_ComponentRefs spec) (pv_ComponentRefs vl)"
    and sel: "sel = \<lparr>sp_Name = pd_Name ?decl, sp_Value = v, sp_Advertiser = pv_Advertiser vl, sp_OwnedPaths = Some owned\<rparr>"
    using appl by (auto simp: apply_profile_value_def res_bind_Inr is_ok_iff)
  have known: "fst ` set owned \<subseteq> cr_Name ` set (rs_ComponentRefs spec)"
  proof
    fix c assume "c \<in> fst ` set owned"
    then obtain i where "map_of (component_index (rs_ComponentRefs spec)) c = Some i"
      using comps by (auto simp: check_profile_component_def split: option.splits if_splits)
    then show "c \<in> cr_Name ` set (rs_ComponentRefs spec)" using component_index_Some by fastforce
  qed
  have "valid_profile_identifier v" "is_ok (validate_advertiser (pv_Advertiser vl))"
    using validate_profile_declaration_inv(4) [OF owned decl(1), of v] look vl by force+
  then have "is_ok (validate_selected_profile sel)"
    using own validate_profile_declaration_inv(3) [OF owned decl(1)] sel by (auto simp: validate_selected_profile_def is_ok_iff)
  then show thesis using that owned vl known cs spec' sel by blast
qed

text \<open>
  Property C17: applying a profile establishes what the artifact gate asks for, provided the declaration's maps are well formed,
  no component name in the declaration contains a colon (see the property of union totality), and the components of the
  composition have unique names and well-formed overrides. The selected profile meets the metadata
  contract, each component is changed by the chosen fragment only, the constraints are those of the composition and of
  the fragment, and every owned path is assigned inline in the component that owns it.
\<close>

theorem apply_profile_establishes_contract:
  assumes applied: "apply_effective_profile ok spec (Some eff) selection evaluator = Inr (spec', Some sel)"
    and decl: "declaration_wf (ef_Declaration eff)" "colon_free (ef_Declaration eff)"
    and refs: "distinct (map cr_Name (rs_ComponentRefs spec))" "\<forall>ref \<in> set (rs_ComponentRefs spec). wf_map (overrides_of ref)"
  shows "is_ok (validate_selected_profile sel) \<and>
    (\<exists>vl. (sp_Value sel, vl) \<in> set (pd_Values (ef_Declaration eff)) \<and>
       rs_ComponentRefs spec' = map (apply_fragments (pv_ComponentRefs vl)) (rs_ComponentRefs spec) \<and>
       rs_Constraints spec' = sort_key co_Name (rs_Constraints spec @ pv_Constraints vl) \<and>
       (\<forall>ref \<in> set (rs_ComponentRefs spec').
          is_ok (validate_profile_inline_ownership (overrides_of ref) (cr_Name ref) (paths_of (owned_paths sel) (cr_Name ref)))))"
proof -
  let ?decl = "ef_Declaration eff"
  obtain owned v vl cs where A: "validate_profile_declaration ok (Some ?decl) = Inr owned" "(v, vl) \<in> set (pd_Values ?decl)"
    "fst ` set owned \<subseteq> cr_Name ` set (rs_ComponentRefs spec)"
    "append_profile_constraints (pd_Name ?decl) v evaluator (rs_Constraints spec) (pv_Constraints vl) = Inr cs"
    "rs_Constraints spec' = sort_key co_Name cs"
    "rs_ComponentRefs spec' = foldl (apply_profile_ref (component_index (rs_ComponentRefs spec))) (rs_ComponentRefs spec) (pv_ComponentRefs vl)"
    "sel = \<lparr>sp_Name = pd_Name ?decl, sp_Value = v, sp_Advertiser = pv_Advertiser vl, sp_OwnedPaths = Some owned\<rparr>"
    "is_ok (validate_selected_profile sel)"
    by (rule apply_effective_profile_Inr [OF applied decl])
  note own = declaration_owns [OF A(1) decl A(2)] and distinct = validate_profile_declaration_distinct [OF A(1,2) decl(1)]
  have refs': "rs_ComponentRefs spec' = map (apply_fragments (pv_ComponentRefs vl)) (rs_ComponentRefs spec)"
    unfolding A(6) using apply_profile_refs [OF refs(1) distinct(1)] distinct(2) A(3) by blast
  have "refs_wf (pv_ComponentRefs vl)" using decl(1) A(2) unfolding declaration_wf_def by blast
  then have inline: "\<forall>ref \<in> set (rs_ComponentRefs spec').
          is_ok (validate_profile_inline_ownership (overrides_of ref) (cr_Name ref) (paths_of (owned_paths sel) (cr_Name ref)))"
    using apply_fragments_owned [OF conjunct2 [OF own] distinct(1)] refs(2) refs' A(7) by (simp add: owned_paths_def)
  then show ?thesis
    using refs' append_profile_constraints_Inr [OF A(4)] A by auto
qed


subsection \<open>Samples\<close>

definition fragment :: "string \<Rightarrow> value_map \<Rightarrow> profile_value" where
  "fragment name m = \<lparr>pv_Advertiser = [], pv_Constraints = [], pv_ComponentRefs = [\<lparr>pc_Name = name, pc_Overrides = Some m\<rparr>]\<rparr>"

definition driver_profile :: profile_declaration where
  "driver_profile =
     \<lparr>pd_Name = ''gpuStack'', pd_Description = [], pd_Default = ''installed'',
      pd_Values =
        [(''operator'', fragment ''gpu-operator'' [(''driver'', VMap [(''enabled'', VBool True), (''version'', VStr ''570'')])]),
         (''installed'', fragment ''gpu-operator'' [(''driver'', VMap [(''version'', VNull), (''enabled'', VBool False)])])]\<rparr>"

definition driver_spec :: recipe_metadata_spec where
  "driver_spec = empty_spec \<lparr>rs_ComponentRefs :=
     [(empty_ref ''gpu-operator'') \<lparr>cr_Overrides := Some [(''toolkit'', VMap [(''enabled'', VBool True)])]\<rparr>, empty_ref ''nfd'']\<rparr>"

lemma driver_profile_wf: "declaration_wf driver_profile" "colon_free driver_profile"
  by (simp_all add: declaration_wf_def colon_free_def driver_profile_def fragment_def refs_wf_def profile_overrides_def wf_map_def)

lemma driver_profile_owned:
  "validate_profile_declaration (\<lambda>_. True) (Some driver_profile) =
     Inr [(''gpu-operator'', [''driver.enabled'', ''driver.version'', ''enabled''])]"
  by code_simp

lemma declaration_union_total_witness:
  "(''gpu-operator'', ''driver.enabled'') \<in> assigned (pv_ComponentRefs (fragment ''gpu-operator''
     [(''driver'', VMap [(''version'', VNull), (''enabled'', VBool False)])]))"
proof -
  let ?vl = "fragment ''gpu-operator'' [(''driver'', VMap [(''version'', VNull), (''enabled'', VBool False)])]"
  have "(''installed'', ?vl) \<in> set (pd_Values driver_profile)" by (simp add: driver_profile_def)
  note total = conjunct2 [OF declaration_union_total [OF driver_profile_owned driver_profile_wf this]]
  have "''driver.enabled'' \<in> set (paths_of [(''gpu-operator'', [''driver.enabled'', ''driver.version'', ''enabled''])] ''gpu-operator'') \<longleftrightarrow>
      (''gpu-operator'', ''driver.enabled'') \<in> assigned (pv_ComponentRefs ?vl)"
    by (rule total [rule_format]) (simp add: ProfileEnabledPath_def)
  then show ?thesis by (simp add: paths_of_def)
qed

lemma apply_profile_establishes_contract_witness:
  "\<exists>spec' sel. apply_effective_profile (\<lambda>_. True) driver_spec (Some \<lparr>ef_Source = ''aks'', ef_Declaration = driver_profile\<rparr>)
       ''gpuStack=operator'' None = Inr (spec', Some sel) \<and> is_ok (validate_selected_profile sel)"
proof -
  let ?eff = "\<lparr>ef_Source = ''aks'', ef_Declaration = driver_profile\<rparr>"
  have "(case apply_effective_profile (\<lambda>_. True) driver_spec (Some ?eff) ''gpuStack=operator'' None of
          Inr (_, Some _) \<Rightarrow> True | _ \<Rightarrow> False)"
    by code_simp
  then obtain spec' sel where a: "apply_effective_profile (\<lambda>_. True) driver_spec (Some ?eff) ''gpuStack=operator'' None = Inr (spec', Some sel)"
    by (auto split: sum.splits option.splits)
  have "distinct (map cr_Name (rs_ComponentRefs driver_spec))" "\<forall>ref \<in> set (rs_ComponentRefs driver_spec). wf_map (overrides_of ref)"
    by (simp_all add: driver_spec_def empty_ref_def overrides_of_def wf_map_def)
  then have "is_ok (validate_selected_profile sel)"
    by (intro conjunct1 [OF apply_profile_establishes_contract [OF a]]) (simp_all add: driver_profile_wf)
  then show ?thesis using a by blast
qed

text \<open>A selection printed in its canonical form parses back.\<close>

lemma identifier_char_free: "identifier_char c \<Longrightarrow> c \<noteq> CHR ''='' \<and> \<not> is_space c"
  by (auto simp: identifier_char_def is_digit_def is_space_def less_eq_char_def)

lemma parse_profile_selection_string:
  assumes "valid_profile_identifier (ps_Name sel)" "valid_profile_identifier (ps_Value sel)"
  shows "parse_profile_selection (profile_selection_string sel) = Inr (Some sel)"
proof -
  let ?n = "ps_Name sel" and ?v = "ps_Value sel"
  have chars: "\<forall>c \<in> set ?n. c \<noteq> CHR ''='' \<and> \<not> is_space c" "\<forall>c \<in> set ?v. c \<noteq> CHR ''='' \<and> \<not> is_space c"
    using assms identifier_char_free by (auto simp: valid_profile_identifier_def list_all_iff)
  have "filter (\<lambda>c. c = CHR ''='') ?n = []" "filter (\<lambda>c. c = CHR ''='') ?v = []"
    using chars by (auto simp: filter_empty_conv)
  moreover have "takeWhile (\<lambda>c. c \<noteq> CHR ''='') (?n @ ''='' @ ?v) = ?n" "dropWhile (\<lambda>c. c \<noteq> CHR ''='') (?n @ ''='' @ ?v) = ''='' @ ?v"
    using chars(1) by (auto simp: takeWhile_append2 dropWhile_append2)
  moreover have "trim_space (?n @ ''='' @ ?v) = ?n @ ''='' @ ?v"
  proof -
    have ends: "dropWhile is_space (x @ y) = x @ y" if "x \<noteq> []" "\<forall>c \<in> set x. \<not> is_space c" for x y
      using that by (cases x) auto
    have "?n \<noteq> []" "?v \<noteq> []" using assms by (auto simp: valid_profile_identifier_def)
    then show ?thesis
      using ends [of ?n "''='' @ ?v"] ends [of "rev ?v" "''='' @ rev ?n"] chars by (simp add: trim_space_def)
  qed
  ultimately show ?thesis
    using assms by (simp add: parse_profile_selection_def profile_selection_string_def)
qed

text \<open>
  The check of union totality compares texts of the form component, colon, path. With colons in names two
  values pass that assign different paths of different components.
\<close>

lemma colon_names_defeat_totality:
  "let decl = driver_profile \<lparr>pd_Default := ''a'',
                pd_Values := [(''a'', fragment ''x'' [(''y:z'', VBool True)]), (''b'', fragment ''x:y'' [(''z'', VBool True)])]\<rparr>
   in is_ok (validate_profile_declaration (\<lambda>_. True) (Some decl))"
  by code_simp

end
