(* ===== verification/Accounting.thy ===== *)
theory Accounting
  imports Recipe_Result Profile_Lock
begin


section \<open>The Slurm accounting mode (pkg/recipe/accounting.go) and the coherence gate\<close>

text \<open>
  The mode of a build owns value paths of four components, sets their gates in the resolved recipe and recomputes the
  deployment order; the validation of the result checks that what it finds is what the mode asks for. The
  YAML rewrite of the health check is a parameter: from the text of the check, the name and the namespace it gives the
  new text or an error.
\<close>

definition slinkySlurmComponentName :: string where "slinkySlurmComponentName = ''slinky-slurm''"
definition mariaDBOperatorCRDsComponentName :: string where "mariaDBOperatorCRDsComponentName = ''mariadb-operator-crds''"
definition mariaDBOperatorComponentName :: string where "mariaDBOperatorComponentName = ''mariadb-operator''"
definition slurmAccountingMariaDBComponentName :: string where "slurmAccountingMariaDBComponentName = ''slurm-accounting-mariadb''"
definition AccountingModeDisabled :: string where "AccountingModeDisabled = ''disabled''"
definition AccountingModeCustomerManaged :: string where "AccountingModeCustomerManaged = ''customer-managed''"
definition AccountingModeAICRProvided :: string where "AccountingModeAICRProvided = ''aicr-provided''"
definition CriteriaPlatformSlurm :: string where "CriteriaPlatformSlurm = ''slurm''"

lemmas accounting_names =
  slinkySlurmComponentName_def mariaDBOperatorCRDsComponentName_def mariaDBOperatorComponentName_def
  slurmAccountingMariaDBComponentName_def
lemmas accounting_mode_names = AccountingModeDisabled_def AccountingModeCustomerManaged_def AccountingModeAICRProvided_def

definition accounting_modes :: "string list" where
  "accounting_modes = [AccountingModeDisabled, AccountingModeCustomerManaged, AccountingModeAICRProvided]"

definition parse_accounting_mode :: "string \<Rightarrow> string res" where
  "parse_accounting_mode raw =
     (let mode = to_lower (trim_space raw)
      in if mode \<in> set accounting_modes then Inr mode
         else invalid ''invalid Slurm accounting mode %q: must be one of %s'' [raw, join_with '', '' accounting_modes])"

definition is_slurm :: "criteria option \<Rightarrow> bool" where
  "is_slurm criteria = (case criteria of None \<Rightarrow> False | Some c \<Rightarrow> c_Platform c = CriteriaPlatformSlurm)"

text \<open>A build option is a nil function or one that sets the mode; the last one wins.\<close>

datatype build_option = WithAccountingMode string

definition apply_build_option :: "string option \<Rightarrow> build_option option \<Rightarrow> string option" where
  "apply_build_option cfg opt = (case opt of None \<Rightarrow> cfg | Some (WithAccountingMode mode) \<Rightarrow> Some mode)"

definition resolve_build_config :: "criteria option \<Rightarrow> build_option option list \<Rightarrow> string option res" where
  "resolve_build_config criteria opts =
     (let cfg = foldl apply_build_option None opts
      in if cfg \<noteq> None \<and> \<not> is_slurm criteria then
           invalid ''Slurm accounting mode can only be set when recipe platform is slurm'' []
         else if \<not> is_slurm criteria then Inr cfg
         else res_bind (parse_accounting_mode (case cfg of None \<Rightarrow> AccountingModeDisabled | Some mode \<Rightarrow> mode))
                (\<lambda>mode. Inr (Some mode)))"

definition slinky_owned :: "string list" where
  "slinky_owned =
     [''accounting.storageConfig.database'', ''accounting.storageConfig.host'', ''accounting.storageConfig.passwordKeyRef.key'',
      ''accounting.storageConfig.passwordKeyRef.name'', ''accounting.storageConfig.port'', ''accounting.storageConfig.username'']"

definition mariadb_owned :: "string list" where
  "mariadb_owned =
     [''databases'', ''fullnameOverride'', ''grants'', ''mariadb.cleanupPolicy'', ''mariadb.database'',
      ''mariadb.passwordSecretKeyRef.generate'', ''mariadb.passwordSecretKeyRef.key'', ''mariadb.passwordSecretKeyRef.name'',
      ''mariadb.rootPasswordSecretKeyRef.generate'', ''mariadb.rootPasswordSecretKeyRef.key'',
      ''mariadb.rootPasswordSecretKeyRef.name'', ''mariadb.username'', ''namespaceOverride'', ''users'']"

definition accounting_ownership :: "string \<Rightarrow> ownership_domain" where
  "accounting_ownership mode =
     \<lparr>od_Name = ''configuration.slurm.accounting.mode='' @ mode,
      od_Paths =
        [(slinkySlurmComponentName,
            [''accounting.enabled'', ProfileEnabledPath] @ (if mode = AccountingModeAICRProvided then slinky_owned else [])),
         (mariaDBOperatorCRDsComponentName, [ProfileEnabledPath, ''install'']),
         (mariaDBOperatorComponentName, [ProfileEnabledPath, ''install'']),
         (slurmAccountingMariaDBComponentName,
            [ProfileEnabledPath, ''install''] @ (if mode = AccountingModeAICRProvided then mariadb_owned else []))]\<rparr>"

definition validate_accounting_profile_ownership :: "recipe_result \<Rightarrow> string \<Rightarrow> unit res" where
  "validate_accounting_profile_ownership r mode =
     (case selected_profile_of r of
        None \<Rightarrow> Inr ()
      | Some sel \<Rightarrow>
          validate_ownership_disjoint
            \<lparr>od_Name = ''profile '' @ sp_Name sel @ ''='' @ sp_Value sel, od_Paths = owned_paths sel\<rparr>
            (accounting_ownership mode))"

subsection \<open>Applying the mode\<close>

text \<open>\<open>GetComponentRef\<close> returns a pointer to the first reference of the name, through which the code writes.\<close>

fun update_first_ref :: "string \<Rightarrow> (component_ref \<Rightarrow> component_ref) \<Rightarrow> component_ref list \<Rightarrow> component_ref list" where
  "update_first_ref name f [] = []"
| "update_first_ref name f (ref # refs) = (if cr_Name ref = name then f ref # refs else ref # update_first_ref name f refs)"

definition set_component_override :: "string \<Rightarrow> value_map \<Rightarrow> recipe_result \<Rightarrow> recipe_result res" where
  "set_component_override name override r =
     (if get_component_ref r name = None then
        invalid ''Slurm recipe is missing required accounting component %q'' [name]
      else Inr (r \<lparr>rr_ComponentRefs := update_first_ref name
             (\<lambda>ref. ref \<lparr>cr_Overrides := Some (deep_merge (overrides_of ref) override)\<rparr>) (rr_ComponentRefs r)\<rparr>))"

definition append_slurm_accounting_health_check ::
  "(string \<Rightarrow> string \<Rightarrow> string \<Rightarrow> string res) \<Rightarrow> recipe_result \<Rightarrow> recipe_result res" where
  "append_slurm_accounting_health_check rewrite r =
     (case get_component_ref r slinkySlurmComponentName of
        None \<Rightarrow> invalid ''Slurm recipe is missing required component %q'' [slinkySlurmComponentName]
      | Some ref \<Rightarrow>
          if trim_space (cr_HealthCheckAsserts ref) = [] then
            invalid ''enabled Slurm accounting requires a slinky-slurm health check'' []
          else if trim_space (cr_Namespace ref) = [] then
            invalid ''enabled Slurm accounting requires a namespace for slinky-slurm'' []
          else
            res_bind (rewrite (cr_HealthCheckAsserts ref) (cr_Name ref @ ''-accounting'') (cr_Namespace ref)) (\<lambda>data.
              Inr (r \<lparr>rr_ComponentRefs := update_first_ref slinkySlurmComponentName
                     (\<lambda>ref. ref \<lparr>cr_HealthCheckAsserts := data\<rparr>) (rr_ComponentRefs r)\<rparr>)))"

definition mariadb_components :: "string list" where
  "mariadb_components = [mariaDBOperatorCRDsComponentName, mariaDBOperatorComponentName, slurmAccountingMariaDBComponentName]"

definition apply_build_config ::
  "(string \<Rightarrow> string \<Rightarrow> string \<Rightarrow> string res) \<Rightarrow> string option \<Rightarrow> recipe_result \<Rightarrow> recipe_result res" where
  "apply_build_config rewrite cfg r =
     (case cfg of
        None \<Rightarrow> Inr r
      | Some mode \<Rightarrow>
          res_bind (validate_accounting_profile_ownership r mode) (\<lambda>_.
            let r0 = r \<lparr>rr_AccountingMode := Some mode, rr_APIVersion := RecipeResultGroupVersion\<rparr>;
                enabled = mode \<noteq> AccountingModeDisabled; install = mode = AccountingModeAICRProvided
            in res_bind (set_component_override slinkySlurmComponentName
                           [(''accounting'', VMap [(''enabled'', VBool enabled)])] r0) (\<lambda>r1.
               res_bind (if enabled then append_slurm_accounting_health_check rewrite r1 else Inr r1) (\<lambda>r2.
               res_bind (res_fold (\<lambda>r name. set_component_override name [(''install'', VBool install)] r) r2 mariadb_components) (\<lambda>r3.
               res_bind (res_wrap (propagate_or_wrap ErrCodeInternal
                            ''failed to recompute deployment order after applying Slurm accounting mode'')
                           (topological_sort (rr_ComponentRefs r3))) (\<lambda>order.
                 Inr (r3 \<lparr>rr_DeploymentOrder := order\<rparr>)))))))"

subsection \<open>Validating the result\<close>

definition require_accounting_component_enabled :: "recipe_result \<Rightarrow> string \<Rightarrow> string \<Rightarrow> unit res" where
  "require_accounting_component_enabled r component mode =
     (case get_component_ref r component of
        None \<Rightarrow> invalid ''accounting mode requires component %q'' [component]
      | Some ref \<Rightarrow>
          if \<not> is_enabled ref then
            invalid ''component %q must be enabled for Slurm accounting mode %q'' [component, mode]
          else Inr ())"

fun bool_override :: "gval \<Rightarrow> string list \<Rightarrow> bool option" where
  "bool_override v [] = (case v of VBool b \<Rightarrow> Some b | _ \<Rightarrow> None)"
| "bool_override v (key # path) =
     (case v of
        VMap m \<Rightarrow> (case map_of m key of None \<Rightarrow> None | Some v' \<Rightarrow> bool_override v' path)
      | _ \<Rightarrow> None)"

definition require_bool_override :: "recipe_result \<Rightarrow> string \<Rightarrow> string list \<Rightarrow> bool \<Rightarrow> unit res" where
  "require_bool_override r component path expected =
     (case get_component_ref r component of
        None \<Rightarrow> invalid ''accounting mode requires component %q'' [component]
      | Some ref \<Rightarrow>
          if bool_override (VMap (overrides_of ref)) path \<noteq> Some expected then
            invalid ''component %q override %s must be %t for the selected Slurm accounting mode''
              [component, join_with ''.'' path]
          else Inr ())"

definition check_mariadb_component :: "recipe_result \<Rightarrow> string \<Rightarrow> bool \<Rightarrow> string \<Rightarrow> unit res" where
  "check_mariadb_component r mode install name =
     res_bind (require_bool_override r name [''install''] install) (\<lambda>_.
       if install then require_accounting_component_enabled r name mode else Inr ())"

definition validate_accounting_configuration :: "recipe_result \<Rightarrow> unit res" where
  "validate_accounting_configuration r =
     (case rr_AccountingMode r of
        None \<Rightarrow> Inr ()
      | Some mode \<Rightarrow>
          if rr_APIVersion r \<noteq> RecipeResultGroupVersion then
            invalid ''configuration.slurm.accounting requires apiVersion %q (got %q)'' [RecipeResultGroupVersion, rr_APIVersion r]
          else if \<not> is_slurm (rr_Criteria r) then
            invalid ''configuration.slurm.accounting is only valid for a Slurm recipe'' []
          else
            res_bind (parse_accounting_mode mode) (\<lambda>normalized.
              if normalized \<noteq> mode then
                invalid ''configuration.slurm.accounting.mode must use canonical value %q (got %q)'' [normalized, mode]
              else
                res_bind (validate_accounting_profile_ownership r mode) (\<lambda>_.
                let enabled = mode \<noteq> AccountingModeDisabled; install = mode = AccountingModeAICRProvided
                in res_bind (require_bool_override r slinkySlurmComponentName [''accounting'', ''enabled''] enabled) (\<lambda>_.
                   res_bind (if enabled then require_accounting_component_enabled r slinkySlurmComponentName mode else Inr ()) (\<lambda>_.
                     each (check_mariadb_component r mode install) mariadb_components)))))"

definition coherence_problems :: "component_ref list \<Rightarrow> string list" where
  "coherence_problems refs =
     concat (map (\<lambda>ref. if \<not> is_enabled ref then []
                        else case coherence_problem ref of None \<Rightarrow> [] | Some p \<Rightarrow> [problem_text p]) refs)"

definition validate_coherence :: "recipe_result \<Rightarrow> unit res" where
  "validate_coherence r =
     (if rr_APIVersion r \<noteq> [] \<and> \<not> is_supported_recipe_result_api_version (rr_APIVersion r) then
        invalid ''RecipeResult apiVersion %q is not supported'' [rr_APIVersion r]
      else
        res_bind (validate_accounting_configuration r) (\<lambda>_.
          if coherence_problems (rr_ComponentRefs r) = [] then Inr ()
          else invalid ''recipe has incoherent component ref(s): %s'' [join_with ''; '' (sort (coherence_problems (rr_ComponentRefs r)))]))"

definition prepare_and_validate :: "component_registry res \<Rightarrow> recipe_result \<Rightarrow> recipe_result res" where
  "prepare_and_validate registry r =
     res_bind (validate_profile_contract r) (\<lambda>_.
       if list_ex (\<lambda>ref. cr_Name ref = ReservedDeployerKey) (rr_ComponentRefs r) then
         invalid ''recipe component %q uses the reserved deployer override key as its name'' [ReservedDeployerKey]
       else
         res_bind (validate_ref_names (rr_ComponentRefs r)) (\<lambda>_.
         res_bind (backfill_component_types registry (rr_ComponentRefs r)) (\<lambda>refs.
           let r' = r \<lparr>rr_ComponentRefs := canonicalize_component_types refs\<rparr>
           in res_bind (validate_coherence r') (\<lambda>_. Inr r'))))"


subsection \<open>What applying the mode leaves and what it sets\<close>

lemma find_update_first_ref:
  assumes "\<And>ref. cr_Name (f ref) = cr_Name ref"
  shows "find (\<lambda>c. cr_Name c = n) (update_first_ref name f refs) =
    (if n = name then map_option f (find (\<lambda>c. cr_Name c = n) refs) else find (\<lambda>c. cr_Name c = n) refs)"
  by (induction refs) (auto simp: assms)

lemma set_component_override_Inr:
  assumes "set_component_override name override r = Inr r'"
  shows "get_component_ref r' n = (if n = name then map_option (\<lambda>ref. ref \<lparr>cr_Overrides := Some (deep_merge (overrides_of ref) override)\<rparr>)
       (get_component_ref r n) else get_component_ref r n)"
    "get_component_ref r name \<noteq> None" "r' = r \<lparr>rr_ComponentRefs := rr_ComponentRefs r'\<rparr>"
  using assms by (auto simp: set_component_override_def get_component_ref_def find_update_first_ref split: if_splits)

lemma append_health_check_Inr:
  assumes "append_slurm_accounting_health_check rewrite r = Inr r'"
  shows "n \<noteq> slinkySlurmComponentName \<Longrightarrow> get_component_ref r' n = get_component_ref r n"
    "\<exists>data. get_component_ref r' slinkySlurmComponentName =
       map_option (\<lambda>ref. ref \<lparr>cr_HealthCheckAsserts := data\<rparr>) (get_component_ref r slinkySlurmComponentName)"
    "r' = r \<lparr>rr_ComponentRefs := rr_ComponentRefs r'\<rparr>"
  using assms
  by (auto simp: append_slurm_accounting_health_check_def get_component_ref_def find_update_first_ref res_bind_Inr
      split: if_splits option.splits)

lemma accounting_names_distinct [simp]:
  "distinct [slinkySlurmComponentName, mariaDBOperatorCRDsComponentName, mariaDBOperatorComponentName, slurmAccountingMariaDBComponentName]"
  by (simp add: accounting_names)

definition has_install :: "bool \<Rightarrow> component_ref option \<Rightarrow> bool" where
  "has_install b ref = (case ref of None \<Rightarrow> False | Some ref \<Rightarrow> map_of (overrides_of ref) ''install'' = Some (VBool b))"

lemma install_fold:
  assumes "res_fold (\<lambda>r name. set_component_override name [(''install'', VBool b)] r) r names = Inr r'"
  shows "(\<forall>n. n \<notin> set names \<longrightarrow> get_component_ref r' n = get_component_ref r n) \<and>
    (\<forall>n \<in> set names. has_install b (get_component_ref r' n)) \<and> r' = r \<lparr>rr_ComponentRefs := rr_ComponentRefs r'\<rparr>"
  using assms
proof (induction names arbitrary: r' rule: rev_induct)
  case (snoc name names)
  then obtain u where u: "res_fold (\<lambda>r name. set_component_override name [(''install'', VBool b)] r) r names = Inr u"
    and s: "set_component_override name [(''install'', VBool b)] u = Inr r'"
    by (auto simp: res_fold_snoc)
  note IH = snoc.IH [OF u] and S = set_component_override_Inr [OF s]
  have "has_install b (get_component_ref r' name)"
    using S(1) [of name] S(2) by (auto simp: has_install_def overrides_of_def)
  moreover have "has_install b (get_component_ref r' n)" if "n \<in> set names" "n \<noteq> name" for n
    using IH S(1) [of n] that by simp
  ultimately have "\<forall>n \<in> set (names @ [name]). has_install b (get_component_ref r' n)" by auto
  moreover have "r' = r \<lparr>rr_ComponentRefs := rr_ComponentRefs r'\<rparr>"
  proof (rule trans [OF S(3)])
    show "u \<lparr>rr_ComponentRefs := rr_ComponentRefs r'\<rparr> = r \<lparr>rr_ComponentRefs := rr_ComponentRefs r'\<rparr>"
      by (subst conjunct2 [OF conjunct2 [OF IH]]) simp
  qed
  ultimately show ?case using IH S(1) by auto
qed simp


lemma parse_accounting_mode_canonical: "parse_accounting_mode raw = Inr mode \<Longrightarrow> parse_accounting_mode mode = Inr mode \<and> mode \<in> set accounting_modes"
proof -
  assume "parse_accounting_mode raw = Inr mode"
  then have m: "mode \<in> set accounting_modes" by (auto simp: parse_accounting_mode_def Let_def split: if_splits)
  have "\<forall>m \<in> set accounting_modes. parse_accounting_mode m = Inr m" by code_simp
  then show ?thesis using m by blast
qed

text \<open>A successful application, step by step.\<close>

lemma apply_build_config_Inr:
  assumes "apply_build_config rewrite (Some mode) r = Inr r'"
  shows "is_ok (validate_accounting_profile_ownership r mode)"
    "rr_AccountingMode r' = Some mode" "rr_APIVersion r' = RecipeResultGroupVersion" "rr_Criteria r' = rr_Criteria r"
    "rr_Metadata r' = rr_Metadata r" "topological_sort (rr_ComponentRefs r') = Inr (rr_DeploymentOrder r')"
    "\<And>n. n \<notin> insert slinkySlurmComponentName (set mariadb_components) \<Longrightarrow> get_component_ref r' n = get_component_ref r n"
    "\<And>n. n \<in> set mariadb_components \<Longrightarrow> has_install (mode = AccountingModeAICRProvided) (get_component_ref r' n)"
    "\<exists>ref. get_component_ref r' slinkySlurmComponentName = Some ref \<and>
       bool_override (VMap (overrides_of ref)) [''accounting'', ''enabled''] = Some (mode \<noteq> AccountingModeDisabled)"
proof -
  let ?e = "mode \<noteq> AccountingModeDisabled"
  let ?r0 = "r \<lparr>rr_AccountingMode := Some mode, rr_APIVersion := RecipeResultGroupVersion\<rparr>"
  obtain r1 r2 r3 where own: "is_ok (validate_accounting_profile_ownership r mode)"
    and s1: "set_component_override slinkySlurmComponentName [(''accounting'', VMap [(''enabled'', VBool ?e)])] ?r0 = Inr r1"
    and s2: "(if ?e then append_slurm_accounting_health_check rewrite r1 else Inr r1) = Inr r2"
    and s3: "res_fold (\<lambda>r name. set_component_override name [(''install'', VBool (mode = AccountingModeAICRProvided))] r) r2 mariadb_components = Inr r3"
    and s4: "topological_sort (rr_ComponentRefs r3) = Inr (rr_DeploymentOrder r')" "r' = r3 \<lparr>rr_DeploymentOrder := rr_DeploymentOrder r'\<rparr>"
    using assms by (auto simp: apply_build_config_def Let_def res_bind_Inr res_wrap_Inr is_ok_iff simp del: res_fold.simps)
  note S1 = set_component_override_Inr [OF s1] and S3 = install_fold [OF s3]
  have get': "get_component_ref r' n = get_component_ref r3 n" for n
    by (subst s4(2)) (simp add: get_component_ref_def)
  have get0: "get_component_ref ?r0 n = get_component_ref r n" for n by (simp add: get_component_ref_def)
  have not_slinky: "slinkySlurmComponentName \<notin> set mariadb_components"
    using accounting_names_distinct by (simp add: mariadb_components_def)
  obtain ref where ref: "get_component_ref r slinkySlurmComponentName = Some ref" using S1(2) get0 by auto
  have r1: "get_component_ref r1 slinkySlurmComponentName =
      Some (ref \<lparr>cr_Overrides := Some (deep_merge (overrides_of ref) [(''accounting'', VMap [(''enabled'', VBool ?e)])])\<rparr>)"
    using S1(1) [of slinkySlurmComponentName] ref get0 by simp
  have set_to: "bool_override (VMap (deep_merge m [(''accounting'', VMap [(''enabled'', VBool ?e)])])) [''accounting'', ''enabled''] = Some ?e" for m
    by (auto split: option.split gval.split)
  have r2: "\<exists>ref2. get_component_ref r2 slinkySlurmComponentName = Some ref2 \<and>
      cr_Overrides ref2 = Some (deep_merge (overrides_of ref) [(''accounting'', VMap [(''enabled'', VBool ?e)])])"
  proof (cases ?e)
    case True
    then have "append_slurm_accounting_health_check rewrite r1 = Inr r2" using s2 by simp
    from append_health_check_Inr(2) [OF this] r1 show ?thesis by auto
  next
    case False
    then show ?thesis using s2 r1 by simp
  qed
  then obtain ref2 where ref2: "get_component_ref r2 slinkySlurmComponentName = Some ref2"
    "cr_Overrides ref2 = Some (deep_merge (overrides_of ref) [(''accounting'', VMap [(''enabled'', VBool ?e)])])" by blast
  have keep2: "get_component_ref r2 n = get_component_ref r1 n" if "n \<noteq> slinkySlurmComponentName" for n
    using s2 append_health_check_Inr(1) [of rewrite r1 r2 n] that by (auto split: if_splits)
  have eq2: "r2 = r1 \<lparr>rr_ComponentRefs := rr_ComponentRefs r2\<rparr>"
    using s2 append_health_check_Inr(3) [of rewrite r1 r2] by (auto split: if_splits)
  show "is_ok (validate_accounting_profile_ownership r mode)" by (rule own)
  have fields: "rr_AccountingMode r' = rr_AccountingMode ?r0" "rr_APIVersion r' = rr_APIVersion ?r0" "rr_Criteria r' = rr_Criteria ?r0"
    "rr_Metadata r' = rr_Metadata ?r0"
    by (subst s4(2), subst conjunct2 [OF conjunct2 [OF S3]], subst eq2, subst S1(3), simp)+
  then show "rr_AccountingMode r' = Some mode" "rr_APIVersion r' = RecipeResultGroupVersion" "rr_Criteria r' = rr_Criteria r"
    "rr_Metadata r' = rr_Metadata r" by simp_all
  have "rr_ComponentRefs r' = rr_ComponentRefs r3" by (subst s4(2)) simp
  then show "topological_sort (rr_ComponentRefs r') = Inr (rr_DeploymentOrder r')" using s4(1) by simp
  show "get_component_ref r' n = get_component_ref r n" if "n \<notin> insert slinkySlurmComponentName (set mariadb_components)" for n
    using that get' S3 keep2 [of n] S1(1) [of n] get0 by simp
  show "has_install (mode = AccountingModeAICRProvided) (get_component_ref r' n)" if "n \<in> set mariadb_components" for n
    using that get' S3 by simp
  have "get_component_ref r' slinkySlurmComponentName = Some ref2" using get' S3 not_slinky ref2(1) by simp
  then show "\<exists>ref. get_component_ref r' slinkySlurmComponentName = Some ref \<and>
       bool_override (VMap (overrides_of ref)) [''accounting'', ''enabled''] = Some ?e"
    using ref2(2) set_to by (auto simp: overrides_of_def)
qed


lemma resolve_build_config_Some:
  "resolve_build_config criteria opts = Inr (Some mode) \<Longrightarrow>
   is_slurm criteria \<and> parse_accounting_mode mode = Inr mode \<and> mode \<in> set accounting_modes"
  using parse_accounting_mode_canonical
  by (auto simp: resolve_build_config_def Let_def res_bind_Inr split: if_splits)

lemma require_bool_install:
  "has_install b (get_component_ref r name) \<Longrightarrow> is_ok (require_bool_override r name [''install''] b)"
  by (auto simp: has_install_def require_bool_override_def split: option.splits)

lemma require_enabled_iff:
  "is_ok (require_accounting_component_enabled r name mode) \<longleftrightarrow> enabled_component_ref r name \<noteq> None"
  by (simp add: require_accounting_component_enabled_def enabled_component_ref_def split: option.split)

text \<open>
  Property C18: what a build writes for its accounting mode is what the validation of the artifact asks for. The recipe of
  a build validates exactly when the components the mode needs are enabled: the Slurm operator unless accounting is
  disabled, the three database components when the database is provided. Its deployment order is the one of
  its final components.
\<close>

theorem accounting_config_consistent:
  assumes "resolve_build_config (rr_Criteria r) opts = Inr (Some mode)" "apply_build_config rewrite (Some mode) r = Inr r'"
  shows "(is_ok (validate_accounting_configuration r') \<longleftrightarrow>
      (mode \<noteq> AccountingModeDisabled \<longrightarrow> enabled_component_ref r' slinkySlurmComponentName \<noteq> None) \<and>
      (mode = AccountingModeAICRProvided \<longrightarrow> (\<forall>name \<in> set mariadb_components. enabled_component_ref r' name \<noteq> None))) \<and>
    topological_sort (rr_ComponentRefs r') = Inr (rr_DeploymentOrder r')"
proof -
  note cfg = resolve_build_config_Some [OF assms(1)] and A = apply_build_config_Inr [OF assms(2)]
  have own: "is_ok (validate_accounting_profile_ownership r' mode)"
    using A(1) by (simp add: validate_accounting_profile_ownership_def selected_profile_of_def A(5))
  have slinky: "is_ok (require_bool_override r' slinkySlurmComponentName [''accounting'', ''enabled''] (mode \<noteq> AccountingModeDisabled))"
    using A(9) by (auto simp: require_bool_override_def simp del: bool_override.simps)
  have db: "is_ok (check_mariadb_component r' mode (mode = AccountingModeAICRProvided) name) \<longleftrightarrow>
      (mode = AccountingModeAICRProvided \<longrightarrow> enabled_component_ref r' name \<noteq> None)" if db_name: "name \<in> set mariadb_components" for name
  proof -
    obtain w where "require_bool_override r' name [''install''] (mode = AccountingModeAICRProvided) = Inr w"
      using require_bool_install [OF A(8) [OF db_name]] by (auto simp: is_ok_iff)
    then show ?thesis by (simp add: check_mariadb_component_def require_enabled_iff)
  qed
  obtain u v where "validate_accounting_profile_ownership r' mode = Inr u"
    "require_bool_override r' slinkySlurmComponentName [''accounting'', ''enabled''] (mode \<noteq> AccountingModeDisabled) = Inr v"
    using own slinky by (auto simp: is_ok_iff)
  then show ?thesis
    using A(2-6) cfg db require_enabled_iff [of r' slinkySlurmComponentName mode]
    by (auto simp: validate_accounting_configuration_def Let_def is_ok_bind is_ok_iff [of "require_accounting_component_enabled _ _ _"])
qed

text \<open>A component with owned paths is none of the accounting stack: the presence of those is owned by the mode.\<close>

lemma owned_outside_stack:
  assumes "is_ok (validate_accounting_profile_ownership r mode)" "selected_profile_of r = Some sel" "is_ok (validate_selected_profile sel)"
    and comp: "component \<in> fst ` set (owned_paths sel)"
  shows "component \<notin> insert slinkySlurmComponentName (set mariadb_components)"
proof
  assume stack: "component \<in> insert slinkySlurmComponentName (set mariadb_components)"
  obtain ps where ps: "map_of (owned_paths sel) component = Some ps"
    using comp by (cases "map_of (owned_paths sel) component") (auto simp: map_of_eq_None_iff)
  have "is_ok (check_owned_entry (component, ps))"
    using assms(3) map_of_SomeD [OF ps] by (auto simp: validate_selected_profile_def owned_paths_def split: if_splits sum.splits option.splits)
  then have enabled: "ProfileEnabledPath \<in> set ps" by (auto simp: check_owned_entry_def split: if_splits)
  let ?first = "\<lparr>od_Name = ''profile '' @ sp_Name sel @ ''='' @ sp_Value sel, od_Paths = owned_paths sel\<rparr>"
  have "ProfileEnabledPath \<in> set (domain_paths ?first component)"
    using ps enabled by (simp add: domain_paths_def)
  moreover have "ProfileEnabledPath \<in> set (domain_paths (accounting_ownership mode) component)"
    using stack accounting_names_distinct by (auto simp: domain_paths_def accounting_ownership_def mariadb_components_def)
  moreover have "paths_intersect ProfileEnabledPath ProfileEnabledPath" by (simp add: paths_intersect_iff)
  moreover have "is_ok (validate_ownership_disjoint ?first (accounting_ownership mode))"
    using assms(1,2) by (simp add: validate_accounting_profile_ownership_def)
  ultimately show False unfolding ownership_disjoint_iff by blast
qed

text \<open>
  The accounting mode never touches a component the profile owns. When the mode applies to a recipe whose
  selected profile meets the metadata contract, every component with owned paths is as before, and so is every component
  but the four of the accounting stack.
\<close>

theorem accounting_respects_profile:
  assumes "apply_build_config rewrite (Some mode) r = Inr r'" "selected_profile_of r = Some sel" "is_ok (validate_selected_profile sel)"
  shows "(\<forall>component \<in> fst ` set (owned_paths sel). get_component_ref r' component = get_component_ref r component) \<and>
    (\<forall>component. component \<notin> insert slinkySlurmComponentName (set mariadb_components) \<longrightarrow>
       get_component_ref r' component = get_component_ref r component) \<and>
    rr_Metadata r' = rr_Metadata r"
  using apply_build_config_Inr(1,5,7) [OF assms(1)] owned_outside_stack [OF _ assms(2,3)] by blast

definition stack_component :: "string \<Rightarrow> component_ref" where
  "stack_component name =
     (empty_ref name) \<lparr>cr_Type := ComponentTypeHelm, cr_Namespace := ''slurm'', cr_HealthCheckAsserts := ''spec: {steps: []}''\<rparr>"

definition slurm_recipe :: "selected_profile option \<Rightarrow> recipe_result" where
  "slurm_recipe sel =
     \<lparr>rr_Kind = RecipeResultKind, rr_APIVersion = GroupVersion,
      rr_Metadata = \<lparr>rmd_Version = [], rmd_AppliedOverlays = [], rmd_ExcludedOverlays = [], rmd_ConstraintWarnings = [],
        rmd_SelectedProfile = sel\<rparr>,
      rr_Criteria = Some (new_criteria \<lparr>c_Platform := CriteriaPlatformSlurm\<rparr>), rr_AccountingMode = None, rr_Constraints = [],
      rr_ComponentRefs = map stack_component (''gpu-operator'' # slinkySlurmComponentName # mariadb_components),
      rr_DeploymentOrder = [], rr_Validation = None, rr_ResolvedValues = []\<rparr>"

definition append_step :: "string \<Rightarrow> string \<Rightarrow> string \<Rightarrow> string res" where
  "append_step asserts name namespace = Inr (asserts @ name @ namespace)"

lemma accounting_config_consistent_witness:
  "\<exists>r'. apply_build_config append_step (Some AccountingModeAICRProvided) (slurm_recipe None) = Inr r' \<and>
     is_ok (validate_accounting_configuration r')"
proof -
  let ?r = "slurm_recipe None"
  have "is_ok (apply_build_config append_step (Some AccountingModeAICRProvided) ?r)" by code_simp
  then obtain r' where r': "apply_build_config append_step (Some AccountingModeAICRProvided) ?r = Inr r'" by (auto simp: is_ok_iff)
  have cfg: "resolve_build_config (rr_Criteria ?r) [Some (WithAccountingMode '' AICR-provided'')] = Inr (Some AccountingModeAICRProvided)"
    by code_simp
  have "(case apply_build_config append_step (Some AccountingModeAICRProvided) ?r of
          Inl _ \<Rightarrow> False
        | Inr r' \<Rightarrow> list_all (\<lambda>n. enabled_component_ref r' n \<noteq> None) (slinkySlurmComponentName # mariadb_components))"
    by code_simp
  then have "\<forall>n \<in> insert slinkySlurmComponentName (set mariadb_components). enabled_component_ref r' n \<noteq> None"
    by (simp add: r' list_all_iff)
  then show ?thesis using conjunct1 [OF accounting_config_consistent [OF cfg r']] r' by blast
qed

lemma accounting_respects_profile_witness:
  "\<exists>r'. apply_build_config append_step (Some AccountingModeDisabled)
       (slurm_recipe (Some \<lparr>sp_Name = ''gpuStack'', sp_Value = ''operator'', sp_Advertiser = [],
          sp_OwnedPaths = Some [(''gpu-operator'', [''driver.enabled'', ''enabled''])]\<rparr>)) = Inr r' \<and>
     get_component_ref r' ''gpu-operator'' = Some (stack_component ''gpu-operator'')"
proof -
  let ?sel = "\<lparr>sp_Name = ''gpuStack'', sp_Value = ''operator'', sp_Advertiser = [],
          sp_OwnedPaths = Some [(''gpu-operator'', [''driver.enabled'', ''enabled''])]\<rparr>"
  let ?r = "slurm_recipe (Some ?sel)"
  have "is_ok (apply_build_config append_step (Some AccountingModeDisabled) ?r)" by code_simp
  then obtain r' where r': "apply_build_config append_step (Some AccountingModeDisabled) ?r = Inr r'" by (auto simp: is_ok_iff)
  have sel: "selected_profile_of ?r = Some ?sel" by (simp add: selected_profile_of_def slurm_recipe_def)
  have ok: "is_ok (validate_selected_profile ?sel)" by code_simp
  have "get_component_ref ?r ''gpu-operator'' = Some (stack_component ''gpu-operator'')"
    by (simp add: get_component_ref_def slurm_recipe_def stack_component_def empty_ref_def)
  then show ?thesis using accounting_respects_profile [OF r' sel ok] r' by (simp add: owned_paths_def)
qed

end
