(* ===== verification/Recipe_Resolution.thy ===== *)
theory Recipe_Resolution
  imports Profile_Resolution Accounting Coverage
begin


section \<open>Resolving a recipe (pkg/recipe/metadata_store.go, builder.go)\<close>

text \<open>
  The two ways of building a recipe from criteria, with and without a snapshot, and the builder around them. A
  step is the function the code calls, in the code's order, and the first error ends the build. The environment
  holds what comes from outside: the component registry, the files of the data provider (values and texts), the YAML
  rewrite of the Slurm health check and the judgement on scalars the model does not hold. The
  context is not cancelled. The copies made by \<open>cloneComponentRef\<close> are the identity on values.
\<close>

record build_env =
  be_Registry :: "component_registry res"
  be_ReadFile :: "string \<Rightarrow> file_read"
  be_ReadText :: "string \<Rightarrow> string res"
  be_Rewrite :: "string \<Rightarrow> string \<Rightarrow> string \<Rightarrow> string res"
  be_ScalarOk :: "string \<Rightarrow> bool"

subsection \<open>Registry defaults and health checks\<close>

definition hydrate_ref :: "(string \<Rightarrow> string res) \<Rightarrow> component_registry \<Rightarrow> component_ref \<Rightarrow> component_ref res" where
  "hydrate_ref read_text reg ref =
     (if cr_HealthCheckSkip ref then Inr ref
      else if cr_HealthCheckAsserts ref \<noteq> [] then Inr ref
      else (case registry_get (Some reg) (cr_Name ref) of
              None \<Rightarrow> Inr ref
            | Some config \<Rightarrow>
                if cc_AssertFile config = [] then Inr ref
                else
                  res_bind (res_wrap (propagate_or_wrap ErrCodeInternal ''failed to read healthCheck.assertFile for component'')
                              (read_text (cc_AssertFile config)))
                    (\<lambda>data. Inr (ref \<lparr>cr_HealthCheckAsserts := data\<rparr>))))"

definition hydrate_health_check_asserts ::
  "(string \<Rightarrow> string res) \<Rightarrow> component_registry \<Rightarrow> component_ref list \<Rightarrow> component_ref list res" where
  "hydrate_health_check_asserts read_text reg refs =
     res_fold (\<lambda>acc ref. res_bind (hydrate_ref read_text reg ref) (\<lambda>ref'. Inr (acc @ [ref']))) [] refs"

definition apply_all_registry_defaults :: "build_env \<Rightarrow> component_ref list \<Rightarrow> component_ref list res" where
  "apply_all_registry_defaults env refs =
     res_bind (res_wrap (propagate_or_wrap ErrCodeInternal ''failed to get component registry for defaults'') (be_Registry env)) (\<lambda>reg.
       hydrate_health_check_asserts (be_ReadText env) reg
         (map (\<lambda>ref. apply_registry_defaults (registry_get (Some reg) (cr_Name ref)) ref) refs))"

subsection \<open>From the composition to the result\<close>

definition check_dependencies :: "component_ref list \<Rightarrow> unit res" where
  "check_dependencies refs =
     (case validate_dependencies refs of
        None \<Rightarrow> Inl (err_new ErrCodeInternal ''out of fuel'' [])
      | Some r \<Rightarrow> r)"

definition finalize_recipe_result ::
  "build_env \<Rightarrow> criteria \<Rightarrow> recipe_metadata_spec \<Rightarrow> string list \<Rightarrow> recipe_result res" where
  "finalize_recipe_result env q spec applied =
     res_bind (res_wrap (err_wrap ErrCodeInvalidRequest ''merged recipe validation failed'' [])
                 (check_dependencies (rs_ComponentRefs spec))) (\<lambda>_.
     res_bind (res_wrap (err_wrap ErrCodeInternal ''failed to compute deployment order'' [])
                 (topological_sort (rs_ComponentRefs spec))) (\<lambda>order.
     res_bind (apply_all_registry_defaults env (canonicalize_component_types (rs_ComponentRefs spec))) (\<lambda>refs.
       let r = \<lparr>rr_Kind = RecipeResultKind, rr_APIVersion = GroupVersion,
                rr_Metadata = \<lparr>rmd_Version = [], rmd_AppliedOverlays = applied, rmd_ExcludedOverlays = [],
                               rmd_ConstraintWarnings = [], rmd_SelectedProfile = None\<rparr>,
                rr_Criteria = Some q, rr_AccountingMode = None, rr_Constraints = rs_Constraints spec,
                rr_ComponentRefs = refs, rr_DeploymentOrder = order, rr_Validation = rs_Validation spec,
                rr_ResolvedValues = []\<rparr>
       in res_bind (validate_ref_names refs) (\<lambda>_. res_bind (validate_coherence r) (\<lambda>_. Inr r)))))"

definition attach_profile :: "build_env \<Rightarrow> selected_profile option \<Rightarrow> recipe_result \<Rightarrow> recipe_result res" where
  "attach_profile env selected r =
     (case selected of
        None \<Rightarrow> Inr r
      | Some sel \<Rightarrow>
          let r' = r \<lparr>rr_APIVersion := RecipeResultGroupVersion,
                      rr_Metadata := (rr_Metadata r) \<lparr>rmd_SelectedProfile := Some sel\<rparr>\<rparr>
          in res_bind (validate_profile_values (be_ReadFile env) (be_ScalarOk env) r') (\<lambda>_. Inr r'))"

subsection \<open>Building from the criteria alone\<close>

definition build_recipe_result_with_profile ::
  "build_env \<Rightarrow> metadata_store \<Rightarrow> criteria \<Rightarrow> string \<Rightarrow> recipe_result res" where
  "build_recipe_result_with_profile env s q selection =
     (let overlays = find_matching_overlays s q in
      res_bind (require_os_if_needed s q overlays) (\<lambda>_.
      res_bind (resolve_profile_declaration (be_ScalarOk env) s overlays) (\<lambda>effective.
      res_bind (merge_overlay_chains s overlays (init_base_merged_spec s)) (\<lambda>(spec, applied).
      res_bind (merge_mixins s spec) (\<lambda>(spec1, _).
      res_bind (verify_criteria_coverage s q applied []) (\<lambda>_.
      res_bind (apply_effective_profile (be_ScalarOk env) spec1 effective selection None) (\<lambda>(spec2, selected).
      res_bind (finalize_recipe_result env q spec2 applied)
        (attach_profile env selected))))))))"

subsection \<open>Building against a snapshot\<close>

type_synonym filtered = "recipe_metadata list \<times> excluded_overlay list \<times> constraint_warning list"

definition filter_overlay :: "evaluator \<Rightarrow> filtered \<Rightarrow> recipe_metadata \<Rightarrow> filtered res" where
  "filter_overlay evaluator st ov =
     (case st of (kept, excluded, warnings) \<Rightarrow>
        res_bind (evaluate_overlay_constraints ov evaluator) (\<lambda>(passed, ws).
          Inr (if passed then (kept @ [ov], excluded, warnings)
               else (kept, excluded @ [\<lparr>xo_Name = rm_Name ov, xo_Reason = ConstraintFailed\<rparr>], warnings @ ws))))"

text \<open>The composition that ships: without the candidates whose mixins failed, if there are any.\<close>

definition after_mixins ::
  "mixin_eval_result \<Rightarrow> recipe_metadata_spec \<Rightarrow> string list \<Rightarrow> excluded_overlay list \<Rightarrow> constraint_warning list \<Rightarrow>
   recipe_metadata_spec \<times> string list \<times> excluded_overlay list \<times> constraint_warning list" where
  "after_mixins m spec applied excluded warnings =
     (if me_Failed m then
        ((case me_Spec m of None \<Rightarrow> spec | Some spec' \<Rightarrow> spec'), me_Applied m, excluded @ me_Excluded m, warnings @ me_Warnings m)
      else (spec, applied, excluded, warnings))"

definition compose_filtered ::
  "metadata_store \<Rightarrow> evaluator \<Rightarrow> filtered \<Rightarrow>
   (recipe_metadata_spec \<times> string list \<times> excluded_overlay list \<times> constraint_warning list) res" where
  "compose_filtered s ev st =
     (case st of (kept, excluded, warnings) \<Rightarrow>
        res_bind (merge_overlay_chains s kept (init_base_merged_spec s)) (\<lambda>(spec, applied).
        res_bind (merge_mixins s spec) (\<lambda>(spec', contributed).
        res_bind (evaluate_mixin_constraints s spec' (Some ev) contributed (map rm_Name kept)) (\<lambda>m.
          Inr (after_mixins m spec' applied excluded warnings)))))"

definition record_exclusions :: "excluded_overlay list \<Rightarrow> constraint_warning list \<Rightarrow> recipe_result \<Rightarrow> recipe_result" where
  "record_exclusions excluded warnings r =
     r \<lparr>rr_Metadata := (rr_Metadata r) \<lparr>rmd_ExcludedOverlays := excluded, rmd_ConstraintWarnings := warnings\<rparr>\<rparr>"

definition build_recipe_result_with_evaluator_and_profile ::
  "build_env \<Rightarrow> metadata_store \<Rightarrow> criteria \<Rightarrow> evaluator option \<Rightarrow> string \<Rightarrow> recipe_result res" where
  "build_recipe_result_with_evaluator_and_profile env s q evaluator selection =
     (case evaluator of
        None \<Rightarrow> build_recipe_result_with_profile env s q selection
      | Some ev \<Rightarrow>
          (let overlays = find_matching_overlays s q in
           res_bind (require_os_if_needed s q overlays) (\<lambda>_.
           res_bind (resolve_profile_declaration (be_ScalarOk env) s overlays) (\<lambda>effective.
           res_bind (res_fold (filter_overlay ev) ([], [], []) overlays) (\<lambda>st.
           res_bind (compose_filtered s ev st) (\<lambda>(spec, applied, excluded, warnings).
             res_bind (resolve_applied_profile_declaration (be_ScalarOk env) s applied) (\<lambda>surviving.
             res_bind (ensure_profile_declaration_survived effective surviving) (\<lambda>_.
             res_bind (verify_criteria_coverage s q applied excluded) (\<lambda>_.
             res_bind (apply_effective_profile (be_ScalarOk env) spec effective selection (Some ev)) (\<lambda>(spec2, selected).
             res_bind (finalize_recipe_result env q spec2 applied) (\<lambda>r.
             res_bind (attach_profile env selected r) (\<lambda>r'.
               Inr (record_exclusions excluded warnings r')))))))))))))"

subsection \<open>The builder\<close>

definition build_with_store ::
  "build_env \<Rightarrow> metadata_store res \<Rightarrow> string \<Rightarrow> criteria option \<Rightarrow> build_option option list \<Rightarrow>
   (metadata_store \<Rightarrow> criteria \<Rightarrow> recipe_result res) \<Rightarrow> recipe_result res" where
  "build_with_store env store version c opts build_fn =
     (case c of
        None \<Rightarrow> invalid ''criteria cannot be nil'' []
      | Some q \<Rightarrow>
          res_bind (resolve_build_config c opts) (\<lambda>cfg.
          res_bind (res_wrap (propagate_or_wrap ErrCodeInternal ''failed to load metadata store'') store) (\<lambda>s.
          res_bind (build_fn s q) (\<lambda>r.
          res_bind (apply_build_config (be_Rewrite env) cfg
                      (if version \<noteq> [] then r \<lparr>rr_Metadata := (rr_Metadata r) \<lparr>rmd_Version := version\<rparr>\<rparr> else r)) (\<lambda>r'.
          res_bind (validate_coherence r') (\<lambda>_. Inr r'))))))"

definition build_from_criteria_with_profile ::
  "build_env \<Rightarrow> metadata_store res \<Rightarrow> string \<Rightarrow> criteria option \<Rightarrow> string \<Rightarrow> build_option option list \<Rightarrow> recipe_result res" where
  "build_from_criteria_with_profile env store version c selection opts =
     build_with_store env store version c opts (\<lambda>s q. build_recipe_result_with_profile env s q selection)"

definition build_from_criteria_with_evaluator_and_profile ::
  "build_env \<Rightarrow> metadata_store res \<Rightarrow> string \<Rightarrow> criteria option \<Rightarrow> evaluator option \<Rightarrow> string \<Rightarrow>
   build_option option list \<Rightarrow> recipe_result res" where
  "build_from_criteria_with_evaluator_and_profile env store version c evaluator selection opts =
     build_with_store env store version c opts
       (\<lambda>s q. build_recipe_result_with_evaluator_and_profile env s q evaluator selection)"


subsection \<open>What the order depends on\<close>

definition order_key :: "component_ref \<Rightarrow> string \<times> string list \<times> bool" where
  "order_key c = (cr_Name c, cr_DependencyRefs c, is_enabled c)"

lemma topological_sort_cong:
  assumes "map order_key refs = map order_key refs'"
  shows "topological_sort refs = topological_sort refs'"
proof -
  have keys: "list_all2 (\<lambda>a b. order_key a = order_key b) refs refs'"
    using assms by (simp add: list_all2_conv_all_nth list_eq_iff_nth_eq)
  have "map cr_Name refs = map cr_Name refs' \<and> map cr_Name (filter is_enabled refs) = map cr_Name (filter is_enabled refs')"
    using keys by (induction rule: list_all2_induct) (auto simp: order_key_def)
  then have sets: "component_sets refs = component_sets refs'" by (simp add: component_sets_def)
  have fold: "foldl (add_node D E) g refs = foldl (add_node D E) g refs'" for D E g
    using keys by (induction arbitrary: g rule: list_all2_induct) (auto simp: add_node_def kept_deps_def order_key_def)
  have "build_dependency_graph refs = build_dependency_graph refs'"
    unfolding build_dependency_graph_def sets fold ..
  then show ?thesis by (simp add: topological_sort_def)
qed

subsection \<open>What the stages keep and establish\<close>

lemma collect_map:
  "res_fold (\<lambda>acc x. res_bind (f x) (\<lambda>y. Inr (acc @ [y]))) acc xs = Inr ys \<Longrightarrow>
   \<exists>zs. ys = acc @ zs \<and> list_all2 (\<lambda>x z. f x = Inr z) xs zs"
proof (induction xs arbitrary: acc)
  case (Cons x xs)
  then obtain z where z: "f x = Inr z" "res_fold (\<lambda>acc x. res_bind (f x) (\<lambda>y. Inr (acc @ [y]))) (acc @ [z]) xs = Inr ys"
    by (auto simp: res_bind_Inr split: sum.splits)
  then show ?case using Cons.IH [OF z(2)] by force
qed simp

definition ref_type_canonical :: "component_ref \<Rightarrow> bool" where
  "ref_type_canonical c \<longleftrightarrow> canonical_type (cr_Type c) = cr_Type c"

lemma canonical_types [simp]:
  "canonical_type ComponentTypeHelm = ComponentTypeHelm" "canonical_type ComponentTypeKustomize = ComponentTypeKustomize"
  by (simp_all add: canonical_type_def equal_fold_def)

lemma defaults_keep_order_key: "order_key (apply_registry_defaults cfg ref) = order_key ref"
  by (simp add: order_key_def is_enabled_def)

lemma defaults_canonical: "ref_type_canonical ref \<Longrightarrow> ref_type_canonical (apply_registry_defaults cfg ref)"
  using get_type_cases [of cfg]
  by (cases cfg) (auto simp: ref_type_canonical_def apply_registry_defaults_def defaults_select)

lemma hydrate_ref_Inr:
  "hydrate_ref read reg ref = Inr ref' \<Longrightarrow> \<exists>asserts. ref' = ref \<lparr>cr_HealthCheckAsserts := asserts\<rparr>"
  by (auto simp: hydrate_ref_def res_bind_Inr split: if_splits option.splits intro: exI [of _ "cr_HealthCheckAsserts ref"])

lemma hydrate_keeps: "hydrate_ref read reg ref = Inr ref' \<Longrightarrow> order_key ref' = order_key ref \<and> cr_Type ref' = cr_Type ref"
  using hydrate_ref_Inr by (fastforce simp: order_key_def is_enabled_def)

lemma all_defaults_Inr:
  assumes "apply_all_registry_defaults env refs = Inr refs'" "\<forall>ref \<in> set refs. ref_type_canonical ref"
  shows "map order_key refs' = map order_key refs \<and> (\<forall>ref \<in> set refs'. ref_type_canonical ref)"
proof -
  obtain reg where h: "hydrate_health_check_asserts (be_ReadText env) reg
      (map (\<lambda>ref. apply_registry_defaults (registry_get (Some reg) (cr_Name ref)) ref) refs) = Inr refs'"
    using assms(1) by (auto simp: apply_all_registry_defaults_def res_bind_Inr res_wrap_Inr)
  let ?mid = "map (\<lambda>ref. apply_registry_defaults (registry_get (Some reg) (cr_Name ref)) ref) refs"
  have step: "list_all2 (\<lambda>x z. hydrate_ref (be_ReadText env) reg x = Inr z) ?mid refs'"
    using collect_map [of "hydrate_ref (be_ReadText env) reg"] h by (fastforce simp: hydrate_health_check_asserts_def)
  have "map order_key refs' = map order_key ?mid \<and> map cr_Type refs' = map cr_Type ?mid"
    using step by (induction rule: list_all2_induct) (auto dest: hydrate_keeps)
  moreover have "map order_key ?mid = map order_key refs" by (simp add: defaults_keep_order_key)
  moreover have "\<forall>ref \<in> set ?mid. ref_type_canonical ref" using assms(2) by (simp add: defaults_canonical)
  moreover have "(\<forall>ref \<in> set refs'. ref_type_canonical ref) \<longleftrightarrow> (\<forall>t \<in> set (map cr_Type refs'). canonical_type t = t)" for refs'
    by (simp add: ref_type_canonical_def)
  ultimately show ?thesis by (simp only:)
qed

lemma canonicalize_keeps:
  "map order_key (canonicalize_component_types refs) = map order_key refs"
  "\<forall>ref \<in> set (canonicalize_component_types refs). ref_type_canonical ref"
  by (simp_all add: canonicalize_component_types_def order_key_def ref_type_canonical_def)

lemma names_of_order_keys: "map fst (map order_key refs) = map cr_Name refs"
  by (simp add: order_key_def comp_def)

lemma map_order_key_names: "map order_key refs = map order_key refs' \<Longrightarrow> map cr_Name refs = map cr_Name refs'"
  using names_of_order_keys [of refs] names_of_order_keys [of refs'] by (simp only:)

lemma finalize_Inr:
  assumes "finalize_recipe_result env q spec applied = Inr r"
  shows "topological_sort (rr_ComponentRefs r) = Inr (rr_DeploymentOrder r)"
    "is_ok (validate_ref_names (rr_ComponentRefs r))" "is_ok (validate_coherence r)"
    "\<forall>ref \<in> set (rr_ComponentRefs r). ref_type_canonical ref"
    "map cr_Name (rr_ComponentRefs r) = map cr_Name (rs_ComponentRefs spec)"
    "is_ok (check_dependencies (rs_ComponentRefs spec))" "rr_Criteria r = Some q" "rr_Kind r = RecipeResultKind"
    "rr_Constraints r = rs_Constraints spec" "rr_APIVersion r = GroupVersion" "rr_AccountingMode r = None"
    "rr_Metadata r = \<lparr>rmd_Version = [], rmd_AppliedOverlays = applied, rmd_ExcludedOverlays = [],
                      rmd_ConstraintWarnings = [], rmd_SelectedProfile = None\<rparr>" "rr_Validation r = rs_Validation spec"
proof -
  obtain order refs where s: "is_ok (check_dependencies (rs_ComponentRefs spec))" "topological_sort (rs_ComponentRefs spec) = Inr order"
    "apply_all_registry_defaults env (canonicalize_component_types (rs_ComponentRefs spec)) = Inr refs"
    "is_ok (validate_ref_names refs)" "is_ok (validate_coherence r)"
    and r: "r = \<lparr>rr_Kind = RecipeResultKind, rr_APIVersion = GroupVersion,
                rr_Metadata = \<lparr>rmd_Version = [], rmd_AppliedOverlays = applied, rmd_ExcludedOverlays = [],
                               rmd_ConstraintWarnings = [], rmd_SelectedProfile = None\<rparr>,
                rr_Criteria = Some q, rr_AccountingMode = None, rr_Constraints = rs_Constraints spec,
                rr_ComponentRefs = refs, rr_DeploymentOrder = order, rr_Validation = rs_Validation spec,
                rr_ResolvedValues = []\<rparr>"
    using assms by (auto simp: finalize_recipe_result_def Let_def res_bind_Inr res_wrap_Inr is_ok_iff)
  have keys: "map order_key refs = map order_key (rs_ComponentRefs spec)" "\<forall>ref \<in> set refs. ref_type_canonical ref"
    using all_defaults_Inr [OF s(3)] canonicalize_keeps by simp_all
  show "topological_sort (rr_ComponentRefs r) = Inr (rr_DeploymentOrder r)"
    using topological_sort_cong [OF keys(1)] s(2) by (simp add: r)
  show "is_ok (validate_ref_names (rr_ComponentRefs r))" "is_ok (validate_coherence r)"
    "\<forall>ref \<in> set (rr_ComponentRefs r). ref_type_canonical ref" "is_ok (check_dependencies (rs_ComponentRefs spec))"
    using s(1,4,5) keys(2) by (simp_all add: r)
  show "map cr_Name (rr_ComponentRefs r) = map cr_Name (rs_ComponentRefs spec)"
    using map_order_key_names [OF keys(1)] by (simp add: r)
  show "rr_Criteria r = Some q" "rr_Kind r = RecipeResultKind"
    "rr_Constraints r = rs_Constraints spec" "rr_APIVersion r = GroupVersion" "rr_AccountingMode r = None"
    "rr_Metadata r = \<lparr>rmd_Version = [], rmd_AppliedOverlays = applied, rmd_ExcludedOverlays = [],
                      rmd_ConstraintWarnings = [], rmd_SelectedProfile = None\<rparr>" "rr_Validation r = rs_Validation spec"
    by (simp_all add: r)
qed

lemma attach_profile_Inr:
  assumes "attach_profile env selected r = Inr r'"
  shows "r' = (case selected of None \<Rightarrow> r
       | Some sel \<Rightarrow> r \<lparr>rr_APIVersion := RecipeResultGroupVersion, rr_Metadata := (rr_Metadata r) \<lparr>rmd_SelectedProfile := Some sel\<rparr>\<rparr>)"
    "\<And>sel. selected = Some sel \<Longrightarrow> is_ok (validate_profile_values (be_ReadFile env) (be_ScalarOk env) r')"
  using assms by (auto simp: attach_profile_def Let_def res_bind_Inr is_ok_iff split: option.splits)


definition ref_shape :: "component_ref \<Rightarrow> string \<times> string" where
  "ref_shape c = (cr_Name c, cr_Type c)"

definition same_frame :: "recipe_result \<Rightarrow> recipe_result \<Rightarrow> bool" where
  "same_frame r r' \<longleftrightarrow>
     map ref_shape (rr_ComponentRefs r') = map ref_shape (rr_ComponentRefs r) \<and>
     rr_ResolvedValues r' = rr_ResolvedValues r \<and> rr_Kind r' = rr_Kind r \<and> rr_Constraints r' = rr_Constraints r \<and>
     rr_Validation r' = rr_Validation r"

lemma same_frame_trans: "same_frame r r' \<Longrightarrow> same_frame r' r'' \<Longrightarrow> same_frame r r''"
  by (simp add: same_frame_def)

lemma update_keeps_shape:
  "(\<And>c. ref_shape (f c) = ref_shape c) \<Longrightarrow> map ref_shape (update_first_ref name f refs) = map ref_shape refs"
  by (induction refs) auto

lemma override_frame: "set_component_override name ov r = Inr r' \<Longrightarrow> same_frame r r'"
  by (auto simp: set_component_override_def same_frame_def update_keeps_shape ref_shape_def split: if_splits)

lemma health_check_frame: "append_slurm_accounting_health_check rewrite r = Inr r' \<Longrightarrow> same_frame r r'"
  by (auto simp: append_slurm_accounting_health_check_def same_frame_def update_keeps_shape ref_shape_def res_bind_Inr
      split: if_splits option.splits)

lemma build_config_frame:
  assumes "apply_build_config rewrite cfg r = Inr r'"
  shows "same_frame r r'"
proof (cases cfg)
  case (Some mode)
  let ?r0 = "r \<lparr>rr_AccountingMode := Some mode, rr_APIVersion := RecipeResultGroupVersion\<rparr>"
  obtain r1 r2 r3 where s: "set_component_override slinkySlurmComponentName [(''accounting'', VMap [(''enabled'', VBool (mode \<noteq> AccountingModeDisabled))])] ?r0 = Inr r1"
    "(if mode \<noteq> AccountingModeDisabled then append_slurm_accounting_health_check rewrite r1 else Inr r1) = Inr r2"
    "res_fold (\<lambda>r name. set_component_override name [(''install'', VBool (mode = AccountingModeAICRProvided))] r) r2 mariadb_components = Inr r3"
    "r' = r3 \<lparr>rr_DeploymentOrder := rr_DeploymentOrder r'\<rparr>"
    using assms by (auto simp: Some apply_build_config_def Let_def res_bind_Inr res_wrap_Inr simp del: res_fold.simps)
  have "same_frame r ?r0" by (simp add: same_frame_def)
  moreover have "same_frame ?r0 r1" by (rule override_frame [OF s(1)])
  moreover have "same_frame r1 r2" using s(2) health_check_frame by (auto simp: same_frame_def split: if_splits)
  moreover have "same_frame r2 r3"
    by (rule res_fold_invariant [OF s(3), where I = "same_frame r2"])
      (auto simp: same_frame_def dest: override_frame [unfolded same_frame_def])
  moreover have "same_frame r3 r'" by (subst s(4)) (simp add: same_frame_def)
  ultimately show ?thesis using same_frame_trans by blast
qed (use assms in \<open>simp add: apply_build_config_def same_frame_def\<close>)

lemma names_of_shape: "map fst (map ref_shape refs) = map cr_Name refs"
  by (simp add: ref_shape_def comp_def)

lemma types_of_shape: "map snd (map ref_shape refs) = map cr_Type refs"
  by (simp add: ref_shape_def comp_def)

lemma frame_names_types:
  assumes "same_frame r r'"
  shows "map cr_Name (rr_ComponentRefs r') = map cr_Name (rr_ComponentRefs r)"
    "map cr_Type (rr_ComponentRefs r') = map cr_Type (rr_ComponentRefs r)"
  using assms unfolding same_frame_def names_of_shape [symmetric] types_of_shape [symmetric] by simp_all

lemma canonical_by_types:
  "(\<forall>ref \<in> set refs. ref_type_canonical ref) \<longleftrightarrow> (\<forall>t \<in> set (map cr_Type refs). canonical_type t = t)"
  by (simp add: ref_type_canonical_def)

subsection \<open>The profile gate sees the components it locks only\<close>

lemma res_fold_cong: "(\<And>s x. x \<in> set xs \<Longrightarrow> f s x = g s x) \<Longrightarrow> res_fold f s xs = res_fold g s xs"
proof (induction xs arbitrary: s)
  case (Cons x xs)
  then show ?case by (simp split: sum.split)
qed simp

lemma validate_profile_values_cong:
  assumes sel: "selected_profile_of r = Some sel" and meta: "selected_profile_of r' = Some sel" "rr_ResolvedValues r' = rr_ResolvedValues r"
    and same: "\<And>c. c \<in> fst ` set (owned_paths sel) \<union> en_Component ` set descriptor \<Longrightarrow> get_component_ref r' c = get_component_ref r c"
  shows "validate_profile_values read_file scalar_ok r' = validate_profile_values read_file scalar_ok r"
proof -
  note sel' = meta(1)
  have trig: "profile_closure_triggered r' = profile_closure_triggered r" by (simp add: profile_closure_triggered_def sel sel')
  have enabled: "enabled_component_ref r' c = enabled_component_ref r c"
    if "c \<in> fst ` set (owned_paths sel) \<union> en_Component ` set descriptor" for c
    by (simp add: enabled_component_ref_def same [OF that])
  have "foldl (lock_entry r') m es = foldl (lock_entry r) m es" if "set es \<subseteq> set descriptor" for m es
    using that enabled by (induction es arbitrary: m) (auto simp: lock_entry_def)
  then have lock: "effective_lock_set r' = effective_lock_set r"
    by (simp add: effective_lock_set_def sel sel' trig)
  have keys: "fst ` set (effective_lock_set r) \<subseteq> fst ` set (owned_paths sel) \<union> en_Component ` set descriptor"
    unfolding effective_lock_set_keys [OF sel] closure_descriptor_entries_def by auto
  have comp: "check_locked_component read_file scalar_ok r' c = check_locked_component read_file scalar_ok r c"
    if c: "c \<in> fst ` set (effective_lock_set r)" for c
  proof -
    have "c \<in> fst ` set (owned_paths sel) \<union> en_Component ` set descriptor" using c keys by blast
    then have at: "enabled_component_ref r' c = enabled_component_ref r c"
      "get_values_for_component read_file r' c = get_values_for_component read_file r c"
      using enabled same by (simp_all add: get_values_for_component_def meta(2) split: option.split)
    show ?thesis unfolding check_locked_component_def lock sel sel' at ..
  qed
  have fold: "res_fold (\<lambda>hydrated component. res_bind (check_locked_component read_file scalar_ok r' component) (\<lambda>values. Inr (upsert component values hydrated)))
       [] (sort (map fst (effective_lock_set r))) =
     res_fold (\<lambda>hydrated component. res_bind (check_locked_component read_file scalar_ok r component) (\<lambda>values. Inr (upsert component values hydrated)))
       [] (sort (map fst (effective_lock_set r)))"
    by (rule res_fold_cong) (simp add: comp)
  have "check_advertiser_coherence r' = check_advertiser_coherence r"
    by (rule ext) (simp add: check_advertiser_coherence_def sel sel' trig)
  then show ?thesis by (simp add: validate_profile_values_def sel sel' lock fold)
qed


subsection \<open>Where declarations and exclusions come from\<close>

text \<open>
  What decoding guarantees of a catalog and the theorems rely on: overlays are keyed by their names, no name is
  empty, and the maps of profile declarations have distinct keys. Names with colons are left out for
  profile components (see the theory of profile resolution).
\<close>

definition catalog_sound :: "metadata_store \<Rightarrow> bool" where
  "catalog_sound s \<longleftrightarrow> store_wf s \<and> [] \<notin> fst ` set (ms_Overlays s) \<and>
     (\<forall>m \<in> set (ms_Base s # map snd (ms_Overlays s)). \<forall>decl.
        rs_Profile (rm_Spec m) = Some decl \<longrightarrow> declaration_wf decl \<and> colon_free decl)"

lemma links_up_members: "links_up s n c \<Longrightarrow> set c \<subseteq> set (map snd (ms_Overlays s))"
  by (induction s n c rule: links_up.induct) (auto dest!: map_of_SomeD intro: rev_image_eqI)

lemma chain_members: "resolve_inheritance_chain s n = Inr ms \<Longrightarrow> set ms \<subseteq> set (ms_Base s # map snd (ms_Overlays s))"
  using links_up_members by (fastforce simp: resolve_Inr)

definition found_stored :: "metadata_store \<Rightarrow> found_profiles \<Rightarrow> bool" where
  "found_stored s found \<longleftrightarrow>
     (\<forall>(src, decl) \<in> set found. \<exists>m \<in> set (ms_Base s # map snd (ms_Overlays s)). rs_Profile (rm_Spec m) = Some decl)"

lemma add_profile_stored:
  assumes "found_stored s found" "add_profile ok src m found = Inr found'" "m \<in> set (ms_Base s # map snd (ms_Overlays s))"
  shows "found_stored s found'"
proof (cases "rs_Profile (rm_Spec m)")
  case (Some decl)
  then have "found' = upsert src decl found" using assms(2) by (auto simp: add_profile_def res_bind_Inr)
  then have "set found' \<subseteq> insert (src, decl) (set found)" using set_upsert_subset by simp
  then show ?thesis using assms(1,3) Some unfolding found_stored_def by blast
qed (use assms in \<open>auto simp: add_profile_def res_bind_Inr\<close>)

lemma resolved_declaration_stored:
  assumes "resolve_profile_declaration ok s overlays = Inr (Some eff)"
  shows "\<exists>m \<in> set (ms_Base s # map snd (ms_Overlays s)). rs_Profile (rm_Spec m) = Some (ef_Declaration eff)"
proof -
  obtain found0 found where f: "add_profile ok base_recipe_name (ms_Base s) [] = Inr found0"
    "res_fold (add_chain_profiles ok s) found0 overlays = Inr found"
    "(case found of [] \<Rightarrow> Inr None | [(source, decl)] \<Rightarrow> Inr (Some \<lparr>ef_Source = source, ef_Declaration = decl\<rparr>)
       | _ \<Rightarrow> invalid ''resolved composition has multiple profile declarations from %v'' (sort (map fst found))) = Inr (Some eff)"
    using assms by (auto simp: resolve_profile_declaration_def res_bind_Inr)
  have one: "\<exists>src. found = [(src, ef_Declaration eff)]" using f(3) by (auto split: list.splits)
  have "found_stored s []" by (simp add: found_stored_def)
  then have f0: "found_stored s found0" by (rule add_profile_stored [OF _ f(1)]) simp
  have "found_stored s found"
  proof (rule res_fold_invariant [where I = "found_stored s", OF f(2) f0])
    fix u ov v assume u: "found_stored s u" and v: "add_chain_profiles ok s u ov = Inr v"
    then obtain ms where ms: "resolve_inheritance_chain s (rm_Name ov) = Inr ms"
      "res_fold (\<lambda>found m. add_profile ok (profile_source s m) m found) u ms = Inr v"
      by (auto simp: add_chain_profiles_def res_bind_Inr res_wrap_Inr)
    show "found_stored s v"
    proof (rule res_fold_invariant [where I = "found_stored s", OF ms(2) u])
      fix w m x assume mem: "m \<in> set ms" and w: "found_stored s w" and x: "add_profile ok (profile_source s m) m w = Inr x"
      show "found_stored s x" by (rule add_profile_stored [OF w x]) (use mem chain_members [OF ms(1)] in blast)
    qed
  qed
  then show ?thesis using one by (auto simp: found_stored_def)
qed

lemma selected_profile_contract:
  assumes "catalog_sound s" "resolve_profile_declaration ok s overlays = Inr effective"
    "apply_effective_profile ok spec effective selection ev = Inr (spec', selected)"
  shows "\<forall>sel. selected = Some sel \<longrightarrow> is_ok (validate_selected_profile sel)"
proof (cases effective)
  case None
  then show ?thesis using assms(3) by (auto simp: apply_effective_profile_def res_bind_Inr split: option.splits)
next
  case (Some eff)
  obtain m where m: "m \<in> set (ms_Base s # map snd (ms_Overlays s))" "rs_Profile (rm_Spec m) = Some (ef_Declaration eff)"
    using resolved_declaration_stored assms(2) Some by blast
  then have decl: "declaration_wf (ef_Declaration eff)" "colon_free (ef_Declaration eff)"
    using assms(1) unfolding catalog_sound_def by blast+
  show ?thesis
  proof (intro allI impI)
    fix sel assume "selected = Some sel"
    then have "apply_effective_profile ok spec (Some eff) selection ev = Inr (spec', Some sel)" using assms(3) Some by simp
    from apply_effective_profile_Inr [OF this decl] show "is_ok (validate_selected_profile sel)" by metis
  qed
qed

definition warnings_named :: "constraint_warning list \<Rightarrow> bool" where
  "warnings_named ws \<longleftrightarrow> (\<forall>w \<in> set ws. cw_Overlay w \<noteq> [] \<and> cw_Constraint w \<noteq> [] \<and> cw_Expected w \<noteq> [])"

lemma warnings_named_simps [simp]: "warnings_named []" "warnings_named (a @ b) \<longleftrightarrow> warnings_named a \<and> warnings_named b"
  by (auto simp: warnings_named_def)

lemma metadata_items_ok:
  "is_ok (validate_profile_metadata_items r) \<longleftrightarrow>
     [] \<notin> xo_Name ` set (rmd_ExcludedOverlays (rr_Metadata r)) \<and> warnings_named (rmd_ConstraintWarnings (rr_Metadata r))"
proof -
  let ?a = "each (\<lambda>x. if xo_Name x = [] then invalid ''metadata.excludedOverlays[].name is required'' [] else Inr ())
             (rmd_ExcludedOverlays (rr_Metadata r))"
  have a: "is_ok ?a \<longleftrightarrow> [] \<notin> xo_Name ` set (rmd_ExcludedOverlays (rr_Metadata r))" by (simp add: image_iff) metis
  show ?thesis
  proof (cases ?a)
    case (Inl err)
    then show ?thesis using a by (simp add: validate_profile_metadata_items_def)
  next
    case (Inr u)
    then have "[] \<notin> xo_Name ` set (rmd_ExcludedOverlays (rr_Metadata r))" using a by simp
    then show ?thesis by (simp add: validate_profile_metadata_items_def Inr warnings_named_def) blast
  qed
qed

lemma evaluated_warnings_named:
  assumes "evaluate_constraints_from name ev (p, ws) cs = Inr (p', ws')" "name \<noteq> []" "warnings_named ws"
  shows "warnings_named ws'"
  using assms
proof (induction cs arbitrary: p ws)
  case (Cons c cs)
  have src: "co_Name c \<noteq> [] \<and> co_Value c \<noteq> []"
    using Cons.prems(1) by (auto simp: validate_constraint_warning_source_def split: if_splits)
  then have valid: "validate_constraint_warning_source c = Inr ()" by (simp add: validate_constraint_warning_source_def)
  have "\<exists>q vs. evaluate_constraints_from name ev (q, ws @ vs) cs = Inr (p', ws') \<and>
      (vs = [] \<or> (\<exists>actual reason. vs = [\<lparr>cw_Overlay = name, cw_Constraint = co_Name c, cw_Expected = co_Value c, cw_Actual = actual, cw_Reason = reason\<rparr>]))"
  proof (cases "ev_Error (ev c)")
    case None
    show ?thesis
    proof (cases "ev_Passed (ev c)")
      case True
      then show ?thesis using Cons.prems(1) None by (intro exI [of _ p] exI [of _ "[]"]) (simp add: valid Let_def)
    next
      case False
      then show ?thesis using Cons.prems(1) None by (simp add: valid Let_def) blast
    qed
  next
    case (Some err)
    then show ?thesis using Cons.prems(1) by (simp add: valid Let_def split: if_splits) blast
  qed
  then obtain q vs where step: "evaluate_constraints_from name ev (q, ws @ vs) cs = Inr (p', ws')"
    "vs = [] \<or> (\<exists>actual reason. vs = [\<lparr>cw_Overlay = name, cw_Constraint = co_Name c, cw_Expected = co_Value c, cw_Actual = actual, cw_Reason = reason\<rparr>])"
    by blast
  have "warnings_named vs" using step(2) src Cons.prems(2) by (auto simp: warnings_named_def)
  then show ?case using Cons.IH [OF step(1) Cons.prems(2)] Cons.prems(3) by simp
qed simp


lemma overlay_warnings_named:
  assumes "evaluate_overlay_constraints ov ev = Inr (p, ws)" "rm_Name ov \<noteq> []"
  shows "warnings_named ws"
  using assms evaluated_warnings_named [of "rm_Name ov" ev True "[]"]
  by (auto simp: evaluate_overlay_constraints_def split: if_splits)

definition filtered_named :: "recipe_metadata list \<Rightarrow> filtered \<Rightarrow> bool" where
  "filtered_named overlays st \<longleftrightarrow>
     (case st of (kept, excluded, warnings) \<Rightarrow>
        set kept \<subseteq> set overlays \<and> xo_Name ` set excluded \<subseteq> rm_Name ` set overlays \<and> warnings_named warnings)"

lemma filter_overlays_named:
  assumes "res_fold (filter_overlay ev) ([], [], []) overlays = Inr st" "\<forall>ov \<in> set overlays. rm_Name ov \<noteq> []"
  shows "filtered_named overlays st"
proof (rule res_fold_invariant [where I = "filtered_named overlays", OF assms(1)])
  fix u ov v assume ov: "ov \<in> set overlays" and u: "filtered_named overlays u" and v: "filter_overlay ev u ov = Inr v"
  obtain p ws where e: "evaluate_overlay_constraints ov ev = Inr (p, ws)"
    using v by (auto simp: filter_overlay_def res_bind_Inr split: prod.splits)
  have "warnings_named ws" using overlay_warnings_named [OF e] assms(2) ov by blast
  then show "filtered_named overlays v"
    using u v e ov by (cases u) (auto simp: filter_overlay_def filtered_named_def image_subset_iff split: if_splits)
qed (simp add: filtered_named_def)

lemma evaluate_mixin_cases:
  assumes "evaluate_mixin_constraint ev contributed index st c = Inr st'"
  shows "st' = st \<or> validate_constraint_warning_source c = Inr () \<and> mixin_failure index st c (ev c) = Inr st'"
proof (cases "co_Name c \<in> set contributed")
  case True
  then obtain u where "validate_constraint_warning_source c = Inr u"
    using assms by (cases "validate_constraint_warning_source c") (simp_all add: evaluate_mixin_constraint_def)
  then show ?thesis
    using assms True by (cases "ev_Error (ev c)") (simp_all add: evaluate_mixin_constraint_def Let_def split: if_splits)
qed (use assms in \<open>simp add: evaluate_mixin_constraint_def\<close>)

lemma mixin_loop_named:
  assumes "build_mixin_constraint_candidate_index s candidates = Inr index" "[] \<notin> set candidates"
    "res_fold (evaluate_mixin_constraint ev contributed index) ([], []) cs = Inr (failed, warnings)"
  shows "warnings_named warnings"
proof -
  have affected: "[] \<notin> set (indexed index k)" for k using build_index [OF assms(1)] assms(2) by auto
  have "warnings_named (snd (failed, warnings))"
  proof (rule res_fold_invariant [where I = "\<lambda>st. warnings_named (snd st)", OF assms(3)])
    fix u c v assume u: "warnings_named (snd u)" and v: "evaluate_mixin_constraint ev contributed index u c = Inr v"
    consider "v = u" | "validate_constraint_warning_source c = Inr ()" "mixin_failure index u c (ev c) = Inr v"
      using evaluate_mixin_cases [OF v] by blast
    then show "warnings_named (snd v)"
    proof cases
      case 2
      then show ?thesis
        using u affected [of "co_Name c"]
        by (auto simp: mixin_failure_def Let_def warnings_named_def indexed_def validate_constraint_warning_source_def
            split: if_splits option.splits)
    qed (use u in simp)
  qed simp
  then show ?thesis by simp
qed

lemma evaluate_mixins_named:
  assumes "evaluate_mixin_constraints s spec (Some ev) contributed candidates = Inr m" "[] \<notin> set candidates" "me_Failed m"
  shows "xo_Name ` set (me_Excluded m) \<subseteq> set candidates \<and> warnings_named (me_Warnings m)"
proof -
  obtain index failed warnings where ix: "build_mixin_constraint_candidate_index s candidates = Inr index"
    "res_fold (evaluate_mixin_constraint ev contributed index) ([], []) (rs_Constraints spec) = Inr (failed, warnings)"
    "rebuild_without s failed warnings candidates = Inr m"
    using assms by (auto simp: evaluate_mixin_constraints_def no_mixin_failure_def res_simps split: if_splits prod.splits)
  have "me_Warnings m = warnings" using ix(3) by (auto simp: rebuild_without_def res_simps)
  then show ?thesis using mixin_loop_named [OF ix(1) assms(2) ix(2)] rebuild_Inr [OF ix(3)] by metis
qed

subsection \<open>What a resolution gives\<close>

text \<open>What both ways of resolving a query establish, before the builder applies its configuration.\<close>

definition resolved :: "build_env \<Rightarrow> metadata_store \<Rightarrow> criteria \<Rightarrow> recipe_result \<Rightarrow> bool" where
  "resolved env s q r \<longleftrightarrow>
     topological_sort (rr_ComponentRefs r) = Inr (rr_DeploymentOrder r) \<and>
     is_ok (validate_ref_names (rr_ComponentRefs r)) \<and>
     (\<forall>ref \<in> set (rr_ComponentRefs r). ref_type_canonical ref) \<and>
     rr_Criteria r = Some q \<and> rr_Kind r = RecipeResultKind \<and> rr_AccountingMode r = None \<and>
     uncovered_dimensions s q (rmd_AppliedOverlays (rr_Metadata r)) = [] \<and>
     is_ok (validate_profile_metadata_items r) \<and>
     rr_APIVersion r = (if selected_profile_of r = None then GroupVersion else RecipeResultGroupVersion) \<and>
     (\<forall>sel. selected_profile_of r = Some sel \<longrightarrow> is_ok (validate_selected_profile sel)) \<and>
     is_ok (validate_profile_values (be_ReadFile env) (be_ScalarOk env) r)"

lemma covered: "is_ok (verify_criteria_coverage s q applied excluded) \<longleftrightarrow> uncovered_dimensions s q applied = []"
  by (simp add: verify_criteria_coverage_def coverage_entries_def Let_def)

lemma matching_named:
  assumes "catalog_sound s" "ov \<in> set (find_matching_overlays s q)"
  shows "rm_Name ov \<noteq> []"
proof -
  have "store_wf s" using assms(1) by (simp add: catalog_sound_def)
  then have "map_of (ms_Overlays s) (rm_Name ov) = Some ov" using assms(2) set_find_matching by blast
  then have "rm_Name ov \<in> fst ` set (ms_Overlays s)" by (force dest: map_of_SomeD)
  then show ?thesis using assms(1) unfolding catalog_sound_def by metis
qed

text \<open>The tail that both ways share: finalize, attach the profile, record what was excluded.\<close>

lemma resolved_tail:
  assumes fin: "finalize_recipe_result env q spec applied = Inr r0" and att: "attach_profile env selected r0 = Inr r1"
    and cov: "is_ok (verify_criteria_coverage s q applied excluded0)"
    and sel: "\<forall>sel. selected = Some sel \<longrightarrow> is_ok (validate_selected_profile sel)"
    and named: "[] \<notin> xo_Name ` set excluded" "warnings_named warnings"
  shows "resolved env s q (record_exclusions excluded warnings r1)"
proof -
  note F = finalize_Inr [OF fin] and A = attach_profile_Inr [OF att]
  let ?r = "record_exclusions excluded warnings r1"
  have fields: "rr_ComponentRefs ?r = rr_ComponentRefs r0" "rr_DeploymentOrder ?r = rr_DeploymentOrder r0" "rr_Criteria ?r = Some q"
    "rr_Kind ?r = RecipeResultKind" "rr_AccountingMode ?r = None" "rmd_AppliedOverlays (rr_Metadata ?r) = applied"
    "selected_profile_of ?r = selected" "rmd_ExcludedOverlays (rr_Metadata ?r) = excluded" "rmd_ConstraintWarnings (rr_Metadata ?r) = warnings"
    "rr_APIVersion ?r = (if selected = None then GroupVersion else RecipeResultGroupVersion)"
    using A(1) F(7-12) by (auto simp: record_exclusions_def selected_profile_of_def split: option.split)
  have gate: "is_ok (validate_profile_values (be_ReadFile env) (be_ScalarOk env) ?r)"
  proof (cases selected)
    case None
    then show ?thesis using fields(7) by (simp add: validate_profile_values_def)
  next
    case (Some sel)
    have sel1: "selected_profile_of r1 = Some sel" using A(1) Some by (simp add: selected_profile_of_def)
    have "validate_profile_values (be_ReadFile env) (be_ScalarOk env) ?r = validate_profile_values (be_ReadFile env) (be_ScalarOk env) r1"
      by (rule validate_profile_values_cong [OF sel1]) (use sel1 in \<open>simp_all add: record_exclusions_def selected_profile_of_def get_component_ref_def\<close>)
    then show ?thesis using A(2) Some by simp
  qed
  show ?thesis
    using F(1-4) cov sel named gate fields
    by (simp add: resolved_def covered metadata_items_ok)
qed


lemma resolved_by_profile:
  assumes build: "build_recipe_result_with_profile env s q selection = Inr r" and sound: "catalog_sound s"
  shows "resolved env s q r"
proof -
  obtain effective spec applied spec1 contributed spec2 selected r0 where b:
    "resolve_profile_declaration (be_ScalarOk env) s (find_matching_overlays s q) = Inr effective"
    "is_ok (verify_criteria_coverage s q applied [])"
    "apply_effective_profile (be_ScalarOk env) spec1 effective selection None = Inr (spec2, selected)"
    "finalize_recipe_result env q spec2 applied = Inr r0" "attach_profile env selected r0 = Inr r"
    using build by (auto simp: build_recipe_result_with_profile_def Let_def res_bind_Inr is_ok_iff split: prod.splits)
  have "record_exclusions [] [] r = r"
    using attach_profile_Inr(1) [OF b(5)] finalize_Inr(12) [OF b(4)] by (simp add: record_exclusions_def split: option.split)
  then show ?thesis
    using resolved_tail [OF b(4,5,2) selected_profile_contract [OF sound b(1,3)], of "[]" "[]"] by simp
qed

lemma resolved_by_evaluator:
  assumes build: "build_recipe_result_with_evaluator_and_profile env s q evaluator selection = Inr r" and sound: "catalog_sound s"
  shows "resolved env s q r"
proof (cases evaluator)
  case None
  then show ?thesis using build resolved_by_profile [OF _ sound] by (simp add: build_recipe_result_with_evaluator_and_profile_def)
next
  case (Some ev)
  obtain effective st spec applied excluded warnings spec2 selected r0 r1 where b:
    "resolve_profile_declaration (be_ScalarOk env) s (find_matching_overlays s q) = Inr effective"
    "res_fold (filter_overlay ev) ([], [], []) (find_matching_overlays s q) = Inr st"
    "compose_filtered s ev st = Inr (spec, applied, excluded, warnings)"
    "is_ok (verify_criteria_coverage s q applied excluded)"
    "apply_effective_profile (be_ScalarOk env) spec effective selection (Some ev) = Inr (spec2, selected)"
    "finalize_recipe_result env q spec2 applied = Inr r0" "attach_profile env selected r0 = Inr r1"
    "r = record_exclusions excluded warnings r1"
    using build
    by (auto simp: Some build_recipe_result_with_evaluator_and_profile_def Let_def res_bind_Inr is_ok_iff split: prod.splits)
  obtain kept excluded0 warnings0 where st: "st = (kept, excluded0, warnings0)" by (cases st)
  obtain spec1 contributed m applied0 where c: "evaluate_mixin_constraints s spec1 (Some ev) contributed (map rm_Name kept) = Inr m"
    "after_mixins m spec1 applied0 excluded0 warnings0 = (spec, applied, excluded, warnings)"
    using b(3) by (auto simp: compose_filtered_def st res_bind_Inr split: prod.splits)
  have names: "\<forall>ov \<in> set (find_matching_overlays s q). rm_Name ov \<noteq> []" using matching_named [OF sound] by blast
  note F = filter_overlays_named [OF b(2) names]
  then have sub: "set kept \<subseteq> set (find_matching_overlays s q)"
    "xo_Name ` set excluded0 \<subseteq> rm_Name ` set (find_matching_overlays s q)" and fst1: "warnings_named warnings0"
    using st by (simp_all add: filtered_named_def)
  have "[] \<notin> rm_Name ` set (find_matching_overlays s q)" using names by (metis imageE)
  then have kept: "[] \<notin> set (map rm_Name kept)" and fst0: "[] \<notin> xo_Name ` set excluded0" "warnings_named warnings0"
    using sub fst1 by auto
  have "[] \<notin> xo_Name ` set excluded \<and> warnings_named warnings"
  proof (cases "me_Failed m")
    case True
    then have "excluded = excluded0 @ me_Excluded m" "warnings = warnings0 @ me_Warnings m"
      using c(2) True by (simp_all add: after_mixins_def)
    then show ?thesis using evaluate_mixins_named [OF c(1) kept True] kept fst0 by auto
  next
    case False
    then show ?thesis using c(2) fst0 by (simp add: after_mixins_def)
  qed
  then show ?thesis
    unfolding b(8) using resolved_tail [OF b(6,7,4) selected_profile_contract [OF sound b(1,5)]] by blast
qed

subsection \<open>The builder keeps what the resolution established\<close>

lemma validate_ref_names_by_names: "map cr_Name refs' = map cr_Name refs \<Longrightarrow> validate_ref_names refs' = validate_ref_names refs"
  by (simp add: validate_ref_names_def)

lemma stack_not_in_descriptor: "en_Component ` set descriptor \<inter> insert slinkySlurmComponentName (set mariadb_components) = {}"
  by code_simp

lemma resolved_then_configured:
  assumes res: "resolved env s q r" and conf: "apply_build_config (be_Rewrite env) cfg r = Inr r'"
  shows "topological_sort (rr_ComponentRefs r') = Inr (rr_DeploymentOrder r')"
    "is_ok (validate_ref_names (rr_ComponentRefs r'))" "\<forall>ref \<in> set (rr_ComponentRefs r'). ref_type_canonical ref"
    "rr_Criteria r' = Some q" "rr_Metadata r' = rr_Metadata r"
    "is_ok (validate_profile_values (be_ReadFile env) (be_ScalarOk env) r')" "is_ok (validate_profile_contract r')"
proof -
  note frame = build_config_frame [OF conf]
  show "is_ok (validate_ref_names (rr_ComponentRefs r'))"
    using res validate_ref_names_by_names [OF frame_names_types(1) [OF frame]] by (simp add: resolved_def)
  show "\<forall>ref \<in> set (rr_ComponentRefs r'). ref_type_canonical ref"
    using res frame_names_types(2) [OF frame] unfolding resolved_def canonical_by_types by simp
  have items: "is_ok (validate_profile_metadata_items r)"
    and sel: "\<And>sel. selected_profile_of r = Some sel \<Longrightarrow> is_ok (validate_selected_profile sel)"
    and api: "rr_APIVersion r = (if selected_profile_of r = None then GroupVersion else RecipeResultGroupVersion)"
    using res by (simp_all add: resolved_def)
  have "topological_sort (rr_ComponentRefs r') = Inr (rr_DeploymentOrder r') \<and> rr_Criteria r' = Some q \<and> rr_Metadata r' = rr_Metadata r \<and>
    is_ok (validate_profile_values (be_ReadFile env) (be_ScalarOk env) r') \<and> is_ok (validate_profile_contract r')"
  proof (cases cfg)
    case None
    then have "r' = r" using conf by (simp add: apply_build_config_def)
    then show ?thesis using res api sel items
      by (cases "selected_profile_of r") (auto simp: resolved_def validate_profile_contract_def artifact_names is_ok_def split: sum.splits)
  next
    case (Some mode)
    note A = apply_build_config_Inr [OF conf [unfolded Some]]
    have sel': "selected_profile_of r' = selected_profile_of r" by (simp add: selected_profile_of_def A(5))
    have items': "is_ok (validate_profile_metadata_items r')" using items by (simp add: metadata_items_ok A(5))
    have gate: "is_ok (validate_profile_values (be_ReadFile env) (be_ScalarOk env) r')"
    proof (cases "selected_profile_of r")
      case None
      then show ?thesis using sel' by (simp add: validate_profile_values_def)
    next
      case (Some sl)
      have "validate_profile_values (be_ReadFile env) (be_ScalarOk env) r' = validate_profile_values (be_ReadFile env) (be_ScalarOk env) r"
      proof (rule validate_profile_values_cong [OF Some])
        show "selected_profile_of r' = Some sl" using sel' Some by simp
        show "rr_ResolvedValues r' = rr_ResolvedValues r" using frame by (simp add: same_frame_def)
        show "get_component_ref r' c = get_component_ref r c"
          if "c \<in> fst ` set (owned_paths sl) \<union> en_Component ` set descriptor" for c
        proof (rule A(7))
          show "c \<notin> insert slinkySlurmComponentName (set mariadb_components)"
            using that owned_outside_stack [OF A(1) Some sel [OF Some]] stack_not_in_descriptor by blast
        qed
      qed
      then show ?thesis using res by (simp add: resolved_def)
    qed
    have "is_ok (validate_profile_contract r')"
      using items' sel sel' A(2,3)
      by (cases "selected_profile_of r") (auto simp: validate_profile_contract_def artifact_names is_ok_def split: sum.splits)
    then show ?thesis using A(4-6) gate res by (simp add: resolved_def)
  qed
  then show "topological_sort (rr_ComponentRefs r') = Inr (rr_DeploymentOrder r')" "rr_Criteria r' = Some q" "rr_Metadata r' = rr_Metadata r"
    "is_ok (validate_profile_values (be_ReadFile env) (be_ScalarOk env) r')" "is_ok (validate_profile_contract r')" by blast+
qed


subsection \<open>What the builder emits\<close>

lemma build_steps:
  assumes "build_from_criteria_with_evaluator_and_profile env store version c evaluator selection opts = Inr r"
  obtains s q cfg r0 where "store = Inr s" "c = Some q" "build_recipe_result_with_evaluator_and_profile env s q evaluator selection = Inr r0"
    "apply_build_config (be_Rewrite env) cfg (if version \<noteq> [] then r0 \<lparr>rr_Metadata := (rr_Metadata r0) \<lparr>rmd_Version := version\<rparr>\<rparr> else r0) = Inr r"
    "is_ok (validate_coherence r)"
  using assms
  by (auto simp: build_from_criteria_with_evaluator_and_profile_def build_with_store_def res_bind_Inr res_wrap_Inr is_ok_iff
      split: option.splits simp del: if_split)

lemma resolved_version:
  assumes "resolved env s q r"
  shows "resolved env s q (if version \<noteq> [] then r \<lparr>rr_Metadata := (rr_Metadata r) \<lparr>rmd_Version := version\<rparr>\<rparr> else r)"
proof -
  let ?r = "r \<lparr>rr_Metadata := (rr_Metadata r) \<lparr>rmd_Version := version\<rparr>\<rparr>"
  have "validate_profile_values rf ok ?r = validate_profile_values rf ok r" for rf ok
  proof (cases "selected_profile_of r")
    case (Some sel)
    show ?thesis
      by (rule validate_profile_values_cong [OF Some]) (use Some in \<open>simp_all add: selected_profile_of_def get_component_ref_def\<close>)
  qed (simp add: validate_profile_values_def selected_profile_of_def)
  then have "resolved env s q ?r" using assms by (simp add: resolved_def metadata_items_ok selected_profile_of_def)
  then show ?thesis using assms by simp
qed

lemma built_facts:
  assumes "build_from_criteria_with_evaluator_and_profile env (Inr s) version c evaluator selection opts = Inr r" "catalog_sound s"
  obtains q cfg r0 where "c = Some q" "resolved env s q r0" "apply_build_config (be_Rewrite env) cfg r0 = Inr r" "is_ok (validate_coherence r)"
proof -
  obtain s' q cfg r0 where "Inr s = (Inr s' :: metadata_store res)" and b: "c = Some q"
    "build_recipe_result_with_evaluator_and_profile env s' q evaluator selection = Inr r0"
    "apply_build_config (be_Rewrite env) cfg (if version \<noteq> [] then r0 \<lparr>rr_Metadata := (rr_Metadata r0) \<lparr>rmd_Version := version\<rparr>\<rparr> else r0) = Inr r"
    "is_ok (validate_coherence r)"
    using build_steps [OF assms(1)] by metis
  then have "resolved env s q r0" using resolved_by_evaluator [OF _ assms(2)] by auto
  then show thesis using that [OF b(1) resolved_version b(3,4)] by blast
qed

lemma coherent_refs:
  assumes "is_ok (validate_coherence r)" "ref \<in> set (rr_ComponentRefs r)" "is_enabled ref"
  shows "coherence_problem ref = None"
proof -
  have none: "coherence_problems (rr_ComponentRefs r) = []"
    using assms(1) by (auto simp: validate_coherence_def is_ok_bind split: if_splits)
  let ?f = "\<lambda>ref. if \<not> is_enabled ref then [] else case coherence_problem ref of None \<Rightarrow> [] | Some p \<Rightarrow> [problem_text p]"
  have "?f ref \<in> set (map ?f (rr_ComponentRefs r))" using assms(2) by simp
  then have "?f ref = []" using none unfolding coherence_problems_def concat_eq_Nil_conv by blast
  then show ?thesis using assms(3) by (cases "coherence_problem ref") simp_all
qed

text \<open>
  Property C19: a built recipe is sound, with and without a snapshot, a profile and an accounting mode. Its deployment order
  is the topological order of its final components, its component names are unique, every enabled component deploys coherently,
  every dimension the query states is carried by an applied recipe, the accounting configuration is
  consistent, and the values of the components the profile locks still pass the profile gate, though the mode was applied after it.
\<close>

theorem built_recipe_sound:
  assumes "build_from_criteria_with_evaluator_and_profile env (Inr s) version c evaluator selection opts = Inr r" "catalog_sound s"
  shows "\<exists>q. c = Some q \<and> rr_Criteria r = Some q \<and>
     topological_sort (rr_ComponentRefs r) = Inr (rr_DeploymentOrder r) \<and>
     distinct (filter (\<lambda>n. n \<noteq> []) (map cr_Name (rr_ComponentRefs r))) \<and>
     (\<forall>ref \<in> set (rr_ComponentRefs r). is_enabled ref \<longrightarrow> coherence_problem ref = None) \<and>
     (\<forall>f. stated (crit_get f q) \<longrightarrow> (\<exists>n \<in> set (rmd_AppliedOverlays (rr_Metadata r)). carries s f (crit_get f q) n)) \<and>
     is_ok (validate_accounting_configuration r) \<and>
     is_ok (validate_profile_values (be_ReadFile env) (be_ScalarOk env) r)"
proof -
  obtain q cfg r0 where b: "c = Some q" "resolved env s q r0" "apply_build_config (be_Rewrite env) cfg r0 = Inr r" "is_ok (validate_coherence r)"
    by (rule built_facts [OF assms])
  note R = resolved_then_configured [OF b(2,3)]
  have "uncovered_dimensions s q (rmd_AppliedOverlays (rr_Metadata r)) = []" using b(2) R(5) by (simp add: resolved_def)
  then have cov: "\<forall>f. stated (crit_get f q) \<longrightarrow> (\<exists>n \<in> set (rmd_AppliedOverlays (rr_Metadata r)). carries s f (crit_get f q) n)"
    unfolding set_empty [symmetric] set_uncovered by blast
  have acc: "is_ok (validate_accounting_configuration r)"
    using b(4) by (auto simp: validate_coherence_def res_bind_Inr is_ok_iff split: if_splits)
  have names: "distinct (filter (\<lambda>n. n \<noteq> []) (map cr_Name (rr_ComponentRefs r)))" using R(2) by (simp add: validate_ref_names_ok)
  show ?thesis
    by (rule exI [of _ q]) (use b(1) R(1,4,6) cov acc names coherent_refs [OF b(4)] in blast)
qed

lemma untyped_incoherent: "cr_Type ref = [] \<Longrightarrow> coherence_problem ref \<noteq> None"
  by (simp add: coherence_problem_def equal_fold_def component_types to_lower_def)

text \<open>
  What a build emits, the shared artifact gate accepts as it is. Whatever the registry of the reader is, the gate neither rejects
  a built recipe nor changes it, with one exception: a component named deployer, which the resolution lets through.
\<close>

lemma emitted_recipe_prepares:
  assumes "build_from_criteria_with_evaluator_and_profile env (Inr s) version c evaluator selection opts = Inr r" "catalog_sound s"
  shows "prepare_and_validate registry r =
     (if ReservedDeployerKey \<in> cr_Name ` set (rr_ComponentRefs r) then
        invalid ''recipe component %q uses the reserved deployer override key as its name'' [ReservedDeployerKey]
      else Inr r)"
proof -
  obtain q cfg r0 where b: "c = Some q" "resolved env s q r0" "apply_build_config (be_Rewrite env) cfg r0 = Inr r" "is_ok (validate_coherence r)"
    by (rule built_facts [OF assms])
  note R = resolved_then_configured [OF b(2,3)]
  have "\<not> list_ex (\<lambda>ref. cr_Type ref = [] \<and> is_enabled ref) (rr_ComponentRefs r)"
    using coherent_refs [OF b(4)] untyped_incoherent unfolding list_ex_iff by blast
  then have filled: "backfill_component_types registry (rr_ComponentRefs r) = Inr (rr_ComponentRefs r)"
    by (simp add: backfill_component_types_def)
  have canon: "canonicalize_component_types (rr_ComponentRefs r) = rr_ComponentRefs r"
    unfolding canonicalize_component_types_def by (rule map_idI) (use R(3) in \<open>simp add: ref_type_canonical_def\<close>)
  obtain u v w where "validate_profile_contract r = Inr u" "validate_ref_names (rr_ComponentRefs r) = Inr v" "validate_coherence r = Inr w"
    using R(2,7) b(4) by (auto simp: is_ok_iff)
  moreover have "list_ex (\<lambda>ref. cr_Name ref = ReservedDeployerKey) (rr_ComponentRefs r) \<longleftrightarrow>
      ReservedDeployerKey \<in> cr_Name ` set (rr_ComponentRefs r)"
    unfolding list_ex_iff image_iff by metis
  ultimately show ?thesis by (simp add: prepare_and_validate_def Let_def filled canon)
qed

subsection \<open>Samples\<close>

definition chart_ref :: "string \<Rightarrow> component_ref" where
  "chart_ref name = (empty_ref name) \<lparr>cr_Type := ''helm'', cr_Source := ''oci://r'', cr_Version := ''v1'', cr_Namespace := ''ns''\<rparr>"

definition base_store :: "string list \<Rightarrow> metadata_store" where
  "base_store names =
     \<lparr>ms_Base = \<lparr>rm_Kind = ''RecipeMetadata'', rm_APIVersion = GroupVersion, rm_Name = ''base'',
                rm_Spec = empty_spec \<lparr>rs_ComponentRefs := map chart_ref names\<rparr>\<rparr>,
      ms_Overlays = [], ms_Mixins = []\<rparr>"

definition sample_env :: build_env where
  "sample_env =
     \<lparr>be_Registry = load_registry [], be_ReadFile = (\<lambda>_. ReadFailed), be_ReadText = Inr, be_Rewrite = append_step, be_ScalarOk = (\<lambda>_. True)\<rparr>"

definition sample_build :: "string list \<Rightarrow> recipe_result res" where
  "sample_build names =
     build_from_criteria_with_evaluator_and_profile sample_env (Inr (base_store names)) ''v1'' (Some new_criteria) None [] []"

lemma base_store_sound: "catalog_sound (base_store names)"
  by (simp add: catalog_sound_def store_wf_def base_store_def empty_spec_def)

lemma built_recipe_sound_witness:
  "\<exists>r. sample_build [''gpu-operator''] = Inr r \<and> topological_sort (rr_ComponentRefs r) = Inr (rr_DeploymentOrder r)"
proof -
  have "is_ok (sample_build [''gpu-operator''])" by code_simp
  then obtain r where r: "sample_build [''gpu-operator''] = Inr r" by (auto simp: is_ok_iff)
  then show ?thesis using built_recipe_sound [OF r [unfolded sample_build_def] base_store_sound] by blast
qed

text \<open>The exception occurs: a base recipe with a component of the reserved name builds, and the result does not load.\<close>

lemma deployer_component_builds_but_does_not_load:
  "\<exists>r err. sample_build [''deployer''] = Inr r \<and> prepare_and_validate (load_registry []) r = Inl err"
proof -
  have "(case sample_build [''deployer''] of Inl _ \<Rightarrow> False | Inr r \<Rightarrow> \<not> is_ok (prepare_and_validate (load_registry []) r))"
    by code_simp
  then show ?thesis by (auto simp: is_ok_def split: sum.splits)
qed

end
