(* ===== verification/Recipe_Reload.thy ===== *)
theory Recipe_Reload
  imports Recipe_Resolution Constraint_Eval
begin

section \<open>Loading what was built (pkg/recipe/profile.go)\<close>

text \<open>
  The gate that file load, adoption and the bundler run on a recipe they are given: the shared artifact gate, the names of
  the constraints a snapshot has to answer, and for a profiled recipe the hydrated values. A build from a catalog that was
  loaded passes it. A catalog that was loaded has gone through the same check of names, recipe by recipe and mixin by mixin.
\<close>

definition result_readiness :: "recipe_result \<Rightarrow> constraint list" where
  "result_readiness r =
     (case rr_Validation r of
        None \<Rightarrow> []
      | Some v \<Rightarrow> (case vc_Readiness v of None \<Rightarrow> [] | Some ph \<Rightarrow> slice (vp_Constraints ph)))"

definition prepare_and_validate_with_source ::
  "component_registry res \<Rightarrow> (string \<Rightarrow> file_read) \<Rightarrow> (string \<Rightarrow> bool) \<Rightarrow> string \<Rightarrow> recipe_result \<Rightarrow> recipe_result res" where
  "prepare_and_validate_with_source registry read_file scalar_ok source r =
     res_bind (prepare_and_validate registry r) (\<lambda>r'.
     res_bind (validate_constraint_paths (rr_Constraints r') source ''constraints'') (\<lambda>_.
     res_bind (validate_constraint_paths (result_readiness r') source ''validation.readiness.constraints'') (\<lambda>_.
       if selected_profile_of r' = None then Inr r'
       else res_bind (validate_profile_values read_file scalar_ok r') (\<lambda>_. Inr r'))))"


subsection \<open>Names that stay valid\<close>













subsection \<open>The round trip\<close>


text \<open>A build whose base recipe states a constraint, read back.\<close>

definition constrained_store :: metadata_store where
  "constrained_store =
     (base_store [''gpu-operator'']) \<lparr>ms_Base := (ms_Base (base_store [''gpu-operator'']))
        \<lparr>rm_Spec := (rm_Spec (ms_Base (base_store [''gpu-operator''])))
           \<lparr>rs_Constraints := [zero_constraint \<lparr>co_Name := ''K8s.server.version'', co_Value := ''>= 1.30''\<rparr>]\<rparr>\<rparr>\<rparr>"

definition constrained_build :: "recipe_result res" where
  "constrained_build =
     build_from_criteria_with_evaluator_and_profile sample_env (Inr constrained_store) ''v1'' (Some new_criteria) None [] []"


text \<open>A constraint whose name the catalog of measurements does not know is refused when the recipe is read.\<close>

lemma mistyped_constraint_refused:
  "case constrained_build of Inl _ \<Rightarrow> False
   | Inr r \<Rightarrow> \<not> is_ok (prepare_and_validate_with_source (load_registry []) (be_ReadFile sample_env) (be_ScalarOk sample_env) ''recipe.yaml''
       (r \<lparr>rr_Constraints := [zero_constraint \<lparr>co_Name := ''K8s.server.versionn'', co_Value := ''>= 1.30''\<rparr>]\<rparr>))"
  by code_simp

end
