(* ===== verification/Override_Aliasing.thy ===== *)
theory Override_Aliasing
  imports Spec_Merge
begin

section \<open>Which override maps a merge shares and writes (pkg/recipe/metadata.go)\<close>

text \<open>
  Theory \<open>Spec_Merge\<close> copies values; the code does not. A Go map is a reference: a component's \<open>Overrides\<close>
  points into the cached catalog, \<open>result := base\<close> copies the reference and \<open>deepMergeMap\<close> writes through
  it. Here the override maps live in a heap, a list of cells indexed by address. A cell holds a whole tree
  of nested maps: decoding builds trees and \<open>deepMergeMap\<close> inserts deep copies, so no nested
  map is shared. \<open>hr_Fields\<close> holds the other fields of a reference (its \<open>cr_Overrides\<close> is not used).
  The heap operations refine the value merge, and the last section shows what the sharing does to a second resolution.
\<close>

type_synonym heap = "value_map list"

record href =
  hr_Fields :: component_ref
  hr_Overrides :: "nat option"

definition hr_Name :: "href \<Rightarrow> string" where
  "hr_Name r = cr_Name (hr_Fields r)"

definition load :: "heap \<Rightarrow> nat option \<Rightarrow> value_map" where
  "load h p = (case p of None \<Rightarrow> [] | Some a \<Rightarrow> h ! a)"

text \<open>\<open>mergeComponentRef\<close>: allocate a map only when the base has none, then write through the reference.\<close>

definition merge_component_ref_h :: "heap \<Rightarrow> href \<Rightarrow> href \<Rightarrow> heap \<times> href" where
  "merge_component_ref_h h base overlay =
     (let fields = (merge_component_ref (hr_Fields base) (hr_Fields overlay)) \<lparr>cr_Overrides := None\<rparr>;
          src = load h (hr_Overrides overlay)
      in if length src > 0 then
           (case hr_Overrides base of
              None \<Rightarrow> (h @ [deep_merge [] src], \<lparr>hr_Fields = fields, hr_Overrides = Some (length h)\<rparr>)
            | Some a \<Rightarrow> (h[a := deep_merge (h ! a) src], \<lparr>hr_Fields = fields, hr_Overrides = Some a\<rparr>))
         else (h, \<lparr>hr_Fields = fields, hr_Overrides = hr_Overrides base\<rparr>))"

definition merge_entry_h :: "heap \<times> (string \<times> href) list \<Rightarrow> href \<Rightarrow> heap \<times> (string \<times> href) list" where
  "merge_entry_h st overlay =
     (case st of (h, m) \<Rightarrow>
        (case map_of m (hr_Name overlay) of
           Some base \<Rightarrow> (let (h', r) = merge_component_ref_h h base overlay in (h', upsert (hr_Name overlay) r m))
         | None \<Rightarrow> (h, upsert (hr_Name overlay) overlay m)))"

text \<open>The component part of \<open>Merge\<close> on references: a map keyed by name, then listed and sorted.\<close>

definition merge_refs_h :: "heap \<Rightarrow> href list \<Rightarrow> href list \<Rightarrow> heap \<times> href list" where
  "merge_refs_h h xs ys =
     (let (h', m) = foldl merge_entry_h (h, index_by hr_Name xs) ys in (h', sort_key hr_Name (map snd m)))"

text \<open>The composition of a chain: start with a copy of the base recipe's references, merge each overlay.\<close>

definition compose_refs_h :: "heap \<Rightarrow> href list \<Rightarrow> href list list \<Rightarrow> heap \<times> href list" where
  "compose_refs_h h base_refs overlays = foldl (\<lambda>(h, refs) ys. merge_refs_h h refs ys) (h, base_refs) overlays"

subsection \<open>The heap operations refine the value merge\<close>

definition abs_ref :: "heap \<Rightarrow> href \<Rightarrow> component_ref" where
  "abs_ref h r = (hr_Fields r) \<lparr>cr_Overrides := map_option ((!) h) (hr_Overrides r)\<rparr>"

definition ptrs :: "href list \<Rightarrow> nat list" where
  "ptrs rs = concat (map (\<lambda>r. case hr_Overrides r of None \<Rightarrow> [] | Some a \<Rightarrow> [a]) rs)"

lemma ptrs_simps [simp]:
  "ptrs [] = []" "ptrs (r # rs) = (case hr_Overrides r of None \<Rightarrow> [] | Some a \<Rightarrow> [a]) @ ptrs rs"
  "ptrs (rs @ qs) = ptrs rs @ ptrs qs"
  by (simp_all add: ptrs_def)

lemma abs_ref_agree:
  "(\<And>a. hr_Overrides r = Some a \<Longrightarrow> h' ! a = h ! a) \<Longrightarrow> abs_ref h' r = abs_ref h r"
  by (cases "hr_Overrides r") (simp_all add: abs_ref_def)

lemma cr_Name_abs [simp]: "cr_Name (abs_ref h r) = hr_Name r"
  by (simp add: abs_ref_def hr_Name_def)

lemma merge_overrides_load:
  "merge_overrides (map_option ((!) h) bp) (map_option ((!) h) p) =
     (if load h p = [] then map_option ((!) h) bp else Some (deep_merge (load h bp) (load h p)))"
  by (cases p; cases bp; cases "load h p") (auto simp: merge_overrides_def load_def simp del: deep_merge.simps)

lemma merge_component_ref_fields:
  "merge_component_ref (b \<lparr>cr_Overrides := x\<rparr>) (ov \<lparr>cr_Overrides := y\<rparr>) =
     (merge_component_ref b ov) \<lparr>cr_Overrides := merge_overrides x y\<rparr>"
  by (simp add: merge_component_ref_def)

text \<open>One component: the result stands for the merged value, and only the base's own cell is written.\<close>

lemma merge_component_ref_h_abs:
  assumes "merge_component_ref_h h base overlay = (h', r)"
    and "\<And>a. hr_Overrides base = Some a \<Longrightarrow> a < length h"
    and "\<And>a. hr_Overrides overlay = Some a \<Longrightarrow> a < length h"
  shows "abs_ref h' r = merge_component_ref (abs_ref h base) (abs_ref h overlay)"
    "length h \<le> length h'" "\<And>a. a < length h \<Longrightarrow> hr_Overrides base \<noteq> Some a \<Longrightarrow> h' ! a = h ! a"
    "hr_Name r = hr_Name base"
    "\<And>a. hr_Overrides r = Some a \<Longrightarrow> a < length h' \<and> (hr_Overrides base = Some a \<or> hr_Overrides base = None \<and> length h \<le> a)"
proof -
  have abs: "merge_component_ref (abs_ref h base) (abs_ref h overlay) =
      (merge_component_ref (hr_Fields base) (hr_Fields overlay))
        \<lparr>cr_Overrides := (if load h (hr_Overrides overlay) = [] then map_option ((!) h) (hr_Overrides base)
           else Some (deep_merge (load h (hr_Overrides base)) (load h (hr_Overrides overlay))))\<rparr>"
    unfolding abs_ref_def merge_component_ref_fields merge_overrides_load ..
  show "abs_ref h' r = merge_component_ref (abs_ref h base) (abs_ref h overlay)"
    unfolding abs using assms(1,2)
    by (cases "hr_Overrides base"; cases "load h (hr_Overrides overlay)")
      (auto simp: merge_component_ref_h_def Let_def abs_ref_def load_def nth_append simp del: deep_merge.simps)
  show "length h \<le> length h'" "hr_Name r = hr_Name base"
    "\<And>a. a < length h \<Longrightarrow> hr_Overrides base \<noteq> Some a \<Longrightarrow> h' ! a = h ! a"
    "\<And>a. hr_Overrides r = Some a \<Longrightarrow> a < length h' \<and> (hr_Overrides base = Some a \<or> hr_Overrides base = None \<and> length h \<le> a)"
    using assms(1,2)
    by (auto simp: merge_component_ref_h_def Let_def hr_Name_def nth_append split: if_splits option.splits simp del: deep_merge.simps)
qed

lemma set_upsert_distinct:
  "distinct (map fst m) \<Longrightarrow> set (upsert k v m) = {e \<in> set m. fst e \<noteq> k} \<union> {(k, v)}"
proof (induction m)
  case (Cons e m)
  then show ?case by (cases e; cases "fst e = k") (auto simp: image_iff)
qed simp

definition abs_entries :: "heap \<Rightarrow> (string \<times> href) list \<Rightarrow> (string \<times> component_ref) list" where
  "abs_entries h m = map (\<lambda>(k, r). (k, abs_ref h r)) m"

lemma map_of_abs_entries: "map_of (abs_entries h m) k = map_option (abs_ref h) (map_of m k)"
  by (induction m) (auto simp: abs_entries_def)

lemma abs_entries_upsert:
  "(\<And>e. e \<in> set m \<Longrightarrow> fst e \<noteq> k \<Longrightarrow> abs_ref h' (snd e) = abs_ref h (snd e)) \<Longrightarrow> distinct (map fst m) \<Longrightarrow>
   abs_entries h' (upsert k r m) = upsert k (abs_ref h' r) (abs_entries h m)"
proof (induction m)
  case (Cons e m)
  obtain k' r' where e: "e = (k', r')" by (cases e)
  show ?case
  proof (cases "k' = k")
    case True
    have "map (\<lambda>(k, r). (k, abs_ref h' r)) m = map (\<lambda>(k, r). (k, abs_ref h r)) m"
      using Cons.prems e True by (intro map_cong refl) (force simp: image_iff)
    then show ?thesis by (simp add: e True abs_entries_def)
  next
    case False
    then show ?thesis using Cons.IH Cons.prems(1) [of e] Cons.prems e by (simp add: abs_entries_def)
  qed
qed (simp add: abs_entries_def)

text \<open>
  The state of the loop: every entry's cell belongs to that entry alone and to no reference still to be
  merged.
\<close>

definition separate :: "heap \<Rightarrow> (string \<times> href) list \<Rightarrow> href list \<Rightarrow> bool" where
  "separate h m todo \<longleftrightarrow>
     keyed hr_Name m \<and> distinct (ptrs todo) \<and> (\<forall>a \<in> set (ptrs todo). a < length h) \<and>
     (\<forall>e \<in> set m. \<forall>a. hr_Overrides (snd e) = Some a \<longrightarrow>
        a < length h \<and> a \<notin> set (ptrs todo) \<and> (\<forall>e' \<in> set m. hr_Overrides (snd e') = Some a \<longrightarrow> fst e' = fst e))"

lemma ptr_in_ptrs: "hr_Overrides r = Some a \<Longrightarrow> r \<in> set rs \<Longrightarrow> a \<in> set (ptrs rs)"
  by (auto simp: ptrs_def intro!: bexI [of _ r])

lemma separate_keys:
  assumes "separate h m todo" shows "keyed hr_Name m" "distinct (map fst m)"
  using assms by (auto simp: separate_def keyed_def)

lemma separate_entry:
  assumes "separate h m todo" "e \<in> set m" "hr_Overrides (snd e) = Some a"
  shows "a < length h" "a \<notin> set (ptrs todo)"
    "\<And>e'. e' \<in> set m \<Longrightarrow> hr_Overrides (snd e') = Some a \<Longrightarrow> fst e' = fst e"
  using assms unfolding separate_def by blast+

lemma separate_todo:
  assumes "separate h m (y # todo)"
  shows "distinct (ptrs todo)" "\<And>a. a \<in> set (ptrs todo) \<Longrightarrow> a < length h"
    "\<And>a. hr_Overrides y = Some a \<Longrightarrow> a < length h \<and> a \<notin> set (ptrs todo)"
  using assms by (auto simp: separate_def)

lemma separate_new:
  assumes sep: "separate h m (y # todo)" and new: "hr_Name y \<notin> fst ` set m"
  shows "separate h (upsert (hr_Name y) y m) todo"
proof -
  let ?m = "upsert (hr_Name y) y m"
  have "{e \<in> set m. fst e \<noteq> hr_Name y} = set m" using new by (auto simp: image_iff)
  then have set_m: "set ?m = set m \<union> {(hr_Name y, y)}"
    using set_upsert_distinct [OF separate_keys(2) [OF sep], of "hr_Name y" y] by simp
  have y_only: "hr_Overrides y \<noteq> Some a" if "e \<in> set m" "hr_Overrides (snd e) = Some a" for e a
    using separate_entry(2) [OF sep that] by auto
  have "a < length h \<and> a \<notin> set (ptrs todo) \<and> (\<forall>e' \<in> set ?m. hr_Overrides (snd e') = Some a \<longrightarrow> fst e' = fst e)"
    if asm: "e \<in> set ?m" "hr_Overrides (snd e) = Some a" for e a
  proof (cases "e \<in> set m")
    case True
    have "fst e' = fst e" if "e' \<in> set ?m" "hr_Overrides (snd e') = Some a" for e'
      using that separate_entry(3) [OF sep True asm(2)] y_only [OF True asm(2)] unfolding set_m by fastforce
    then show ?thesis using separate_entry(1,2) [OF sep True asm(2)] by simp
  next
    case False
    then have y: "hr_Overrides y = Some a" "fst e = hr_Name y" using asm unfolding set_m by auto
    have "fst e' = fst e" if "e' \<in> set ?m" "hr_Overrides (snd e') = Some a" for e'
      using that y y_only [of e' a] unfolding set_m by auto
    then show ?thesis using separate_todo(3) [OF sep y(1)] by blast
  qed
  then show ?thesis
    unfolding separate_def using separate_todo(1,2) [OF sep] keyed_upsert [OF separate_keys(1) [OF sep] refl] by blast
qed

lemma separate_merged:
  assumes sep: "separate h m (y # todo)" and base: "(hr_Name y, base) \<in> set m"
    and len: "length h \<le> length h'" and name: "hr_Name r = hr_Name y"
    and cell: "\<And>a. hr_Overrides r = Some a \<Longrightarrow> a < length h' \<and> (hr_Overrides base = Some a \<or> hr_Overrides base = None \<and> length h \<le> a)"
  shows "separate h' (upsert (hr_Name y) r m) todo"
proof -
  let ?m = "upsert (hr_Name y) r m"
  have set_m: "set ?m = {e \<in> set m. fst e \<noteq> hr_Name y} \<union> {(hr_Name y, r)}"
    by (rule set_upsert_distinct [OF separate_keys(2) [OF sep]])
  have r_only: "hr_Overrides r \<noteq> Some a"
    if asm: "e \<in> set m" "fst e \<noteq> hr_Name y" "hr_Overrides (snd e) = Some a" for e a
  proof
    assume r: "hr_Overrides r = Some a"
    have "\<not> length h \<le> a" using separate_entry(1) [OF sep asm(1,3)] by simp
    then have "hr_Overrides base = Some a" using cell [OF r] by blast
    then show False using separate_entry(3) [OF sep asm(1,3) base] asm(2) by simp
  qed
  have "a < length h' \<and> a \<notin> set (ptrs todo) \<and> (\<forall>e' \<in> set ?m. hr_Overrides (snd e') = Some a \<longrightarrow> fst e' = fst e)"
    if asm: "e \<in> set ?m" "hr_Overrides (snd e) = Some a" for e a
  proof (cases "e = (hr_Name y, r)")
    case True
    then have r: "hr_Overrides r = Some a" using asm(2) by simp
    have "a \<notin> set (ptrs todo)"
      using cell [OF r] separate_entry(2) [OF sep base, of a] separate_todo(2) [OF sep, of a] by auto
    moreover have "fst e' = hr_Name y" if "e' \<in> set ?m" "hr_Overrides (snd e') = Some a" for e'
      using that r_only [of e' a] r unfolding set_m by auto
    ultimately show ?thesis using cell [OF r] True by auto
  next
    case False
    then have e: "e \<in> set m" "fst e \<noteq> hr_Name y" using asm(1) unfolding set_m by auto
    have "fst e' = fst e" if e': "e' \<in> set ?m" "hr_Overrides (snd e') = Some a" for e'
    proof -
      have "e' \<noteq> (hr_Name y, r)" using e'(2) r_only [OF e asm(2)] by auto
      then have "e' \<in> set m" using e'(1) unfolding set_m by blast
      then show ?thesis using separate_entry(3) [OF sep e(1) asm(2)] e'(2) by blast
    qed
    moreover have "a < length h'" using less_le_trans [OF separate_entry(1) [OF sep e(1) asm(2)] len] .
    moreover have "a \<notin> set (ptrs todo)" using separate_entry(2) [OF sep e(1) asm(2)] by simp
    ultimately show ?thesis by blast
  qed
  moreover have "keyed hr_Name ?m" by (rule keyed_upsert [OF separate_keys(1) [OF sep] name])
  ultimately show ?thesis
    unfolding separate_def using separate_todo(1) [OF sep] less_le_trans [OF separate_todo(2) [OF sep] len] by blast
qed

text \<open>The value a step computes, and the entry it touches.\<close>

definition merged_value :: "(string \<times> component_ref) list \<Rightarrow> component_ref \<Rightarrow> component_ref" where
  "merged_value m c = (case map_of m (cr_Name c) of Some b \<Rightarrow> merge_component_ref b c | None \<Rightarrow> c)"

lemma merge_entry_h_step:
  assumes sep: "separate h m (y # todo)" and step: "merge_entry_h (h, m) y = (h', m')"
  shows "separate h' m' todo"
    "abs_entries h' m' = upsert (hr_Name y) (merged_value (abs_entries h m) (abs_ref h y)) (abs_entries h m)"
    "\<And>a. a < length h \<Longrightarrow> (\<And>b. map_of m (hr_Name y) = Some b \<Longrightarrow> hr_Overrides b \<noteq> Some a) \<Longrightarrow> h' ! a = h ! a"
    "\<And>q. q \<in> set todo \<Longrightarrow> abs_ref h' q = abs_ref h q"
    "length h \<le> length h'" "\<exists>r. m' = upsert (hr_Name y) r m"
proof -
  note dist = separate_keys(2) [OF sep]
  have "separate h' m' todo \<and>
    abs_entries h' m' = upsert (hr_Name y) (merged_value (abs_entries h m) (abs_ref h y)) (abs_entries h m) \<and>
    (\<forall>a < length h. (\<forall>b. map_of m (hr_Name y) = Some b \<longrightarrow> hr_Overrides b \<noteq> Some a) \<longrightarrow> h' ! a = h ! a) \<and>
    (\<forall>q \<in> set todo. abs_ref h' q = abs_ref h q) \<and> length h \<le> length h' \<and> (\<exists>r. m' = upsert (hr_Name y) r m)"
  proof (cases "map_of m (hr_Name y)")
    case None
    then have h': "h' = h" and m': "m' = upsert (hr_Name y) y m" using step by (auto simp: merge_entry_h_def)
    have "separate h' m' todo"
      unfolding h' m' using separate_new [OF sep] None by (simp add: map_of_eq_None_iff)
    moreover have "abs_entries h' m' = upsert (hr_Name y) (abs_ref h y) (abs_entries h m)"
      unfolding m' h' by (rule abs_entries_upsert [OF _ dist]) simp
    ultimately show ?thesis using None m' by (auto simp: h' map_of_abs_entries merged_value_def)
  next
    case (Some base)
    obtain r where r: "merge_component_ref_h h base y = (h', r)" and m': "m' = upsert (hr_Name y) r m"
      using step Some by (auto simp: merge_entry_h_def split: prod.splits)
    have base: "(hr_Name y, base) \<in> set m" using map_of_SomeD [OF Some] .
    have name: "hr_Name base = hr_Name y" using base separate_keys(1) [OF sep] by (auto simp: keyed_def)
    have valid: "\<And>a. hr_Overrides base = Some a \<Longrightarrow> a < length h" using separate_entry(1) [OF sep base] by simp
    have H1: "abs_ref h' r = merge_component_ref (abs_ref h base) (abs_ref h y)"
      and H2: "length h \<le> length h'"
      and H3: "\<And>a. a < length h \<Longrightarrow> hr_Overrides base \<noteq> Some a \<Longrightarrow> h' ! a = h ! a"
      and H4: "hr_Name r = hr_Name base"
      and H5: "\<And>a. hr_Overrides r = Some a \<Longrightarrow> a < length h' \<and>
        (hr_Overrides base = Some a \<or> hr_Overrides base = None \<and> length h \<le> a)"
      using merge_component_ref_h_abs [OF r] valid separate_todo(3) [OF sep] by blast+
    have other: "abs_ref h' (snd e) = abs_ref h (snd e)" if asm: "e \<in> set m" "fst e \<noteq> hr_Name y" for e
    proof (rule abs_ref_agree)
      fix a assume a: "hr_Overrides (snd e) = Some a"
      have "hr_Overrides base \<noteq> Some a" using separate_entry(3) [OF sep base, of a e] asm a by auto
      then show "h' ! a = h ! a" using H3 separate_entry(1) [OF sep asm(1) a] by blast
    qed
    have rest: "h' ! a = h ! a" if "a \<in> set (ptrs todo)" for a
      using H3 [of a] separate_todo(2) [OF sep that] separate_entry(2) [OF sep base, of a] that by auto
    have "separate h' m' todo"
      unfolding m' by (rule separate_merged [OF sep base H2 _ H5]) (simp add: H4 name)
    moreover have "abs_entries h' m' = upsert (hr_Name y) (merge_component_ref (abs_ref h base) (abs_ref h y)) (abs_entries h m)"
      unfolding m' H1 [symmetric] by (rule abs_entries_upsert [OF other dist])
    moreover have "\<forall>q \<in> set todo. abs_ref h' q = abs_ref h q"
      using rest ptr_in_ptrs by (blast intro: abs_ref_agree)
    ultimately show ?thesis using Some m' H2 H3 by (auto simp: map_of_abs_entries merged_value_def)
  qed
  then show "separate h' m' todo"
    "abs_entries h' m' = upsert (hr_Name y) (merged_value (abs_entries h m) (abs_ref h y)) (abs_entries h m)"
    "\<And>a. a < length h \<Longrightarrow> (\<And>b. map_of m (hr_Name y) = Some b \<Longrightarrow> hr_Overrides b \<noteq> Some a) \<Longrightarrow> h' ! a = h ! a"
    "\<And>q. q \<in> set todo \<Longrightarrow> abs_ref h' q = abs_ref h q"
    "length h \<le> length h'" "\<exists>r. m' = upsert (hr_Name y) r m" by blast+
qed


lemma foldl_merge_entry_h:
  "separate h m ys \<Longrightarrow> distinct (map hr_Name ys) \<Longrightarrow> foldl merge_entry_h (h, m) ys = (h', m') \<Longrightarrow>
   abs_entries h' m' = merge_entries cr_Name merge_component_ref (map (abs_ref h) ys) (abs_entries h m) \<and>
   (\<forall>a < length h. h' ! a \<noteq> h ! a \<longrightarrow> (\<exists>e \<in> set m. fst e \<in> hr_Name ` set ys \<and> hr_Overrides (snd e) = Some a))"
proof (induction ys arbitrary: h m)
  case (Cons y ys)
  obtain h1 m1 where s: "merge_entry_h (h, m) y = (h1, m1)" by (cases "merge_entry_h (h, m) y")
  note step = merge_entry_h_step [OF Cons.prems(1) s]
  have "foldl merge_entry_h (h1, m1) ys = (h', m')" "distinct (map hr_Name ys)" using Cons.prems s by simp_all
  note IH = Cons.IH [OF step(1) this(2,1)]
  have same: "map (abs_ref h1) ys = map (abs_ref h) ys" using step(4) by simp
  have "merge_entries cr_Name merge_component_ref (map (abs_ref h) (y # ys)) (abs_entries h m) =
      merge_entries cr_Name merge_component_ref (map (abs_ref h) ys) (abs_entries h1 m1)"
    unfolding step(2) by (simp add: merge_entries_def merged_value_def)
  then have "abs_entries h' m' = merge_entries cr_Name merge_component_ref (map (abs_ref h) (y # ys)) (abs_entries h m)"
    using conjunct1 [OF IH] unfolding same by (rule trans [OF _ sym, rotated])
  moreover have "\<exists>e \<in> set m. fst e \<in> hr_Name ` set (y # ys) \<and> hr_Overrides (snd e) = Some a"
    if a: "a < length h" "h' ! a \<noteq> h ! a" for a
  proof (cases "h1 ! a = h ! a")
    case True
    then obtain e where e: "e \<in> set m1" "fst e \<in> hr_Name ` set ys" "hr_Overrides (snd e) = Some a"
      using IH a less_le_trans [OF a(1) step(5)] by auto
    obtain r where m1: "m1 = upsert (hr_Name y) r m" using step(6) by blast
    have "set m1 = {e \<in> set m. fst e \<noteq> hr_Name y} \<union> {(hr_Name y, r)}"
      unfolding m1 by (rule set_upsert_distinct [OF separate_keys(2) [OF Cons.prems(1)]])
    then have "e \<in> set m" using e(1,2) Cons.prems(2) by auto
    then show ?thesis using e by auto
  next
    case False
    then obtain b where "map_of m (hr_Name y) = Some b" "hr_Overrides b = Some a" using step(3) [OF a(1)] by blast
    then show ?thesis using map_of_SomeD [of m "hr_Name y" b] by force
  qed
  ultimately show ?case by blast
qed (simp add: merge_entries_def)

lemma map_sort_key: "map f (sort_key (\<lambda>x. g (f x)) xs) = sort_key g (map f xs)"
proof (induction xs)
  case (Cons x xs)
  have "map f (insort_key (\<lambda>x. g (f x)) x ys) = insort_key g (f x) (map f ys)" for ys
    by (induction ys) simp_all
  then show ?case using Cons.IH by simp
qed simp

lemma set_index_by: "distinct (map key xs) \<Longrightarrow> set (index_by key xs) = (\<lambda>x. (key x, x)) ` set xs"
proof (induction xs rule: rev_induct)
  case (snoc x xs)
  have "{e \<in> (\<lambda>x. (key x, x)) ` set xs. fst e \<noteq> key x} = (\<lambda>x. (key x, x)) ` set xs"
    using snoc.prems by (auto simp: image_iff)
  moreover have "distinct (map fst (index_by key xs))" using keyed_index_by [of key xs] by (simp add: keyed_def)
  ultimately show ?case using snoc set_upsert_distinct [of "index_by key xs" "key x" x] by (auto simp: index_by_def)
qed (simp add: index_by_def)

lemma abs_entries_index_by: "distinct (map hr_Name xs) \<Longrightarrow> abs_entries h (index_by hr_Name xs) = index_by cr_Name (map (abs_ref h) xs)"
proof (induction xs rule: rev_induct)
  case (snoc x xs)
  have "distinct (map fst (index_by hr_Name xs))" using keyed_index_by [of hr_Name xs] by (simp add: keyed_def)
  then have "abs_entries h (upsert (hr_Name x) x (index_by hr_Name xs)) =
      upsert (hr_Name x) (abs_ref h x) (abs_entries h (index_by hr_Name xs))"
    by (intro abs_entries_upsert) simp_all
  then show ?case using snoc by (simp add: index_by_def)
qed (simp add: index_by_def abs_entries_def)

lemma distinct_ptrs_name:
  "distinct (ptrs xs) \<Longrightarrow> x \<in> set xs \<Longrightarrow> x' \<in> set xs \<Longrightarrow> hr_Overrides x = Some a \<Longrightarrow> hr_Overrides x' = Some a \<Longrightarrow> x' = x"
  by (induction xs) (auto dest: ptr_in_ptrs)

lemma separate_start:
  assumes "distinct (map hr_Name xs)" "distinct (ptrs (xs @ ys))" "\<And>a. a \<in> set (ptrs (xs @ ys)) \<Longrightarrow> a < length h"
  shows "separate h (index_by hr_Name xs) ys"
proof -
  have d: "distinct (ptrs xs)" "distinct (ptrs ys)" "set (ptrs xs) \<inter> set (ptrs ys) = {}" using assms(2) by auto
  have "a < length h \<and> a \<notin> set (ptrs ys) \<and> (\<forall>x' \<in> set xs. hr_Overrides x' = Some a \<longrightarrow> hr_Name x' = hr_Name x)"
    if "x \<in> set xs" "hr_Overrides x = Some a" for x a
  proof -
    have "a \<in> set (ptrs xs)" using ptr_in_ptrs that by blast
    then have "a < length h" "a \<notin> set (ptrs ys)" using assms(3) [of a] d(3) by auto
    moreover have "hr_Name x' = hr_Name x" if "x' \<in> set xs" "hr_Overrides x' = Some a" for x'
      using distinct_ptrs_name [OF d(1) _ that(1) _ that(2)] \<open>x \<in> set xs\<close> \<open>hr_Overrides x = Some a\<close> by simp
    ultimately show ?thesis by blast
  qed
  moreover have "\<forall>a \<in> set (ptrs ys). a < length h" using assms(3) by simp
  ultimately show ?thesis
    unfolding separate_def set_index_by [OF assms(1)] using keyed_index_by d(2) by (simp only: ball_simps fst_conv snd_conv) blast
qed

text \<open>
  Property C12: the component merge on a heap of override maps computes the merge of the values, for accumulated references
  and an overlay whose references have unique names and each a map of its own, none shared within or between the two
  lists. The only cells it changes are the maps of accumulated references that the overlay names, so no cell of the overlay
  being merged is written. A map that other references hold as well, as those in a cached catalog do, lies outside these
  conditions; what happens to it then is shown at the end.
\<close>

theorem merge_refs_refines_values:
  assumes "distinct (map hr_Name xs)" "distinct (map hr_Name ys)" "distinct (ptrs (xs @ ys))"
    and "\<forall>a \<in> set (ptrs (xs @ ys)). a < length h"
    and "merge_refs_h h xs ys = (h', rs)"
  shows "map (abs_ref h') rs = merge_lists cr_Name merge_component_ref (map (abs_ref h) xs) (map (abs_ref h) ys) \<and>
    (\<forall>a < length h. h' ! a \<noteq> h ! a \<longrightarrow> (\<exists>x \<in> set xs. hr_Name x \<in> hr_Name ` set ys \<and> hr_Overrides x = Some a))"
proof -
  obtain m where m: "foldl merge_entry_h (h, index_by hr_Name xs) ys = (h', m)" and rs: "rs = sort_key hr_Name (map snd m)"
    using assms(5) by (auto simp: merge_refs_h_def split: prod.splits)
  have sep: "separate h (index_by hr_Name xs) ys" using separate_start assms(1,3,4) by blast
  note fold = foldl_merge_entry_h [OF sep assms(2) m]
  have "map snd (abs_entries h' m) = map (abs_ref h') (map snd m)"
    by (simp add: abs_entries_def case_prod_unfold)
  moreover have "map (abs_ref h') rs = sort_key cr_Name (map (abs_ref h') (map snd m))"
    unfolding rs using map_sort_key [of "abs_ref h'" cr_Name "map snd m"] by simp
  ultimately have "map (abs_ref h') rs = sort_key cr_Name (map snd (abs_entries h' m))" by simp
  then have "map (abs_ref h') rs = merge_lists cr_Name merge_component_ref (map (abs_ref h) xs) (map (abs_ref h) ys)"
    unfolding conjunct1 [OF fold] merge_lists_def abs_entries_index_by [OF assms(1)] .
  moreover have "\<exists>x \<in> set xs. hr_Name x \<in> hr_Name ` set ys \<and> hr_Overrides x = Some a"
    if a: "a < length h" "h' ! a \<noteq> h ! a" for a
    using conjunct2 [OF fold] a unfolding set_index_by [OF assms(1)] by fastforce
  ultimately show ?thesis by blast
qed

section \<open>Two resolutions over one cached catalog\<close>


definition cached_ref :: "string \<Rightarrow> nat \<Rightarrow> href" where
  "cached_ref name a =
     \<lparr>hr_Fields = (empty_ref name) \<lparr>cr_Type := ComponentTypeHelm\<rparr>, hr_Overrides = Some a\<rparr>"

definition driver_version :: "string \<Rightarrow> value_map" where
  "driver_version v = [(''driver'', VMap [(''version'', VStr v)])]"

text \<open>
  Composing one chain changes what a later composition over the same catalog returns. The
  catalog holds a component with driver version 570 in the first cell, and an overlay that raises it to
  580 in the second. A fresh composition of the first chain gives 570; after the longer chain has been
  composed, the same composition gives 580 - whether the component comes from an overlay or from the
  base recipe.
\<close>

theorem composition_contaminates_catalog:
  "let cache = [driver_version ''570'', driver_version ''580''];
       intro = [cached_ref ''gpu-operator'' 0]; raise = [cached_ref ''gpu-operator'' 1];
       result = (\<lambda>(h, refs). map (\<lambda>r. cr_Overrides (abs_ref h r)) refs);
       after_overlay = fst (compose_refs_h cache [] [intro, raise]);
       after_base = fst (compose_refs_h cache intro [raise])
   in result (compose_refs_h cache [] [intro]) = [Some (driver_version ''570'')] \<and>
      result (compose_refs_h after_overlay [] [intro]) = [Some (driver_version ''580'')] \<and>
      result (compose_refs_h cache intro []) = [Some (driver_version ''570'')] \<and>
      result (compose_refs_h after_base intro []) = [Some (driver_version ''580'')]"
  by code_simp

text \<open>An input for the refinement.\<close>

theorem merge_refs_refines_values_witness:
  "map (abs_ref (fst (merge_refs_h [driver_version ''570'', driver_version ''580''] [cached_ref ''op'' 0] [cached_ref ''op'' 1])))
       (snd (merge_refs_h [driver_version ''570'', driver_version ''580''] [cached_ref ''op'' 0] [cached_ref ''op'' 1])) =
     merge_lists cr_Name merge_component_ref
       (map (abs_ref [driver_version ''570'', driver_version ''580'']) [cached_ref ''op'' 0])
       (map (abs_ref [driver_version ''570'', driver_version ''580'']) [cached_ref ''op'' 1])"
  by (rule conjunct1 [OF merge_refs_refines_values]) (simp_all add: cached_ref_def ptrs_def)

end
