(* ===== verification/Policy_Resolution.thy ===== *)
theory Policy_Resolution
  imports Profile_Lock
begin

section \<open>Resolution of the GPU allocation policy (pkg/validator/v1/allocation_policy.go)\<close>

text \<open>
  Validation resolves the policy from the hydrated values of the enabled advertiser components. It reads booleans
  its own way: a null counts as absent. The code documents that what the hydration gate of theory \<open>Profile_Lock\<close>
  emits is exactly what this resolution accepts; the theorem says how far that holds, and the last section
  shows where it fails.
\<close>

definition GPUAllocationPolicyUnspecified :: string where "GPUAllocationPolicyUnspecified = ''unspecified''"
definition GPUAllocationPolicyDevicePluginExtendedResource :: string where
  "GPUAllocationPolicyDevicePluginExtendedResource = ''device-plugin-extended-resource''"
definition GPUAllocationPolicyDRAResourceClaim :: string where "GPUAllocationPolicyDRAResourceClaim = ''dra-resource-claim''"

lemmas policy_values =
  GPUAllocationPolicyUnspecified_def GPUAllocationPolicyDevicePluginExtendedResource_def GPUAllocationPolicyDRAResourceClaim_def

fun lookup_bool_from :: "gval \<Rightarrow> string list \<Rightarrow> bool option res" where
  "lookup_bool_from current [] =
     (case current of VBool b \<Rightarrow> Inr (Some b) | _ \<Rightarrow> invalid ''component value must be a boolean'' [])"
| "lookup_bool_from current (part # parts) =
     (case current of
        VMap m \<Rightarrow>
          (case map_of m part of
             None \<Rightarrow> Inr None
           | Some VNull \<Rightarrow> Inr None
           | Some v \<Rightarrow> lookup_bool_from v parts)
      | _ \<Rightarrow> invalid ''component value: segment %q is not a map'' [part])"

definition lookup_bool_value_found :: "value_map \<Rightarrow> string \<Rightarrow> bool option res" where
  "lookup_bool_value_found values path = lookup_bool_from (VMap values) (dot_split path)"

definition lookup_bool_value :: "value_map \<Rightarrow> string \<Rightarrow> bool \<Rightarrow> bool res" where
  "lookup_bool_value values path fallback =
     res_bind (lookup_bool_value_found values path) (\<lambda>v. Inr (case v of None \<Rightarrow> fallback | Some b \<Rightarrow> b))"

text \<open>The DRA driver in force and its switch and waiver; without a driver both read false.\<close>

definition dra_component :: "recipe_result \<Rightarrow> component_ref option" where
  "dra_component r =
     (case enabled_component_ref r ComponentDRADriver of
        Some ref \<Rightarrow> Some ref
      | None \<Rightarrow> enabled_component_ref r ComponentDRADriverOCP)"

definition read_dra :: "(string \<Rightarrow> file_read) \<Rightarrow> recipe_result \<Rightarrow> (bool \<times> bool) res" where
  "read_dra read_file r =
     (case dra_component r of
        None \<Rightarrow> Inr (False, False)
      | Some ref \<Rightarrow>
          res_bind (get_values_for_component read_file r (cr_Name ref)) (\<lambda>values.
          res_bind (lookup_bool_value_found values PathDRAGPUsEnabled) (\<lambda>switch.
            case switch of
              None \<Rightarrow> invalid ''invalid GPU allocation configuration: component %q is enabled but %q is not set''
                        [cr_Name ref, PathDRAGPUsEnabled]
            | Some gpus \<Rightarrow>
                res_bind (lookup_bool_value values PathDRAGPUsEnabledOverride False) (\<lambda>waiver. Inr (gpus, waiver)))))"

definition operator_component :: "recipe_result \<Rightarrow> (component_ref option \<times> string) res" where
  "operator_component r =
     (case (enabled_component_ref r ComponentGPUOperator, enabled_component_ref r ComponentGPUOperatorOCP) of
        (Some _, Some _) \<Rightarrow>
          invalid ''invalid GPU allocation configuration: components %q and %q are both enabled''
            [ComponentGPUOperator, ComponentGPUOperatorOCP]
      | (None, Some ref) \<Rightarrow> Inr (Some ref, ComponentGPUOperatorOCP)
      | (op, None) \<Rightarrow> Inr (op, ComponentGPUOperator))"

definition read_device_plugin :: "(string \<Rightarrow> file_read) \<Rightarrow> recipe_result \<Rightarrow> component_ref option \<Rightarrow> bool res" where
  "read_device_plugin read_file r op =
     (case op of
        None \<Rightarrow> Inr False
      | Some ref \<Rightarrow>
          res_bind (get_values_for_component read_file r (cr_Name ref)) (\<lambda>values.
            lookup_bool_value values PathDevicePluginEnabled True))"

definition advertiser_of :: "recipe_result \<Rightarrow> string" where
  "advertiser_of r = (case selected_profile_of r of None \<Rightarrow> [] | Some sel \<Rightarrow> sp_Advertiser sel)"

definition policy_verdict :: "recipe_result \<Rightarrow> bool \<Rightarrow> bool \<Rightarrow> bool \<Rightarrow> string \<Rightarrow> string res" where
  "policy_verdict r gpus waiver device_plugin operator_name =
     (let present = dra_component r \<noteq> None
      in if advertiser_of r = AdvertiserExternal then
           res_bind (check_coherence
               \<lparr>ob_Advertiser = AdvertiserExternal, ob_DevicePluginEnabled = Some device_plugin, ob_DRAGPUsEnabled = Some gpus,
                ob_DRAGPUsEnabledOverride = (if present then Some waiver else None), ob_GPUOperatorComponent = []\<rparr>)
             (\<lambda>_. Inr GPUAllocationPolicyDevicePluginExtendedResource)
         else
           res_bind (check_coherence
               \<lparr>ob_Advertiser = [], ob_DevicePluginEnabled = Some device_plugin,
                ob_DRAGPUsEnabled = (if present then Some gpus else None),
                ob_DRAGPUsEnabledOverride = (if present then Some waiver else None), ob_GPUOperatorComponent = operator_name\<rparr>)
             (\<lambda>_. Inr (if gpus then GPUAllocationPolicyDRAResourceClaim else GPUAllocationPolicyDevicePluginExtendedResource)))"

definition resolve_gpu_allocation_policy :: "(string \<Rightarrow> file_read) \<Rightarrow> recipe_result option \<Rightarrow> string res" where
  "resolve_gpu_allocation_policy read_file result =
     (case result of
        None \<Rightarrow> Inr GPUAllocationPolicyUnspecified
      | Some r \<Rightarrow>
          res_bind (case selected_profile_of r of None \<Rightarrow> Inr () | Some sel \<Rightarrow> validate_advertiser (sp_Advertiser sel)) (\<lambda>_.
          res_bind (read_dra read_file r) (\<lambda>(gpus, waiver).
          res_bind (operator_component r) (\<lambda>(op, operator_name).
          res_bind (read_device_plugin read_file r op) (\<lambda>device_plugin.
            policy_verdict r gpus waiver device_plugin operator_name)))))"

subsection \<open>The two readings of a boolean\<close>

text \<open>Where the gate reads a boolean or finds the path absent, the resolution does too.\<close>

lemma value_at_step:
  assumes "ps \<noteq> []" "snd (value_at m (p # ps)) = PathPresent"
  shows "\<exists>sub. map_of m p = Some (VMap sub) \<and> value_at m (p # ps) = value_at sub ps"
  using assms by (cases "map_of m p") (auto split: gval.splits)

lemma lookup_bool_from_present:
  "ps \<noteq> [] \<Longrightarrow> value_at m ps = (VBool b, PathPresent) \<Longrightarrow> lookup_bool_from (VMap m) ps = Inr (Some b)"
proof (induction ps arbitrary: m)
  case (Cons p ps)
  show ?case
  proof (cases "ps = []")
    case True
    then show ?thesis using Cons.prems(2) by (auto split: option.splits)
  next
    case False
    then obtain sub where "map_of m p = Some (VMap sub)" "value_at sub ps = (VBool b, PathPresent)"
      using value_at_step [of ps m p] Cons.prems(2) by auto
    then show ?thesis using Cons.IH [OF False] by simp
  qed
qed simp

lemma lookup_bool_from_absent:
  "ps \<noteq> [] \<Longrightarrow> snd (value_at m ps) = PathAbsent \<Longrightarrow> lookup_bool_from (VMap m) ps = Inr None"
proof (induction ps arbitrary: m)
  case (Cons p ps)
  show ?case
  proof (cases "map_of m p")
    case (Some v)
    then have "ps \<noteq> []" using Cons.prems(2) by auto
    moreover then obtain sub where "v = VMap sub" "snd (value_at sub ps) = PathAbsent"
      using Some Cons.prems(2) by (cases v) auto
    ultimately show ?thesis using Some Cons.IH by simp
  qed simp
qed simp

lemma profile_bool_lookup:
  assumes "profile_bool_at_path values component path = Inr v"
  shows "lookup_bool_value_found values path = Inr v"
proof -
  obtain x st where x: "value_at values (dot_split path) = (x, st)" by (cases "value_at values (dot_split path)")
  show ?thesis
    using assms lookup_bool_from_present [of "dot_split path" "values"] lookup_bool_from_absent [of "dot_split path" "values"] x
    by (cases st; cases x) (auto simp: profile_bool_at_path_def profile_value_at_path_def lookup_bool_value_found_def)
qed

subsection \<open>What the gate emits is accepted\<close>

lemma hydrated_component:
  assumes val: "validate_profile_values read_file scalar_ok r = Inr hydrated" and sel: "selected_profile_of r = Some sel"
    and trig: "profile_closure_triggered r" and c: "component \<in> en_Component ` set descriptor"
  shows "case enabled_component_ref r component of
           None \<Rightarrow> map_of hydrated component = None
         | Some ref \<Rightarrow> cr_Name ref = component \<and>
             (\<exists>values. map_of hydrated component = Some values \<and> get_values_for_component read_file r component = Inr values)"
proof (cases "enabled_component_ref r component")
  case None
  have "map_of hydrated component = None"
  proof (cases "component \<in> fst ` set (effective_lock_set r)")
    case True
    then obtain vals where "check_locked_component read_file scalar_ok r component = Inr vals"
      using validate_profile_values_Inr(1) [OF val sel] by blast
    then show ?thesis using check_locked_component_Inr(1) None by fastforce
  qed (rule validate_profile_values_Inr(2) [OF val sel])
  then show ?thesis using None by simp
next
  case (Some cref)
  then have "component \<in> fst ` set (effective_lock_set r)"
    using c trig by (auto simp: effective_lock_set_keys [OF sel] closure_descriptor_entries_def)
  then obtain vals where "check_locked_component read_file scalar_ok r component = Inr vals" "map_of hydrated component = Some vals"
    using validate_profile_values_Inr(1) [OF val sel] by blast
  then show ?thesis
    using check_locked_component_Inr(2) enabled_component_ref_SomeD [OF Some] by (auto simp: Some)
qed

lemma descriptor_components:
  "ComponentGPUOperator \<in> en_Component ` set descriptor" "ComponentGPUOperatorOCP \<in> en_Component ` set descriptor"
  "ComponentDRADriver \<in> en_Component ` set descriptor"
  by (simp_all add: descriptor_def)

lemma check_coherence_cong:
  assumes "ob_Advertiser a = ob_Advertiser b"
    "(ob_DevicePluginEnabled a = Some True) = (ob_DevicePluginEnabled b = Some True)"
    "(ob_DRAGPUsEnabled a = Some True) = (ob_DRAGPUsEnabled b = Some True)"
    "(ob_DRAGPUsEnabledOverride a = Some True) = (ob_DRAGPUsEnabledOverride b = Some True)"
  shows "is_ok (check_coherence a) = is_ok (check_coherence b)"
  using assms by (cases "validate_advertiser (ob_Advertiser b)") (simp_all add: check_coherence_def Let_def)

lemma read_dra_agrees:
  assumes "observe_dra hydrated ob = Inr ob'"
    and "case enabled_component_ref r ComponentDRADriver of
           None \<Rightarrow> map_of hydrated ComponentDRADriver = None
         | Some ref \<Rightarrow> cr_Name ref = ComponentDRADriver \<and>
             (\<exists>vals. map_of hydrated ComponentDRADriver = Some vals \<and> get_values_for_component read_file r ComponentDRADriver = Inr vals)"
    and ocp: "enabled_component_ref r ComponentDRADriverOCP = None"
  shows "\<exists>g w. read_dra read_file r = Inr (g, w) \<and>
    ob' = (if dra_component r = None then ob else ob \<lparr>ob_DRAGPUsEnabled := Some g, ob_DRAGPUsEnabledOverride := Some w\<rparr>) \<and>
    (dra_component r = None \<longrightarrow> \<not> g \<and> \<not> w)"
proof (cases "enabled_component_ref r ComponentDRADriver")
  case None
  then show ?thesis using assms by (auto simp: read_dra_def dra_component_def observe_dra_def)
next
  case (Some ref)
  then obtain vals where v: "map_of hydrated ComponentDRADriver = Some vals"
      "get_values_for_component read_file r (cr_Name ref) = Inr vals"
    using assms(2) by auto
  obtain g w where g: "profile_bool_at_path vals ComponentDRADriver PathDRAGPUsEnabled = Inr (Some g)"
    and w: "profile_bool_at_path vals ComponentDRADriver PathDRAGPUsEnabledOverride = Inr w"
    and ob': "ob' = ob \<lparr>ob_DRAGPUsEnabled := Some g, ob_DRAGPUsEnabledOverride := Some (case w of None \<Rightarrow> False | Some b \<Rightarrow> b)\<rparr>"
    using assms(1) unfolding observe_dra_def v(1) option.case res_bind_Inr
    by (elim exE conjE) (simp split: option.split_asm, auto simp: res_bind_Inr)
  have "dra_component r = Some ref" using Some by (simp add: dra_component_def)
  then show ?thesis
    using v(2) profile_bool_lookup [OF g] profile_bool_lookup [OF w] ob' by (simp add: read_dra_def lookup_bool_value_def)
qed

lemma device_plugin_reading:
  assumes "profile_bool_at_path vals component PathDevicePluginEnabled = Inr v"
    and "get_values_for_component read_file r (cr_Name ref) = Inr vals"
  shows "read_device_plugin read_file r (Some ref) = Inr (case v of None \<Rightarrow> True | Some b \<Rightarrow> b)"
  using profile_bool_lookup [OF assms(1)] assms(2) by (simp add: read_device_plugin_def lookup_bool_value_def)

lemma operator_agrees:
  assumes fold: "res_fold (observe_operator external hydrated) (no_observation adv)
      [ComponentGPUOperator, ComponentGPUOperatorOCP] = Inr ob"
    and comp: "\<And>c. c \<in> {ComponentGPUOperator, ComponentGPUOperatorOCP} \<Longrightarrow>
      case enabled_component_ref r c of
           None \<Rightarrow> map_of hydrated c = None
         | Some ref \<Rightarrow> cr_Name ref = c \<and>
             (\<exists>vals. map_of hydrated c = Some vals \<and> get_values_for_component read_file r c = Inr vals)"
    and one: "enabled_component_ref r ComponentGPUOperator = None \<or> enabled_component_ref r ComponentGPUOperatorOCP = None"
  shows "\<exists>op name dp. operator_component r = Inr (op, name) \<and> read_device_plugin read_file r op = Inr dp \<and>
    ob_Advertiser ob = adv \<and> (ob_DevicePluginEnabled ob = Some True) = dp \<and>
    ob_DRAGPUsEnabled ob = None \<and> ob_DRAGPUsEnabledOverride ob = None"
proof -
  have absent: "map_of hydrated c = None" if "enabled_component_ref r c = None" "c \<in> {ComponentGPUOperator, ComponentGPUOperatorOCP}" for c
    using comp [OF that(2)] that(1) by simp
  have present: "cr_Name ref = c" "\<exists>vals. map_of hydrated c = Some vals \<and> get_values_for_component read_file r (cr_Name ref) = Inr vals"
    if "enabled_component_ref r c = Some ref" "c \<in> {ComponentGPUOperator, ComponentGPUOperatorOCP}" for c ref
    using comp [OF that(2)] that(1) by auto
  show ?thesis
  proof (cases "enabled_component_ref r ComponentGPUOperator")
    case op: None
    show ?thesis
    proof (cases "enabled_component_ref r ComponentGPUOperatorOCP")
      case None
      then show ?thesis
        using fold op absent by (auto simp: observe_operator_def no_observation_def operator_component_def read_device_plugin_def)
    next
      case (Some ref)
      then obtain vals where v: "map_of hydrated ComponentGPUOperatorOCP = Some vals"
          "get_values_for_component read_file r (cr_Name ref) = Inr vals"
        using present [OF Some] by auto
      then obtain x where x: "profile_bool_at_path vals ComponentGPUOperatorOCP PathDevicePluginEnabled = Inr x"
        and ob: "ob = (no_observation adv) \<lparr>ob_DevicePluginEnabled := Some (case x of None \<Rightarrow> True | Some b \<Rightarrow> b),
                        ob_GPUOperatorComponent := ComponentGPUOperatorOCP\<rparr>"
        using fold absent [OF op] by (auto simp: observe_operator_def no_observation_def Let_def res_bind_Inr split: sum.splits)
      then show ?thesis
        using op Some device_plugin_reading [OF x v(2)] by (simp add: operator_component_def no_observation_def)
    qed
  next
    case (Some ref)
    then have ocp: "enabled_component_ref r ComponentGPUOperatorOCP = None" using one by simp
    obtain vals where v: "map_of hydrated ComponentGPUOperator = Some vals"
        "get_values_for_component read_file r (cr_Name ref) = Inr vals"
      using present [OF Some] by auto
    then obtain x where x: "profile_bool_at_path vals ComponentGPUOperator PathDevicePluginEnabled = Inr x"
      and ob: "ob = (no_observation adv) \<lparr>ob_DevicePluginEnabled := Some (case x of None \<Rightarrow> True | Some b \<Rightarrow> b),
                      ob_GPUOperatorComponent := ComponentGPUOperator\<rparr>"
      using fold absent [OF ocp] by (auto simp: observe_operator_def no_observation_def Let_def res_bind_Inr split: sum.splits)
    then show ?thesis
      using ocp Some device_plugin_reading [OF x v(2)] by (simp add: operator_component_def no_observation_def)
  qed
qed

text \<open>
  Property C15: what the hydration gate emits, validation accepts, for a recipe with a selected profile whose owned paths
  trigger the closure over the advertisement components, at most one GPU operator enabled and the OpenShift DRA driver not
  enabled. The policy is then an explicit DRA claim exactly when the advertiser is not external and the DRA driver's switch is
  on. Without a selected profile, or with one that owns nothing of advertisement, the gate evaluates no advertiser and the
  property says nothing: the resolution may reject such a recipe.
\<close>

theorem gate_implies_policy:
  assumes "validate_profile_values read_file scalar_ok r = Inr hydrated"
    and "selected_profile_of r = Some sel" "profile_closure_triggered r"
    and "enabled_component_ref r ComponentGPUOperator = None \<or> enabled_component_ref r ComponentGPUOperatorOCP = None"
    and "enabled_component_ref r ComponentDRADriverOCP = None"
  shows "\<exists>gpus waiver. read_dra read_file r = Inr (gpus, waiver) \<and>
    resolve_gpu_allocation_policy read_file (Some r) =
      Inr (if sp_Advertiser sel \<noteq> AdvertiserExternal \<and> gpus then GPUAllocationPolicyDRAResourceClaim
           else GPUAllocationPolicyDevicePluginExtendedResource)"
proof -
  note comp = hydrated_component [OF assms(1-3)]
  let ?adv = "sp_Advertiser sel"
  obtain ob ob' where fold: "res_fold (observe_operator (?adv = AdvertiserExternal) hydrated) (no_observation ?adv)
        [ComponentGPUOperator, ComponentGPUOperatorOCP] = Inr ob"
    and dra: "observe_dra hydrated ob = Inr ob'" and ok: "is_ok (check_coherence ob')"
    using validate_profile_values_Inr(3) [OF assms(1,2)] assms(2,3)
    by (auto simp: check_advertiser_coherence_def is_ok_bind simp del: res_fold.simps)
  obtain op name dp where op: "operator_component r = Inr (op, name)" "read_device_plugin read_file r op = Inr dp"
    and ob: "ob_Advertiser ob = ?adv" "(ob_DevicePluginEnabled ob = Some True) = dp"
      "ob_DRAGPUsEnabled ob = None" "ob_DRAGPUsEnabledOverride ob = None"
    using operator_agrees [OF fold _ assms(4), of read_file] comp descriptor_components by blast
  obtain g w where gw: "read_dra read_file r = Inr (g, w)"
    and ob': "ob' = (if dra_component r = None then ob else ob \<lparr>ob_DRAGPUsEnabled := Some g, ob_DRAGPUsEnabledOverride := Some w\<rparr>)"
    and none: "dra_component r = None \<longrightarrow> \<not> g \<and> \<not> w"
    using read_dra_agrees [OF dra comp [OF descriptor_components(3)] assms(5)] by (elim exE conjE)
  have adv: "ob_Advertiser ob' = ?adv" using ob' ob(1) by simp
  have valid: "is_ok (validate_advertiser ?adv)" using ok adv by (auto simp: check_coherence_def split: sum.splits)
  then have closed: "?adv = [] \<or> ?adv = AdvertiserExternal"
    by (auto simp: validate_advertiser_def AdvertiserExternal_def split: if_splits)
  obtain v where v: "validate_advertiser ?adv = Inr v" using valid by (auto simp: is_ok_iff)
  have "policy_verdict r g w dp name =
      Inr (if ?adv \<noteq> AdvertiserExternal \<and> g then GPUAllocationPolicyDRAResourceClaim
           else GPUAllocationPolicyDevicePluginExtendedResource)"
  proof -
    let ?o1 = "\<lparr>ob_Advertiser = AdvertiserExternal, ob_DevicePluginEnabled = Some dp, ob_DRAGPUsEnabled = Some g,
        ob_DRAGPUsEnabledOverride = (if dra_component r \<noteq> None then Some w else None), ob_GPUOperatorComponent = []\<rparr>"
    let ?o2 = "\<lparr>ob_Advertiser = [], ob_DevicePluginEnabled = Some dp, ob_DRAGPUsEnabled = (if dra_component r \<noteq> None then Some g else None),
        ob_DRAGPUsEnabledOverride = (if dra_component r \<noteq> None then Some w else None), ob_GPUOperatorComponent = name\<rparr>"
    have "?adv = AdvertiserExternal \<Longrightarrow> is_ok (check_coherence ?o1)" "?adv = [] \<Longrightarrow> is_ok (check_coherence ?o2)"
      using check_coherence_cong [of ob' ?o1] check_coherence_cong [of ob' ?o2] ok adv ob' ob none
      by (auto split: if_splits)
    then show ?thesis
      using closed assms(2) by (auto simp: policy_verdict_def Let_def advertiser_of_def is_ok_iff AdvertiserExternal_def)
  qed
  then show ?thesis using gw op v assms(2) by (simp add: resolve_gpu_allocation_policy_def)
qed

subsection \<open>Where gate and resolution differ\<close>

definition sample_component :: "string \<Rightarrow> value_map \<Rightarrow> component_ref" where
  "sample_component name overrides =
     (empty_ref name) \<lparr>cr_Type := ComponentTypeHelm, cr_Overrides := Some overrides\<rparr>"

definition sample_recipe :: "string \<Rightarrow> string \<Rightarrow> string \<Rightarrow> bool \<Rightarrow> bool \<Rightarrow> recipe_result" where
  "sample_recipe advertiser operator driver device_plugin gpus =
     \<lparr>rr_Kind = RecipeResultKind, rr_APIVersion = RecipeResultGroupVersion,
      rr_Metadata = \<lparr>rmd_Version = [], rmd_AppliedOverlays = [], rmd_ExcludedOverlays = [], rmd_ConstraintWarnings = [],
        rmd_SelectedProfile = Some \<lparr>sp_Name = ''advertiser'', sp_Value = ''chosen'', sp_Advertiser = advertiser,
          sp_OwnedPaths = Some [(operator, [PathDevicePluginEnabled, ProfileEnabledPath])]\<rparr>\<rparr>,
      rr_Criteria = None, rr_AccountingMode = None, rr_Constraints = [],
      rr_ComponentRefs =
        [sample_component operator [(''devicePlugin'', VMap [(''enabled'', VBool device_plugin)])],
         sample_component driver [(''resources'', VMap [(''gpus'', VMap [(''enabled'', VBool gpus)])]),
                                  (PathDRAGPUsEnabledOverride, VBool gpus)]],
      rr_DeploymentOrder = [], rr_Validation = None, rr_ResolvedValues = []\<rparr>"

definition no_files :: "string \<Rightarrow> file_read" where
  "no_files _ = ReadFailed"

lemma gate_implies_policy_witness:
  "resolve_gpu_allocation_policy no_files (Some (sample_recipe [] ComponentGPUOperator ComponentDRADriver False True)) =
     Inr GPUAllocationPolicyDRAResourceClaim"
proof -
  let ?r = "sample_recipe [] ComponentGPUOperator ComponentDRADriver False True"
  obtain hydrated where v: "validate_profile_values no_files (\<lambda>_. True) ?r = Inr hydrated"
  proof -
    have "is_ok (validate_profile_values no_files (\<lambda>_. True) ?r)" by code_simp
    then show ?thesis using that by (auto simp: is_ok_iff)
  qed
  obtain sel where sel: "selected_profile_of ?r = Some sel" "sp_Advertiser sel = []"
    by (simp add: selected_profile_of_def sample_recipe_def)
  have side: "profile_closure_triggered ?r" "enabled_component_ref ?r ComponentGPUOperatorOCP = None"
    "enabled_component_ref ?r ComponentDRADriverOCP = None" by code_simp+
  have dra: "read_dra no_files ?r = Inr (True, True)" by code_simp
  show ?thesis
    using gate_implies_policy [OF v sel(1) side(1) _ side(3)] side(2) sel(2) dra by (auto simp: AdvertiserExternal_def)
qed

text \<open>
  The gate never reads the OpenShift DRA driver, so on OpenShift recipes it disagrees with the resolution in
  both directions. With an external advertiser and the driver's switch on, the gate emits a recipe that validation
  rejects as dual advertisement; with the driver as the only advertiser, the gate rejects a recipe that
  validation resolves to an explicit DRA claim.
\<close>

theorem ocp_driver_escapes_gate:
  "is_ok (validate_profile_values no_files (\<lambda>_. True)
       (sample_recipe AdvertiserExternal ComponentGPUOperatorOCP ComponentDRADriverOCP False True)) \<and>
   \<not> is_ok (resolve_gpu_allocation_policy no_files
       (Some (sample_recipe AdvertiserExternal ComponentGPUOperatorOCP ComponentDRADriverOCP False True))) \<and>
   \<not> is_ok (validate_profile_values no_files (\<lambda>_. True)
       (sample_recipe [] ComponentGPUOperatorOCP ComponentDRADriverOCP False True)) \<and>
   resolve_gpu_allocation_policy no_files
       (Some (sample_recipe [] ComponentGPUOperatorOCP ComponentDRADriverOCP False True)) =
     Inr GPUAllocationPolicyDRAResourceClaim"
  by code_simp

text \<open>A writer of values, for the witness: flow style, without the quoting of strings.\<close>

primrec flow_text :: "gval \<Rightarrow> string" where
  "flow_text (VMap m) = ''{'' @ concat (map (\<lambda>(k, t). k @ '': '' @ t @ '', '') (map (map_prod id flow_text) m)) @ ''}''"
| "flow_text (VList vs) = ''['' @ concat (map (\<lambda>t. t @ '', '') (map flow_text vs)) @ '']''"
| "flow_text VNull = ''null''"
| "flow_text (VBool b) = (if b then ''true'' else ''false'')"
| "flow_text (VNum n) = show_int n"
| "flow_text (VStr s) = s"
| "flow_text (VOther s) = s"

text \<open>An output equal to the recipe passes the lock, and the lock theorem then speaks about every locked path.\<close>

lemma profile_lock_exact_witness:
  "let r = sample_recipe [] ComponentGPUOperator ComponentDRADriver False True;
       out = [(ComponentGPUOperator, [(''devicePlugin'', VMap [(''enabled'', VBool False)])]),
              (ComponentDRADriver, [(''resources'', VMap [(''gpus'', VMap [(''enabled'', VBool True)])]),
                                    (PathDRAGPUsEnabledOverride, VBool True)])]
   in \<exists>hydrated. validate_profile_values no_files (\<lambda>_. True) r = Inr hydrated \<and>
        (\<forall>component \<in> fst ` set (effective_lock_set r). map_of (candidate_enabled (rr_ComponentRefs r)) component = Some True)"
proof -
  let ?r = "sample_recipe [] ComponentGPUOperator ComponentDRADriver False True"
  let ?out = "[(ComponentGPUOperator, [(''devicePlugin'', VMap [(''enabled'', VBool False)])]),
              (ComponentDRADriver, [(''resources'', VMap [(''gpus'', VMap [(''enabled'', VBool True)])]),
                                    (PathDRAGPUsEnabledOverride, VBool True)])]"
  have lock: "is_ok (validate_profile_lock flow_text no_files (\<lambda>_. True) ?r (rr_ComponentRefs ?r) ?out [])" by code_simp
  have sel: "selected_profile_of ?r = Some (the (selected_profile_of ?r))"
    by (simp add: selected_profile_of_def sample_recipe_def)
  show ?thesis unfolding Let_def using iffD1 [OF profile_lock_exact [OF sel] lock] by blast
qed

end
