(* ===== verification/Satisfied_Snapshot.thy ===== *)
theory Satisfied_Snapshot
  imports Recipe_Resolution
begin

text \<open>
  Resolving against a snapshot that satisfies every constraint is resolving without one: every stage of the filtered build is
  the identity then, and the profile declaration found among the candidates is found again among the recipes applied.
\<close>


subsection \<open>A snapshot that satisfies every constraint\<close>

definition passes_all :: "evaluator \<Rightarrow> bool" where
  "passes_all ev \<longleftrightarrow> (\<forall>c. ev_Error (ev c) = None \<and> ev_Passed (ev c))"

definition constraint_stated :: "constraint \<Rightarrow> bool" where
  "constraint_stated c \<longleftrightarrow> co_Name c \<noteq> [] \<and> co_Value c \<noteq> []"

lemma stated_source: "constraint_stated c \<Longrightarrow> validate_constraint_warning_source c = Inr ()"
  by (simp add: constraint_stated_def validate_constraint_warning_source_def)

lemma evaluate_all_pass:
  assumes "passes_all ev" "\<forall>c \<in> set cs. constraint_stated c"
  shows "evaluate_constraints_from name ev (p, ws) cs = Inr (p, ws)"
  using assms(2)
proof (induction cs arbitrary: p ws)
  case (Cons c cs)
  have e: "ev_Error (ev c) = None" "ev_Passed (ev c)" using assms(1) by (simp_all add: passes_all_def)
  show ?case using Cons by (simp add: stated_source e Let_def)
qed simp

lemma filter_all_pass:
  assumes "passes_all ev" "\<forall>ov \<in> set overlays. \<forall>c \<in> set (rs_Constraints (rm_Spec ov)). constraint_stated c"
  shows "res_fold (filter_overlay ev) (kept, ex, ws) overlays = Inr (kept @ overlays, ex, ws)"
  using assms(2)
proof (induction overlays arbitrary: kept)
  case (Cons ov overlays)
  have "evaluate_overlay_constraints ov ev = Inr (True, [])"
    using evaluate_all_pass [OF assms(1)] Cons.prems by (simp add: evaluate_overlay_constraints_def)
  then show ?case using Cons by (simp add: filter_overlay_def)
qed simp

lemma append_all_pass: "passes_all ev \<Longrightarrow> append_profile_constraints pn vn (Some ev) acc cs = append_profile_constraints pn vn None acc cs"
  by (induction cs arbitrary: acc) (simp_all add: passes_all_def)

lemma apply_all_pass:
  assumes "passes_all ev"
  shows "apply_effective_profile ok spec effective selection (Some ev) = apply_effective_profile ok spec effective selection None"
proof -
  have "apply_profile_value d own v vl (Some ev) spec = apply_profile_value d own v vl None spec" for d own v vl
    by (simp add: apply_profile_value_def append_all_pass [OF assms])
  then show ?thesis by (simp only: apply_effective_profile_def)
qed

lemma index_total:
  "\<forall>n \<in> set candidates. reaches_root s n \<Longrightarrow> is_ok (res_fold (index_candidate s) index candidates)"
proof (induction candidates arbitrary: index)
  case (Cons n candidates)
  then have "is_ok (resolve_inheritance_chain s n)" by (simp add: resolve_ok_iff)
  then obtain ms where "resolve_inheritance_chain s n = Inr ms" by (auto simp: is_ok_iff)
  then show ?case using Cons by (simp add: index_candidate_def)
qed simp

lemma mixin_loop_all_pass:
  assumes "passes_all ev" "\<forall>c \<in> set cs. co_Name c \<in> set contributed \<longrightarrow> constraint_stated c"
  shows "res_fold (evaluate_mixin_constraint ev contributed index) st cs = Inr st"
  using assms(2)
proof (induction cs)
  case (Cons c cs)
  have e: "ev_Error (ev c) = None" "ev_Passed (ev c)" using assms(1) by (simp_all add: passes_all_def)
  have "evaluate_mixin_constraint ev contributed index st c = Inr st"
    using Cons.prems by (simp add: evaluate_mixin_constraint_def stated_source e mixin_failure_def Let_def)
  then show ?case using Cons by simp
qed simp

lemma mixins_all_pass:
  assumes "passes_all ev" "\<forall>c \<in> set (rs_Constraints spec). co_Name c \<in> set contributed \<longrightarrow> constraint_stated c"
    "\<forall>n \<in> set candidates. reaches_root s n"
  shows "evaluate_mixin_constraints s spec (Some ev) contributed candidates = Inr no_mixin_failure"
proof -
  obtain index where "build_mixin_constraint_candidate_index s candidates = Inr index"
    using index_total [OF assms(3), of "[]"] by (auto simp: is_ok_iff build_mixin_constraint_candidate_index_def)
  then show ?thesis
    using mixin_loop_all_pass [OF assms(1,2)] by (simp add: evaluate_mixin_constraints_def)
qed

text \<open>A contributed constraint of the merged recipe is a constraint of a mixin.\<close>

lemma contributed_from_mixin:
  assumes "merge_mixins s spec = Inr (spec', contributed)" "spec_wf spec" "c \<in> set (rs_Constraints spec')" "co_Name c \<in> set contributed"
  shows "\<exists>(m, mx) \<in> set (ms_Mixins s). c \<in> set (mx_Constraints mx)"
proof -
  obtain cn rn where A: "mixins_applied s spec (rs_Mixins spec) (spec', cn, rn, contributed)"
    using merge_mixins_applied [OF assms(1,2)] by blast
  have "contributes s (rs_Mixins spec) (co_Name c)" using A assms(4) by (auto simp: mixins_applied_def)
  then obtain d where d: "provided s (rs_Mixins spec) (co_Name c) d" using contributes_provided by blast
  have "by_key co_Name (rs_Constraints spec') (co_Name c) = Some d" using A d unfolding mixins_applied_def by blast
  moreover have "by_key co_Name (rs_Constraints spec') (co_Name c) = Some c"
    using A assms(3) by (simp add: mixins_applied_def spec_wf_def by_key_distinct)
  ultimately have "d = c" by simp
  then obtain m mx where "map_of (ms_Mixins s) m = Some mx" "by_key co_Name (rev (mx_Constraints mx)) (co_Name c) = Some c"
    using d by (auto simp: provided_def)
  then show ?thesis by (force dest: by_key_Some map_of_SomeD)
qed

subsection \<open>The declaration survives\<close>

text \<open>The metadata that a search for declarations visits.\<close>

definition visited :: "metadata_store \<Rightarrow> recipe_metadata list \<Rightarrow> recipe_metadata set" where
  "visited s overlays = (\<Union>ov \<in> set overlays. {m. \<exists>ms. resolve_inheritance_chain s (rm_Name ov) = Inr ms \<and> m \<in> set ms})"

definition sources :: "metadata_store \<Rightarrow> recipe_metadata set \<Rightarrow> string set" where
  "sources s M = profile_source s ` {m \<in> M. rs_Profile (rm_Spec m) \<noteq> None}"

lemma sources_simps [simp]: "sources s {} = {}" "sources s (A \<union> B) = sources s A \<union> sources s B"
  by (auto simp: sources_def)

lemma add_profile_ok: "is_ok (add_profile ok src m found) \<longleftrightarrow> is_ok (validate_recipe_metadata_profile ok m)"
  by (cases "validate_recipe_metadata_profile ok m") (simp_all add: add_profile_def)

lemma add_profile_keys:
  assumes "add_profile ok src m found = Inr found'"
  shows "fst ` set found' = fst ` set found \<union> (if rs_Profile (rm_Spec m) = None then {} else {src}) \<and>
     (distinct (map fst found) \<longrightarrow> distinct (map fst found'))"
proof -
  have "found' = (case rs_Profile (rm_Spec m) of None \<Rightarrow> found | Some decl \<Rightarrow> upsert src decl found)"
    using assms by (auto simp: add_profile_def res_bind_Inr)
  then show ?thesis by (simp add: distinct_upsert split: option.split)
qed

lemmas add_profile_iff = add_profile_ok add_profile_keys

lemma add_list_profiles:
  "is_ok (res_fold (\<lambda>found m. add_profile ok (profile_source s m) m found) found ms) \<longleftrightarrow>
     (\<forall>m \<in> set ms. is_ok (validate_recipe_metadata_profile ok m))"
  "res_fold (\<lambda>found m. add_profile ok (profile_source s m) m found) found ms = Inr found' \<Longrightarrow>
     fst ` set found' = fst ` set found \<union> sources s (set ms) \<and> (distinct (map fst found) \<longrightarrow> distinct (map fst found'))"
proof -
  show "is_ok (res_fold (\<lambda>found m. add_profile ok (profile_source s m) m found) found ms) \<longleftrightarrow>
     (\<forall>m \<in> set ms. is_ok (validate_recipe_metadata_profile ok m))"
  proof (induction ms arbitrary: found)
    case (Cons m ms)
    show ?case
    proof (cases "add_profile ok (profile_source s m) m found")
      case (Inl err)
      then have "\<not> is_ok (validate_recipe_metadata_profile ok m)" using add_profile_iff(1) [of ok "profile_source s m" m found] by simp
      then show ?thesis by (simp add: Inl)
    next
      case (Inr found1)
      then have "is_ok (validate_recipe_metadata_profile ok m)" using add_profile_iff(1) [of ok "profile_source s m" m found] by simp
      then show ?thesis using Cons by (simp add: Inr)
    qed
  qed simp
  show "res_fold (\<lambda>found m. add_profile ok (profile_source s m) m found) found ms = Inr found' \<Longrightarrow>
     fst ` set found' = fst ` set found \<union> sources s (set ms) \<and> (distinct (map fst found) \<longrightarrow> distinct (map fst found'))"
  proof (induction ms arbitrary: found)
    case (Cons m ms)
    obtain f1 where f1: "add_profile ok (profile_source s m) m found = Inr f1"
      "res_fold (\<lambda>found m. add_profile ok (profile_source s m) m found) f1 ms = Inr found'"
      using Cons.prems by (auto split: sum.splits)
    have "sources s (set (m # ms)) = (if rs_Profile (rm_Spec m) = None then {} else {profile_source s m}) \<union> sources s (set ms)"
      by (auto simp: sources_def)
    then show ?case using Cons.IH [OF f1(2)] add_profile_iff(2) [OF f1(1)] by (simp add: Un_assoc)
  qed (simp add: sources_def)
qed

lemma add_chains:
  assumes "\<forall>ov \<in> set overlays. reaches_root s (rm_Name ov)"
  shows "is_ok (res_fold (add_chain_profiles ok s) found overlays) \<longleftrightarrow>
     (\<forall>m \<in> visited s overlays. is_ok (validate_recipe_metadata_profile ok m))"
    "res_fold (add_chain_profiles ok s) found overlays = Inr found' \<Longrightarrow>
     fst ` set found' = fst ` set found \<union> sources s (visited s overlays) \<and>
     (distinct (map fst found) \<longrightarrow> distinct (map fst found'))"
proof -
  have chain: "\<exists>ms. resolve_inheritance_chain s (rm_Name ov) = Inr ms" if "ov \<in> set overlays" for ov
    using assms that resolve_ok_iff [of s "rm_Name ov"] by (auto simp: is_ok_iff)
  have cons: "visited s (ov # ovs) = set ms \<union> visited s ovs" if "resolve_inheritance_chain s (rm_Name ov) = Inr ms" for ov ovs ms
    using that by (auto simp: visited_def)
  have step: "add_chain_profiles ok s found ov = res_fold (\<lambda>found m. add_profile ok (profile_source s m) m found) found ms"
    if "resolve_inheritance_chain s (rm_Name ov) = Inr ms" for found ov ms
    using that by (simp add: add_chain_profiles_def)
  show "is_ok (res_fold (add_chain_profiles ok s) found overlays) \<longleftrightarrow>
     (\<forall>m \<in> visited s overlays. is_ok (validate_recipe_metadata_profile ok m))"
    using chain
  proof (induction overlays arbitrary: found)
    case (Cons ov overlays)
    obtain ms where ms: "resolve_inheritance_chain s (rm_Name ov) = Inr ms" using Cons.prems by auto
    show ?case
      using Cons add_list_profiles(1) [of ok s found ms]
      by (cases "res_fold (\<lambda>found m. add_profile ok (profile_source s m) m found) found ms")
        (auto simp: step [OF ms] cons [OF ms])
  qed (simp add: visited_def)
  show "res_fold (add_chain_profiles ok s) found overlays = Inr found' \<Longrightarrow>
     fst ` set found' = fst ` set found \<union> sources s (visited s overlays) \<and>
     (distinct (map fst found) \<longrightarrow> distinct (map fst found'))"
    using chain
  proof (induction overlays arbitrary: found)
    case (Cons ov overlays)
    obtain ms where ms: "resolve_inheritance_chain s (rm_Name ov) = Inr ms" using Cons.prems by auto
    obtain f1 where f1: "res_fold (\<lambda>found m. add_profile ok (profile_source s m) m found) found ms = Inr f1"
      "res_fold (add_chain_profiles ok s) f1 overlays = Inr found'"
      using Cons.prems(1) by (auto simp: step [OF ms] split: sum.splits)
    have "fst ` set found' = fst ` set f1 \<union> sources s (visited s overlays) \<and> (distinct (map fst f1) \<longrightarrow> distinct (map fst found'))"
      using Cons.IH [OF f1(2)] Cons.prems(2) by simp
    then show ?case using add_list_profiles(2) [OF f1(1)] by (simp add: cons [OF ms] Un_assoc)
  qed (simp add: visited_def)
qed

text \<open>The recipes applied lead to the same metadata as the candidates they come from.\<close>

definition applied_overlays :: "metadata_store \<Rightarrow> string list \<Rightarrow> recipe_metadata list" where
  "applied_overlays s applied =
     concat (map (\<lambda>name. if name = base_recipe_name then []
                          else case map_of (ms_Overlays s) name of None \<Rightarrow> [] | Some ov \<Rightarrow> [ov]) applied)"

lemma set_applied_overlays:
  "ov \<in> set (applied_overlays s applied) \<longleftrightarrow> (\<exists>n \<in> set applied. n \<noteq> base_recipe_name \<and> map_of (ms_Overlays s) n = Some ov)"
  by (induction applied) (auto simp: applied_overlays_def split: option.splits)

lemma visited_applied:
  assumes "store_wf s" "merge_overlay_chains s overlays (init_base_merged_spec s) = Inr (spec, applied)"
  shows "\<forall>ov \<in> set (applied_overlays s applied). reaches_root s (rm_Name ov)"
    "visited s overlays \<subseteq> insert (ms_Base s) (visited s (applied_overlays s applied))"
    "visited s (applied_overlays s applied) \<subseteq> visited s overlays"
proof -
  obtain names where N: "applied = base_recipe_name # names" "\<forall>n \<in> set names. map_of (ms_Overlays s) n \<noteq> None"
    "set names = (\<Union>ov \<in> set overlays. {a. on_path s (rm_Name ov) a})" "\<forall>ov \<in> set overlays. reaches_root s (rm_Name ov)"
    using merged_chains [OF assms] by blast
  have base: "base_recipe_name \<notin> set names"
    using N(3) on_path_not_root by (auto simp: is_root_def)
  have mem: "ov \<in> set (applied_overlays s applied) \<longleftrightarrow> (\<exists>n \<in> set names. map_of (ms_Overlays s) n = Some ov)" for ov
    unfolding set_applied_overlays N(1) using base by (metis set_ConsD list.set_intros(2))
  have path: "ov \<in> set (applied_overlays s applied) \<Longrightarrow> \<exists>cand \<in> set overlays. on_path s (rm_Name cand) (rm_Name ov)" for ov
    using mem N(3) store_wf_name [OF assms(1)] by blast
  then show reach: "\<forall>ov \<in> set (applied_overlays s applied). reaches_root s (rm_Name ov)"
    using N(4) reaches_root_on_path by blast
  show "visited s overlays \<subseteq> insert (ms_Base s) (visited s (applied_overlays s applied))"
  proof
    fix m assume "m \<in> visited s overlays"
    then obtain cand ms where cand: "cand \<in> set overlays" "resolve_inheritance_chain s (rm_Name cand) = Inr ms" "m \<in> set ms"
      by (auto simp: visited_def)
    then obtain c where c: "ms = ms_Base s # rev c" "links_up s (rm_Name cand) c" by (auto simp: resolve_Inr)
    show "m \<in> insert (ms_Base s) (visited s (applied_overlays s applied))"
    proof (cases "m \<in> set c")
      case True
      have "on_path s (rm_Name cand) (rm_Name m)" using links_up_path [OF c(2) assms(1)] True by blast
      moreover have stored: "map_of (ms_Overlays s) (rm_Name m) = Some m" using links_up_stored [OF c(2) assms(1) True] .
      ultimately have app: "m \<in> set (applied_overlays s applied)" using mem N(3) cand(1) by blast
      then have "reaches_root s (rm_Name m)" using reach by blast
      then obtain ms' where ms': "resolve_inheritance_chain s (rm_Name m) = Inr ms'"
        using resolve_ok_iff [of s "rm_Name m"] by (auto simp: is_ok_iff)
      then obtain c' where c': "ms' = ms_Base s # rev c'" "links_up s (rm_Name m) c'" by (auto simp: resolve_Inr)
      have "\<not> is_root (rm_Name m)" using on_path_not_root \<open>on_path s (rm_Name cand) (rm_Name m)\<close> by blast
      then have "m \<in> set c'" using c'(2) stored by (cases c') auto
      then have "m \<in> set ms'" using c'(1) by simp
      then show ?thesis using app ms' unfolding visited_def by blast
    qed (use cand(3) c(1) in auto)
  qed
  show "visited s (applied_overlays s applied) \<subseteq> visited s overlays"
  proof
    fix m assume "m \<in> visited s (applied_overlays s applied)"
    then obtain ov ms where ov: "ov \<in> set (applied_overlays s applied)" "resolve_inheritance_chain s (rm_Name ov) = Inr ms" "m \<in> set ms"
      by (auto simp: visited_def)
    obtain cand where cand: "cand \<in> set overlays" "on_path s (rm_Name cand) (rm_Name ov)" using path [OF ov(1)] by blast
    then obtain ms' where ms': "resolve_inheritance_chain s (rm_Name cand) = Inr ms'"
      using N(4) resolve_ok_iff [of s "rm_Name cand"] by (auto simp: is_ok_iff)
    obtain c c' where c: "ms = ms_Base s # rev c" "links_up s (rm_Name ov) c" "ms' = ms_Base s # rev c'" "links_up s (rm_Name cand) c'"
      using ov(2) ms' by (auto simp: resolve_Inr)
    have "m \<in> set ms'"
    proof (cases "m \<in> set c")
      case True
      then have "on_path s (rm_Name ov) (rm_Name m)" using links_up_path [OF c(2) assms(1)] by blast
      then have "rm_Name m \<in> rm_Name ` set c'" using links_up_path [OF c(4) assms(1)] on_path_trans [OF cand(2)] by blast
      then obtain m' where "m' \<in> set c'" "rm_Name m' = rm_Name m" by auto
      then have "m' = m" using links_up_stored [OF c(4) assms(1)] links_up_stored [OF c(2) assms(1) True] by fastforce
      then show ?thesis using \<open>m' \<in> set c'\<close> c(3) by simp
    qed (use ov(3) c in auto)
    then show "m \<in> visited s overlays" using cand(1) ms' unfolding visited_def by blast
  qed
qed


lemma single_source:
  assumes "distinct (map fst found)" "fst ` set found \<subseteq> {src}"
  shows "found = [] \<or> (\<exists>decl. found = [(src, decl)])"
proof (cases found)
  case (Cons e es)
  have "es = []"
  proof (rule ccontr)
    assume "es \<noteq> []"
    then obtain e' where e': "e' \<in> set es" by (cases es) auto
    have "fst e = src" "fst e' = src" using assms(2) Cons e' by auto
    moreover have "fst e' \<in> fst ` set es" using e' by blast
    ultimately show False using assms(1) Cons by simp
  qed
  then show ?thesis using Cons assms(2) by (cases e) auto
qed simp

lemma declaration_survives:
  assumes "store_wf s" "resolve_profile_declaration ok s overlays = Inr effective"
    "merge_overlay_chains s overlays (init_base_merged_spec s) = Inr (spec, applied)"
  shows "\<exists>surviving. resolve_applied_profile_declaration ok s applied = Inr surviving \<and>
    is_ok (ensure_profile_declaration_survived effective surviving)"
proof -
  note V = visited_applied [OF assms(1,3)]
  obtain found0 found where f: "add_profile ok base_recipe_name (ms_Base s) [] = Inr found0"
    "res_fold (add_chain_profiles ok s) found0 overlays = Inr found"
    and eff: "(case found of [] \<Rightarrow> Inr None | [(source, decl)] \<Rightarrow> Inr (Some \<lparr>ef_Source = source, ef_Declaration = decl\<rparr>)
       | _ \<Rightarrow> invalid ''resolved composition has multiple profile declarations from %v'' (sort (map fst found))) = Inr effective"
    using assms(2) by (auto simp: resolve_profile_declaration_def res_bind_Inr)
  have reach: "\<forall>ov \<in> set overlays. reaches_root s (rm_Name ov)" using merged_chains [OF assms(1,3)] by blast
  note all = add_chains [OF reach] and app = add_chains [OF V(1)]
  have "is_ok (res_fold (add_chain_profiles ok s) found0 overlays)" using f(2) by simp
  then have "\<forall>m \<in> visited s overlays. is_ok (validate_recipe_metadata_profile ok m)" unfolding all(1) .
  then have "is_ok (res_fold (add_chain_profiles ok s) found0 (applied_overlays s applied))"
    unfolding app(1) using V(3) by blast
  then obtain found' where f': "res_fold (add_chain_profiles ok s) found0 (applied_overlays s applied) = Inr found'" by (auto simp: is_ok_iff)
  note K0 = add_profile_keys [OF f(1)] and K = all(2) [OF f(2)] and K' = app(2) [OF f']
  have dist: "distinct (map fst found')" using K0 K' by simp
  have base: "sources s {ms_Base s} \<subseteq> fst ` set found0"
    using K0 by (auto simp: sources_def profile_source_def)
  have cover: "F \<union> A \<subseteq> F \<union> B" if "A \<subseteq> S \<union> B" "S \<subseteq> F" for A B F S :: "string set"
    using that by blast
  have from_base: "sources s (visited s overlays) \<subseteq> sources s {ms_Base s} \<union> sources s (visited s (applied_overlays s applied))"
    using V(2) unfolding sources_def by blast
  have sub: "fst ` set found \<subseteq> fst ` set found'"
    unfolding conjunct1 [OF K] conjunct1 [OF K'] by (rule cover [OF from_base base])
  have sup: "fst ` set found' \<subseteq> fst ` set found"
  proof -
    have "sources s (visited s (applied_overlays s applied)) \<subseteq> sources s (visited s overlays)"
      unfolding sources_def using V(3) by blast
    then show ?thesis unfolding conjunct1 [OF K] conjunct1 [OF K'] by (rule Un_mono [OF order_refl])
  qed
  have surv: "resolve_applied_profile_declaration ok s applied =
      (case found' of [] \<Rightarrow> Inr None | [(source, decl)] \<Rightarrow> Inr (Some \<lparr>ef_Source = source, ef_Declaration = decl\<rparr>)
       | _ \<Rightarrow> invalid ''resolved composition has multiple profile declarations from %v'' (sort (map fst found')))"
    unfolding resolve_applied_profile_declaration_def applied_overlays_def [symmetric] resolve_profile_declaration_def
    by (simp add: f(1) f')
  consider "found = []" "effective = None" | src decl where "found = [(src, decl)]" "effective = Some \<lparr>ef_Source = src, ef_Declaration = decl\<rparr>"
    using eff by (auto split: list.splits)
  then show ?thesis
  proof cases
    case 1
    then have "found' = []" using sup by simp
    then show ?thesis using surv 1 by (simp add: ensure_profile_declaration_survived_def)
  next
    case 2
    then have "fst ` set found' = {src}" using sub sup by auto
    then obtain decl' where "found' = [(src, decl')]" using single_source [OF dist, of src] by auto
    then show ?thesis using surv 2 by (simp add: ensure_profile_declaration_survived_def)
  qed
qed

text \<open>
  Property C21: a snapshot that satisfies every constraint changes nothing. When all constraints of the catalog name what they
  constrain and its value, and the evaluator passes each of them, resolving against the snapshot gives the recipe,
  or the error, that resolving without one gives: no overlay, mixin or profile is lost on the way.
\<close>

theorem satisfied_snapshot_changes_nothing:
  assumes wf: "store_wf s" "spec_wf (rm_Spec (ms_Base s))" and ev: "passes_all ev"
    and overlays: "\<forall>ov \<in> set (map snd (ms_Overlays s)). \<forall>c \<in> set (rs_Constraints (rm_Spec ov)). constraint_stated c"
    and mixins: "\<forall>(n, mx) \<in> set (ms_Mixins s). \<forall>c \<in> set (mx_Constraints mx). constraint_stated c"
  shows "build_recipe_result_with_evaluator_and_profile env s q (Some ev) selection = build_recipe_result_with_profile env s q selection"
proof -
  let ?ovs = "find_matching_overlays s q"
  have stored: "set ?ovs \<subseteq> set (map snd (ms_Overlays s))"
    using set_find_matching [OF wf(1)] overlay_entries [OF wf(1)] by blast
  then have stated: "\<forall>ov \<in> set ?ovs. \<forall>c \<in> set (rs_Constraints (rm_Spec ov)). constraint_stated c" using overlays by blast
  have kept: "res_fold (filter_overlay ev) ([], [], []) ?ovs = Inr (?ovs, [], [])"
    using filter_all_pass [OF ev stated, of "[]" "[]" "[]"] by simp
  have tail: "res_bind (finalize_recipe_result env q spec applied) (\<lambda>r. res_bind (attach_profile env selected r) (\<lambda>r'. Inr (record_exclusions [] [] r'))) =
      res_bind (finalize_recipe_result env q spec applied) (attach_profile env selected)" for spec applied selected
  proof (cases "finalize_recipe_result env q spec applied")
    case (Inr r)
    show ?thesis
    proof (cases "attach_profile env selected r")
      case (Inr r')
      then show ?thesis
        using attach_profile_Inr(1) [OF Inr] finalize_Inr(12) [OF \<open>finalize_recipe_result env q spec applied = Inr r\<close>]
        by (simp add: \<open>finalize_recipe_result env q spec applied = Inr r\<close> record_exclusions_def split: option.split)
    qed (simp add: Inr)
  qed simp
  show ?thesis
  proof (cases "resolve_profile_declaration (be_ScalarOk env) s ?ovs")
    case (Inl err)
    then show ?thesis
      by (simp add: build_recipe_result_with_evaluator_and_profile_def build_recipe_result_with_profile_def Let_def)
  next
    case eff: (Inr effective)
    show ?thesis
    proof (cases "merge_overlay_chains s ?ovs (init_base_merged_spec s)")
      case (Inl err)
      then show ?thesis
        by (simp add: build_recipe_result_with_evaluator_and_profile_def build_recipe_result_with_profile_def Let_def kept compose_filtered_def)
    next
      case (Inr sa)
      then obtain spec applied where chains: "merge_overlay_chains s ?ovs (init_base_merged_spec s) = Inr (spec, applied)" by (cases sa) simp
      obtain surviving where surv: "resolve_applied_profile_declaration (be_ScalarOk env) s applied = Inr surviving"
        "ensure_profile_declaration_survived effective surviving = Inr ()"
        using declaration_survives [OF wf(1) eff chains] by (auto simp: is_ok_iff)
      show ?thesis
      proof (cases "merge_mixins s spec")
        case (Inl err)
        then show ?thesis
          by (simp add: build_recipe_result_with_evaluator_and_profile_def build_recipe_result_with_profile_def Let_def kept
              compose_filtered_def eff chains)
      next
        case (Inr sc)
        then obtain spec1 contributed where mix: "merge_mixins s spec = Inr (spec1, contributed)" by (cases sc) simp
        obtain names where N: "spec = compose_names s names" "\<forall>n \<in> set names. map_of (ms_Overlays s) n \<noteq> None"
          "\<forall>ov \<in> set ?ovs. reaches_root s (rm_Name ov)"
          using merged_chains [OF wf(1) chains] by blast
        have "spec_wf spec" using compose_names_facts(3) [OF N(2) wf(2)] N(1) by simp
        then have contrib: "\<forall>c \<in> set (rs_Constraints spec1). co_Name c \<in> set contributed \<longrightarrow> constraint_stated c"
          using contributed_from_mixin [OF mix] mixins by fast
        have "evaluate_mixin_constraints s spec1 (Some ev) contributed (map rm_Name ?ovs) = Inr no_mixin_failure"
          by (rule mixins_all_pass [OF ev contrib]) (use N(3) in auto)
        then have "compose_filtered s ev (?ovs, [], []) = Inr (spec1, applied, [], [])"
          by (simp add: compose_filtered_def chains mix after_mixins_def no_mixin_failure_def)
        then show ?thesis
          by (simp add: build_recipe_result_with_evaluator_and_profile_def build_recipe_result_with_profile_def Let_def kept
              eff chains mix surv apply_all_pass [OF ev] tail)
      qed
    qed
  qed
qed

definition new_kernel :: evaluator where
  "new_kernel c = \<lparr>ev_Passed = True, ev_Actual = ''6.8'', ev_Error = None\<rparr>"

lemma satisfied_snapshot_changes_nothing_witness:
  "build_recipe_result_with_evaluator_and_profile sample_env ubuntu_store (new_criteria \<lparr>c_Service := ''eks''\<rparr>) (Some new_kernel) [] =
   build_recipe_result_with_profile sample_env ubuntu_store (new_criteria \<lparr>c_Service := ''eks''\<rparr>) []"
proof (rule satisfied_snapshot_changes_nothing)
  show "store_wf ubuntu_store" "spec_wf (rm_Spec (ms_Base ubuntu_store))"
    by (simp_all add: store_wf_def ubuntu_store_def sample_store_def overlay_of_def spec_wf_def empty_spec_def)
  show "passes_all new_kernel" by (simp add: passes_all_def new_kernel_def)
  show "\<forall>ov \<in> set (map snd (ms_Overlays ubuntu_store)). \<forall>c \<in> set (rs_Constraints (rm_Spec ov)). constraint_stated c"
    by (simp add: ubuntu_store_def sample_store_def overlay_of_def empty_spec_def)
  show "\<forall>(n, mx) \<in> set (ms_Mixins ubuntu_store). \<forall>c \<in> set (mx_Constraints mx). constraint_stated c"
    by (simp add: ubuntu_store_def sample_mixin_def constraint_stated_def)
qed

end
