(* ===== verification/Spec2Isabelle.thy ===== *)
theory Spec2Isabelle
  imports Snapshot_Diff Topology_Collect Fingerprint Corroborate_Sound UAT_Broker Evidence_Verifier Recipe_Reload Aicr_Prelude Aicr_Errors Version Constraint_Expr Helm_Values Component_Registry Component_Ref
    Validation_Phase Criteria_Registry Criteria Spec_Merge Dep_Graph Coverage
    Alloc_Policy Value_Paths Override_Aliasing Recipe_Result Profile_Lock
    Policy_Resolution Profile_Declaration Profile_Resolution Accounting Recipe_Resolution Satisfied_Snapshot
begin

section \<open>AICR: recipes, snapshots and the evidence on them\<close>

text \<open>
  AICR turns a query (service, accelerator, intent, operating system, platform) into a recipe: a list of components with
  versions, override values, constraints and validation phases, which other commands deploy, compare
  with a snapshot of a cluster, and validate. Signed results of such validations are collected into
  a dashboard. This library models the parts of \<open>src/pkg\<close> that decide, and leaves out the parts that transport.
  Definitions have the names of the Go code in snake case; a record's fields carry a prefix.

  \<^bold>\<open>How the parts interact.\<close> A query is parsed against the criteria registry. The overlay store picks the most
  specific overlays that match it, resolves the chain of bases of each and merges the chains, then the
  mixins, into one specification; with a snapshot, an evaluator drops the overlays and mixins whose
  constraints fail, and without a query the fingerprint of the snapshot gives one. The effective profile and the accounting mode write into the override values they
  own; the profile lock and the coherence gates check the result; the dependency graph orders it. Constraints
  are evaluated on snapshots, whose node topology is folded by the collector and unfolded again by evaluation and by
  the comparison of two snapshots. The dashboard classifies signers by the allowlist and folds their
  runs into consensus grids, once the verifier has accepted the bundle of a run; the reservation registry schedules the runs of
  the project's own.

  \<^bold>\<open>Representation.\<close> A Go string is a list of bytes, a slice a list, a map a list with distinct keys in
  the order in which one run iterates over it (\<open>upsert\<close> is assignment), a nil slice that differs from an empty
  one an option. A function that returns an error is a sum, with \<open>Inl\<close> the structured error and a branch for every
  early return; messages keep their format and their arguments. \<open>int\<close> values are integers, with \<open>strconv.Atoi\<close> and the
  folded counters kept at 64 bits. A mutex is one step for each operation. Logging, metrics and context
  cancellation are left out unless a definition has an argument for them.

  \<^bold>\<open>Theories, and what their lemmas show.\<close>
  \<^item> \<open>Aicr_Prelude\<close>, \<open>Aicr_Errors\<close>, \<open>Go_Slices\<close>: results with early return and their inversion rules
    (\<open>res_simps\<close>), package strings, decimal numbers, keyed lists, sorting and grouping of slices (the locale
    \<open>slice_order\<close>), and \<open>pkg/errors\<close>.
  \<^item> \<open>Version\<close> (\<open>pkg/version\<close>), \<open>Constraint_Expr\<close> (\<open>pkg/constraints/constraint.go\<close>): parsing and comparing; the order is
    lexicographic on the common precision, and an evaluation has the outcome of the operator.
  \<^item> \<open>Helm_Values\<close>, \<open>Component_Registry\<close>, \<open>Component_Ref\<close>, \<open>Validation_Phase\<close>, \<open>Spec_Merge\<close> (\<open>pkg/recipe/metadata.go\<close>,
    \<open>components.go\<close>, \<open>validation.go\<close>): the data of a recipe and its merge. The merge acts name by name, through the locale
    \<open>keyed_merge\<close>; a coherent component is deployed as it was declared.
  \<^item> \<open>Override_Aliasing\<close>: the same merge on references into a heap of maps; it refines the merge of values
    as long as nothing is shared, and a second resolution over a cached catalog writes into it.
  \<^item> \<open>Dep_Graph\<close>: validation of dependencies, cycle detection, Kahn's algorithm as a list and as levels. Validation
    succeeds exactly on acyclic graphs without unknown names, and then an order exists and is found.
  \<^item> \<open>Criteria_Registry\<close>, \<open>Criteria\<close>, \<open>Coordinate\<close> (\<open>criteria_registry.go\<close>, \<open>criteria.go\<close>, \<open>coordinate.go\<close>): registration
    traces, parsing, matching, specificity, and the place of criteria on the dashboard with its inverse.
  \<^item> \<open>Overlay_Store\<close>, \<open>Snapshot_Filter\<close>, \<open>Coverage\<close>, \<open>Recipe_Result\<close>, \<open>Recipe_Resolution\<close>, \<open>Recipe_Reload\<close>, \<open>Satisfied_Snapshot\<close>
    (\<open>metadata_store.go\<close>, \<open>builder.go\<close>, \<open>coverage.go\<close>, \<open>adapter.go\<close>): the resolution of a query. Chains are followed from
    root to leaf and cycles are reported; mixins never override; the advice of the coverage error covers; a
    built recipe is ordered and coherent and passes the whole gate on recipes that are read; a snapshot that satisfies everything changes nothing.
  \<^item> \<open>Alloc_Policy\<close>, \<open>Value_Paths\<close>, \<open>Profile_Lock\<close>, \<open>Policy_Resolution\<close>, \<open>Profile_Declaration\<close>, \<open>Profile_Resolution\<close>,
    \<open>Accounting\<close> (\<open>pkg/allocpolicy\<close>, \<open>profile.go\<close>, \<open>profile_resolution.go\<close>, \<open>accounting.go\<close>,
    \<open>validator/v1/allocation_policy.go\<close>): who owns which value of which component. The lock accepts exactly the recipes that
    keep what the profile pinned; the gate implies the policy that the validators read; the accounting
    mode leaves the profile alone.
  \<^item> \<open>Measurement\<close>, \<open>Topology\<close>, \<open>Topology_Collect\<close>, \<open>Constraint_Eval\<close>, \<open>Snapshot_Diff\<close> (\<open>pkg/measurement\<close>, \<open>pkg/collector/topology\<close>,
    \<open>pkg/constraints\<close>, \<open>pkg/diff\<close>): readings, their paths and catalog, the two encodings of the topology (locale
    \<open>folded_encoding\<close>, interpreted for labels and for taints), evaluation and comparison. The listing of the nodes
    ends with the whole cluster or an error; what is collected is read back;
    a node-set constraint never passes on partial knowledge; an unchanged cluster shows no drift.
  \<^item> \<open>Fingerprint\<close> (\<open>pkg/fingerprint\<close>): the identity of a cluster. On a collected cluster the counts, the region and the
    accelerator are those of the nodes, and what the fingerprint selects it confirms.
  \<^item> \<open>Allowlist\<close>, \<open>Consensus\<close>, \<open>Corroborate\<close>, \<open>Corroborate_Sound\<close> (\<open>pkg/evidence/allowlist\<close>, \<open>pkg/corroborate\<close>): who may
    vouch, and what the dashboard then says. No verified identity counts twice and no one off the list
    counts at all.
  \<^item> \<open>Evidence_Inventory\<close>, \<open>Evidence_Verifier\<close> (\<open>pkg/evidence/verifier\<close>): the verification of a bundle. Two directories that
    pass with one digest hold the same files; a run that ends valid has bound the predicate to the signature, the files, the
    recipe and the reports; and the exit code never calls an unreadable bundle invalid.
  \<^item> \<open>UAT_Broker\<close> (\<open>pkg/uatbroker\<close>): the registry of reservations and the nightly matrix.

  \<^bold>\<open>Bounds and fuel.\<close> Cycle detection carries fuel \<open>dfs_fuel\<close>, the number of names and dependency entries, and
  each call enters a name that was not entered before, so it suffices. The loops of Kahn's
  algorithm end by the measure of what is still to be relaxed; the walk along base names ends because each step
  visits a name that was not visited. The pages of the API server have no bound, so that loop is a partial function and
  ends because its context expires. The other recursions are structural.

  \<^bold>\<open>Parameters.\<close> Code outside the repository is an argument with named hypotheses: \<open>sha256\<close> (its
  length, and where it is said that it separates the keys at hand), \<open>regexp\<close>, the YAML and JSON decoders, package \<open>time\<close>, the
  two semver libraries, the validators of \<open>k8s.io/apimachinery\<close>, and what reading a file gives, the
  answers of the API server and of the context while nodes are listed, the YAML library that writes the value of a locked path,
  the sigstore library, the registry and the files of an evidence bundle. The rewrite of a
  health check, the evaluator of a constraint in the resolution and the judgement of floating point values are
  arguments too.

  \<^bold>\<open>Not modelled.\<close> The agents, clients and collectors that talk to a cluster (\<open>pkg/k8s\<close>, \<open>pkg/collector\<close> but for
  the topology, \<open>pkg/snapshotter\<close>, \<open>pkg/chainsaw\<close>, \<open>validators\<close>), whose behaviour is that of the API server; the HTTP
  server and the command line, which bind flags and render; signing, the building of attestations, the fetching of bundles and OCI transport; the generators of
  the bundle, which render templates and write directories (only the classification of components and the choice of
  the chart are modelled); bills of material, mirroring and the tools. The manifest lists each with its reason.
\<close>

end
